(* ===== verification/Prelude.thy ===== *)
theory Prelude
  imports Main "HOL-Library.Word" "HOL-Library.Monad_Syntax"
begin

text \<open>
  The vocabulary every component shares.  A byte buffer is a list of bytes, and a C++
  pointer into a buffer is the list of the bytes from the pointer to the end of the
  buffer, so that \<open>p += k\<close> is \<open>drop k p\<close> and \<open>p[i]\<close> is \<open>rd p i\<close>.  A read past the end
  of the bytes that the caller owns is undefined behaviour in C++; here it is the value
  \<open>None\<close> of the option monad, so no theorem can rely on it.  The theory holds the
  big-endian value of a byte list and its inverse, which carry every integer field
  of every wire format of the program, and the generic lemmas on lists and options that
  the component proofs use.
\<close>

unbundle bit_operations_syntax

type_synonym u8 = "8 word"
type_synonym u16 = "16 word"
type_synonym u32 = "32 word"
type_synonym u64 = "64 word"
type_synonym bytes = "u8 list"

named_theorems wire "rewrite rules for reading what a writer has produced"
named_theorems lens "lengths of the byte lists the writers produce"
named_theorems eval_bits "unfolding used to evaluate closed byte and word terms"

section \<open>Reading through a pointer\<close>

definition rd :: "'a list \<Rightarrow> nat \<Rightarrow> 'a option" where
  "rd p i = (if i < length p then Some (p ! i) else None)"

definition grab :: "nat \<Rightarrow> 'a list \<Rightarrow> 'a list option" where
  "grab n p = (if n \<le> length p then Some (take n p) else None)"

definition require :: "bool \<Rightarrow> unit option" where
  "require b = (if b then Some () else None)"

lemma rd_Nil [simp]: "rd [] i = None"
  by (simp add: rd_def)

lemma rd_Cons_0 [simp]: "rd (x # xs) 0 = Some x"
  by (simp add: rd_def)

lemma rd_Cons_Suc [simp]: "rd (x # xs) (Suc i) = rd xs i"
  by (simp add: rd_def)

lemma rd_Cons_numeral [simp]: "rd (x # xs) (numeral k) = rd xs (pred_numeral k)"
  by (simp only: numeral_eq_Suc rd_Cons_Suc)

lemma rd_append [simp]: "i < length xs \<Longrightarrow> rd (xs @ ys) i = rd xs i"
  by (simp add: rd_def nth_append)

lemma rd_append_ge [simp]: "length xs \<le> i \<Longrightarrow> rd (xs @ ys) i = rd ys (i - length xs)"
  by (auto simp: rd_def nth_append)

lemma rd_Some_iff: "rd p i = Some x \<longleftrightarrow> i < length p \<and> p ! i = x"
  by (auto simp: rd_def)

lemma rd_None_iff: "rd p i = None \<longleftrightarrow> length p \<le> i"
  by (auto simp: rd_def)

lemma rd_drop [simp]: "rd (drop k p) i = rd p (k + i)"
  by (auto simp: rd_def)

lemma grab_Some_iff: "grab n p = Some q \<longleftrightarrow> n \<le> length p \<and> q = take n p"
  by (auto simp: grab_def)

text \<open>What has been read stays the same when more bytes follow.\<close>

named_theorems longer "a read that succeeds gives the same when the buffer is longer"

lemma rd_longer [longer]: "rd p i = Some x \<Longrightarrow> rd (p @ d) i = Some x"
  by (auto simp: rd_def nth_append split: if_splits)

lemma grab_longer [longer]: "grab n p = Some x \<Longrightarrow> grab n (p @ d) = Some x"
  by (auto simp: grab_def split: if_splits)

lemma drop_longer: "n \<le> length p \<Longrightarrow> drop n (p @ d) = drop n p @ d"
  by simp

lemma grab_length: "grab n p = Some x \<Longrightarrow> n \<le> length p"
  by (auto simp: grab_def split: if_splits)

lemma grab_append [wire]: "length xs = n \<Longrightarrow> grab n (xs @ ys) = Some xs"
  by (simp add: grab_def)

lemma grab_all [wire]: "length xs = n \<Longrightarrow> grab n xs = Some xs"
  by (simp add: grab_def)

lemma require_simps [simp]: "require True = Some ()" "require False = None"
  by (simp_all add: require_def)

lemma require_Some_iff: "require b = Some u \<longleftrightarrow> b"
  by (simp add: require_def)

section \<open>Big-endian integers\<close>

definition be_val :: "bytes \<Rightarrow> nat" where
  "be_val bs = foldl (\<lambda>n b. n * 256 + unat b) 0 bs"

primrec be_bytes :: "nat \<Rightarrow> nat \<Rightarrow> bytes" where
  "be_bytes 0 n = []"
| "be_bytes (Suc k) n = be_bytes k (n div 256) @ [of_nat n]"

lemma be_val_Nil [simp]: "be_val [] = 0"
  by (simp add: be_val_def)

lemma be_val_snoc: "be_val (bs @ [b]) = be_val bs * 256 + unat b"
  by (simp add: be_val_def)

lemma length_be_bytes [simp, lens]: "length (be_bytes k n) = k"
  by (induction k arbitrary: n) simp_all

lemma unat_byte_less [simp]: "unat (b :: u8) < 256"
  using unsigned_less [of b] by simp

lemma be_val_less: "be_val bs < 256 ^ length bs"
proof (induction bs rule: rev_induct)
  case Nil
  then show ?case by simp
next
  case (snoc b bs)
  have "m * 256 + c < 256 * M" if "c < 256" "m < M" for m c M :: nat
    using that by linarith
  from this [OF unat_byte_less snoc] show ?case by (simp add: be_val_snoc)
qed

lemma be_val_be_bytes [wire]: "be_val (be_bytes k n) = n mod 256 ^ k"
proof (induction k arbitrary: n)
  case 0
  then show ?case by simp
next
  case (Suc k)
  have "be_val (be_bytes (Suc k) n) = (n div 256) mod 256 ^ k * 256 + n mod 256"
    by (simp add: be_val_snoc Suc unat_of_nat)
  also have "\<dots> = n mod 256 ^ Suc k"
    by (simp add: mod_mult2_eq)
  finally show ?case .
qed

lemma be_bytes_be_val [wire]: "be_bytes (length bs) (be_val bs) = bs"
proof (induction bs rule: rev_induct)
  case Nil
  then show ?case by simp
next
  case (snoc b bs)
  have "(be_val bs * 256 + unat b) div 256 = be_val bs"
    by simp
  moreover have "of_nat (be_val bs * 256 + unat b) = b"
    by (simp only: word_unat_eq_iff unat_of_nat) simp
  ultimately show ?case using snoc by (simp add: be_val_snoc del: of_nat_add of_nat_mult)
qed

lemma be_bytes_inject:
  "be_bytes k m = be_bytes k n \<longleftrightarrow> m mod 256 ^ k = n mod 256 ^ k"
proof
  assume "be_bytes k m = be_bytes k n"
  then have "be_val (be_bytes k m) = be_val (be_bytes k n)" by simp
  then show "m mod 256 ^ k = n mod 256 ^ k" by (simp add: be_val_be_bytes)
next
  assume "m mod 256 ^ k = n mod 256 ^ k"
  then have "be_val (be_bytes k m) = be_val (be_bytes k n)" by (simp add: be_val_be_bytes)
  then show "be_bytes k m = be_bytes k n" by (metis be_bytes_be_val length_be_bytes)
qed

lemma be_bytes_numeral [eval_bits]:
  "be_bytes (numeral k) n = be_bytes (pred_numeral k) (n div 256) @ [of_nat n]"
  by (simp only: numeral_eq_Suc be_bytes.simps)

section \<open>Lists\<close>

lemma take_append_length [simp]: "take (length xs) (xs @ ys) = xs"
  by simp

lemma take_eq_append: "length xs = n \<Longrightarrow> take n (xs @ ys) = xs"
  by simp

lemma drop_eq_append: "length xs = n \<Longrightarrow> drop n (xs @ ys) = ys"
  by simp

lemma list_split_at:
  assumes "n \<le> length xs"
  obtains ys zs where "xs = ys @ zs" and "length ys = n"
  by (rule that [of "take n xs" "drop n xs"]) (use assms in auto)

lemma bind_Some_iff:
  "Option.bind m f = Some y \<longleftrightarrow> (\<exists>x. m = Some x \<and> f x = Some y)"
  by (cases m) simp_all

lemma case_option_Some_iff:
  "(case m of None \<Rightarrow> None | Some x \<Rightarrow> f x) = Some y \<longleftrightarrow> (\<exists>x. m = Some x \<and> f x = Some y)"
  by (cases m) simp_all

section \<open>Words\<close>

lemma unat_u16_less [simp]: "unat (x :: u16) < 65536"
  using unsigned_less [of x] by simp

lemma unat_u32_less [simp]: "unat (x :: u32) < 4294967296"
  using unsigned_less [of x] by simp

lemma unat_u64_less [simp]: "unat (x :: u64) < 18446744073709551616"
  using unsigned_less [of x] by simp

lemma unat_of_nat_u16: "n < 65536 \<Longrightarrow> unat (of_nat n :: u16) = n"
  by (simp add: unat_of_nat)

lemma unat_of_nat_u32: "n < 4294967296 \<Longrightarrow> unat (of_nat n :: u32) = n"
  by (simp add: unat_of_nat)

lemma word_eq_iff_unat: "(x :: 'a::len word) = y \<longleftrightarrow> unat x = unat y"
  by (rule word_unat_eq_iff)

lemma unat_ucast: "unat (ucast (w :: 'a::len word) :: 'b::len word) = unat w mod 2 ^ LENGTH('b)"
  by (simp add: unsigned_ucast_eq take_bit_eq_mod)

lemma unat_ucast_byte [simp]:
  "unat (ucast (w :: u8) :: u16) = unat w" "unat (ucast (w :: u8) :: u32) = unat w"
proof -
  have "unat w < 65536" "unat w < 4294967296" using unat_byte_less [of w] by linarith+
  then show "unat (ucast w :: u16) = unat w" "unat (ucast w :: u32) = unat w"
    by (simp_all add: unat_ucast)
qed

lemma unat_mask_mod:
  "unat (v AND mask n :: 'a::len word) = unat v mod 2 ^ n"
proof -
  have "unat (take_bit n v) = unat v mod 2 ^ n"
    unfolding unsigned_take_bit_eq by (simp add: take_bit_eq_mod)
  then show ?thesis by (simp only: take_bit_eq_mask)
qed

lemma unat_plus_small:
  "unat a + unat b < 2 ^ LENGTH('a) \<Longrightarrow> unat (a + b :: 'a::len word) = unat a + unat b"
  by (simp add: unat_word_ariths)

lemma ucast_and_mask: "(ucast (v AND mask 8) :: u8) = ucast v" for v :: "'a::len word"
  by (rule bit_eqI) (auto simp: bit_simps dest: bit_imp_le_length)

lemma ucast_and_ff [simp]: "(ucast (v AND 0xff) :: u8) = ucast v" for v :: "'a::len word"
  using ucast_and_mask [of v] by (simp add: mask_eq_exp_minus_1)

lemma unat_push_or:
  assumes "unat b < 2 ^ n" and "unat a * 2 ^ n < 2 ^ LENGTH('a)"
  shows "unat (push_bit n a OR b :: 'a::len word) = unat a * 2 ^ n + unat b"
proof -
  have "unat (push_bit n a) = push_bit n (unat a)"
    unfolding unsigned_push_bit_eq using assms(2)
    by (simp add: push_bit_eq_mult take_bit_nat_eq_self)
  then have "unat (push_bit n a OR b) = push_bit n (unat a) OR take_bit n (unat b)"
    using assms(1) by (simp add: unsigned_or_eq take_bit_nat_eq_self)
  also have "\<dots> = push_bit n (unat a) + take_bit n (unat b)"
    by (rule disjunctive_add [symmetric]) (auto simp: bit_simps)
  also have "\<dots> = unat a * 2 ^ n + unat b"
    using assms(1) by (simp add: push_bit_eq_mult take_bit_nat_eq_self)
  finally show ?thesis .
qed

section \<open>Strings\<close>

text \<open>A string literal as the bytes it is made of.\<close>

definition str :: "string \<Rightarrow> bytes" where
  "str s = map of_char s"

lemma length_str [simp]: "length (str s) = length s"
  by (simp add: str_def)

end
