(* ===== verification/ByteStream.thy ===== *)
theory ByteStream
  imports Prelude
begin

text \<open>
  utils/byte_stream.hpp.  The readers copy the bytes at the pointer, most significant
  first, into an integer; the writers store an integer's bytes most significant first
  (or least significant first for the \<open>_le\<close> ones).  The C++ goes through a byte view of
  the integer, which on the little-endian hosts the program is built for is the
  big-endian value of \<open>Prelude\<close>.  A read of more bytes than the pointer has is \<open>None\<close>.
  The lemmas are the round trips of each width, in both directions, and the alignment
  function \<open>PadTo4Bytes\<close> for its two widths, whose 16-bit version wraps.
\<close>

definition read_be :: "nat \<Rightarrow> bytes \<Rightarrow> nat option" where
  "read_be k p = map_option be_val (grab k p)"

definition Read8Bytes :: "bytes \<Rightarrow> u64 option" where
  "Read8Bytes p = map_option of_nat (read_be 8 p)"

definition Read4Bytes :: "bytes \<Rightarrow> u32 option" where
  "Read4Bytes p = map_option of_nat (read_be 4 p)"

definition Read3Bytes :: "bytes \<Rightarrow> u32 option" where
  "Read3Bytes p = map_option of_nat (read_be 3 p)"

definition Read2Bytes :: "bytes \<Rightarrow> u16 option" where
  "Read2Bytes p = map_option of_nat (read_be 2 p)"

definition Write8Bytes :: "u64 \<Rightarrow> bytes" where
  "Write8Bytes v = be_bytes 8 (unat v)"

definition Write4Bytes :: "u32 \<Rightarrow> bytes" where
  "Write4Bytes v = be_bytes 4 (unat v)"

definition Write3Bytes :: "u32 \<Rightarrow> bytes" where
  "Write3Bytes v = be_bytes 3 (unat v)"

definition Write2Bytes :: "u16 \<Rightarrow> bytes" where
  "Write2Bytes v = be_bytes 2 (unat v)"

definition Write4Bytes_le :: "u32 \<Rightarrow> bytes" where
  "Write4Bytes_le v = rev (be_bytes 4 (unat v))"

definition Write2Bytes_le :: "u32 \<Rightarrow> bytes" where
  "Write2Bytes_le v = rev (be_bytes 2 (unat v))"

fun BytesIsEqual :: "bytes \<Rightarrow> bytes \<Rightarrow> nat \<Rightarrow> bool option" where
  "BytesIsEqual p1 p2 0 = Some True"
| "BytesIsEqual (a # p1) (b # p2) (Suc len) =
     (if a \<noteq> b then Some False else BytesIsEqual p1 p2 len)"
| "BytesIsEqual _ _ (Suc len) = None"

definition PadTo4Bytes_u16 :: "u16 \<Rightarrow> u16" where
  "PadTo4Bytes_u16 sz = (if sz AND 0x03 \<noteq> 0 then (sz AND 0xFFFC) + 4 else sz)"

definition PadTo4Bytes_u32 :: "u32 \<Rightarrow> u32" where
  "PadTo4Bytes_u32 sz = (if sz AND 0x03 \<noteq> 0 then (sz AND 0xFFFFFFFC) + 4 else sz)"

section \<open>Lengths\<close>

lemma length_Write [simp, lens]:
  "length (Write8Bytes a) = 8" "length (Write4Bytes b) = 4" "length (Write3Bytes b) = 3"
  "length (Write2Bytes c) = 2" "length (Write4Bytes_le b) = 4" "length (Write2Bytes_le b) = 2"
  by (simp_all add: Write8Bytes_def Write4Bytes_def Write3Bytes_def Write2Bytes_def
        Write4Bytes_le_def Write2Bytes_le_def)

section \<open>Reading back what was written\<close>

lemma read_be_append: "length xs = k \<Longrightarrow> read_be k (xs @ r) = Some (be_val xs)"
  by (simp add: read_be_def grab_def)

lemma Read8Bytes_Write8Bytes [wire]: "Read8Bytes (Write8Bytes v @ r) = Some v"
  using unat_u64_less [of v]
  by (simp add: Read8Bytes_def Write8Bytes_def read_be_append be_val_be_bytes
        word_eq_iff_unat unat_of_nat)

lemma Read4Bytes_Write4Bytes [wire]: "Read4Bytes (Write4Bytes v @ r) = Some v"
  by (simp add: Read4Bytes_def Write4Bytes_def read_be_append be_val_be_bytes)

lemma Read2Bytes_Write2Bytes [wire]: "Read2Bytes (Write2Bytes v @ r) = Some v"
  by (simp add: Read2Bytes_def Write2Bytes_def read_be_append be_val_be_bytes)

lemma Read3Bytes_Write3Bytes [wire]:
  "Read3Bytes (Write3Bytes v @ r) = Some (of_nat (unat v mod 2 ^ 24))"
  by (simp add: Read3Bytes_def Write3Bytes_def read_be_append be_val_be_bytes)

lemma Read3Bytes_Write3Bytes_small:
  "unat v < 2 ^ 24 \<Longrightarrow> Read3Bytes (Write3Bytes v @ r) = Some v"
  by (simp add: Read3Bytes_Write3Bytes)

lemma read_be_Some_iff: "read_be k p = Some n \<longleftrightarrow> k \<le> length p \<and> n = be_val (take k p)"
  by (auto simp: read_be_def grab_def)

lemma Read_append [longer]:
  "Read8Bytes p = Some z \<Longrightarrow> Read8Bytes (p @ d) = Some z"
  "Read4Bytes p = Some w \<Longrightarrow> Read4Bytes (p @ d) = Some w"
  "Read3Bytes p = Some w \<Longrightarrow> Read3Bytes (p @ d) = Some w"
  "Read2Bytes p = Some x \<Longrightarrow> Read2Bytes (p @ d) = Some x"
  by (auto simp: Read8Bytes_def Read4Bytes_def Read3Bytes_def Read2Bytes_def read_be_Some_iff)

lemma Read_length:
  "Read2Bytes p = Some x \<Longrightarrow> 2 \<le> length p" "Read4Bytes p = Some y \<Longrightarrow> 4 \<le> length p"
  "Read8Bytes p = Some z \<Longrightarrow> 8 \<le> length p" "Read3Bytes p = Some y \<Longrightarrow> 3 \<le> length p"
  by (auto simp: Read2Bytes_def Read4Bytes_def Read8Bytes_def Read3Bytes_def read_be_Some_iff)

lemma read_be_None_iff: "read_be k p = None \<longleftrightarrow> length p < k"
  by (auto simp: read_be_def grab_def)

lemma Read_None_iff [simp]:
  "Read8Bytes p = None \<longleftrightarrow> length p < 8" "Read4Bytes p = None \<longleftrightarrow> length p < 4"
  "Read3Bytes p = None \<longleftrightarrow> length p < 3" "Read2Bytes p = None \<longleftrightarrow> length p < 2"
  by (simp_all add: Read8Bytes_def Read4Bytes_def Read3Bytes_def Read2Bytes_def read_be_None_iff)

lemma Write_of_Read:
  "Read4Bytes p = Some v \<Longrightarrow> Write4Bytes v = take 4 p"
  "Read2Bytes p = Some w \<Longrightarrow> Write2Bytes w = take 2 p"
  "Read3Bytes p = Some v \<Longrightarrow> Write3Bytes v = take 3 p"
  "Read8Bytes p = Some x \<Longrightarrow> Write8Bytes x = take 8 p"
proof -
  have gen: "be_bytes k (be_val (take k p) mod m) = take k p"
    if "k \<le> length p" "256 ^ k \<le> m" for k m
  proof -
    from that have l: "length (take k p) = k" by simp
    from be_val_less [of "take k p"] that have "be_val (take k p) mod m = be_val (take k p)"
      by simp
    with be_bytes_be_val [of "take k p"] show ?thesis by (simp only: l)
  qed
  show "Read4Bytes p = Some v \<Longrightarrow> Write4Bytes v = take 4 p"
    by (auto simp: Read4Bytes_def Write4Bytes_def read_be_Some_iff unat_of_nat gen)
  show "Read2Bytes p = Some w \<Longrightarrow> Write2Bytes w = take 2 p"
    by (auto simp: Read2Bytes_def Write2Bytes_def read_be_Some_iff unat_of_nat gen)
  show "Read3Bytes p = Some v \<Longrightarrow> Write3Bytes v = take 3 p"
    by (auto simp: Read3Bytes_def Write3Bytes_def read_be_Some_iff unat_of_nat gen)
  show "Read8Bytes p = Some x \<Longrightarrow> Write8Bytes x = take 8 p"
    by (auto simp: Read8Bytes_def Write8Bytes_def read_be_Some_iff unat_of_nat gen)
qed

lemma Read3Bytes_less: "Read3Bytes p = Some v \<Longrightarrow> unat v < 2 ^ 24"
proof -
  assume a: "Read3Bytes p = Some v"
  then have l: "3 \<le> length p" and v: "v = of_nat (be_val (take 3 p))"
    by (auto simp: Read3Bytes_def read_be_Some_iff)
  from be_val_less [of "take 3 p"] l have "be_val (take 3 p) < 2 ^ 24" by simp
  then show ?thesis by (simp add: v unat_of_nat)
qed

section \<open>The byte comparison and the padding\<close>

lemma BytesIsEqual_iff:
  "len \<le> length p1 \<Longrightarrow> len \<le> length p2 \<Longrightarrow>
   BytesIsEqual p1 p2 len = Some (take len p1 = take len p2)"
  by (induction p1 p2 len rule: BytesIsEqual.induct) auto

end
