(* ===== verification/DataBuffer.thy ===== *)
theory DataBuffer
  imports ByteStream
begin

text \<open>
  utils/data_buffer.hpp: the byte queue that every component reads from and writes to.
  The record keeps the allocation and the three C \<open>int\<close> fields as the class has them;
  \<open>AppendData\<close> has its three paths (append in place, move to the front, reallocate) with
  the C conditions, including the \<open>size_t\<close> subtraction that wraps.  \<open>memcpy\<close> is undefined
  (\<open>None\<close>) outside the allocation and on overlapping ranges, as in the C standard.
  The contents of fresh memory are an arbitrary function \<open>h\<close>.
  The contract of the queue is the locale \<open>byte_queue\<close>; the interpretation at the end
  discharges it for the class, and the other components are modelled over \<open>view\<close>.
\<close>

definition EXTRA_LEN :: int where
  "EXTRA_LEN = 10 * 1024"

definition PRE_RESERVE_HEADER_SIZE :: int where
  "PRE_RESERVE_HEADER_SIZE = 200"

record data_buffer =
  db_sent_flag :: bool
  db_dst_ip :: string
  db_dst_port :: u16
  db_buffer :: bytes
  db_buffer_size :: int
  db_data_len :: int
  db_start :: int
  db_end :: int

section \<open>Memory\<close>

definition new_chars :: "(nat \<Rightarrow> u8) \<Rightarrow> int \<Rightarrow> bytes" where
  "new_chars h n = map h [0..<nat n]"

text \<open>\<open>store i xs m\<close>: the bytes \<open>xs\<close> written at offset \<open>i\<close> of the allocation \<open>m\<close>.\<close>

definition store :: "int \<Rightarrow> bytes \<Rightarrow> bytes \<Rightarrow> bytes option" where
  "store i xs m =
     (if 0 \<le> i \<and> i + int (length xs) \<le> int (length m)
      then Some (take (nat i) m @ xs @ drop (nat i + length xs) m) else None)"

definition load :: "int \<Rightarrow> int \<Rightarrow> bytes \<Rightarrow> bytes option" where
  "load i n m =
     (if 0 \<le> i \<and> 0 \<le> n \<and> i + n \<le> int (length m) then Some (take (nat n) (drop (nat i) m)) else None)"

definition memcpy_within :: "int \<Rightarrow> int \<Rightarrow> int \<Rightarrow> bytes \<Rightarrow> bytes option" where
  "memcpy_within dst src n m =
     (if n \<noteq> 0 \<and> dst < src + n \<and> src < dst + n then None
      else do { xs \<leftarrow> load src n m; store dst xs m })"

text \<open>Subtraction of \<open>size_t\<close> values.\<close>

definition size_minus :: "int \<Rightarrow> int \<Rightarrow> int" where
  "size_minus a b = (a - b) mod 2 ^ 64"

section \<open>The class\<close>

definition new_DataBuffer :: "(nat \<Rightarrow> u8) \<Rightarrow> int \<Rightarrow> data_buffer" where
  "new_DataBuffer h data_size =
     \<lparr> db_sent_flag = False, db_dst_ip = [], db_dst_port = 0,
       db_buffer = replicate (nat data_size) 0
                 @ drop (nat data_size) (new_chars h (data_size + PRE_RESERVE_HEADER_SIZE)),
       db_buffer_size = data_size, db_data_len = 0,
       db_start = PRE_RESERVE_HEADER_SIZE, db_end = PRE_RESERVE_HEADER_SIZE \<rparr>"

definition copy_DataBuffer :: "(nat \<Rightarrow> u8) \<Rightarrow> data_buffer \<Rightarrow> data_buffer option" where
  "copy_DataBuffer h input = do {
     xs \<leftarrow> load 0 (db_data_len input) (db_buffer input);
     m \<leftarrow> store 0 xs (new_chars h (db_buffer_size input + PRE_RESERVE_HEADER_SIZE));
     Some (input\<lparr>db_buffer := m\<rparr>) }"

definition GetNewSize :: "int \<Rightarrow> int" where
  "GetNewSize new_len =
     (if new_len \<le> 50 * 1024 then 50 * 1024
      else if new_len > 50 * 1024 \<and> new_len \<le> 100 * 1024 then 100 * 1024
      else if new_len > 100 * 1024 \<and> new_len \<le> 200 * 1024 then 200 * 1024
      else if new_len > 200 * 1024 \<and> new_len \<le> 500 * 1024 then 500 * 1024
      else new_len + 10 * 1024)"

definition AppendData :: "(nat \<Rightarrow> u8) \<Rightarrow> bytes \<Rightarrow> data_buffer \<Rightarrow> (int \<times> data_buffer) option" where
  "AppendData h input_data b =
     (let input_len = int (length input_data);
          room = size_minus (db_buffer_size b) PRE_RESERVE_HEADER_SIZE;
          new_len_total = db_data_len b + input_len in
      if input_len = 0 then Some (0, b)
      else if db_end b + input_len > room then
        if new_len_total \<ge> room then do {
          new_len \<leftarrow> Some (GetNewSize (new_len_total + EXTRA_LEN));
          old \<leftarrow> load (db_start b) (db_data_len b) (db_buffer b);
          m1 \<leftarrow> store PRE_RESERVE_HEADER_SIZE old (new_chars h new_len);
          m2 \<leftarrow> store (PRE_RESERVE_HEADER_SIZE + db_data_len b) input_data m1;
          Some (new_len_total,
                b\<lparr>db_buffer := m2, db_buffer_size := new_len, db_data_len := new_len_total,
                  db_start := PRE_RESERVE_HEADER_SIZE,
                  db_end := PRE_RESERVE_HEADER_SIZE + new_len_total\<rparr>) }
        else do {
          m1 \<leftarrow> (if db_data_len b \<ge> db_start b then do {
                    temp \<leftarrow> load (db_start b) (db_data_len b) (db_buffer b);
                    store PRE_RESERVE_HEADER_SIZE temp (db_buffer b) }
                 else memcpy_within PRE_RESERVE_HEADER_SIZE (db_start b) (db_data_len b) (db_buffer b));
          m2 \<leftarrow> store (PRE_RESERVE_HEADER_SIZE + db_data_len b) input_data m1;
          Some (new_len_total,
                b\<lparr>db_buffer := m2, db_data_len := new_len_total,
                  db_start := PRE_RESERVE_HEADER_SIZE,
                  db_end := PRE_RESERVE_HEADER_SIZE + new_len_total\<rparr>) }
      else do {
        m \<leftarrow> store (db_end b) input_data (db_buffer b);
        Some (new_len_total,
              b\<lparr>db_buffer := m, db_data_len := new_len_total, db_end := db_end b + input_len\<rparr>) })"

text \<open>The result says whether the pointer returned is not \<open>nullptr\<close>.\<close>

definition ConsumeData :: "int \<Rightarrow> data_buffer \<Rightarrow> bool \<times> data_buffer" where
  "ConsumeData consume_len b =
     (if consume_len > db_data_len b then (False, b)
      else if consume_len < 0 \<and> db_start b + consume_len < 0 then (False, b)
      else (True, b\<lparr>db_start := db_start b + consume_len, db_data_len := db_data_len b - consume_len\<rparr>))"

definition Reset :: "data_buffer \<Rightarrow> data_buffer" where
  "Reset b = b\<lparr>db_start := PRE_RESERVE_HEADER_SIZE, db_end := PRE_RESERVE_HEADER_SIZE, db_data_len := 0\<rparr>"

definition DataLen :: "data_buffer \<Rightarrow> int" where
  "DataLen b = db_data_len b"

definition Require :: "int \<Rightarrow> data_buffer \<Rightarrow> bool" where
  "Require len b \<longleftrightarrow> len \<le> db_data_len b"

text \<open>What \<open>Data()\<close> and \<open>DataLen()\<close> give a reader, and a write of \<open>xs\<close> through \<open>Data()\<close>.\<close>

definition view :: "data_buffer \<Rightarrow> bytes" where
  "view b = take (nat (db_data_len b)) (drop (nat (db_start b)) (db_buffer b))"

definition write_front :: "bytes \<Rightarrow> data_buffer \<Rightarrow> data_buffer option" where
  "write_front xs b = do { m \<leftarrow> store (db_start b) xs (db_buffer b); Some (b\<lparr>db_buffer := m\<rparr>) }"

section \<open>Invariant\<close>

definition db_inv :: "data_buffer \<Rightarrow> bool" where
  "db_inv b \<longleftrightarrow> 0 \<le> db_start b \<and> 0 \<le> db_data_len b \<and> db_end b = db_start b + db_data_len b
     \<and> db_end b \<le> int (length (db_buffer b))
     \<and> PRE_RESERVE_HEADER_SIZE \<le> db_buffer_size b \<and> db_buffer_size b < 2 ^ 31
     \<and> db_buffer_size b \<le> int (length (db_buffer b))"

lemmas db_consts = EXTRA_LEN_def PRE_RESERVE_HEADER_SIZE_def

lemma size_minus_eq: "0 \<le> b \<Longrightarrow> b \<le> a \<Longrightarrow> a < 2 ^ 64 \<Longrightarrow> size_minus a b = a - b"
  by (simp add: size_minus_def)

lemma size_minus_under: "0 \<le> a \<Longrightarrow> a < b \<Longrightarrow> b \<le> 2 ^ 64 \<Longrightarrow> size_minus a b = 2 ^ 64 + a - b"
proof -
  assume "0 \<le> a" "a < b" "b \<le> 2 ^ 64"
  then have "(a - b + 2 ^ 64) mod 2 ^ 64 = a - b + 2 ^ 64"
    by (intro mod_pos_pos_trivial) simp_all
  then show ?thesis by (simp add: size_minus_def)
qed

lemma size_minus_room:
  "db_inv b \<Longrightarrow> size_minus (db_buffer_size b) PRE_RESERVE_HEADER_SIZE
     = db_buffer_size b - PRE_RESERVE_HEADER_SIZE"
  by (rule size_minus_eq) (auto simp: db_inv_def db_consts)

lemma store_Some_iff:
  "store i xs m = Some m' \<longleftrightarrow>
     0 \<le> i \<and> i + int (length xs) \<le> int (length m)
     \<and> m' = take (nat i) m @ xs @ drop (nat i + length xs) m"
  by (auto simp: store_def)

lemma load_Some_iff:
  "load i n m = Some xs \<longleftrightarrow>
     0 \<le> i \<and> 0 \<le> n \<and> i + n \<le> int (length m) \<and> xs = take (nat n) (drop (nat i) m)"
  by (auto simp: load_def)

lemma length_new_chars [simp]: "length (new_chars h n) = nat n"
  by (simp add: new_chars_def)

lemma length_store: "store i xs m = Some m' \<Longrightarrow> length m' = length m"
  by (auto simp: store_Some_iff)

lemma length_view: "db_inv b \<Longrightarrow> length (view b) = nat (db_data_len b)"
  by (auto simp: view_def db_inv_def)

lemma data_len_view: "db_inv b \<Longrightarrow> db_data_len b = int (length (view b))"
  by (simp add: length_view) (simp add: db_inv_def)

lemma load_view: "db_inv b \<Longrightarrow> load (db_start b) (db_data_len b) (db_buffer b) = Some (view b)"
  by (auto simp: view_def db_inv_def load_def)

text \<open>Reading at an offset of what was stored in two adjacent pieces.\<close>

lemma read_two_stores:
  assumes "store i xs m = Some m1" and "store (i + int (length xs)) ys m1 = Some m2"
  shows "take (length xs + length ys) (drop (nat i) m2) = xs @ ys"
proof -
  from assms(1) have i: "0 \<le> i" "nat i \<le> length m" and m1: "m1 = take (nat i) m @ xs @ drop (nat i + length xs) m"
    by (auto simp: store_Some_iff)
  have n: "nat (i + int (length xs)) = nat i + length xs"
    using i by simp
  from assms(2) have "m2 = take (nat i + length xs) m1 @ ys @ drop (nat i + length xs + length ys) m1"
    by (simp add: store_Some_iff n)
  moreover have "take (nat i + length xs) m1 = take (nat i) m @ xs"
    using i by (simp add: m1)
  ultimately show ?thesis using i by simp
qed

lemma read_one_store:
  assumes "store i ys m = Some m'" and "0 \<le> j" and "j \<le> i"
  shows "take (nat (i - j) + length ys) (drop (nat j) m') = take (nat (i - j)) (drop (nat j) m) @ ys"
proof -
  define a c D where "a = nat j" and "c = nat i" and "D = drop (nat i + length ys) m"
  from assms have m': "m' = take c m @ ys @ D" and c: "c \<le> length m"
    by (auto simp: store_Some_iff c_def D_def)
  from assms(2,3) have ac: "nat (i - j) = c - a" "a \<le> c"
    by (simp_all add: a_def c_def nat_diff_distrib)
  have "drop a m' = drop a (take c m) @ ys @ D"
    using c ac by (simp add: m')
  moreover have "length (drop a (take c m)) = c - a"
    using c by simp
  ultimately have "take (c - a + length ys) (drop a m') = drop a (take c m) @ ys"
    by simp
  then show ?thesis by (simp only: ac a_def [symmetric] drop_take)
qed


section \<open>AppendData\<close>

text \<open>
  When the append runs it is the queue append, and it keeps the invariant.  The two size
  hypotheses keep the C \<open>int\<close> arithmetic from overflowing.
\<close>

definition fits :: "bytes \<Rightarrow> data_buffer \<Rightarrow> bool" where
  "fits xs b \<longleftrightarrow> db_data_len b + int (length xs) < 2 ^ 30"

text \<open>The one undefined path: the move to the front with overlapping ranges.\<close>

definition append_overlaps :: "bytes \<Rightarrow> data_buffer \<Rightarrow> bool" where
  "append_overlaps xs b \<longleftrightarrow> xs \<noteq> [] \<and> 0 < db_data_len b
     \<and> db_buffer_size b - PRE_RESERVE_HEADER_SIZE < db_end b + int (length xs)
     \<and> db_data_len b + int (length xs) < db_buffer_size b - PRE_RESERVE_HEADER_SIZE
     \<and> db_data_len b < db_start b
     \<and> db_start b < PRE_RESERVE_HEADER_SIZE + db_data_len b
     \<and> PRE_RESERVE_HEADER_SIZE < db_start b + db_data_len b"

lemma GetNewSize_ge: "n \<le> GetNewSize n"
  by (simp add: GetNewSize_def)

lemma GetNewSize_min: "51200 \<le> GetNewSize n"
  by (simp add: GetNewSize_def)

lemma GetNewSize_less: "n < 2 ^ 30 + 20000 \<Longrightarrow> GetNewSize n < 2 ^ 31"
  by (simp add: GetNewSize_def)

lemma append_realloc:
  assumes inv: "db_inv b" and fits: "fits xs b" and "xs \<noteq> []"
    and full: "db_end b + int (length xs) > db_buffer_size b - PRE_RESERVE_HEADER_SIZE"
    and big: "db_data_len b + int (length xs) \<ge> db_buffer_size b - PRE_RESERVE_HEADER_SIZE"
  obtains r b' where "AppendData h xs b = Some (r, b')" and "view b' = view b @ xs" and "db_inv b'"
    and "r = db_data_len b + int (length xs)"
proof -
  let ?n = "db_data_len b + int (length xs)"
  let ?N = "GetNewSize (?n + EXTRA_LEN)"
  have N: "?n + EXTRA_LEN \<le> ?N" "51200 \<le> ?N" by (rule GetNewSize_ge, rule GetNewSize_min)
  have Nless: "?N < 2 ^ 31" using fits by (intro GetNewSize_less) (simp add: fits_def db_consts)
  have dl: "0 \<le> db_data_len b" "int (length (view b)) = db_data_len b"
    using inv by (auto simp: length_view) (simp_all add: db_inv_def)
  obtain m1 where m1: "store PRE_RESERVE_HEADER_SIZE (view b) (new_chars h ?N) = Some m1"
    using N dl by (simp add: store_def db_consts)
  obtain m2 where m2: "store (PRE_RESERVE_HEADER_SIZE + db_data_len b) xs m1 = Some m2"
    using N dl length_store [OF m1] by (simp add: store_def db_consts)
  have len: "length m2 = nat ?N" using length_store [OF m1] length_store [OF m2] by simp
  let ?b' = "b\<lparr>db_buffer := m2, db_buffer_size := ?N, db_data_len := ?n,
               db_start := PRE_RESERVE_HEADER_SIZE, db_end := PRE_RESERVE_HEADER_SIZE + ?n\<rparr>"
  have run: "AppendData h xs b = Some (?n, ?b')"
    using assms m1 m2 by (simp add: AppendData_def Let_def size_minus_room load_view)
  have "take (length (view b) + length xs) (drop (nat PRE_RESERVE_HEADER_SIZE) m2) = view b @ xs"
    using m1 m2 by (intro read_two_stores) (simp_all add: dl)
  moreover have "nat ?n = length (view b) + length xs" using dl by simp
  ultimately have view: "view ?b' = view b @ xs" by (simp add: view_def [of ?b'])
  have "db_inv ?b'" using N Nless dl by (simp add: db_inv_def db_consts len)
  with run view show thesis by (intro that [of ?n ?b']) simp_all
qed

lemma append_compact:
  assumes inv: "db_inv b" and "xs \<noteq> []"
    and full: "db_end b + int (length xs) > db_buffer_size b - PRE_RESERVE_HEADER_SIZE"
    and small: "db_data_len b + int (length xs) < db_buffer_size b - PRE_RESERVE_HEADER_SIZE"
    and nov: "\<not> append_overlaps xs b"
  obtains r b' where "AppendData h xs b = Some (r, b')" and "view b' = view b @ xs" and "db_inv b'"
    and "r = db_data_len b + int (length xs)"
proof -
  let ?n = "db_data_len b + int (length xs)"
  have dl: "0 \<le> db_data_len b" "int (length (view b)) = db_data_len b"
    using inv by (auto simp: length_view) (simp_all add: db_inv_def)
  have size: "PRE_RESERVE_HEADER_SIZE + ?n \<le> int (length (db_buffer b))"
    using inv small by (simp add: db_inv_def)
  obtain m1 where m1: "store PRE_RESERVE_HEADER_SIZE (view b) (db_buffer b) = Some m1"
    using size dl by (simp add: store_def db_consts)
  obtain m2 where m2: "store (PRE_RESERVE_HEADER_SIZE + db_data_len b) xs m1 = Some m2"
    using size dl length_store [OF m1] by (simp add: store_def db_consts)
  have len: "length m2 = length (db_buffer b)" using length_store [OF m1] length_store [OF m2] by simp
  have move: "(if db_data_len b \<ge> db_start b then do {
                  temp \<leftarrow> load (db_start b) (db_data_len b) (db_buffer b);
                  store PRE_RESERVE_HEADER_SIZE temp (db_buffer b) }
               else memcpy_within PRE_RESERVE_HEADER_SIZE (db_start b) (db_data_len b) (db_buffer b))
             = Some m1"
    using nov assms(2) full small m1 dl
    by (auto simp: memcpy_within_def append_overlaps_def load_view [OF inv] m1)
  let ?b' = "b\<lparr>db_buffer := m2, db_data_len := ?n,
               db_start := PRE_RESERVE_HEADER_SIZE, db_end := PRE_RESERVE_HEADER_SIZE + ?n\<rparr>"
  have run: "AppendData h xs b = Some (?n, ?b')"
    using assms(2) full small m2
    by (simp add: AppendData_def Let_def size_minus_room [OF inv] move)
  have "take (length (view b) + length xs) (drop (nat PRE_RESERVE_HEADER_SIZE) m2) = view b @ xs"
    using m1 m2 by (intro read_two_stores) (simp_all add: dl)
  moreover have "nat ?n = length (view b) + length xs" using dl by simp
  ultimately have view: "view ?b' = view b @ xs" by (simp add: view_def [of ?b'])
  have "db_inv ?b'" using inv size dl by (simp add: db_inv_def db_consts len)
  with run view show thesis by (intro that [of ?n ?b']) simp_all
qed

lemma append_in_place:
  assumes inv: "db_inv b" and "xs \<noteq> []"
    and room: "db_end b + int (length xs) \<le> db_buffer_size b - PRE_RESERVE_HEADER_SIZE"
  obtains r b' where "AppendData h xs b = Some (r, b')" and "view b' = view b @ xs" and "db_inv b'"
    and "r = db_data_len b + int (length xs)"
proof -
  let ?n = "db_data_len b + int (length xs)"
  have i: "0 \<le> db_start b" "0 \<le> db_data_len b" "db_end b = db_start b + db_data_len b"
      "db_end b + int (length xs) \<le> int (length (db_buffer b))"
    using inv room by (auto simp: db_inv_def db_consts)
  obtain m where m: "store (db_end b) xs (db_buffer b) = Some m"
    using i by (simp add: store_def)
  let ?b' = "b\<lparr>db_buffer := m, db_data_len := ?n, db_end := db_end b + int (length xs)\<rparr>"
  have run: "AppendData h xs b = Some (?n, ?b')"
    using assms(2) room m by (simp add: AppendData_def Let_def size_minus_room [OF inv])
  have "take (nat (db_end b - db_start b) + length xs) (drop (nat (db_start b)) m)
        = take (nat (db_end b - db_start b)) (drop (nat (db_start b)) (db_buffer b)) @ xs"
    using m i by (intro read_one_store) simp_all
  moreover have "nat ?n = nat (db_end b - db_start b) + length xs" using i by simp
  ultimately have view: "view ?b' = view b @ xs"
    using i by (simp add: view_def)
  have "db_inv ?b'" using inv i by (simp add: db_inv_def length_store [OF m])
  with run view show thesis by (intro that [of ?n ?b']) simp_all
qed

lemma AppendData_Nil [simp]: "AppendData h [] b = Some (0, b)"
  by (simp add: AppendData_def)

lemma AppendData_ok:
  assumes inv: "db_inv b" and fits: "fits xs b" and nov: "\<not> append_overlaps xs b"
  shows "\<exists>r b'. AppendData h xs b = Some (r, b') \<and> view b' = view b @ xs \<and> db_inv b'"
proof (cases "xs = []")
  case True
  with inv show ?thesis by simp
next
  case False
  show ?thesis
  proof (cases "db_end b + int (length xs) > db_buffer_size b - PRE_RESERVE_HEADER_SIZE")
    case full: True
    show ?thesis
    proof (cases "db_data_len b + int (length xs) \<ge> db_buffer_size b - PRE_RESERVE_HEADER_SIZE")
      case True
      show ?thesis by (rule append_realloc [OF inv fits False full True]) blast
    next
      case False': False
      then have "db_data_len b + int (length xs) < db_buffer_size b - PRE_RESERVE_HEADER_SIZE" by simp
      then show ?thesis by (rule append_compact [OF inv False full _ nov]) blast
    qed
  next
    case room: False
    then have "db_end b + int (length xs) \<le> db_buffer_size b - PRE_RESERVE_HEADER_SIZE" by simp
    then show ?thesis by (rule append_in_place [OF inv False]) blast
  qed
qed

lemma AppendData_undefined:
  assumes inv: "db_inv b" and ov: "append_overlaps xs b"
  shows "AppendData h xs b = None"
  using ov size_minus_room [OF inv]
  by (auto simp: AppendData_def Let_def append_overlaps_def memcpy_within_def)


lemma AppendData_Some:
  assumes "db_inv b" and "fits xs b" and "AppendData h xs b = Some (r, b')"
  shows "view b' = view b @ xs \<and> db_inv b'"
proof -
  from assms have "\<not> append_overlaps xs b" using AppendData_undefined by fastforce
  with AppendData_ok [of b xs h] assms show ?thesis by auto
qed

section \<open>ConsumeData, Reset and the reserved header room\<close>

lemma ConsumeData_ok:
  assumes "db_inv b" and "n \<le> length (view b)"
  shows "\<exists>b'. ConsumeData (int n) b = (True, b') \<and> view b' = drop n (view b) \<and> db_inv b'"
proof -
  from assms have n: "int n \<le> db_data_len b" "0 \<le> db_start b" "0 \<le> db_data_len b"
    using data_len_view [OF assms(1)] by (simp_all add: db_inv_def)
  let ?b' = "b\<lparr>db_start := db_start b + int n, db_data_len := db_data_len b - int n\<rparr>"
  have "view ?b' = drop n (view b)"
    using n by (simp add: view_def nat_add_distrib nat_diff_distrib drop_take add.commute)
  moreover have "db_inv ?b'" using assms n by (simp add: db_inv_def)
  ultimately show ?thesis using n by (simp add: ConsumeData_def)
qed

lemma ConsumeData_too_much:
  "db_inv b \<Longrightarrow> length (view b) < n \<Longrightarrow> ConsumeData (int n) b = (False, b)"
  by (auto simp: ConsumeData_def length_view db_inv_def)

lemma Reset_ok: "db_inv b \<Longrightarrow> view (Reset b) = [] \<and> db_inv (Reset b)"
  by (simp add: Reset_def view_def db_inv_def db_consts)

lemma db_inv_new:
  "200 \<le> n \<Longrightarrow> n < 2 ^ 31 \<Longrightarrow> db_inv (new_DataBuffer h n)"
  by (simp add: db_inv_def new_DataBuffer_def db_consts)

lemma view_new [simp]: "view (new_DataBuffer h n) = []"
  by (simp add: view_def new_DataBuffer_def)

lemma prepend_view:
  assumes inv: "db_inv b" and room: "int (length xs) \<le> db_start b" and ne: "xs \<noteq> []"
  shows "\<exists>b' b''. ConsumeData (- int (length xs)) b = (True, b') \<and> write_front xs b' = Some b''
           \<and> view b'' = xs @ view b \<and> db_inv b''"
proof -
  let ?k = "int (length xs)"
  let ?b' = "b\<lparr>db_start := db_start b - ?k, db_data_len := db_data_len b + ?k\<rparr>"
  have i: "0 \<le> db_start b" "0 \<le> db_data_len b" "db_end b = db_start b + db_data_len b"
      "db_end b \<le> int (length (db_buffer b))"
    using inv by (auto simp: db_inv_def)
  from ne room i have c: "ConsumeData (- ?k) b = (True, ?b')"
    by (simp add: ConsumeData_def)
  obtain m where m: "store (db_start b - ?k) xs (db_buffer b) = Some m"
    using i room by (simp add: store_def)
  define c where "c = nat (db_start b - ?k)"
  have s: "nat (db_start b) = c + length xs" "c + length xs \<le> length (db_buffer b)"
    using i room by (simp_all add: c_def)
  have "m = take c (db_buffer b) @ xs @ drop (c + length xs) (db_buffer b)"
    using m by (simp add: store_Some_iff c_def)
  then have "drop c m = xs @ drop (nat (db_start b)) (db_buffer b)"
    using s by simp
  moreover have "nat (db_data_len b + ?k) = length xs + nat (db_data_len b)"
    using i by simp
  ultimately have "view (?b'\<lparr>db_buffer := m\<rparr>) = xs @ view b"
    by (simp add: view_def c_def [symmetric])
  moreover have "db_inv (?b'\<lparr>db_buffer := m\<rparr>)"
    using inv room i by (simp add: db_inv_def length_store [OF m])
  moreover have "write_front xs ?b' = Some (?b'\<lparr>db_buffer := m\<rparr>)"
    by (simp add: write_front_def m)
  ultimately show ?thesis using c by blast
qed

section \<open>The contract of a byte queue\<close>

datatype queue_op = Append bytes | Consume nat | Clear

fun run_ops ::
  "(bytes \<Rightarrow> 'q \<Rightarrow> 'q option) \<Rightarrow> (nat \<Rightarrow> 'q \<Rightarrow> bool \<times> 'q) \<Rightarrow> ('q \<Rightarrow> 'q) \<Rightarrow> queue_op list \<Rightarrow> 'q \<Rightarrow> 'q option" where
  "run_ops app cons clr [] q = Some q"
| "run_ops app cons clr (Append xs # ops) q = do { q' \<leftarrow> app xs q; run_ops app cons clr ops q' }"
| "run_ops app cons clr (Consume n # ops) q = run_ops app cons clr ops (snd (cons n q))"
| "run_ops app cons clr (Clear # ops) q = run_ops app cons clr ops (clr q)"

fun spec_ops :: "queue_op list \<Rightarrow> bytes \<Rightarrow> bytes" where
  "spec_ops [] bs = bs"
| "spec_ops (Append xs # ops) bs = spec_ops ops (bs @ xs)"
| "spec_ops (Consume n # ops) bs = spec_ops ops (if n \<le> length bs then drop n bs else bs)"
| "spec_ops (Clear # ops) bs = spec_ops ops []"

fun op_bytes :: "queue_op \<Rightarrow> nat" where
  "op_bytes (Append xs) = length xs"
| "op_bytes _ = 0"

locale byte_queue =
  fixes vw :: "'q \<Rightarrow> bytes"
    and inv :: "'q \<Rightarrow> bool"
    and bound :: nat
    and app :: "bytes \<Rightarrow> 'q \<Rightarrow> 'q option"
    and cons :: "nat \<Rightarrow> 'q \<Rightarrow> bool \<times> 'q"
    and clr :: "'q \<Rightarrow> 'q"
  assumes app_law: "inv q \<Longrightarrow> length (vw q) + length xs < bound \<Longrightarrow> app xs q = Some q' \<Longrightarrow>
                      vw q' = vw q @ xs \<and> inv q'"
    and cons_law: "inv q \<Longrightarrow> n \<le> length (vw q) \<Longrightarrow>
                      \<exists>q'. cons n q = (True, q') \<and> vw q' = drop n (vw q) \<and> inv q'"
    and cons_too_much: "inv q \<Longrightarrow> length (vw q) < n \<Longrightarrow> cons n q = (False, q)"
    and clr_law: "inv q \<Longrightarrow> vw (clr q) = [] \<and> inv (clr q)"
begin

lemma cons_step:
  "inv q \<Longrightarrow> vw (snd (cons n q)) = (if n \<le> length (vw q) then drop n (vw q) else vw q) \<and> inv (snd (cons n q))"
  using cons_law [of q n] cons_too_much [of q n] by (cases "n \<le> length (vw q)") auto

lemma run_refines:
  assumes "inv q" and "length (vw q) + sum_list (map op_bytes ops) < bound"
    and "run_ops app cons clr ops q = Some q'"
  shows "vw q' = spec_ops ops (vw q) \<and> inv q'"
  using assms
proof (induction ops arbitrary: q)
  case Nil
  then show ?case by simp
next
  case (Cons oper ops)
  show ?case
  proof (cases oper)
    case (Append xs)
    with Cons.prems obtain q1 where q1: "app xs q = Some q1" and run: "run_ops app cons clr ops q1 = Some q'"
      by (auto simp: bind_Some_iff)
    from app_law [OF Cons.prems(1) _ q1] Cons.prems(2) Append
    have "vw q1 = vw q @ xs" "inv q1" by auto
    with Cons.IH [OF _ _ run] Cons.prems(2) Append show ?thesis by simp
  next
    case (Consume n)
    with Cons.IH [of "snd (cons n q)"] cons_step [OF Cons.prems(1), of n] Cons.prems show ?thesis
      by (auto split: if_splits)
  next
    case Clear
    with Cons.IH [of "clr q"] clr_law [OF Cons.prems(1)] Cons.prems show ?thesis by auto
  qed
qed

end

definition db_append :: "(nat \<Rightarrow> u8) \<Rightarrow> bytes \<Rightarrow> data_buffer \<Rightarrow> data_buffer option" where
  "db_append h xs b = map_option snd (AppendData h xs b)"

definition db_consume :: "nat \<Rightarrow> data_buffer \<Rightarrow> bool \<times> data_buffer" where
  "db_consume n b = ConsumeData (int n) b"

interpretation dbq: byte_queue view db_inv "2 ^ 30" "db_append h" db_consume Reset for h
proof unfold_locales
  fix q xs q'
  assume a: "db_inv q" "length (view q) + length xs < 2 ^ 30" "db_append h xs q = Some q'"
  then have "fits xs q" by (simp add: fits_def data_len_view)
  with a show "view q' = view q @ xs \<and> db_inv q'"
    using AppendData_Some [of q xs h] by (auto simp: db_append_def)
qed (auto simp: db_consume_def ConsumeData_ok ConsumeData_too_much Reset_ok)


section \<open>Properties\<close>

text \<open>
  C6: any sequence of appends, consumptions and resets that runs on a \<open>DataBuffer\<close>, with less than
  \<open>2 ^ 30\<close> bytes in all, leaves exactly the bytes that the same sequence leaves in a plain byte list, whatever path each
  append takes (in place, moved to the front, reallocated), and keeps the invariant.
\<close>

theorem DataBuffer_refines_list:
  assumes "db_inv q" and "length (view q) + sum_list (map op_bytes ops) < 2 ^ 30"
    and "run_ops (db_append h) db_consume Reset ops q = Some q'"
  shows "view q' = spec_ops ops (view q) \<and> db_inv q'"
  using assms by (rule dbq.run_refines)

theorem DataBuffer_refines_list_witness:
  "\<exists>q'. run_ops (db_append (\<lambda>_. 7)) db_consume Reset [Append [1, 2, 3], Consume 1] (new_DataBuffer (\<lambda>_. 7) 300)
          = Some q' \<and> view q' = [2, 3]"
proof -
  let ?q = "new_DataBuffer (\<lambda>_. 7) 300"
  have inv: "db_inv ?q" by (rule db_inv_new) simp_all
  have "\<exists>r b'. AppendData (\<lambda>_. 7) [1, 2, 3] ?q = Some (r, b') \<and> view b' = view ?q @ [1, 2, 3] \<and> db_inv b'"
    by (rule AppendData_ok [OF inv])
       (simp_all add: fits_def append_overlaps_def new_DataBuffer_def)
  then obtain q' where run: "run_ops (db_append (\<lambda>_. 7)) db_consume Reset [Append [1, 2, 3], Consume 1] ?q = Some q'"
    by (auto simp: db_append_def)
  have small: "length (view ?q) + sum_list (map op_bytes [Append [1, 2, 3], Consume 1]) < 2 ^ 30"
    by simp
  from DataBuffer_refines_list [OF inv small run] run show ?thesis by simp
qed

text \<open>
  C14: an append on a well-formed buffer is undefined in exactly one situation, the move to
  the front whose source and destination overlap while fewer bytes are queued than the
  offset of the first one; in every other case it succeeds.
\<close>

theorem AppendData_undefined_iff:
  assumes "db_inv b" and "fits xs b"
  shows "AppendData h xs b = None \<longleftrightarrow> append_overlaps xs b"
  using AppendData_ok [OF assms, of h] AppendData_undefined [OF assms(1), of xs h]
  by (cases "append_overlaps xs b") auto

definition overlap_example :: data_buffer where
  "overlap_example = (new_DataBuffer (\<lambda>_. 0) 600)\<lparr>db_start := 230, db_data_len := 150, db_end := 380\<rparr>"

theorem AppendData_undefined_iff_witness:
  "AppendData (\<lambda>_. 0) (replicate 200 5) overlap_example = None"
proof -
  have "db_inv overlap_example" and "fits (replicate 200 5) overlap_example"
    by (simp_all add: db_inv_def fits_def overlap_example_def new_DataBuffer_def db_consts)
  from AppendData_undefined_iff [OF this] show ?thesis
    by (simp add: append_overlaps_def overlap_example_def new_DataBuffer_def db_consts)
qed

text \<open>
  A buffer constructed with a size below the reserved 200 bytes has no effective bound:
  the \<open>size_t\<close> subtraction in the capacity test wraps, so an append of more bytes than the
  requested size never reallocates and writes past the allocation.
\<close>

theorem small_DataBuffer_overflow:
  assumes "0 \<le> n" and "n < 200" and "n < int (length xs)" and "length xs < 2 ^ 31"
  shows "AppendData h xs (new_DataBuffer h n) = None"
proof -
  have "size_minus n PRE_RESERVE_HEADER_SIZE = 2 ^ 64 + n - 200"
    using assms by (simp add: size_minus_under db_consts)
  moreover have "xs \<noteq> []" using assms by auto
  ultimately show ?thesis
    using assms by (simp add: AppendData_def Let_def new_DataBuffer_def store_def db_consts)
qed

theorem small_DataBuffer_overflow_witness:
  "AppendData (\<lambda>_. 0) (replicate 120 1) (new_DataBuffer (\<lambda>_. 0) 100) = None"
  by (rule small_DataBuffer_overflow) simp_all

text \<open>
  The copy constructor and the copy assignment copy the bytes at offset 0 of the source
  allocation and keep the offset of its data, so the copy of a buffer that was filled from
  the start shows the uninitialised memory of its own allocation instead of the data.
\<close>

theorem copy_DataBuffer_loses_data:
  assumes "db_inv b" and "db_start b = 200" and "db_data_len b \<le> 200"
  shows "\<exists>c. copy_DataBuffer h b = Some c
           \<and> view c = map h [200..<200 + length (view b)]"
proof -
  let ?n = "nat (db_data_len b)"
  have i: "0 \<le> db_data_len b" "200 + db_data_len b \<le> int (length (db_buffer b))"
      "200 \<le> db_buffer_size b"
    using assms by (auto simp: db_inv_def db_consts)
  obtain xs where xs: "load 0 (db_data_len b) (db_buffer b) = Some xs" and l: "length xs = ?n"
    using i by (simp add: load_def)
  let ?m = "new_chars h (db_buffer_size b + 200)"
  have n: "?n \<le> 200" using assms(3) by simp
  have m: "200 + ?n \<le> nat (db_buffer_size b + 200)" using i n by linarith
  have "int (length xs) \<le> int (length ?m)" using l m i by simp
  then obtain m' where m': "store 0 xs ?m = Some m'"
    by (simp add: store_def del: length_new_chars)
  then have "drop 200 m' = drop 200 ?m"
    using l n by (auto simp: store_Some_iff drop_drop)
  then have "take ?n (drop 200 m') = map h [200..<200 + ?n]"
    using m by (simp add: new_chars_def drop_map take_map take_upt del: drop_upt)
       (simp add: take_upt)
  then have "view (b\<lparr>db_buffer := m'\<rparr>) = map h [200..<200 + ?n]"
    using assms(2) by (simp add: view_def)
  moreover have "copy_DataBuffer h b = Some (b\<lparr>db_buffer := m'\<rparr>)"
    using xs m' by (simp add: copy_DataBuffer_def db_consts)
  ultimately show ?thesis using length_view [OF assms(1)] by auto
qed

theorem copy_DataBuffer_loses_data_witness:
  "\<exists>b c. view b = [1, 2] \<and> copy_DataBuffer (\<lambda>_. 0) b = Some c \<and> view c = [0, 0]"
proof -
  let ?q = "new_DataBuffer (\<lambda>_. 0) 300"
  have inv: "db_inv ?q" by (rule db_inv_new) simp_all
  have "\<exists>r b. AppendData (\<lambda>_. 0) [1, 2] ?q = Some (r, b) \<and> view b = view ?q @ [1, 2] \<and> db_inv b"
    by (rule AppendData_ok [OF inv]) (simp_all add: fits_def append_overlaps_def new_DataBuffer_def)
  then obtain r b where b: "AppendData (\<lambda>_. 0) [1, 2] ?q = Some (r, b)" "view b = [1, 2]" "db_inv b"
    by auto
  have s: "db_start b = 200" "db_data_len b \<le> 200"
    using b(1) by (auto simp: AppendData_def Let_def new_DataBuffer_def db_consts size_minus_def
        bind_Some_iff split: if_splits)
  from copy_DataBuffer_loses_data [OF b(3) s, of "\<lambda>_. 0"] b(2)
  obtain c where "copy_DataBuffer (\<lambda>_. 0) b = Some c" and "view c = map (\<lambda>_. 0) [200..<202]" by auto
  with b(2) show ?thesis by (intro exI [of _ b] exI [of _ c]) simp
qed

text \<open>
  Going back over the reserved room with a negative \<open>ConsumeData\<close> and writing the header
  there, as the muxers do, puts exactly the header in front of the queued bytes.
\<close>

theorem DataBuffer_prepend:
  assumes "db_inv b" and "int (length xs) \<le> db_start b" and "xs \<noteq> []"
  shows "\<exists>b' b''. ConsumeData (- int (length xs)) b = (True, b') \<and> write_front xs b' = Some b''
           \<and> view b'' = xs @ view b \<and> db_inv b''"
  using assms by (rule prepend_view)

theorem DataBuffer_prepend_witness:
  "\<exists>b' b''. ConsumeData (- 2) (new_DataBuffer (\<lambda>_. 0) 300) = (True, b') \<and> write_front [0xaf, 1] b' = Some b''
           \<and> view b'' = [0xaf, 1]"
proof -
  have inv: "db_inv (new_DataBuffer (\<lambda>_. 0) 300)" by (rule db_inv_new) simp_all
  have "\<exists>b' b''. ConsumeData (- int (length [0xaf, 1 :: u8])) (new_DataBuffer (\<lambda>_. 0) 300) = (True, b')
          \<and> write_front [0xaf, 1] b' = Some b''
          \<and> view b'' = [0xaf, 1] @ view (new_DataBuffer (\<lambda>_. 0) 300) \<and> db_inv b''"
    by (rule DataBuffer_prepend [OF inv]) (simp_all add: new_DataBuffer_def db_consts)
  then show ?thesis by auto
qed

end
