(* ===== verification/RtpPacket.thy ===== *)
theory RtpPacket
  imports ByteStream
begin

text \<open>
  net/rtprtcp/rtprtcp_pub.hpp, rtp_packet.hpp and rtp_packet.cpp: the order of sequence
  numbers, the header of a packet and the packet itself.  A packet does not own its bytes: it
  points into a buffer.  \<open>rtp_mem\<close> is that buffer from the header on, to the end of its
  allocation; the payload and the extension are offsets into it, and the setters write into
  it.  \<open>None\<close> is a read or write outside the buffer, \<open>Inl\<close> an exception.  The bit fields of
  the header are those of a little-endian host.
\<close>

section \<open>Sequence numbers\<close>

definition SEQUENCE_MAX :: int where "SEQUENCE_MAX = 65535"

definition SeqLowerThan :: "u16 \<Rightarrow> u16 \<Rightarrow> bool" where
  "SeqLowerThan seq1 seq2 =
     (if seq1 > seq2 \<and> int (unat seq1) - int (unat seq2) > SEQUENCE_MAX div 2 then True
      else if seq1 < seq2 \<and> int (unat seq2) - int (unat seq1) \<le> SEQUENCE_MAX div 2 then True
      else False)"

definition SeqHigherThan :: "u16 \<Rightarrow> u16 \<Rightarrow> bool" where
  "SeqHigherThan seq1 seq2 = (if seq1 = seq2 then False else \<not> SeqLowerThan seq1 seq2)"

section \<open>Ordered maps\<close>

text \<open>
  A \<open>std::map\<close> that the code walks through in the order of its keys is the list of its
  entries by ascending key; \<open>map_put\<close> is \<open>m[k] = v\<close>.
\<close>

fun map_put :: "'k::linorder \<Rightarrow> 'v \<Rightarrow> ('k \<times> 'v) list \<Rightarrow> ('k \<times> 'v) list" where
  "map_put k v [] = [(k, v)]"
| "map_put k v ((k', v') # m) =
     (if k < k' then (k, v) # (k', v') # m else if k = k' then (k, v) # m else (k', v') # map_put k v m)"

definition sorted_map :: "('k::linorder \<times> 'v) list \<Rightarrow> bool" where
  "sorted_map m \<longleftrightarrow> sorted_wrt (<) (map fst m)"

lemma sorted_map_simps [simp]:
  "sorted_map []" "sorted_map ((k, v) # m) \<longleftrightarrow> sorted_map m \<and> (\<forall>k'\<in>fst ` set m. k < k')"
  by (auto simp: sorted_map_def)

lemma set_map_put: "sorted_map m \<Longrightarrow> set (map_put k v m) = insert (k, v) {e \<in> set m. fst e \<noteq> k}"
proof (induction k v m rule: map_put.induct)
  case (2 k v k' v' m)
  then have m: "sorted_map m" "\<forall>e\<in>set m. k' < fst e" by auto
  consider "k < k'" | "k = k'" | "k' < k" by fastforce
  then show ?case
  proof cases
    case 3
    with 2 m(1) show ?thesis by auto
  qed (use m(2) in auto)
qed simp

lemma fst_map_put: "sorted_map m \<Longrightarrow> fst ` set (map_put k v m) = insert k (fst ` set m)"
  by (auto simp: set_map_put image_iff)

lemma sorted_map_put: "sorted_map m \<Longrightarrow> sorted_map (map_put k v m)"
proof (induction k v m rule: map_put.induct)
  case (2 k v k' v' m)
  then show ?case by (auto simp: fst_map_put set_map_put)
qed simp

section \<open>The header\<close>

definition RTP_PACKET_MAX_SIZE :: nat where "RTP_PACKET_MAX_SIZE = 1500"
definition RTP_VERSION :: u8 where "RTP_VERSION = 2"
definition RTP_SEQ_MOD :: nat where "RTP_SEQ_MOD = 65536"
definition RTP_HEADER_SIZE :: nat where "RTP_HEADER_SIZE = 12"

definition IsRtcp :: "bytes \<Rightarrow> bool" where
  "IsRtcp data \<longleftrightarrow> length data \<ge> 4 \<and> data ! 0 > 127 \<and> data ! 0 < 192 \<and> drop_bit 6 (data ! 0) = 2 \<and>
     data ! 1 \<ge> 192 \<and> data ! 1 \<le> 223"

definition IsRtp :: "bytes \<Rightarrow> bool" where
  "IsRtp data \<longleftrightarrow> length data \<ge> RTP_HEADER_SIZE \<and> data ! 0 > 127 \<and> data ! 0 < 192 \<and> drop_bit 6 (data ! 0) = 2"

text \<open>A field of the header in network order, and a write of bytes at an offset.\<close>

definition net16 :: "bytes \<Rightarrow> nat \<Rightarrow> u16" where
  "net16 m i = of_nat (be_val (take 2 (drop i m)))"

definition net32 :: "bytes \<Rightarrow> nat \<Rightarrow> u32" where
  "net32 m i = of_nat (be_val (take 4 (drop i m)))"

definition put_at :: "nat \<Rightarrow> bytes \<Rightarrow> bytes \<Rightarrow> bytes" where
  "put_at i d m = take i m @ d @ drop (i + length d) m"

section \<open>The packet\<close>

datatype rtp_error = RTP_TOO_LARGE | RTP_TOO_SMALL | RTP_NO_PAYLOAD | RTP_PAD_ERROR | RTP_EXT_ID | RTP_EXT_SHORT
  | RTX_TOO_SHORT

record rtp_packet =
  rtp_mem :: bytes
  rtp_ext :: "nat option"
  rtp_payload :: nat
  payload_len :: nat
  pad_len :: u8
  rtp_data_len :: nat
  local_ms :: int
  need_delete :: bool
  mid_extension_id :: u8
  abs_time_extension_id :: u8
  onebyte_ext_map :: "u8 \<rightharpoonup> nat"
  twobytes_ext_map :: "u8 \<rightharpoonup> nat"

definition Version :: "rtp_packet \<Rightarrow> u8" where "Version p = drop_bit 6 (rtp_mem p ! 0)"
definition HasPadding :: "rtp_packet \<Rightarrow> bool" where "HasPadding p = bit (rtp_mem p ! 0) 5"
definition HasExtension :: "rtp_packet \<Rightarrow> bool" where "HasExtension p = bit (rtp_mem p ! 0) 4"
definition CsrcCount :: "rtp_packet \<Rightarrow> u8" where "CsrcCount p = rtp_mem p ! 0 AND 0x0f"
definition GetPayloadType :: "rtp_packet \<Rightarrow> u8" where "GetPayloadType p = rtp_mem p ! 1 AND 0x7f"
definition GetMarker :: "rtp_packet \<Rightarrow> u8" where "GetMarker p = drop_bit 7 (rtp_mem p ! 1)"
definition GetSeq :: "rtp_packet \<Rightarrow> u16" where "GetSeq p = net16 (rtp_mem p) 2"
definition GetTimestamp :: "rtp_packet \<Rightarrow> u32" where "GetTimestamp p = net32 (rtp_mem p) 4"
definition GetSsrc :: "rtp_packet \<Rightarrow> u32" where "GetSsrc p = net32 (rtp_mem p) 8"

definition GetMPayloadType :: "rtp_packet \<Rightarrow> u8" where
  "GetMPayloadType p = push_bit 7 (GetMarker p) OR GetPayloadType p"

definition SetPadding :: "bool \<Rightarrow> rtp_packet \<Rightarrow> rtp_packet" where
  "SetPadding flag p = p\<lparr>rtp_mem := put_at 0 [if flag then rtp_mem p ! 0 OR 0x20 else rtp_mem p ! 0 AND 0xdf] (rtp_mem p)\<rparr>"

definition SetPayloadType :: "u8 \<Rightarrow> rtp_packet \<Rightarrow> rtp_packet" where
  "SetPayloadType ty p = p\<lparr>rtp_mem := put_at 1 [(rtp_mem p ! 1 AND 0x80) OR (ty AND 0x7f)] (rtp_mem p)\<rparr>"

definition SetMarker :: "u8 \<Rightarrow> rtp_packet \<Rightarrow> rtp_packet" where
  "SetMarker marker p = p\<lparr>rtp_mem := put_at 1 [(rtp_mem p ! 1 AND 0x7f) OR push_bit 7 (marker AND 1)] (rtp_mem p)\<rparr>"

definition SetSeq :: "u16 \<Rightarrow> rtp_packet \<Rightarrow> rtp_packet" where
  "SetSeq seq p = p\<lparr>rtp_mem := put_at 2 (Write2Bytes seq) (rtp_mem p)\<rparr>"

definition SetTimestamp :: "u32 \<Rightarrow> rtp_packet \<Rightarrow> rtp_packet" where
  "SetTimestamp ts p = p\<lparr>rtp_mem := put_at 4 (Write4Bytes ts) (rtp_mem p)\<rparr>"

definition SetSsrc :: "u32 \<Rightarrow> rtp_packet \<Rightarrow> rtp_packet" where
  "SetSsrc ssrc p = p\<lparr>rtp_mem := put_at 8 (Write4Bytes ssrc) (rtp_mem p)\<rparr>"

definition GetData :: "rtp_packet \<Rightarrow> bytes" where "GetData p = take (rtp_data_len p) (rtp_mem p)"

definition GetPayload :: "rtp_packet \<Rightarrow> bytes" where "GetPayload p = drop (rtp_payload p) (rtp_mem p)"

section \<open>Header extensions\<close>

definition GetExtId :: "rtp_packet \<Rightarrow> u16" where
  "GetExtId p = (case rtp_ext p of None \<Rightarrow> 0 | Some e \<Rightarrow> net16 (rtp_mem p) e)"

definition GetExtLength :: "rtp_packet \<Rightarrow> u16" where
  "GetExtLength p = (case rtp_ext p of None \<Rightarrow> 0 | Some e \<Rightarrow> net16 (rtp_mem p) (e + 2) * 4)"

definition HasOnebyteExt :: "rtp_packet \<Rightarrow> bool" where "HasOnebyteExt p \<longleftrightarrow> GetExtId p = 0xbede"

definition HasTwobytesExt :: "rtp_packet \<Rightarrow> bool" where "HasTwobytesExt p \<longleftrightarrow> GetExtId p AND 0xfff0 = 0x1000"

function skip_zeros :: "bytes \<Rightarrow> nat \<Rightarrow> nat \<Rightarrow> nat" where
  "skip_zeros m pos ext_end = (if pos < ext_end \<and> m ! pos = 0 then skip_zeros m (pos + 1) ext_end else pos)"
  by pat_completeness auto

termination by (relation "measure (\<lambda>(m, pos, ext_end). ext_end - pos)") auto

declare skip_zeros.simps [simp del]

lemma skip_zeros_ge: "pos \<le> skip_zeros m pos ext_end"
proof (induction m pos ext_end rule: skip_zeros.induct)
  case (1 m pos ext_end)
  then show ?case by (subst skip_zeros.simps) (auto intro: Suc_leD)
qed

function onebyte_loop :: "bytes \<Rightarrow> nat \<Rightarrow> nat \<Rightarrow> (u8 \<rightharpoonup> nat) \<Rightarrow> rtp_error + (u8 \<rightharpoonup> nat)" where
  "onebyte_loop m pos ext_end exts =
     (if pos < ext_end then
        let id = drop_bit 4 (m ! pos AND 0xf0); len = unat (m ! pos AND 0x0f) + 1 in
        if id = 0x0f then Inr exts
        else if id \<noteq> 0 then
          (if pos + 1 + len > ext_end then Inl RTP_EXT_SHORT
           else onebyte_loop m (skip_zeros m (pos + 1 + len) ext_end) ext_end (exts(id \<mapsto> pos)))
        else onebyte_loop m (skip_zeros m (pos + 1) ext_end) ext_end exts
      else Inr exts)"
  by pat_completeness auto

termination
proof (relation "measure (\<lambda>(m, pos, ext_end, exts). ext_end - pos)", goal_cases)
  case (2 m pos ext_end exts id len)
  then show ?case using skip_zeros_ge [of "pos + 1 + len" m ext_end] by simp
next
  case (3 m pos ext_end exts id len)
  then show ?case using skip_zeros_ge [of "pos + 1" m ext_end] by simp
qed simp

declare onebyte_loop.simps [simp del]

function twobytes_loop :: "bytes \<Rightarrow> nat \<Rightarrow> nat \<Rightarrow> (u8 \<rightharpoonup> nat) \<Rightarrow> rtp_error + (u8 \<rightharpoonup> nat)" where
  "twobytes_loop m pos ext_end exts =
     (if pos + 1 < ext_end then
        let id = m ! pos; len = unat (m ! (pos + 1)) in
        if id \<noteq> 0 then
          (if pos + 2 + len > ext_end then Inl RTP_EXT_SHORT
           else twobytes_loop m (skip_zeros m (pos + 2 + len) ext_end) ext_end (exts(id \<mapsto> pos)))
        else twobytes_loop m (skip_zeros m (pos + 1) ext_end) ext_end exts
      else Inr exts)"
  by pat_completeness auto

termination
proof (relation "measure (\<lambda>(m, pos, ext_end, exts). ext_end - pos)", goal_cases)
  case (2 m pos ext_end exts id len)
  then show ?case using skip_zeros_ge [of "pos + 2 + len" m ext_end] by simp
next
  case (3 m pos ext_end exts id len)
  then show ?case using skip_zeros_ge [of "pos + 1" m ext_end] by simp
qed simp

declare twobytes_loop.simps [simp del]

definition ParseExt :: "rtp_packet \<Rightarrow> rtp_error + rtp_packet" where
  "ParseExt p = (case rtp_ext p of
     None \<Rightarrow> Inr p
   | Some e \<Rightarrow>
       if \<not> HasExtension p then Inr p
       else if HasOnebyteExt p then
         map_sum id (\<lambda>exts. p\<lparr>onebyte_ext_map := exts\<rparr>)
           (onebyte_loop (rtp_mem p) (e + 4) (e + 4 + unat (GetExtLength p)) Map.empty)
       else if HasTwobytesExt p then
         map_sum id (\<lambda>exts. p\<lparr>twobytes_ext_map := exts\<rparr>)
           (twobytes_loop (rtp_mem p) (e + 4) (e + 4 + unat (GetExtLength p)) Map.empty)
       else Inl RTP_EXT_ID)"

text \<open>
  \<open>Parse\<close>, with the constructor: \<open>m\<close> is the buffer, of which the first \<open>len\<close> bytes are the
  packet, and \<open>now\<close> is the clock.
\<close>

definition rtp_parse_payload ::
  "int \<Rightarrow> bytes \<Rightarrow> nat \<Rightarrow> nat option \<Rightarrow> nat \<Rightarrow> rtp_error + rtp_packet" where
  "rtp_parse_payload now m len ext pos =
     (if len \<le> pos then Inl RTP_NO_PAYLOAD
      else let pad = (if bit (m ! 0) 5 then m ! (len - 1) else 0) in
        if pad > 0 \<and> len - pos \<le> unat pad then Inl RTP_PAD_ERROR
        else ParseExt \<lparr> rtp_mem = m, rtp_ext = ext, rtp_payload = pos, payload_len = len - pos - unat pad,
               pad_len = pad, rtp_data_len = len, local_ms = now, need_delete = False,
               mid_extension_id = 0, abs_time_extension_id = 0,
               onebyte_ext_map = Map.empty, twobytes_ext_map = Map.empty \<rparr>)"

definition Parse :: "int \<Rightarrow> bytes \<Rightarrow> nat \<Rightarrow> (rtp_error + rtp_packet) option" where
  "Parse now m len =
     (if m = [] \<or> length m < len then None
      else if len > RTP_PACKET_MAX_SIZE then Some (Inl RTP_TOO_LARGE)
      else let pos = RTP_HEADER_SIZE + 4 * unat (m ! 0 AND 0x0f) in
        if bit (m ! 0) 4 then
          (if len < pos + 4 then Some (Inl RTP_TOO_SMALL)
           else let extension_byte = unat (net16 m (pos + 2)) * 4 in
             if len < pos + 4 + extension_byte then Some (Inl RTP_TOO_SMALL)
             else Some (rtp_parse_payload now m len (Some pos) (pos + 4 + extension_byte)))
        else Some (rtp_parse_payload now m len None pos))"

text \<open>
  A clone has a buffer of its own: \<open>buf\<close> is what the new buffer holds before, the packet's
  bytes are copied over it.  \<open>None\<close> is also the failed assertion.
\<close>

definition Clone :: "int \<Rightarrow> bytes \<Rightarrow> bool \<Rightarrow> rtp_packet \<Rightarrow> (rtp_error + rtp_packet) option" where
  "Clone now buf own p =
     (if rtp_data_len p \<ge> RTP_PACKET_MAX_SIZE \<or> length buf < rtp_data_len p then None
      else map_option (map_sum id (\<lambda>q. q\<lparr>need_delete := own, mid_extension_id := mid_extension_id p,
               abs_time_extension_id := abs_time_extension_id p\<rparr>))
             (Parse now (put_at 0 (GetData p) buf) (rtp_data_len p)))"

text \<open>The value of an extension: its offset and length.\<close>

definition GetExtension :: "u8 \<Rightarrow> rtp_packet \<Rightarrow> (nat \<times> u8) option" where
  "GetExtension i p =
     (if HasOnebyteExt p then
        map_option (\<lambda>pos. (pos + 1, (rtp_mem p ! pos AND 0x0f) + 1)) (onebyte_ext_map p i)
      else if HasTwobytesExt p then
        (case twobytes_ext_map p i of
           None \<Rightarrow> None
         | Some pos \<Rightarrow> if rtp_mem p ! (pos + 1) = 0 then None else Some (pos + 2, rtp_mem p ! (pos + 1)))
      else None)"

definition UpdateExtensionLength :: "u8 \<Rightarrow> u8 \<Rightarrow> rtp_packet \<Rightarrow> bool \<times> rtp_packet" where
  "UpdateExtensionLength i len p =
     (if len = 0 then (False, p)
      else if HasOnebyteExt p then
        (case onebyte_ext_map p i of
           None \<Rightarrow> (False, p)
         | Some pos \<Rightarrow>
             let cur = (rtp_mem p ! pos AND 0x0f) + 1;
                 m = (if len < cur then put_at (pos + 1 + unat len) (replicate (unat (cur - len)) 0) (rtp_mem p) else rtp_mem p)
             in (True, p\<lparr>rtp_mem := put_at pos [(m ! pos AND 0xf0) OR ((len - 1) AND 0x0f)] m\<rparr>))
      else if HasTwobytesExt p then
        (case twobytes_ext_map p i of
           None \<Rightarrow> (False, p)
         | Some pos \<Rightarrow>
             let cur = rtp_mem p ! (pos + 1);
                 m = (if len < cur then put_at (pos + 2 + unat len) (replicate (unat (cur - len)) 0) (rtp_mem p) else rtp_mem p)
             in (True, p\<lparr>rtp_mem := put_at (pos + 1) [len] m\<rparr>))
      else (False, p))"

text \<open>A decimal number, as \<open>std::to_string\<close> writes it and as \<open>atoi\<close> reads it.\<close>

definition digits_of :: "u8 \<Rightarrow> bytes" where
  "digits_of n = (let k = unat n in
     (if k \<ge> 100 then [of_nat (0x30 + k div 100)] else [])
     @ (if k \<ge> 10 then [of_nat (0x30 + k div 10 mod 10)] else []) @ [of_nat (0x30 + k mod 10)])"

fun atoi_digits :: "int \<Rightarrow> bytes \<Rightarrow> int" where
  "atoi_digits n [] = n"
| "atoi_digits n (c # cs) = (if 0x30 \<le> c \<and> c \<le> 0x39 then atoi_digits (n * 10 + int (unat c - 0x30)) cs else n)"

definition atoi :: "bytes \<Rightarrow> int" where
  "atoi s = (case dropWhile (\<lambda>c. c = 0x20 \<or> 0x09 \<le> c \<and> c \<le> 0x0d) s of
     [] \<Rightarrow> 0
   | c # cs \<Rightarrow> if c = 0x2d then - atoi_digits 0 cs else if c = 0x2b then atoi_digits 0 cs else atoi_digits 0 (c # cs))"

definition UpdateMid :: "u8 \<Rightarrow> rtp_packet \<Rightarrow> bool \<times> rtp_packet" where
  "UpdateMid mid p = (case GetExtension (mid_extension_id p) p of
     None \<Rightarrow> (False, p)
   | Some (pos, _) \<Rightarrow> UpdateExtensionLength (mid_extension_id p) (of_nat (length (digits_of mid)))
       (p\<lparr>rtp_mem := put_at pos (digits_of mid) (rtp_mem p)\<rparr>))"

definition ReadMid :: "rtp_packet \<Rightarrow> u8 option" where
  "ReadMid p = map_option (\<lambda>(pos, len). of_int (atoi (take (unat len) (drop pos (rtp_mem p)))))
     (GetExtension (mid_extension_id p) p)"

definition ReadAbsTime :: "rtp_packet \<Rightarrow> u32 option" where
  "ReadAbsTime p = (case GetExtension (abs_time_extension_id p) p of
     None \<Rightarrow> None | Some (pos, _) \<Rightarrow> Read3Bytes (drop pos (rtp_mem p)))"

definition UpdateAbsTime :: "u32 \<Rightarrow> rtp_packet \<Rightarrow> bool \<times> rtp_packet" where
  "UpdateAbsTime t p = (case GetExtension (abs_time_extension_id p) p of
     None \<Rightarrow> (False, p)
   | Some (pos, _) \<Rightarrow> UpdateExtensionLength (abs_time_extension_id p) 3
       (p\<lparr>rtp_mem := put_at pos (Write3Bytes t) (rtp_mem p)\<rparr>))"

section \<open>Retransmission\<close>

text \<open>The sizes are \<open>size_t\<close>; on a packet as \<open>Parse\<close> makes it no subtraction goes below 0.\<close>

definition drop_padding :: "rtp_packet \<Rightarrow> rtp_packet" where
  "drop_padding p =
     (if HasPadding p then (SetPadding False p)\<lparr>rtp_data_len := rtp_data_len p - unat (pad_len p), pad_len := 0\<rparr> else p)"

definition RtxDemux :: "u32 \<Rightarrow> u8 \<Rightarrow> rtp_packet \<Rightarrow> rtp_error + rtp_packet" where
  "RtxDemux ssrc payloadtype p =
     (if payload_len p < 2 then Inl RTX_TOO_SHORT
      else let replace_seq = net16 (GetPayload p) 0;
               p = SetSsrc ssrc (SetSeq replace_seq (SetPayloadType payloadtype p));
               m = put_at (rtp_payload p) (take (payload_len p - 2) (drop 2 (GetPayload p))) (rtp_mem p)
        in Inr (drop_padding (p\<lparr>rtp_mem := m, payload_len := payload_len p - 2, rtp_data_len := rtp_data_len p - 2\<rparr>)))"

text \<open>The payload moves up two bytes, over the padding or past the end of the packet.\<close>

definition RtxMux :: "u8 \<Rightarrow> u32 \<Rightarrow> u16 \<Rightarrow> rtp_packet \<Rightarrow> rtp_packet option" where
  "RtxMux pt ssrc seq p = do {
     require (rtp_payload p + payload_len p + 2 \<le> length (rtp_mem p));
     p \<leftarrow> Some (SetSsrc ssrc (SetPayloadType pt p));
     m \<leftarrow> Some (put_at (rtp_payload p) (Write2Bytes (GetSeq p) @ take (payload_len p) (GetPayload p)) (rtp_mem p));
     Some (drop_padding ((SetSeq seq (p\<lparr>rtp_mem := m\<rparr>))\<lparr>payload_len := payload_len p + 2,
             rtp_data_len := rtp_data_len p + 2\<rparr>)) }"

section \<open>The order of sequence numbers\<close>

text \<open>
  C26: \<open>SeqLowerThan\<close> is the order of serial numbers modulo \<open>2 ^ 16\<close>: a number is lower than
  another one if it is ahead by less than half of the range going up; for the two numbers that
  are exactly half of the range apart the larger one is lower.  So of two different numbers
  exactly one is lower, and \<open>SeqHigherThan\<close> is the converse.
\<close>
theorem SeqLowerThan_serial:
  "(SeqLowerThan a b \<longleftrightarrow> a \<noteq> b \<and> (unat (b - a) < 2 ^ 15 \<or> unat (b - a) = 2 ^ 15 \<and> b < a)) \<and>
   (SeqHigherThan a b \<longleftrightarrow> SeqLowerThan b a)"
proof
  have lower: "SeqLowerThan a b \<longleftrightarrow> a \<noteq> b \<and> (unat (b - a) < 2 ^ 15 \<or> unat (b - a) = 2 ^ 15 \<and> b < a)" for a b
  proof (cases "a \<le> b")
    case True
    then have "unat (b - a) = unat b - unat a" "unat a \<le> unat b" by (simp_all add: unat_sub word_le_nat_alt)
    with True show ?thesis
      by (auto simp: SeqLowerThan_def SEQUENCE_MAX_def word_less_nat_alt word_le_nat_alt word_eq_iff_unat simp del: of_nat_unat)
  next
    case False
    then have l: "unat b < unat a" by (simp add: word_le_nat_alt)
    have "unat (b - a) = 65536 + unat b - unat a"
      using l unat_sub_if' [of b a] by simp
    with l show ?thesis
      by (auto simp: SeqLowerThan_def SEQUENCE_MAX_def word_less_nat_alt word_le_nat_alt word_eq_iff_unat simp del: of_nat_unat)
  qed
  show "SeqLowerThan a b \<longleftrightarrow> a \<noteq> b \<and> (unat (b - a) < 2 ^ 15 \<or> unat (b - a) = 2 ^ 15 \<and> b < a)" by (rule lower)
  show "SeqHigherThan a b \<longleftrightarrow> SeqLowerThan b a"
    by (auto simp: SeqHigherThan_def SeqLowerThan_def SEQUENCE_MAX_def word_less_nat_alt word_eq_iff_unat simp del: of_nat_unat)
qed

section \<open>Writes into the buffer\<close>

lemma length_put_at [simp]: "i + length d \<le> length m \<Longrightarrow> length (put_at i d m) = length m"
  by (simp add: put_at_def)

lemma nth_put_at:
  "i + length d \<le> length m \<Longrightarrow> k < length m \<Longrightarrow>
   put_at i d m ! k = (if i \<le> k \<and> k < i + length d then d ! (k - i) else m ! k)"
  by (auto simp: put_at_def nth_append)

lemma nth_put_at_other [simp]:
  "i + length d \<le> length m \<Longrightarrow> k < i \<Longrightarrow> put_at i d m ! k = m ! k"
  by (simp add: nth_put_at)

lemma drop_put_at: "i + length d \<le> length m \<Longrightarrow> drop i (put_at i d m) = d @ drop (i + length d) m"
  by (simp add: put_at_def)

lemma drop_put_at_before: "i + length d \<le> j \<Longrightarrow> j \<le> length m \<Longrightarrow> drop j (put_at i d m) = drop j m"
  by (simp add: put_at_def)

lemma drop_put_at_later: "i + length d \<le> j \<Longrightarrow> i + length d \<le> length m \<Longrightarrow> drop j (put_at i d m) = drop j m"
  by (cases "j \<le> length m") (simp_all add: drop_put_at_before)

lemma net16_nth: "i + 1 < length m \<Longrightarrow> net16 m i = of_nat (unat (m ! i) * 256 + unat (m ! (i + 1)))"
proof -
  assume a: "i + 1 < length m"
  then have "drop i m = m ! i # m ! (i + 1) # drop (i + 2) m" by (simp add: Cons_nth_drop_Suc)
  then show ?thesis by (simp add: net16_def be_val_def)
qed

lemma net32_nth: "i + 3 < length m \<Longrightarrow>
  net32 m i = of_nat (((unat (m ! i) * 256 + unat (m ! (i + 1))) * 256 + unat (m ! (i + 2))) * 256 + unat (m ! (i + 3)))"
proof -
  assume a: "i + 3 < length m"
  have d: "drop k m = m ! k # drop (k + 1) m" if "k < length m" for k using that by (simp add: Cons_nth_drop_Suc)
  have "drop i m = m ! i # m ! (i + 1) # m ! (i + 2) # m ! (i + 3) # drop (i + 4) m"
    using a d [of i] d [of "i + 1"] d [of "i + 2"] d [of "i + 3"] by (simp add: numeral_eq_Suc)
  then show ?thesis by (simp add: net32_def be_val_def)
qed

lemma net_put_other:
  "i + length d \<le> length m \<Longrightarrow> j + 2 \<le> i \<or> i + length d \<le> j \<Longrightarrow> j + 1 < length m \<Longrightarrow> net16 (put_at i d m) j = net16 m j"
  "i + length d \<le> length m \<Longrightarrow> j + 4 \<le> i \<or> i + length d \<le> j \<Longrightarrow> j + 3 < length m \<Longrightarrow> net32 (put_at i d m) j = net32 m j"
  by (auto simp: net16_nth net32_nth nth_put_at)

lemma net16_Write: "net16 (put_at i (Write2Bytes w) m) i = w" if "i + 2 \<le> length m" for w
proof -
  have "drop i (put_at i (Write2Bytes w) m) = Write2Bytes w @ drop (i + 2) m"
    using that by (simp add: drop_put_at lens)
  then show ?thesis by (simp add: net16_def Write2Bytes_def be_val_be_bytes)
qed

lemma net32_Write: "net32 (put_at i (Write4Bytes w) m) i = w" if "i + 4 \<le> length m" for w
proof -
  have "drop i (put_at i (Write4Bytes w) m) = Write4Bytes w @ drop (i + 4) m"
    using that by (simp add: drop_put_at lens)
  then show ?thesis by (simp add: net32_def Write4Bytes_def be_val_be_bytes)
qed

section \<open>Retransmission and back\<close>

text \<open>A packet as \<open>Parse\<close> makes it: header, payload and padding lie in this order in the buffer.\<close>

definition rtp_ok :: "rtp_packet \<Rightarrow> bool" where
  "rtp_ok p \<longleftrightarrow> RTP_HEADER_SIZE \<le> rtp_payload p \<and> rtp_data_len p \<le> length (rtp_mem p) \<and> 0 < payload_len p \<and>
     rtp_payload p + payload_len p + unat (pad_len p) = rtp_data_len p \<and> (\<not> HasPadding p \<longrightarrow> pad_len p = 0)"

definition payload_of :: "rtp_packet \<Rightarrow> bytes" where
  "payload_of p = take (payload_len p) (GetPayload p)"

lemma ParseExt_fields:
  "ParseExt p = Inr q \<Longrightarrow> rtp_mem q = rtp_mem p \<and> rtp_payload q = rtp_payload p \<and> payload_len q = payload_len p \<and>
     pad_len q = pad_len p \<and> rtp_data_len q = rtp_data_len p \<and> local_ms q = local_ms p"
  by (auto simp: ParseExt_def map_sum_def split: option.splits if_splits sum.splits)

lemma rtp_parse_payload_ok:
  assumes "rtp_parse_payload now m len ext pos = Inr p" "12 \<le> pos" "len \<le> length m"
  shows "rtp_ok p" "rtp_mem p = m" "rtp_data_len p = len" "local_ms p = now"
proof -
  let ?pad = "if bit (m ! 0) 5 then m ! (len - 1) else 0"
  have a: "pos < len" "\<not> (?pad > 0 \<and> len - pos \<le> unat ?pad)" using assms(1)
    by (auto simp: rtp_parse_payload_def Let_def split: if_splits)
  then have q: "ParseExt \<lparr> rtp_mem = m, rtp_ext = ext, rtp_payload = pos, payload_len = len - pos - unat ?pad,
               pad_len = ?pad, rtp_data_len = len, local_ms = now, need_delete = False,
               mid_extension_id = 0, abs_time_extension_id = 0,
               onebyte_ext_map = Map.empty, twobytes_ext_map = Map.empty \<rparr> = Inr p"
    using assms(1) by (simp add: rtp_parse_payload_def Let_def split: if_splits)
  note f = ParseExt_fields [OF q, simplified]
  from f show "rtp_mem p = m" "rtp_data_len p = len" "local_ms p = now" by simp_all
  have "0 < len - pos - unat ?pad \<and> pos + (len - pos - unat ?pad) + unat ?pad = len"
    using a by (cases "?pad > 0") (auto simp: word_less_nat_alt)
  with f assms(2,3) show "rtp_ok p"
    by (auto simp: rtp_ok_def RTP_HEADER_SIZE_def HasPadding_def)
qed

lemma Parse_ok:
  assumes "Parse now m len = Some (Inr p)"
  shows "rtp_ok p" "rtp_mem p = m" "rtp_data_len p = len" "local_ms p = now"
proof -
  from assms obtain ext pos where "rtp_parse_payload now m len ext pos = Inr p" "12 \<le> pos" "len \<le> length m"
    by (auto simp: Parse_def Let_def RTP_HEADER_SIZE_def split: if_splits)
  from rtp_parse_payload_ok [OF this] show "rtp_ok p" "rtp_mem p = m" "rtp_data_len p = len" "local_ms p = now" .
qed

lemmas rtp_setters = SetSsrc_def SetSeq_def SetTimestamp_def SetPayloadType_def SetMarker_def SetPadding_def
lemmas rtp_getters = GetSsrc_def GetSeq_def GetTimestamp_def GetPayloadType_def GetMarker_def HasPadding_def GetMPayloadType_def

lemma bit_0x80: "bit (0x80 :: int) n \<longleftrightarrow> n = 7"
proof -
  have "(0x80 :: int) = 2 ^ 7" by simp
  then show ?thesis by (simp only: bit_exp_iff) auto
qed

lemma type_bits:
  fixes b t :: u8
  shows "(b AND 0x80 OR (t AND 0x7f)) AND 0x7f = t AND 0x7f" "drop_bit 7 (b AND 0x80 OR (t AND 0x7f)) = drop_bit 7 b"
    "drop_bit 7 b AND 1 = drop_bit 7 b"
proof -
  have m: "0x7f = (mask 7 :: u8)" "(1 :: u8) = mask 1" by (simp_all add: mask_eq_exp_minus_1)
  show "(b AND 0x80 OR (t AND 0x7f)) AND 0x7f = t AND 0x7f"
    unfolding m(1) by (rule bit_word_eqI) (auto simp: bit_simps bit_0x80)
  have top: "n = 0" if "bit b (7 + n)" for n using bit_imp_le_length [OF that] by simp
  show "drop_bit 7 (b AND 0x80 OR (t AND 0x7f)) = drop_bit 7 b"
    unfolding m(1) by (rule bit_word_eqI) (auto simp: bit_simps bit_0x80 dest: top)
  show "drop_bit 7 b AND 1 = drop_bit 7 b"
    unfolding m(2) by (rule bit_word_eqI) (auto simp: bit_simps dest: top)
qed

text \<open>The fields of the header that retransmission leaves alone or sets.\<close>

definition header_is :: "u16 \<Rightarrow> u32 \<Rightarrow> u32 \<Rightarrow> u8 \<Rightarrow> u8 \<Rightarrow> rtp_packet \<Rightarrow> bool" where
  "header_is seq ts ssrc ty marker p \<longleftrightarrow> GetSeq p = seq \<and> GetTimestamp p = ts \<and> GetSsrc p = ssrc \<and>
     GetPayloadType p = ty \<and> GetMarker p = marker"

lemma header_is_set:
  assumes "12 \<le> length (rtp_mem p)" "header_is seq ts ssrc ty marker p"
  shows "header_is seq' ts ssrc ty marker (SetSeq seq' p)" "header_is seq ts ssrc' ty marker (SetSsrc ssrc' p)"
    "header_is seq ts ssrc (ty' AND 0x7f) marker (SetPayloadType ty' p)"
    "header_is seq ts ssrc ty marker (SetPadding f p)"
  using assms type_bits(3)
  by (auto simp: header_is_def rtp_setters rtp_getters net_put_other net16_Write net32_Write nth_put_at type_bits(1,2))

lemma header_is_payload:
  assumes "12 \<le> i" "i + length d \<le> length (rtp_mem p)" "header_is seq ts ssrc ty marker p"
  shows "header_is seq ts ssrc ty marker (p\<lparr>rtp_mem := put_at i d (rtp_mem p)\<rparr>)"
  using assms by (simp add: header_is_def rtp_getters net_put_other nth_put_at)

lemma header_is_fields [simp]:
  "header_is seq ts ssrc ty marker (p\<lparr>payload_len := n\<rparr>) \<longleftrightarrow> header_is seq ts ssrc ty marker p"
  "header_is seq ts ssrc ty marker (p\<lparr>rtp_data_len := n\<rparr>) \<longleftrightarrow> header_is seq ts ssrc ty marker p"
  "header_is seq ts ssrc ty marker (p\<lparr>pad_len := d\<rparr>) \<longleftrightarrow> header_is seq ts ssrc ty marker p"
  "HasPadding (p\<lparr>payload_len := n\<rparr>) = HasPadding p" "HasPadding (p\<lparr>rtp_data_len := n\<rparr>) = HasPadding p"
  "HasPadding (p\<lparr>pad_len := d\<rparr>) = HasPadding p"
  by (simp_all add: header_is_def rtp_getters)

lemma setters_rest [simp]:
  "rtp_payload (SetSeq seq p) = rtp_payload p" "payload_len (SetSeq seq p) = payload_len p"
  "pad_len (SetSeq seq p) = pad_len p" "rtp_data_len (SetSeq seq p) = rtp_data_len p"
  "rtp_payload (SetSsrc ssrc p) = rtp_payload p" "payload_len (SetSsrc ssrc p) = payload_len p"
  "pad_len (SetSsrc ssrc p) = pad_len p" "rtp_data_len (SetSsrc ssrc p) = rtp_data_len p"
  "rtp_payload (SetPayloadType ty p) = rtp_payload p" "payload_len (SetPayloadType ty p) = payload_len p"
  "pad_len (SetPayloadType ty p) = pad_len p" "rtp_data_len (SetPayloadType ty p) = rtp_data_len p"
  "rtp_payload (SetPadding f p) = rtp_payload p" "payload_len (SetPadding f p) = payload_len p"
  "pad_len (SetPadding f p) = pad_len p" "rtp_data_len (SetPadding f p) = rtp_data_len p"
  by (simp_all add: rtp_setters)

lemma setters_mem:
  assumes "12 \<le> length (rtp_mem p)"
  shows "length (rtp_mem (SetSeq seq p)) = length (rtp_mem p)" "length (rtp_mem (SetSsrc ssrc p)) = length (rtp_mem p)"
    "length (rtp_mem (SetPayloadType ty p)) = length (rtp_mem p)" "length (rtp_mem (SetPadding f p)) = length (rtp_mem p)"
    "12 \<le> k \<Longrightarrow> drop k (rtp_mem (SetSeq seq p)) = drop k (rtp_mem p)"
    "12 \<le> k \<Longrightarrow> drop k (rtp_mem (SetSsrc ssrc p)) = drop k (rtp_mem p)"
    "12 \<le> k \<Longrightarrow> drop k (rtp_mem (SetPayloadType ty p)) = drop k (rtp_mem p)"
    "12 \<le> k \<Longrightarrow> drop k (rtp_mem (SetPadding f p)) = drop k (rtp_mem p)"
  using assms by (simp_all add: rtp_setters lens drop_put_at_later)

lemma setters_padding:
  assumes "12 \<le> length (rtp_mem p)"
  shows "HasPadding (SetSeq seq p) = HasPadding p" "HasPadding (SetSsrc ssrc p) = HasPadding p"
    "HasPadding (SetPayloadType ty p) = HasPadding p" "\<not> HasPadding (SetPadding False p)"
proof -
  have "rtp_mem p \<noteq> []" using assms by auto
  with assms show "HasPadding (SetSeq seq p) = HasPadding p" "HasPadding (SetSsrc ssrc p) = HasPadding p"
    "HasPadding (SetPayloadType ty p) = HasPadding p" "\<not> HasPadding (SetPadding False p)"
    by (auto simp: rtp_setters HasPadding_def nth_put_at lens bit_simps Suc_le_eq)
qed

lemma drop_padding_rest:
  assumes "12 \<le> length (rtp_mem p)" "header_is seq ts ssrc ty marker p" "12 \<le> rtp_payload p"
  shows "header_is seq ts ssrc ty marker (drop_padding p)" "\<not> HasPadding (drop_padding p)"
    "rtp_payload (drop_padding p) = rtp_payload p" "payload_len (drop_padding p) = payload_len p"
    "drop (rtp_payload p) (rtp_mem (drop_padding p)) = drop (rtp_payload p) (rtp_mem p)"
    "length (rtp_mem (drop_padding p)) = length (rtp_mem p)"
    "pad_len (drop_padding p) = (if HasPadding p then 0 else pad_len p)"
    "rtp_data_len (drop_padding p) = rtp_data_len p - (if HasPadding p then unat (pad_len p) else 0)"
  using assms setters_padding(4) [OF assms(1)]
  by (auto simp: drop_padding_def setters_mem header_is_set)

text \<open>The packet that carries \<open>d\<close> as its payload, without padding.\<close>

definition carries :: "bytes \<Rightarrow> rtp_packet \<Rightarrow> bool" where
  "carries d p \<longleftrightarrow> RTP_HEADER_SIZE \<le> rtp_payload p \<and> payload_len p = length d \<and>
     rtp_payload p + length d \<le> length (rtp_mem p) \<and> payload_of p = d \<and> \<not> HasPadding p \<and> pad_len p = 0 \<and>
     rtp_data_len p = rtp_payload p + payload_len p"

lemma rtx_mux:
  assumes ok: "rtp_ok p" and room: "rtp_payload p + payload_len p + 2 \<le> length (rtp_mem p)"
    and h: "header_is s ts ss ty marker p"
  obtains q where "RtxMux pt ssrc seq p = Some q" "header_is seq ts ssrc (pt AND 0x7f) marker q"
    "carries (Write2Bytes s @ payload_of p) q" "rtp_payload q = rtp_payload p"
proof -
  have l: "12 \<le> length (rtp_mem p)" "12 \<le> rtp_payload p" using ok by (auto simp: rtp_ok_def RTP_HEADER_SIZE_def)
  define a where "a = SetSsrc ssrc (SetPayloadType pt p)"
  have a: "header_is s ts ssrc (pt AND 0x7f) marker a" "length (rtp_mem a) = length (rtp_mem p)"
    "drop (rtp_payload p) (rtp_mem a) = drop (rtp_payload p) (rtp_mem p)" "HasPadding a = HasPadding p"
    "rtp_payload a = rtp_payload p" "payload_len a = payload_len p" "pad_len a = pad_len p" "rtp_data_len a = rtp_data_len p"
    using l by (simp_all add: a_def header_is_set [OF _ header_is_set(3) [OF _ h]] setters_mem setters_padding)
  define d where "d = Write2Bytes (GetSeq a) @ take (payload_len a) (GetPayload a)"
  have d: "d = Write2Bytes s @ payload_of p" "length d = payload_len p + 2"
    using a room by (auto simp: d_def payload_of_def GetPayload_def header_is_def lens)
  define e where "e = a\<lparr>rtp_mem := put_at (rtp_payload p) d (rtp_mem a)\<rparr>"
  have la: "12 \<le> length (rtp_mem a)" "rtp_payload p + length d \<le> length (rtp_mem a)" using l a d room by simp_all
  have e: "header_is s ts ssrc (pt AND 0x7f) marker e" "length (rtp_mem e) = length (rtp_mem p)"
    "drop (rtp_payload p) (rtp_mem e) = d @ drop (rtp_payload p + length d) (rtp_mem a)" "HasPadding e = HasPadding p"
    "rtp_payload e = rtp_payload p" "pad_len e = pad_len p"
    using la l a by (auto simp: e_def header_is_payload drop_put_at HasPadding_def)
  define c where "c = (SetSeq seq e)\<lparr>payload_len := payload_len p + 2, rtp_data_len := rtp_data_len p + 2\<rparr>"
  have c: "header_is seq ts ssrc (pt AND 0x7f) marker c" "length (rtp_mem c) = length (rtp_mem p)"
    "drop (rtp_payload p) (rtp_mem c) = d @ drop (rtp_payload p + length d) (rtp_mem a)" "HasPadding c = HasPadding p"
    "rtp_payload c = rtp_payload p" "pad_len c = pad_len p" "payload_len c = payload_len p + 2"
    "rtp_data_len c = rtp_data_len p + 2"
    using l e header_is_set(1) [OF _ e(1)] setters_padding(1) [of e seq] by (simp_all add: c_def setters_mem)
  note f = drop_padding_rest [of c, OF _ c(1)]
  have "RtxMux pt ssrc seq p = Some (drop_padding c)" using room a
    by (simp add: RtxMux_def require_def a_def [symmetric] c_def e_def d_def Let_def)
  moreover have "header_is seq ts ssrc (pt AND 0x7f) marker (drop_padding c)" using f l c by simp
  moreover have "carries (Write2Bytes s @ payload_of p) (drop_padding c)"
    using f l c d room ok unfolding carries_def payload_of_def GetPayload_def
    by (auto simp: rtp_ok_def RTP_HEADER_SIZE_def)
  moreover have "rtp_payload (drop_padding c) = rtp_payload p" using f l c by simp
  ultimately show thesis by (rule that)
qed

lemma rtx_demux:
  assumes q: "carries (Write2Bytes s @ d) q" and h: "header_is seq ts ss ty marker q"
  obtains r where "RtxDemux ssrc pt q = Inr r" "header_is s ts ssrc (pt AND 0x7f) marker r" "carries d r"
    "rtp_payload r = rtp_payload q"
proof -
  have l: "12 \<le> length (rtp_mem q)" "12 \<le> rtp_payload q" "rtp_payload q + length d + 2 \<le> length (rtp_mem q)"
    "payload_len q = length d + 2" "rtp_data_len q = rtp_payload q + length d + 2" "\<not> HasPadding q" "pad_len q = 0"
    using q by (auto simp: carries_def RTP_HEADER_SIZE_def lens)
  have t: "take (length d + 2) (drop (rtp_payload q) (rtp_mem q)) = Write2Bytes s @ d"
    using q l by (simp add: carries_def payload_of_def GetPayload_def)
  define z where "z = drop (length d + 2) (drop (rtp_payload q) (rtp_mem q))"
  have dr: "drop (rtp_payload q) (rtp_mem q) = Write2Bytes s @ d @ z"
    using append_take_drop_id [of "length d + 2" "drop (rtp_payload q) (rtp_mem q)"] unfolding t z_def by simp
  have rs: "net16 (Write2Bytes s @ d @ z) 0 = s"
    by (simp add: net16_def Write2Bytes_def be_val_be_bytes)
  define a where "a = SetSsrc ssrc (SetSeq s (SetPayloadType pt q))"
  have a: "header_is s ts ssrc (pt AND 0x7f) marker a" "length (rtp_mem a) = length (rtp_mem q)"
    "drop (rtp_payload q) (rtp_mem a) = Write2Bytes s @ d @ z" "\<not> HasPadding a"
    "rtp_payload a = rtp_payload q" "payload_len a = length d + 2" "pad_len a = 0" "rtp_data_len a = rtp_data_len q"
    using l by (simp_all add: a_def header_is_set(2) [OF _ header_is_set(1) [OF _ header_is_set(3) [OF _ h]]]
      setters_mem setters_padding dr)
  define c where "c = a\<lparr>rtp_mem := put_at (rtp_payload q) d (rtp_mem a), payload_len := length d,
      rtp_data_len := rtp_data_len q - 2\<rparr>"
  have hc: "header_is s ts ssrc (pt AND 0x7f) marker (a\<lparr>rtp_mem := put_at (rtp_payload q) d (rtp_mem a)\<rparr>)"
    using l a by (intro header_is_payload) simp_all
  then have c: "header_is s ts ssrc (pt AND 0x7f) marker c" "\<not> HasPadding c"
    using a l by (auto simp: c_def header_is_def rtp_getters)
  have "drop 2 (drop (rtp_payload q) (rtp_mem a)) = d @ z" unfolding a(3) by (simp add: Write2Bytes_def)
  then have "drop (Suc (Suc (rtp_payload q))) (rtp_mem a) = d @ z" by simp
  then have "RtxDemux ssrc pt q = Inr (drop_padding c)"
    using a l by (simp add: RtxDemux_def Let_def GetPayload_def dr rs a_def [symmetric] c_def lens)
  moreover have "drop_padding c = c" using c by (simp add: drop_padding_def)
  moreover have "carries d c" using a l c unfolding carries_def payload_of_def GetPayload_def
    by (simp add: c_def drop_put_at RTP_HEADER_SIZE_def)
  moreover have "rtp_payload c = rtp_payload q" using a by (simp add: c_def)
  ultimately show thesis using that c by metis
qed

text \<open>
  C25: A packet sent for retransmission (RFC 4588) comes back as it was.  For a packet with
  two bytes of room behind its payload, \<open>RtxMux\<close> returns a packet with the
  retransmission stream's type, source and sequence number; \<open>RtxDemux\<close> with the
  original type and source gives back the sequence number, timestamp, source, type,
  marker and payload of the original; the padding, if there was any, is gone.
\<close>
theorem rtx_roundtrip:
  assumes "rtp_ok p" "rtp_payload p + payload_len p + 2 \<le> length (rtp_mem p)"
  shows "\<exists>q r. RtxMux pt ssrc seq p = Some q \<and> GetSeq q = seq \<and> GetSsrc q = ssrc \<and> GetPayloadType q = pt AND 0x7f \<and>
    payload_of q = Write2Bytes (GetSeq p) @ payload_of p \<and>
    RtxDemux (GetSsrc p) (GetPayloadType p) q = Inr r \<and>
    header_is (GetSeq p) (GetTimestamp p) (GetSsrc p) (GetPayloadType p) (GetMarker p) r \<and> payload_of r = payload_of p \<and>
    rtp_data_len r = rtp_data_len p - unat (pad_len p)"
proof -
  have h: "header_is (GetSeq p) (GetTimestamp p) (GetSsrc p) (GetPayloadType p) (GetMarker p) p" by (simp add: header_is_def)
  obtain q where q: "RtxMux pt ssrc seq p = Some q" "header_is seq (GetTimestamp p) ssrc (pt AND 0x7f) (GetMarker p) q"
    "carries (Write2Bytes (GetSeq p) @ payload_of p) q" "rtp_payload q = rtp_payload p"
    by (rule rtx_mux [OF assms h])
  obtain r where r: "RtxDemux (GetSsrc p) (GetPayloadType p) q = Inr r"
    "header_is (GetSeq p) (GetTimestamp p) (GetSsrc p) (GetPayloadType p AND 0x7f) (GetMarker p) r" "carries (payload_of p) r"
    "rtp_payload r = rtp_payload q"
    by (rule rtx_demux [OF q(3,2)])
  have "GetPayloadType p AND 0x7f = GetPayloadType p" by (simp add: GetPayloadType_def and.assoc)
  moreover have "rtp_data_len r = rtp_data_len p - unat (pad_len p)"
    using r q(4) assms by (auto simp: carries_def rtp_ok_def payload_of_def GetPayload_def)
  ultimately show ?thesis using q r by (auto simp: header_is_def carries_def)
qed

definition sample_rtp :: rtp_packet where
  "sample_rtp = \<lparr> rtp_mem = [0xa0, 0xe0, 0, 7, 0, 0, 0, 9, 0, 0, 0, 5, 0x41, 0x42, 0, 2, 0, 0],
     rtp_ext = None, rtp_payload = 12, payload_len = 2, pad_len = 2, rtp_data_len = 16, local_ms = 0,
     need_delete = False, mid_extension_id = 0, abs_time_extension_id = 0,
     onebyte_ext_map = Map.empty, twobytes_ext_map = Map.empty \<rparr>"

theorem rtx_roundtrip_witness:
  "rtp_ok sample_rtp \<and> payload_of sample_rtp = [0x41, 0x42] \<and>
   (\<exists>q r. RtxMux 97 99 3 sample_rtp = Some q \<and> GetSeq q = 3 \<and> payload_of q = Write2Bytes 7 @ [0x41, 0x42] \<and>
     RtxDemux 5 96 q = Inr r \<and> payload_of r = [0x41, 0x42] \<and> GetSeq r = 7 \<and> rtp_data_len r = 14)"
proof -
  have ok: "rtp_ok sample_rtp" "payload_of sample_rtp = [0x41, 0x42]" "GetSeq sample_rtp = 7" "GetSsrc sample_rtp = 5"
    "GetPayloadType sample_rtp = 96" "rtp_payload sample_rtp + payload_len sample_rtp + 2 \<le> length (rtp_mem sample_rtp)"
    "rtp_data_len sample_rtp - unat (pad_len sample_rtp) = 14"
    by (simp_all add: sample_rtp_def rtp_ok_def RTP_HEADER_SIZE_def HasPadding_def payload_of_def GetPayload_def
        rtp_getters net16_def net32_def be_val_def)
  from rtx_roundtrip [OF ok(1,6), of 97 99 3] show ?thesis unfolding ok(2-5,7) header_is_def using ok(1) by auto
qed

end
