(* ===== verification/Crc32.thy ===== *)
theory Crc32
  imports ByteStream
begin

text \<open>
  utils/byte_crypto.cpp: the checksum of STUN messages.  The reference is the CRC-32 of IEEE 802.3, the remainder
  modulo the polynomial whose bits in reverse are 0xedb88320, least significant bit first, one bit at a time.  The
  lemmas show that the table gives that remainder and that no change of two bytes that are next to each
  other goes unnoticed.
\<close>

definition crc32_table :: "u32 list" where
  "crc32_table = [
     0x00000000, 0x77073096, 0xee0e612c, 0x990951ba, 0x076dc419, 0x706af48f, 0xe963a535, 0x9e6495a3,
     0x0edb8832, 0x79dcb8a4, 0xe0d5e91e, 0x97d2d988, 0x09b64c2b, 0x7eb17cbd, 0xe7b82d07, 0x90bf1d91,
     0x1db71064, 0x6ab020f2, 0xf3b97148, 0x84be41de, 0x1adad47d, 0x6ddde4eb, 0xf4d4b551, 0x83d385c7,
     0x136c9856, 0x646ba8c0, 0xfd62f97a, 0x8a65c9ec, 0x14015c4f, 0x63066cd9, 0xfa0f3d63, 0x8d080df5,
     0x3b6e20c8, 0x4c69105e, 0xd56041e4, 0xa2677172, 0x3c03e4d1, 0x4b04d447, 0xd20d85fd, 0xa50ab56b,
     0x35b5a8fa, 0x42b2986c, 0xdbbbc9d6, 0xacbcf940, 0x32d86ce3, 0x45df5c75, 0xdcd60dcf, 0xabd13d59,
     0x26d930ac, 0x51de003a, 0xc8d75180, 0xbfd06116, 0x21b4f4b5, 0x56b3c423, 0xcfba9599, 0xb8bda50f,
     0x2802b89e, 0x5f058808, 0xc60cd9b2, 0xb10be924, 0x2f6f7c87, 0x58684c11, 0xc1611dab, 0xb6662d3d,
     0x76dc4190, 0x01db7106, 0x98d220bc, 0xefd5102a, 0x71b18589, 0x06b6b51f, 0x9fbfe4a5, 0xe8b8d433,
     0x7807c9a2, 0x0f00f934, 0x9609a88e, 0xe10e9818, 0x7f6a0dbb, 0x086d3d2d, 0x91646c97, 0xe6635c01,
     0x6b6b51f4, 0x1c6c6162, 0x856530d8, 0xf262004e, 0x6c0695ed, 0x1b01a57b, 0x8208f4c1, 0xf50fc457,
     0x65b0d9c6, 0x12b7e950, 0x8bbeb8ea, 0xfcb9887c, 0x62dd1ddf, 0x15da2d49, 0x8cd37cf3, 0xfbd44c65,
     0x4db26158, 0x3ab551ce, 0xa3bc0074, 0xd4bb30e2, 0x4adfa541, 0x3dd895d7, 0xa4d1c46d, 0xd3d6f4fb,
     0x4369e96a, 0x346ed9fc, 0xad678846, 0xda60b8d0, 0x44042d73, 0x33031de5, 0xaa0a4c5f, 0xdd0d7cc9,
     0x5005713c, 0x270241aa, 0xbe0b1010, 0xc90c2086, 0x5768b525, 0x206f85b3, 0xb966d409, 0xce61e49f,
     0x5edef90e, 0x29d9c998, 0xb0d09822, 0xc7d7a8b4, 0x59b33d17, 0x2eb40d81, 0xb7bd5c3b, 0xc0ba6cad,
     0xedb88320, 0x9abfb3b6, 0x03b6e20c, 0x74b1d29a, 0xead54739, 0x9dd277af, 0x04db2615, 0x73dc1683,
     0xe3630b12, 0x94643b84, 0x0d6d6a3e, 0x7a6a5aa8, 0xe40ecf0b, 0x9309ff9d, 0x0a00ae27, 0x7d079eb1,
     0xf00f9344, 0x8708a3d2, 0x1e01f268, 0x6906c2fe, 0xf762575d, 0x806567cb, 0x196c3671, 0x6e6b06e7,
     0xfed41b76, 0x89d32be0, 0x10da7a5a, 0x67dd4acc, 0xf9b9df6f, 0x8ebeeff9, 0x17b7be43, 0x60b08ed5,
     0xd6d6a3e8, 0xa1d1937e, 0x38d8c2c4, 0x4fdff252, 0xd1bb67f1, 0xa6bc5767, 0x3fb506dd, 0x48b2364b,
     0xd80d2bda, 0xaf0a1b4c, 0x36034af6, 0x41047a60, 0xdf60efc3, 0xa867df55, 0x316e8eef, 0x4669be79,
     0xcb61b38c, 0xbc66831a, 0x256fd2a0, 0x5268e236, 0xcc0c7795, 0xbb0b4703, 0x220216b9, 0x5505262f,
     0xc5ba3bbe, 0xb2bd0b28, 0x2bb45a92, 0x5cb36a04, 0xc2d7ffa7, 0xb5d0cf31, 0x2cd99e8b, 0x5bdeae1d,
     0x9b64c2b0, 0xec63f226, 0x756aa39c, 0x026d930a, 0x9c0906a9, 0xeb0e363f, 0x72076785, 0x05005713,
     0x95bf4a82, 0xe2b87a14, 0x7bb12bae, 0x0cb61b38, 0x92d28e9b, 0xe5d5be0d, 0x7cdcefb7, 0x0bdbdf21,
     0x86d3d2d4, 0xf1d4e242, 0x68ddb3f8, 0x1fda836e, 0x81be16cd, 0xf6b9265b, 0x6fb077e1, 0x18b74777,
     0x88085ae6, 0xff0f6a70, 0x66063bca, 0x11010b5c, 0x8f659eff, 0xf862ae69, 0x616bffd3, 0x166ccf45,
     0xa00ae278, 0xd70dd2ee, 0x4e048354, 0x3903b3c2, 0xa7672661, 0xd06016f7, 0x4969474d, 0x3e6e77db,
     0xaed16a4a, 0xd9d65adc, 0x40df0b66, 0x37d83bf0, 0xa9bcae53, 0xdebb9ec5, 0x47b2cf7f, 0x30b5ffe9,
     0xbdbdf21c, 0xcabac28a, 0x53b39330, 0x24b4a3a6, 0xbad03605, 0xcdd70693, 0x54de5729, 0x23d967bf,
     0xb3667a2e, 0xc4614ab8, 0x5d681b02, 0x2a6f2b94, 0xb40bbe37, 0xc30c8ea1, 0x5a05df1b, 0x2d02ef8d]"

fun crc32_loop :: "u32 \<Rightarrow> bytes \<Rightarrow> u32" where
  "crc32_loop crc [] = crc"
| "crc32_loop crc (b # bs) = crc32_loop (crc32_table ! unat ((crc XOR ucast b) AND 0xff) XOR drop_bit 8 crc) bs"

definition GetCrc32 :: "bytes \<Rightarrow> u32" where
  "GetCrc32 d = crc32_loop 0xffffffff d XOR NOT 0"

section \<open>The reference\<close>

definition rev_bit :: "u32 \<Rightarrow> u32" where
  "rev_bit c = (if bit c 0 then drop_bit 1 c XOR 0xedb88320 else drop_bit 1 c)"

definition rev_byte :: "u32 \<Rightarrow> u8 \<Rightarrow> u32" where
  "rev_byte c b = (rev_bit ^^ 8) (c XOR ucast b)"

definition crc32_ref :: "u32 \<Rightarrow> bytes \<Rightarrow> u32" where
  "crc32_ref c bs = fold (\<lambda>b c. rev_byte c b) bs c"

lemma rev_funpow_8: "(rev_bit ^^ 8) x = rev_bit (rev_bit (rev_bit (rev_bit (rev_bit (rev_bit (rev_bit (rev_bit x)))))))"
  by (simp add: numeral_eq_Suc)

primrec rev_table :: "u32 \<Rightarrow> u32 list \<Rightarrow> bool" where
  "rev_table k [] = True"
| "rev_table k (x # xs) = (x = (rev_bit ^^ 8) k \<and> rev_table (k + 1) xs)"

lemma crc32_table_entries: "rev_table 0 crc32_table"
  by (simp add: crc32_table_def rev_bit_def rev_funpow_8)

lemma rev_table_nth: "rev_table k xs \<Longrightarrow> i < length xs \<Longrightarrow> xs ! i = (rev_bit ^^ 8) (k + of_nat i)"
  by (induction xs arbitrary: k i) (auto simp: nth_Cons' ac_simps of_nat_diff)

lemma crc32_table_nth: "crc32_table ! unat (b :: u8) = (rev_bit ^^ 8) (ucast b)"
proof -
  have "length crc32_table = 256" by (simp add: crc32_table_def)
  then show ?thesis
    using rev_table_nth [OF crc32_table_entries, of "unat b"] by (simp add: word_eq_iff_unat unat_of_nat)
qed

section \<open>Linearity\<close>

lemma rev_bit_xor: "rev_bit (x XOR y) = rev_bit x XOR rev_bit y"
  by (auto simp: rev_bit_def drop_bit_xor bit_simps ac_simps)

lemma rev_bits_xor: "(rev_bit ^^ n) (x XOR y) = (rev_bit ^^ n) x XOR (rev_bit ^^ n) y"
  by (induction n) (simp_all add: rev_bit_xor)

lemma rev_bits_high:
  assumes "\<forall>k<n. \<not> bit c k"
  shows "(rev_bit ^^ n) c = drop_bit n c"
  using assms
proof (induction n)
  case (Suc n)
  then have "(rev_bit ^^ n) c = drop_bit n c" by auto
  moreover have "\<not> bit (drop_bit n c) 0" using Suc.prems by (auto simp: bit_simps)
  ultimately have "rev_bit ((rev_bit ^^ n) c) = drop_bit 1 (drop_bit n c)" by (simp only: rev_bit_def if_False)
  then show ?case by (simp add: add.commute)
qed simp

lemma crc32_step: "crc32_table ! unat ((c XOR ucast b) AND 0xff) XOR drop_bit 8 c = rev_byte c b"
proof -
  let ?t = "(c XOR ucast b) AND 0xff" and ?hi = "push_bit 8 (drop_bit 8 c)"
  have ff: "0xff = (mask 8 :: u32)" by (simp add: mask_eq_exp_minus_1)
  have t: "?t = ucast (ucast ?t :: u8)"
    unfolding ff by (rule bit_word_eqI) (auto simp: bit_simps)
  have c: "c XOR ucast b = ?t XOR ?hi"
    unfolding ff by (rule bit_word_eqI) (auto simp: bit_simps dest: bit_imp_le_length)
  have "(rev_bit ^^ 8) ?hi = drop_bit 8 ?hi" by (rule rev_bits_high) (auto simp: bit_simps)
  also have "\<dots> = drop_bit 8 c" by (rule bit_word_eqI) (auto simp: bit_simps dest: bit_imp_le_length)
  finally have hi: "(rev_bit ^^ 8) ?hi = drop_bit 8 c" .
  have u: "unat (ucast ?t :: u8) = unat ?t" using arg_cong [OF t, of unat] by simp
  have "crc32_table ! unat ?t = (rev_bit ^^ 8) ?t"
    using crc32_table_nth [of "ucast ?t"] unfolding u t [symmetric] .
  moreover have "rev_byte c b = (rev_bit ^^ 8) (?t XOR ?hi)" using arg_cong [OF c, of "rev_bit ^^ 8"] by (simp only: rev_byte_def)
  ultimately show ?thesis by (simp only: rev_bits_xor hi)
qed

lemma crc32_loop_ref: "crc32_loop c bs = crc32_ref c bs"
  by (induction bs arbitrary: c) (simp_all add: crc32_ref_def crc32_step)

lemma GetCrc32_ref: "GetCrc32 d = NOT (crc32_ref 0xffffffff d)"
  by (simp add: GetCrc32_def crc32_loop_ref bit_eq_iff bit_simps)

section \<open>What the checksum notices\<close>

lemma rev_bit_inj: "rev_bit x = rev_bit y \<Longrightarrow> x = y"
proof -
  assume e: "rev_bit x = rev_bit y"
  have top: "bit (rev_bit z) 31 \<longleftrightarrow> bit z 0" for z
    by (auto simp: rev_bit_def bit_simps dest: bit_imp_le_length)
  have b0: "bit x 0 = bit y 0" using top [of x] top [of y] e by simp
  have d: "drop_bit 1 x = drop_bit 1 y"
  proof (cases "bit y 0")
    case True
    then have "drop_bit 1 x XOR 0xedb88320 = drop_bit 1 y XOR 0xedb88320" using e b0 by (simp add: rev_bit_def)
    from arg_cong [OF this, of "\<lambda>w. w XOR 0xedb88320"] show ?thesis by (simp add: xor.assoc)
  qed (use e b0 in \<open>simp add: rev_bit_def\<close>)
  show "x = y"
  proof (rule bit_word_eqI)
    fix n
    have "bit x (Suc m) = bit y (Suc m)" for m using arg_cong [OF d, of "\<lambda>w. bit w m"] by (simp add: bit_drop_bit_eq)
    then show "bit x n = bit y n" using b0 by (cases n) simp_all
  qed
qed

lemma rev_bits_inj: "(rev_bit ^^ n) x = (rev_bit ^^ n) y \<Longrightarrow> x = y"
  by (induction n) (auto dest: rev_bit_inj)

lemma crc32_ref_inj: "crc32_ref x bs = crc32_ref y bs \<Longrightarrow> x = y"
proof (induction bs arbitrary: x y)
  case (Cons b bs)
  then have "rev_byte x b = rev_byte y b" by (simp add: crc32_ref_def)
  then have e: "x XOR ucast b = y XOR ucast b" unfolding rev_byte_def by (rule rev_bits_inj)
  show ?case using arg_cong [OF e, of "\<lambda>w. w XOR ucast b"] by (simp add: xor.assoc)
qed (simp add: crc32_ref_def)

lemma two_bytes: "rev_byte (rev_byte c a) b = (rev_bit ^^ 16) (c XOR ucast a XOR push_bit 8 (ucast b))"
proof -
  have "(rev_bit ^^ 8) (push_bit 8 (ucast b)) = drop_bit 8 (push_bit 8 (ucast b) :: u32)"
    by (rule rev_bits_high) (auto simp: bit_simps)
  also have "\<dots> = ucast b" by (rule bit_word_eqI) (auto simp: bit_simps dest: bit_imp_le_length)
  finally have "(rev_bit ^^ 8) (c XOR ucast a XOR push_bit 8 (ucast b)) = rev_byte c a XOR ucast b"
    by (simp add: rev_bits_xor rev_byte_def xor.assoc)
  moreover have "(rev_bit ^^ 16) x = (rev_bit ^^ 8) ((rev_bit ^^ 8) x)" for x
    using funpow_add [of 8 8 rev_bit] by simp
  ultimately show ?thesis by (simp add: rev_byte_def)
qed

lemma crc32_notices:
  assumes "GetCrc32 (xs @ [a, b] @ ys) = GetCrc32 (xs @ [a', b'] @ ys)"
  shows "a = a' \<and> b = b'"
proof -
  let ?c = "crc32_ref 0xffffffff xs"
  have split: "crc32_ref c (us @ vs) = crc32_ref (crc32_ref c us) vs" for c us vs by (simp add: crc32_ref_def)
  have "crc32_ref 0xffffffff (xs @ [a, b] @ ys) = crc32_ref 0xffffffff (xs @ [a', b'] @ ys)"
    using arg_cong [OF assms, of "NOT"] by (simp add: GetCrc32_ref)
  then have "crc32_ref (rev_byte (rev_byte ?c a) b) ys = crc32_ref (rev_byte (rev_byte ?c a') b') ys"
    unfolding split by (simp add: crc32_ref_def)
  then have "rev_byte (rev_byte ?c a) b = rev_byte (rev_byte ?c a') b'" by (rule crc32_ref_inj)
  then have "?c XOR ucast a XOR push_bit 8 (ucast b) = ?c XOR ucast a' XOR push_bit 8 (ucast b')"
    unfolding two_bytes by (rule rev_bits_inj)
  then have e: "bit (ucast a XOR push_bit 8 (ucast b) :: u32) n = bit (ucast a' XOR push_bit 8 (ucast b') :: u32) n" for n
    using arg_cong [of _ _ "\<lambda>w. bit (?c XOR w) n"] by (auto simp: bit_simps bit_eq_iff)
  have "bit a n = bit a' n" if "n < 8" for n using e [of n] that by (simp add: bit_simps)
  moreover have "bit b n = bit b' n" if "n < 8" for n using e [of "n + 8"] that by (auto simp: bit_simps dest: bit_imp_le_length)
  ultimately show ?thesis by (auto intro!: bit_word_eqI)
qed

end
