(* ===== verification/Stun.thy ===== *)
theory Stun
  imports RtpPacket Crc32
begin

text \<open>
  net/stun/stun.cpp and stun.hpp: the STUN packet, its parser and its serializer, and the address that
  utils/ipaddress.hpp reads from it.  HMAC-SHA1 (OpenSSL) and \<open>inet_ntop\<close> (the C library) are outside: they are
  arguments.  \<open>mem\<close> is what the array of a new packet holds before the constructor has run;
  \<open>message_integrity\<close> is the position of the 20 bytes that \<open>message_integrity_\<close> points to.
\<close>

section \<open>The packet\<close>

definition STUN_HEADER_SIZE :: nat where "STUN_HEADER_SIZE = 20"
definition STUN_DATA_SIZE :: nat where "STUN_DATA_SIZE = 8192"
definition magic_cookie :: bytes where "magic_cookie = [0x21, 0x12, 0xa4, 0x42]"

definition BINDING :: u16 where "BINDING = 1"
definition STUN_USERNAME :: u16 where "STUN_USERNAME = 0x0006"
definition STUN_MESSAGE_INTEGRITY :: u16 where "STUN_MESSAGE_INTEGRITY = 0x0008"
definition STUN_ERROR_CODE :: u16 where "STUN_ERROR_CODE = 0x0009"
definition STUN_XOR_MAPPED_ADDRESS :: u16 where "STUN_XOR_MAPPED_ADDRESS = 0x0020"
definition STUN_PRIORITY :: u16 where "STUN_PRIORITY = 0x0024"
definition STUN_USE_CANDIDATE :: u16 where "STUN_USE_CANDIDATE = 0x0025"
definition STUN_FINGERPRINT :: u16 where "STUN_FINGERPRINT = 0x8028"
definition STUN_ICE_CONTROLLED :: u16 where "STUN_ICE_CONTROLLED = 0x8029"
definition STUN_ICE_CONTROLLING :: u16 where "STUN_ICE_CONTROLLING = 0x802A"

text \<open>\<open>sockaddr_in\<close>, with the port and the address as the bytes in memory.\<close>

record sockaddr_in =
  sin_inet :: bool
  sin_port :: bytes
  sin_addr :: bytes

record stun_packet =
  stun_data :: bytes
  stun_data_len :: nat
  stun_class :: nat
  stun_method :: u16
  transaction_id :: bytes
  message_integrity :: "nat option"
  username :: bytes
  password :: bytes
  fingerprint :: u32
  priority :: u32
  ice_controlling :: u64
  ice_controlled :: u64
  error_code :: u16
  xor_address :: "sockaddr_in option"
  has_use_candidate :: bool
  add_msg_integrity :: bool
  has_fingerprint :: bool

datatype stun_error = STUN_NOT_STUN | STUN_BAD_LENGTH | STUN_ATTRIBUTE_TOO_LONG | STUN_FINGERPRINT_NOT_LAST
  | STUN_BEHIND_INTEGRITY | STUN_BAD_ATTRIBUTE_LENGTH | STUN_NOT_AT_END | STUN_BAD_FINGERPRINT | STUN_HMAC_FAILED

text \<open>\<open>cls\<close>, \<open>meth\<close> and \<open>tid\<close> are what the fields without an initializer hold.\<close>

definition new_StunPacket :: "nat \<Rightarrow> u16 \<Rightarrow> bytes \<Rightarrow> stun_packet" where
  "new_StunPacket cls meth tid =
     \<lparr> stun_data = replicate STUN_DATA_SIZE 0, stun_data_len = 0, stun_class = cls, stun_method = meth, transaction_id = tid,
       message_integrity = None, username = [], password = [], fingerprint = 0, priority = 0, ice_controlling = 0,
       ice_controlled = 0, error_code = 0, xor_address = None, has_use_candidate = False, add_msg_integrity = False,
       has_fingerprint = False \<rparr>"

definition data_StunPacket :: "bytes \<Rightarrow> bytes \<Rightarrow> stun_packet option" where
  "data_StunPacket mem d = do {
     require (length d \<le> STUN_DATA_SIZE);
     Some ((new_StunPacket 0 0 [])\<lparr>stun_data := put_at 0 d mem, stun_data_len := length d\<rparr>) }"

section \<open>The parser\<close>

definition IsStun :: "bytes \<Rightarrow> bool" where
  "IsStun d \<longleftrightarrow> STUN_HEADER_SIZE \<le> length d \<and> d ! 0 < 3 \<and> take 4 (drop 4 d) = magic_cookie"

definition IsBindingRequest :: "bytes \<Rightarrow> bool" where
  "IsBindingRequest d \<longleftrightarrow> IsStun d \<and> 1 < length d \<and> d ! 0 = 0 \<and> d ! 1 = 1"

definition IsBindingResponse :: "bytes \<Rightarrow> bool" where
  "IsBindingResponse d \<longleftrightarrow> IsStun d \<and> 1 < length d \<and> d ! 0 = 1 \<and> d ! 1 = 1"

definition stun_method_of :: "u16 \<Rightarrow> u16" where
  "stun_method_of t = (t AND 0x000f) OR drop_bit 1 (t AND 0x00e0) OR drop_bit 2 (t AND 0x3e00)"

definition stun_class_of :: "bytes \<Rightarrow> nat" where
  "stun_class_of d = unat (push_bit 1 (d ! 0 AND 1) OR drop_bit 4 (d ! 1 AND 0x10))"

text \<open>
  What the loop keeps: the packet, whether the fingerprint and the integrity have come, and where the fingerprint is.
\<close>

record stun_scan =
  scan_pkt :: stun_packet
  scan_fingerprint :: bool
  scan_integrity :: bool
  scan_pos :: nat

definition xor_bytes :: "bytes \<Rightarrow> bytes \<Rightarrow> bytes" where
  "xor_bytes a b = map2 (XOR) a b"

definition mapped_address :: "bytes \<Rightarrow> sockaddr_in option" where
  "mapped_address a = do {
     family \<leftarrow> Read2Bytes a;
     Some \<lparr> sin_inet = (family = 1), sin_port = xor_bytes (take 2 (drop 2 a)) magic_cookie,
       sin_addr = xor_bytes (take 4 (drop 4 a)) magic_cookie \<rparr> }"

text \<open>One attribute, of type \<open>ty\<close>, with the \<open>n\<close> bytes of its value at \<open>a\<close>, which is the position \<open>p\<close> in the message.\<close>

definition stun_attribute :: "u16 \<Rightarrow> nat \<Rightarrow> bytes \<Rightarrow> nat \<Rightarrow> stun_scan \<Rightarrow> (stun_error + stun_scan) option" where
  "stun_attribute ty n a p s =
     (let pkt = scan_pkt s; bad = Some (Inl STUN_BAD_ATTRIBUTE_LENGTH) in
      if ty = STUN_USERNAME then do {
        v \<leftarrow> grab n a;
        Some (Inr (s\<lparr>scan_pkt := pkt\<lparr>username := v\<rparr>\<rparr>)) }
      else if ty = STUN_PRIORITY then
        if n \<noteq> 4 then bad else do {
          v \<leftarrow> Read4Bytes a;
          Some (Inr (s\<lparr>scan_pkt := pkt\<lparr>priority := v\<rparr>\<rparr>)) }
      else if ty = STUN_ICE_CONTROLLING then
        if n \<noteq> 8 then bad else do {
          v \<leftarrow> Read8Bytes a;
          Some (Inr (s\<lparr>scan_pkt := pkt\<lparr>ice_controlling := v\<rparr>\<rparr>)) }
      else if ty = STUN_ICE_CONTROLLED then
        if n \<noteq> 8 then bad else do {
          v \<leftarrow> Read8Bytes a;
          Some (Inr (s\<lparr>scan_pkt := pkt\<lparr>ice_controlled := v\<rparr>\<rparr>)) }
      else if ty = STUN_USE_CANDIDATE then
        if n \<noteq> 0 then bad else Some (Inr (s\<lparr>scan_pkt := pkt\<lparr>has_use_candidate := True\<rparr>\<rparr>))
      else if ty = STUN_MESSAGE_INTEGRITY then
        if n \<noteq> 20 then bad
        else Some (Inr (s\<lparr>scan_pkt := pkt\<lparr>message_integrity := Some p\<rparr>, scan_integrity := True\<rparr>))
      else if ty = STUN_FINGERPRINT then
        if n \<noteq> 4 then bad else do {
          v \<leftarrow> Read4Bytes a;
          Some (Inr (s\<lparr>scan_pkt := pkt\<lparr>fingerprint := v\<rparr>, scan_fingerprint := True, scan_pos := p - 4\<rparr>)) }
      else if ty = STUN_ERROR_CODE then
        if n \<noteq> 4 then bad else do {
          c \<leftarrow> rd a 2;
          k \<leftarrow> rd a 3;
          Some (Inr (s\<lparr>scan_pkt := pkt\<lparr>error_code := of_nat (unat c * 100 + unat k)\<rparr>\<rparr>)) }
      else if ty = STUN_XOR_MAPPED_ADDRESS then
        if n \<noteq> 8 then bad else do {
          v \<leftarrow> grab 8 a;
          x \<leftarrow> mapped_address v;
          Some (Inr (s\<lparr>scan_pkt := pkt\<lparr>xor_address := Some x\<rparr>\<rparr>)) }
      else Some (Inr s))"

function stun_loop :: "bytes \<Rightarrow> nat \<Rightarrow> stun_scan \<Rightarrow> (stun_error + nat \<times> stun_scan) option" where
  "stun_loop d p s =
     (if p + 4 < length d then do {
        ty \<leftarrow> Read2Bytes (drop p d);
        n \<leftarrow> Read2Bytes (drop (p + 2) d);
        let p = p + 4; len = unat n in
        if length d < p + len then Some (Inl STUN_ATTRIBUTE_TOO_LONG)
        else if scan_fingerprint s then Some (Inl STUN_FINGERPRINT_NOT_LAST)
        else if scan_integrity s \<and> ty \<noteq> STUN_FINGERPRINT then Some (Inl STUN_BEHIND_INTEGRITY)
        else do {
          r \<leftarrow> stun_attribute ty len (drop p d) p s;
          case r of Inl e \<Rightarrow> Some (Inl e) | Inr s \<Rightarrow> stun_loop d (p + unat (PadTo4Bytes_u16 n)) s } }
      else Some (Inr (p, s)))"
  by pat_completeness auto
termination by (relation "measure (\<lambda>(d, p, s). length d - p)") auto

declare stun_loop.simps [simp del]

definition StunParse :: "bytes \<Rightarrow> bytes \<Rightarrow> (stun_error + stun_packet) option" where
  "StunParse mem d =
     (if \<not> IsStun d then Some (Inl STUN_NOT_STUN)
      else do {
        t \<leftarrow> Read2Bytes d;
        n \<leftarrow> Read2Bytes (drop 2 d);
        if unat n \<noteq> length d - 20 \<or> n AND 0x03 \<noteq> 0 then Some (Inl STUN_BAD_LENGTH)
        else do {
          pkt \<leftarrow> data_StunPacket mem d;
          tid \<leftarrow> grab 12 (drop 8 d);
          let pkt = pkt\<lparr>stun_method := stun_method_of t, stun_class := stun_class_of d, transaction_id := tid\<rparr>;
          r \<leftarrow> stun_loop d 20 \<lparr>scan_pkt = pkt, scan_fingerprint = False, scan_integrity = False, scan_pos = 0\<rparr>;
          case r of Inl e \<Rightarrow> Some (Inl e) | Inr (p, s) \<Rightarrow>
            if p \<noteq> length d then Some (Inl STUN_NOT_AT_END)
            else if scan_fingerprint s then
              if fingerprint (scan_pkt s) \<noteq> GetCrc32 (take (scan_pos s) d) XOR 0x5354554e then Some (Inl STUN_BAD_FINGERPRINT)
              else Some (Inr ((scan_pkt s)\<lparr>has_fingerprint := True\<rparr>))
            else Some (Inr (scan_pkt s)) } })"

text \<open>
  \<open>GetIpStr\<close>: for an IPv6 address it reads 16 bytes at the offset 8 of the address, whose memory has the 16
  bytes of a \<open>sockaddr\<close> in all.  The port is read in the byte order of the host, which is little endian.
\<close>

definition GetIpStr :: "(bytes \<Rightarrow> string) \<Rightarrow> sockaddr_in option \<Rightarrow> u16 \<Rightarrow> (string \<times> u16) option" where
  "GetIpStr ntop sa port =
     (case sa of None \<Rightarrow> Some ([], port)
      | Some a \<Rightarrow> do { require (sin_inet a); Some (ntop (sin_addr a), word_cat (sin_port a ! 1) (sin_port a ! 0)) })"

section \<open>The serializer\<close>

text \<open>\<open>stun_put\<close> writes bytes at the pointer and moves it behind them.\<close>

definition stun_put :: "bytes \<Rightarrow> bytes \<times> nat \<Rightarrow> (bytes \<times> nat) option" where
  "stun_put b w = (case w of (d, p) \<Rightarrow> if p + length b \<le> length d then Some (put_at p b d, p + length b) else None)"

definition GetHmacSha1 :: "(bytes \<Rightarrow> bytes \<Rightarrow> bytes option) \<Rightarrow> bytes \<Rightarrow> bytes \<Rightarrow> stun_error + bytes" where
  "GetHmacSha1 hmac key d = (case hmac key d of None \<Rightarrow> Inl STUN_HMAC_FAILED
     | Some h \<Rightarrow> if length h \<noteq> 20 then Inl STUN_HMAC_FAILED else Inr h)"

definition put_username :: "stun_packet \<Rightarrow> bytes \<times> nat \<Rightarrow> (bytes \<times> nat) option" where
  "put_username s w =
     (if username s = [] then Some w
      else do {
        let n = (of_nat (length (username s)) :: u16);
        (d, p) \<leftarrow> stun_put (Write2Bytes STUN_USERNAME @ Write2Bytes n) w;
        (d, _) \<leftarrow> stun_put (username s) (d, p);
        Some (d, p + unat (PadTo4Bytes_u16 n)) })"

definition put_priority :: "stun_packet \<Rightarrow> bytes \<times> nat \<Rightarrow> (bytes \<times> nat) option" where
  "put_priority s w =
     (if priority s = 0 then Some w else stun_put (Write2Bytes STUN_PRIORITY @ Write2Bytes 4 @ Write4Bytes (priority s)) w)"

definition put_candidate :: "stun_packet \<Rightarrow> bytes \<times> nat \<Rightarrow> (bytes \<times> nat) option" where
  "put_candidate s w = (if has_use_candidate s then stun_put (Write2Bytes STUN_USE_CANDIDATE @ Write2Bytes 0) w else Some w)"

definition put_integrity :: "(bytes \<Rightarrow> bytes \<Rightarrow> bytes option) \<Rightarrow> nat \<Rightarrow> stun_packet \<Rightarrow> bytes \<times> nat \<Rightarrow>
    (stun_error + nat option \<times> bytes \<times> nat) option" where
  "put_integrity hmac data_len s w =
     (if \<not> add_msg_integrity s then Some (Inr (None, w))
      else case w of (d, p) \<Rightarrow>
        (let d = put_at 2 (Write2Bytes (of_nat (data_len - 28))) d in
         case GetHmacSha1 hmac (password s) (take p d) of Inl e \<Rightarrow> Some (Inl e)
         | Inr h \<Rightarrow> do {
             (d, q) \<leftarrow> stun_put (Write2Bytes STUN_MESSAGE_INTEGRITY @ Write2Bytes 20) (d, p);
             (d, r) \<leftarrow> stun_put h (d, q);
             Some (Inr (Some q, put_at 2 (Write2Bytes (of_nat (data_len - 20))) d, r)) }))"

definition put_fingerprint :: "bytes \<times> nat \<Rightarrow> (bytes \<times> nat) option" where
  "put_fingerprint w =
     stun_put (Write2Bytes STUN_FINGERPRINT @ Write2Bytes 4 @ Write4Bytes (GetCrc32 (take (snd w) (fst w)) XOR 0x5354554e)) w"

definition stun_length :: "stun_packet \<Rightarrow> nat" where
  "stun_length s = STUN_HEADER_SIZE
     + (if username s = [] then 0 else 4 + unat (PadTo4Bytes_u16 (of_nat (length (username s)))))
     + (if priority s = 0 then 0 else 8) + (if has_use_candidate s then 4 else 0) + (if add_msg_integrity s then 24 else 0) + 8"

definition Serialize :: "(bytes \<Rightarrow> bytes \<Rightarrow> bytes option) \<Rightarrow> stun_packet \<Rightarrow> (stun_error + nat \<times> stun_packet) option" where
  "Serialize hmac s = do {
     let n = stun_length s;
     w \<leftarrow> stun_put (Write2Bytes BINDING @ Write2Bytes 0 @ magic_cookie @ take 12 (transaction_id s)) (replicate STUN_DATA_SIZE 0, 0);
     w \<leftarrow> put_username s w;
     w \<leftarrow> put_priority s w;
     w \<leftarrow> put_candidate s w;
     r \<leftarrow> put_integrity hmac n s w;
     case r of Inl e \<Rightarrow> Some (Inl e) | Inr (mi, w) \<Rightarrow> do {
       (d, p) \<leftarrow> put_fingerprint w;
       let d = put_at 2 (Write2Bytes (of_nat (n - STUN_HEADER_SIZE))) d;
       Some (Inr (n, s\<lparr>stun_data := d, stun_data_len := n, message_integrity := mi\<rparr>)) } }"

end
