(* ===== verification/StunRoundtrip.thy ===== *)
theory StunRoundtrip
  imports Stun
begin

text \<open>
  What StunPacket's serializer and parser (net/stun/stun.cpp) make of each other: a request with an integrity comes back, a
  request without one is never accepted, and the parser reads only its datagram.
\<close>

section \<open>Messages as the standard has them\<close>

definition pad4 :: "nat \<Rightarrow> nat" where
  "pad4 n = (4 - n mod 4) mod 4"

definition stun_attr :: "u16 \<Rightarrow> bytes \<Rightarrow> bytes" where
  "stun_attr ty v = Write2Bytes ty @ Write2Bytes (of_nat (length v)) @ v @ replicate (pad4 (length v)) 0"

definition stun_head :: "nat \<Rightarrow> bytes \<Rightarrow> bytes" where
  "stun_head n tr = Write2Bytes BINDING @ Write2Bytes (of_nat n) @ magic_cookie @ tr"

definition stun_attrs :: "stun_packet \<Rightarrow> bytes" where
  "stun_attrs s = (if username s = [] then [] else stun_attr STUN_USERNAME (username s))
     @ (if priority s = 0 then [] else stun_attr STUN_PRIORITY (Write4Bytes (priority s)))
     @ (if has_use_candidate s then stun_attr STUN_USE_CANDIDATE [] else [])"

lemma PadTo4Bytes_pad:
  assumes "n \<le> 65532"
  shows "unat (PadTo4Bytes_u16 (of_nat n)) = n + pad4 n"
proof -
  have m: "(0x03 :: u16) = mask 2" "(0xfffc :: u16) = push_bit 2 (mask 14)" by (simp_all add: mask_eq_exp_minus_1)
  have two: "2 \<le> k \<Longrightarrow> Suc (Suc (k - 2)) = k" for k :: nat by simp
  have "w AND push_bit 2 (mask 14) = push_bit 2 (drop_bit 2 w)" for w :: u16
    by (rule bit_word_eqI) (auto simp: bit_simps two dest: bit_imp_le_length)
  note e = this
  have t: "take_bit 16 n = n" using assms by (simp add: take_bit_eq_mod)
  have "unat (push_bit 2 (drop_bit 2 (of_nat n :: u16))) = take_bit 16 (push_bit 2 (drop_bit 2 n))"
    by (simp only: unsigned_push_bit_eq unsigned_drop_bit_eq) (simp add: t unsigned_of_nat)
  also have "\<dots> = n div 4 * 4" using assms by (simp add: push_bit_eq_mult drop_bit_eq_div take_bit_eq_mod)
  finally have hi: "unat ((of_nat n :: u16) AND 0xfffc) = n div 4 * 4" unfolding m e .
  have z: "(of_nat n :: u16) AND 0x03 = 0 \<longleftrightarrow> n mod 4 = 0"
    using assms unfolding m by (simp add: word_eq_iff_unat unat_mask_mod unat_of_nat)
  have n: "n div 4 * 4 + n mod 4 = n" by simp
  have "unat (((of_nat n :: u16) AND 0xfffc) + 4) = n div 4 * 4 + 4" if "n mod 4 \<noteq> 0"
  proof (rule trans [OF unat_plus_small])
    have "n div 4 * 4 < 65532" using that n assms by linarith
    then show "unat ((of_nat n :: u16) AND 0xfffc) + unat (4 :: u16) < 2 ^ LENGTH(16)" unfolding hi by simp
  qed (simp add: hi)
  moreover have "n div 4 * 4 + 4 = n + (4 - n mod 4)" using n mod_less_divisor [of 4 n] by linarith
  ultimately show ?thesis using z assms hi n unfolding PadTo4Bytes_u16_def pad4_def
    by (cases "n mod 4 = 0") (simp_all add: unat_of_nat)
qed

lemma length_stun_attr [simp]: "length (stun_attr ty v) = 4 + length v + pad4 (length v)"
  by (simp add: stun_attr_def lens)

lemma length_magic_cookie [simp]: "length magic_cookie = 4"
  by (simp add: magic_cookie_def)

lemma length_stun_head [simp]: "length (stun_head n tr) = 8 + length tr"
  by (simp add: stun_head_def lens)

lemma head_length: "put_at 2 (Write2Bytes (of_nat v)) (stun_head n tr @ xs) = stun_head v tr @ xs"
  by (simp add: put_at_def stun_head_def Write2Bytes_def)

section \<open>What the serializer writes\<close>

lemma stun_put_end:
  "length b \<le> k \<Longrightarrow> stun_put b (w @ replicate k 0, length w) = Some ((w @ b) @ replicate (k - length b) 0, length (w @ b))"
  by (simp add: stun_put_def put_at_def)

lemma skip_zeros: "j \<le> k \<Longrightarrow> w @ replicate k 0 = (w @ replicate j 0) @ replicate (k - j) 0"
  by (simp flip: replicate_add)

lemma put_username_ok:
  assumes "length (username s) \<le> 8000" "8004 + 4 \<le> k"
  shows "put_username s (w @ replicate k 0, length w) = (let b = (if username s = [] then [] else stun_attr STUN_USERNAME (username s)) in
    Some ((w @ b) @ replicate (k - length b) 0, length (w @ b)))"
proof (cases "username s = []")
  case False
  let ?u = "username s" and ?h = "Write2Bytes STUN_USERNAME @ Write2Bytes (of_nat (length (username s)))"
  have n: "unat (PadTo4Bytes_u16 (of_nat (length ?u))) = length ?u + pad4 (length ?u)"
    using assms(1) by (intro PadTo4Bytes_pad) simp
  have p: "pad4 (length ?u) < 4" by (simp add: pad4_def)
  have "stun_put ?h (w @ replicate k 0, length w) = Some ((w @ ?h) @ replicate (k - 4) 0, length (w @ ?h))"
    using stun_put_end [of ?h k w] assms by (simp add: lens)
  moreover have "stun_put ?u ((w @ ?h) @ replicate (k - 4) 0, length (w @ ?h)) =
      Some (((w @ ?h) @ ?u) @ replicate (k - 4 - length ?u) 0, length ((w @ ?h) @ ?u))"
    using assms by (intro stun_put_end) simp
  moreover have "((w @ ?h) @ ?u) @ replicate (k - 4 - length ?u) 0 =
      (w @ stun_attr STUN_USERNAME ?u) @ replicate (k - length (stun_attr STUN_USERNAME ?u)) 0"
    using skip_zeros [of "pad4 (length ?u)" "k - 4 - length ?u" "(w @ ?h) @ ?u"] assms p by (simp add: stun_attr_def lens)
  ultimately show ?thesis using False by (simp add: put_username_def n lens)
qed (simp add: put_username_def)

lemma stun_attrs_length: "length (username s) \<le> 8000 \<Longrightarrow> length (stun_attrs s) \<le> 8019"
  by (auto simp: stun_attrs_def pad4_def lens)

lemma attrs_put:
  assumes "length (username s) \<le> 8000" "length w \<le> 20"
  shows "do { w \<leftarrow> put_username s (w @ replicate (8192 - length w) 0, length w); w \<leftarrow> put_priority s w; put_candidate s w } =
    Some ((w @ stun_attrs s) @ replicate (8192 - length (w @ stun_attrs s)) 0, length (w @ stun_attrs s))"
proof -
  let ?u = "if username s = [] then [] else stun_attr STUN_USERNAME (username s)"
  let ?p = "if priority s = 0 then [] else stun_attr STUN_PRIORITY (Write4Bytes (priority s))"
  have lu: "length ?u \<le> 8007" using assms(1) by (auto simp: pad4_def)
  have p: "put_priority s (v @ replicate (8192 - length v) 0, length v) = Some ((v @ ?p) @ replicate (8192 - length (v @ ?p)) 0, length (v @ ?p))"
    if "length v \<le> 8100" for v
    using that stun_put_end [of "stun_attr STUN_PRIORITY (Write4Bytes (priority s))" "8192 - length v" v]
    by (auto simp: put_priority_def stun_attr_def lens pad4_def)
  have c: "put_candidate s (v @ replicate (8192 - length v) 0, length v) =
      Some ((v @ (if has_use_candidate s then stun_attr STUN_USE_CANDIDATE [] else [])) @
        replicate (8192 - length (v @ (if has_use_candidate s then stun_attr STUN_USE_CANDIDATE [] else []))) 0,
        length (v @ (if has_use_candidate s then stun_attr STUN_USE_CANDIDATE [] else [])))"
    if "length v \<le> 8100" for v
    using that stun_put_end [of "stun_attr STUN_USE_CANDIDATE []" "8192 - length v" v]
    by (auto simp: put_candidate_def stun_attr_def lens pad4_def)
  have lp: "length ?p \<le> 8" by (simp add: lens pad4_def)
  have "put_username s (w @ replicate (8192 - length w) 0, length w) =
      Some ((w @ ?u) @ replicate (8192 - length (w @ ?u)) 0, length (w @ ?u))"
    using put_username_ok [OF assms(1), of "8192 - length w" w] assms(2) by (simp add: Let_def)
  moreover have "put_priority s ((w @ ?u) @ replicate (8192 - length (w @ ?u)) 0, length (w @ ?u)) =
      Some (((w @ ?u) @ ?p) @ replicate (8192 - length ((w @ ?u) @ ?p)) 0, length ((w @ ?u) @ ?p))"
    by (rule p) (use lu assms(2) in simp)
  moreover note c [of "(w @ ?u) @ ?p"]
  moreover have "length ((w @ ?u) @ ?p) \<le> 8100" using lu lp assms(2) by simp
  ultimately show ?thesis by (simp only: bind.bind_lunit stun_attrs_def append_assoc)
qed


lemma stun_length_is:
  assumes "length (username s) \<le> 8000"
  shows "stun_length s = 28 + length (stun_attrs s) + (if add_msg_integrity s then 24 else 0)"
proof -
  have "unat (PadTo4Bytes_u16 (of_nat (length (username s)))) = length (username s) + pad4 (length (username s))"
    using assms by (intro PadTo4Bytes_pad) simp
  then show ?thesis by (simp add: stun_length_def stun_attrs_def STUN_HEADER_SIZE_def lens pad4_def)
qed

lemma attrs_written:
  assumes "length (username s) \<le> 8000" "length (transaction_id s) = 12" "m = stun_head 0 (transaction_id s) @ stun_attrs s"
  shows "\<exists>w0 w1 w2. stun_put (Write2Bytes BINDING @ Write2Bytes 0 @ magic_cookie @ take 12 (transaction_id s)) (replicate STUN_DATA_SIZE 0, 0) = Some w0 \<and>
    put_username s w0 = Some w1 \<and> put_priority s w1 = Some w2 \<and>
    put_candidate s w2 = Some (m @ replicate (8192 - length m) 0, length m)"
proof -
  let ?h = "stun_head 0 (transaction_id s)"
  have "stun_put (Write2Bytes BINDING @ Write2Bytes 0 @ magic_cookie @ take 12 (transaction_id s)) (replicate STUN_DATA_SIZE 0, 0) =
      Some (?h @ replicate (8192 - length ?h) 0, length ?h)"
    using stun_put_end [of ?h 8192 "[]"] assms(2) by (simp add: STUN_DATA_SIZE_def stun_head_def)
  moreover have "length ?h \<le> 20" using assms(2) by simp
  from attrs_put [OF assms(1) this] obtain w1 w2 where
    "put_username s (?h @ replicate (8192 - length ?h) 0, length ?h) = Some w1" "put_priority s w1 = Some w2"
    "put_candidate s w2 = Some (m @ replicate (8192 - length m) 0, length m)"
    unfolding assms(3) by (auto simp: bind_eq_Some_conv)
  ultimately show ?thesis by blast
qed

definition stun_sealed :: "bytes \<Rightarrow> bytes" where
  "stun_sealed m = m @ stun_attr STUN_FINGERPRINT (Write4Bytes (GetCrc32 m XOR 0x5354554e))"

lemma put_fingerprint_ok:
  "length m \<le> 8184 \<Longrightarrow> put_fingerprint (m @ replicate (8192 - length m) 0, length m) =
    Some (stun_sealed m @ replicate (8192 - length (stun_sealed m)) 0, length (stun_sealed m))"
  using stun_put_end [of "stun_attr STUN_FINGERPRINT (Write4Bytes (GetCrc32 m XOR 0x5354554e))" "8192 - length m" m]
  by (simp add: put_fingerprint_def stun_attr_def stun_sealed_def lens pad4_def)

lemma put_integrity_ok:
  assumes "add_msg_integrity s" "len - 28 = a" "put_at 2 (Write2Bytes (of_nat a)) d = d1"
    "GetHmacSha1 hmac (password s) (take p d1) = Inr h" "p = p'"
    "stun_put (Write2Bytes STUN_MESSAGE_INTEGRITY @ Write2Bytes 20) (d1, p') = Some (d2, q)" "stun_put h (d2, q) = Some (d3, r)"
    "len - 20 = b" "put_at 2 (Write2Bytes (of_nat b)) d3 = d4"
  shows "put_integrity hmac len s (d, p) = Some (Inr (Some q, d4, r))"
  using assms by (simp add: put_integrity_def Let_def)

lemma SerializeI:
  assumes "stun_put (Write2Bytes BINDING @ Write2Bytes 0 @ magic_cookie @ take 12 (transaction_id s)) (replicate STUN_DATA_SIZE 0, 0) = Some w0"
    "put_username s w0 = Some w1" "put_priority s w1 = Some w2" "put_candidate s w2 = Some w3"
    "put_integrity hmac (stun_length s) s w3 = Some (Inr (mi, w4))" "put_fingerprint w4 = Some (d, p)"
    "stun_length s - 20 = b" "put_at 2 (Write2Bytes (of_nat b)) d = d'"
  shows "Serialize hmac s = Some (Inr (stun_length s, s\<lparr>stun_data := d', stun_data_len := stun_length s, message_integrity := mi\<rparr>))"
  using assms by (simp add: Serialize_def STUN_HEADER_SIZE_def Let_def)

lemma Serialize_signed:
  assumes "length (username s) \<le> 8000" "length (transaction_id s) = 12" "add_msg_integrity s" "n = length (stun_attrs s)"
    "hmac (password s) (stun_head (n + 24) (transaction_id s) @ stun_attrs s) = Some h" "length h = 20"
    "d = stun_sealed (stun_head (n + 32) (transaction_id s) @ stun_attrs s @ stun_attr STUN_MESSAGE_INTEGRITY h)"
  shows "Serialize hmac s = Some (Inr (length d, s\<lparr>stun_data := d @ replicate (8192 - length d) 0, stun_data_len := length d,
    message_integrity := Some (24 + n)\<rparr>))"
proof -
  let ?t = "transaction_id s" and ?a = "stun_attrs s"
  let ?m = "stun_head 0 ?t @ ?a" and ?c = "stun_head (n + 24) ?t @ ?a" and ?f = "stun_head (n + 32) ?t @ ?a @ stun_attr STUN_MESSAGE_INTEGRITY h"
  obtain w0 w1 w2 where w: "stun_put (Write2Bytes BINDING @ Write2Bytes 0 @ magic_cookie @ take 12 ?t) (replicate STUN_DATA_SIZE 0, 0) = Some w0"
    "put_username s w0 = Some w1" "put_priority s w1 = Some w2" "put_candidate s w2 = Some (?m @ replicate (8192 - length ?m) 0, length ?m)"
    using attrs_written [OF assms(1,2) refl] by blast
  have n: "n \<le> 8019" "length ?m = 20 + n" "length ?c = 20 + n" using stun_attrs_length [OF assms(1)] assms(2,4) by simp_all
  have L: "stun_length s = n + 52" using stun_length_is [OF assms(1)] assms(3,4) by simp
  let ?h = "Write2Bytes STUN_MESSAGE_INTEGRITY @ Write2Bytes 20"
  have d1: "put_at 2 (Write2Bytes (of_nat (n + 24))) (?m @ replicate (8192 - length ?m) 0) = ?c @ replicate (8192 - length ?c) 0"
    using head_length [of "n + 24" 0 ?t "?a @ replicate (8192 - length ?m) 0"] n by simp
  have p1: "stun_put ?h (?c @ replicate (8192 - length ?c) 0, length ?c) = Some ((?c @ ?h) @ replicate (8192 - length (?c @ ?h)) 0, length (?c @ ?h))"
    using stun_put_end [of ?h "8192 - length ?c" ?c] n by (simp add: lens)
  have p2: "stun_put h ((?c @ ?h) @ replicate (8192 - length (?c @ ?h)) 0, length (?c @ ?h)) =
      Some (((?c @ ?h) @ h) @ replicate (8192 - length ((?c @ ?h) @ h)) 0, length ((?c @ ?h) @ h))"
    using stun_put_end [of h "8192 - length (?c @ ?h)" "?c @ ?h"] n assms(6) by (simp add: lens)
  have d2: "put_at 2 (Write2Bytes (of_nat (n + 32))) (((?c @ ?h) @ h) @ replicate (8192 - length ((?c @ ?h) @ h)) 0) = ?f @ replicate (8192 - length ?f) 0"
    using head_length [of "n + 32" "n + 24" ?t "?a @ ?h @ h @ replicate (8192 - length ((?c @ ?h) @ h)) 0"] n assms(2,4,6)
    by (simp add: stun_attr_def lens pad4_def)
  have f: "length ?f = length ((?c @ ?h) @ h)" using assms(6) by (simp add: lens pad4_def)
  have h: "GetHmacSha1 hmac (password s) (take (length ?m) (?c @ replicate (8192 - length ?c) 0)) = Inr h"
    using n assms(4-6) by (simp add: GetHmacSha1_def)
  have mc: "length ?m = length ?c" using n by simp
  have N: "stun_length s - 28 = n + 24" "stun_length s - 20 = n + 32" unfolding L by simp_all
  have q: "length (?c @ ?h) = 24 + n" using n by (simp add: lens)
  have i: "put_integrity hmac (stun_length s) s (?m @ replicate (8192 - length ?m) 0, length ?m) =
      Some (Inr (Some (24 + n), ?f @ replicate (8192 - length ?f) 0, length ?f))"
    using put_integrity_ok [OF assms(3) N(1) d1 h mc p1 p2 N(2) d2] unfolding q f .
  have "length ?f \<le> 8184" using n assms(2,4,6) by (simp add: pad4_def)
  from put_fingerprint_ok [OF this] have g: "put_fingerprint (?f @ replicate (8192 - length ?f) 0, length ?f) =
      Some (d @ replicate (8192 - length d) 0, length d)"
    unfolding assms(7) .
  have ld: "length d = n + 52" using assms(2,4,6) unfolding assms(7) stun_sealed_def by (simp add: lens pad4_def)
  have "put_at 2 (Write2Bytes (of_nat (n + 32))) (d @ replicate (8192 - length d) 0) = d @ replicate (8192 - length d) 0"
    unfolding assms(7) stun_sealed_def append_assoc by (rule head_length)
  from SerializeI [OF w i g N(2) this] show ?thesis unfolding ld L .
qed

lemma Serialize_unsigned:
  assumes "length (username s) \<le> 8000" "length (transaction_id s) = 12" "\<not> add_msg_integrity s" "n = length (stun_attrs s)"
    "d = stun_head (n + 8) (transaction_id s) @ stun_attrs s @
      stun_attr STUN_FINGERPRINT (Write4Bytes (GetCrc32 (stun_head 0 (transaction_id s) @ stun_attrs s) XOR 0x5354554e))"
  shows "Serialize hmac s = Some (Inr (length d, s\<lparr>stun_data := d @ replicate (8192 - length d) 0, stun_data_len := length d,
    message_integrity := None\<rparr>))"
proof -
  let ?t = "transaction_id s" and ?a = "stun_attrs s"
  let ?m = "stun_head 0 ?t @ ?a" and ?c = "GetCrc32 (stun_head 0 (transaction_id s) @ stun_attrs s) XOR 0x5354554e"
  obtain w0 w1 w2 where w: "stun_put (Write2Bytes BINDING @ Write2Bytes 0 @ magic_cookie @ take 12 ?t) (replicate STUN_DATA_SIZE 0, 0) = Some w0"
    "put_username s w0 = Some w1" "put_priority s w1 = Some w2" "put_candidate s w2 = Some (?m @ replicate (8192 - length ?m) 0, length ?m)"
    using attrs_written [OF assms(1,2) refl] by blast
  have n: "n \<le> 8019" "length ?m = 20 + n" using stun_attrs_length [OF assms(1)] assms(2,4) by simp_all
  have L: "stun_length s = n + 28" using stun_length_is [OF assms(1)] assms(3,4) by simp
  have "length ?m \<le> 8184" using n by simp
  note g = put_fingerprint_ok [OF this]
  have ld: "length d = n + 28" "length (stun_sealed ?m) = n + 28" using assms(2,4) unfolding assms(5) stun_sealed_def by (simp_all add: lens pad4_def)
  have N: "stun_length s - 20 = n + 8" unfolding L by simp
  have e: "put_at 2 (Write2Bytes (of_nat (n + 8))) (stun_sealed ?m @ replicate (8192 - length (stun_sealed ?m)) 0) = d @ replicate (8192 - length d) 0"
    unfolding ld unfolding assms(5) stun_sealed_def append_assoc by (rule head_length)
  have i: "put_integrity hmac (stun_length s) s (?m @ replicate (8192 - length ?m) 0, length ?m) =
      Some (Inr (None, ?m @ replicate (8192 - length ?m) 0, length ?m))"
    using assms(3) by (simp add: put_integrity_def)
  from SerializeI [OF w i g N e] show ?thesis unfolding ld L .
qed


section \<open>What the parser reads\<close>

lemma stun_loop_attr:
  assumes "drop p d = stun_attr ty v @ post" "length v \<le> 65532" "v \<noteq> [] \<or> post \<noteq> []" "\<not> scan_fingerprint s"
    "scan_integrity s \<longrightarrow> ty = STUN_FINGERPRINT"
    "stun_attribute ty (length v) (v @ replicate (pad4 (length v)) 0 @ post) (p + 4) s = Some (Inr s')"
  shows "stun_loop d p s = stun_loop d (p + length (stun_attr ty v)) s' \<and> drop (p + length (stun_attr ty v)) d = post"
proof
  have l: "p + length (stun_attr ty v @ post) = length d"
  proof -
    have "0 < length (drop p d)" unfolding assms(1) by simp
    then show ?thesis unfolding assms(1) [symmetric] by simp
  qed
  have u: "unat (of_nat (length v) :: u16) = length v" using assms(2) by (simp add: unat_of_nat)
  have "drop (p + 2) d = drop 2 (drop p d)" by (simp add: add.commute)
  also have "\<dots> = Write2Bytes (of_nat (length v)) @ v @ replicate (pad4 (length v)) 0 @ post"
    unfolding assms(1) stun_attr_def by (simp add: lens)
  finally have d2: "Read2Bytes (drop (p + 2) d) = Some (of_nat (length v))" by (simp only: wire)
  have d0: "Read2Bytes (drop p d) = Some ty" unfolding assms(1) stun_attr_def by (simp add: wire)
  have "drop (p + 4) d = drop 4 (drop p d)" by (simp add: add.commute)
  also have "\<dots> = v @ replicate (pad4 (length v)) 0 @ post"
    unfolding assms(1) stun_attr_def by (simp add: lens)
  finally have d4: "drop (p + 4) d = v @ replicate (pad4 (length v)) 0 @ post" .
  have "0 < length v \<or> 0 < length post" using assms(3) by simp
  moreover have "p + (4 + length v + pad4 (length v) + length post) = length d" using l by simp
  ultimately have "p + 4 < length d" by linarith
  then show "stun_loop d p s = stun_loop d (p + length (stun_attr ty v)) s'"
    using l assms(4-6) PadTo4Bytes_pad [OF assms(2)] by (subst stun_loop.simps) (auto simp: Let_def d0 d2 u d4 add.assoc simp del: add_2_eq_Suc')
  show "drop (p + length (stun_attr ty v)) d = post"
    using arg_cong [OF assms(1), of "drop (length (stun_attr ty v))"] by (simp add: add.commute)
qed

lemma stun_loop_end: "length d \<le> p + 4 \<Longrightarrow> stun_loop d p s = Some (Inr (p, s))"
  by (subst stun_loop.simps) simp

lemma stun_types: "STUN_PRIORITY \<noteq> STUN_USERNAME" "STUN_USE_CANDIDATE \<noteq> STUN_USERNAME" "STUN_USE_CANDIDATE \<noteq> STUN_PRIORITY"
  "STUN_USE_CANDIDATE \<noteq> STUN_ICE_CONTROLLING" "STUN_USE_CANDIDATE \<noteq> STUN_ICE_CONTROLLED"
  by (simp_all add: STUN_PRIORITY_def STUN_USERNAME_def STUN_USE_CANDIDATE_def STUN_ICE_CONTROLLING_def STUN_ICE_CONTROLLED_def)

lemma attribute_username: "stun_attribute STUN_USERNAME (length v) (v @ r) p s = Some (Inr (s\<lparr>scan_pkt := (scan_pkt s)\<lparr>username := v\<rparr>\<rparr>))"
  by (simp add: stun_attribute_def grab_def Let_def)

lemma attribute_priority: "stun_attribute STUN_PRIORITY 4 (Write4Bytes v @ r) p s = Some (Inr (s\<lparr>scan_pkt := (scan_pkt s)\<lparr>priority := v\<rparr>\<rparr>))"
  by (simp add: stun_attribute_def Let_def stun_types wire)

lemma attribute_candidate: "stun_attribute STUN_USE_CANDIDATE 0 r p s = Some (Inr (s\<lparr>scan_pkt := (scan_pkt s)\<lparr>has_use_candidate := True\<rparr>\<rparr>))"
  by (simp add: stun_attribute_def Let_def stun_types)

lemma attribute_integrity:
  "stun_attribute STUN_MESSAGE_INTEGRITY 20 r p s = Some (Inr (s\<lparr>scan_pkt := (scan_pkt s)\<lparr>message_integrity := Some p\<rparr>, scan_integrity := True\<rparr>))"
  by (simp add: stun_attribute_def Let_def STUN_MESSAGE_INTEGRITY_def STUN_PRIORITY_def STUN_USERNAME_def STUN_USE_CANDIDATE_def
      STUN_ICE_CONTROLLING_def STUN_ICE_CONTROLLED_def)

lemma attribute_fingerprint:
  "stun_attribute STUN_FINGERPRINT 4 (Write4Bytes v @ r) p s =
    Some (Inr (s\<lparr>scan_pkt := (scan_pkt s)\<lparr>fingerprint := v\<rparr>, scan_fingerprint := True, scan_pos := p - 4\<rparr>))"
  by (simp add: stun_attribute_def Let_def wire STUN_FINGERPRINT_def STUN_MESSAGE_INTEGRITY_def STUN_PRIORITY_def STUN_USERNAME_def STUN_USE_CANDIDATE_def
      STUN_ICE_CONTROLLING_def STUN_ICE_CONTROLLED_def)

definition with_attrs :: "stun_packet \<Rightarrow> stun_packet \<Rightarrow> stun_packet" where
  "with_attrs s q = q\<lparr>username := username s, priority := priority s, has_use_candidate := has_use_candidate s\<rparr>"

lemma stun_loop_attrs:
  assumes "drop p d = stun_attrs s @ post" "post \<noteq> []" "length (username s) \<le> 8000" "\<not> scan_fingerprint c" "\<not> scan_integrity c"
    "username (scan_pkt c) = []" "priority (scan_pkt c) = 0" "\<not> has_use_candidate (scan_pkt c)"
  shows "stun_loop d p c = stun_loop d (p + length (stun_attrs s)) (c\<lparr>scan_pkt := with_attrs s (scan_pkt c)\<rparr>) \<and>
    drop (p + length (stun_attrs s)) d = post"
proof -
  let ?u = "if username s = [] then [] else stun_attr STUN_USERNAME (username s)"
  let ?p = "if priority s = 0 then [] else stun_attr STUN_PRIORITY (Write4Bytes (priority s))"
  let ?c = "if has_use_candidate s then stun_attr STUN_USE_CANDIDATE [] else []"
  define c1 where "c1 = c\<lparr>scan_pkt := (scan_pkt c)\<lparr>username := username s\<rparr>\<rparr>"
  define c2 where "c2 = c1\<lparr>scan_pkt := (scan_pkt c1)\<lparr>priority := priority s\<rparr>\<rparr>"
  define c3 where "c3 = c2\<lparr>scan_pkt := (scan_pkt c2)\<lparr>has_use_candidate := has_use_candidate s\<rparr>\<rparr>"
  have 1: "stun_loop d p c = stun_loop d (p + length ?u) c1 \<and> drop (p + length ?u) d = ?p @ ?c @ post"
  proof (cases "username s = []")
    case True
    then have "c1 = c" using assms(6) by (simp add: c1_def)
    with True show ?thesis using assms(1) by (simp add: stun_attrs_def)
  next
    case False
    then show ?thesis
      using stun_loop_attr [of p d STUN_USERNAME "username s" "?p @ ?c @ post" c c1] attribute_username assms
      by (simp add: stun_attrs_def c1_def)
  qed
  have 2: "stun_loop d (p + length ?u) c1 = stun_loop d (p + length ?u + length ?p) c2 \<and> drop (p + length ?u + length ?p) d = ?c @ post"
  proof (cases "priority s = 0")
    case True
    then have "c2 = c1" using assms(7) by (simp add: c1_def c2_def)
    with True 1 show ?thesis by simp
  next
    case False
    then show ?thesis
      using stun_loop_attr [of "p + length ?u" d STUN_PRIORITY "Write4Bytes (priority s)" "?c @ post" c1 c2] 1 attribute_priority assms
      by (simp add: c1_def c2_def lens del: length_stun_attr)
  qed
  have 3: "stun_loop d (p + length ?u + length ?p) c2 = stun_loop d (p + length ?u + length ?p + length ?c) c3 \<and>
      drop (p + length ?u + length ?p + length ?c) d = post"
  proof (cases "has_use_candidate s")
    case False
    then have "c3 = c2" using assms(8) by (simp add: c1_def c2_def c3_def)
    with False 2 show ?thesis by simp
  next
    case True
    then show ?thesis
      using stun_loop_attr [of "p + length ?u + length ?p" d STUN_USE_CANDIDATE "[]" post c2 c3] 2 attribute_candidate assms
      by (simp add: c1_def c2_def c3_def lens del: length_stun_attr)
  qed
  have "c3 = c\<lparr>scan_pkt := with_attrs s (scan_pkt c)\<rparr>" by (simp add: c1_def c2_def c3_def with_attrs_def)
  moreover have "p + length ?u + length ?p + length ?c = p + length (stun_attrs s)" by (simp only: stun_attrs_def length_append add.assoc)
  ultimately show ?thesis using 1 2 3 by metis
qed


definition stun_start :: "bytes \<Rightarrow> bytes \<Rightarrow> bytes \<Rightarrow> stun_scan" where
  "stun_start mem d tr = \<lparr> scan_pkt = (new_StunPacket 0 0 [])\<lparr>stun_data := put_at 0 d mem, stun_data_len := length d,
     stun_method := 1, stun_class := 0, transaction_id := tr\<rparr>, scan_fingerprint = False, scan_integrity = False, scan_pos = 0 \<rparr>"

lemma head_parts:
  assumes "length tr = 12"
  shows "take 4 (drop 4 (stun_head n tr @ r)) = magic_cookie" "(stun_head n tr @ r) ! 0 = 0" "(stun_head n tr @ r) ! 1 = 1"
    "Read2Bytes (stun_head n tr @ r) = Some 1" "Read2Bytes (drop 2 (stun_head n tr @ r)) = Some (of_nat n)"
    "grab 12 (drop 8 (stun_head n tr @ r)) = Some tr"
proof -
  have b: "stun_head n tr @ r = [0, 1] @ Write2Bytes (of_nat n) @ magic_cookie @ tr @ r"
    by (simp add: stun_head_def Write2Bytes_def BINDING_def be_bytes_numeral)
  show "take 4 (drop 4 (stun_head n tr @ r)) = magic_cookie" "(stun_head n tr @ r) ! 0 = 0" "(stun_head n tr @ r) ! 1 = 1"
    "Read2Bytes (drop 2 (stun_head n tr @ r)) = Some (of_nat n)" "grab 12 (drop 8 (stun_head n tr @ r)) = Some tr"
    unfolding b using assms by (simp_all add: lens wire grab_def)
  show "Read2Bytes (stun_head n tr @ r) = Some 1" by (simp add: stun_head_def wire BINDING_def)
qed

lemma Write2_nth: "Write2Bytes v = [Write2Bytes v ! 0, Write2Bytes v ! 1]"
  by (simp add: Write2Bytes_def be_bytes_numeral)

lemma head_bytes:
  "stun_head v tr @ r = [0, 1] @ [Write2Bytes (of_nat v) ! 0, Write2Bytes (of_nat v) ! 1] @ magic_cookie @ tr @ r"
  by (simp add: stun_head_def Write2Bytes_def BINDING_def be_bytes_numeral)

lemma low_bits_of_nat: "n < 65536 \<Longrightarrow> (of_nat n :: u16) AND 0x03 = 0 \<longleftrightarrow> n mod 4 = 0"
proof -
  assume n: "n < 65536"
  have m: "(0x03 :: u16) = mask 2" by (simp add: mask_eq_exp_minus_1)
  show ?thesis using n unfolding m by (simp add: word_eq_iff_unat unat_mask_mod unat_of_nat)
qed

lemma StunParse_message:
  assumes "d = stun_head n tr @ r" "length tr = 12" "n = length r" "n mod 4 = 0" "length d \<le> 8192"
    "stun_loop d 20 (stun_start mem d tr) = Some (Inr (length d, c))" "scan_fingerprint c"
  shows "StunParse mem d = Some (if fingerprint (scan_pkt c) \<noteq> GetCrc32 (take (scan_pos c) d) XOR 0x5354554e then Inl STUN_BAD_FINGERPRINT
    else Inr ((scan_pkt c)\<lparr>has_fingerprint := True\<rparr>))"
proof -
  note h = head_parts [OF assms(2), of n r, folded assms(1)]
  have l: "length d = 20 + n" using assms(1-3) by simp
  have "IsStun d" using h(1,2) l by (simp add: IsStun_def STUN_HEADER_SIZE_def)
  moreover have "unat (of_nat n :: u16) = length d - 20" "(of_nat n :: u16) AND 0x03 = 0"
    using l assms(4,5) by (simp_all add: unat_of_nat low_bits_of_nat)
  moreover have "data_StunPacket mem d = Some ((new_StunPacket 0 0 [])\<lparr>stun_data := put_at 0 d mem, stun_data_len := length d\<rparr>)"
    using assms(5) by (simp add: data_StunPacket_def STUN_DATA_SIZE_def)
  moreover have "stun_method_of 1 = 1" by (simp add: stun_method_of_def)
  moreover have "stun_class_of d = 0" using h(2,3) by (simp add: stun_class_of_def)
  ultimately show ?thesis unfolding StunParse_def using h(4-6) assms(6,7) by (simp add: stun_start_def)
qed

lemma pad4_aligned: "4 dvd k + pad4 k"
proof -
  have k: "4 * (k div 4) + k mod 4 = k" and pos_mod: "k mod 4 < 4" by simp_all
  have "4 * q + r = k \<Longrightarrow> r < 4 \<Longrightarrow> k + (4 - r) = 4 * (q + 1)" for q r by presburger
  from this [OF k pos_mod] have "k + (4 - k mod 4) = 4 * (k div 4 + 1)" .
  then have "4 dvd k + (4 - k mod 4)" by (simp only: dvd_triv_left)
  moreover have "pad4 k = (if k mod 4 = 0 then 0 else 4 - k mod 4)" by (simp add: pad4_def)
  ultimately show ?thesis by (cases "k mod 4 = 0") (simp_all add: mod_eq_0_iff_dvd)
qed

lemma stun_attrs_aligned: "4 dvd length (stun_attrs s)"
proof -
  have "4 dvd length (stun_attr ty v)" for ty v
    using dvd_add [OF dvd_refl pad4_aligned, of "length v"] by (simp add: add.assoc)
  then show ?thesis by (simp add: stun_attrs_def del: length_stun_attr)
qed

lemma Write4Bytes_some [simp]: "Write4Bytes f \<noteq> []"
  using length_Write(2) [of f] by (metis list.size(3) zero_neq_numeral)

lemma start_fields: "\<not> scan_fingerprint (stun_start mem d tr)" "\<not> scan_integrity (stun_start mem d tr)" "username (scan_pkt (stun_start mem d tr)) = []"
  "priority (scan_pkt (stun_start mem d tr)) = 0" "\<not> has_use_candidate (scan_pkt (stun_start mem d tr))"
  by (simp_all add: stun_start_def new_StunPacket_def)

lemma parse_fingerprint:
  assumes "drop p d = stun_attr STUN_FINGERPRINT (Write4Bytes f)" "\<not> scan_fingerprint c" "p + 8 = length d"
  shows "stun_loop d p c = Some (Inr (length d, c\<lparr>scan_pkt := (scan_pkt c)\<lparr>fingerprint := f\<rparr>, scan_fingerprint := True, scan_pos := p\<rparr>))"
proof -
  have "stun_loop d p c = stun_loop d (p + length (stun_attr STUN_FINGERPRINT (Write4Bytes f)))
      (c\<lparr>scan_pkt := (scan_pkt c)\<lparr>fingerprint := f\<rparr>, scan_fingerprint := True, scan_pos := p\<rparr>)"
    using stun_loop_attr [of p d STUN_FINGERPRINT "Write4Bytes f" "[]" c] assms(1,2) attribute_fingerprint [of f _ "p + 4" c]
    by (simp add: lens del: length_stun_attr)
  then show ?thesis using assms(3) by (simp add: lens pad4_def stun_loop_end)
qed

text \<open>
  C38: A binding request says at the other end what it said at this one.  A packet with a message integrity is
  serialized, whatever its user name (of at most 8000 bytes), its priority and its candidate flag; the parser takes the
  bytes, which are a binding request, checks the fingerprint and gives the same user name,
  transaction id, priority and flag.  The integrity it finds is the HMAC, under the password, of the message in front of that
  attribute, with the length in the header set to the end of the attribute, as RFC 5389 has it.
\<close>
theorem stun_request_roundtrip:
  assumes "add_msg_integrity s" "length (username s) \<le> 8000" "length (transaction_id s) = 12"
    "\<And>x. \<exists>h. hmac (password s) x = Some h \<and> length h = 20"
  shows "\<exists>n s' q k. Serialize hmac s = Some (Inr (n, s')) \<and> IsBindingRequest (take n (stun_data s')) \<and>
    StunParse mem (take n (stun_data s')) = Some (Inr q) \<and> has_fingerprint q \<and>
    username q = username s \<and> transaction_id q = transaction_id s \<and> priority q = priority s \<and> has_use_candidate q = has_use_candidate s \<and>
    message_integrity q = Some k \<and>
    hmac (password s) (put_at 2 (Write2Bytes (of_nat k)) (take (k - 4) (stun_data s'))) = Some (take 20 (drop k (stun_data s')))"
proof -
  let ?t = "transaction_id s" and ?a = "stun_attrs s"
  define n where "n = length ?a"
  obtain h where h: "hmac (password s) (stun_head (n + 24) ?t @ ?a) = Some h" "length h = 20" using assms(4) by blast
  define f where "f = stun_head (n + 32) ?t @ ?a @ stun_attr STUN_MESSAGE_INTEGRITY h"
  define d where "d = stun_sealed f"
  have "d = stun_sealed (stun_head (n + 32) ?t @ ?a @ stun_attr STUN_MESSAGE_INTEGRITY h)" by (simp only: d_def f_def)
  note S = Serialize_signed [where hmac = hmac and s = s, OF assms(2,3,1) n_def h this]
  let ?fp = "stun_attr STUN_FINGERPRINT (Write4Bytes (GetCrc32 f XOR 0x5354554e))"
  let ?r = "?a @ stun_attr STUN_MESSAGE_INTEGRITY h @ ?fp"
  have n: "n \<le> 8019" "n mod 4 = 0" using stun_attrs_length [OF assms(2)] stun_attrs_aligned [of s] by (simp_all add: n_def mod_eq_0_iff_dvd)
  have d: "d = stun_head (n + 32) ?t @ ?r" by (simp add: d_def f_def stun_sealed_def)
  have l: "length d = n + 52" "length f = n + 44" "n + 32 = length ?r"
    using assms(3) h(2) by (simp_all add: d f_def n_def lens pad4_def)
  let ?c0 = "stun_start mem d ?t"
  have d20: "drop 20 d = ?r" using assms(3) by (simp add: d)
  define c1 where "c1 = ?c0\<lparr>scan_pkt := with_attrs s (scan_pkt ?c0)\<rparr>"
  define c2 where "c2 = c1\<lparr>scan_pkt := (scan_pkt c1)\<lparr>message_integrity := Some (n + 24)\<rparr>, scan_integrity := True\<rparr>"
  define c3 where "c3 = c2\<lparr>scan_pkt := (scan_pkt c2)\<lparr>fingerprint := GetCrc32 f XOR 0x5354554e\<rparr>, scan_fingerprint := True, scan_pos := 44 + n\<rparr>"
  have 1: "stun_loop d 20 ?c0 = stun_loop d (20 + n) c1" "drop (20 + n) d = stun_attr STUN_MESSAGE_INTEGRITY h @ ?fp"
    using stun_loop_attrs [OF d20 _ assms(2) start_fields] unfolding n_def c1_def by (simp_all add: stun_attr_def)
  have "stun_attribute STUN_MESSAGE_INTEGRITY (length h) (h @ replicate (pad4 (length h)) 0 @ ?fp) (20 + n + 4) c1 = Some (Inr c2)"
    unfolding h(2) attribute_integrity by (simp add: c2_def add.commute)
  moreover have "h \<noteq> []" using h(2) by auto
  ultimately have 2: "stun_loop d (20 + n) c1 = stun_loop d (44 + n) c2 \<and> drop (44 + n) d = ?fp"
    using stun_loop_attr [OF 1(2), of c1 c2] h(2) by (simp add: c1_def stun_start_def pad4_def add.commute)
  have "stun_loop d (44 + n) c2 = Some (Inr (length d, c3))"
    using parse_fingerprint [of "44 + n" d "GetCrc32 f XOR 0x5354554e" c2] 2 l(1) by (simp add: c1_def c2_def c3_def stun_start_def)
  with 1(1) 2 have loop: "stun_loop d 20 ?c0 = Some (Inr (length d, c3))" by simp
  have "fingerprint (scan_pkt c3) = GetCrc32 (take (scan_pos c3) d) XOR 0x5354554e"
    using l(2) by (simp add: c3_def d_def stun_sealed_def)
  then have P: "StunParse mem d = Some (Inr ((scan_pkt c3)\<lparr>has_fingerprint := True\<rparr>))"
    using StunParse_message [OF d assms(3) l(3) _ _ loop] n l(1) by (simp add: c3_def mod_eq_0_iff_dvd)
  let ?all = "d @ replicate (8192 - length d) 0" and ?q = "(scan_pkt c3)\<lparr>has_fingerprint := True\<rparr>"
  have "IsBindingRequest d" using head_parts(1-3) [OF assms(3), of "n + 32" ?r] l(1) unfolding d [symmetric]
    by (simp add: IsBindingRequest_def IsStun_def STUN_HEADER_SIZE_def)
  moreover have "has_fingerprint ?q \<and> username ?q = username s \<and> transaction_id ?q = ?t \<and> priority ?q = priority s \<and>
      has_use_candidate ?q = has_use_candidate s \<and> message_integrity ?q = Some (n + 24)"
    by (simp add: c1_def c2_def c3_def with_attrs_def stun_start_def)
  moreover have "take (n + 24 - 4) ?all = stun_head (n + 32) ?t @ ?a" "take 20 (drop (n + 24) ?all) = h"
    using assms(3) h(2) by (simp_all add: d n_def stun_attr_def lens)
  then have "hmac (password s) (put_at 2 (Write2Bytes (of_nat (n + 24))) (take (n + 24 - 4) ?all)) = Some (take 20 (drop (n + 24) ?all))"
    using h(1) head_length [of "n + 24" "n + 32" ?t ?a] by simp
  moreover have "take (length d) ?all = d" by simp
  ultimately show ?thesis using S P
    by - (rule exI [of _ "length d"], rule exI [of _ "s\<lparr>stun_data := ?all, stun_data_len := length d, message_integrity := Some (24 + n)\<rparr>"],
      rule exI [of _ ?q], rule exI [of _ "n + 24"], simp del: take_append drop_append length_append)
qed

definition sha_stub :: "bytes \<Rightarrow> bytes \<Rightarrow> bytes option" where
  "sha_stub key d = Some (take 20 (key @ d @ replicate 20 0))"

text \<open>A request with a user name of three bytes, with a function in the place of the HMAC.\<close>

theorem stun_request_roundtrip_witness:
  "\<exists>n s' q. Serialize sha_stub ((new_StunPacket 0 0 (replicate 12 7))\<lparr>username := [0x61, 0x3a, 0x62], priority := 100, has_use_candidate := True,
      add_msg_integrity := True\<rparr>) = Some (Inr (n, s')) \<and>
    StunParse (replicate 8192 0) (take n (stun_data s')) = Some (Inr q) \<and> username q = [0x61, 0x3a, 0x62] \<and> priority q = 100"
proof -
  let ?s = "(new_StunPacket 0 0 (replicate 12 7))\<lparr>username := [0x61, 0x3a, 0x62], priority := 100, has_use_candidate := True,
      add_msg_integrity := True\<rparr>"
  have "\<exists>h. sha_stub (password ?s) x = Some h \<and> length h = 20" for x by (simp add: sha_stub_def)
  from stun_request_roundtrip [of ?s sha_stub "replicate 8192 0", OF _ _ _ this]
  show ?thesis by (auto simp: new_StunPacket_def)
qed

text \<open>
  C39: A binding request without a message integrity, with a user name of at most 8000 bytes, is never accepted.  The fingerprint is computed while the length in the
  header is still 0, and the length is written afterwards; the checksum notices every change of two bytes, so the
  parser finds a wrong fingerprint in each such packet, whatever its other content.
\<close>
theorem stun_unsigned_rejected:
  assumes "\<not> add_msg_integrity s" "length (username s) \<le> 8000" "length (transaction_id s) = 12"
  shows "\<exists>n s'. Serialize hmac s = Some (Inr (n, s')) \<and> StunParse mem (take n (stun_data s')) = Some (Inl STUN_BAD_FINGERPRINT)"
proof -
  let ?t = "transaction_id s" and ?a = "stun_attrs s"
  define n where "n = length ?a"
  let ?f = "stun_head 0 ?t @ ?a"
  let ?fp = "stun_attr STUN_FINGERPRINT (Write4Bytes (GetCrc32 ?f XOR 0x5354554e))"
  define d where "d = stun_head (n + 8) ?t @ ?a @ ?fp"
  note S = Serialize_unsigned [OF assms(2,3,1) n_def d_def, of hmac]
  have n: "n \<le> 8019" "4 dvd n" using stun_attrs_length [OF assms(2)] stun_attrs_aligned [of s] by (simp_all add: n_def)
  have l: "length d = n + 28" "n + 8 = length (?a @ ?fp)"
    using assms(3) by (simp_all add: d_def n_def lens pad4_def)
  let ?c0 = "stun_start mem d ?t"
  define c1 where "c1 = ?c0\<lparr>scan_pkt := with_attrs s (scan_pkt ?c0)\<rparr>"
  define c2 where "c2 = c1\<lparr>scan_pkt := (scan_pkt c1)\<lparr>fingerprint := GetCrc32 ?f XOR 0x5354554e\<rparr>, scan_fingerprint := True, scan_pos := 20 + n\<rparr>"
  have d20: "drop 20 d = ?a @ ?fp" using assms(3) by (simp add: d_def)
  have 1: "stun_loop d 20 ?c0 = stun_loop d (20 + n) c1" "drop (20 + n) d = ?fp"
    using stun_loop_attrs [OF d20 _ assms(2) start_fields] unfolding n_def c1_def by (simp_all add: stun_attr_def)
  have "stun_loop d (20 + n) c1 = Some (Inr (length d, c2))"
    using parse_fingerprint [OF 1(2)] l(1) by (simp add: c1_def c2_def stun_start_def)
  with 1(1) have loop: "stun_loop d 20 ?c0 = Some (Inr (length d, c2))" by simp
  have "GetCrc32 (take (20 + n) d) \<noteq> GetCrc32 ?f"
  proof
    have b: "take (20 + n) d = stun_head (n + 8) ?t @ ?a" using assms(3) by (simp add: d_def n_def)
    assume "GetCrc32 (take (20 + n) d) = GetCrc32 ?f"
    from crc32_notices [OF this [unfolded b head_bytes]]
    have e: "Write2Bytes (of_nat (n + 8)) ! 0 = Write2Bytes (of_nat 0) ! 0 \<and> Write2Bytes (of_nat (n + 8)) ! 1 = Write2Bytes (of_nat 0) ! 1" .
    have "Write2Bytes (of_nat (n + 8)) = [Write2Bytes (of_nat (n + 8)) ! 0, Write2Bytes (of_nat (n + 8)) ! 1]" by (rule Write2_nth)
    also have "\<dots> = [Write2Bytes (of_nat 0) ! 0, Write2Bytes (of_nat 0) ! 1]" using e by (simp only:)
    also have "\<dots> = Write2Bytes (of_nat 0)" by (rule Write2_nth [symmetric])
    finally have "Write2Bytes (of_nat (n + 8)) = Write2Bytes (of_nat 0)" .
    then have "Read2Bytes (Write2Bytes (of_nat (n + 8)) @ []) = Read2Bytes (Write2Bytes (of_nat 0) @ [])" by (simp only:)
    then have "(of_nat (n + 8) :: u16) = of_nat 0" by (simp only: wire option.inject)
    then have "unat (of_nat (n + 8) :: u16) = 0" by simp
    then show False using n(1) by (simp add: unat_of_nat del: of_nat_add)
  qed
  then have "fingerprint (scan_pkt c2) \<noteq> GetCrc32 (take (scan_pos c2) d) XOR 0x5354554e"
    by (auto simp: c2_def bit_eq_iff bit_simps)
  then have "StunParse mem d = Some (Inl STUN_BAD_FINGERPRINT)"
    using StunParse_message [OF d_def assms(3) l(2) _ _ loop] n l(1) by (simp add: c2_def mod_eq_0_iff_dvd)
  with S show ?thesis by simp
qed

theorem stun_unsigned_rejected_witness:
  "\<exists>n s'. Serialize sha_stub ((new_StunPacket 0 0 (replicate 12 7))\<lparr>username := [0x61, 0x3a, 0x62]\<rparr>) = Some (Inr (n, s')) \<and>
    StunParse (replicate 8192 0) (take n (stun_data s')) = Some (Inl STUN_BAD_FINGERPRINT)"
  by (rule stun_unsigned_rejected) (simp_all add: new_StunPacket_def)

section \<open>Where the parser is defined\<close>

lemma stun_attribute_defined: "stun_attribute ty n a p s = None \<Longrightarrow> length a < n"
  by (auto simp: stun_attribute_def Let_def grab_def rd_def mapped_address_def split: Option.bind_splits if_splits)

lemma stun_loop_defined: "stun_loop d p s \<noteq> None"
proof (induction d p s rule: stun_loop.induct)
  case (1 d p s)
  show ?case
    using 1 by (subst stun_loop.simps) (auto simp: Let_def dest: stun_attribute_defined split: Option.bind_splits sum.splits)
qed

text \<open>
  C40: The parser of STUN packets reads only the datagram that it gets, whatever its bytes are.  Its only undefined behaviour is
  the copy of a datagram of more than 8192 bytes, with a consistent header, to the packet's array; the
  socket's buffer has 10240 bytes.
\<close>
theorem stun_parse_defined:
  "StunParse mem d = None \<longleftrightarrow> IsStun d \<and> Read2Bytes (drop 2 d) = Some (of_nat (length d - 20)) \<and> length d - 20 < 65536 \<and>
    (length d) mod 4 = 0 \<and> 8192 < length d"
proof (cases "IsStun d")
  case True
  then have l: "20 \<le> length d" by (simp add: IsStun_def STUN_HEADER_SIZE_def)
  obtain t where t: "Read2Bytes d = Some t" using l by (cases "Read2Bytes d") auto
  obtain n where n: "Read2Bytes (drop 2 d) = Some n" using l by (cases "Read2Bytes (drop 2 d)") auto
  have "unat n = length d - 20 \<and> n AND 0x03 = 0 \<longleftrightarrow>
      n = of_nat (length d - 20) \<and> length d - 20 < 65536 \<and> length d mod 4 = 0"
  proof (cases "unat n = length d - 20")
    case True
    then have "n = of_nat (length d - 20)" using True unat_u16_less [of n] by (simp add: word_eq_iff_unat unat_of_nat del: unat_u16_less)
    moreover have "length d - 20 < 65536" using True unat_u16_less [of n] by simp
    moreover have "(length d - 20) mod 4 = 0 \<longleftrightarrow> length d mod 4 = 0"
      using l mod_add_self2 [of "length d - 20" 4] mod_add_eq [of "length d - 20" 4 20] by (simp add: mod_eq_0_iff_dvd dvd_diff_nat)
    ultimately show ?thesis using True low_bits_of_nat [of "length d - 20"] by simp
  next
    case False
    then show ?thesis by (auto simp: unat_of_nat)
  qed
  moreover have "StunParse mem d = None \<longleftrightarrow> (unat n = length d - 20 \<and> n AND 0x03 = 0) \<and> 8192 < length d"
  proof (cases "(unat n = length d - 20 \<and> n AND 0x03 = 0) \<and> length d \<le> 8192")
    case ok: True
    have "grab 12 (drop 8 d) = Some (take 12 (drop 8 d))" using l by (simp add: grab_def)
    moreover have "stun_loop d 20 c \<noteq> None" for c by (rule stun_loop_defined)
    ultimately show ?thesis using True t n ok
      by (simp add: StunParse_def data_StunPacket_def STUN_DATA_SIZE_def Let_def split: Option.bind_splits sum.splits)
  next
    case False
    then show ?thesis using True t n by (auto simp: StunParse_def data_StunPacket_def STUN_DATA_SIZE_def)
  qed
  ultimately show ?thesis using True n by auto
qed (simp add: StunParse_def)

end
