(* ===== verification/Media.thy ===== *)
theory Media
  imports ByteStream
begin

text \<open>
  utils/av/av.hpp and utils/av/media_packet.hpp: the media types, the packet that the
  components hand to each other and its property copy.  The packet's \<open>DataBuffer\<close> is its
  byte view (\<open>DataBuffer\<close> proves the queue operations on it).  Timestamps are \<open>int64_t\<close>
  values, as integers.  Strings are byte lists.
\<close>

datatype MEDIA_PKT_TYPE = MEDIA_UNKOWN_TYPE | MEDIA_VIDEO_TYPE | MEDIA_AUDIO_TYPE
  | MEDIA_MOVBOX_TYPE | MEDIA_METADATA_TYPE

datatype MEDIA_CODEC_TYPE = MEDIA_CODEC_UNKOWN | MEDIA_CODEC_H264 | MEDIA_CODEC_H265
  | MEDIA_CODEC_H266 | MEDIA_CODEC_VP8 | MEDIA_CODEC_VP9 | MEDIA_CODEC_AV1
  | MEDIA_CODEC_AAC | MEDIA_CODEC_OPUS | MEDIA_CODEC_MP3

datatype MEDIA_FORMAT_TYPE = MEDIA_FORMAT_UNKOWN | MEDIA_FORMAT_RAW | MEDIA_FORMAT_FLV
  | MEDIA_FORMAT_MPEGTS

text \<open>The C enumerators are ordered by their values; the library's order is on those values.\<close>

fun codec_value :: "MEDIA_CODEC_TYPE \<Rightarrow> nat" where
  "codec_value MEDIA_CODEC_UNKOWN = 0"
| "codec_value MEDIA_CODEC_H264 = 1"
| "codec_value MEDIA_CODEC_H265 = 2"
| "codec_value MEDIA_CODEC_H266 = 3"
| "codec_value MEDIA_CODEC_VP8 = 4"
| "codec_value MEDIA_CODEC_VP9 = 5"
| "codec_value MEDIA_CODEC_AV1 = 6"
| "codec_value MEDIA_CODEC_AAC = 1000"
| "codec_value MEDIA_CODEC_OPUS = 1001"
| "codec_value MEDIA_CODEC_MP3 = 1002"

lemma codec_value_inject: "codec_value a = codec_value b \<Longrightarrow> a = b"
  by (cases a; cases b) simp_all

instantiation MEDIA_CODEC_TYPE :: linorder
begin

definition less_eq_MEDIA_CODEC_TYPE :: "MEDIA_CODEC_TYPE \<Rightarrow> MEDIA_CODEC_TYPE \<Rightarrow> bool" where
  "less_eq_MEDIA_CODEC_TYPE a b \<longleftrightarrow> codec_value a \<le> codec_value b"

definition less_MEDIA_CODEC_TYPE :: "MEDIA_CODEC_TYPE \<Rightarrow> MEDIA_CODEC_TYPE \<Rightarrow> bool" where
  "less_MEDIA_CODEC_TYPE a b \<longleftrightarrow> codec_value a < codec_value b"

instance
  by standard
     (auto simp: less_eq_MEDIA_CODEC_TYPE_def less_MEDIA_CODEC_TYPE_def codec_value_inject)

end

definition ASC_TYPE_AAC_LC :: u8 where "ASC_TYPE_AAC_LC = 2"

definition METADATA_TYPE_UNKNOWN :: int where "METADATA_TYPE_UNKNOWN = 9"

record media_packet =
  av_type :: MEDIA_PKT_TYPE
  codec_type :: MEDIA_CODEC_TYPE
  fmt_type :: MEDIA_FORMAT_TYPE
  dts :: int
  pts :: int
  is_key_frame :: bool
  is_seq_hdr :: bool
  has_flv_audio_asc :: bool
  pkt_data :: bytes
  metadata_type :: "int option"
  metadata :: "bytes \<rightharpoonup> bytes"
  sample_rate :: int
  sample_size :: int
  channel :: u8
  aac_asc_type :: u8
  pkt_key :: bytes
  vhost :: bytes
  app :: bytes
  streamname :: bytes
  streamid :: u32
  typeid :: u8

definition new_Media_Packet :: media_packet where
  "new_Media_Packet =
     \<lparr> av_type = MEDIA_UNKOWN_TYPE, codec_type = MEDIA_CODEC_UNKOWN, fmt_type = MEDIA_FORMAT_UNKOWN,
       dts = -1, pts = -1, is_key_frame = False, is_seq_hdr = False, has_flv_audio_asc = False,
       pkt_data = [], metadata_type = None, metadata = Map.empty,
       sample_rate = 44100, sample_size = 1, channel = 2, aac_asc_type = ASC_TYPE_AAC_LC,
       pkt_key = [], vhost = [], app = [], streamname = [], streamid = 0, typeid = 0 \<rparr>"

definition copy_properties :: "media_packet \<Rightarrow> media_packet \<Rightarrow> media_packet" where
  "copy_properties this pkt = this\<lparr>
     av_type := av_type pkt, codec_type := codec_type pkt, fmt_type := fmt_type pkt,
     dts := dts pkt, pts := pts pkt, is_key_frame := is_key_frame pkt, is_seq_hdr := is_seq_hdr pkt,
     pkt_key := pkt_key pkt, vhost := vhost pkt, app := app pkt, streamname := streamname pkt,
     streamid := streamid pkt, typeid := typeid pkt\<rparr>"

definition copy_packet :: "media_packet \<Rightarrow> media_packet" where
  "copy_packet this = (copy_properties new_Media_Packet this)\<lparr>pkt_data := pkt_data this\<rparr>"

text \<open>The AVC decoder configuration record that the muxer builds from the parameter sets.\<close>

definition get_video_extradata :: "bytes \<Rightarrow> bytes \<Rightarrow> bytes option" where
  "get_video_extradata pps sps = do {
     s1 \<leftarrow> rd sps 1; s2 \<leftarrow> rd sps 2; s3 \<leftarrow> rd sps 3;
     Some ([0x01, s1, s2, s3, 0xff, 0xe1] @ Write2Bytes (of_nat (length sps)) @ sps
           @ [0x01] @ Write2Bytes (of_nat (length pps)) @ pps) }"

lemma pkt_data_copy_properties [simp]: "pkt_data (copy_properties this pkt) = pkt_data this"
  by (simp add: copy_properties_def)

end
