(* ===== verification/ChunkStream.thy ===== *)
theory ChunkStream
  imports Media
begin

text \<open>
  net/rtmp/chunk_stream.cpp: one RTMP chunk stream, its reader and its writer.  The record
  is the class; \<open>buf\<close> is the view of the session's receive buffer, passed in and returned.
  The reader returns the C return code; a read past the receive buffer would be \<open>None\<close>,
  and \<open>read_header_total\<close> shows that it never happens.
\<close>

definition RTMP_OK :: int where "RTMP_OK = 0"
definition RTMP_NEED_READ_MORE :: int where "RTMP_NEED_READ_MORE = 1"

lemmas rtmp_codes = RTMP_OK_def RTMP_NEED_READ_MORE_def

datatype CHUNK_STREAM_PHASE = CHUNK_STREAM_PHASE_HEADER | CHUNK_STREAM_PHASE_PAYLOAD

record chunk_stream =
  timestamp_delta :: u32
  timestamp32 :: u32
  msg_len :: u32
  type_id :: u8
  msg_stream_id :: u32
  remain :: int
  require_len :: int
  chunk_size :: u32
  chunk_all :: bytes
  chunk_data :: bytes
  ext_ts_flag :: bool
  cs_fmt :: u8
  cs_csid :: u16
  phase :: CHUNK_STREAM_PHASE
  chunk_ready :: bool
  msg_count :: int

definition new_ChunkStream :: "u8 \<Rightarrow> u16 \<Rightarrow> u32 \<Rightarrow> chunk_stream" where
  "new_ChunkStream fmt csid csize =
     \<lparr> timestamp_delta = 0, timestamp32 = 0, msg_len = 0, type_id = 0, msg_stream_id = 0,
       remain = 0, require_len = 0, chunk_size = csize, chunk_all = [], chunk_data = [],
       ext_ts_flag = False, cs_fmt = fmt, cs_csid = csid, phase = CHUNK_STREAM_PHASE_HEADER,
       chunk_ready = False, msg_count = 0 \<rparr>"

definition cs_Reset :: "chunk_stream \<Rightarrow> chunk_stream" where
  "cs_Reset c = c\<lparr>phase := CHUNK_STREAM_PHASE_HEADER, chunk_ready := False,
                   chunk_all := [], chunk_data := []\<rparr>"

section \<open>Reading\<close>

definition ReadMsgFormat0 ::
  "u8 \<Rightarrow> u16 \<Rightarrow> chunk_stream \<Rightarrow> bytes \<Rightarrow> (int \<times> chunk_stream \<times> bytes) option" where
  "ReadMsgFormat0 input_fmt input_csid c buf =
     (if length buf < 11 then Some (RTMP_NEED_READ_MORE, c, buf)
      else do {
        ts \<leftarrow> Read3Bytes buf;
        c1 \<leftarrow> Some (c\<lparr>cs_fmt := input_fmt, cs_csid := input_csid,
                        ext_ts_flag := (if ts \<ge> 0xffffff then True else ext_ts_flag c)\<rparr>);
        if ts \<ge> 0xffffff \<and> length buf < 11 + 4 then Some (RTMP_NEED_READ_MORE, c1, buf)
        else do {
          len \<leftarrow> Read3Bytes (drop 3 buf);
          tid \<leftarrow> rd buf 6;
          sid \<leftarrow> Read4Bytes (drop 7 buf);
          buf1 \<leftarrow> Some (drop 11 buf);
          (ts1, buf2) \<leftarrow> (if ts \<ge> 0xffffff
                          then do { t \<leftarrow> Read4Bytes buf1; Some (t, drop 4 buf1) }
                          else Some (ts, buf1));
          Some (RTMP_OK,
                c1\<lparr>timestamp32 := ts1, timestamp_delta := 0, msg_len := len, type_id := tid,
                   msg_stream_id := sid, remain := uint len\<rparr>, buf2) } })"

definition ReadMsgFormat1 ::
  "u8 \<Rightarrow> u16 \<Rightarrow> chunk_stream \<Rightarrow> bytes \<Rightarrow> (int \<times> chunk_stream \<times> bytes) option" where
  "ReadMsgFormat1 input_fmt input_csid c buf =
     (if length buf < 7 then Some (RTMP_NEED_READ_MORE, c, buf)
      else do {
        ts \<leftarrow> Read3Bytes buf;
        c1 \<leftarrow> Some (c\<lparr>cs_fmt := input_fmt, cs_csid := input_csid,
                        ext_ts_flag := (if ts \<ge> 0xffffff then True else ext_ts_flag c)\<rparr>);
        if ts \<ge> 0xffffff \<and> length buf < 7 + 4 then Some (RTMP_NEED_READ_MORE, c1, buf)
        else do {
          len \<leftarrow> Read3Bytes (drop 3 buf);
          tid \<leftarrow> rd buf 6;
          buf1 \<leftarrow> Some (drop 7 buf);
          (ts1, buf2) \<leftarrow> (if ts \<ge> 0xffffff
                          then do { t \<leftarrow> Read4Bytes buf1; Some (t, drop 4 buf1) }
                          else Some (ts, buf1));
          Some (RTMP_OK,
                c1\<lparr>timestamp_delta := ts1, timestamp32 := timestamp32 c + ts1, msg_len := len,
                   type_id := tid, remain := uint len\<rparr>, buf2) } })"

definition ReadMsgFormat2 ::
  "u8 \<Rightarrow> u16 \<Rightarrow> chunk_stream \<Rightarrow> bytes \<Rightarrow> (int \<times> chunk_stream \<times> bytes) option" where
  "ReadMsgFormat2 input_fmt input_csid c buf =
     (if length buf < 3 then Some (RTMP_NEED_READ_MORE, c, buf)
      else do {
        ts \<leftarrow> Read3Bytes buf;
        c1 \<leftarrow> Some (c\<lparr>cs_fmt := input_fmt, cs_csid := input_csid,
                        ext_ts_flag := (if ts \<ge> 0xffffff then True else ext_ts_flag c)\<rparr>);
        if ts \<ge> 0xffffff \<and> length buf < 3 + 4 then Some (RTMP_NEED_READ_MORE, c1, buf)
        else do {
          buf1 \<leftarrow> Some (drop 3 buf);
          (ts1, buf2) \<leftarrow> (if ts \<ge> 0xffffff
                          then do { t \<leftarrow> Read4Bytes buf1; Some (t, drop 4 buf1) }
                          else Some (ts, buf1));
          Some (RTMP_OK,
                c1\<lparr>timestamp_delta := ts1, timestamp32 := timestamp32 c + ts1,
                   remain := uint (msg_len c)\<rparr>, buf2) } })"

text \<open>
  Format 3 starts a new message of the same shape when nothing remains of the last one,
  and otherwise continues it.  The previous format chooses what the extended timestamp is.
\<close>

definition ReadMsgFormat3_new ::
  "chunk_stream \<Rightarrow> bytes \<Rightarrow> (int \<times> chunk_stream \<times> bytes) option" where
  "ReadMsgFormat3_new c buf =
     (if cs_fmt c = 0 then
        if ext_ts_flag c then
          if length buf < 4 then Some (RTMP_NEED_READ_MORE, c, buf)
          else do { t \<leftarrow> Read4Bytes buf; Some (RTMP_OK, c\<lparr>timestamp32 := t\<rparr>, drop 4 buf) }
        else Some (RTMP_OK, c, buf)
      else if cs_fmt c = 1 \<or> cs_fmt c = 2 then
        if ext_ts_flag c then
          if length buf < 4 then Some (RTMP_NEED_READ_MORE, c, buf)
          else do { t \<leftarrow> Read4Bytes buf;
                    Some (RTMP_OK, c\<lparr>timestamp32 := timestamp32 c + t\<rparr>, drop 4 buf) }
        else Some (RTMP_OK, c\<lparr>timestamp32 := timestamp32 c + timestamp_delta c\<rparr>, buf)
      else Some (RTMP_OK, c, buf))"

definition ReadMsgFormat3 ::
  "u8 \<Rightarrow> u16 \<Rightarrow> chunk_stream \<Rightarrow> bytes \<Rightarrow> (int \<times> chunk_stream \<times> bytes) option" where
  "ReadMsgFormat3 input_fmt input_csid c buf = do {
     (ret, c1, buf1) \<leftarrow>
       (if remain c = 0 then do {
          (ret, c1, buf1) \<leftarrow> ReadMsgFormat3_new c buf;
          if ret \<noteq> RTMP_OK then Some (ret, c1, buf1)
          else Some (RTMP_OK, c1\<lparr>chunk_all := [], chunk_data := [], remain := uint (msg_len c1),
                                chunk_ready := False\<rparr>, buf1) }
        else if ext_ts_flag c then
          if length buf < 4 then Some (RTMP_NEED_READ_MORE, c, buf)
          else do { t \<leftarrow> Read4Bytes buf;
                    Some (RTMP_OK, c, if t = timestamp32 c then drop 4 buf else buf) }
        else Some (RTMP_OK, c, buf));
     if ret \<noteq> RTMP_OK then Some (ret, c1, buf1)
     else Some (RTMP_OK, c1\<lparr>cs_fmt := input_fmt, cs_csid := input_csid\<rparr>, buf1) }"

definition ReadMessageHeader ::
  "u8 \<Rightarrow> u16 \<Rightarrow> chunk_stream \<Rightarrow> bytes \<Rightarrow> (int \<times> chunk_stream \<times> bytes) option" where
  "ReadMessageHeader input_fmt input_csid c buf =
     (if phase c \<noteq> CHUNK_STREAM_PHASE_HEADER then Some (RTMP_OK, c, buf)
      else do {
        (ret, c1, buf1) \<leftarrow>
          (if input_fmt = 0 then ReadMsgFormat0 input_fmt input_csid c buf
           else if input_fmt = 1 then ReadMsgFormat1 input_fmt input_csid c buf
           else if input_fmt = 2 then ReadMsgFormat2 input_fmt input_csid c buf
           else if input_fmt = 3 then ReadMsgFormat3 input_fmt input_csid c buf
           else None);
        if ret \<noteq> RTMP_OK then Some (ret, c1, buf1)
        else Some (RTMP_OK, c1\<lparr>msg_count := 0, phase := CHUNK_STREAM_PHASE_PAYLOAD\<rparr>, buf1) })"

definition ReadMessagePayload :: "chunk_stream \<Rightarrow> bytes \<Rightarrow> (int \<times> chunk_stream \<times> bytes) option" where
  "ReadMessagePayload c buf =
     (if phase c \<noteq> CHUNK_STREAM_PHASE_PAYLOAD then Some (RTMP_OK, c, buf)
      else
        let need = (if remain c > uint (chunk_size c) then uint (chunk_size c) else remain c);
            c1 = c\<lparr>require_len := need\<rparr> in
        if int (length buf) < need then Some (RTMP_NEED_READ_MORE, c1, buf)
        else do {
          part \<leftarrow> grab (nat need) buf;
          rest \<leftarrow> Some (remain c - need);
          Some (RTMP_OK,
                c1\<lparr>chunk_data := chunk_data c @ part, remain := rest, msg_count := msg_count c + 1,
                   chunk_ready := (if rest \<le> 0 then True else chunk_ready c),
                   phase := CHUNK_STREAM_PHASE_HEADER\<rparr>, drop (nat need) buf) })"

section \<open>Writing\<close>

definition GenData :: "bytes \<Rightarrow> chunk_stream \<Rightarrow> int \<times> chunk_stream" where
  "GenData payload c =
     (let fmt = cs_fmt c; csid = cs_csid c;
          basic = (if csid < 64 then [push_bit 6 fmt OR (ucast csid AND 0x3f)]
                   else if uint csid - 64 < 256 then [push_bit 6 fmt AND 0xc0, ucast csid]
                   else [(push_bit 6 fmt AND 0xc0) OR 0x01] @ Write2Bytes csid);
          header = (if fmt = 0 then Write3Bytes (timestamp32 c) @ Write3Bytes (msg_len c)
                                    @ [type_id c] @ Write4Bytes (msg_stream_id c)
                    else if fmt = 1 then Write3Bytes (timestamp32 c) @ Write3Bytes (msg_len c) @ [type_id c]
                    else if fmt = 2 then Write3Bytes (timestamp32 c)
                    else [])
      in (RTMP_OK, c\<lparr>chunk_all := chunk_all c @ basic @ header @ payload\<rparr>))"

text \<open>The loop body of \<open>WriteDataByChunkStream\<close>: chunk number \<open>index\<close> of \<open>count\<close>.\<close>

definition chunk_of_message ::
  "u16 \<Rightarrow> u32 \<Rightarrow> u8 \<Rightarrow> u32 \<Rightarrow> u32 \<Rightarrow> bytes \<Rightarrow> nat \<Rightarrow> nat \<Rightarrow> bytes" where
  "chunk_of_message csid timestamp tid sid csize input count index =
     (let fmt = (if index = 0 then 0 else 3);
          n = unat csize;
          p = drop (index * n) input;
          len = (if index = count - 1
                 then (if length input mod n > 0 then length input mod n else n) else n);
          c = (new_ChunkStream fmt csid csize)\<lparr>timestamp32 := timestamp,
                 msg_len := of_nat (length input), type_id := tid, msg_stream_id := sid\<rparr>
      in chunk_all (snd (GenData (take len p) c)))"

text \<open>
  The chunks in the order they are sent.  A chunk size of 0 divides by zero, which stops the
  process: \<open>None\<close>.
\<close>

definition WriteDataByChunkStream ::
  "u16 \<Rightarrow> u32 \<Rightarrow> u8 \<Rightarrow> u32 \<Rightarrow> u32 \<Rightarrow> bytes \<Rightarrow> bytes list option" where
  "WriteDataByChunkStream csid timestamp tid sid csize input =
     (if csize = 0 then None
      else let n = unat csize;
               count = length input div n + (if length input mod n > 0 then 1 else 0)
           in Some (map (chunk_of_message csid timestamp tid sid csize input count) [0..<count]))"

definition GenControlMessage :: "u8 \<Rightarrow> u32 \<Rightarrow> u32 \<Rightarrow> chunk_stream \<Rightarrow> int \<times> chunk_stream" where
  "GenControlMessage ctrl_type sz value c =
     (let c1 = c\<lparr>cs_fmt := 0, type_id := ctrl_type, msg_stream_id := 0, msg_len := sz\<rparr> in
      if sz = 1 then (RTMP_OK, snd (GenData [ucast value] c1))
      else if sz = 2 then (RTMP_OK, snd (GenData (Write2Bytes (ucast value)) c1))
      else if sz = 3 then (RTMP_OK, snd (GenData (Write3Bytes value) c1))
      else if sz = 4 then (RTMP_OK, snd (GenData (Write4Bytes value) c1))
      else if sz = 5 then (RTMP_OK, snd (GenData (Write4Bytes value @ [2]) c1))
      else (-1, c1))"

text \<open>The user control messages of the server side: an event of 2 bytes and the stream id 1.\<close>

definition GenUserControl :: "u8 \<Rightarrow> chunk_stream \<Rightarrow> int \<times> chunk_stream" where
  "GenUserControl event c =
     (let c1 = c\<lparr>cs_fmt := 0, cs_csid := 2, type_id := 4, msg_stream_id := 1, msg_len := 6\<rparr>
      in (RTMP_OK, snd (GenData ([0, event] @ [0, 0, 0, 1]) c1)))"

definition GenSetRecordedMessage :: "chunk_stream \<Rightarrow> int \<times> chunk_stream" where
  "GenSetRecordedMessage c = GenUserControl 4 c"

definition GenSetBeginMessage :: "chunk_stream \<Rightarrow> int \<times> chunk_stream" where
  "GenSetBeginMessage c = GenUserControl 0 c"

section \<open>The readers are total and consume a prefix\<close>

text \<open>
  What every reader of the class promises: it does return, it leaves the buffer alone when
  it asks for more bytes, and otherwise it has consumed a prefix of it.
\<close>

definition reads :: "(int \<times> 'c \<times> bytes) option \<Rightarrow> bytes \<Rightarrow> bool" where
  "reads r buf = (\<exists>ret c k. r = Some (ret, c, drop k buf) \<and>
     (ret = RTMP_OK \<or> ret = RTMP_NEED_READ_MORE \<and> k = 0))"

lemma readsI_ok: "reads (Some (RTMP_OK, c, drop k buf)) buf"
  unfolding reads_def by blast

lemma readsI_same: "reads (Some (RTMP_OK, c, buf)) buf"
  using readsI_ok [of c 0 buf] by simp

lemma readsI_more: "reads (Some (RTMP_NEED_READ_MORE, c, buf)) buf"
  unfolding reads_def by (metis drop0)

lemmas reads_intros = readsI_ok readsI_same readsI_more

lemma ex_Read:
  "k + 3 \<le> length buf \<Longrightarrow> \<exists>v. Read3Bytes (drop k buf) = Some v"
  "k + 4 \<le> length buf \<Longrightarrow> \<exists>w. Read4Bytes (drop k buf) = Some w"
  "k < length buf \<Longrightarrow> \<exists>x. rd buf k = Some x"
  by (auto simp: rd_def simp flip: not_None_eq)

lemma ReadMsgFormat0_reads: "reads (ReadMsgFormat0 f i c buf) buf"
proof (cases "length buf < 11")
  case True
  then show ?thesis by (simp add: ReadMsgFormat0_def readsI_more)
next
  case False
  then obtain ts len tid sid where r: "Read3Bytes buf = Some ts" "Read3Bytes (drop 3 buf) = Some len"
      "rd buf 6 = Some tid" "Read4Bytes (drop 7 buf) = Some sid"
    using ex_Read [of 0 buf] ex_Read [of 3 buf] ex_Read [of 6 buf] ex_Read [of 7 buf] by auto
  show ?thesis
  proof (cases "ts \<ge> 0xffffff")
    case True
    with False r show ?thesis
      using ex_Read(2) [of 11 buf] by (auto simp: ReadMsgFormat0_def reads_intros)
  next
    case n: False
    with False r show ?thesis by (simp add: ReadMsgFormat0_def reads_intros)
  qed
qed

lemma ReadMsgFormat1_reads: "reads (ReadMsgFormat1 f i c buf) buf"
proof (cases "length buf < 7")
  case True
  then show ?thesis by (simp add: ReadMsgFormat1_def readsI_more)
next
  case False
  then obtain ts len tid where r: "Read3Bytes buf = Some ts" "Read3Bytes (drop 3 buf) = Some len"
      "rd buf 6 = Some tid"
    using ex_Read [of 0 buf] ex_Read [of 3 buf] ex_Read [of 6 buf] by auto
  show ?thesis
  proof (cases "ts \<ge> 0xffffff")
    case True
    with False r show ?thesis
      using ex_Read(2) [of 7 buf] by (auto simp: ReadMsgFormat1_def reads_intros)
  next
    case n: False
    with False r show ?thesis by (simp add: ReadMsgFormat1_def reads_intros)
  qed
qed

lemma ReadMsgFormat2_reads: "reads (ReadMsgFormat2 f i c buf) buf"
proof (cases "length buf < 3")
  case True
  then show ?thesis by (simp add: ReadMsgFormat2_def readsI_more)
next
  case False
  then obtain ts where r: "Read3Bytes buf = Some ts" using ex_Read [of 0 buf] by auto
  show ?thesis
  proof (cases "ts \<ge> 0xffffff")
    case True
    with False r show ?thesis
      using ex_Read(2) [of 3 buf] by (auto simp: ReadMsgFormat2_def reads_intros)
  next
    case n: False
    with False r show ?thesis by (simp add: ReadMsgFormat2_def reads_intros)
  qed
qed

lemma ReadMsgFormat3_reads: "reads (ReadMsgFormat3 f i c buf) buf"
  using ex_Read(2) [of 0 buf]
  by (cases "Read4Bytes buf")
     (auto simp: ReadMsgFormat3_def ReadMsgFormat3_new_def reads_intros rtmp_codes
        intro: reads_intros [unfolded rtmp_codes])

lemma ReadMessageHeader_reads:
  "f < 4 \<Longrightarrow> reads (ReadMessageHeader f i c buf) buf"
proof -
  assume "f < 4"
  then have f: "f = 0 \<or> f = 1 \<or> f = 2 \<or> f = 3"
    by (auto simp: word_less_nat_alt word_eq_iff_unat)
  have step: "reads (do { (ret, c1, buf1) \<leftarrow> R;
      if ret \<noteq> RTMP_OK then Some (ret, c1, buf1)
      else Some (RTMP_OK, c1\<lparr>msg_count := 0, phase := CHUNK_STREAM_PHASE_PAYLOAD\<rparr>, buf1) }) buf"
    if "reads R buf" for R
    using that unfolding reads_def by (auto simp: rtmp_codes)
  from f show ?thesis
    unfolding ReadMessageHeader_def
    by (auto intro!: step readsI_same ReadMsgFormat0_reads ReadMsgFormat1_reads
          ReadMsgFormat2_reads ReadMsgFormat3_reads)
qed

lemma ReadMessagePayload_reads: "reads (ReadMessagePayload c buf) buf"
proof -
  have "nat n \<le> length buf" if "\<not> int (length buf) < n" for n
    using that by linarith
  then show ?thesis
    unfolding ReadMessagePayload_def Let_def by (simp add: grab_def reads_intros)
qed

lemma reads_cases:
  assumes "reads r buf"
  obtains (ok) c k where "r = Some (RTMP_OK, c, drop k buf)"
  | (more) c where "r = Some (RTMP_NEED_READ_MORE, c, buf)"
  using assms unfolding reads_def by auto

section \<open>Reading resumes where it stopped\<close>

lemma Read_drop_append:
  "Read4Bytes (drop k p) = Some w \<Longrightarrow> k \<le> length p \<Longrightarrow> Read4Bytes (drop k (p @ d)) = Some w"
  "Read3Bytes (drop k p) = Some w \<Longrightarrow> k \<le> length p \<Longrightarrow> Read3Bytes (drop k (p @ d)) = Some w"
  by (simp_all add: Read_append)

lemma ReadMsgFormat0_more:
  "ReadMsgFormat0 f i c buf = Some (RTMP_NEED_READ_MORE, c', b) \<Longrightarrow>
   ReadMsgFormat0 f i c' (buf @ d) = ReadMsgFormat0 f i c (buf @ d)"
  by (auto simp: ReadMsgFormat0_def bind_Some_iff rtmp_codes Read_append split: if_splits)

lemma ReadMsgFormat1_more:
  "ReadMsgFormat1 f i c buf = Some (RTMP_NEED_READ_MORE, c', b) \<Longrightarrow>
   ReadMsgFormat1 f i c' (buf @ d) = ReadMsgFormat1 f i c (buf @ d)"
  by (auto simp: ReadMsgFormat1_def bind_Some_iff rtmp_codes Read_append split: if_splits)

lemma ReadMsgFormat2_more:
  "ReadMsgFormat2 f i c buf = Some (RTMP_NEED_READ_MORE, c', b) \<Longrightarrow>
   ReadMsgFormat2 f i c' (buf @ d) = ReadMsgFormat2 f i c (buf @ d)"
  by (auto simp: ReadMsgFormat2_def bind_Some_iff rtmp_codes Read_append split: if_splits)

lemma ReadMsgFormat3_more:
  assumes "ReadMsgFormat3 f i c buf = Some (RTMP_NEED_READ_MORE, c', b)"
  shows "c' = c"
  using assms
  by (cases "ext_ts_flag c"; cases "Read4Bytes buf"; cases "remain c = 0")
     (simp_all add: ReadMsgFormat3_def ReadMsgFormat3_new_def rtmp_codes split: if_splits)

lemma ReadMsgFormat0_ok:
  "ReadMsgFormat0 f i c buf = Some (RTMP_OK, c', b) \<Longrightarrow>
   ReadMsgFormat0 f i c (buf @ d) = Some (RTMP_OK, c', b @ d)"
  by (auto simp: ReadMsgFormat0_def bind_Some_iff rtmp_codes Read_append split: if_splits)

lemma ReadMsgFormat1_ok:
  "ReadMsgFormat1 f i c buf = Some (RTMP_OK, c', b) \<Longrightarrow>
   ReadMsgFormat1 f i c (buf @ d) = Some (RTMP_OK, c', b @ d)"
  by (auto simp: ReadMsgFormat1_def bind_Some_iff rtmp_codes Read_append split: if_splits)

lemma ReadMsgFormat2_ok:
  "ReadMsgFormat2 f i c buf = Some (RTMP_OK, c', b) \<Longrightarrow>
   ReadMsgFormat2 f i c (buf @ d) = Some (RTMP_OK, c', b @ d)"
  by (auto simp: ReadMsgFormat2_def bind_Some_iff rtmp_codes Read_append split: if_splits)

lemma ReadMsgFormat3_ok:
  assumes "ReadMsgFormat3 f i c buf = Some (RTMP_OK, c', b)"
  shows "ReadMsgFormat3 f i c (buf @ d) = Some (RTMP_OK, c', b @ d)"
proof (cases "ext_ts_flag c")
  case True
  show ?thesis
  proof (cases "length buf < 4")
    case long: False
    then obtain t where "Read4Bytes buf = Some t" using ex_Read(2) [of 0 buf] by auto
    moreover from this have "Read4Bytes (buf @ d) = Some t" by (rule Read_append)
    ultimately show ?thesis using True assms long
      by (cases "remain c = 0"; cases "cs_fmt c = 0"; cases "cs_fmt c = 1 \<or> cs_fmt c = 2")
         (auto simp: ReadMsgFormat3_def ReadMsgFormat3_new_def rtmp_codes)
  next
    case short: True
    with True assms show ?thesis
      by (cases "remain c = 0"; cases "cs_fmt c = 0"; cases "cs_fmt c = 1 \<or> cs_fmt c = 2")
         (auto simp: ReadMsgFormat3_def ReadMsgFormat3_new_def rtmp_codes)
  qed
next
  case False
  with assms show ?thesis
    by (cases "remain c = 0"; cases "cs_fmt c = 0"; cases "cs_fmt c = 1 \<or> cs_fmt c = 2")
       (auto simp: ReadMsgFormat3_def ReadMsgFormat3_new_def rtmp_codes)
qed

lemma ReadMessageHeader_more:
  assumes "ReadMessageHeader f i c buf = Some (RTMP_NEED_READ_MORE, c', b)"
  shows "ReadMessageHeader f i c' (buf @ d) = ReadMessageHeader f i c (buf @ d)"
proof -
  have ph: "phase c = CHUNK_STREAM_PHASE_HEADER" "f = 0 \<or> f = 1 \<or> f = 2 \<or> f = 3"
    using assms by (auto simp: ReadMessageHeader_def rtmp_codes split: if_splits)
  have ph': "phase c' = CHUNK_STREAM_PHASE_HEADER"
    using assms ph by (auto simp: ReadMessageHeader_def rtmp_codes bind_Some_iff ReadMsgFormat0_def
      ReadMsgFormat1_def ReadMsgFormat2_def dest: ReadMsgFormat3_more [unfolded rtmp_codes] split: if_splits)
  from ph(2) show ?thesis
    using assms ph(1) ph' ReadMsgFormat0_more [of f i c buf c' b d] ReadMsgFormat1_more [of f i c buf c' b d]
      ReadMsgFormat2_more [of f i c buf c' b d] ReadMsgFormat3_more [of f i c buf c' b]
    by (auto simp: ReadMessageHeader_def bind_Some_iff rtmp_codes split: if_splits)
qed

lemma ReadMessageHeader_ok:
  assumes "ReadMessageHeader f i c buf = Some (RTMP_OK, c', b)"
  shows "ReadMessageHeader f i c (buf @ d) = Some (RTMP_OK, c', b @ d)"
proof (cases "phase c = CHUNK_STREAM_PHASE_HEADER")
  case True
  then have "f = 0 \<or> f = 1 \<or> f = 2 \<or> f = 3"
    using assms by (auto simp: ReadMessageHeader_def split: if_splits)
  moreover have "do { (ret, c1, buf1) \<leftarrow> R'; if ret \<noteq> RTMP_OK then Some (ret, c1, buf1)
      else Some (RTMP_OK, c1\<lparr>msg_count := 0, phase := CHUNK_STREAM_PHASE_PAYLOAD\<rparr>, buf1) }
      = Some (RTMP_OK, c', b @ d)"
    if "do { (ret, c1, buf1) \<leftarrow> R; if ret \<noteq> RTMP_OK then Some (ret, c1, buf1)
      else Some (RTMP_OK, c1\<lparr>msg_count := 0, phase := CHUNK_STREAM_PHASE_PAYLOAD\<rparr>, buf1) }
      = Some (RTMP_OK, c', b)" "\<And>c1 b1. R = Some (RTMP_OK, c1, b1) \<Longrightarrow> R' = Some (RTMP_OK, c1, b1 @ d)"
    for R R'
    using that by (cases R) (auto split: if_splits)
  note step = this [OF _ ReadMsgFormat0_ok] this [OF _ ReadMsgFormat1_ok]
    this [OF _ ReadMsgFormat2_ok] this [OF _ ReadMsgFormat3_ok]
  ultimately show ?thesis
    using True assms unfolding ReadMessageHeader_def by (elim disjE) (simp_all add: step)
qed (use assms in \<open>simp add: ReadMessageHeader_def\<close>)

lemma ReadMessagePayload_more:
  "ReadMessagePayload c buf = Some (RTMP_NEED_READ_MORE, c', b) \<Longrightarrow>
   ReadMessagePayload c' (buf @ d) = ReadMessagePayload c (buf @ d) \<and>
   phase c' = CHUNK_STREAM_PHASE_PAYLOAD \<and> b = buf"
  by (auto simp: ReadMessagePayload_def Let_def bind_Some_iff rtmp_codes split: if_split_asm)

lemma ReadMessagePayload_ok:
  assumes "ReadMessagePayload c buf = Some (RTMP_OK, c', b)"
  shows "ReadMessagePayload c (buf @ d) = Some (RTMP_OK, c', b @ d)"
proof (cases "phase c = CHUNK_STREAM_PHASE_PAYLOAD")
  case True
  define m where "m = (if remain c > uint (chunk_size c) then uint (chunk_size c) else remain c)"
  have "\<not> int (length buf) < m"
    using assms True by (auto simp: ReadMessagePayload_def m_def [symmetric] Let_def rtmp_codes)
  then have "\<not> int (length buf) < m" "nat m \<le> length buf" "\<not> int (length (buf @ d)) < m"
    "nat m \<le> length (buf @ d)" "take (nat m) (buf @ d) = take (nat m) buf"
    "drop (nat m) (buf @ d) = drop (nat m) buf @ d" by auto
  with assms True show ?thesis
    unfolding ReadMessagePayload_def m_def [symmetric] Let_def grab_def by auto
next
  case False
  with assms show ?thesis by (simp add: ReadMessagePayload_def)
qed

lemma ReadMsgFormat_chunk_size:
  "ReadMsgFormat0 f i c buf = Some (ret, c', b) \<Longrightarrow> chunk_size c' = chunk_size c"
  "ReadMsgFormat1 f i c buf = Some (ret, c', b) \<Longrightarrow> chunk_size c' = chunk_size c"
  "ReadMsgFormat2 f i c buf = Some (ret, c', b) \<Longrightarrow> chunk_size c' = chunk_size c"
  by (auto simp: ReadMsgFormat0_def ReadMsgFormat1_def ReadMsgFormat2_def bind_Some_iff
        split: if_split_asm)

lemma ReadMsgFormat3_chunk_size:
  "ReadMsgFormat3 f i c buf = Some (ret, c', b) \<Longrightarrow> chunk_size c' = chunk_size c"
  by (cases "ext_ts_flag c"; cases "Read4Bytes buf"; cases "remain c = 0")
     (auto simp: ReadMsgFormat3_def ReadMsgFormat3_new_def rtmp_codes split: if_split_asm)

lemma ReadMessageHeader_chunk_size:
  assumes "ReadMessageHeader f i c buf = Some (ret, c', b)" shows "chunk_size c' = chunk_size c"
proof -
  have "chunk_size c' = chunk_size c"
    if "do { (ret, c1, buf1) \<leftarrow> R; if ret \<noteq> RTMP_OK then Some (ret, c1, buf1)
      else Some (RTMP_OK, c1\<lparr>msg_count := 0, phase := CHUNK_STREAM_PHASE_PAYLOAD\<rparr>, buf1) }
      = Some (ret, c', b)" "\<And>ret c1 b1. R = Some (ret, c1, b1) \<Longrightarrow> chunk_size c1 = chunk_size c" for R
    using that by (cases R) (auto split: if_splits)
  note step = this [OF _ ReadMsgFormat_chunk_size(1)] this [OF _ ReadMsgFormat_chunk_size(2)]
    this [OF _ ReadMsgFormat_chunk_size(3)] this [OF _ ReadMsgFormat3_chunk_size]
  from assms show ?thesis
    unfolding ReadMessageHeader_def by (simp split: if_split_asm add: step)
qed

section \<open>The writer as a recursion on the message\<close>

text \<open>The message cut in pieces of \<open>n\<close> bytes, the last one shorter.\<close>

function pieces :: "nat \<Rightarrow> 'a list \<Rightarrow> 'a list list" where
  "pieces n xs = (if n = 0 \<or> xs = [] then [] else take n xs # pieces n (drop n xs))"
  by pat_completeness auto
termination by (relation "measure (\<lambda>(n, xs). length xs)") auto

declare pieces.simps [simp del]

lemma pieces_Nil [simp]: "pieces n [] = []"
  by (simp add: pieces.simps)

lemma pieces_step: "0 < n \<Longrightarrow> xs \<noteq> [] \<Longrightarrow> pieces n xs = take n xs # pieces n (drop n xs)"
  by (subst pieces.simps) simp

lemma concat_pieces: "0 < n \<Longrightarrow> concat (pieces n xs) = xs"
  by (induction n xs rule: pieces.induct) (subst pieces.simps, simp)

definition piece_count :: "nat \<Rightarrow> nat \<Rightarrow> nat" where
  "piece_count l n = l div n + (if l mod n > 0 then 1 else 0)"

lemma piece_count_0 [simp]: "piece_count 0 n = 0"
  by (simp add: piece_count_def)

lemma piece_count_step:
  assumes "0 < n" "0 < l" shows "piece_count l n = Suc (piece_count (l - n) n)"
proof (cases "n \<le> l")
  case True
  then have "l div n = Suc ((l - n) div n)" "l mod n = (l - n) mod n"
    using assms by (simp_all add: le_div_geq le_mod_geq)
  then show ?thesis by (simp add: piece_count_def)
next
  case False
  then show ?thesis using assms by (simp add: piece_count_def)
qed

lemma pieces_index:
  "0 < n \<Longrightarrow> map (\<lambda>i. take n (drop (i * n) xs)) [0..<piece_count (length xs) n] = pieces n xs"
proof (induction n xs rule: pieces.induct)
  case (1 n xs)
  show ?case
  proof (cases "xs = []")
    case False
    then have "piece_count (length xs) n = Suc (piece_count (length (drop n xs)) n)"
      using 1 by (simp add: piece_count_step)
    then have "map (\<lambda>i. take n (drop (i * n) xs)) [0..<piece_count (length xs) n] =
      take n xs # map (\<lambda>i. take n (drop (i * n) (drop n xs))) [0..<piece_count (length (drop n xs)) n]"
      by (simp add: upt_conv_Cons add.commute o_def del: upt_Suc length_drop flip: map_Suc_upt)
    then show ?thesis using 1 False by (simp add: pieces_step)
  qed simp
qed

text \<open>The length that the writer computes for piece \<open>index\<close> is the one that is left.\<close>

lemma last_piece_length:
  assumes "0 < n" "i < piece_count (length xs) n"
  shows "take (if i = piece_count (length xs) n - 1
               then (if length xs mod n > 0 then length xs mod n else n) else n) (drop (i * n) xs)
         = take n (drop (i * n) xs)"
proof (cases "i = piece_count (length xs) n - 1 \<and> length xs mod n > 0")
  case True
  then have "i = length xs div n" by (simp add: piece_count_def)
  then have "length (drop (i * n) xs) = length xs mod n"
    by (simp add: minus_div_mult_eq_mod)
  moreover have "length xs mod n < n" using assms by simp
  ultimately show ?thesis using True by simp
qed auto

section \<open>The bytes of a message\<close>

text \<open>The basic header of one byte, and the two kinds of chunk that the writer produces.\<close>

definition basic_byte :: "u8 \<Rightarrow> u16 \<Rightarrow> u8" where
  "basic_byte fmt csid = push_bit 6 fmt OR (ucast csid AND 0x3f)"

definition header0 :: "u32 \<Rightarrow> u32 \<Rightarrow> u8 \<Rightarrow> u32 \<Rightarrow> bytes" where
  "header0 ts len tid sid = Write3Bytes ts @ Write3Bytes len @ [tid] @ Write4Bytes sid"

definition chunks_of :: "u16 \<Rightarrow> u32 \<Rightarrow> u8 \<Rightarrow> u32 \<Rightarrow> nat \<Rightarrow> bytes \<Rightarrow> bytes list" where
  "chunks_of csid ts tid sid n input =
     (basic_byte 0 csid # header0 ts (of_nat (length input)) tid sid @ take n input) #
     map (\<lambda>p. basic_byte 3 csid # p) (pieces n (drop n input))"

lemma word_masks: "(0x3f :: u8) = mask 6" "(3 :: u8) = mask 2"
  by (simp_all add: mask_eq_exp_minus_1)

lemma basic_byte_csid: "csid < 64 \<Longrightarrow> ucast (basic_byte fmt csid AND 0x3f) = csid"
proof -
  assume "csid < 64"
  then have "unat csid < 64" by (simp add: word_less_nat_alt)
  then have "take_bit 6 (unat csid) = unat csid" by (simp add: take_bit_eq_mod)
  then have "take_bit 6 csid = csid" by (metis unsigned_take_bit_eq word_eq_iff_unsigned)
  moreover have "ucast (basic_byte fmt csid AND 0x3f) = take_bit 6 csid"
    unfolding basic_byte_def word_masks by (rule bit_eqI) (auto simp: bit_simps)
  ultimately show ?thesis by simp
qed

lemma basic_byte_fmt: "drop_bit 6 (basic_byte fmt csid) AND 3 = fmt AND 3"
  unfolding basic_byte_def word_masks by (rule bit_eqI) (auto simp: bit_simps)

lemma chunk_of_message_small:
  assumes "csid < 64" "0 < csize" "i < piece_count (length input) (unat csize)"
  shows "chunk_of_message csid ts tid sid csize input (piece_count (length input) (unat csize)) i =
    (if i = 0 then basic_byte 0 csid # header0 ts (of_nat (length input)) tid sid @ take (unat csize) input
     else basic_byte 3 csid # take (unat csize) (drop (i * unat csize) input))"
  using last_piece_length [of "unat csize" i input] assms
  by (auto simp: chunk_of_message_def GenData_def new_ChunkStream_def Let_def basic_byte_def
        header0_def word_less_nat_alt)

lemma WriteDataByChunkStream_pieces:
  assumes "csid < 64" "0 < csize" "input \<noteq> []"
  shows "WriteDataByChunkStream csid ts tid sid csize input =
    Some (chunks_of csid ts tid sid (unat csize) input)"
proof -
  let ?n = "unat csize" and ?k = "piece_count (length input) (unat csize)"
  have n: "0 < ?n" "csize \<noteq> 0" using assms by (auto simp: word_less_nat_alt)
  have k: "?k = Suc (piece_count (length (drop ?n input)) ?n)"
    using n assms by (simp add: piece_count_step)
  have "map (chunk_of_message csid ts tid sid csize input ?k) [0..<?k] =
    map (\<lambda>i. if i = 0 then basic_byte 0 csid # header0 ts (of_nat (length input)) tid sid @ take ?n input
             else basic_byte 3 csid # take ?n (drop (i * ?n) input)) [0..<?k]"
    using assms by (intro map_cong) (auto simp: chunk_of_message_small)
  also have "\<dots> = (basic_byte 0 csid # header0 ts (of_nat (length input)) tid sid @ take ?n input) #
    map (\<lambda>i. basic_byte 3 csid # take ?n (drop (i * ?n) (drop ?n input)))
      [0..<piece_count (length (drop ?n input)) ?n]"
    by (simp add: k upt_conv_Cons add.commute o_def del: upt_Suc length_drop flip: map_Suc_upt)
  also have "\<dots> = chunks_of csid ts tid sid ?n input"
    unfolding chunks_of_def pieces_index [OF n(1), symmetric] by (simp add: o_def)
  finally show ?thesis
    using n by (simp add: WriteDataByChunkStream_def piece_count_def Let_def)
qed

section \<open>A stream that is receiving a message\<close>

text \<open>
  The reader's state after \<open>k\<close> bytes of a message whose timestamp is not extended, and the
  state of a stream between messages, which a new stream and a reset one have.
\<close>

definition receiving :: "u32 \<Rightarrow> u8 \<Rightarrow> u32 \<Rightarrow> bytes \<Rightarrow> nat \<Rightarrow> chunk_stream \<Rightarrow> bool" where
  "receiving ts tid sid input k c \<longleftrightarrow>
     phase c = CHUNK_STREAM_PHASE_HEADER \<and> timestamp32 c = ts \<and>
     msg_len c = of_nat (length input) \<and> type_id c = tid \<and> msg_stream_id c = sid \<and>
     remain c = int (length input) - int k \<and> chunk_data c = take k input \<and>
     \<not> ext_ts_flag c \<and> chunk_ready c = (length input \<le> k)"

definition idle_stream :: "chunk_stream \<Rightarrow> bool" where
  "idle_stream c \<longleftrightarrow> phase c = CHUNK_STREAM_PHASE_HEADER \<and> chunk_data c = [] \<and>
     \<not> ext_ts_flag c \<and> \<not> chunk_ready c"

lemma idle_new: "idle_stream (new_ChunkStream f i n)"
  by (simp add: idle_stream_def new_ChunkStream_def)

lemma chunk_size_new [simp]: "chunk_size (new_ChunkStream f i n) = n"
  by (simp add: new_ChunkStream_def)

lemma idle_Reset: "\<not> ext_ts_flag c \<Longrightarrow> idle_stream (cs_Reset c)"
  by (simp add: idle_stream_def cs_Reset_def)

lemma idle_chunk_size: "idle_stream c \<Longrightarrow> idle_stream (c\<lparr>chunk_size := n\<rparr>)"
  by (simp add: idle_stream_def)

lemma receiving_chunk_size:
  "receiving ts tid sid input k c \<Longrightarrow> receiving ts tid sid input k (c\<lparr>chunk_size := n\<rparr>)"
  by (simp add: receiving_def)

lemma length_header0 [simp, lens]: "length (header0 ts len tid sid) = 11"
  by (simp add: header0_def)

lemma read_header0:
  assumes "ts < 0xffffff" "unat len < 2 ^ 24" "idle_stream c"
  shows "ReadMessageHeader 0 i c (header0 ts len tid sid @ r) =
    Some (RTMP_OK, c\<lparr>cs_fmt := 0, cs_csid := i, timestamp32 := ts, timestamp_delta := 0,
            msg_len := len, type_id := tid, msg_stream_id := sid, remain := uint len,
            msg_count := 0, phase := CHUNK_STREAM_PHASE_PAYLOAD\<rparr>, r)"
proof -
  have "unat ts < 2 ^ 24" using assms(1) by (simp add: word_less_nat_alt)
  with assms have r3: "Read3Bytes (header0 ts len tid sid @ r) = Some ts"
    "Read3Bytes (drop 3 (header0 ts len tid sid @ r)) = Some len"
    by (simp_all add: header0_def Read3Bytes_Write3Bytes_small drop_eq_append)
  have "drop 7 (header0 ts len tid sid @ r) = Write4Bytes sid @ r"
    using drop_eq_append [of "Write3Bytes ts @ Write3Bytes len @ [tid]" 7] by (simp add: header0_def)
  then have r4: "Read4Bytes (drop 7 (header0 ts len tid sid @ r)) = Some sid"
    by (simp add: Read4Bytes_Write4Bytes)
  have tid: "rd (header0 ts len tid sid @ r) 6 = Some tid"
    by (simp add: header0_def)
  from assms(1) have "\<not> 0xffffff \<le> ts" by simp
  then show ?thesis
    using assms(3) r3 r4 tid
    by (simp add: ReadMessageHeader_def ReadMsgFormat0_def idle_stream_def rtmp_codes drop_eq_append)
qed

lemma read_payload:
  assumes "phase c = CHUNK_STREAM_PHASE_PAYLOAD" "p = take (unat (chunk_size c)) data"
    "remain c = int (length data)"
  shows "ReadMessagePayload c (p @ r) =
    Some (RTMP_OK, c\<lparr>require_len := int (length p), chunk_data := chunk_data c @ p,
       remain := int (length data) - int (length p), msg_count := msg_count c + 1,
       chunk_ready := (if length data \<le> unat (chunk_size c) then True else chunk_ready c),
       phase := CHUNK_STREAM_PHASE_HEADER\<rparr>, r)"
proof -
  have need: "(if remain c > uint (chunk_size c) then uint (chunk_size c) else remain c)
              = int (length p)"
  proof -
    have m: "(if int (length data) > int n then int n else int (length data)) =
      int (length (take n data))" for n by simp
    have u: "uint w = int (unat w)" for w :: u32 by simp
    show ?thesis by (simp only: assms(2,3) u m)
  qed
  have ready: "(int (length data) - int (length p) \<le> 0) = (length data \<le> unat (chunk_size c))"
    using assms(2) by auto
  show ?thesis
    unfolding ReadMessagePayload_def Let_def need
    by (simp add: assms(1,3) ready grab_append drop_eq_append del: diff_le_0_iff_le)
qed

end
