(* ===== verification/RtmpSession.thy ===== *)
theory RtmpSession
  imports ChunkStream
begin

text \<open>
  net/rtmp/rtmp_session_base.cpp and the state that both ends of an RTMP connection keep.
  The record \<open>rtmp_session\<close> is the class with its \<open>RtmpRequest\<close>; \<open>recv_buffer\<close> is the view
  of the receive buffer and \<open>sent\<close> collects what \<open>RtmpSend\<close> hands to the connection, in
  order.  \<open>cs_map\<close> is keyed by a byte, as \<open>std::map<uint8_t, CHUNK_STREAM_PTR>\<close> is, and a
  \<open>CHUNK_STREAM_PTR\<close> is its key in the map.  \<open>NextMessage\<close> is the loop with which the
  sessions call \<open>ReadChunkStream\<close> until a message is complete.  The lemmas show that the
  loop ends, that asking for more loses nothing but the first byte of a split basic
  header, and that a message written by \<open>WriteDataByChunkStream\<close> is read back.
\<close>

section \<open>The session\<close>

datatype RTMP_SERVER_SESSION_PHASE = initial_phase | handshake_c2_phase | connect_phase
  | create_stream_phase | create_publish_play_phase | media_handle_phase

datatype RTMP_CLIENT_SESSION_PHASE = client_initial_phase | client_c0c1_phase
  | client_s0s1s2_phase | client_connect_phase | client_connect_resp_phase
  | client_create_stream_phase | client_create_stream_resp_phase
  | client_create_play_phase | client_create_publish_phase
  | client_create_playpublish_resp_phase | client_media_handle_phase

record RtmpRequest =
  publish_flag :: bool
  is_ready :: bool
  req_app :: bytes
  tcurl :: bytes
  flash_ver :: bytes
  stream_name :: bytes
  req_key :: bytes
  transaction_id :: int
  req_stream_id :: u32

definition new_RtmpRequest :: RtmpRequest where
  "new_RtmpRequest = \<lparr> publish_flag = False, is_ready = False, req_app = [], tcurl = [],
     flash_ver = [], stream_name = [], req_key = [], transaction_id = 1, req_stream_id = 0 \<rparr>"

record rtmp_session =
  recv_buffer :: bytes
  fmt_ready :: bool
  sess_fmt :: u8
  sess_csid :: u16
  cs_map :: "u8 \<rightharpoonup> chunk_stream"
  remote_window_acksize :: u32
  ack_received :: u32
  req :: RtmpRequest
  stream_id :: u32
  server_phase :: RTMP_SERVER_SESSION_PHASE
  client_phase :: RTMP_CLIENT_SESSION_PHASE
  sess_chunk_size :: u32
  sent :: "bytes list"

definition CHUNK_DEF_SIZE :: u32 where "CHUNK_DEF_SIZE = 128"

definition new_RtmpSessionBase :: rtmp_session where
  "new_RtmpSessionBase =
     \<lparr> recv_buffer = [], fmt_ready = False, sess_fmt = 0, sess_csid = 0, cs_map = Map.empty,
       remote_window_acksize = 2500000, ack_received = 0, req = new_RtmpRequest, stream_id = 1,
       server_phase = initial_phase, client_phase = client_initial_phase,
       sess_chunk_size = CHUNK_DEF_SIZE, sent = [] \<rparr>"

definition SetChunkSize :: "u32 \<Rightarrow> rtmp_session \<Rightarrow> rtmp_session" where
  "SetChunkSize csize s = s\<lparr>sess_chunk_size := csize\<rparr>"

definition GetChunkSize :: "rtmp_session \<Rightarrow> u32" where
  "GetChunkSize s = sess_chunk_size s"

definition IsPublish :: "rtmp_session \<Rightarrow> bool" where
  "IsPublish s = publish_flag (req s)"

definition RtmpSend :: "bytes \<Rightarrow> rtmp_session \<Rightarrow> rtmp_session" where
  "RtmpSend data s = s\<lparr>sent := sent s @ [data]\<rparr>"

section \<open>The basic header\<close>

definition ReadFmtCsid :: "rtmp_session \<Rightarrow> int \<times> rtmp_session" where
  "ReadFmtCsid s = (case recv_buffer s of
     [] \<Rightarrow> (RTMP_NEED_READ_MORE, s)
   | b # rest \<Rightarrow>
       let s1 = s\<lparr>sess_fmt := drop_bit 6 b AND 0x3, sess_csid := ucast (b AND 0x3f),
                   recv_buffer := rest\<rparr> in
       if sess_csid s1 = 0 then
         (case rest of
            [] \<Rightarrow> (RTMP_NEED_READ_MORE, s1)
          | p # rest' \<Rightarrow> (RTMP_OK, s1\<lparr>sess_csid := 64 + ucast p, recv_buffer := rest'\<rparr>))
       else if sess_csid s1 = 1 then
         (case rest of
            p # q # rest' \<Rightarrow>
              (RTMP_OK, s1\<lparr>sess_csid := 64 + ucast p + ucast q, recv_buffer := rest'\<rparr>)
          | _ \<Rightarrow> (RTMP_NEED_READ_MORE, s1))
       else (RTMP_OK, s1))"

section \<open>One chunk\<close>

text \<open>
  The chunk stream that the read works on is the map's entry, which the reader's changes
  reach whatever they return; the last component is the pointer that the caller gets.
\<close>

definition find_or_create :: "rtmp_session \<Rightarrow> chunk_stream" where
  "find_or_create s = (case cs_map s (ucast (sess_csid s)) of
     None \<Rightarrow> new_ChunkStream (sess_fmt s) (sess_csid s) (sess_chunk_size s)
   | Some c \<Rightarrow> c\<lparr>chunk_size := sess_chunk_size s\<rparr>)"

definition put_stream :: "chunk_stream \<Rightarrow> bytes \<Rightarrow> rtmp_session \<Rightarrow> rtmp_session" where
  "put_stream c buf s =
     s\<lparr>recv_buffer := buf, cs_map := (cs_map s)(ucast (sess_csid s) \<mapsto> c)\<rparr>"

definition ReadChunkBody :: "rtmp_session \<Rightarrow> (int \<times> u8 \<times> rtmp_session) option" where
  "ReadChunkBody s = do {
     key \<leftarrow> Some (ucast (sess_csid s));
     (ret, c, buf) \<leftarrow> ReadMessageHeader (sess_fmt s) (sess_csid s) (find_or_create s) (recv_buffer s);
     if ret < RTMP_OK \<or> ret = RTMP_NEED_READ_MORE then Some (ret, key, put_stream c buf s)
     else do {
       (ret', c', buf') \<leftarrow> ReadMessagePayload c buf;
       s' \<leftarrow> Some (put_stream c' buf' s);
       Some (ret', key, if ret' = RTMP_OK then s'\<lparr>fmt_ready := False\<rparr> else s') } }"

definition ReadChunkStream :: "rtmp_session \<Rightarrow> (int \<times> u8 \<times> rtmp_session) option" where
  "ReadChunkStream s =
     (if fmt_ready s then ReadChunkBody s
      else let (ret, s') = ReadFmtCsid s in
           if ret \<noteq> 0 then Some (ret, 0, s') else ReadChunkBody (s'\<lparr>fmt_ready := True\<rparr>))"

section \<open>What one read does\<close>

text \<open>The class keeps the two bits of the format, so the readers' assertion cannot fail.\<close>

definition sess_inv :: "rtmp_session \<Rightarrow> bool" where
  "sess_inv s = (sess_fmt s < 4)"

lemma two_bits_less: "(x :: u8) AND 3 < 4"
proof -
  have "x AND 3 \<le> 3" using word_and_le1 [of 3 x] word_and_le2 [of 3 x] by (simp add: ac_simps)
  then show ?thesis by (simp add: word_le_nat_alt word_less_nat_alt)
qed

lemma ReadFmtCsid_cases:
  obtains (ok) s' k where "ReadFmtCsid s = (RTMP_OK, s')" "recv_buffer s' = drop (Suc k) (recv_buffer s)"
      "recv_buffer s \<noteq> []" "sess_fmt s' < 4" "fmt_ready s' = fmt_ready s"
  | (more) s' k where "ReadFmtCsid s = (RTMP_NEED_READ_MORE, s')"
      "recv_buffer s' = drop k (recv_buffer s)" "k \<le> 1" "fmt_ready s' = fmt_ready s"
      "recv_buffer s = [] \<Longrightarrow> s' = s" "sess_fmt s < 4 \<Longrightarrow> sess_fmt s' < 4"
proof (cases "recv_buffer s")
  case Nil
  then have "ReadFmtCsid s = (RTMP_NEED_READ_MORE, s)" by (simp add: ReadFmtCsid_def)
  with more [of s 0] show ?thesis by simp
next
  case (Cons b rest)
  consider "(ucast (b AND 0x3f) :: u16) = 0" | "(ucast (b AND 0x3f) :: u16) = 1"
    | "(ucast (b AND 0x3f) :: u16) \<noteq> 0" "(ucast (b AND 0x3f) :: u16) \<noteq> 1" by blast
  then show ?thesis
  proof cases
    case 1
    then show ?thesis
      by (cases rest)
         (use Cons two_bits_less more [of _ 1] ok [of _ 1] in \<open>auto simp: ReadFmtCsid_def Let_def\<close>)
  next
    case 2
    then show ?thesis
      by (cases rest rule: remdups_adj.cases)
         (use Cons two_bits_less more [of _ 1] ok [of _ 2] in \<open>auto simp: ReadFmtCsid_def Let_def\<close>)
  next
    case 3
    then show ?thesis
      using Cons two_bits_less ok [of _ 0] by (auto simp: ReadFmtCsid_def Let_def)
  qed
qed

text \<open>
  The measure that every successful read decreases: the bytes that are left, and whether
  the basic header of the next chunk is already read.
\<close>

definition pending :: "rtmp_session \<Rightarrow> nat" where
  "pending s = 2 * length (recv_buffer s) + (if fmt_ready s then 1 else 0)"

lemma put_stream_simps [simp]:
  "recv_buffer (put_stream c buf s) = buf" "sess_fmt (put_stream c buf s) = sess_fmt s"
  "sess_csid (put_stream c buf s) = sess_csid s" "fmt_ready (put_stream c buf s) = fmt_ready s"
  "cs_map (put_stream c buf s) = (cs_map s)(ucast (sess_csid s) \<mapsto> c)"
  "sess_chunk_size (put_stream c buf s) = sess_chunk_size s"
  by (simp_all add: put_stream_def)

lemma ReadChunkBody_cases:
  assumes "sess_fmt s < 4"
  obtains (ok) c k where
      "ReadChunkBody s = Some (RTMP_OK, ucast (sess_csid s),
         (put_stream c (drop k (recv_buffer s)) s)\<lparr>fmt_ready := False\<rparr>)"
  | (more) c k where
      "ReadChunkBody s = Some (RTMP_NEED_READ_MORE, ucast (sess_csid s),
         put_stream c (drop k (recv_buffer s)) s)"
proof (rule reads_cases [OF ReadMessageHeader_reads [OF assms], of "sess_csid s" "find_or_create s"
          "recv_buffer s"])
  fix c
  assume "ReadMessageHeader (sess_fmt s) (sess_csid s) (find_or_create s) (recv_buffer s) =
    Some (RTMP_NEED_READ_MORE, c, recv_buffer s)"
  then have "ReadChunkBody s = Some (RTMP_NEED_READ_MORE, ucast (sess_csid s),
         put_stream c (drop 0 (recv_buffer s)) s)"
    by (simp add: ReadChunkBody_def rtmp_codes)
  then show thesis by (rule more)
next
  fix c k
  assume h: "ReadMessageHeader (sess_fmt s) (sess_csid s) (find_or_create s) (recv_buffer s) =
    Some (RTMP_OK, c, drop k (recv_buffer s))"
  show thesis
  proof (rule reads_cases [OF ReadMessagePayload_reads, of c "drop k (recv_buffer s)"])
    fix c' k'
    assume "ReadMessagePayload c (drop k (recv_buffer s)) =
      Some (RTMP_OK, c', drop k' (drop k (recv_buffer s)))"
    with h have "ReadChunkBody s = Some (RTMP_OK, ucast (sess_csid s),
         (put_stream c' (drop (k' + k) (recv_buffer s)) s)\<lparr>fmt_ready := False\<rparr>)"
      by (simp add: ReadChunkBody_def rtmp_codes)
    then show thesis by (rule ok)
  next
    fix c'
    assume "ReadMessagePayload c (drop k (recv_buffer s)) =
      Some (RTMP_NEED_READ_MORE, c', drop k (recv_buffer s))"
    with h have "ReadChunkBody s = Some (RTMP_NEED_READ_MORE, ucast (sess_csid s),
         put_stream c' (drop k (recv_buffer s)) s)"
      by (simp add: ReadChunkBody_def rtmp_codes)
    then show thesis by (rule more)
  qed
qed

lemma ReadChunkStream_cases:
  assumes "sess_inv s"
  obtains (ok) key s' c where "ReadChunkStream s = Some (RTMP_OK, key, s')" "pending s' < pending s"
      "sess_inv s'" "\<not> fmt_ready s'" "cs_map s' key = Some c"
  | (more) key s' k where "ReadChunkStream s = Some (RTMP_NEED_READ_MORE, key, s')" "sess_inv s'"
      "recv_buffer s' = drop k (recv_buffer s)"
proof (cases "fmt_ready s")
  case True
  then have e: "ReadChunkStream s = ReadChunkBody s" by (simp add: ReadChunkStream_def)
  from assms have f: "sess_fmt s < 4" by (simp add: sess_inv_def)
  from f show thesis
  proof (cases rule: ReadChunkBody_cases)
    case (ok c k)
    show thesis
      by (rule that(1) [OF trans [OF e ok]]) (use f True in \<open>simp_all add: pending_def sess_inv_def\<close>)
  next
    case (more c k)
    show thesis
      by (rule that(2) [OF trans [OF e more]]) (use f in \<open>simp_all add: sess_inv_def\<close>)
  qed
next
  case False
  show thesis
  proof (cases s rule: ReadFmtCsid_cases)
    case (more s' k)
    then have e: "ReadChunkStream s = Some (RTMP_NEED_READ_MORE, 0, s')"
      using False by (simp add: ReadChunkStream_def rtmp_codes)
    show thesis
      by (rule that(2) [OF e]) (use more assms in \<open>simp_all add: sess_inv_def\<close>)
  next
    case (ok s' k)
    let ?s = "s'\<lparr>fmt_ready := True\<rparr>"
    from ok False have e: "ReadChunkStream s = ReadChunkBody ?s"
      by (simp add: ReadChunkStream_def rtmp_codes)
    from ok have f: "sess_fmt ?s < 4" by simp
    from ok(3) have l: "length (recv_buffer s') < length (recv_buffer s)"
      by (simp add: ok(2))
    from f show thesis
    proof (cases rule: ReadChunkBody_cases)
      case body: (ok c j)
      show thesis
        by (rule that(1) [OF trans [OF e body]])
           (use f l False in \<open>simp_all add: pending_def sess_inv_def\<close>)
    next
      case body: (more c j)
      show thesis
        by (rule that(2) [OF trans [OF e body]])
           (use f ok(2) in \<open>simp_all add: sess_inv_def\<close>)
    qed
  qed
qed

section \<open>The loop that completes a message\<close>

definition IsReady :: "chunk_stream \<Rightarrow> bool" where
  "IsReady c = chunk_ready c"

definition stream_ready :: "u8 \<Rightarrow> rtmp_session \<Rightarrow> bool" where
  "stream_ready key s = (case cs_map s key of None \<Rightarrow> False | Some c \<Rightarrow> IsReady c)"

lemma ReadMessageHeader_Some:
  "ReadMessageHeader f i c buf = Some r \<Longrightarrow> reads (ReadMessageHeader f i c buf) buf"
proof (cases "f < 4")
  case False
  then have "f \<noteq> 0" "f \<noteq> 1" "f \<noteq> 2" "f \<noteq> 3" by auto
  moreover assume "ReadMessageHeader f i c buf = Some r"
  ultimately show ?thesis
    by (auto simp: ReadMessageHeader_def readsI_same split: if_splits)
qed (rule ReadMessageHeader_reads)

lemma ReadChunkBody_pending:
  assumes "ReadChunkBody s = Some (ret, key, s')" "ret \<noteq> RTMP_NEED_READ_MORE"
  shows "\<not> fmt_ready s' \<and> length (recv_buffer s') \<le> length (recv_buffer s)"
proof -
  from assms(1) obtain r where "ReadMessageHeader (sess_fmt s) (sess_csid s) (find_or_create s)
      (recv_buffer s) = Some r"
    by (auto simp: ReadChunkBody_def bind_Some_iff)
  then have h: "reads (ReadMessageHeader (sess_fmt s) (sess_csid s) (find_or_create s)
      (recv_buffer s)) (recv_buffer s)"
    by (rule ReadMessageHeader_Some)
  show ?thesis
  proof (use h in \<open>cases rule: reads_cases\<close>)
    case (ok c k)
    from ReadMessagePayload_reads [of c "drop k (recv_buffer s)"] show ?thesis
      by (cases rule: reads_cases) (use ok assms in \<open>auto simp: ReadChunkBody_def rtmp_codes\<close>)
  next
    case (more c)
    with assms show ?thesis by (simp add: ReadChunkBody_def rtmp_codes)
  qed
qed

lemma ReadChunkStream_pending:
  assumes "ReadChunkStream s = Some (ret, key, s')" "\<not> ret < RTMP_OK" "ret \<noteq> RTMP_NEED_READ_MORE"
  shows "pending s' < pending s"
proof (cases "fmt_ready s")
  case True
  with assms ReadChunkBody_pending [of s ret key s'] show ?thesis
    by (simp add: ReadChunkStream_def pending_def)
next
  case False
  show ?thesis
  proof (cases s rule: ReadFmtCsid_cases)
    case (ok s0 k)
    with False assms have "ReadChunkBody (s0\<lparr>fmt_ready := True\<rparr>) = Some (ret, key, s')"
      by (simp add: ReadChunkStream_def rtmp_codes)
    from ReadChunkBody_pending [OF this assms(3)] ok(2)
    have "\<not> fmt_ready s'" "length (recv_buffer s') \<le> length (recv_buffer s) - Suc k" by simp_all
    moreover from ok(3) have "0 < length (recv_buffer s)" by simp
    ultimately have "\<not> fmt_ready s'" "length (recv_buffer s') < length (recv_buffer s)" by linarith+
    then show ?thesis using False by (simp add: pending_def)
  next
    case (more s0 k)
    with False assms show ?thesis by (simp add: ReadChunkStream_def rtmp_codes)
  qed
qed

function NextMessage :: "rtmp_session \<Rightarrow> (int \<times> u8 \<times> rtmp_session) option" where
  "NextMessage s = (case ReadChunkStream s of
     None \<Rightarrow> None
   | Some (ret, key, s') \<Rightarrow>
       if ret < RTMP_OK \<or> ret = RTMP_NEED_READ_MORE then Some (ret, key, s')
       else if \<not> stream_ready key s' then
         if length (recv_buffer s') > 0 then NextMessage s' else Some (RTMP_NEED_READ_MORE, key, s')
       else Some (ret, key, s'))"
  by pat_completeness auto
termination
  by (relation "measure pending") (auto intro: ReadChunkStream_pending)

declare NextMessage.simps [simp del]

lemma NextMessage_outcome:
  "sess_inv s \<Longrightarrow> \<exists>ret key s'. NextMessage s = Some (ret, key, s') \<and> sess_inv s' \<and>
     (ret = RTMP_NEED_READ_MORE \<or> ret = RTMP_OK \<and> stream_ready key s' \<and> pending s' < pending s)"
proof (induction s rule: NextMessage.induct)
  case (1 s)
  from 1(2) show ?case
  proof (cases rule: ReadChunkStream_cases)
    case (ok key s' c)
    show ?thesis
    proof (cases "stream_ready key s' \<or> recv_buffer s' = []")
      case True
      with ok show ?thesis by (subst NextMessage.simps) (auto simp: rtmp_codes)
    next
      case False
      then have n: "NextMessage s = NextMessage s'"
        using ok by (subst NextMessage.simps) (simp add: rtmp_codes)
      from 1(1) [OF ok(1) refl refl] False ok(3)
      obtain ret key' s'' where "NextMessage s' = Some (ret, key', s'')" "sess_inv s''"
        "ret = RTMP_NEED_READ_MORE \<or> ret = RTMP_OK \<and> stream_ready key' s'' \<and> pending s'' < pending s'"
        by (auto simp: rtmp_codes)
      with ok(2) show ?thesis unfolding n by auto
    qed
  next
    case (more key s' k)
    then show ?thesis by (subst NextMessage.simps) simp
  qed
qed

section \<open>Reading back a written message\<close>

definition after_chunk :: "u8 \<Rightarrow> u16 \<Rightarrow> chunk_stream \<Rightarrow> bytes \<Rightarrow> rtmp_session \<Rightarrow> rtmp_session" where
  "after_chunk f i c r s = s\<lparr>recv_buffer := r, fmt_ready := False, sess_fmt := f, sess_csid := i,
     cs_map := (cs_map s)(ucast i \<mapsto> c)\<rparr>"

lemma after_chunk_simps [simp]:
  "recv_buffer (after_chunk f i c r s) = r" "fmt_ready (after_chunk f i c r s) = False"
  "cs_map (after_chunk f i c r s) = (cs_map s)(ucast i \<mapsto> c)"
  "sess_chunk_size (after_chunk f i c r s) = sess_chunk_size s"
  "sess_inv (after_chunk f i c r s) = (f < 4)"
  "after_chunk f i c r (after_chunk f' i c' r' s) = after_chunk f i c r s"
  by (simp_all add: after_chunk_def sess_inv_def)

lemma ReadFmtCsid_basic:
  assumes "2 \<le> csid" "csid < 64" "fmt < 4" "recv_buffer s = basic_byte fmt csid # r"
  shows "ReadFmtCsid s = (RTMP_OK, s\<lparr>sess_fmt := fmt, sess_csid := csid, recv_buffer := r\<rparr>)"
proof -
  have "fmt AND 3 = fmt"
  proof -
    have "take_bit 2 (unat fmt) = unat fmt"
      using assms(3) by (simp add: take_bit_eq_mod word_less_nat_alt)
    then have "take_bit 2 fmt = fmt" by (metis unsigned_take_bit_eq word_eq_iff_unsigned)
    then show ?thesis by (simp only: word_masks take_bit_eq_mask)
  qed
  moreover have "csid \<noteq> 0" "csid \<noteq> 1" using assms(1) by (auto simp: word_le_nat_alt)
  ultimately show ?thesis
    using assms by (simp add: ReadFmtCsid_def basic_byte_fmt basic_byte_csid Let_def)
qed

lemma ReadChunkStream_by_parts:
  assumes "2 \<le> csid" "csid < 64" "fmt < 4" "\<not> fmt_ready s"
    "recv_buffer s = basic_byte fmt csid # r"
    "c = (case cs_map s (ucast csid) of None \<Rightarrow> new_ChunkStream fmt csid (sess_chunk_size s)
          | Some c \<Rightarrow> c\<lparr>chunk_size := sess_chunk_size s\<rparr>)"
    "ReadMessageHeader fmt csid c r = Some (RTMP_OK, c1, r1)"
    "ReadMessagePayload c1 r1 = Some (RTMP_OK, c2, r2)"
  shows "ReadChunkStream s = Some (RTMP_OK, ucast csid, after_chunk fmt csid c2 r2 s)"
proof -
  let ?s = "s\<lparr>sess_fmt := fmt, sess_csid := csid, recv_buffer := r, fmt_ready := True\<rparr>"
  have f: "find_or_create ?s = c" by (simp add: find_or_create_def assms(6) cong: option.case_cong)
  have k: "RTMP_OK \<noteq> RTMP_NEED_READ_MORE" "RTMP_OK = 0" by (simp_all add: rtmp_codes)
  have "ReadChunkBody ?s = Some (RTMP_OK, ucast csid, after_chunk fmt csid c2 r2 s)"
    unfolding ReadChunkBody_def f by (simp add: assms(7,8) k(1) put_stream_def after_chunk_def)
  then show ?thesis
    using assms(4) by (simp add: ReadChunkStream_def ReadFmtCsid_basic [OF assms(1-3,5)] k(2))
qed

lemma read_first_chunk:
  assumes "2 \<le> csid" "csid < 64" "\<not> fmt_ready s" "ts < 0xffffff" "length input < 2 ^ 24"
    "\<And>c. cs_map s (ucast csid) = Some c \<Longrightarrow> idle_stream c"
    "recv_buffer s = basic_byte 0 csid # header0 ts (of_nat (length input)) tid sid
                       @ take (unat (sess_chunk_size s)) input @ r"
  obtains c where "ReadChunkStream s = Some (RTMP_OK, ucast csid, after_chunk 0 csid c r s)"
    "receiving ts tid sid input (min (unat (sess_chunk_size s)) (length input)) c"
proof -
  let ?len = "of_nat (length input) :: u32"
  let ?c = "case cs_map s (ucast csid) of None \<Rightarrow> new_ChunkStream 0 csid (sess_chunk_size s)
            | Some c \<Rightarrow> c\<lparr>chunk_size := sess_chunk_size s\<rparr>"
  have idle: "idle_stream ?c" and n: "chunk_size ?c = sess_chunk_size s"
    using assms(6) by (auto simp: idle_new idle_chunk_size split: option.split)
  have u: "unat ?len = length input" using assms(5) by (simp add: unat_of_nat)
  then have u': "uint ?len = int (length input)" by (metis of_nat_unat)
  have l: "unat ?len < 2 ^ 24" using u assms(5) by simp
  let ?c1 = "?c\<lparr>cs_fmt := 0, cs_csid := csid, timestamp32 := ts, timestamp_delta := 0,
            msg_len := ?len, type_id := tid, msg_stream_id := sid, remain := uint ?len,
            msg_count := 0, phase := CHUNK_STREAM_PHASE_PAYLOAD\<rparr>"
  have h: "ReadMessageHeader 0 csid ?c (header0 ts ?len tid sid
      @ take (unat (sess_chunk_size s)) input @ r)
    = Some (RTMP_OK, ?c1, take (unat (sess_chunk_size s)) input @ r)"
    by (rule read_header0 [OF assms(4) l idle])
  note p = read_payload [of ?c1 "take (unat (sess_chunk_size s)) input" input r]
  have "ReadMessagePayload ?c1 (take (unat (sess_chunk_size s)) input @ r) =
    Some (RTMP_OK, ?c1\<lparr>require_len := int (length (take (unat (sess_chunk_size s)) input)),
       chunk_data := chunk_data ?c1 @ take (unat (sess_chunk_size s)) input,
       remain := int (length input) - int (length (take (unat (sess_chunk_size s)) input)),
       msg_count := msg_count ?c1 + 1,
       chunk_ready := (if length input \<le> unat (chunk_size ?c1) then True else chunk_ready ?c1),
       phase := CHUNK_STREAM_PHASE_HEADER\<rparr>, r)"
    by (rule p) (simp_all add: n u')
  from ReadChunkStream_by_parts [OF assms(1,2) _ assms(3,7) refl h this]
  show thesis
    by (rule that, simp) (use idle n in \<open>simp add: receiving_def idle_stream_def min_def\<close>)
qed

lemma read_next_chunk:
  assumes "2 \<le> csid" "csid < 64" "\<not> fmt_ready s" "k < length input"
    "cs_map s (ucast csid) = Some c0" "receiving ts tid sid input k c0"
    "recv_buffer s = basic_byte 3 csid # take (unat (sess_chunk_size s)) (drop k input) @ r"
  obtains c where "ReadChunkStream s = Some (RTMP_OK, ucast csid, after_chunk 3 csid c r s)"
    "receiving ts tid sid input (min (k + unat (sess_chunk_size s)) (length input)) c"
proof -
  let ?n = "unat (sess_chunk_size s)"
  let ?p = "take ?n (drop k input)"
  let ?c = "c0\<lparr>chunk_size := sess_chunk_size s\<rparr>"
  let ?c1 = "?c\<lparr>cs_fmt := 3, cs_csid := csid, msg_count := 0, phase := CHUNK_STREAM_PHASE_PAYLOAD\<rparr>"
  have rcv: "receiving ts tid sid input k ?c" using assms(6) by (rule receiving_chunk_size)
  then have st: "phase ?c = CHUNK_STREAM_PHASE_HEADER" "\<not> ext_ts_flag ?c"
      "remain ?c = int (length (drop k input))" "chunk_data ?c = take k input" "\<not> chunk_ready ?c"
    using assms(4) by (simp_all add: receiving_def of_nat_diff)
  then have "remain ?c \<noteq> 0" using assms(4) by simp
  then have h: "ReadMessageHeader 3 csid ?c (?p @ r) = Some (RTMP_OK, ?c1, ?p @ r)"
    using st by (simp add: ReadMessageHeader_def ReadMsgFormat3_def)
  have "ReadMessagePayload ?c1 (?p @ r) =
    Some (RTMP_OK, ?c1\<lparr>require_len := int (length ?p), chunk_data := chunk_data ?c1 @ ?p,
       remain := int (length (drop k input)) - int (length ?p), msg_count := msg_count ?c1 + 1,
       chunk_ready := (if length (drop k input) \<le> unat (chunk_size ?c1) then True else chunk_ready ?c1),
       phase := CHUNK_STREAM_PHASE_HEADER\<rparr>, r)"
    by (rule read_payload) (use st in simp_all)
  note step = ReadChunkStream_by_parts [OF assms(1,2) _ assms(3,7) _ h this]
  have d: "take k input @ ?p = take (min (k + ?n) (length input)) input"
    by (simp add: take_add min_def)
  show thesis
    by (rule that [OF step])
       (use rcv st d assms(4,5) in \<open>auto simp: receiving_def min_def of_nat_diff\<close>)
qed

lemma NextMessage_tail:
  assumes "2 \<le> csid" "csid < 64"
  shows "\<not> fmt_ready s \<Longrightarrow> 0 < unat (sess_chunk_size s) \<Longrightarrow> k < length input \<Longrightarrow>
    cs_map s (ucast csid) = Some c0 \<Longrightarrow> receiving ts tid sid input k c0 \<Longrightarrow>
    recv_buffer s = concat (map (\<lambda>p. basic_byte 3 csid # p)
                             (pieces (unat (sess_chunk_size s)) (drop k input))) @ r \<Longrightarrow>
    \<exists>c. NextMessage s = Some (RTMP_OK, ucast csid, after_chunk 3 csid c r s) \<and>
        receiving ts tid sid input (length input) c"
proof (induction "length input - k" arbitrary: s k c0 rule: less_induct)
  case less
  let ?n = "unat (sess_chunk_size s)"
  let ?k = "min (k + ?n) (length input)"
  let ?rest = "concat (map (\<lambda>p. basic_byte 3 csid # p) (pieces ?n (drop (k + ?n) input))) @ r"
  have "recv_buffer s = basic_byte 3 csid # take ?n (drop k input) @ ?rest"
    using less.prems(2,3,6) by (simp add: pieces_step add.commute)
  from read_next_chunk [OF assms less.prems(1,3,4,5) this] obtain c where
    c: "ReadChunkStream s = Some (RTMP_OK, ucast csid, after_chunk 3 csid c ?rest s)"
      "receiving ts tid sid input ?k c" .
  show ?case
  proof (cases "length input \<le> k + ?n")
    case True
    then have "?rest = r" "?k = length input" by simp_all
    moreover from c(2) True have "chunk_ready c" by (simp add: receiving_def)
    ultimately show ?thesis
      using c by (subst NextMessage.simps) (auto simp: stream_ready_def IsReady_def rtmp_codes)
  next
    case False
    let ?s = "after_chunk 3 csid c ?rest s"
    from False c(2) have nr: "\<not> stream_ready (ucast csid) ?s"
      by (simp add: stream_ready_def IsReady_def receiving_def)
    have ne: "?rest \<noteq> []" using False less.prems(2) by (simp add: pieces_step)
    from nr ne c(1) have n: "NextMessage s = NextMessage ?s"
      by (subst NextMessage.simps) (simp add: rtmp_codes)
    have "\<exists>c'. NextMessage ?s = Some (RTMP_OK, ucast csid, after_chunk 3 csid c' r ?s) \<and>
        receiving ts tid sid input (length input) c'"
      by (rule less.hyps [of "k + ?n" ?s c]) (use less.prems c False in \<open>simp_all add: min_def\<close>)
    then show ?thesis unfolding n by simp
  qed
qed

text \<open>The whole message, as the loop of the sessions sees it.\<close>

lemma NextMessage_written:
  assumes "2 \<le> csid" "csid < 64" "\<not> fmt_ready s" "ts < 0xffffff"
    "0 < length input" "length input < 2 ^ 24" "0 < unat (sess_chunk_size s)"
    "\<And>c. cs_map s (ucast csid) = Some c \<Longrightarrow> idle_stream c"
    "recv_buffer s = concat (chunks_of csid ts tid sid (unat (sess_chunk_size s)) input) @ r"
  shows "\<exists>f c. NextMessage s = Some (RTMP_OK, ucast csid, after_chunk f csid c r s) \<and> f < 4 \<and>
        receiving ts tid sid input (length input) c"
proof -
  let ?n = "unat (sess_chunk_size s)"
  let ?k = "min ?n (length input)"
  let ?rest = "concat (map (\<lambda>p. basic_byte 3 csid # p) (pieces ?n (drop ?n input))) @ r"
  have "recv_buffer s = basic_byte 0 csid # header0 ts (of_nat (length input)) tid sid
                          @ take ?n input @ ?rest"
    by (simp add: assms(9) chunks_of_def)
  from read_first_chunk [OF assms(1-4,6,8) this] obtain c where
    c: "ReadChunkStream s = Some (RTMP_OK, ucast csid, after_chunk 0 csid c ?rest s)"
      "receiving ts tid sid input ?k c" by blast
  show ?thesis
  proof (cases "length input \<le> ?n")
    case True
    then have "?rest = r" "?k = length input" by simp_all
    moreover from c(2) True have "chunk_ready c" by (simp add: receiving_def)
    ultimately show ?thesis
      using c by (subst NextMessage.simps)
        (auto simp: stream_ready_def IsReady_def rtmp_codes intro!: exI [of _ 0])
  next
    case False
    let ?s = "after_chunk 0 csid c ?rest s"
    from False c(2) have nr: "\<not> stream_ready (ucast csid) ?s"
      by (simp add: stream_ready_def IsReady_def receiving_def)
    have ne: "?rest \<noteq> []" using False assms(7) by (simp add: pieces_step)
    from nr ne c(1) have n: "NextMessage s = NextMessage ?s"
      by (subst NextMessage.simps) (simp add: rtmp_codes)
    have "\<exists>c'. NextMessage ?s = Some (RTMP_OK, ucast csid, after_chunk 3 csid c' r ?s) \<and>
        receiving ts tid sid input (length input) c'"
      by (rule NextMessage_tail [OF assms(1,2), of ?s ?n input c])
         (use assms(7) c False in \<open>simp_all add: min_def\<close>)
    then show ?thesis unfolding n by (auto intro!: exI [of _ 3])
  qed
qed

lemma written_message_read:
  assumes "WriteDataByChunkStream csid ts tid sid (sess_chunk_size s) input = Some chunks"
    and "recv_buffer s = concat chunks @ r" and "\<not> fmt_ready s"
    and "2 \<le> csid" and "csid < 64" and "ts < 0xffffff" and "0 < length input" and "length input < 2 ^ 24"
    and "\<And>c. cs_map s (ucast csid) = Some c \<Longrightarrow> idle_stream c"
  shows "\<exists>s' c. NextMessage s = Some (RTMP_OK, ucast csid, s') \<and> cs_map s' (ucast csid) = Some c \<and>
    chunk_data c = input \<and> timestamp32 c = ts \<and> type_id c = tid \<and> msg_stream_id c = sid \<and>
    IsReady c \<and> recv_buffer s' = r \<and> \<not> fmt_ready s'"
proof -
  have n: "0 < sess_chunk_size s"
    using assms(1) by (auto simp: WriteDataByChunkStream_def word_neq_0_conv split: if_splits)
  then have n': "0 < unat (sess_chunk_size s)" by (simp add: word_less_nat_alt)
  from assms(1,5,7) n have "recv_buffer s = concat (chunks_of csid ts tid sid (unat (sess_chunk_size s)) input) @ r"
    by (simp add: WriteDataByChunkStream_pieces assms(2))
  from NextMessage_written [OF assms(4,5,3,6,7,8) n' assms(9) this]
  show ?thesis by (auto simp: receiving_def IsReady_def)
qed

section \<open>Resuming a read\<close>

text \<open>\<open>OnRead\<close> appends what the connection delivers to the receive buffer.\<close>

definition feed :: "bytes \<Rightarrow> rtmp_session \<Rightarrow> rtmp_session" where
  "feed d s = s\<lparr>recv_buffer := recv_buffer s @ d\<rparr>"

lemma feed_simps [simp]:
  "recv_buffer (feed d s) = recv_buffer s @ d" "fmt_ready (feed d s) = fmt_ready s"
  "sess_fmt (feed d s) = sess_fmt s" "sess_csid (feed d s) = sess_csid s"
  "cs_map (feed d s) = cs_map s" "sess_chunk_size (feed d s) = sess_chunk_size s"
  "find_or_create (feed d s) = find_or_create s"
  by (simp_all add: feed_def find_or_create_def cong: option.case_cong)

lemma put_stream_put_stream [simp]: "put_stream c b (put_stream c' b' s) = put_stream c b s"
  by (simp add: put_stream_def)

lemma put_stream_feed [simp]: "put_stream c b (feed d s) = put_stream c b s"
  by (simp add: put_stream_def feed_def)

lemma find_or_create_put_stream [simp]:
  "chunk_size c = sess_chunk_size s \<Longrightarrow> find_or_create (put_stream c b s) = c"
  by (simp add: find_or_create_def put_stream_def)

lemma chunk_size_find_or_create [simp]: "chunk_size (find_or_create s) = sess_chunk_size s"
  by (simp add: find_or_create_def split: option.split)

lemma ReadMessagePayload_chunk_size:
  "ReadMessagePayload c buf = Some (ret, c', b) \<Longrightarrow> chunk_size c' = chunk_size c"
  by (auto simp: ReadMessagePayload_def Let_def bind_Some_iff split: if_split_asm)

lemma ReadChunkBody_resume:
  assumes "ReadChunkBody s = Some (RTMP_NEED_READ_MORE, key, s')"
  shows "ReadChunkBody (feed d s') = ReadChunkBody (feed d s)"
proof -
  let ?H = "ReadMessageHeader (sess_fmt s) (sess_csid s) (find_or_create s) (recv_buffer s)"
  from assms obtain r where "?H = Some r" by (auto simp: ReadChunkBody_def bind_Some_iff)
  then have "reads ?H (recv_buffer s)" by (rule ReadMessageHeader_Some)
  then show ?thesis
  proof (cases rule: reads_cases)
    case (more c)
    then have s': "s' = put_stream c (recv_buffer s) s"
      using assms by (simp add: ReadChunkBody_def rtmp_codes)
    from ReadMessageHeader_chunk_size [OF more] have n: "chunk_size c = sess_chunk_size s" by simp
    have [simp]: "feed d (put_stream c (recv_buffer s) s) = put_stream c (recv_buffer s @ d) s"
      by (simp add: feed_def put_stream_def)
    show ?thesis
      unfolding s' ReadChunkBody_def put_stream_feed put_stream_put_stream
      by (simp add: n ReadMessageHeader_more [OF more])
  next
    case (ok c k)
    define b where "b = drop k (recv_buffer s)"
    note hdr = ok [folded b_def]
    from ReadMessagePayload_reads [of c b] show ?thesis
    proof (cases rule: reads_cases)
      case pay: (ok c' j)
      then show ?thesis using assms hdr by (simp add: ReadChunkBody_def rtmp_codes)
    next
      case pay: (more c')
      then have s': "s' = put_stream c' b s"
        using assms hdr by (simp add: ReadChunkBody_def rtmp_codes)
      note m = ReadMessagePayload_more [OF pay, of d]
      from ReadMessageHeader_chunk_size [OF hdr] ReadMessagePayload_chunk_size [OF pay]
      have n: "chunk_size c' = sess_chunk_size s" by simp
      have f: "feed d (put_stream c' b s) = put_stream c' (b @ d) s"
        by (simp add: feed_def put_stream_def)
      have h: "ReadMessageHeader (sess_fmt s) (sess_csid s) c' (b @ d) = Some (RTMP_OK, c', b @ d)"
        using m by (simp add: ReadMessageHeader_def)
      show ?thesis
        unfolding s' f ReadChunkBody_def put_stream_feed put_stream_put_stream put_stream_simps
          feed_simps find_or_create_put_stream [OF n] h ReadMessageHeader_ok [OF hdr]
        by (simp only: conjunct1 [OF m] bind.bind_lunit prod.case less_irrefl simp_thms if_False
              rtmp_codes zero_neq_one)
    qed
  qed
qed

lemma ReadFmtCsid_feed_ok:
  "ReadFmtCsid s = (RTMP_OK, s') \<Longrightarrow> ReadFmtCsid (feed d s) = (RTMP_OK, feed d s')"
  by (auto simp: ReadFmtCsid_def Let_def feed_def rtmp_codes split: list.splits if_splits)

lemma ReadChunkStream_resume:
  assumes "ReadChunkStream s = Some (RTMP_NEED_READ_MORE, key, s')"
    "fmt_ready s' \<or> recv_buffer s = []"
  shows "ReadChunkStream (feed d s') = ReadChunkStream (feed d s)"
proof (cases "fmt_ready s")
  case True
  with assms(1) have b: "ReadChunkBody s = Some (RTMP_NEED_READ_MORE, key, s')"
    by (simp add: ReadChunkStream_def)
  then have "fmt_ready s'" using True
    by (auto simp: ReadChunkBody_def bind_Some_iff rtmp_codes split: if_splits)
  with True show ?thesis by (simp add: ReadChunkStream_def ReadChunkBody_resume [OF b])
next
  case False
  show ?thesis
  proof (cases s rule: ReadFmtCsid_cases)
    case (more s0 k)
    with assms(1) False have "s' = s0" by (simp add: ReadChunkStream_def rtmp_codes)
    with more assms(2) False have "s' = s" by auto
    then show ?thesis by simp
  next
    case (ok s0 k)
    let ?s = "s0\<lparr>fmt_ready := True\<rparr>"
    from assms(1) ok False have b: "ReadChunkBody ?s = Some (RTMP_NEED_READ_MORE, key, s')"
      by (simp add: ReadChunkStream_def rtmp_codes)
    then have r: "fmt_ready s'"
      by (auto simp: ReadChunkBody_def bind_Some_iff rtmp_codes split: if_splits)
    have "(feed d s0)\<lparr>fmt_ready := True\<rparr> = feed d ?s" by (simp add: feed_def)
    then have "ReadChunkStream (feed d s) = ReadChunkBody (feed d ?s)"
      using ReadFmtCsid_feed_ok [OF ok(1), of d] False
      by (simp add: ReadChunkStream_def rtmp_codes)
    with r show ?thesis by (simp add: ReadChunkStream_def ReadChunkBody_resume [OF b])
  qed
qed

lemma ReadChunkBody_okD:
  assumes "ReadChunkBody s = Some (RTMP_OK, key, s')"
  obtains c buf c' buf' where
    "ReadMessageHeader (sess_fmt s) (sess_csid s) (find_or_create s) (recv_buffer s) = Some (RTMP_OK, c, buf)"
    "ReadMessagePayload c buf = Some (RTMP_OK, c', buf')"
    "s' = (put_stream c' buf' s)\<lparr>fmt_ready := False\<rparr>" "key = ucast (sess_csid s)"
proof -
  let ?H = "ReadMessageHeader (sess_fmt s) (sess_csid s) (find_or_create s) (recv_buffer s)"
  from assms obtain r where "?H = Some r" by (auto simp: ReadChunkBody_def bind_Some_iff)
  then have "reads ?H (recv_buffer s)" by (rule ReadMessageHeader_Some)
  then show thesis
  proof (cases rule: reads_cases)
    case (ok c k)
    from ReadMessagePayload_reads [of c "drop k (recv_buffer s)"] show thesis
      by (cases rule: reads_cases)
         (use assms ok that in \<open>auto simp: ReadChunkBody_def rtmp_codes\<close>)
  next
    case (more c)
    then show thesis using assms by (simp add: ReadChunkBody_def rtmp_codes)
  qed
qed

lemma ReadChunkBody_feed_ok:
  assumes "ReadChunkBody s = Some (RTMP_OK, key, s')"
  shows "ReadChunkBody (feed d s) = Some (RTMP_OK, key, feed d s')"
  using assms
proof (cases rule: ReadChunkBody_okD)
  case (1 c buf c' buf')
  have "feed d s' = (put_stream c' (buf' @ d) s)\<lparr>fmt_ready := False\<rparr>"
    by (simp add: 1(3) feed_def put_stream_def)
  moreover have "ReadChunkBody (feed d s) =
      Some (RTMP_OK, key, (put_stream c' (buf' @ d) s)\<lparr>fmt_ready := False\<rparr>)"
    unfolding ReadChunkBody_def feed_simps put_stream_feed ReadMessageHeader_ok [OF 1(1)] bind.bind_lunit
      prod.case ReadMessagePayload_ok [OF 1(2)] 1(4)
    by (simp add: rtmp_codes)
  ultimately show ?thesis by simp
qed

lemma ReadChunkStream_feed_ok:
  assumes "ReadChunkStream s = Some (RTMP_OK, key, s')"
  shows "ReadChunkStream (feed d s) = Some (RTMP_OK, key, feed d s')"
proof (cases "fmt_ready s")
  case True
  with assms show ?thesis by (simp add: ReadChunkStream_def ReadChunkBody_feed_ok)
next
  case False
  show ?thesis
  proof (cases s rule: ReadFmtCsid_cases)
    case (more s0 k)
    with assms False show ?thesis by (simp add: ReadChunkStream_def rtmp_codes)
  next
    case (ok s0 k)
    have f: "(feed d s0)\<lparr>fmt_ready := True\<rparr> = feed d (s0\<lparr>fmt_ready := True\<rparr>)"
      by (simp add: feed_def)
    from assms ok(1) False have "ReadChunkBody (s0\<lparr>fmt_ready := True\<rparr>) = Some (RTMP_OK, key, s')"
      by (simp add: ReadChunkStream_def rtmp_codes)
    from ReadChunkBody_feed_ok [OF this, of d] ReadFmtCsid_feed_ok [OF ok(1), of d] False
    show ?thesis by (simp add: ReadChunkStream_def rtmp_codes f)
  qed
qed

text \<open>
  The one way to lose a byte: the basic header of a chunk stream id above 63 is cut after
  its first byte, and the session keeps 0 or 1 as the id.
\<close>

lemma ReadChunkStream_more_cases:
  assumes "ReadChunkStream s = Some (RTMP_NEED_READ_MORE, key, s')" "2 \<le> sess_csid s'"
  shows "fmt_ready s' \<or> recv_buffer s = []"
proof (cases "fmt_ready s")
  case True
  with assms(1) have "ReadChunkBody s = Some (RTMP_NEED_READ_MORE, key, s')"
    by (simp add: ReadChunkStream_def)
  with True show ?thesis
    by (auto simp: ReadChunkBody_def bind_Some_iff rtmp_codes split: if_splits)
next
  case False
  show ?thesis
  proof (cases s rule: ReadFmtCsid_cases)
    case (more s0 k)
    with assms(1) False have "s' = s0" by (simp add: ReadChunkStream_def rtmp_codes)
    with more(1) assms(2) show ?thesis
      by (auto simp: ReadFmtCsid_def Let_def rtmp_codes word_le_nat_alt split: list.splits if_splits)
  next
    case (ok s0 k)
    with assms(1) False
    have "ReadChunkBody (s0\<lparr>fmt_ready := True\<rparr>) = Some (RTMP_NEED_READ_MORE, key, s')"
      by (simp add: ReadChunkStream_def rtmp_codes)
    then show ?thesis
      by (auto simp: ReadChunkBody_def bind_Some_iff rtmp_codes split: if_splits)
  qed
qed

lemma ReadChunkBody_codes:
  assumes "ReadChunkBody s = Some (ret, key, s')" shows "ret = RTMP_OK \<or> ret = RTMP_NEED_READ_MORE"
proof -
  let ?H = "ReadMessageHeader (sess_fmt s) (sess_csid s) (find_or_create s) (recv_buffer s)"
  from assms obtain r where "?H = Some r" by (auto simp: ReadChunkBody_def bind_Some_iff)
  then have "reads ?H (recv_buffer s)" by (rule ReadMessageHeader_Some)
  then show ?thesis
  proof (cases rule: reads_cases)
    case (ok c k)
    from ReadMessagePayload_reads [of c "drop k (recv_buffer s)"] show ?thesis
      by (cases rule: reads_cases) (use assms ok in \<open>auto simp: ReadChunkBody_def rtmp_codes\<close>)
  next
    case (more c)
    then show ?thesis using assms by (simp add: ReadChunkBody_def rtmp_codes)
  qed
qed

lemma ReadChunkStream_codes:
  assumes "ReadChunkStream s = Some (ret, key, s')" shows "ret = RTMP_OK \<or> ret = RTMP_NEED_READ_MORE"
  using assms ReadChunkBody_codes
  by (cases s rule: ReadFmtCsid_cases)
     (auto simp: ReadChunkStream_def rtmp_codes split: if_splits)

lemma NextMessage_resume:
  "NextMessage s = Some (RTMP_NEED_READ_MORE, key, s') \<Longrightarrow> 2 \<le> sess_csid s' \<Longrightarrow> d \<noteq> [] \<Longrightarrow>
   NextMessage (feed d s') = NextMessage (feed d s)"
proof (induction s rule: NextMessage.induct)
  case (1 s)
  from 1(2) obtain ret k s1 where r: "ReadChunkStream s = Some (ret, k, s1)"
    by (subst (asm) NextMessage.simps) (auto split: option.splits)
  show ?case
  proof (cases "ret < RTMP_OK \<or> ret = RTMP_NEED_READ_MORE")
    case True
    with 1(2) r have "ret = RTMP_NEED_READ_MORE" "s1 = s'"
      by (subst (asm) NextMessage.simps; auto simp: rtmp_codes)+
    with r have m: "ReadChunkStream s = Some (RTMP_NEED_READ_MORE, k, s')" by simp
    from ReadChunkStream_resume [OF m ReadChunkStream_more_cases [OF m 1(3)]]
    show ?thesis by (subst (1 2) NextMessage.simps) simp
  next
    case False
    then have "ret = RTMP_OK" using ReadChunkStream_codes [OF r] by blast
    with r have ok: "ReadChunkStream (feed d s) = Some (RTMP_OK, k, feed d s1)"
      by (simp add: ReadChunkStream_feed_ok)
    from 1(2) r False have nr: "\<not> stream_ready k s1"
      by (subst (asm) NextMessage.simps) (auto simp: rtmp_codes split: if_splits)
    then have "\<not> stream_ready k (feed d s1)" by (simp add: stream_ready_def)
    with ok 1(4) have n: "NextMessage (feed d s) = NextMessage (feed d s1)"
      by (subst NextMessage.simps) (simp add: rtmp_codes)
    show ?thesis
    proof (cases "recv_buffer s1 = []")
      case True
      with 1(2) r nr False have "s' = s1" by (subst (asm) NextMessage.simps) auto
      with n show ?thesis by simp
    next
      case ne: False
      with 1(2) r nr False have "NextMessage s1 = Some (RTMP_NEED_READ_MORE, key, s')"
        by (subst (asm) NextMessage.simps) auto
      from 1(1) [OF r refl refl False _ _ this 1(3,4)] nr ne n show ?thesis by simp
    qed
  qed
qed

section \<open>The properties of the session's reader\<close>

text \<open>
  C3: a message that is written in chunks of any nonzero size on a chunk stream id that fits
  one byte, with a timestamp that needs no extension, is read back whole from the receive
  buffer, with its timestamp, type and message stream id, and the bytes after it are left.
\<close>

theorem RTMP_message_roundtrip:
  assumes "WriteDataByChunkStream csid ts tid sid (sess_chunk_size s) input = Some chunks"
    and "recv_buffer s = concat chunks @ r" and "\<not> fmt_ready s"
    and "2 \<le> csid" and "csid < 64" and "ts < 0xffffff" and "0 < length input" and "length input < 2 ^ 24"
    and "\<And>c. cs_map s (ucast csid) = Some c \<Longrightarrow> idle_stream c"
  shows "\<exists>s' c. NextMessage s = Some (RTMP_OK, ucast csid, s') \<and> cs_map s' (ucast csid) = Some c \<and>
    chunk_data c = input \<and> timestamp32 c = ts \<and> type_id c = tid \<and> msg_stream_id c = sid \<and>
    IsReady c \<and> recv_buffer s' = r \<and> \<not> fmt_ready s'"
  using assms by (rule written_message_read)

theorem RTMP_message_roundtrip_witness:
  "\<exists>chunks s'. WriteDataByChunkStream 6 1000 9 1 2 [10, 20, 30, 40, 50] = Some chunks \<and> length chunks = 3 \<and>
     NextMessage (new_RtmpSessionBase\<lparr>sess_chunk_size := 2, recv_buffer := concat chunks @ [7]\<rparr>) =
       Some (RTMP_OK, 6, s') \<and> recv_buffer s' = [7]"
proof -
  obtain chunks where w: "WriteDataByChunkStream 6 1000 9 1 2 [10, 20, 30, 40, 50] = Some chunks"
    and l: "length chunks = 3"
    by (simp add: WriteDataByChunkStream_def)
  let ?s = "new_RtmpSessionBase\<lparr>sess_chunk_size := 2, recv_buffer := concat chunks @ [7]\<rparr>"
  have "\<exists>s' c. NextMessage ?s = Some (RTMP_OK, ucast (6 :: u16), s') \<and> cs_map s' (ucast (6 :: u16)) = Some c \<and>
    chunk_data c = [10, 20, 30, 40, 50] \<and> timestamp32 c = 1000 \<and> type_id c = 9 \<and> msg_stream_id c = 1 \<and>
    IsReady c \<and> recv_buffer s' = [7] \<and> \<not> fmt_ready s'"
    by (rule RTMP_message_roundtrip) (use w in \<open>simp_all add: new_RtmpSessionBase_def\<close>)
  with w l show ?thesis by auto
qed

text \<open>
  C4: the reader does not depend on how the connection cuts the stream: after it has asked
  for more bytes, feeding them and reading on gives what reading everything at once gives,
  unless the cut was inside a basic header (then the session's id is below 2).
\<close>

theorem RTMP_read_resumes:
  assumes "NextMessage s = Some (RTMP_NEED_READ_MORE, key, s')" and "2 \<le> sess_csid s'" and "d \<noteq> []"
  shows "NextMessage (feed d s') = NextMessage (feed d s)"
  using assms by (rule NextMessage_resume)

theorem RTMP_read_resumes_witness:
  "\<exists>s'. NextMessage (feed [0x06, 0, 0] new_RtmpSessionBase) = Some (RTMP_NEED_READ_MORE, 6, s') \<and>
     NextMessage (feed [0, 0] s') = NextMessage (feed [0, 0] (feed [0x06, 0, 0] new_RtmpSessionBase))"
proof -
  let ?s = "feed [0x06, 0, 0] new_RtmpSessionBase"
  have "\<exists>s'. NextMessage ?s = Some (RTMP_NEED_READ_MORE, 6, s') \<and> 2 \<le> sess_csid s'"
    by (subst NextMessage.simps)
       (simp add: feed_def new_RtmpSessionBase_def ReadChunkStream_def ReadFmtCsid_def ReadChunkBody_def
          find_or_create_def ReadMessageHeader_def ReadMsgFormat0_def new_ChunkStream_def put_stream_def
          rtmp_codes)
  then obtain s' where m: "NextMessage ?s = Some (RTMP_NEED_READ_MORE, 6, s')" "2 \<le> sess_csid s'"
    by blast
  from RTMP_read_resumes [OF m, of "[0, 0]"] m(1) show ?thesis by auto
qed

text \<open>
  A basic header of two bytes that the connection cuts after its first byte is misread:
  read at once it gives the id 69, in two pieces its second byte is taken for a basic
  header of its own and gives the id 5.
\<close>

theorem torn_basic_header_misread:
  "\<exists>s1 s2 s3. ReadFmtCsid (feed [0x00, 0x05] new_RtmpSessionBase) = (RTMP_OK, s1) \<and> sess_csid s1 = 69 \<and>
     ReadFmtCsid (feed [0x00] new_RtmpSessionBase) = (RTMP_NEED_READ_MORE, s2) \<and>
     ReadFmtCsid (feed [0x05] s2) = (RTMP_OK, s3) \<and> sess_csid s3 = 5"
  by (simp add: ReadFmtCsid_def feed_def new_RtmpSessionBase_def Let_def)

text \<open>
  C5: reading always ends: on every session whose format has two bits the loop returns, and leaves
  such a session, either asking for more bytes or with a complete message; with a message it has consumed bytes of the
  buffer or, on a session that has read a basic header already, has cleared that flag (a message whose bytes were all consumed before,
  such as one without payload, is returned without consuming more); so it does not return messages for ever without input.
\<close>

theorem NextMessage_returns:
  assumes "sess_inv s"
  shows "\<exists>ret key s'. NextMessage s = Some (ret, key, s') \<and> sess_inv s' \<and>
     (ret = RTMP_NEED_READ_MORE \<or> ret = RTMP_OK \<and> stream_ready key s' \<and>
       (length (recv_buffer s') < length (recv_buffer s) \<or>
        length (recv_buffer s') = length (recv_buffer s) \<and> fmt_ready s \<and> \<not> fmt_ready s'))"
proof -
  have "length (recv_buffer s') < length (recv_buffer s) \<or>
    length (recv_buffer s') = length (recv_buffer s) \<and> fmt_ready s \<and> \<not> fmt_ready s'"
    if "pending s' < pending s" for s'
    using that by (auto simp: pending_def split: if_splits)
  with NextMessage_outcome [OF assms] show ?thesis by blast
qed

theorem NextMessage_returns_witness:
  "\<exists>ret key s'. NextMessage (feed [3, 0, 0] new_RtmpSessionBase) = Some (ret, key, s')"
proof -
  have "sess_inv (feed [3, 0, 0] new_RtmpSessionBase)"
    by (simp add: sess_inv_def new_RtmpSessionBase_def)
  from NextMessage_returns [OF this] show ?thesis by blast
qed

text \<open>
  No chunk stream id above 63 survives the wire between two ends of this program: the
  writer stores the id, and the reader adds 64 to the bytes of a two-byte id and does not
  weigh the second byte of a three-byte one.
\<close>

theorem csid_above_63_changes:
  assumes "64 \<le> csid"
    and "recv_buffer s = chunk_all (snd (GenData payload (new_ChunkStream fmt csid csize)))"
  shows "\<exists>s'. ReadFmtCsid s = (RTMP_OK, s') \<and> sess_csid s' \<noteq> csid"
proof -
  let ?c = "unat csid"
  have c: "64 \<le> ?c" "?c < 65536" using assms(1) by (simp_all add: word_le_nat_alt)
  have mask0: "(push_bit 6 fmt AND 0xc0) AND 0x3f = (0 :: u8)"
    by (simp add: and.assoc)
  have "((push_bit 6 fmt AND 0xc0) OR 1) AND 0x3f = (push_bit 6 fmt AND 0xc0) AND 0x3f OR (1 AND 0x3f :: u8)"
    by (rule word_ao_dist)
  then have mask1: "((push_bit 6 fmt AND 0xc0) OR 1) AND 0x3f = (1 :: u8)"
    by (simp only: mask0) simp
  have not_small: "\<not> csid < 64" using assms(1) by simp
  show ?thesis
  proof (cases "?c < 320")
    case True
    then have "uint csid < 320" by (metis of_nat_less_iff of_nat_numeral of_nat_unat)
    then obtain r where r: "recv_buffer s = (push_bit 6 fmt AND 0xc0) # ucast csid # r"
      using assms(2) not_small by (simp add: GenData_def new_ChunkStream_def Let_def)
    have "unat (64 + ucast (ucast csid :: u8) :: u16) = 64 + ?c mod 256"
      by (subst unat_plus_small) (simp_all add: unat_ucast [of csid])
    moreover have "64 + m mod 256 \<noteq> m" for m :: nat
    proof
      assume "64 + m mod 256 = m"
      moreover have "m = 256 * (m div 256) + m mod 256" by simp
      ultimately have "64 = 256 * (m div 256)" by linarith
      moreover have "64 \<noteq> 256 * k" for k :: nat by presburger
      ultimately show False by blast
    qed
    ultimately have "64 + ucast (ucast csid :: u8) \<noteq> csid" by metis
    then show ?thesis using r mask0 by (simp add: ReadFmtCsid_def Let_def)
  next
    case False
    then have "\<not> uint csid < 320" by (metis of_nat_less_iff of_nat_numeral of_nat_unat)
    then obtain r where r: "recv_buffer s = ((push_bit 6 fmt AND 0xc0) OR 1) # of_nat (?c div 256) # ucast csid # r"
      using assms(2) not_small
      by (simp add: GenData_def new_ChunkStream_def Let_def Write2Bytes_def eval_bits)
    let ?x = "64 + ucast (of_nat (?c div 256) :: u8) + ucast (ucast csid :: u8) :: u16"
    have "?c div 256 < 256" by (rule less_mult_imp_div_less) simp
    then have u: "unat (of_nat (?c div 256) :: u8) = ?c div 256" "unat (ucast csid :: u8) = ?c mod 256"
      by (simp_all add: unat_of_nat unat_ucast [of csid])
    have "unat ?x = 64 + ?c div 256 + ?c mod 256"
      using \<open>?c div 256 < 256\<close> mod_less_divisor [of 256 ?c]
      by (subst unat_plus_small; (subst unat_plus_small)?) (simp_all add: u del: mod_less_divisor)
    moreover have "64 + m div 256 + m mod 256 \<noteq> m" for m :: nat
    proof
      assume "64 + m div 256 + m mod 256 = m"
      moreover have "m = 256 * (m div 256) + m mod 256" by simp
      ultimately have "64 = 255 * (m div 256)" by linarith
      moreover have "64 \<noteq> 255 * k" for k :: nat by presburger
      ultimately show False by blast
    qed
    ultimately have "?x \<noteq> csid" by metis
    then show ?thesis using r mask1 by (simp add: ReadFmtCsid_def Let_def)
  qed
qed

theorem csid_above_63_changes_witness:
  "\<exists>s'. ReadFmtCsid (feed (chunk_all (snd (GenData [1] (new_ChunkStream 0 100 128)))) new_RtmpSessionBase)
     = (RTMP_OK, s') \<and> sess_csid s' \<noteq> 100"
  by (rule csid_above_63_changes [of 100 _ "[1]" 0 128]) (simp_all add: new_RtmpSessionBase_def)

lemma Write3Bytes_mask: "Write3Bytes (v AND 0xffffff) = Write3Bytes v"
proof -
  have "unat (v AND mask 24) = unat v mod 2 ^ 24" by (rule unat_mask_mod)
  then have "unat (v AND 0xffffff) = unat v mod 2 ^ 24" by (simp add: mask_eq_exp_minus_1)
  then show ?thesis by (simp add: Write3Bytes_def be_bytes_inject)
qed

text \<open>
  The writer has no extended timestamp: it sends the same bytes for a timestamp and for
  its low 24 bits, so the receiver's clock goes back to zero every 4.66 hours.
\<close>

theorem long_timestamp_truncated:
  "WriteDataByChunkStream csid ts tid sid csize input =
   WriteDataByChunkStream csid (ts AND 0xffffff) tid sid csize input"
  by (auto simp: WriteDataByChunkStream_def chunk_of_message_def GenData_def new_ChunkStream_def Let_def
        Write3Bytes_mask)

end
