(* ===== verification/FlvPub.thy ===== *)
theory FlvPub
  imports Media
begin

text \<open>
  format/flv/flv_pub.hpp: the codec bytes of the FLV format and \<open>AddFlvMediaHeader\<close>, which
  writes the 2 bytes of an audio header or the 5 bytes of a video header into the room in
  front of the packet's data.  The room is the argument \<open>head\<close>, the bytes of the buffer in
  front of the data (\<open>DataBuffer\<close> shows when \<open>ConsumeData(-n)\<close> may go back over them).  The
  lemmas give the bytes of the header and the ranges in which they read back.
\<close>

definition FLV_TAG_AUDIO :: u8 where "FLV_TAG_AUDIO = 0x08"
definition FLV_TAG_VIDEO :: u8 where "FLV_TAG_VIDEO = 0x09"
definition FLV_TAG_TYPE_META :: u8 where "FLV_TAG_TYPE_META = 0x12"
definition FLV_VIDEO_KEY_FLAG :: u8 where "FLV_VIDEO_KEY_FLAG = 0x10"
definition FLV_VIDEO_INTER_FLAG :: u8 where "FLV_VIDEO_INTER_FLAG = 0x20"
definition FLV_VIDEO_AVC_SEQHDR :: u8 where "FLV_VIDEO_AVC_SEQHDR = 0x00"
definition FLV_VIDEO_AVC_NALU :: u8 where "FLV_VIDEO_AVC_NALU = 0x01"
definition FLV_VIDEO_H264_CODEC :: u8 where "FLV_VIDEO_H264_CODEC = 0x07"
definition FLV_VIDEO_H265_CODEC :: u8 where "FLV_VIDEO_H265_CODEC = 0x0c"
definition FLV_VIDEO_VP8_CODEC :: u8 where "FLV_VIDEO_VP8_CODEC = 0x0e"
definition FLV_VIDEO_VP9_CODEC :: u8 where "FLV_VIDEO_VP9_CODEC = 0x0f"
definition FLV_AUDIO_OPUS_CODEC :: u8 where "FLV_AUDIO_OPUS_CODEC = 0x90"
definition FLV_AUDIO_AAC_CODEC :: u8 where "FLV_AUDIO_AAC_CODEC = 0xa0"

lemmas flv_codes = FLV_TAG_AUDIO_def FLV_TAG_VIDEO_def FLV_TAG_TYPE_META_def FLV_VIDEO_KEY_FLAG_def
  FLV_VIDEO_INTER_FLAG_def FLV_VIDEO_AVC_SEQHDR_def FLV_VIDEO_AVC_NALU_def FLV_VIDEO_H264_CODEC_def
  FLV_VIDEO_H265_CODEC_def FLV_VIDEO_VP8_CODEC_def FLV_VIDEO_VP9_CODEC_def FLV_AUDIO_OPUS_CODEC_def
  FLV_AUDIO_AAC_CODEC_def

text \<open>The codec byte of the audio and of the video codecs that the program writes.\<close>

definition flv_audio_codec :: "MEDIA_CODEC_TYPE \<Rightarrow> u8 option" where
  "flv_audio_codec c = (if c = MEDIA_CODEC_AAC then Some FLV_AUDIO_AAC_CODEC
     else if c = MEDIA_CODEC_OPUS then Some FLV_AUDIO_OPUS_CODEC else None)"

definition flv_video_codec :: "MEDIA_CODEC_TYPE \<Rightarrow> u8 option" where
  "flv_video_codec c = (if c = MEDIA_CODEC_H264 then Some FLV_VIDEO_H264_CODEC
     else if c = MEDIA_CODEC_H265 then Some FLV_VIDEO_H265_CODEC
     else if c = MEDIA_CODEC_VP8 then Some FLV_VIDEO_VP8_CODEC
     else if c = MEDIA_CODEC_VP9 then Some FLV_VIDEO_VP9_CODEC else None)"

definition flv_ts_delta :: "media_packet \<Rightarrow> u32" where
  "flv_ts_delta pkt = (if pts pkt > dts pkt then of_int (pts pkt - dts pkt) else 0)"

definition flv_video_bytes :: "u8 \<Rightarrow> media_packet \<Rightarrow> bytes" where
  "flv_video_bytes codec pkt =
     (let d = flv_ts_delta pkt;
          key = is_key_frame pkt \<or> is_seq_hdr pkt
      in [codec OR (if key then FLV_VIDEO_KEY_FLAG else FLV_VIDEO_INTER_FLAG),
          (if key \<and> is_seq_hdr pkt then 0x00 else 0x01),
          ucast (drop_bit 16 d AND 0xff), ucast (drop_bit 8 d AND 0xff), ucast (d AND 0xff)])"

text \<open>
  The return code and the packet with its data moved back over the room.  The codec is
  tested after the move, so a failed call leaves bytes of the room in the packet.
\<close>

definition AddFlvMediaHeader :: "bytes \<Rightarrow> media_packet \<Rightarrow> (int \<times> media_packet) option" where
  "AddFlvMediaHeader head pkt =
     (let pkt1 = pkt\<lparr>fmt_type := MEDIA_FORMAT_FLV\<rparr> in
      if av_type pkt = MEDIA_AUDIO_TYPE then
        (if length head < 2 then None
         else let room = drop (length head - 2) head in
           Some (case flv_audio_codec (codec_type pkt) of
             None \<Rightarrow> (-1, pkt1\<lparr>pkt_data := room @ pkt_data pkt\<rparr>)
           | Some c \<Rightarrow> (0, pkt1\<lparr>pkt_data := [c OR 0x0f, if is_seq_hdr pkt then 0x00 else 0x01]
                                            @ pkt_data pkt\<rparr>)))
      else if av_type pkt = MEDIA_VIDEO_TYPE then
        (if length head < 5 then None
         else let room = drop (length head - 5) head in
           Some (case flv_video_codec (codec_type pkt) of
             None \<Rightarrow> (-1, pkt1\<lparr>pkt_data := room[0 := 0] @ pkt_data pkt\<rparr>)
           | Some c \<Rightarrow> (0, pkt1\<lparr>pkt_data := flv_video_bytes c pkt @ pkt_data pkt\<rparr>)))
      else Some (0, pkt1))"

section \<open>The header's fields\<close>

lemma length_flv_video_bytes [simp, lens]: "length (flv_video_bytes c pkt) = 5"
  by (simp add: flv_video_bytes_def Let_def)

lemma byte_of_u32:
  "ucast (drop_bit 16 d) = (of_nat (unat d div 256 div 256) :: u8)"
  "ucast (drop_bit 8 d) = (of_nat (unat d div 256) :: u8)" for d :: u32
proof -
  have d: "unat (drop_bit n d) = unat d div 2 ^ n" for n
    by (simp only: unat_drop_bit_eq) (simp only: drop_bit_eq_div)
  show "ucast (drop_bit 16 d) = (of_nat (unat d div 256 div 256) :: u8)"
    by (simp only: word_eq_iff_unat unat_ucast d unat_of_nat) (simp add: div_mult2_eq [symmetric])
  show "ucast (drop_bit 8 d) = (of_nat (unat d div 256) :: u8)"
    by (simp only: word_eq_iff_unat unat_ucast d unat_of_nat) simp
qed

lemma flv_video_bytes_eq:
  "flv_video_bytes c pkt =
     [c OR (if is_key_frame pkt \<or> is_seq_hdr pkt then FLV_VIDEO_KEY_FLAG else FLV_VIDEO_INTER_FLAG),
      (if is_seq_hdr pkt then 0x00 else 0x01)] @ Write3Bytes (flv_ts_delta pkt)"
  by (simp add: flv_video_bytes_def Let_def byte_of_u32 Write3Bytes_def eval_bits)

lemma flv_video_codec_cases:
  assumes "flv_video_codec c = Some b"
  shows "(b OR FLV_VIDEO_KEY_FLAG) AND 0xf0 = FLV_VIDEO_KEY_FLAG" "(b OR FLV_VIDEO_KEY_FLAG) AND 0x0f = b"
    "(b OR FLV_VIDEO_INTER_FLAG) AND 0xf0 = FLV_VIDEO_INTER_FLAG" "(b OR FLV_VIDEO_INTER_FLAG) AND 0x0f = b"
  using assms by (auto simp: flv_video_codec_def flv_codes split: if_splits)

lemma flv_audio_codec_cases:
  "flv_audio_codec c = Some b \<Longrightarrow> (b OR 0x0f) AND 0xf0 = b"
  by (auto simp: flv_audio_codec_def flv_codes split: if_splits)

end
