(* ===== verification/RtmpMedia.thy ===== *)
theory RtmpMedia
  imports RtmpSession FlvPub
begin

text \<open>
  The media side of a session: \<open>GetMediaPacket\<close> (net/rtmp/rtmp_session_base.cpp), which
  makes a packet of a received message, and \<open>RtmpWrite\<close>
  (net/rtmp/rtmp_client_session.cpp), which sends a packet as a message.  The failed
  assertions of \<open>GetMediaPacket\<close> stop the process: \<open>None\<close>, as a read past the message;
  its null pointer is \<open>Some None\<close>.  The theorem is the path of a packet from one end of a
  connection to the other.
\<close>

definition RTMP_MEDIA_PACKET_AUDIO :: u8 where "RTMP_MEDIA_PACKET_AUDIO = 8"
definition RTMP_MEDIA_PACKET_VIDEO :: u8 where "RTMP_MEDIA_PACKET_VIDEO = 9"
definition RTMP_COMMAND_MESSAGES_META_DATA3 :: u8 where "RTMP_COMMAND_MESSAGES_META_DATA3 = 15"
definition RTMP_COMMAND_MESSAGES_META_DATA0 :: u8 where "RTMP_COMMAND_MESSAGES_META_DATA0 = 18"
definition RTMP_COMMAND_MESSAGES_AMF0 :: u8 where "RTMP_COMMAND_MESSAGES_AMF0 = 20"

lemmas rtmp_types = RTMP_MEDIA_PACKET_AUDIO_def RTMP_MEDIA_PACKET_VIDEO_def
  RTMP_COMMAND_MESSAGES_META_DATA3_def RTMP_COMMAND_MESSAGES_META_DATA0_def
  RTMP_COMMAND_MESSAGES_AMF0_def

section \<open>Receiving\<close>

definition video_codec_of_byte :: "u8 \<Rightarrow> MEDIA_CODEC_TYPE option" where
  "video_codec_of_byte codec =
     (if codec = FLV_VIDEO_H264_CODEC then Some MEDIA_CODEC_H264
      else if codec = FLV_VIDEO_H265_CODEC then Some MEDIA_CODEC_H265
      else if codec = FLV_VIDEO_VP8_CODEC then Some MEDIA_CODEC_VP8
      else if codec = FLV_VIDEO_VP9_CODEC then Some MEDIA_CODEC_VP9
      else None)"

text \<open>
  The video branch: the flag says whether the branch goes on to the common end of the
  function (the timestamps and the data) or has returned the packet as it is.
\<close>

definition GetMediaPacket_video :: "bytes \<Rightarrow> media_packet \<Rightarrow> (bool \<times> media_packet \<times> u32) option" where
  "GetMediaPacket_video p pkt0 = do {
     p0 \<leftarrow> rd p 0;
     p1 \<leftarrow> rd p 1;
     pkt \<leftarrow> Some (pkt0\<lparr>av_type := MEDIA_VIDEO_TYPE\<rparr>);
     case video_codec_of_byte (p0 AND 0x0f) of
       None \<Rightarrow> Some (False, pkt, 0)
     | Some codec \<Rightarrow>
         let pkt = pkt\<lparr>codec_type := codec\<rparr>;
             frame_type = p0 AND 0xf0 in
         if frame_type = FLV_VIDEO_KEY_FLAG \<and> p1 \<noteq> FLV_VIDEO_AVC_SEQHDR \<and> p1 \<noteq> FLV_VIDEO_AVC_NALU
         then Some (False, pkt, 0)
         else do {
           pkt \<leftarrow> Some (if frame_type = FLV_VIDEO_KEY_FLAG then
                           (if p1 = FLV_VIDEO_AVC_SEQHDR then pkt\<lparr>is_seq_hdr := True\<rparr>
                            else pkt\<lparr>is_key_frame := True\<rparr>)
                         else if frame_type = FLV_VIDEO_INTER_FLAG then pkt\<lparr>is_key_frame := False\<rparr>
                         else pkt);
           ts_delta \<leftarrow> Read3Bytes (drop 2 p);
           Some (True, pkt, ts_delta) } }"

definition GetMediaPacket_audio :: "bytes \<Rightarrow> media_packet \<Rightarrow> media_packet option" where
  "GetMediaPacket_audio p pkt0 = do {
     p0 \<leftarrow> rd p 0;
     p1 \<leftarrow> rd p 1;
     pkt \<leftarrow> Some (pkt0\<lparr>av_type := MEDIA_AUDIO_TYPE\<rparr>);
     frame_type \<leftarrow> Some (p0 AND 0xf0);
     pkt \<leftarrow> (if frame_type = FLV_AUDIO_AAC_CODEC then Some (pkt\<lparr>codec_type := MEDIA_CODEC_AAC\<rparr>)
             else if frame_type = FLV_AUDIO_OPUS_CODEC then Some (pkt\<lparr>codec_type := MEDIA_CODEC_OPUS\<rparr>)
             else None);
     Some (if p1 = 0x00 then pkt\<lparr>is_seq_hdr := True\<rparr>
           else if p1 = 0x01 then pkt\<lparr>is_key_frame := False, is_seq_hdr := False\<rparr>
           else pkt) }"

definition GetMediaPacket :: "chunk_stream \<Rightarrow> rtmp_session \<Rightarrow> media_packet option option" where
  "GetMediaPacket c s =
     (if length (chunk_data c) < 2 then Some None
      else do {
        p \<leftarrow> Some (chunk_data c);
        pkt \<leftarrow> Some (new_Media_Packet\<lparr>typeid := type_id c, fmt_type := MEDIA_FORMAT_FLV\<rparr>);
        (go_on, pkt, ts_delta) \<leftarrow>
          (if type_id c = RTMP_MEDIA_PACKET_VIDEO then GetMediaPacket_video p pkt
           else if type_id c = RTMP_MEDIA_PACKET_AUDIO then
             map_option (\<lambda>pkt. (True, pkt, 0)) (GetMediaPacket_audio p pkt)
           else if type_id c = RTMP_COMMAND_MESSAGES_META_DATA0
                 \<or> type_id c = RTMP_COMMAND_MESSAGES_META_DATA3
             then Some (True, pkt\<lparr>av_type := MEDIA_METADATA_TYPE\<rparr>, 0)
           else None);
        if \<not> go_on then Some (Some pkt)
        else Some (Some (pkt\<lparr>dts := uint (timestamp32 c), pts := uint (timestamp32 c) + uint ts_delta,
                             pkt_data := p, app := req_app (req s), streamname := stream_name (req s),
                             pkt_key := req_key (req s), streamid := msg_stream_id c\<rparr>)) })"

section \<open>Sending\<close>

definition send_all :: "bytes list \<Rightarrow> rtmp_session \<Rightarrow> rtmp_session" where
  "send_all chunks s = fold RtmpSend chunks s"

text \<open>
  The loop of \<open>WriteDataByChunkStream\<close> hands each chunk to \<open>RtmpSend\<close>.  \<open>connected\<close> is
  what \<open>conn_.IsConnect()\<close> says.
\<close>

definition RtmpWrite :: "bool \<Rightarrow> media_packet \<Rightarrow> rtmp_session \<Rightarrow> (int \<times> rtmp_session) option" where
  "RtmpWrite connected pkt s =
     (if \<not> connected then Some (-1, s)
      else if av_type pkt = MEDIA_METADATA_TYPE then Some (RTMP_OK, s)
      else if av_type pkt \<noteq> MEDIA_VIDEO_TYPE \<and> av_type pkt \<noteq> MEDIA_AUDIO_TYPE then Some (-1, s)
      else do {
        (csid, tid) \<leftarrow> Some (if av_type pkt = MEDIA_VIDEO_TYPE then (6, RTMP_MEDIA_PACKET_VIDEO)
                             else (4, RTMP_MEDIA_PACKET_AUDIO));
        chunks \<leftarrow> WriteDataByChunkStream csid (of_int (dts pkt)) tid (streamid pkt) (GetChunkSize s)
                    (pkt_data pkt);
        Some (RTMP_OK, send_all chunks s) })"

lemma sent_send_all: "send_all chunks s = s\<lparr>sent := sent s @ chunks\<rparr>"
  by (induction chunks arbitrary: s) (simp_all add: send_all_def RtmpSend_def)

section \<open>A packet's way through a message\<close>

lemma video_codec_of_byte_flv:
  "flv_video_codec c = Some b \<Longrightarrow> video_codec_of_byte b = Some c"
  by (auto simp: flv_video_codec_def video_codec_of_byte_def flv_codes split: if_splits)

lemma GetMediaPacket_video_flv:
  assumes "flv_video_codec (codec_type pkt) = Some b"
  shows "GetMediaPacket_video (flv_video_bytes b pkt @ d) q =
    Some (True, q\<lparr>av_type := MEDIA_VIDEO_TYPE, codec_type := codec_type pkt,
            is_seq_hdr := is_seq_hdr q \<or> is_seq_hdr pkt,
            is_key_frame := (if is_seq_hdr pkt then is_key_frame q else is_key_frame pkt)\<rparr>,
          of_nat (unat (flv_ts_delta pkt) mod 2 ^ 24))"
  using flv_video_codec_cases [OF assms] video_codec_of_byte_flv [OF assms]
  by (auto simp: flv_video_bytes_eq GetMediaPacket_video_def Let_def Read3Bytes_Write3Bytes
        FLV_VIDEO_KEY_FLAG_def FLV_VIDEO_INTER_FLAG_def FLV_VIDEO_AVC_SEQHDR_def FLV_VIDEO_AVC_NALU_def)

lemma GetMediaPacket_audio_flv:
  assumes "flv_audio_codec (codec_type pkt) = Some b" "\<not> is_seq_hdr q" "\<not> is_key_frame q"
  shows "GetMediaPacket_audio ([b OR 0x0f, if is_seq_hdr pkt then 0 else 1] @ d) q =
    Some (q\<lparr>av_type := MEDIA_AUDIO_TYPE, codec_type := codec_type pkt, is_seq_hdr := is_seq_hdr pkt\<rparr>)"
proof -
  from assms(1) have "b = FLV_AUDIO_AAC_CODEC \<and> codec_type pkt = MEDIA_CODEC_AAC \<or>
      b = FLV_AUDIO_OPUS_CODEC \<and> codec_type pkt = MEDIA_CODEC_OPUS"
    by (auto simp: flv_audio_codec_def split: if_splits)
  then show ?thesis
    using flv_audio_codec_cases [OF assms(1)] assms(2,3)
    by (auto simp: GetMediaPacket_audio_def FLV_AUDIO_AAC_CODEC_def FLV_AUDIO_OPUS_CODEC_def)
qed

definition media_pts :: "media_packet \<Rightarrow> int" where
  "media_pts pkt = (if av_type pkt = MEDIA_VIDEO_TYPE then pts pkt else dts pkt)"

text \<open>What the receiver has to find in a packet for the sender's packet.\<close>

definition same_media :: "media_packet \<Rightarrow> media_packet \<Rightarrow> bool" where
  "same_media pkt q \<longleftrightarrow> av_type q = av_type pkt \<and> codec_type q = codec_type pkt \<and>
     is_seq_hdr q = is_seq_hdr pkt \<and>
     is_key_frame q = (av_type pkt = MEDIA_VIDEO_TYPE \<and> is_key_frame pkt \<and> \<not> is_seq_hdr pkt) \<and>
     dts q = dts pkt \<and> pts q = media_pts pkt"

lemma flv_ts_delta_small:
  assumes "dts pkt \<le> pts pkt" "pts pkt - dts pkt < 2 ^ 24"
  shows "uint (of_nat (unat (flv_ts_delta pkt) mod 2 ^ 24) :: u32) = pts pkt - dts pkt"
proof -
  have "uint (of_int d :: u32) = d" if "0 \<le> d" "d < 2 ^ 24" for d
    using that by (simp add: uint_word_of_int)
  from this [of "pts pkt - dts pkt"] have "uint (flv_ts_delta pkt) = pts pkt - dts pkt"
    using assms by (simp add: flv_ts_delta_def)
  moreover from this have "unat (flv_ts_delta pkt) = nat (pts pkt - dts pkt)"
    by (metis nat_int of_nat_unat)
  then have "unat (flv_ts_delta pkt) mod 2 ^ 24 = unat (flv_ts_delta pkt)"
    using assms by simp
  ultimately show ?thesis by simp
qed

lemma GetMediaPacket_AddFlv:
  assumes "AddFlvMediaHeader head pkt = Some (0, pkt1)"
    and "av_type pkt = MEDIA_VIDEO_TYPE \<and> type_id c = RTMP_MEDIA_PACKET_VIDEO \<or>
         av_type pkt = MEDIA_AUDIO_TYPE \<and> type_id c = RTMP_MEDIA_PACKET_AUDIO"
    and "dts pkt \<le> pts pkt" "pts pkt - dts pkt < 2 ^ 24"
    and "chunk_data c = pkt_data pkt1" "uint (timestamp32 c) = dts pkt"
  shows "\<exists>q. GetMediaPacket c s = Some (Some q) \<and> same_media pkt q \<and> pkt_data q = pkt_data pkt1"
  using assms(2)
proof
  assume v: "av_type pkt = MEDIA_VIDEO_TYPE \<and> type_id c = RTMP_MEDIA_PACKET_VIDEO"
  with assms(1) obtain b where b: "flv_video_codec (codec_type pkt) = Some b"
      "pkt_data pkt1 = flv_video_bytes b pkt @ pkt_data pkt"
    by (auto simp: AddFlvMediaHeader_def Let_def split: if_splits option.splits)
  then show ?thesis
    using v assms(5,6) flv_ts_delta_small [OF assms(3,4)]
    by (auto simp: GetMediaPacket_def GetMediaPacket_video_flv same_media_def media_pts_def
          new_Media_Packet_def)
next
  assume v: "av_type pkt = MEDIA_AUDIO_TYPE \<and> type_id c = RTMP_MEDIA_PACKET_AUDIO"
  with assms(1) obtain b where b: "flv_audio_codec (codec_type pkt) = Some b"
      "pkt_data pkt1 = [b OR 0x0f, if is_seq_hdr pkt then 0 else 1] @ pkt_data pkt"
    by (auto simp: AddFlvMediaHeader_def Let_def split: if_splits option.splits)
  have "GetMediaPacket_audio (chunk_data c) (new_Media_Packet\<lparr>typeid := type_id c, fmt_type := MEDIA_FORMAT_FLV\<rparr>)
    = Some ((new_Media_Packet\<lparr>typeid := type_id c, fmt_type := MEDIA_FORMAT_FLV\<rparr>)
        \<lparr>av_type := MEDIA_AUDIO_TYPE, codec_type := codec_type pkt, is_seq_hdr := is_seq_hdr pkt\<rparr>)"
    unfolding assms(5) b(2) by (rule GetMediaPacket_audio_flv [OF b(1)]) (simp_all add: new_Media_Packet_def)
  then show ?thesis
    using v b(2) assms(5,6)
    by (auto simp: GetMediaPacket_def same_media_def media_pts_def new_Media_Packet_def rtmp_types)
qed

text \<open>
  C2: a video or audio packet that one end puts behind an FLV header and writes to a connection comes out at
  the other end with the same bytes (those of the header and the data), media type, codec, sequence header flag and
  decoding time.  Video has its presentation time, audio has its decoding time as presentation time, since the
  format has no other; the key flag that comes out is set if and only if the packet is video, a key frame and not a
  sequence header.  This holds for a decoding time from 0 to below 0xffffff, a presentation time
  from the decoding time to less than \<open>2 ^ 24\<close> ms after it and a message of less than 16 MB, whatever the chunk
  size and whatever follows in the buffer, if both ends use the same chunk size and the reader is between two messages.
\<close>

theorem RTMP_media_roundtrip:
  assumes "AddFlvMediaHeader head pkt = Some (0, pkt1)"
    and "av_type pkt = MEDIA_VIDEO_TYPE \<or> av_type pkt = MEDIA_AUDIO_TYPE"
    and "0 \<le> dts pkt" and "dts pkt < 0xffffff" and "dts pkt \<le> pts pkt" and "pts pkt - dts pkt < 2 ^ 24"
    and "length (pkt_data pkt1) < 2 ^ 24"
    and "RtmpWrite True pkt1 s1 = Some (RTMP_OK, s1')" and "sent s1' = sent s1 @ chunks"
    and "recv_buffer s2 = concat chunks @ r" and "sess_chunk_size s2 = sess_chunk_size s1"
    and "\<not> fmt_ready s2" and "\<And>k c. cs_map s2 k = Some c \<Longrightarrow> idle_stream c"
  shows "\<exists>key s2' c q. NextMessage s2 = Some (RTMP_OK, key, s2') \<and> cs_map s2' key = Some c \<and>
    GetMediaPacket c s2' = Some (Some q) \<and> same_media pkt q \<and> pkt_data q = pkt_data pkt1 \<and>
    recv_buffer s2' = r"
proof -
  have p1: "av_type pkt1 = av_type pkt" "dts pkt1 = dts pkt" "pkt_data pkt1 \<noteq> []"
    using assms(1,2) by (auto simp: AddFlvMediaHeader_def Let_def flv_video_bytes_eq split: if_splits option.splits)
  let ?v = "av_type pkt = MEDIA_VIDEO_TYPE"
  let ?tid = "if ?v then RTMP_MEDIA_PACKET_VIDEO else RTMP_MEDIA_PACKET_AUDIO"
  let ?csid = "if ?v then 6 else 4 :: u16"
  let ?ts = "of_int (dts pkt) :: u32"
  have w: "WriteDataByChunkStream ?csid ?ts ?tid (streamid pkt1) (sess_chunk_size s2) (pkt_data pkt1)
      = Some chunks"
    using assms(2,8,9,11) p1(1,2)
    by (auto simp: RtmpWrite_def bind_Some_iff sent_send_all GetChunkSize_def split: if_splits)
  have ts: "uint ?ts = dts pkt" using assms(3,4) by (simp add: uint_word_of_int)
  then have "?ts < 0xffffff" using assms(4) by (simp add: word_less_alt)
  moreover have "2 \<le> ?csid" "?csid < 64" by simp_all
  ultimately obtain s2' c where c: "NextMessage s2 = Some (RTMP_OK, ucast ?csid, s2')"
      "cs_map s2' (ucast ?csid) = Some c" "chunk_data c = pkt_data pkt1" "timestamp32 c = ?ts"
      "type_id c = ?tid" "recv_buffer s2' = r"
    using written_message_read [OF w assms(10,12)] p1(3) assms(7,13) by blast
  have "\<exists>q. GetMediaPacket c s2' = Some (Some q) \<and> same_media pkt q \<and> pkt_data q = pkt_data pkt1"
    by (rule GetMediaPacket_AddFlv [OF assms(1) _ assms(5,6)]) (use c assms(2) ts in auto)
  with c show ?thesis by blast
qed

definition example_video :: media_packet where
  "example_video = new_Media_Packet\<lparr>av_type := MEDIA_VIDEO_TYPE, codec_type := MEDIA_CODEC_H264,
     dts := 1000, pts := 1040, is_key_frame := True, pkt_data := [0, 0, 0, 1, 0x65]\<rparr>"

theorem RTMP_media_roundtrip_witness:
  "\<exists>pkt1 s1' s2' key c q. AddFlvMediaHeader [0, 0, 0, 0, 0] example_video = Some (0, pkt1) \<and>
     RtmpWrite True pkt1 new_RtmpSessionBase = Some (RTMP_OK, s1') \<and>
     NextMessage (feed (concat (sent s1')) new_RtmpSessionBase) = Some (RTMP_OK, key, s2') \<and>
     cs_map s2' key = Some c \<and> GetMediaPacket c s2' = Some (Some q) \<and> pts q = 1040 \<and> is_key_frame q"
proof -
  obtain pkt1 where a: "AddFlvMediaHeader [0, 0, 0, 0, 0] example_video = Some (0, pkt1)"
    and p: "length (pkt_data pkt1) = 10" "av_type pkt1 = MEDIA_VIDEO_TYPE"
    by (simp add: AddFlvMediaHeader_def example_video_def flv_video_codec_def Let_def)
  have e: "av_type example_video = MEDIA_VIDEO_TYPE" "dts example_video = 1000" "pts example_video = 1040"
      "is_key_frame example_video" "\<not> is_seq_hdr example_video"
    by (simp_all add: example_video_def new_Media_Packet_def)
  obtain s1' where w: "RtmpWrite True pkt1 new_RtmpSessionBase = Some (RTMP_OK, s1')"
    and o: "sent s1' = sent new_RtmpSessionBase @ sent s1'"
    using p by (simp add: RtmpWrite_def WriteDataByChunkStream_def GetChunkSize_def sent_send_all
        new_RtmpSessionBase_def CHUNK_DEF_SIZE_def Let_def)
  let ?s2 = "feed (concat (sent s1')) new_RtmpSessionBase"
  have "\<exists>key s2' c q. NextMessage ?s2 = Some (RTMP_OK, key, s2') \<and> cs_map s2' key = Some c \<and>
    GetMediaPacket c s2' = Some (Some q) \<and> same_media example_video q \<and> pkt_data q = pkt_data pkt1 \<and>
    recv_buffer s2' = []"
    by (rule RTMP_media_roundtrip [OF a _ _ _ _ _ _ w o])
       (use p e in \<open>simp_all add: new_RtmpSessionBase_def\<close>)
  then show ?thesis using a w e by (auto simp: same_media_def media_pts_def)
qed

end
