(* ===== verification/Amf0.thy ===== *)
theory Amf0
  imports Media
begin

text \<open>
  format/amf/amf0.hpp: the AMF0 values of RTMP commands and FLV metadata, their encoder and
  decoder.  A double is its 64-bit pattern, which is what the program puts on the wire.  The
  object's \<open>std::map\<close> is the list of its entries in key order.  The decoder's pointer and
  remaining length are threaded as in the code: a read past the bytes and the failed
  assertions are \<open>None\<close>, and the return code says whether the item was decoded.  The
  decoder recurses on what a nested call leaves, so it carries fuel; \<open>decode_fuel\<close> shows
  that \<open>2 * length + 1\<close> is enough, so that no result depends on it.
\<close>

datatype AMF_DATA_TYPE = AMF_DATA_TYPE_UNKNOWN | AMF_DATA_TYPE_NUMBER | AMF_DATA_TYPE_BOOL
  | AMF_DATA_TYPE_STRING | AMF_DATA_TYPE_OBJECT | AMF_DATA_TYPE_NULL | AMF_DATA_TYPE_UNDEFINED
  | AMF_DATA_TYPE_REFERENCE | AMF_DATA_TYPE_MIXEDARRAY | AMF_DATA_TYPE_OBJECT_END
  | AMF_DATA_TYPE_ARRAY | AMF_DATA_TYPE_DATE | AMF_DATA_TYPE_LONG_STRING
  | AMF_DATA_TYPE_UNSUPPORTED

fun amf_code :: "AMF_DATA_TYPE \<Rightarrow> u8" where
  "amf_code AMF_DATA_TYPE_UNKNOWN = 0xff"
| "amf_code AMF_DATA_TYPE_NUMBER = 0x00"
| "amf_code AMF_DATA_TYPE_BOOL = 0x01"
| "amf_code AMF_DATA_TYPE_STRING = 0x02"
| "amf_code AMF_DATA_TYPE_OBJECT = 0x03"
| "amf_code AMF_DATA_TYPE_NULL = 0x05"
| "amf_code AMF_DATA_TYPE_UNDEFINED = 0x06"
| "amf_code AMF_DATA_TYPE_REFERENCE = 0x07"
| "amf_code AMF_DATA_TYPE_MIXEDARRAY = 0x08"
| "amf_code AMF_DATA_TYPE_OBJECT_END = 0x09"
| "amf_code AMF_DATA_TYPE_ARRAY = 0x0a"
| "amf_code AMF_DATA_TYPE_DATE = 0x0b"
| "amf_code AMF_DATA_TYPE_LONG_STRING = 0x0c"
| "amf_code AMF_DATA_TYPE_UNSUPPORTED = 0x0d"

datatype amf_iterm = AMF_ITERM
  (amf_type: AMF_DATA_TYPE) (number: u64) (enable: bool) (desc_str: bytes)
  (amf_obj: "(bytes \<times> amf_iterm) list") (amf_array: "amf_iterm list")

definition new_AMF_ITERM :: amf_iterm where
  "new_AMF_ITERM = AMF_ITERM AMF_DATA_TYPE_UNKNOWN 0 False [] [] []"

definition SetAmfType :: "AMF_DATA_TYPE \<Rightarrow> amf_iterm \<Rightarrow> amf_iterm" where
  "SetAmfType ty i = AMF_ITERM ty (number i) (enable i) (desc_str i) (amf_obj i) (amf_array i)"

definition amf_number :: "u64 \<Rightarrow> amf_iterm" where
  "amf_number n = AMF_ITERM AMF_DATA_TYPE_NUMBER n False [] [] []"
definition amf_bool :: "bool \<Rightarrow> amf_iterm" where
  "amf_bool b = AMF_ITERM AMF_DATA_TYPE_BOOL 0 b [] [] []"
definition amf_string :: "bytes \<Rightarrow> amf_iterm" where
  "amf_string s = AMF_ITERM AMF_DATA_TYPE_STRING 0 False s [] []"
definition amf_long_string :: "bytes \<Rightarrow> amf_iterm" where
  "amf_long_string s = AMF_ITERM AMF_DATA_TYPE_LONG_STRING 0 False s [] []"
definition amf_object :: "(bytes \<times> amf_iterm) list \<Rightarrow> amf_iterm" where
  "amf_object m = AMF_ITERM AMF_DATA_TYPE_OBJECT 0 False [] m []"
definition amf_strict_array :: "amf_iterm list \<Rightarrow> amf_iterm" where
  "amf_strict_array xs = AMF_ITERM AMF_DATA_TYPE_ARRAY 0 False [] [] xs"
definition amf_date :: "u64 \<Rightarrow> amf_iterm" where
  "amf_date n = AMF_ITERM AMF_DATA_TYPE_DATE n False [] [] []"
definition amf_of_type :: "AMF_DATA_TYPE \<Rightarrow> amf_iterm" where
  "amf_of_type ty = AMF_ITERM ty 0 False [] [] []"

lemmas amf_items = amf_number_def amf_bool_def amf_string_def amf_long_string_def amf_object_def
  amf_strict_array_def amf_date_def amf_of_type_def

text \<open>
  \<open>std::map<std::string, AMF_ITERM*>\<close>: the keys are compared byte by byte, and \<open>insert\<close>
  leaves an entry that is already there.
\<close>

fun key_less :: "bytes \<Rightarrow> bytes \<Rightarrow> bool" where
  "key_less _ [] = False"
| "key_less [] (_ # _) = True"
| "key_less (a # x) (b # y) = (a < b \<or> a = b \<and> key_less x y)"

fun obj_insert :: "bytes \<Rightarrow> 'a \<Rightarrow> (bytes \<times> 'a) list \<Rightarrow> (bytes \<times> 'a) list" where
  "obj_insert k v [] = [(k, v)]"
| "obj_insert k v ((k', v') # m) =
     (if k = k' then (k', v') # m
      else if key_less k k' then (k, v) # (k', v') # m
      else (k', v') # obj_insert k v m)"

definition obj_find :: "bytes \<Rightarrow> (bytes \<times> 'a) list \<Rightarrow> 'a option" where
  "obj_find k m = map_of m k"

section \<open>Encoding\<close>

definition Encode_number :: "u64 \<Rightarrow> bytes" where
  "Encode_number n = [amf_code AMF_DATA_TYPE_NUMBER] @ Write8Bytes n"

definition EncodeNull :: bytes where
  "EncodeNull = [amf_code AMF_DATA_TYPE_NULL]"

definition Encode_bool :: "bool \<Rightarrow> bytes" where
  "Encode_bool flag = [amf_code AMF_DATA_TYPE_BOOL, if flag then 0x01 else 0x00]"

definition Encode_string :: "bytes \<Rightarrow> bool \<Rightarrow> bytes" where
  "Encode_string chars skip_marker =
     (if length chars > 0xffff then
        (if skip_marker then [] else [amf_code AMF_DATA_TYPE_LONG_STRING])
        @ Write4Bytes (of_nat (length chars)) @ chars
      else
        (if skip_marker then [] else [amf_code AMF_DATA_TYPE_STRING])
        @ Write2Bytes (of_nat (length chars)) @ chars)"

definition EncodeOnlyType :: "AMF_DATA_TYPE \<Rightarrow> bytes" where
  "EncodeOnlyType ty = [amf_code ty]"

text \<open>The value of one entry: \<open>None\<close> where the encoder returns -1.\<close>

definition Encode_value :: "amf_iterm \<Rightarrow> bytes option" where
  "Encode_value i = (case amf_type i of
       AMF_DATA_TYPE_NUMBER \<Rightarrow> Some (Encode_number (number i))
     | AMF_DATA_TYPE_BOOL \<Rightarrow> Some (Encode_bool (enable i))
     | AMF_DATA_TYPE_STRING \<Rightarrow> Some (Encode_string (desc_str i) False)
     | AMF_DATA_TYPE_NULL \<Rightarrow> Some (EncodeOnlyType AMF_DATA_TYPE_NULL)
     | AMF_DATA_TYPE_UNDEFINED \<Rightarrow> Some (EncodeOnlyType AMF_DATA_TYPE_UNDEFINED)
     | AMF_DATA_TYPE_MIXEDARRAY \<Rightarrow> Some []
     | AMF_DATA_TYPE_ARRAY \<Rightarrow> Some []
     | AMF_DATA_TYPE_DATE \<Rightarrow> Some []
     | AMF_DATA_TYPE_LONG_STRING \<Rightarrow> Some (Encode_string (desc_str i) False)
     | _ \<Rightarrow> None)"

text \<open>The loop over the entries: the return code and what has been written when it returns.\<close>

fun Encode_entries :: "(bytes \<times> amf_iterm) list \<Rightarrow> int \<times> bytes" where
  "Encode_entries [] = (0, Encode_string [] True @ [amf_code AMF_DATA_TYPE_OBJECT_END])"
| "Encode_entries ((k, v) # m) =
     (case Encode_value v of
        None \<Rightarrow> (-1, Encode_string k True)
      | Some b \<Rightarrow> (let (ret, rest) = Encode_entries m in (ret, Encode_string k True @ b @ rest)))"

definition Encode_map :: "(bytes \<times> amf_iterm) list \<Rightarrow> int \<times> bytes" where
  "Encode_map m = (let (ret, b) = Encode_entries m in (ret, [amf_code AMF_DATA_TYPE_OBJECT] @ b))"

section \<open>Decoding\<close>

text \<open>
  The result is the return code, the item, the pointer and the remaining length; a failed
  call leaves the item as far as it was filled.  \<open>DecodeAmfObject\<close> and \<open>DecodeAmfArray\<close>
  take the decoder of the values as an argument, and \<open>Decode\<close> ties the knot.
\<close>

type_synonym 'a decoded = "(int \<times> 'a \<times> bytes \<times> int) option"

text \<open>
  The head of the object loop: it stops at the end of the data, at the empty key (the end
  marker itself is looked at and left) and before a value of an unknown type, and otherwise
  gives the key and the place of the value.
\<close>

datatype object_head = Stop int bytes int | Entry bytes bytes int

definition DecodeKey :: "bytes \<Rightarrow> int \<Rightarrow> object_head option" where
  "DecodeKey p len =
     (if len \<le> 0 then Some (Stop 0 p len)
      else do {
        key_len \<leftarrow> Read2Bytes p;
        (p, len) \<leftarrow> Some (drop 2 p, len - 2);
        if key_len = 0 then do {
          b \<leftarrow> rd p 0;
          if b = amf_code AMF_DATA_TYPE_OBJECT_END then Some (Stop 0 p len) else None }
        else do {
          key \<leftarrow> grab (unat key_len) p;
          (p, len) \<leftarrow> Some (drop (unat key_len) p, len - int (unat key_len));
          b \<leftarrow> rd p 0;
          Some (if b > 0x0d then Stop (-1) p len else Entry key p len) } })"

primrec DecodeAmfObject ::
  "(bytes \<Rightarrow> int \<Rightarrow> amf_iterm decoded) \<Rightarrow> nat \<Rightarrow> bytes \<Rightarrow> int \<Rightarrow> (bytes \<times> amf_iterm) list \<Rightarrow>
   (bytes \<times> amf_iterm) list decoded"
where
  "DecodeAmfObject dec 0 p len m = None"
| "DecodeAmfObject dec (Suc f) p len m =
     (case DecodeKey p len of
        None \<Rightarrow> None
      | Some (Stop ret p len) \<Rightarrow> Some (ret, m, p, len)
      | Some (Entry key p len) \<Rightarrow>
          (case dec p len of
             None \<Rightarrow> None
           | Some (ret, v, p, len) \<Rightarrow>
               if ret \<noteq> 0 then Some (ret, m, p, len)
               else DecodeAmfObject dec f p len (obj_insert key v m)))"

primrec DecodeAmfArray ::
  "(bytes \<Rightarrow> int \<Rightarrow> amf_iterm decoded) \<Rightarrow> nat \<Rightarrow> bytes \<Rightarrow> int \<Rightarrow> amf_iterm list \<Rightarrow>
   amf_iterm list decoded"
where
  "DecodeAmfArray dec 0 p len xs = Some (0, xs, p, len)"
| "DecodeAmfArray dec (Suc n) p len xs = do {
     (ret, v, p, len) \<leftarrow> dec p len;
     if ret \<noteq> 0 then Some (ret, xs, p, len)
     else DecodeAmfArray dec n p len (xs @ [v]) }"

definition DecodeString :: "bytes \<Rightarrow> int \<Rightarrow> amf_iterm decoded" where
  "DecodeString p len = do {
     n \<leftarrow> Read2Bytes p;
     s \<leftarrow> grab (unat n) (drop 2 p);
     Some (0, amf_string s, drop (2 + unat n) p, len - 2 - int (unat n)) }"

definition DecodeLongString :: "bytes \<Rightarrow> int \<Rightarrow> amf_iterm decoded" where
  "DecodeLongString p len = do {
     n \<leftarrow> Read4Bytes p;
     s \<leftarrow> grab (unat n) (drop 4 p);
     Some (0, amf_long_string s, drop (4 + unat n) p, len - 4 - int (unat n)) }"

definition DecodeValue ::
  "(bytes \<Rightarrow> int \<Rightarrow> amf_iterm decoded) \<Rightarrow> nat \<Rightarrow> u8 \<Rightarrow> bytes \<Rightarrow> int \<Rightarrow> amf_iterm decoded"
where
  "DecodeValue dec f ty p len =
     (if ty = 0x00 then do {
        val \<leftarrow> Read8Bytes p;
        Some (0, amf_number val, drop 8 p, len - 8) }
      else if ty = 0x01 then do {
        val \<leftarrow> rd p 0;
        Some (0, amf_bool (val \<noteq> 0), drop 1 p, len - 1) }
      else if ty = 0x02 then DecodeString p len
      else if ty = 0x03 then do {
        (ret, m, p, len) \<leftarrow> DecodeAmfObject dec f p len [];
        Some (ret, amf_object m, p, len) }
      else if ty = 0x05 then Some (0, amf_of_type AMF_DATA_TYPE_NULL, p, len)
      else if ty = 0x06 then Some (0, amf_of_type AMF_DATA_TYPE_UNDEFINED, p, len)
      else if ty = 0x07 then None
      else if ty = 0x08 then do {
        array_len \<leftarrow> Read4Bytes p;
        (ret, m, p, len) \<leftarrow> DecodeAmfObject dec f (drop 4 p) (len - 4) [];
        Some (ret, amf_object m, p, len) }
      else if ty = 0x0a then do {
        array_len \<leftarrow> Read4Bytes p;
        (ret, xs, p, len) \<leftarrow> DecodeAmfArray dec (unat array_len) (drop 4 p) (len - 4) [];
        Some (0, amf_strict_array xs, p, len) }
      else if ty = 0x0b then do {
        val \<leftarrow> Read8Bytes p;
        require (10 \<le> length p);
        Some (0, amf_date val, drop 10 p, len - 8 - 2) }
      else if ty = 0x0c then DecodeLongString p len
      else if ty = 0x0d then Some (0, amf_of_type AMF_DATA_TYPE_LONG_STRING, p, len)
      else Some (-1, new_AMF_ITERM, p, len))"

primrec Decode :: "nat \<Rightarrow> bytes \<Rightarrow> int \<Rightarrow> amf_iterm decoded" where
  "Decode 0 p len = None"
| "Decode (Suc f) p len = do {
     ty \<leftarrow> rd p 0;
     if ty > 0x0d then Some (-1, new_AMF_ITERM, p, len)
     else DecodeValue (Decode f) f ty (drop 1 p) (len - 1) }"

definition amf_decode :: "bytes \<Rightarrow> int \<Rightarrow> amf_iterm decoded" where
  "amf_decode p len = Decode (length p + 1) p len"

section \<open>The decoder's fuel\<close>

definition shrinks :: "(bytes \<Rightarrow> int \<Rightarrow> 'a decoded) \<Rightarrow> bool" where
  "shrinks dec = (\<forall>p len ret v p' len'. dec p len = Some (ret, v, p', len') \<longrightarrow>
     length p' \<le> length p \<and> (ret = 0 \<longrightarrow> length p' < length p))"

lemma shrinksD: "shrinks dec \<Longrightarrow> dec p len = Some (ret, v, p', len') \<Longrightarrow> length p' \<le> length p"
  unfolding shrinks_def by blast

lemma DecodeKey_shrinks:
  "DecodeKey p len = Some (Stop ret q l) \<Longrightarrow> length q \<le> length p"
  "DecodeKey p len = Some (Entry k q l) \<Longrightarrow> length q < length p"
  by (auto simp: DecodeKey_def bind_Some_iff split: if_splits dest!: Read_length)

lemma DecodeAmfObject_shrinks:
  "shrinks dec \<Longrightarrow> DecodeAmfObject dec f p len m = Some (ret, m', p', len') \<Longrightarrow> length p' \<le> length p"
proof (induction f arbitrary: p len m)
  case (Suc f)
  from Suc.prems(2) show ?case
    using Suc.IH [OF Suc.prems(1)] shrinksD [OF Suc.prems(1)]
    by (fastforce split: option.splits object_head.splits if_splits dest: DecodeKey_shrinks)
qed simp

lemma DecodeAmfArray_shrinks:
  "shrinks dec \<Longrightarrow> DecodeAmfArray dec n p len xs = Some (ret, xs', p', len') \<Longrightarrow> length p' \<le> length p"
proof (induction n arbitrary: p len xs)
  case (Suc n)
  from Suc.prems(2) show ?case
    using Suc.IH [OF Suc.prems(1)] shrinksD [OF Suc.prems(1)]
    by (auto simp: bind_Some_iff split: if_splits) (meson le_trans)
qed simp

lemma DecodeValue_shrinks:
  assumes s: "shrinks dec" and d: "DecodeValue dec f ty p len = Some (ret, v, p', len')"
  shows "length p' \<le> length p"
proof -
  have o: "length p' \<le> length p"
    if "DecodeAmfObject dec f (drop k p) l m = Some (r, m', p', l')" for k l m r m' l'
    using DecodeAmfObject_shrinks [OF s that] by simp
  have o0: "length p' \<le> length p"
    if "DecodeAmfObject dec f p l m = Some (r, m', p', l')" for l m r m' l'
    using DecodeAmfObject_shrinks [OF s that] by simp
  have a: "length p' \<le> length p"
    if "DecodeAmfArray dec n (drop k p) l m = Some (r, m', p', l')" for k l m r m' l' n
    using DecodeAmfArray_shrinks [OF s that] by simp
  from d show ?thesis
    by (auto simp: DecodeValue_def DecodeString_def DecodeLongString_def bind_Some_iff
          split: if_splits dest: o a o0)
qed

lemma Decode_shrinks: "shrinks (Decode f)"
proof (induction f)
  case (Suc f)
  have "length p' \<le> length p \<and> (ret = 0 \<longrightarrow> length p' < length p)"
    if "Decode (Suc f) p len = Some (ret, v, p', len')" for p len ret v p' len'
  proof -
    from that obtain ty where "rd p 0 = Some ty" by (auto simp: bind_Some_iff)
    then have p: "0 < length p" by (auto simp: rd_Some_iff)
    have "length p' < length p" if "DecodeValue (Decode f) f ty (drop (Suc 0) p) l = Some (ret, v, p', len')"
      for ty l
      using DecodeValue_shrinks [OF Suc that] p by (cases p) auto
    with that show ?thesis by (auto simp: bind_Some_iff split: if_splits intro: less_imp_le)
  qed
  then show ?case unfolding shrinks_def by blast
qed (simp add: shrinks_def)

lemma DecodeAmfObject_fuel:
  assumes s: "shrinks dec"
  shows "length p < f \<Longrightarrow> length p < f' \<Longrightarrow> (\<And>q l. length q < length p \<Longrightarrow> dec q l = dec' q l) \<Longrightarrow>
    DecodeAmfObject dec f p len m = DecodeAmfObject dec' f' p len m"
proof (induction f arbitrary: p len m f')
  case (Suc f)
  then obtain g where f': "f' = Suc g" by (cases f') auto
  show ?case
  proof (cases "\<exists>key q l. DecodeKey p len = Some (Entry key q l)")
    case True
    then obtain key q l where k: "DecodeKey p len = Some (Entry key q l)" by blast
    then have q: "length q < length p" by (rule DecodeKey_shrinks)
    then have d: "dec q l = dec' q l" by (rule Suc.prems(3))
    show ?thesis
    proof (cases "dec' q l")
      case (Some r)
      obtain ret v p' len' where r: "r = (ret, v, p', len')" by (cases r)
      then have "length p' < length p" using shrinksD [OF s] d Some q by fastforce
      then have "DecodeAmfObject dec f p' len' m' = DecodeAmfObject dec' g p' len' m'" for m'
        using Suc.prems f' by (intro Suc.IH) auto
      then show ?thesis using Some by (simp add: f' k d r)
    qed (simp add: f' k d)
  next
    case False
    then show ?thesis by (auto simp: f' split: option.split object_head.split)
  qed
qed simp

lemma DecodeAmfArray_fuel:
  assumes s: "shrinks dec"
  shows "(\<And>q l. length q \<le> length p \<Longrightarrow> dec q l = dec' q l) \<Longrightarrow>
    DecodeAmfArray dec n p len xs = DecodeAmfArray dec' n p len xs"
proof (induction n arbitrary: p len xs)
  case (Suc n)
  then have d: "dec p len = dec' p len" by simp
  show ?case
  proof (cases "dec' p len")
    case (Some r)
    obtain ret v p' len' where r: "r = (ret, v, p', len')" by (cases r)
    then have "length p' \<le> length p" using shrinksD [OF s] d Some by fastforce
    then have "DecodeAmfArray dec n p' len' xs' = DecodeAmfArray dec' n p' len' xs'" for xs'
      using Suc.prems by (intro Suc.IH) auto
    then show ?thesis using Some by (simp add: d r)
  qed (simp add: d)
qed simp

lemma DecodeValue_cong:
  assumes "\<And>k l. DecodeAmfObject dec f (drop k p) l [] = DecodeAmfObject dec' f' (drop k p) l []"
    and "\<And>k n l. DecodeAmfArray dec n (drop k p) l [] = DecodeAmfArray dec' n (drop k p) l []"
  shows "DecodeValue dec f ty p len = DecodeValue dec' f' ty p len"
proof -
  have o: "DecodeAmfObject dec f p l [] = DecodeAmfObject dec' f' p l []" for l
    using assms(1) [of 0 l] by simp
  show ?thesis unfolding DecodeValue_def o assms(1) [of 4] assms(2) [of _ 4] by (rule refl)
qed

lemma Decode_fuel:
  "length p < f \<Longrightarrow> length p < f' \<Longrightarrow> Decode f p len = Decode f' p len"
proof (induction "length p" arbitrary: p len f f' rule: less_induct)
  case less
  obtain g g' where f: "f = Suc g" "f' = Suc g'"
    using less.prems by (cases f; cases f') auto
  show ?case
  proof (cases "rd p 0")
    case (Some ty)
    then have p: "0 < length p" by (simp add: rd_Some_iff)
    have d: "Decode g q l = Decode g' q l" if "length q < length p" for q l
      using less.hyps [OF that, of g g' l] that less.prems f by simp
    have o: "DecodeAmfObject (Decode g) g (drop k p) l [] = DecodeAmfObject (Decode g') g' (drop k p) l []"
      if "0 < k" for k l
    proof -
      have k: "length (drop k p) < length p" using diff_less [OF that p] by simp
      with less.prems f have "length (drop k p) < g" "length (drop k p) < g'" by linarith+
      then show ?thesis
        by (rule DecodeAmfObject_fuel [OF Decode_shrinks]) (use k d in fastforce)
    qed
    have a: "DecodeAmfArray (Decode g) n (drop k p) l [] = DecodeAmfArray (Decode g') n (drop k p) l []"
      if "0 < k" for k l n
      by (rule DecodeAmfArray_fuel [OF Decode_shrinks]) (use diff_less [OF that p] d in fastforce)
    have "DecodeValue (Decode g) g ty (drop 1 p) l = DecodeValue (Decode g') g' ty (drop 1 p) l" for l
      by (rule DecodeValue_cong) (simp_all add: o a)
    then show ?thesis by (simp add: f Some)
  qed (simp add: f)
qed

lemma Decode_eq: "length p < f \<Longrightarrow> Decode f p len = amf_decode p len"
  unfolding amf_decode_def by (rule Decode_fuel) simp_all

section \<open>More bytes behind the item\<close>

definition extends :: "(bytes \<Rightarrow> int \<Rightarrow> 'a decoded) \<Rightarrow> bool" where
  "extends dec = (\<forall>p len ret v p' len' d. dec p len = Some (ret, v, p', len') \<longrightarrow>
     dec (p @ d) len = Some (ret, v, p' @ d, len'))"

lemma extendsD:
  "extends dec \<Longrightarrow> dec p len = Some (ret, v, p', len') \<Longrightarrow> dec (p @ d) len = Some (ret, v, p' @ d, len')"
  unfolding extends_def by blast

lemma drop_read_longer [longer]:
  "Read2Bytes p = Some x \<Longrightarrow> drop 2 (p @ d) = drop 2 p @ d"
  "Read4Bytes p = Some y \<Longrightarrow> drop 4 (p @ d) = drop 4 p @ d"
  "Read8Bytes p = Some z \<Longrightarrow> drop 8 (p @ d) = drop 8 p @ d"
  by (drule Read_length, simp)+

lemma drop_got_longer [longer]:
  "rd p 0 = Some b \<Longrightarrow> drop (Suc 0) (p @ d) = drop (Suc 0) p @ d"
  "grab n (drop 2 p) = Some q \<Longrightarrow> 2 \<le> length p \<Longrightarrow> drop (Suc (Suc n)) (p @ d) = drop (Suc (Suc n)) p @ d"
  "grab n (drop 4 p) = Some q \<Longrightarrow> 4 \<le> length p \<Longrightarrow> drop (4 + n) (p @ d) = drop (4 + n) p @ d"
  by (auto dest!: grab_length simp: rd_Some_iff Suc_le_eq)

lemma DecodeKey_longer:
  assumes "DecodeKey p len = Some h"
  shows "DecodeKey (p @ d) len = Some (case h of Stop ret q l \<Rightarrow> Stop ret (q @ d) l
    | Entry k q l \<Rightarrow> Entry k (q @ d) l)"
proof (cases "len \<le> 0")
  case True
  with assms show ?thesis by (auto simp: DecodeKey_def)
next
  case False
  with assms obtain n where n: "Read2Bytes p = Some n" by (auto simp: DecodeKey_def bind_Some_iff)
  note l = longer(1-4)
  show ?thesis
  proof (cases "n = 0")
    case True
    with assms False n show ?thesis
      by (auto simp: DecodeKey_def bind_Some_iff drop_read_longer(1) [OF n] Read_append(4) [OF n] rd_longer
            simp del: drop_append split: if_splits)
  next
    case no: False
    with assms False n obtain k b where k: "grab (unat n) (drop 2 p) = Some k"
      and b: "rd (drop (unat n) (drop 2 p)) 0 = Some b"
      by (auto simp: DecodeKey_def bind_Some_iff)
    have "drop (unat n) (drop 2 p @ d) = drop (unat n) (drop 2 p) @ d"
      using grab_length [OF k] by simp
    with assms False n no k b show ?thesis
      by (simp add: DecodeKey_def drop_read_longer(1) [OF n] Read_append(4) [OF n] rd_longer [OF b] grab_longer [OF k]
            del: drop_drop rd_drop drop_append) auto
  qed
qed

lemma DecodeAmfObject_longer:
  assumes e: "extends dec"
  shows "DecodeAmfObject dec f p len m = Some (ret, m', p', len') \<Longrightarrow>
    DecodeAmfObject dec f (p @ d) len m = Some (ret, m', p' @ d, len')"
proof (induction f arbitrary: p len m)
  case (Suc f)
  show ?case
  proof (cases "DecodeKey p len")
    case (Some h)
    show ?thesis
    proof (cases h)
      case (Stop r q l)
      from Suc.prems DecodeKey_longer [OF Some [unfolded Stop], of d] show ?thesis
        by (simp add: Some Stop)
    next
      case (Entry key q l)
      note k = DecodeKey_longer [OF Some [unfolded Entry], of d]
      from Suc.prems Some Entry obtain r v q' l' where v: "dec q l = Some (r, v, q', l')"
        by (auto split: option.splits)
      from Suc.prems show ?thesis
        using extendsD [OF e v, of d] Suc.IH [of q' l' "obj_insert key v m"]
        by (simp add: Some Entry v k split: if_splits)
    qed
  qed (use Suc.prems in simp)
qed simp

lemma DecodeAmfArray_longer:
  assumes e: "extends dec"
  shows "DecodeAmfArray dec n p len xs = Some (ret, xs', p', len') \<Longrightarrow>
    DecodeAmfArray dec n (p @ d) len xs = Some (ret, xs', p' @ d, len')"
proof (induction n arbitrary: p len xs)
  case (Suc n)
  then obtain r v q' l' where v: "dec p len = Some (r, v, q', l')"
    by (auto simp: bind_Some_iff)
  from Suc.prems show ?case
    using extendsD [OF e v, of d] Suc.IH [of q' l' "xs @ [v]"] by (simp add: v split: if_splits)
qed simp

lemma DecodeValue_longer:
  assumes e: "extends dec" and v: "DecodeValue dec f ty p len = Some (ret, v, p', len')"
  shows "DecodeValue dec f ty (p @ d) len = Some (ret, v, p' @ d, len')"
  using v
  by (auto simp: DecodeValue_def DecodeString_def DecodeLongString_def bind_Some_iff longer require_Some_iff
        drop_longer Read_length DecodeAmfObject_longer [OF e] DecodeAmfArray_longer [OF e] simp del: drop_append
        split: if_splits)

lemma Decode_longer: "extends (Decode f)"
proof (induction f)
  case (Suc f)
  have "Decode (Suc f) (p @ d) len = Some (ret, v, p' @ d, len')"
    if s: "Decode (Suc f) p len = Some (ret, v, p', len')" for p len ret v p' len' d
  proof -
    from s obtain ty where ty: "rd p 0 = Some ty" by (auto simp: bind_Some_iff)
    from s show ?thesis
      using DecodeValue_longer [OF Suc, of f ty "drop 1 p" "len - 1" ret v p' len' d]
      by (simp add: ty rd_longer [OF ty] drop_got_longer(1) [OF ty] del: drop_append split: if_splits)
  qed
  then show ?case unfolding extends_def by blast
qed (simp add: extends_def)

lemma amf_decode_longer:
  assumes "amf_decode p len = Some (ret, v, p', len')"
  shows "amf_decode (p @ d) len = Some (ret, v, p' @ d, len')"
proof -
  have "Decode (length (p @ d) + 1) p len = amf_decode p len" by (rule Decode_eq) simp
  with assms have "Decode (length (p @ d) + 1) p len = Some (ret, v, p', len')" by metis
  from extendsD [OF Decode_longer this] show ?thesis unfolding amf_decode_def .
qed

section \<open>Decoding what the encoder writes\<close>

text \<open>The values that \<open>Encode_map\<close> can write as one item each.\<close>

inductive plain :: "amf_iterm \<Rightarrow> bool" where
  "plain (amf_number n)"
| "plain (amf_bool b)"
| "length s \<le> 0xffff \<Longrightarrow> plain (amf_string s)"
| "0xffff < length s \<Longrightarrow> length s < 2 ^ 32 \<Longrightarrow> plain (amf_long_string s)"
| "plain (amf_of_type AMF_DATA_TYPE_NULL)"
| "plain (amf_of_type AMF_DATA_TYPE_UNDEFINED)"

lemma amf_type_items [simp]:
  "amf_type (amf_number n) = AMF_DATA_TYPE_NUMBER" "amf_type (amf_bool b) = AMF_DATA_TYPE_BOOL"
  "amf_type (amf_string s) = AMF_DATA_TYPE_STRING" "amf_type (amf_object m) = AMF_DATA_TYPE_OBJECT"
  "amf_type (amf_long_string s) = AMF_DATA_TYPE_LONG_STRING" "amf_type (amf_of_type ty) = ty"
  "amf_type new_AMF_ITERM = AMF_DATA_TYPE_UNKNOWN"
  "number (amf_number n) = n" "enable (amf_bool b) = b" "desc_str (amf_string s) = s"
  "desc_str (amf_long_string s) = s" "amf_obj (amf_object m) = m"
  by (simp_all add: amf_items new_AMF_ITERM_def)

lemma Decode_number [wire]:
  "Decode (Suc f) (Encode_number n @ r) len = Some (0, amf_number n, r, len - 9)"
  by (simp add: Encode_number_def DecodeValue_def wire drop_eq_append)

lemma Decode_bool [wire]:
  "Decode (Suc f) (Encode_bool b @ r) len = Some (0, amf_bool b, r, len - 2)"
  by (simp add: Encode_bool_def DecodeValue_def)

lemma Decode_only_type [wire]:
  "Decode (Suc f) (EncodeOnlyType AMF_DATA_TYPE_NULL @ r) len = Some (0, amf_of_type AMF_DATA_TYPE_NULL, r, len - 1)"
  "Decode (Suc f) (EncodeOnlyType AMF_DATA_TYPE_UNDEFINED @ r) len
     = Some (0, amf_of_type AMF_DATA_TYPE_UNDEFINED, r, len - 1)"
  "Decode (Suc f) (EncodeNull @ r) len = Some (0, amf_of_type AMF_DATA_TYPE_NULL, r, len - 1)"
  by (simp_all add: EncodeOnlyType_def EncodeNull_def DecodeValue_def)

lemma Decode_string [wire]:
  assumes "length s \<le> 0xffff"
  shows "Decode (Suc f) (Encode_string s False @ r) len = Some (0, amf_string s, r, len - 3 - int (length s))"
proof -
  have u: "unat (of_nat (length s) :: u16) = length s" using assms by (simp add: unat_of_nat)
  then have u': "uint (of_nat (length s) :: u16) = int (length s)" by (metis of_nat_unat)
  have d: "drop 2 (Write2Bytes (of_nat (length s)) @ s @ r) = s @ r" by (simp add: drop_eq_append)
  have d': "drop (2 + length s) (Write2Bytes (of_nat (length s)) @ s @ r) = r"
    by (simp flip: drop_drop add: d add.commute)
  show ?thesis
    using assms d d'
    by (simp add: Encode_string_def DecodeValue_def DecodeString_def Read2Bytes_Write2Bytes u u' grab_append)
qed

lemma Decode_long_string [wire]:
  assumes "0xffff < length s" "length s < 2 ^ 32"
  shows "Decode (Suc f) (Encode_string s False @ r) len = Some (0, amf_long_string s, r, len - 5 - int (length s))"
proof -
  have u: "unat (of_nat (length s) :: u32) = length s" using assms by (simp add: unat_of_nat)
  then have u': "uint (of_nat (length s) :: u32) = int (length s)" by (metis of_nat_unat)
  have d: "drop 4 (Write4Bytes (of_nat (length s)) @ s @ r) = s @ r" by (simp add: drop_eq_append)
  have d': "drop (4 + length s) (Write4Bytes (of_nat (length s)) @ s @ r) = r"
    by (simp flip: drop_drop add: d add.commute)
  show ?thesis
    using assms d d'
    by (simp add: Encode_string_def DecodeValue_def DecodeLongString_def Read4Bytes_Write4Bytes u u' grab_append)
qed

lemma plain_value:
  assumes "plain v"
  obtains b where "Encode_value v = Some b" "b \<noteq> []" "\<not> 0x0d < hd b"
    "\<And>f r len. Decode (Suc f) (b @ r) len = Some (0, v, r, len - int (length b))"
  using assms
proof cases
  case (1 n)
  show thesis by (rule that [of "Encode_number n"]) (simp_all add: 1 Encode_value_def wire del: Decode.simps, simp_all add: Encode_number_def)
next
  case (2 b)
  show thesis by (rule that [of "Encode_bool b"]) (simp_all add: 2 Encode_value_def wire del: Decode.simps, simp_all add: Encode_bool_def)
next
  case (3 s)
  show thesis
    by (rule that [of "Encode_string s False"])
       (simp_all add: 3 Encode_value_def Decode_string del: Decode.simps, use 3(2) in \<open>simp_all add: Encode_string_def\<close>)
next
  case (4 s)
  have l: "length (Encode_string s False) = 5 + length s" "Encode_string s False \<noteq> []"
    "hd (Encode_string s False) = 0x0c" "Encode_value v = Some (Encode_string s False)"
    using 4(2) by (simp_all add: 4(1) Encode_value_def Encode_string_def)
  show thesis
    by (rule that [of "Encode_string s False"])
       (simp_all add: 4(1) l(1) Decode_long_string [OF 4(2,3)] l(2-4) [unfolded 4(1)] del: Decode.simps)
next
  case 5
  show thesis
    by (rule that [of "EncodeOnlyType AMF_DATA_TYPE_NULL"])
       (simp_all add: 5 Encode_value_def wire del: Decode.simps, simp_all add: EncodeOnlyType_def)
next
  case 6
  show thesis
    by (rule that [of "EncodeOnlyType AMF_DATA_TYPE_UNDEFINED"])
       (simp_all add: 6 Encode_value_def wire del: Decode.simps, simp_all add: EncodeOnlyType_def)
qed

text \<open>Objects: keys of 1 to 65535 bytes in increasing order, as the map keeps them.\<close>

fun good_entries :: "(bytes \<times> amf_iterm) list \<Rightarrow> bool" where
  "good_entries [] = True"
| "good_entries ((k, v) # m) =
     (k \<noteq> [] \<and> length k \<le> 0xffff \<and> plain v \<and> (\<forall>(k', v') \<in> set m. key_less k k') \<and> good_entries m)"

lemma key_less_irrefl: "\<not> key_less k k"
  by (induction k) auto

lemma key_less_antisym: "key_less a b \<Longrightarrow> \<not> key_less b a"
  by (induction a b rule: key_less.induct) auto

lemma obj_insert_snoc:
  "(\<And>k' v'. (k', v') \<in> set m \<Longrightarrow> key_less k' k) \<Longrightarrow> obj_insert k v m = m @ [(k, v)]"
proof (induction m)
  case (Cons e m)
  obtain k' v' where e: "e = (k', v')" by (cases e)
  have "key_less k' k" using Cons.prems [of k' v'] e by simp
  then have "k \<noteq> k'" "\<not> key_less k k'" using key_less_irrefl key_less_antisym by auto
  moreover have "obj_insert k v m = m @ [(k, v)]" by (rule Cons.IH) (use Cons.prems in auto)
  ultimately show ?case by (simp add: e)
qed simp

lemma DecodeKey_end:
  "0 < len \<Longrightarrow> DecodeKey (Encode_string [] True @ amf_code AMF_DATA_TYPE_OBJECT_END # r) len
     = Some (Stop 0 (amf_code AMF_DATA_TYPE_OBJECT_END # r) (len - 2))"
  by (simp add: DecodeKey_def Encode_string_def Read2Bytes_Write2Bytes drop_eq_append)

lemma DecodeKey_entry:
  assumes "k \<noteq> []" "length k \<le> 0xffff" "b \<noteq> []" "\<not> 0x0d < hd b" "0 < len"
  shows "DecodeKey (Encode_string k True @ b @ r) len = Some (Entry k (b @ r) (len - 2 - int (length k)))"
proof -
  have u: "unat (of_nat (length k) :: u16) = length k" using assms by (simp add: unat_of_nat)
  then have u': "uint (of_nat (length k) :: u16) = int (length k)" by (metis of_nat_unat)
  have "(of_nat (length k) :: u16) \<noteq> 0" using u assms(1) by (metis length_0_conv unat_0)
  moreover obtain x y where "b = x # y" using assms(3) by (cases b) auto
  moreover have "drop 2 (Write2Bytes (of_nat (length k)) @ k @ b @ r) = k @ b @ r"
    by (simp add: drop_eq_append)
  ultimately show ?thesis
    using assms by (simp add: DecodeKey_def Encode_string_def Read2Bytes_Write2Bytes u u' grab_append drop_eq_append)
qed

lemma DecodeAmfObject_entries:
  assumes "good_entries m" "\<And>k v k' v'. (k, v) \<in> set acc \<Longrightarrow> (k', v') \<in> set m \<Longrightarrow> key_less k k'"
    "length m < f" "int (length (snd (Encode_entries m))) \<le> len"
  shows "fst (Encode_entries m) = 0 \<and>
    DecodeAmfObject (Decode (Suc g)) f (snd (Encode_entries m) @ r) len acc =
      Some (0, acc @ m, amf_code AMF_DATA_TYPE_OBJECT_END # r, len - int (length (snd (Encode_entries m))) + 1)"
  using assms
proof (induction m arbitrary: acc f len)
  case Nil
  then obtain f' where f: "f = Suc f'" by (cases f) auto
  have "length (Encode_string [] True) = 2" by (simp add: Encode_string_def)
  moreover have "0 < len" using Nil by (simp add: Encode_string_def)
  ultimately show ?case
    using DecodeKey_end [of len r] by (simp add: f)
next
  case (Cons e m)
  obtain k v where e: "e = (k, v)" by (cases e)
  from Cons.prems(1) have g: "k \<noteq> []" "length k \<le> 0xffff" "plain v"
      "\<And>k' v'. (k', v') \<in> set m \<Longrightarrow> key_less k k'" "good_entries m"
    by (auto simp: e)
  from g(3) obtain b where b: "Encode_value v = Some b" "b \<noteq> []" "\<not> 0x0d < hd b"
    "\<And>f r len. Decode (Suc f) (b @ r) len = Some (0, v, r, len - int (length b))"
    by (rule plain_value) blast
  obtain f' where f: "f = Suc f'" using Cons.prems(3) by (cases f) auto
  obtain ret rest where rest: "Encode_entries m = (ret, rest)" by (cases "Encode_entries m")
  have enc: "Encode_entries (e # m) = (ret, Encode_string k True @ b @ rest)"
    by (simp add: e b(1) rest)
  have lk: "length (Encode_string k True) = 2 + length k" using g(2) by (simp add: Encode_string_def)
  have l: "0 < len" "int (length rest) \<le> len - 2 - int (length k) - int (length b)"
    using Cons.prems(4) by (simp_all add: enc lk)
  have snoc: "obj_insert k v acc = acc @ [(k, v)]"
    by (rule obj_insert_snoc) (use Cons.prems(2) e in auto)
  have "fst (Encode_entries m) = 0 \<and>
      DecodeAmfObject (Decode (Suc g)) f' (snd (Encode_entries m) @ r) (len - 2 - int (length k) - int (length b))
        (acc @ [(k, v)]) = Some (0, (acc @ [(k, v)]) @ m, amf_code AMF_DATA_TYPE_OBJECT_END # r,
          len - 2 - int (length k) - int (length b) - int (length (snd (Encode_entries m))) + 1)"
    by (rule Cons.IH [OF g(5)]) (use Cons.prems(2,3) g(4) e f rest l(2) in auto)
  then show ?case
    using DecodeKey_entry [OF g(1,2) b(2,3) l(1), of "rest @ r"]
    unfolding enc by (simp add: e f rest b(4) snoc lk algebra_simps del: Decode.simps)
qed

lemma length_entries: "good_entries m \<Longrightarrow> length m < length (snd (Encode_entries m))"
proof (induction m)
  case (Cons e m)
  obtain k v where e: "e = (k, v)" by (cases e)
  with Cons.prems have v: "plain v" "good_entries m" by auto
  from v(1) obtain b where b: "Encode_value v = Some b" "b \<noteq> []" by (rule plain_value) blast
  obtain ret rest where rest: "Encode_entries m = (ret, rest)" by (cases "Encode_entries m")
  have "0 < length b" using b(2) by simp
  moreover have "length m < length rest" using Cons.IH [OF v(2)] rest by simp
  ultimately have "Suc (length m) < length (Encode_string k True) + (length b + length rest)"
    by linarith
  then show ?case by (simp add: e b(1) rest)
qed simp

lemma decode_written_object:
  assumes "good_entries m" "int (length (snd (Encode_map m))) \<le> len"
  shows "fst (Encode_map m) = 0 \<and>
    amf_decode (snd (Encode_map m) @ r) len = Some (0, amf_object m, amf_code AMF_DATA_TYPE_OBJECT_END # r,
      len - int (length (snd (Encode_map m))) + 1)"
proof -
  obtain ret enc where e: "Encode_entries m = (ret, enc)" by (cases "Encode_entries m")
  have "length m < Suc (length enc + length r)" using length_entries [OF assms(1)] e by simp
  moreover have "int (length enc) \<le> len - 1" using assms(2) by (simp add: Encode_map_def e)
  ultimately have "ret = 0 \<and> DecodeAmfObject (Decode (Suc (length enc + length r))) (Suc (length enc + length r))
      (enc @ r) (len - 1) [] = Some (0, [] @ m, amf_code AMF_DATA_TYPE_OBJECT_END # r, len - 1 - int (length enc) + 1)"
    using DecodeAmfObject_entries [of m "[]" "Suc (length enc + length r)" "len - 1" "length enc + length r" r]
      assms(1) e by simp
  then show ?thesis
    by (simp add: Encode_map_def e amf_decode_def DecodeValue_def Decode.simps(2) [of "Suc (length enc + length r)"]
        del: Decode.simps DecodeAmfObject.simps)
qed

text \<open>The bytes of one item, whatever comes after them.\<close>

definition writes :: "bytes \<Rightarrow> amf_iterm \<Rightarrow> bool" where
  "writes b v \<longleftrightarrow> b \<noteq> [] \<and> (\<forall>r len. amf_decode (b @ r) len = Some (0, v, r, len - int (length b)))"

lemma writesI:
  "b \<noteq> [] \<Longrightarrow> (\<And>f r len. Decode (Suc f) (b @ r) len = Some (0, v, r, len - int (length b))) \<Longrightarrow> writes b v"
  by (simp add: writes_def amf_decode_def del: Decode.simps)

lemma writes_plain: "plain v \<Longrightarrow> Encode_value v = Some b \<Longrightarrow> writes b v"
  by (erule plain_value) (auto intro: writesI simp del: Decode.simps)

lemma writes_items:
  "writes (Encode_number n) (amf_number n)"
  "length s \<le> 0xffff \<Longrightarrow> writes (Encode_string s False) (amf_string s)"
  "writes EncodeNull (amf_of_type AMF_DATA_TYPE_NULL)"
  by (auto intro!: writes_plain intro: plain.intros
        simp: Encode_value_def EncodeNull_def EncodeOnlyType_def)

section \<open>The properties of the codec\<close>

text \<open>
  C10: every object that the encoder can write (keys of 1 to 65535 bytes in the map's order,
  and number, boolean, string, long string, null and undefined values) is decoded to the same
  object, and the decoder stops in front of the object-end marker, which it leaves in place.
\<close>

theorem amf_object_roundtrip:
  assumes "good_entries m" and "int (length (snd (Encode_map m))) \<le> len"
  shows "fst (Encode_map m) = 0 \<and>
    amf_decode (snd (Encode_map m) @ r) len = Some (0, amf_object m, amf_code AMF_DATA_TYPE_OBJECT_END # r,
      len - int (length (snd (Encode_map m))) + 1)"
  using assms by (rule decode_written_object)

theorem amf_object_roundtrip_witness:
  "\<exists>enc. Encode_map [([97], amf_number 5), ([98, 99], amf_bool True)] = (0, enc) \<and>
     amf_decode enc (int (length enc)) = Some (0, amf_object [([97], amf_number 5), ([98, 99], amf_bool True)], [9], 1)"
proof -
  let ?m = "[([97], amf_number 5), ([98, 99], amf_bool True)]"
  have g: "good_entries ?m" by (simp add: plain.intros)
  have "fst (Encode_map ?m) = 0 \<and> amf_decode (snd (Encode_map ?m) @ []) (int (length (snd (Encode_map ?m))))
     = Some (0, amf_object ?m, amf_code AMF_DATA_TYPE_OBJECT_END # [],
         int (length (snd (Encode_map ?m))) - int (length (snd (Encode_map ?m))) + 1)"
    by (rule amf_object_roundtrip [OF g]) simp
  then show ?thesis by (intro exI [of _ "snd (Encode_map ?m)"]) (cases "Encode_map ?m", simp)
qed

text \<open>
  Because the end marker is left in place, an object inside an object is not decoded:
  on the AMF0 encoding of \<open>{a: {}, b: null}\<close> the outer loop takes the inner end marker for
  the first byte of a key length and reads past the end of the message.
\<close>

theorem amf_nested_object_misread:
  "amf_decode [3, 0, 1, 97, 3, 0, 0, 9, 0, 1, 98, 5, 0, 0, 9] 15 = None"
  by (simp add: amf_decode_def DecodeValue_def DecodeKey_def Read2Bytes_def read_be_def grab_def be_val_def)

text \<open>
  C13: the decoder never moves its pointer back and consumes at least one byte when it
  succeeds, and a type byte above 0x0d is refused without consuming anything.
\<close>

theorem amf_decode_progress:
  assumes "amf_decode p len = Some (ret, v, p', len')"
  shows "length p' \<le> length p \<and> (ret = 0 \<longrightarrow> length p' < length p) \<and>
    (0x0d < hd p \<longrightarrow> ret = -1 \<and> p' = p \<and> len' = len)"
proof -
  from assms Decode_shrinks [of "length p + 1"] have "length p' \<le> length p \<and> (ret = 0 \<longrightarrow> length p' < length p)"
    unfolding amf_decode_def shrinks_def by blast
  moreover have "0x0d < hd p \<longrightarrow> ret = -1 \<and> p' = p \<and> len' = len"
    using assms by (cases p) (auto simp: amf_decode_def)
  ultimately show ?thesis by blast
qed

theorem amf_decode_progress_witness:
  "amf_decode [5, 7] 2 = Some (0, amf_of_type AMF_DATA_TYPE_NULL, [7], 1) \<and> length [7 :: u8] < length [5 :: u8, 7]"
proof -
  have d: "amf_decode [5, 7] 2 = Some (0, amf_of_type AMF_DATA_TYPE_NULL, [7], 1)"
    by (simp add: amf_decode_def DecodeValue_def)
  from amf_decode_progress [OF d] d show ?thesis by blast
qed

end
