(* ===== verification/RtmpControl.thy ===== *)
theory RtmpControl
  imports RtmpMedia Amf0
begin

text \<open>
  net/rtmp/rtmp_control_handler.cpp: what a session does with a command or a control
  message, and the messages it answers with.  Each handler takes the session and returns
  the return code with the new session, whose \<open>sent\<close> has grown by what was sent; \<open>None\<close> is
  a failed assertion, a read past the message or the division by a zero chunk size.  Numbers
  are double patterns: \<open>double_of_int\<close> and \<open>int64_of_double\<close> are the two conversions that the
  code makes.  The lemmas give the responses that are decoded again by the other side, the
  phases they move the session to, and the commands on which the handlers do not return.
\<close>

section \<open>Doubles\<close>

fun high_bit :: "nat \<Rightarrow> nat" where
  "high_bit n = (if n < 2 then 0 else Suc (high_bit (n div 2)))"

declare high_bit.simps [simp del]

text \<open>The conversion of an integer rounds to the nearest double, and ties to the even one.\<close>

definition double_of_int :: "int \<Rightarrow> u64" where
  "double_of_int i = (if i = 0 then 0
     else let n = nat \<bar>i\<bar>; k = high_bit n; sign = (if i < 0 then 2 ^ 63 else 0);
              q = (if k \<le> 52 then n * 2 ^ (52 - k) else n div 2 ^ (k - 52));
              r = (if k \<le> 52 then 0 else n mod 2 ^ (k - 52));
              up = k > 52 \<and> (2 * r > 2 ^ (k - 52) \<or> 2 * r = 2 ^ (k - 52) \<and> odd q)
          in of_nat (sign + (1023 + k) * 2 ^ 52 + (q - 2 ^ 52) + (if up then 1 else 0)))"

text \<open>
  The cast to \<open>int64_t\<close> truncates; it is undefined for a value out of range, an infinity or
  a NaN.
\<close>

definition int64_of_double :: "u64 \<Rightarrow> int option" where
  "int64_of_double d =
     (let n = unat d; sign = n div 2 ^ 63; e = (n div 2 ^ 52) mod 2 ^ 11; m = n mod 2 ^ 52;
          v = (2 ^ 52 + m) * 2 ^ (e - 1023) div 2 ^ 52
      in if e < 1023 then Some 0
         else if e - 1023 < 63 then Some (if sign = 1 then - int v else int v)
         else if e - 1023 = 63 \<and> m = 0 \<and> sign = 1 then Some (- (2 ^ 63))
         else None)"

section \<open>Reading a command\<close>

text \<open>
  The loop that decodes the items of a command.  It ignores the decoder's return code, so it
  may repeat for ever: then the value of the partial function is \<open>None\<close>.
\<close>

partial_function (option) decode_items ::
  "bytes \<Rightarrow> int \<Rightarrow> amf_iterm list \<Rightarrow> amf_iterm list option" where
  "decode_items p len vec =
     (if len > 0 then
        (case amf_decode p len of
           None \<Rightarrow> None
         | Some (ret, v, p', len') \<Rightarrow> decode_items p' len' (vec @ [v]))
      else Some vec)"

definition amf_vec_of :: "chunk_stream \<Rightarrow> amf_iterm list option" where
  "amf_vec_of c = decode_items (chunk_data c) (int (length (chunk_data c))) []"

section \<open>The client's side\<close>

definition set_client_phase :: "RTMP_CLIENT_SESSION_PHASE \<Rightarrow> rtmp_session \<Rightarrow> rtmp_session" where
  "set_client_phase ph s = s\<lparr>client_phase := ph\<rparr>"

definition in_connect :: "RTMP_CLIENT_SESSION_PHASE \<Rightarrow> bool" where
  "in_connect ph = (ph = client_connect_phase \<or> ph = client_connect_resp_phase)"

definition in_create_stream :: "RTMP_CLIENT_SESSION_PHASE \<Rightarrow> bool" where
  "in_create_stream ph = (ph = client_create_stream_phase \<or> ph = client_create_stream_resp_phase)"

definition in_publish_play :: "RTMP_CLIENT_SESSION_PHASE \<Rightarrow> bool" where
  "in_publish_play ph = (ph = client_create_publish_phase \<or> ph = client_create_play_phase)"

text \<open>One item of a server's command: \<open>None\<close> refuses the command, and otherwise the next phase.\<close>

definition server_item ::
  "rtmp_session \<Rightarrow> amf_iterm \<Rightarrow> RTMP_CLIENT_SESSION_PHASE \<Rightarrow> RTMP_CLIENT_SESSION_PHASE option" where
  "server_item s item next_phase =
     (let ph = client_phase s in
      if amf_type item = AMF_DATA_TYPE_STRING then
        if in_connect ph \<or> in_create_stream ph then
          if desc_str item \<noteq> str ''_result'' \<and> desc_str item \<noteq> str ''onBWDone'' then None
          else Some (if desc_str item = str ''_result'' then
                       (if in_connect ph then client_create_stream_phase
                        else if IsPublish s then client_create_publish_phase
                        else client_create_play_phase)
                     else next_phase)
        else if in_publish_play ph then
          if desc_str item \<noteq> str ''_result'' \<and> desc_str item \<noteq> str ''onStatus''
             \<and> desc_str item \<noteq> str ''onBWDone'' then None
          else Some next_phase
        else Some next_phase
      else if amf_type item = AMF_DATA_TYPE_OBJECT then
        (case obj_find (str ''code'') (amf_obj item) of
           None \<Rightarrow> Some next_phase
         | Some i \<Rightarrow>
             if amf_type i \<noteq> AMF_DATA_TYPE_STRING then Some next_phase
             else if ph = client_connect_phase \<and> desc_str i \<noteq> str ''NetConnection.Connect.Success''
               then None
             else if in_publish_play ph \<and> desc_str i \<noteq> str ''NetStream.Publish.Start''
                  \<and> desc_str i \<noteq> str ''NetStream.Play.Start''
               then None
             else Some next_phase)
      else Some next_phase)"

fun server_items ::
  "rtmp_session \<Rightarrow> amf_iterm list \<Rightarrow> RTMP_CLIENT_SESSION_PHASE \<Rightarrow> RTMP_CLIENT_SESSION_PHASE option" where
  "server_items s [] next_phase = Some next_phase"
| "server_items s (item # items) next_phase =
     (case server_item s item next_phase of
        None \<Rightarrow> None
      | Some ph \<Rightarrow> server_items s items ph)"

definition HandleServerCommandMessage ::
  "chunk_stream \<Rightarrow> rtmp_session \<Rightarrow> (int \<times> amf_iterm list \<times> rtmp_session) option" where
  "HandleServerCommandMessage c s = do {
     amf_vec \<leftarrow> amf_vec_of c;
     if length amf_vec < 1 then Some (-1, amf_vec, s)
     else case server_items s amf_vec (client_phase s) of
         None \<Rightarrow> Some (-1, amf_vec, s)
       | Some ph \<Rightarrow> Some (0, amf_vec, set_client_phase ph s) }"

section \<open>Sending\<close>

definition g_config_chunk_size :: u32 where "g_config_chunk_size = 4096"

definition RTMP_CONTROL_SET_CHUNK_SIZE :: u8 where "RTMP_CONTROL_SET_CHUNK_SIZE = 1"
definition RTMP_CONTROL_ACK :: u8 where "RTMP_CONTROL_ACK = 3"
definition RTMP_CONTROL_WINDOW_ACK_SIZE :: u8 where "RTMP_CONTROL_WINDOW_ACK_SIZE = 5"
definition RTMP_CONTROL_SET_PEER_BANDWIDTH :: u8 where "RTMP_CONTROL_SET_PEER_BANDWIDTH = 6"

lemmas rtmp_controls = RTMP_CONTROL_SET_CHUNK_SIZE_def RTMP_CONTROL_ACK_def
  RTMP_CONTROL_WINDOW_ACK_SIZE_def RTMP_CONTROL_SET_PEER_BANDWIDTH_def

definition control_message :: "u8 \<Rightarrow> u32 \<Rightarrow> u32 \<Rightarrow> u32 \<Rightarrow> bytes" where
  "control_message ty sz val csize = chunk_all (snd (GenControlMessage ty sz val (new_ChunkStream 0 3 csize)))"

definition send_amf :: "u32 \<Rightarrow> bytes \<Rightarrow> rtmp_session \<Rightarrow> rtmp_session option" where
  "send_amf sid amf s = do {
     chunks \<leftarrow> WriteDataByChunkStream 3 0 RTMP_COMMAND_MESSAGES_AMF0 sid (GetChunkSize s) amf;
     Some (send_all chunks s) }"

definition set_server_phase :: "RTMP_SERVER_SESSION_PHASE \<Rightarrow> rtmp_session \<Rightarrow> rtmp_session" where
  "set_server_phase ph s = s\<lparr>server_phase := ph\<rparr>"

definition SendSetChunksize :: "u32 \<Rightarrow> rtmp_session \<Rightarrow> rtmp_session" where
  "SendSetChunksize csize s =
     RtmpSend (control_message RTMP_CONTROL_SET_CHUNK_SIZE 4 csize (GetChunkSize s)) s"

text \<open>The result and status messages: a name, a number, a null or an object, and an object.\<close>

definition status_object :: "bytes \<Rightarrow> bytes \<Rightarrow> (bytes \<times> amf_iterm) list" where
  "status_object code desc = [(str ''code'', amf_string code), (str ''description'', amf_string desc),
     (str ''level'', amf_string (str ''status''))]"

definition connect_resp_amf :: bytes where
  "connect_resp_amf = Encode_string (str ''_result'') False @ Encode_number 0x3FF0000000000000
     @ snd (Encode_map [(str ''capabilities'', amf_number 0x403F000000000000),
                        (str ''fmsVer'', amf_string (str ''FMS/3,0,1,123''))])
     @ snd (Encode_map (status_object (str ''NetConnection.Connect.Success'') (str ''Connection succeeded.'')))"

definition SendRtmpConnectResp :: "u32 \<Rightarrow> rtmp_session \<Rightarrow> (int \<times> rtmp_session) option" where
  "SendRtmpConnectResp sid s = do {
     win_size \<leftarrow> Some (control_message RTMP_CONTROL_WINDOW_ACK_SIZE 4 2500000 (GetChunkSize s));
     peer_bw \<leftarrow> Some (control_message RTMP_CONTROL_SET_PEER_BANDWIDTH 5 2500000 (GetChunkSize s));
     set_chunk_size \<leftarrow> Some (control_message RTMP_CONTROL_SET_CHUNK_SIZE 4 g_config_chunk_size (GetChunkSize s));
     s \<leftarrow> Some (SetChunkSize g_config_chunk_size s);
     s \<leftarrow> Some (RtmpSend set_chunk_size (RtmpSend peer_bw (RtmpSend win_size s)));
     s \<leftarrow> send_amf sid connect_resp_amf s;
     Some (RTMP_OK, set_server_phase create_stream_phase s) }"

definition SendRtmpCreateStreamResp :: "u64 \<Rightarrow> rtmp_session \<Rightarrow> (int \<times> rtmp_session) option" where
  "SendRtmpCreateStreamResp tid s = do {
     amf \<leftarrow> Some (Encode_string (str ''_result'') False @ Encode_number tid @ EncodeNull
                   @ Encode_number (double_of_int (uint (stream_id s))));
     s \<leftarrow> send_amf (stream_id s) amf s;
     Some (RTMP_OK, set_server_phase create_publish_play_phase s) }"

definition onStatus_amf :: "bytes \<Rightarrow> bytes \<Rightarrow> bytes" where
  "onStatus_amf code desc = Encode_string (str ''onStatus'') False @ Encode_number 0 @ EncodeNull
     @ snd (Encode_map (status_object code desc))"

definition SendRtmpPlayResetResp :: "rtmp_session \<Rightarrow> rtmp_session option" where
  "SendRtmpPlayResetResp s =
     send_amf (stream_id s) (onStatus_amf (str ''NetStream.Play.Reset'') (str ''Playing and resetting stream.'')) s"

definition SendRtmpPlayStartResp :: "rtmp_session \<Rightarrow> rtmp_session option" where
  "SendRtmpPlayStartResp s =
     send_amf (stream_id s) (onStatus_amf (str ''NetStream.Play.Start'') (str ''Started playing stream.'')) s"

definition SendRtmpPlayDataResp :: "rtmp_session \<Rightarrow> rtmp_session option" where
  "SendRtmpPlayDataResp s =
     send_amf (stream_id s) (onStatus_amf (str ''NetStream.Data.Start'') (str ''Started playing stream.'')) s"

definition SendRtmpPlayNotifyResp :: "rtmp_session \<Rightarrow> rtmp_session option" where
  "SendRtmpPlayNotifyResp s =
     send_amf (stream_id s) (onStatus_amf (str ''NetStream.Play.PublishNotify'') (str ''Started playing notify.'')) s"

definition SendRtmpPublishResp :: "rtmp_session \<Rightarrow> (int \<times> rtmp_session) option" where
  "SendRtmpPublishResp s = do {
     s \<leftarrow> send_amf (stream_id s) (onStatus_amf (str ''NetStream.Publish.Start'') (str ''Start publising.'')) s;
     Some (RTMP_OK, set_server_phase media_handle_phase s) }"

definition SendRtmpPlayResp :: "rtmp_session \<Rightarrow> (int \<times> rtmp_session) option" where
  "SendRtmpPlayResp s = do {
     s \<leftarrow> Some (RtmpSend (chunk_all (snd (GenSetRecordedMessage (new_ChunkStream 0 3 6)))) s);
     s \<leftarrow> Some (RtmpSend (chunk_all (snd (GenSetBeginMessage (new_ChunkStream 0 3 6)))) s);
     s \<leftarrow> SendRtmpPlayResetResp s;
     s \<leftarrow> SendRtmpPlayStartResp s;
     s \<leftarrow> SendRtmpPlayDataResp s;
     s \<leftarrow> SendRtmpPlayNotifyResp s;
     Some (RTMP_OK, s) }"

definition SendRtmpAck :: "u32 \<Rightarrow> rtmp_session \<Rightarrow> int \<times> rtmp_session" where
  "SendRtmpAck sz s =
     (let s = s\<lparr>ack_received := ack_received s + sz\<rparr> in
      if ack_received s > remote_window_acksize s then
        let (ret, ack) = GenControlMessage RTMP_CONTROL_ACK 4 (GetChunkSize s)
                           (new_ChunkStream 0 3 (GetChunkSize s))
        in (ret, (RtmpSend (chunk_all ack) s)\<lparr>ack_received := 0\<rparr>)
      else (0, s))"

section \<open>The server's side\<close>

definition map_req :: "(RtmpRequest \<Rightarrow> RtmpRequest) \<Rightarrow> rtmp_session \<Rightarrow> rtmp_session" where
  "map_req f s = s\<lparr>req := f (req s)\<rparr>"

text \<open>A string property of the connect object: absent, not a string, or stored.\<close>

definition connect_property ::
  "bytes \<Rightarrow> (bytes \<Rightarrow> RtmpRequest \<Rightarrow> RtmpRequest) \<Rightarrow> amf_iterm \<Rightarrow> rtmp_session \<Rightarrow> int \<times> rtmp_session" where
  "connect_property key put item s = (case obj_find key (amf_obj item) of
     None \<Rightarrow> (0, s)
   | Some i \<Rightarrow> if amf_type i \<noteq> AMF_DATA_TYPE_STRING then (-1, s)
               else (0, map_req (put (desc_str i)) s))"

definition connect_object :: "amf_iterm \<Rightarrow> rtmp_session \<Rightarrow> int \<times> rtmp_session" where
  "connect_object item s =
     (let (r1, s1) = connect_property (str ''app'') (\<lambda>v r. r\<lparr>req_app := v\<rparr>) item s in
      if r1 \<noteq> 0 then (r1, s1)
      else let (r2, s2) = connect_property (str ''tcUrl'') (\<lambda>v r. r\<lparr>tcurl := v\<rparr>) item s1 in
      if r2 \<noteq> 0 then (r2, s2)
      else connect_property (str ''flashVer'') (\<lambda>v r. r\<lparr>flash_ver := v\<rparr>) item s2)"

fun connect_items :: "amf_iterm list \<Rightarrow> rtmp_session \<Rightarrow> int \<times> rtmp_session" where
  "connect_items [] s = (0, s)"
| "connect_items (item # items) s =
     (if amf_type item = AMF_DATA_TYPE_OBJECT then
        let (ret, s') = connect_object item s in
        if ret \<noteq> 0 then (ret, s') else connect_items items s'
      else connect_items items s)"

definition HandleRtmpConnectCommand ::
  "u32 \<Rightarrow> amf_iterm list \<Rightarrow> rtmp_session \<Rightarrow> (int \<times> rtmp_session) option" where
  "HandleRtmpConnectCommand sid amf_vec s =
     (if length amf_vec < 3 then Some (-1, s)
      else let (ret, s') = connect_items (tl amf_vec) s in
        if ret \<noteq> 0 then Some (ret, s') else SendRtmpConnectResp (stream_id s') s')"

text \<open>The transaction id is the last number of a command; storing it casts the double.\<close>

fun store_numbers :: "amf_iterm list \<Rightarrow> u64 \<Rightarrow> rtmp_session \<Rightarrow> (u64 \<times> rtmp_session) option" where
  "store_numbers [] tid s = Some (tid, s)"
| "store_numbers (item # items) tid s =
     (if amf_type item = AMF_DATA_TYPE_NUMBER then do {
        i \<leftarrow> int64_of_double (number item);
        store_numbers items (number item) (map_req (\<lambda>r. r\<lparr>transaction_id := i\<rparr>) s) }
      else store_numbers items tid s)"

text \<open>The stream name is the first string that is not empty.\<close>

fun first_string :: "amf_iterm list \<Rightarrow> bytes \<Rightarrow> bytes" where
  "first_string [] nm = nm"
| "first_string (item # items) nm =
     first_string items (if amf_type item = AMF_DATA_TYPE_STRING \<and> nm = [] then desc_str item else nm)"

definition HandleRtmpCreatestreamCommand ::
  "u32 \<Rightarrow> amf_iterm list \<Rightarrow> rtmp_session \<Rightarrow> (int \<times> rtmp_session) option" where
  "HandleRtmpCreatestreamCommand sid amf_vec s =
     (if length amf_vec < 3 then Some (-1, s)
      else do {
        (tid, s) \<leftarrow> store_numbers (tl amf_vec) 0 (map_req (\<lambda>r. r\<lparr>req_stream_id := sid\<rparr>) s);
        SendRtmpCreateStreamResp tid s })"

definition start_stream :: "bool \<Rightarrow> bytes \<Rightarrow> rtmp_session \<Rightarrow> rtmp_session" where
  "start_stream publish name s = map_req (\<lambda>r. r\<lparr>stream_name := name, publish_flag := publish,
     is_ready := True, req_key := req_app r @ str ''/'' @ name\<rparr>) s"

definition HandleRtmpPlayCommand ::
  "u32 \<Rightarrow> amf_iterm list \<Rightarrow> rtmp_session \<Rightarrow> (int \<times> rtmp_session) option" where
  "HandleRtmpPlayCommand sid amf_vec s =
     (if length amf_vec < 3 then Some (-1, s)
      else do {
        (tid, s) \<leftarrow> store_numbers (tl amf_vec) 0 s;
        SendRtmpPlayResp (start_stream False (first_string (tl amf_vec) []) s) })"

definition HandleRtmpPublishCommand ::
  "u32 \<Rightarrow> amf_iterm list \<Rightarrow> rtmp_session \<Rightarrow> (int \<times> rtmp_session) option" where
  "HandleRtmpPublishCommand sid amf_vec s =
     (if length amf_vec < 3 then Some (-1, s)
      else do {
        (tid, s) \<leftarrow> store_numbers (tl amf_vec) 0 s;
        SendRtmpPublishResp (start_stream True (first_string (tl amf_vec) []) s) })"

definition HandleClientCommandMessage ::
  "chunk_stream \<Rightarrow> rtmp_session \<Rightarrow> (int \<times> amf_iterm list \<times> rtmp_session) option" where
  "HandleClientCommandMessage c s = do {
     amf_vec \<leftarrow> amf_vec_of c;
     if length amf_vec < 1 then Some (-1, amf_vec, s)
     else if amf_type (hd amf_vec) \<noteq> AMF_DATA_TYPE_STRING then Some (-1, amf_vec, s)
     else do {
       cmd \<leftarrow> Some (desc_str (hd amf_vec));
       (ret, s) \<leftarrow> (if cmd = str ''connect'' then HandleRtmpConnectCommand (msg_stream_id c) amf_vec s
                    else if cmd = str ''createStream'' then
                      HandleRtmpCreatestreamCommand (msg_stream_id c) amf_vec s
                    else if cmd = str ''publish'' then HandleRtmpPublishCommand (msg_stream_id c) amf_vec s
                    else if cmd = str ''play'' then HandleRtmpPlayCommand (msg_stream_id c) amf_vec s
                    else Some (0, s));
       Some (if ret = RTMP_OK then
               (if is_ready (req s) \<and> \<not> publish_flag (req s) then ret else RTMP_NEED_READ_MORE)
             else ret, amf_vec, s) } }"

definition HandleRtmpControlMessage :: "chunk_stream \<Rightarrow> rtmp_session \<Rightarrow> (int \<times> rtmp_session) option" where
  "HandleRtmpControlMessage c s =
     (if type_id c = RTMP_CONTROL_SET_CHUNK_SIZE then
        if length (chunk_data c) < 4 then Some (-1, s)
        else do {
          n \<leftarrow> Read4Bytes (chunk_data c);
          s \<leftarrow> Some (SetChunkSize n s);
          Some (RTMP_OK, SendSetChunksize (GetChunkSize s) s) }
      else if type_id c = RTMP_CONTROL_WINDOW_ACK_SIZE then
        if length (chunk_data c) < 4 then Some (-1, s)
        else do {
          n \<leftarrow> Read4Bytes (chunk_data c);
          Some (RTMP_OK, s\<lparr>remote_window_acksize := n\<rparr>) }
      else Some (RTMP_OK, s))"

section \<open>What the command loop sees\<close>

lemma decode_items_done: "len \<le> 0 \<Longrightarrow> decode_items p len vec = Some vec"
  by (subst decode_items.simps) simp

lemma decode_items_step:
  "0 < len \<Longrightarrow> amf_decode p len = Some (ret, v, p', len') \<Longrightarrow>
   decode_items p len vec = decode_items p' len' (vec @ [v])"
  by (subst decode_items.simps) simp

lemma int_length_pos: "xs \<noteq> [] \<Longrightarrow> 0 < int (length (xs @ ys))"
  by (cases xs) auto

lemma decode_items_writes:
  assumes "writes b v"
  shows "decode_items (b @ r) (int (length (b @ r))) vec = decode_items r (int (length r)) (vec @ [v])"
proof -
  from assms have "b \<noteq> []" and d: "amf_decode (b @ r) (int (length (b @ r)))
      = Some (0, v, r, int (length (b @ r)) - int (length b))"
    by (auto simp: writes_def)
  then have "0 < int (length (b @ r))" by (intro int_length_pos)
  from decode_items_step [OF this d] show ?thesis by simp
qed

text \<open>An object is followed by the item that its end marker makes.\<close>

lemma decode_items_object:
  assumes "good_entries m"
  shows "decode_items (snd (Encode_map m) @ r) (int (length (snd (Encode_map m) @ r))) vec =
    decode_items r (int (length r)) (vec @ [amf_object m, new_AMF_ITERM])"
proof -
  let ?e = "snd (Encode_map m)"
  have "?e \<noteq> []" by (cases "Encode_entries m") (simp add: Encode_map_def)
  then have len: "0 < int (length (?e @ r))" by (rule int_length_pos)
  have "amf_decode (?e @ r) (int (length (?e @ r))) =
      Some (0, amf_object m, amf_code AMF_DATA_TYPE_OBJECT_END # r, int (length (?e @ r)) - int (length ?e) + 1)"
    using decode_written_object [OF assms, of "int (length (?e @ r))" r] by simp
  from decode_items_step [OF len this]
  have "decode_items (?e @ r) (int (length (?e @ r))) vec =
      decode_items (9 # r) (int (length r) + 1) (vec @ [amf_object m])" by simp
  also have "\<dots> = decode_items r (int (length r)) ((vec @ [amf_object m]) @ [new_AMF_ITERM])"
    by (rule decode_items_step) (simp_all add: amf_decode_def DecodeValue_def)
  finally show ?thesis by simp
qed

lemma good_status_object:
  "length code \<le> 0xffff \<Longrightarrow> length desc \<le> 0xffff \<Longrightarrow> good_entries (status_object code desc)"
  by (auto simp: status_object_def str_def intro!: plain.intros)

lemma onStatus_items:
  assumes "length code \<le> 0xffff" "length desc \<le> 0xffff"
  shows "decode_items (onStatus_amf code desc) (int (length (onStatus_amf code desc))) [] =
    Some [amf_string (str ''onStatus''), amf_number 0, amf_of_type AMF_DATA_TYPE_NULL,
          amf_object (status_object code desc), new_AMF_ITERM]"
  using decode_items_object [OF good_status_object [OF assms], of "[]"]
  by (simp add: onStatus_amf_def decode_items_writes [OF writes_items(2)] decode_items_writes [OF writes_items(1)]
      decode_items_writes [OF writes_items(3)] decode_items_done
      del: length_append)

lemma decode_items_stuck:
  assumes "decode_items p len vec = Some r" shows "\<not> (0 < len \<and> p \<noteq> [] \<and> 0x0d < hd p)"
  using assms
proof (induction rule: decode_items.raw_induct [rotated 1, consumes 1])
  case (1 f p len vec r)
  show ?case
  proof
    assume a: "0 < len \<and> p \<noteq> [] \<and> 0x0d < hd p"
    then have "amf_decode p len = Some (-1, new_AMF_ITERM, p, len)"
      by (cases p) (simp_all add: amf_decode_def)
    with 1(2) a have "f p len (vec @ [new_AMF_ITERM]) = Some r" by simp
    from 1(1) [OF this] a show False by blast
  qed
qed

lemma chunk_message_some:
  "csize \<noteq> 0 \<Longrightarrow> \<exists>chunks. WriteDataByChunkStream csid ts tid sid csize input = Some chunks"
  by (simp add: WriteDataByChunkStream_def Let_def)

lemma send_amf_some:
  "sess_chunk_size s \<noteq> 0 \<Longrightarrow> \<exists>out. send_amf sid amf s = Some (s\<lparr>sent := sent s @ out\<rparr>)"
  using chunk_message_some [of "sess_chunk_size s" 3 0 RTMP_COMMAND_MESSAGES_AMF0 sid amf]
  by (auto simp: send_amf_def GetChunkSize_def sent_send_all)

lemma send_amf_simps:
  "send_amf sid amf s = Some s' \<Longrightarrow> \<exists>out. s' = s\<lparr>sent := sent s @ out\<rparr>"
  by (auto simp: send_amf_def bind_Some_iff sent_send_all)

section \<open>The properties of the command handlers\<close>

text \<open>Where the decoder gets to in a message: from \<open>p\<close> with \<open>len\<close> bytes left, item by item, to \<open>q\<close> with \<open>n\<close> left.\<close>

inductive reads_to :: "bytes \<Rightarrow> int \<Rightarrow> bytes \<Rightarrow> int \<Rightarrow> bool" where
  reads_here: "reads_to p len p len"
| reads_item: "0 < len \<Longrightarrow> amf_decode p len = Some (ret, v, p', len') \<Longrightarrow> reads_to p' len' q n \<Longrightarrow> reads_to p len q n"

lemma decode_items_reads: "reads_to p len q n \<Longrightarrow> \<exists>vec'. decode_items p len vec = decode_items q n vec'"
proof (induction p len q n arbitrary: vec rule: reads_to.induct)
  case (reads_item len p ret v p' len' q n)
  then show ?case using decode_items_step [OF reads_item.hyps(1,2)] by auto
qed auto

text \<open>
  C11: a command in which the decoder, after any number of items, gets to one that starts with a byte above 0x0d stops the session for ever:
  the decoder refuses the byte without consuming it, the loop ignores the refusal, and both
  command handlers never return (they have no value), whatever the session's state is.
\<close>

theorem unknown_type_byte_hangs:
  assumes "reads_to (chunk_data c) (int (length (chunk_data c))) (b # rest) n" and "0 < n" and "0x0d < b"
  shows "amf_decode (b # rest) n = Some (-1, new_AMF_ITERM, b # rest, n) \<and>
    HandleServerCommandMessage c s = None \<and> HandleClientCommandMessage c s = None"
proof -
  have d: "amf_decode (b # rest) n = Some (-1, new_AMF_ITERM, b # rest, n)"
    using assms(3) by (simp add: amf_decode_def)
  obtain vec where v: "amf_vec_of c = decode_items (b # rest) n vec"
    using decode_items_reads [OF assms(1)] unfolding amf_vec_of_def by blast
  have "amf_vec_of c = None"
    using decode_items_stuck [of "b # rest" n vec] assms(2,3) unfolding v
    by (cases "decode_items (b # rest) n vec") auto
  with d show ?thesis by (simp add: HandleServerCommandMessage_def HandleClientCommandMessage_def)
qed

text \<open>A null item, and then the type byte of AMF3.\<close>

theorem unknown_type_byte_hangs_witness:
  "HandleClientCommandMessage ((new_ChunkStream 0 3 128)\<lparr>chunk_data := [0x05, 0x11, 0]\<rparr>) new_RtmpSessionBase = None"
proof -
  let ?c = "(new_ChunkStream 0 3 128)\<lparr>chunk_data := [0x05, 0x11, 0]\<rparr>"
  have "reads_to (EncodeNull @ [0x11, 0]) (int (length (EncodeNull @ [0x11, 0]))) [0x11, 0] 2"
    using writes_items(3) by (auto simp: writes_def EncodeNull_def intro!: reads_item [OF _ _ reads_here])
  then have "reads_to (chunk_data ?c) (int (length (chunk_data ?c))) [0x11, 0] 2" by (simp add: EncodeNull_def)
  from unknown_type_byte_hangs [OF this] show ?thesis by simp
qed

lemma connect_resp_items:
  "decode_items connect_resp_amf (int (length connect_resp_amf)) [] =
    Some [amf_string (str ''_result''), amf_number 0x3FF0000000000000,
      amf_object [(str ''capabilities'', amf_number 0x403F000000000000), (str ''fmsVer'', amf_string (str ''FMS/3,0,1,123''))],
      new_AMF_ITERM,
      amf_object (status_object (str ''NetConnection.Connect.Success'') (str ''Connection succeeded.'')), new_AMF_ITERM]"
proof -
  have g: "good_entries [(str ''capabilities'', amf_number 0x403F000000000000), (str ''fmsVer'', amf_string (str ''FMS/3,0,1,123''))]"
    by (auto simp: str_def intro!: plain.intros)
  have g2: "good_entries (status_object (str ''NetConnection.Connect.Success'') (str ''Connection succeeded.''))"
    by (rule good_status_object) simp_all
  show ?thesis
    using decode_items_object [OF g2, of "[]"] decode_items_object [OF g]
    by (simp add: connect_resp_amf_def decode_items_writes [OF writes_items(2)]
        decode_items_writes [OF writes_items(1)] decode_items_done del: length_append)
qed

text \<open>
  C9: the answer that this program's server side sends to a connect command is accepted by
  its client side: the client that waits for it goes on to create a stream, and nothing else
  of its state changes.
\<close>

theorem connect_response_accepted:
  assumes "chunk_data c = connect_resp_amf" and "client_phase s = client_connect_resp_phase"
  shows "\<exists>vec. HandleServerCommandMessage c s = Some (0, vec, s\<lparr>client_phase := client_create_stream_phase\<rparr>)"
proof -
  have "amf_vec_of c = Some [amf_string (str ''_result''), amf_number 0x3FF0000000000000,
      amf_object [(str ''capabilities'', amf_number 0x403F000000000000), (str ''fmsVer'', amf_string (str ''FMS/3,0,1,123''))],
      new_AMF_ITERM,
      amf_object (status_object (str ''NetConnection.Connect.Success'') (str ''Connection succeeded.'')), new_AMF_ITERM]"
    unfolding amf_vec_of_def assms(1) by (rule connect_resp_items)
  moreover have "str ''code'' \<noteq> str ''capabilities''" "str ''code'' \<noteq> str ''fmsVer''"
    by (simp_all add: str_def)
  ultimately show ?thesis
    using assms(2)
    by (simp add: HandleServerCommandMessage_def server_item_def Let_def in_connect_def in_create_stream_def
        in_publish_play_def obj_find_def status_object_def set_client_phase_def)
qed

theorem connect_response_accepted_witness:
  "\<exists>vec. HandleServerCommandMessage ((new_ChunkStream 0 3 128)\<lparr>chunk_data := connect_resp_amf\<rparr>)
      (new_RtmpSessionBase\<lparr>client_phase := client_connect_resp_phase\<rparr>) =
    Some (0, vec, (new_RtmpSessionBase\<lparr>client_phase := client_connect_resp_phase\<rparr>)\<lparr>client_phase := client_create_stream_phase\<rparr>)"
  by (rule connect_response_accepted) simp_all

text \<open>
  C12: a peer that announces a chunk size of zero can stop the process: the announcement is accepted and
  stored, and in the state it leaves, as in every state with this chunk size, each send of an AMF message, such as
  the answer to a createStream command, or of a video or audio packet divides by zero.  The answer to a connect command
  still goes out, since it sets the configured chunk size before it sends its message.
\<close>

theorem zero_chunk_size_stops:
  assumes "type_id c = RTMP_CONTROL_SET_CHUNK_SIZE" and "chunk_data c = [0, 0, 0, 0]"
    and "av_type pkt = MEDIA_VIDEO_TYPE \<or> av_type pkt = MEDIA_AUDIO_TYPE"
  shows "\<exists>s'. HandleRtmpControlMessage c s = Some (RTMP_OK, s') \<and> sess_chunk_size s' = 0 \<and>
    (\<forall>t. sess_chunk_size t = 0 \<longrightarrow> send_amf sid amf t = None \<and> SendRtmpCreateStreamResp tr t = None \<and> RtmpWrite True pkt t = None \<and>
      (\<exists>t'. SendRtmpConnectResp sid t = Some (RTMP_OK, t') \<and> sess_chunk_size t' = g_config_chunk_size))"
proof -
  have zero: "send_amf i x t = None" "SendRtmpCreateStreamResp tr t = None" "RtmpWrite True pkt t = None"
    if "sess_chunk_size t = 0" for t i x
    using that assms(3)
    by (auto simp: send_amf_def RtmpWrite_def WriteDataByChunkStream_def GetChunkSize_def SendRtmpCreateStreamResp_def)
  have conn: "\<exists>t'. SendRtmpConnectResp sid t = Some (RTMP_OK, t') \<and> sess_chunk_size t' = g_config_chunk_size" for t
  proof -
    let ?u = "RtmpSend (control_message RTMP_CONTROL_SET_CHUNK_SIZE 4 g_config_chunk_size (GetChunkSize t))
      (RtmpSend (control_message RTMP_CONTROL_SET_PEER_BANDWIDTH 5 2500000 (GetChunkSize t))
        (RtmpSend (control_message RTMP_CONTROL_WINDOW_ACK_SIZE 4 2500000 (GetChunkSize t)) (SetChunkSize g_config_chunk_size t)))"
    have u: "sess_chunk_size ?u = g_config_chunk_size" by (simp add: RtmpSend_def SetChunkSize_def)
    then have "sess_chunk_size ?u \<noteq> 0" by (simp add: g_config_chunk_size_def)
    from send_amf_some [OF this, of sid connect_resp_amf] obtain out where
      "send_amf sid connect_resp_amf ?u = Some (?u\<lparr>sent := sent ?u @ out\<rparr>)" by blast
    then show ?thesis using u by (simp add: SendRtmpConnectResp_def set_server_phase_def)
  qed
  have "Read4Bytes [0, 0, 0, 0] = Some 0" by (simp add: Read4Bytes_def read_be_def grab_def be_val_def)
  then show ?thesis
    using assms(1,2) zero conn
    by (auto simp: HandleRtmpControlMessage_def SetChunkSize_def SendSetChunksize_def RtmpSend_def)
qed

theorem zero_chunk_size_stops_witness:
  "\<exists>s'. HandleRtmpControlMessage ((new_ChunkStream 0 2 128)\<lparr>type_id := 1, chunk_data := [0, 0, 0, 0]\<rparr>)
      new_RtmpSessionBase = Some (RTMP_OK, s') \<and> send_amf 1 [5] s' = None \<and>
    RtmpWrite True example_video s' = None"
proof -
  let ?c = "(new_ChunkStream 0 2 128)\<lparr>type_id := 1, chunk_data := [0, 0, 0, 0]\<rparr>"
  have "\<exists>s'. HandleRtmpControlMessage ?c new_RtmpSessionBase = Some (RTMP_OK, s') \<and> sess_chunk_size s' = 0 \<and>
    (\<forall>t. sess_chunk_size t = 0 \<longrightarrow> send_amf 1 [5] t = None \<and> SendRtmpCreateStreamResp 0 t = None \<and> RtmpWrite True example_video t = None \<and>
      (\<exists>t'. SendRtmpConnectResp 1 t = Some (RTMP_OK, t') \<and> sess_chunk_size t' = g_config_chunk_size))"
    by (rule zero_chunk_size_stops) (simp_all add: RTMP_CONTROL_SET_CHUNK_SIZE_def example_video_def)
  then show ?thesis by blast
qed

end
