(* ===== verification/RtmpClient.thy ===== *)
theory RtmpClient
  imports RtmpControl
begin

text \<open>
  net/rtmp/rtmp_client_session.cpp: the client of an RTMP connection, from the handshake to
  the media phase.  The record \<open>rtmp_client\<close> is the session with the callbacks it has made,
  in order; the callbacks' own code is not part of the program's core and only recorded.
  The handshake block that the client sends (\<open>c2\<close>, random bytes and the clock) and the
  decimal text of a double (\<open>dtos\<close>, \<open>std::to_string\<close>) are parameters.  The lemmas show that
  the receive loop ends, that the phases only go forward, and what the commands of the
  client do on this program's server side.
\<close>

datatype ctrl_event =
    OnRtmpHandShakeRecvS0S1S2 int bytes
  | OnRtmpConnectSend int "(bytes \<times> bytes) list"
  | OnRtmpConnectRecv int bytes int "(bytes \<times> bytes) list"
  | OnRtmpChunkSize int u32
  | OnRtmpWindowSize int u32
  | OnRtmpBandWidth int u32
  | OnRtmpCtrlAck
  | OnRtmpCreateStreamSend int int
  | OnRtmpCreateStreamRecv int bytes int int "(bytes \<times> bytes) list"
  | OnRtmpPlayPublishSend bytes int bytes
  | OnRtmpPlayPublishRecv int bytes int "(bytes \<times> bytes) list"
  | OnMessage int media_packet

record rtmp_client =
  sess :: rtmp_session
  events :: "ctrl_event list"

definition event :: "ctrl_event \<Rightarrow> rtmp_client \<Rightarrow> rtmp_client" where
  "event e c = c\<lparr>events := events c @ [e]\<rparr>"

definition map_sess :: "(rtmp_session \<Rightarrow> rtmp_session) \<Rightarrow> rtmp_client \<Rightarrow> rtmp_client" where
  "map_sess f c = c\<lparr>sess := f (sess c)\<rparr>"

definition phase_of :: "rtmp_client \<Rightarrow> RTMP_CLIENT_SESSION_PHASE" where
  "phase_of c = client_phase (sess c)"

definition set_phase :: "RTMP_CLIENT_SESSION_PHASE \<Rightarrow> rtmp_client \<Rightarrow> rtmp_client" where
  "set_phase ph c = map_sess (set_client_phase ph) c"

definition reset_recv :: "rtmp_client \<Rightarrow> rtmp_client" where
  "reset_recv c = map_sess (\<lambda>s. s\<lparr>recv_buffer := []\<rparr>) c"

section \<open>Reports\<close>

definition reportCtrlMsg :: "chunk_stream \<Rightarrow> rtmp_client \<Rightarrow> rtmp_client" where
  "reportCtrlMsg cs c =
     (let report = (\<lambda>ev. case Read4Bytes (chunk_data cs) of
                          None \<Rightarrow> event (ev (-1) 0) c
                        | Some n \<Rightarrow> event (ev 0 n) c)
      in if type_id cs = RTMP_CONTROL_SET_CHUNK_SIZE then report OnRtmpChunkSize
         else if type_id cs = RTMP_CONTROL_WINDOW_ACK_SIZE then report OnRtmpWindowSize
         else if type_id cs = RTMP_CONTROL_SET_PEER_BANDWIDTH then report OnRtmpBandWidth
         else if type_id cs = RTMP_CONTROL_ACK then event OnRtmpCtrlAck c
         else c)"

definition item_text :: "(u64 \<Rightarrow> bytes) \<Rightarrow> amf_iterm \<Rightarrow> bytes" where
  "item_text dtos i =
     (if amf_type i = AMF_DATA_TYPE_STRING then desc_str i
      else if amf_type i = AMF_DATA_TYPE_NUMBER then dtos (number i)
      else if amf_type i = AMF_DATA_TYPE_BOOL then str (if enable i then ''enable'' else ''disable'')
      else [])"

definition getItemMap ::
  "(u64 \<Rightarrow> bytes) \<Rightarrow> amf_iterm \<Rightarrow> (bytes \<times> bytes) list \<Rightarrow> (bytes \<times> bytes) list" where
  "getItemMap dtos item items =
     (if amf_type item \<noteq> AMF_DATA_TYPE_OBJECT then items
      else fold (\<lambda>(k, v) m. if k \<noteq> [] \<and> item_text dtos v \<noteq> [] then obj_insert k (item_text dtos v) m else m)
             (amf_obj item) items)"

text \<open>The loop that the three reports share: the last string, the last number and the objects.\<close>

fun scan_resp ::
  "(u64 \<Rightarrow> bytes) \<Rightarrow> amf_iterm list \<Rightarrow> bytes \<times> int \<times> (bytes \<times> bytes) list \<Rightarrow>
   (bytes \<times> int \<times> (bytes \<times> bytes) list) option" where
  "scan_resp dtos [] r = Some r"
| "scan_resp dtos (item # vec) (result, tid, items) =
     (let result = (if amf_type item = AMF_DATA_TYPE_STRING then desc_str item else result);
          items = getItemMap dtos item items
      in if amf_type item = AMF_DATA_TYPE_NUMBER then
           (case int64_of_double (number item) of
              None \<Rightarrow> None
            | Some tid \<Rightarrow> scan_resp dtos vec (result, tid, items))
         else scan_resp dtos vec (result, tid, items))"

definition reportConnectRespAmf ::
  "(u64 \<Rightarrow> bytes) \<Rightarrow> amf_iterm list \<Rightarrow> rtmp_client \<Rightarrow> rtmp_client option" where
  "reportConnectRespAmf dtos vec c = do {
     (result, tid, items) \<leftarrow> scan_resp dtos vec ([], 0, []);
     Some (event (OnRtmpConnectRecv 0 result tid items) c) }"

text \<open>The index of the create stream report is never advanced: the stream id stays 0.\<close>

definition reportCreateStreamRespAmf ::
  "(u64 \<Rightarrow> bytes) \<Rightarrow> amf_iterm list \<Rightarrow> rtmp_client \<Rightarrow> rtmp_client option" where
  "reportCreateStreamRespAmf dtos vec c = do {
     (result, tid, items) \<leftarrow> scan_resp dtos vec ([], 0, []);
     Some (event (OnRtmpCreateStreamRecv 0 result tid 0 items) c) }"

definition reportPlayPublishRespAmf ::
  "(u64 \<Rightarrow> bytes) \<Rightarrow> amf_iterm list \<Rightarrow> rtmp_client \<Rightarrow> rtmp_client option" where
  "reportPlayPublishRespAmf dtos vec c = do {
     (status, tid, items) \<leftarrow> scan_resp dtos vec ([], 0, []);
     Some (event (OnRtmpPlayPublishRecv 0 status tid items) c) }"

section \<open>Commands\<close>

definition send_command :: "bytes \<Rightarrow> rtmp_client \<Rightarrow> (int \<times> rtmp_client) option" where
  "send_command amf c = do {
     s \<leftarrow> send_amf 0 amf (sess c);
     Some (RTMP_OK, c\<lparr>sess := s\<rparr>) }"

definition transid :: "rtmp_client \<Rightarrow> u64" where
  "transid c = double_of_int (transaction_id (req (sess c)))"

definition connect_object_of :: "RtmpRequest \<Rightarrow> (bytes \<times> amf_iterm) list" where
  "connect_object_of r = [(str ''app'', amf_string (req_app r)), (str ''flashVer'', amf_string (str ''FMS.3.1'')),
     (str ''tcUrl'', amf_string (tcurl r)), (str ''type'', amf_string (str ''nonprivate''))]"

definition RtmpConnect :: "(u64 \<Rightarrow> bytes) \<Rightarrow> rtmp_client \<Rightarrow> (int \<times> rtmp_client) option" where
  "RtmpConnect dtos c =
     (let r = req (sess c) in
      send_command (Encode_string (str ''connect'') False @ Encode_number (transid c)
                    @ snd (Encode_map (connect_object_of r)))
        (event (OnRtmpConnectSend 0 [(str ''app'', req_app r), (str ''connect'', dtos (transid c)),
            (str ''flashVer'', str ''FMS.3.1''), (str ''tcUrl'', tcurl r), (str ''type'', str ''nonprivate'')]) c))"

definition RtmpCreatestream :: "rtmp_client \<Rightarrow> (int \<times> rtmp_client) option" where
  "RtmpCreatestream c = do {
     i \<leftarrow> int64_of_double (transid c);
     send_command (Encode_string (str ''createStream'') False @ Encode_number (transid c) @ EncodeNull)
       (event (OnRtmpCreateStreamSend 0 i) c) }"

definition play_amf :: "bytes \<Rightarrow> bytes" where
  "play_amf name = Encode_string (str ''play'') False @ Encode_number 0 @ EncodeNull @ Encode_string name False"

definition publish_amf :: "bytes \<Rightarrow> bytes" where
  "publish_amf name = Encode_string (str ''publish'') False @ Encode_number 0 @ EncodeNull
     @ Encode_string name False @ Encode_string (str ''live'') False"

definition RtmpPlay :: "rtmp_client \<Rightarrow> (int \<times> rtmp_client) option" where
  "RtmpPlay c = (let name = stream_name (req (sess c)) in
     send_command (play_amf name) (event (OnRtmpPlayPublishSend (str ''play'') 0 name) c))"

definition RtmpPublish :: "rtmp_client \<Rightarrow> (int \<times> rtmp_client) option" where
  "RtmpPublish c = (let name = stream_name (req (sess c)) in
     send_command (publish_amf name) (event (OnRtmpPlayPublishSend (str ''publish'') 0 name) c))"

section \<open>The receive loop\<close>

datatype loop_exit = Return int | Continue

definition cs_ptr :: "u8 \<Rightarrow> rtmp_session \<Rightarrow> chunk_stream option" where
  "cs_ptr key s = cs_map s key"

definition reset_stream :: "u8 \<Rightarrow> rtmp_client \<Rightarrow> rtmp_client" where
  "reset_stream key c = map_sess (\<lambda>s. s\<lparr>cs_map := (case cs_map s key of
      None \<Rightarrow> cs_map s | Some cs \<Rightarrow> (cs_map s)(key \<mapsto> cs_Reset cs))\<rparr>) c"

definition more_or :: "int \<Rightarrow> rtmp_client \<Rightarrow> loop_exit \<times> rtmp_client" where
  "more_or ret c = (if length (recv_buffer (sess c)) > 0 then Continue else Return ret, c)"

definition report_command ::
  "(u64 \<Rightarrow> bytes) \<Rightarrow> RTMP_CLIENT_SESSION_PHASE \<Rightarrow> amf_iterm list \<Rightarrow> rtmp_client \<Rightarrow> rtmp_client option" where
  "report_command dtos ph vec c =
     (if ph = client_connect_resp_phase then reportConnectRespAmf dtos vec c
      else if ph = client_create_stream_resp_phase then reportCreateStreamRespAmf dtos vec c
      else if ph = client_create_playpublish_resp_phase then
        map_option (set_phase client_media_handle_phase) (reportPlayPublishRespAmf dtos vec c)
      else Some c)"

text \<open>One complete message.  A chunk size control message and the others return 0 when the buffer is empty.\<close>

definition dispatch ::
  "(u64 \<Rightarrow> bytes) \<Rightarrow> u8 \<Rightarrow> chunk_stream \<Rightarrow> rtmp_client \<Rightarrow> (loop_exit \<times> rtmp_client) option" where
  "dispatch dtos key cs c =
     (if 1 \<le> type_id cs \<and> type_id cs \<le> 6 then do {
        (ret, s) \<leftarrow> HandleRtmpControlMessage cs (sess c);
        c \<leftarrow> Some (c\<lparr>sess := s\<rparr>);
        if ret < RTMP_OK then Some (Return ret, c)
        else Some (more_or ret (reset_stream key (reportCtrlMsg cs c))) }
      else if type_id cs = RTMP_COMMAND_MESSAGES_AMF0 then do {
        current_phase \<leftarrow> Some (phase_of c);
        (ret, vec, s) \<leftarrow> HandleServerCommandMessage cs (sess c);
        c \<leftarrow> Some (c\<lparr>sess := s\<rparr>);
        if ret < RTMP_OK then Some (Return ret, c)
        else do {
          c \<leftarrow> report_command dtos current_phase vec c;
          Some (more_or ret (reset_stream key c)) } }
      else if type_id cs = RTMP_MEDIA_PACKET_VIDEO \<or> type_id cs = RTMP_MEDIA_PACKET_AUDIO
           \<or> type_id cs = RTMP_COMMAND_MESSAGES_META_DATA0 \<or> type_id cs = RTMP_COMMAND_MESSAGES_META_DATA3
      then do {
        pkt \<leftarrow> GetMediaPacket cs (sess c);
        case pkt of
          None \<Rightarrow> Some (Return (-1), c)
        | Some pkt \<Rightarrow>
            if pkt_data pkt = [] then Some (Return (-1), c)
            else Some (Continue, reset_stream key (event (OnMessage RTMP_OK pkt) c)) }
      else Some (Continue, c))"

text \<open>No handler touches what the loop's measure counts.\<close>

definition same_input :: "rtmp_session \<Rightarrow> rtmp_session \<Rightarrow> bool" where
  "same_input s s' \<longleftrightarrow> recv_buffer s' = recv_buffer s \<and> fmt_ready s' = fmt_ready s \<and> sess_fmt s' = sess_fmt s"

lemma same_input_pending: "same_input s s' \<Longrightarrow> pending s' = pending s"
  by (simp add: same_input_def pending_def)

lemma same_input_refl [simp]: "same_input s s"
  by (simp add: same_input_def)

lemma HandleRtmpControlMessage_input:
  "HandleRtmpControlMessage cs s = Some (ret, s') \<Longrightarrow> same_input s s'"
  by (auto simp: HandleRtmpControlMessage_def same_input_def SetChunkSize_def SendSetChunksize_def
        RtmpSend_def bind_Some_iff split: if_splits)

lemma HandleServerCommandMessage_input:
  "HandleServerCommandMessage cs s = Some (ret, vec, s') \<Longrightarrow> same_input s s'"
  by (auto simp: HandleServerCommandMessage_def same_input_def set_client_phase_def bind_Some_iff
        split: if_splits option.splits)

lemma event_sess [simp]: "sess (event e c) = sess c"
  by (simp add: event_def)

lemma reportCtrlMsg_sess [simp]: "sess (reportCtrlMsg cs c) = sess c"
  by (simp add: reportCtrlMsg_def Let_def split: option.split)

lemma reset_stream_input: "same_input s (sess c) \<Longrightarrow> same_input s (sess (reset_stream key c))"
  by (simp add: same_input_def reset_stream_def map_sess_def)

lemma same_input_trans: "same_input s s1 \<Longrightarrow> same_input s1 s2 \<Longrightarrow> same_input s s2"
  by (simp add: same_input_def)

lemma report_command_input:
  "report_command dtos ph vec c = Some c' \<Longrightarrow> same_input (sess c) (sess c')"
  by (auto simp: report_command_def reportConnectRespAmf_def reportCreateStreamRespAmf_def
        reportPlayPublishRespAmf_def bind_Some_iff same_input_def set_phase_def map_sess_def
        set_client_phase_def split: if_splits)

lemma more_or_input: "more_or r (reset_stream key c) = (ex, c') \<Longrightarrow> same_input s (sess c) \<Longrightarrow> same_input s (sess c')"
  by (auto simp: more_or_def intro: reset_stream_input)

lemma dispatch_input:
  assumes "dispatch dtos key cs c = Some (ex, c')" shows "same_input (sess c) (sess c')"
proof -
  consider (control) "1 \<le> type_id cs \<and> type_id cs \<le> 6"
    | (command) "\<not> (1 \<le> type_id cs \<and> type_id cs \<le> 6)" "type_id cs = RTMP_COMMAND_MESSAGES_AMF0"
    | (other) "\<not> (1 \<le> type_id cs \<and> type_id cs \<le> 6)" "type_id cs \<noteq> RTMP_COMMAND_MESSAGES_AMF0" by blast
  then show ?thesis
  proof cases
    case control
    with assms obtain ret s where h: "HandleRtmpControlMessage cs (sess c) = Some (ret, s)"
      by (auto simp: dispatch_def bind_Some_iff)
    from HandleRtmpControlMessage_input [OF h] show ?thesis
      using assms control h by (auto simp: dispatch_def split: if_splits elim: more_or_input)
  next
    case command
    with assms obtain ret vec s where h: "HandleServerCommandMessage cs (sess c) = Some (ret, vec, s)"
      by (auto simp: dispatch_def bind_Some_iff)
    note i = HandleServerCommandMessage_input [OF h]
    show ?thesis
    proof (cases "ret < RTMP_OK")
      case True
      with assms command(2) command(1) h i show ?thesis unfolding dispatch_def by (auto split: if_split_asm)
    next
      case False
      with assms command h obtain c1 where r: "report_command dtos (phase_of c) vec (c\<lparr>sess := s\<rparr>) = Some c1"
        and m: "more_or ret (reset_stream key c1) = (ex, c')"
        unfolding dispatch_def by (auto simp: bind_Some_iff split: if_split_asm)
      from report_command_input [OF r] have "same_input (sess c) (sess c1)"
        using same_input_trans [OF i] by simp
      with m show ?thesis by (rule more_or_input)
    qed
  next
    case other
    with assms show ?thesis
      unfolding dispatch_def
      by (auto simp: bind_Some_iff split: if_split_asm option.splits intro!: reset_stream_input)
  qed
qed

function ReceiveRespMessage :: "(u64 \<Rightarrow> bytes) \<Rightarrow> rtmp_client \<Rightarrow> (int \<times> rtmp_client) option" where
  "ReceiveRespMessage dtos c =
     (case ReadChunkStream (sess c) of
        None \<Rightarrow> None
      | Some (ret, key, s) \<Rightarrow>
          let c1 = c\<lparr>sess := s\<rparr> in
          if ret < RTMP_OK \<or> ret = RTMP_NEED_READ_MORE then Some (ret, c1)
          else if \<not> stream_ready key s then
            (if length (recv_buffer s) > 0 then ReceiveRespMessage dtos c1
             else Some (RTMP_NEED_READ_MORE, c1))
          else
            (case cs_ptr key s of
               None \<Rightarrow> None
             | Some cs \<Rightarrow>
                 (case dispatch dtos key cs c1 of
                    None \<Rightarrow> None
                  | Some (Return r, c2) \<Rightarrow> Some (r, c2)
                  | Some (Continue, c2) \<Rightarrow> ReceiveRespMessage dtos c2)))"
  by pat_completeness auto

termination
proof (relation "measure (\<lambda>(dtos, c). pending (sess c))", goal_cases)
  case 1
  show ?case by simp
next
  case (2 dtos c x ret y key s c1)
  then show ?case using ReadChunkStream_pending by auto
next
  case (3 dtos c x ret y key s c1 cs z ex c2)
  then show ?case
    using ReadChunkStream_pending [of "sess c" ret key s] dispatch_input [of dtos key cs c1 Continue c2]
    by (auto dest: same_input_pending)
qed

declare ReceiveRespMessage.simps [simp del]

section \<open>The phases of a client\<close>

definition s0s1s2_size :: nat where "s0s1s2_size = 1536 * 2 + 1"
definition RTMP_HANDSHAKE_VERSION :: u8 where "RTMP_HANDSHAKE_VERSION = 0x03"

text \<open>\<open>C1S1Handle::ParseS0S1S2\<close>: the return code and the time of S1.\<close>

definition ParseS0S1S2 :: "bytes \<Rightarrow> (int \<times> u32) option" where
  "ParseS0S1S2 p = do {
     v \<leftarrow> rd p 0;
     if v \<noteq> RTMP_HANDSHAKE_VERSION then Some (-1, 0)
     else do {
       s1_time \<leftarrow> Read4Bytes (drop 1 p);
       s1_version \<leftarrow> Read4Bytes (drop 5 p);
       Some (0, s1_time) } }"

text \<open>
  \<open>C1S1Handle::MakeC2\<close> on 1536 random bytes and the clock, and \<open>RtmpSend\<close> of raw bytes,
  which reports them in the two handshake phases.
\<close>

definition MakeC2 :: "bytes \<Rightarrow> u32 \<Rightarrow> u32 \<Rightarrow> bytes" where
  "MakeC2 rand now s1_time = Write4Bytes now @ Write4Bytes s1_time @ drop 8 rand"

definition SendC2 :: "bytes \<Rightarrow> rtmp_client \<Rightarrow> rtmp_client" where
  "SendC2 c2 c = (let c = map_sess (RtmpSend c2) c in
     if phase_of c = client_s0s1s2_phase then event (OnRtmpHandShakeRecvS0S1S2 0 c2) c else c)"

type_synonym stage_result = "(loop_exit \<times> rtmp_client) option"

definition handshake_stage :: "(u64 \<Rightarrow> bytes) \<Rightarrow> bytes \<Rightarrow> u32 \<Rightarrow> rtmp_client \<Rightarrow> stage_result" where
  "handshake_stage dtos rand now c =
     (if length (recv_buffer (sess c)) < s0s1s2_size then Some (Return RTMP_NEED_READ_MORE, c)
      else do {
        p \<leftarrow> Some (recv_buffer (sess c));
        (ret, s1_time) \<leftarrow> ParseS0S1S2 p;
        c \<leftarrow> Some (event (OnRtmpHandShakeRecvS0S1S2 ret (take s0s1s2_size p)) c);
        if ret < 0 then Some (Return ret, c)
        else do {
          c \<leftarrow> Some (SendC2 (MakeC2 rand now s1_time) (set_phase client_s0s1s2_phase c));
          (ret, c) \<leftarrow> RtmpConnect dtos (set_phase client_connect_phase c);
          if ret < 0 then Some (Return (-1), c)
          else Some (Return RTMP_NEED_READ_MORE, reset_recv (set_phase client_connect_resp_phase c)) } })"

definition connect_resp_stage :: "(u64 \<Rightarrow> bytes) \<Rightarrow> rtmp_client \<Rightarrow> stage_result" where
  "connect_resp_stage dtos c = do {
     (ret, c) \<leftarrow> ReceiveRespMessage dtos c;
     Some (if ret < 0 then (Return (-1), c)
           else if ret = RTMP_NEED_READ_MORE then (Return RTMP_NEED_READ_MORE, c)
           else if ret = 0 then (Continue, set_phase client_create_stream_phase c)
           else (Return (-1), c)) }"

definition create_stream_stage :: "rtmp_client \<Rightarrow> stage_result" where
  "create_stream_stage c = do {
     (ret, c) \<leftarrow> RtmpCreatestream c;
     Some (if ret < 0 then (Return ret, c)
           else (Return RTMP_NEED_READ_MORE, set_phase client_create_stream_resp_phase (reset_recv c))) }"

definition create_stream_resp_stage :: "(u64 \<Rightarrow> bytes) \<Rightarrow> rtmp_client \<Rightarrow> stage_result" where
  "create_stream_resp_stage dtos c = do {
     (ret, c) \<leftarrow> ReceiveRespMessage dtos c;
     Some (if ret < 0 then (Return ret, c)
           else if ret = RTMP_NEED_READ_MORE then (Return RTMP_NEED_READ_MORE, c)
           else if ret = 0 then
             (Continue, reset_recv (set_phase (if publish_flag (req (sess c)) then client_create_publish_phase
                                               else client_create_play_phase) c))
           else (Return (-1), c)) }"

definition play_publish_stage ::
  "(rtmp_client \<Rightarrow> (int \<times> rtmp_client) option) \<Rightarrow> rtmp_client \<Rightarrow> stage_result" where
  "play_publish_stage command c = do {
     (ret, c) \<leftarrow> command c;
     Some (if ret < 0 then (Return ret, c)
           else (Return RTMP_NEED_READ_MORE, set_phase client_create_playpublish_resp_phase (reset_recv c))) }"

definition playpublish_resp_stage :: "(u64 \<Rightarrow> bytes) \<Rightarrow> rtmp_client \<Rightarrow> stage_result" where
  "playpublish_resp_stage dtos c = do {
     (ret, c) \<leftarrow> ReceiveRespMessage dtos c;
     Some (if ret < 0 then (Return ret, c)
           else if ret = RTMP_NEED_READ_MORE then (Return RTMP_NEED_READ_MORE, c)
           else if ret = 0 then (Continue, reset_recv (set_phase client_media_handle_phase c))
           else (Return (-1), c)) }"

definition media_stage :: "(u64 \<Rightarrow> bytes) \<Rightarrow> rtmp_client \<Rightarrow> stage_result" where
  "media_stage dtos c = do {
     (ret, c) \<leftarrow> ReceiveRespMessage dtos c;
     Some (Return (if ret < 0 then ret else RTMP_NEED_READ_MORE), c) }"

text \<open>The stages follow each other; each runs in its own phase.\<close>

definition stage ::
  "RTMP_CLIENT_SESSION_PHASE \<Rightarrow> (rtmp_client \<Rightarrow> stage_result) \<Rightarrow> loop_exit \<times> rtmp_client \<Rightarrow> stage_result" where
  "stage ph f r = (case r of
     (Return ret, c) \<Rightarrow> Some (Return ret, c)
   | (Continue, c) \<Rightarrow> if phase_of c = ph then f c else Some (Continue, c))"

definition HandleMessage ::
  "(u64 \<Rightarrow> bytes) \<Rightarrow> bytes \<Rightarrow> u32 \<Rightarrow> rtmp_client \<Rightarrow> (int \<times> rtmp_client) option" where
  "HandleMessage dtos rand now c = do {
     r \<leftarrow> stage client_c0c1_phase (handshake_stage dtos rand now) (Continue, c);
     r \<leftarrow> stage client_connect_resp_phase (connect_resp_stage dtos) r;
     r \<leftarrow> stage client_create_stream_phase create_stream_stage r;
     r \<leftarrow> stage client_create_stream_resp_phase (create_stream_resp_stage dtos) r;
     r \<leftarrow> stage client_create_play_phase (play_publish_stage RtmpPlay) r;
     r \<leftarrow> stage client_create_publish_phase (play_publish_stage RtmpPublish) r;
     r \<leftarrow> stage client_create_playpublish_resp_phase (playpublish_resp_stage dtos) r;
     (ex, c) \<leftarrow> stage client_media_handle_phase (media_stage dtos) r;
     Some (case ex of Return ret \<Rightarrow> ret | Continue \<Rightarrow> 0, c) }"

definition OnRead ::
  "(u64 \<Rightarrow> bytes) \<Rightarrow> bytes \<Rightarrow> u32 \<Rightarrow> bytes \<Rightarrow> rtmp_client \<Rightarrow> (int \<times> rtmp_client) option" where
  "OnRead dtos rand now data c = HandleMessage dtos rand now (map_sess (feed data) c)"

lemma set_phase_simps [simp]:
  "phase_of (set_phase ph c) = ph" "recv_buffer (sess (set_phase ph c)) = recv_buffer (sess c)"
  "phase_of (reset_recv c) = phase_of c" "recv_buffer (sess (reset_recv c)) = []"
  "req (sess (set_phase ph c)) = req (sess c)" "req (sess (reset_recv c)) = req (sess c)"
  "sess_chunk_size (sess (set_phase ph c)) = sess_chunk_size (sess c)"
  "sess_chunk_size (sess (reset_recv c)) = sess_chunk_size (sess c)"
  by (simp_all add: set_phase_def phase_of_def map_sess_def set_client_phase_def reset_recv_def)

lemma send_command_phase: "send_command amf c = Some (ret, c') \<Longrightarrow> phase_of c' = phase_of c"
  by (auto simp: send_command_def bind_Some_iff phase_of_def dest!: send_amf_simps)

section \<open>The media phase is final\<close>

lemma server_items_media:
  "client_phase s = client_media_handle_phase \<Longrightarrow> server_items s vec ph = Some ph' \<Longrightarrow> ph' = ph"
  by (induction vec arbitrary: ph)
     (auto simp: server_item_def Let_def in_connect_def in_create_stream_def in_publish_play_def
        split: option.splits if_splits)

lemma HandleServerCommandMessage_media:
  "client_phase s = client_media_handle_phase \<Longrightarrow> HandleServerCommandMessage cs s = Some (ret, vec, s') \<Longrightarrow>
   client_phase s' = client_media_handle_phase"
  by (auto simp: HandleServerCommandMessage_def bind_Some_iff set_client_phase_def
        dest: server_items_media split: if_splits option.splits)

lemma ReadFmtCsid_phase: "client_phase (snd (ReadFmtCsid s)) = client_phase s"
  by (auto simp: ReadFmtCsid_def Let_def split: list.split)

lemma ReadChunkBody_phase: "ReadChunkBody s = Some (ret, key, s') \<Longrightarrow> client_phase s' = client_phase s"
  by (auto simp: ReadChunkBody_def bind_Some_iff put_stream_def split: if_splits)

lemma ReadChunkStream_phase:
  "ReadChunkStream s = Some (ret, key, s') \<Longrightarrow> client_phase s' = client_phase s"
  using ReadFmtCsid_phase [of s]
  by (cases "ReadFmtCsid s") (auto simp: ReadChunkStream_def dest!: ReadChunkBody_phase split: if_splits)

lemma HandleRtmpControlMessage_phase:
  "HandleRtmpControlMessage cs s = Some (ret, s') \<Longrightarrow> client_phase s' = client_phase s"
  by (auto simp: HandleRtmpControlMessage_def SetChunkSize_def SendSetChunksize_def
        RtmpSend_def bind_Some_iff split: if_splits)

lemma phase_of_simps [simp]:
  "phase_of (event e c) = phase_of c" "phase_of (reportCtrlMsg cs c) = phase_of c"
  "phase_of (reset_stream key c) = phase_of c" "phase_of (c\<lparr>sess := s\<rparr>) = client_phase s"
  by (simp_all add: phase_of_def reset_stream_def map_sess_def)

lemma dispatch_media:
  assumes "phase_of c = client_media_handle_phase" "dispatch dtos key cs c = Some (ex, c')"
  shows "phase_of c' = client_media_handle_phase"
proof -
  consider (control) "1 \<le> type_id cs \<and> type_id cs \<le> 6"
    | (command) "\<not> (1 \<le> type_id cs \<and> type_id cs \<le> 6)" "type_id cs = RTMP_COMMAND_MESSAGES_AMF0"
    | (other) "\<not> (1 \<le> type_id cs \<and> type_id cs \<le> 6)" "type_id cs \<noteq> RTMP_COMMAND_MESSAGES_AMF0" by blast
  then show ?thesis
  proof cases
    case control
    with assms obtain ret s where h: "HandleRtmpControlMessage cs (sess c) = Some (ret, s)"
      by (auto simp: dispatch_def bind_Some_iff)
    from HandleRtmpControlMessage_phase [OF h] assms(1) have "client_phase s = client_media_handle_phase"
      by (simp add: phase_of_def)
    with assms(2) control h show ?thesis by (auto simp: dispatch_def more_or_def split: if_splits)
  next
    case command
    with assms obtain ret vec s where h: "HandleServerCommandMessage cs (sess c) = Some (ret, vec, s)"
      by (auto simp: dispatch_def bind_Some_iff)
    have "client_phase s = client_media_handle_phase"
      using HandleServerCommandMessage_media [OF _ h] assms(1) by (simp add: phase_of_def)
    with assms command h show ?thesis
      unfolding dispatch_def by (auto simp: report_command_def more_or_def split: if_split_asm)
  next
    case other
    with assms show ?thesis
      unfolding dispatch_def by (auto simp: bind_Some_iff split: if_split_asm option.splits)
  qed
qed

lemma ReceiveRespMessage_media:
  "phase_of c = client_media_handle_phase \<Longrightarrow> ReceiveRespMessage dtos c = Some (ret, c') \<Longrightarrow>
   phase_of c' = client_media_handle_phase"
proof (induction dtos c rule: ReceiveRespMessage.induct)
  case (1 dtos c)
  from 1(4) obtain r key s where r: "ReadChunkStream (sess c) = Some (r, key, s)"
    by (subst (asm) ReceiveRespMessage.simps) (auto split: option.splits)
  let ?c1 = "c\<lparr>sess := s\<rparr>"
  have ph: "phase_of ?c1 = client_media_handle_phase"
    using ReadChunkStream_phase [OF r] 1(3) by (simp add: phase_of_def)
  show ?case
  proof (cases "r < RTMP_OK \<or> r = RTMP_NEED_READ_MORE \<or> \<not> stream_ready key s \<and> recv_buffer s = []")
    case True
    with 1(4) r have "c' = ?c1"
      by (subst (asm) ReceiveRespMessage.simps) (auto simp: Let_def split: if_splits)
    with ph show ?thesis by simp
  next
    case go: False
    show ?thesis
    proof (cases "stream_ready key s")
      case False
      with 1(4) r go have "ReceiveRespMessage dtos ?c1 = Some (ret, c')"
        by (subst (asm) ReceiveRespMessage.simps) auto
      with 1(1) [OF r refl refl refl] go False ph show ?thesis by blast
    next
      case True
      then obtain cs where cs: "cs_ptr key s = Some cs" by (auto simp: stream_ready_def cs_ptr_def split: option.splits)
      from 1(4) r go True cs obtain ex c2 where d: "dispatch dtos key cs ?c1 = Some (ex, c2)"
        by (subst (asm) ReceiveRespMessage.simps) (auto split: option.splits)
      note m = dispatch_media [OF ph d]
      show ?thesis
      proof (cases ex)
        case (Return x)
        with 1(4) r go True cs d have "c' = c2" by (subst (asm) ReceiveRespMessage.simps) auto
        with m show ?thesis by simp
      next
        case Continue
        with 1(4) r go True cs d have "ReceiveRespMessage dtos c2 = Some (ret, c')"
          by (subst (asm) ReceiveRespMessage.simps) auto
        with 1(2) [OF r refl refl refl _ _ cs d [unfolded Continue] refl refl] go True m show ?thesis by blast
      qed
    qed
  qed
qed

lemma stage_other: "phase_of c \<noteq> ph \<Longrightarrow> stage ph f (Continue, c) = Some (Continue, c)"
  by (simp add: stage_def)

lemma stage_here: "phase_of c = ph \<Longrightarrow> stage ph f (Continue, c) = f c"
  by (simp add: stage_def)

lemma stage_return [simp]: "stage ph f (Return r, c) = Some (Return r, c)"
  by (simp add: stage_def)

lemma HandleMessage_media:
  assumes "phase_of c = client_media_handle_phase"
  shows "HandleMessage dtos rand now c = do {
     (ret, c) \<leftarrow> ReceiveRespMessage dtos c;
     Some (if ret < 0 then ret else RTMP_NEED_READ_MORE, c) }"
  using assms
  by (cases "ReceiveRespMessage dtos c")
     (simp_all add: HandleMessage_def stage_other stage_here media_stage_def split_beta)

section \<open>The properties of the client\<close>

text \<open>
  C7: once a client has reached the media phase it stays there: whatever it receives, when the
  handler returns (it may fail to, as on a command with an unknown type byte) it has either
  reported an error or asked for more, and the phase has not changed.
\<close>

theorem media_phase_is_final:
  assumes "phase_of c = client_media_handle_phase" and "OnRead dtos rand now data c = Some (ret, c')"
  shows "phase_of c' = client_media_handle_phase \<and> (ret < 0 \<or> ret = RTMP_NEED_READ_MORE)"
proof -
  let ?c = "map_sess (feed data) c"
  have p: "phase_of ?c = client_media_handle_phase"
    using assms(1) by (simp add: phase_of_def map_sess_def feed_def)
  from assms(2) p obtain r where "ReceiveRespMessage dtos ?c = Some (r, c')"
      "ret = (if r < 0 then r else RTMP_NEED_READ_MORE)"
    by (auto simp: OnRead_def HandleMessage_media bind_Some_iff)
  with ReceiveRespMessage_media [OF p] show ?thesis by auto
qed

definition media_client :: rtmp_client where
  "media_client = \<lparr>sess = new_RtmpSessionBase\<lparr>client_phase := client_media_handle_phase\<rparr>, events = []\<rparr>"

lemma media_client_read:
  "\<exists>c'. OnRead dtos rand now [] media_client = Some (RTMP_NEED_READ_MORE, c')"
  by (simp add: OnRead_def HandleMessage_media media_client_def phase_of_def map_sess_def feed_def
      ReceiveRespMessage.simps ReadChunkStream_def ReadFmtCsid_def new_RtmpSessionBase_def rtmp_codes)

theorem media_phase_is_final_witness:
  "\<exists>c'. OnRead (\<lambda>_. []) [] 0 [] media_client = Some (RTMP_NEED_READ_MORE, c') \<and>
     phase_of c' = client_media_handle_phase"
proof -
  obtain c' where r: "OnRead (\<lambda>_. []) [] 0 [] media_client = Some (RTMP_NEED_READ_MORE, c')"
    using media_client_read by blast
  have "phase_of media_client = client_media_handle_phase"
    by (simp add: media_client_def phase_of_def)
  from media_phase_is_final [OF this r] r show ?thesis by blast
qed

definition window_ack_bytes :: bytes where
  "window_ack_bytes = control_message RTMP_CONTROL_WINDOW_ACK_SIZE 4 2500000 128"

definition waiting_client :: rtmp_client where
  "waiting_client = \<lparr>sess = new_RtmpSessionBase\<lparr>client_phase := client_connect_resp_phase\<rparr>, events = []\<rparr>"

lemma window_ack_bytes_eq:
  "window_ack_bytes = basic_byte 0 3 # header0 0 (of_nat (length (Write4Bytes 2500000))) 5 0 @ Write4Bytes 2500000"
  by (simp add: window_ack_bytes_def control_message_def GenControlMessage_def GenData_def new_ChunkStream_def
      basic_byte_def header0_def RTMP_CONTROL_WINDOW_ACK_SIZE_def Let_def)

lemma high_bit_1: "high_bit (Suc 0) = 0"
  by (subst high_bit.simps) simp

lemma waiting_client_read:
  "\<exists>cs s. ReadChunkStream (feed window_ack_bytes (sess waiting_client)) = Some (RTMP_OK, 3, s) \<and>
     cs_map s 3 = Some cs \<and> chunk_data cs = Write4Bytes 2500000 \<and> type_id cs = 5 \<and> IsReady cs \<and>
     recv_buffer s = [] \<and> client_phase s = client_connect_resp_phase \<and> sess_chunk_size s = 128 \<and>
     sent s = [] \<and> req s = new_RtmpRequest"
proof -
  let ?s = "feed window_ack_bytes (sess waiting_client)"
  have b: "recv_buffer ?s = basic_byte 0 3 # header0 0 (of_nat (length (Write4Bytes 2500000))) 5 0
      @ take (unat (sess_chunk_size ?s)) (Write4Bytes 2500000) @ []"
    by (simp add: window_ack_bytes_eq waiting_client_def new_RtmpSessionBase_def CHUNK_DEF_SIZE_def)
  obtain cs where c: "ReadChunkStream ?s = Some (RTMP_OK, ucast (3 :: u16), after_chunk 0 3 cs [] ?s)"
    "receiving 0 5 0 (Write4Bytes 2500000) (min (unat (sess_chunk_size ?s)) (length (Write4Bytes 2500000))) cs"
    by (rule read_first_chunk [OF _ _ _ _ _ _ b])
       (simp_all add: waiting_client_def new_RtmpSessionBase_def)
  then show ?thesis
    by (intro exI [of _ cs] exI [of _ "after_chunk 0 3 cs [] ?s"])
       (simp add: receiving_def IsReady_def after_chunk_def feed_def waiting_client_def
          new_RtmpSessionBase_def CHUNK_DEF_SIZE_def)
qed

text \<open>
  A client that waits for the answer to its connect command takes any control message
  that empties its receive buffer for the answer: on a lone window acknowledgement size it
  sends the create stream command and waits for that one's answer, without a result.
\<close>

theorem control_message_taken_for_answer:
  "\<exists>c' out. OnRead dtos rand now window_ack_bytes waiting_client = Some (RTMP_NEED_READ_MORE, c') \<and>
     phase_of c' = client_create_stream_resp_phase \<and>
     events c' = [OnRtmpWindowSize 0 2500000, OnRtmpCreateStreamSend 0 1] \<and>
     WriteDataByChunkStream 3 0 RTMP_COMMAND_MESSAGES_AMF0 0 128
       (Encode_string (str ''createStream'') False @ Encode_number 0x3FF0000000000000 @ EncodeNull) = Some out \<and>
     sent (sess c') = out"
proof -
  let ?c = "map_sess (feed window_ack_bytes) waiting_client"
  obtain cs s where r: "ReadChunkStream (sess ?c) = Some (RTMP_OK, 3, s)"
     "cs_map s 3 = Some cs" "chunk_data cs = Write4Bytes 2500000" "type_id cs = 5" "IsReady cs"
     "recv_buffer s = []" "client_phase s = client_connect_resp_phase" "sess_chunk_size s = 128"
     "sent s = []" "req s = new_RtmpRequest"
    using waiting_client_read by (auto simp: map_sess_def)
  let ?c1 = "?c\<lparr>sess := s\<lparr>remote_window_acksize := 2500000\<rparr>\<rparr>"
  let ?c2 = "reset_stream 3 (event (OnRtmpWindowSize 0 2500000) ?c1)"
  have r4: "Read4Bytes (Write4Bytes 2500000) = Some 2500000"
    using Read4Bytes_Write4Bytes [of 2500000 "[]"] by simp
  have "dispatch dtos 3 cs (?c\<lparr>sess := s\<rparr>) = Some (Return 0, ?c2)"
    using r by (simp add: dispatch_def HandleRtmpControlMessage_def rtmp_controls r4 reportCtrlMsg_def
        more_or_def rtmp_codes reset_stream_def map_sess_def event_def)
  then have resp: "ReceiveRespMessage dtos ?c = Some (0, ?c2)"
    using r by (subst ReceiveRespMessage.simps)
      (simp add: stream_ready_def cs_ptr_def rtmp_codes)
  have t: "transid (set_phase client_create_stream_phase ?c2) = 0x3FF0000000000000"
    using r(10) by (simp add: transid_def set_phase_def map_sess_def set_client_phase_def reset_stream_def
        new_RtmpRequest_def double_of_int_def high_bit_1 Let_def)
  have i: "int64_of_double 0x3FF0000000000000 = Some 1"
    by (simp add: int64_of_double_def Let_def)
  obtain out where out: "WriteDataByChunkStream 3 0 RTMP_COMMAND_MESSAGES_AMF0 0 128
       (Encode_string (str ''createStream'') False @ Encode_number 0x3FF0000000000000 @ EncodeNull) = Some out"
    using chunk_message_some [of 128 3 0 RTMP_COMMAND_MESSAGES_AMF0 0] by auto
  have "phase_of ?c = client_connect_resp_phase"
    by (simp add: phase_of_def map_sess_def waiting_client_def feed_def)
  then show ?thesis
    using out r(8,9)
    by (simp add: OnRead_def HandleMessage_def stage_other stage_here connect_resp_stage_def resp
        create_stream_stage_def RtmpCreatestream_def t i send_command_def send_amf_def GetChunkSize_def
        rtmp_codes sent_send_all,
       simp add: set_phase_def reset_recv_def map_sess_def reset_stream_def event_def phase_of_def
        set_client_phase_def waiting_client_def)
qed

lemma publish_items:
  assumes "length name \<le> 0xffff"
  shows "decode_items (publish_amf name) (int (length (publish_amf name))) [] =
    Some [amf_string (str ''publish''), amf_number 0, amf_of_type AMF_DATA_TYPE_NULL, amf_string name,
          amf_string (str ''live'')]"
proof -
  have last: "decode_items (Encode_string (str ''live'') False) (int (length (Encode_string (str ''live'') False))) vec
      = Some (vec @ [amf_string (str ''live'')])" for vec
    using decode_items_writes [OF writes_items(2) [of "str ''live''"], of "[]" vec]
    by (simp add: decode_items_done)
  show ?thesis
    using assms
    by (simp add: publish_amf_def decode_items_writes [OF writes_items(2)] decode_items_writes [OF writes_items(1)]
        decode_items_writes [OF writes_items(3)] last del: length_append)
qed

text \<open>
  C8: the publish command of this program's client, for a stream name of 1 to 65535 bytes, does on its server side,
  with a chunk size other than 0, what it means:
  the request becomes a ready publish request with the stream's name and the key
  \<open>app/name\<close>, the session enters the media phase, and the answer starts with a status.
\<close>

theorem publish_command_opens_stream:
  assumes "chunk_data c = publish_amf name" and "name \<noteq> []" and "length name \<le> 0xffff"
    and "sess_chunk_size s \<noteq> 0"
  shows "\<exists>vec s'. HandleClientCommandMessage c s = Some (RTMP_NEED_READ_MORE, vec, s') \<and>
    req s' = (req s)\<lparr>publish_flag := True, is_ready := True, stream_name := name, transaction_id := 0,
                     req_key := req_app (req s) @ str ''/'' @ name\<rparr> \<and>
    server_phase s' = media_handle_phase \<and>
    WriteDataByChunkStream 3 0 RTMP_COMMAND_MESSAGES_AMF0 (stream_id s) (sess_chunk_size s)
      (onStatus_amf (str ''NetStream.Publish.Start'') (str ''Start publising.'')) = Some (drop (length (sent s)) (sent s'))"
proof -
  have vec: "amf_vec_of c = Some [amf_string (str ''publish''), amf_number 0, amf_of_type AMF_DATA_TYPE_NULL,
      amf_string name, amf_string (str ''live'')]"
    unfolding amf_vec_of_def assms(1) by (rule publish_items [OF assms(3)])
  obtain out where out: "WriteDataByChunkStream 3 0 RTMP_COMMAND_MESSAGES_AMF0 (stream_id s) (sess_chunk_size s)
      (onStatus_amf (str ''NetStream.Publish.Start'') (str ''Start publising.'')) = Some out"
    using chunk_message_some [OF assms(4)] by blast
  have "int64_of_double 0 = Some 0" by (simp add: int64_of_double_def Let_def)
  moreover have "str ''publish'' \<noteq> str ''connect''" "str ''publish'' \<noteq> str ''createStream''"
    by (simp_all add: str_def)
  ultimately show ?thesis
    using vec out assms(2)
    by (simp add: HandleClientCommandMessage_def HandleRtmpPublishCommand_def SendRtmpPublishResp_def
        start_stream_def map_req_def send_amf_def GetChunkSize_def sent_send_all set_server_phase_def
        rtmp_codes)
qed

theorem publish_command_opens_stream_witness:
  "\<exists>vec s'. HandleClientCommandMessage ((new_ChunkStream 0 3 128)\<lparr>chunk_data := publish_amf [97, 98]\<rparr>)
      new_RtmpSessionBase = Some (RTMP_NEED_READ_MORE, vec, s') \<and> stream_name (req s') = [97, 98] \<and>
      req_key (req s') = [47, 97, 98]"
  using publish_command_opens_stream [of "(new_ChunkStream 0 3 128)\<lparr>chunk_data := publish_amf [97, 98]\<rparr>"
      "[97, 98]" new_RtmpSessionBase]
  by (auto simp: new_RtmpSessionBase_def new_RtmpRequest_def CHUNK_DEF_SIZE_def str_def)

end
