(* ===== verification/Streamer.thy ===== *)
theory Streamer
  imports Amf0
begin

text \<open>
  cpp_streamer_interface.hpp: what every stage of a pipeline keeps (its name, the stages it
  sends packets to, its options and its reporter) and the operations that all stages
  implement in the same way.  A stage is called by pointer; here a pointer is a number.
  \<open>sinkers_\<close> is a \<open>std::map\<close> from names to pointers, as the list of its entries in key order.
  A call of \<open>SourceData\<close> on a sink is an entry of \<open>sunk\<close>: which sink, with which packet.  A
  report is its type, its format string and the format's arguments.  The second part is
  the loop \<open>do ret = step(); while (ret == 0)\<close> that drives a reader over its buffer, and the
  contract of such a reader: what it has decided does not change when more bytes arrive.
\<close>

record streamer =
  streamer_name :: bytes
  sinkers :: "(bytes \<times> nat) list"
  options :: "bytes \<rightharpoonup> bytes"
  sunk :: "(nat \<times> media_packet) list"
  reports :: "(string \<times> string \<times> int list) list"

text \<open>\<open>m[k] = v\<close> on a \<open>std::map\<close>.\<close>

fun map_put :: "bytes \<Rightarrow> 'a \<Rightarrow> (bytes \<times> 'a) list \<Rightarrow> (bytes \<times> 'a) list" where
  "map_put k v [] = [(k, v)]"
| "map_put k v ((k', v') # m) =
     (if k = k' then (k, v) # m
      else if key_less k k' then (k, v) # (k', v') # m
      else (k', v') # map_put k v m)"

definition AddSinker :: "(bytes \<times> nat) option \<Rightarrow> 'a streamer_scheme \<Rightarrow> nat \<times> 'a streamer_scheme" where
  "AddSinker sinker s = (case sinker of
     None \<Rightarrow> (length (sinkers s), s)
   | Some (name, ptr) \<Rightarrow>
       (let s = s\<lparr>sinkers := map_put name ptr (sinkers s)\<rparr> in (length (sinkers s), s)))"

definition RemoveSinker :: "bytes \<Rightarrow> 'a streamer_scheme \<Rightarrow> nat \<times> 'a streamer_scheme" where
  "RemoveSinker name s =
     (let rest = filter (\<lambda>(k, _). k \<noteq> name) (sinkers s)
      in (length (sinkers s) - length rest, s\<lparr>sinkers := rest\<rparr>))"

text \<open>\<open>None\<close> is the exception for an option that does not exist.\<close>

definition put_option :: "bytes \<Rightarrow> bytes \<Rightarrow> 'a streamer_scheme \<Rightarrow> 'a streamer_scheme option" where
  "put_option key v s =
     (if options s key = None then None else Some (s\<lparr>options := (options s)(key \<mapsto> v)\<rparr>))"

definition sink_all :: "media_packet \<Rightarrow> 'a streamer_scheme \<Rightarrow> 'a streamer_scheme" where
  "sink_all pkt s = s\<lparr>sunk := sunk s @ map (\<lambda>(_, ptr). (ptr, pkt)) (sinkers s)\<rparr>"

definition Report :: "string \<Rightarrow> string \<Rightarrow> int list \<Rightarrow> 'a streamer_scheme \<Rightarrow> 'a streamer_scheme" where
  "Report ty fmt args s = s\<lparr>reports := reports s @ [(ty, fmt, args)]\<rparr>"

definition new_streamer :: "bytes \<Rightarrow> (bytes \<rightharpoonup> bytes) \<Rightarrow> streamer" where
  "new_streamer name opts =
     \<lparr> streamer_name = name, sinkers = [], options = opts, sunk = [], reports = [] \<rparr>"

text \<open>What one sink has been given.\<close>

definition received :: "nat \<Rightarrow> 'a streamer_scheme \<Rightarrow> media_packet list" where
  "received ptr s = map snd (filter (\<lambda>(i, _). i = ptr) (sunk s))"

lemma received_sink_all:
  "distinct (map snd (sinkers s)) \<Longrightarrow> ptr \<in> snd ` set (sinkers s) \<Longrightarrow>
   received ptr (sink_all pkt s) = received ptr s @ [pkt]"
proof -
  assume d: "distinct (map snd (sinkers s))" and i: "ptr \<in> snd ` set (sinkers s)"
  have "filter (\<lambda>(i, _). i = ptr) (map (\<lambda>(_, i). (i, pkt)) m) = [(ptr, pkt)]"
    if "distinct (map snd m)" "ptr \<in> snd ` set m" for m :: "(bytes \<times> nat) list"
    using that
  proof (induction m)
    case Nil
    then show ?case by simp
  next
    case (Cons e m)
    have "filter (\<lambda>(i, _). i = ptr) (map (\<lambda>(_, i). (i, pkt)) m') = []"
      if "ptr \<notin> snd ` set m'" for m' :: "(bytes \<times> nat) list"
      using that by (force simp: filter_empty_conv)
    with Cons show ?case by (cases e) auto
  qed
  from this [OF d i] show ?thesis by (simp add: received_def sink_all_def)
qed

section \<open>The driving loop of a reader\<close>

text \<open>\<open>None\<close>: the loop does not return, or a step is undefined.\<close>

partial_function (option) repeat_while_0 :: "('s \<Rightarrow> (int \<times> 's) option) \<Rightarrow> 's \<Rightarrow> (int \<times> 's) option" where
  "repeat_while_0 step s = (case step s of
     None \<Rightarrow> None
   | Some (ret, s') \<Rightarrow> if ret = 0 then repeat_while_0 step s' else Some (ret, s'))"

lemma repeat_while_0_stop: "step s = Some (r, s') \<Longrightarrow> r \<noteq> 0 \<Longrightarrow> repeat_while_0 step s = Some (r, s')"
  by (subst repeat_while_0.simps) simp

lemma repeat_while_0_step: "step s = Some (0, s') \<Longrightarrow> repeat_while_0 step s = repeat_while_0 step s'"
  by (subst repeat_while_0.simps) simp

lemma repeat_while_0_induct [consumes 1, case_names stop again]:
  assumes "repeat_while_0 step s = Some x"
    and "\<And>s r s'. step s = Some (r, s') \<Longrightarrow> r \<noteq> 0 \<Longrightarrow> P s (r, s')"
    and "\<And>s s' x. step s = Some (0, s') \<Longrightarrow> P s' x \<Longrightarrow> P s x"
  shows "P s x"
proof -
  have "step = step \<longrightarrow> P s x"
  proof (rule repeat_while_0.raw_induct [where P = "\<lambda>f s x. f = step \<longrightarrow> P s x", OF _ assms(1)], rule impI)
    fix rw f s x
    assume ih: "\<And>f s y. rw f s = Some y \<Longrightarrow> f = step \<longrightarrow> P s y"
      and run: "(case f s of None \<Rightarrow> None
        | Some (ret, s') \<Rightarrow> if ret = 0 then rw f s' else Some (ret, s')) = Some x"
      and f: "f = step"
    from run f obtain r s' where st: "step s = Some (r, s')" by (auto split: option.splits)
    show "P s x"
    proof (cases "r = 0")
      case True
      with run st f have "rw step s' = Some x" by simp
      with ih have "P s' x" by blast
      with st True assms(3) show ?thesis by blast
    next
      case False
      with run st f assms(2) show ?thesis by auto
    qed
  qed
  then show ?thesis by blast
qed

locale resumable =
  fixes step :: "'s \<Rightarrow> (int \<times> 's) option"
    and add :: "bytes \<Rightarrow> 's \<Rightarrow> 's"
    and more :: int
  assumes more_nonzero: "more \<noteq> 0"
    and add_add: "add e (add d s) = add (d @ e) s"
    and step_decided: "step s = Some (r, s') \<Longrightarrow> r \<noteq> more \<Longrightarrow> step (add d s) = Some (r, add d s')"
    and step_resumes: "step s = Some (more, s') \<Longrightarrow> step (add d s) = step (add d s')"
begin

lemma drive_add:
  assumes "repeat_while_0 step s = Some (r, s')"
  shows "repeat_while_0 step (add d s) =
    (if r = more then repeat_while_0 step (add d s') else Some (r, add d s'))"
proof -
  have "repeat_while_0 step (add d s) =
      (if fst x = more then repeat_while_0 step (add d (snd x)) else Some (fst x, add d (snd x)))"
    if "repeat_while_0 step s = Some x" for x
    using that
  proof (induction rule: repeat_while_0_induct)
    case (stop s r s')
    show ?case
    proof (cases "r = more")
      case True
      with stop have "step (add d s) = step (add d s')" by (intro step_resumes) simp
      then have "repeat_while_0 step (add d s) = repeat_while_0 step (add d s')"
        by (subst (1 2) repeat_while_0.simps) simp
      with True show ?thesis by simp
    next
      case False
      with stop have "step (add d s) = Some (r, add d s')" by (intro step_decided)
      with stop(2) False show ?thesis by (simp add: repeat_while_0_stop)
    qed
  next
    case (again s s' x)
    from again(1) more_nonzero have "step (add d s) = Some (0, add d s')" by (intro step_decided) auto
    with again(2) show ?case by (simp add: repeat_while_0_step)
  qed
  from this [OF assms] show ?thesis by simp
qed

text \<open>Feeding bytes in two parts is feeding them at once, unless the first part already fails.\<close>

lemma drive_split:
  assumes "repeat_while_0 step (add d s) = Some (more, s')"
  shows "repeat_while_0 step (add (d @ e) s) = repeat_while_0 step (add e s')"
  using drive_add [OF assms, of e] by (simp add: add_add)

end

end
