(* ===== verification/NaluHeader.thy ===== *)
theory NaluHeader
  imports Media "HOL-Library.Sublist"
begin

text \<open>
  format/h264_h265_header.hpp and format/h264_h265_header.cpp: the H.264 NALU types, the
  start codes, the three conversions between the byte-stream format (NALUs behind start
  codes) and the length-prefixed AVC format, the parameter sets of an AVC decoder
  configuration and the HEVC decoder configuration record.  A pointer argument is the list
  of the bytes from the pointer on, and a length argument is separate where the code
  compares with it; a read past the bytes that are there is \<open>None\<close>.  The lemmas show that
  splitting a byte stream at its start codes gives back the NALUs that were joined, that
  the AVC reader gives back what was written with length prefixes, and that the parameter
  sets survive the configuration record.
\<close>

section \<open>NALU types and start codes\<close>

definition kIdr :: u8 where "kIdr = 5"
definition kSei :: u8 where "kSei = 6"
definition kSps :: u8 where "kSps = 7"
definition kPps :: u8 where "kPps = 8"
definition kAud :: u8 where "kAud = 9"
definition kReserved22 :: u8 where "kReserved22 = 22"
definition kReserved31 :: u8 where "kReserved31 = 31"

definition H264_IS_KEYFRAME :: "u8 \<Rightarrow> bool" where
  "H264_IS_KEYFRAME nalu_type \<longleftrightarrow> nalu_type AND 0x1f = kIdr"

definition H264_IS_AUD :: "u8 \<Rightarrow> bool" where
  "H264_IS_AUD nalu_type \<longleftrightarrow> nalu_type AND 0x1f = kAud"

definition H264_IS_SEI :: "u8 \<Rightarrow> bool" where
  "H264_IS_SEI nalu_type \<longleftrightarrow> nalu_type AND 0x1f = kSei"

definition H264_IS_SEQ :: "u8 \<Rightarrow> bool" where
  "H264_IS_SEQ nalu_type \<longleftrightarrow> nalu_type AND 0x1f = kSps \<or> nalu_type AND 0x1f = kPps"

definition H264_IS_SPS :: "u8 \<Rightarrow> bool" where
  "H264_IS_SPS nalu_type \<longleftrightarrow> nalu_type AND 0x1f = kSps"

definition H264_IS_PPS :: "u8 \<Rightarrow> bool" where
  "H264_IS_PPS nalu_type \<longleftrightarrow> nalu_type AND 0x1f = kPps"

definition H264_IS_RESERVE :: "u8 \<Rightarrow> bool" where
  "H264_IS_RESERVE nalu_type \<longleftrightarrow>
     (let t = nalu_type AND 0x1f in kReserved22 \<le> t \<and> t \<le> kReserved31)"

lemmas nalu_types = kIdr_def kSei_def kSps_def kPps_def kAud_def kReserved22_def kReserved31_def
  H264_IS_KEYFRAME_def H264_IS_AUD_def H264_IS_SEI_def H264_IS_SEQ_def H264_IS_SPS_def
  H264_IS_PPS_def H264_IS_RESERVE_def

text \<open>\<open>&&\<close> reads the next byte only when the earlier ones matched.\<close>

definition GetNaluTypePos :: "bytes \<Rightarrow> int option" where
  "GetNaluTypePos data = do {
     d0 \<leftarrow> rd data 0;
     if d0 \<noteq> 0 then Some (-1)
     else do {
       d1 \<leftarrow> rd data 1;
       if d1 \<noteq> 0 then Some (-1)
       else do {
         d2 \<leftarrow> rd data 2;
         if d2 = 1 then Some 3
         else if d2 \<noteq> 0 then Some (-1)
         else do {
           d3 \<leftarrow> rd data 3;
           Some (if d3 = 1 then 4 else -1) } } } }"

definition Is_AnnexB_Header :: "bytes \<Rightarrow> bool" where
  "Is_AnnexB_Header data \<longleftrightarrow>
     4 \<le> length data \<and> (take 4 data = [0, 0, 0, 1] \<or> take 3 data = [0, 0, 1])"

definition START_CODE :: bytes where "START_CODE = [0, 0, 0, 1]"

section \<open>The byte-stream format\<close>

text \<open>
  The scan for start codes: the offset of each start code found and its size.  The scan
  goes on behind the start code.
\<close>

fun find_starts :: "nat \<Rightarrow> bytes \<Rightarrow> (nat \<times> nat) list" where
  "find_starts off [] = []"
| "find_starts off (b # p) =
     (if take 4 (b # p) = [0, 0, 0, 1] then (off, 4) # find_starts (off + 4) (drop 3 p)
      else if take 3 (b # p) = [0, 0, 1] then (off, 3) # find_starts (off + 3) (drop 2 p)
      else find_starts (off + 1) p)"

text \<open>The pieces of \<open>data\<close> between consecutive positions, the last one up to the end.\<close>

fun cut_at :: "bytes \<Rightarrow> nat list \<Rightarrow> bytes list" where
  "cut_at data [] = []"
| "cut_at data [a] = [drop a data]"
| "cut_at data (a # b # ps) = take (b - a) (drop a data) # cut_at data (b # ps)"

definition AnnexB2Nalus :: "bytes \<Rightarrow> bool \<times> bytes list" where
  "AnnexB2Nalus data =
     (if length data < 4 then (False, [])
      else (True, cut_at data (map fst (find_starts 0 data))))"

definition AnnexB2Avcc :: "bytes \<Rightarrow> bool \<times> bytes list" where
  "AnnexB2Avcc data =
     (if length data < 4 then (False, [])
      else (True, map (\<lambda>n. Write4Bytes (of_nat (length n)) @ n)
                    (cut_at data (map (\<lambda>(off, k). off + k) (find_starts 0 data)))))"

section \<open>The AVC format\<close>

definition kMaxLen :: u32 where "kMaxLen = 10000000"

function avcc_loop :: "bytes \<Rightarrow> int \<Rightarrow> bytes list \<Rightarrow> (bool \<times> bytes list) option" where
  "avcc_loop p data_len nalus =
     (if data_len > 0 then
        (case Read4Bytes p of
           None \<Rightarrow> None
         | Some nalu_len \<Rightarrow>
             if nalu_len > kMaxLen then Some (False, nalus)
             else (case grab (unat nalu_len) (drop 4 p) of
                     None \<Rightarrow> None
                   | Some b \<Rightarrow> avcc_loop (drop (4 + unat nalu_len) p)
                                 (data_len - 4 - int (unat nalu_len)) (nalus @ [START_CODE @ b])))
      else Some (True, nalus))"
  by pat_completeness auto
termination
  by (relation "measure (\<lambda>(p, _, _). length p)")
     (auto simp: Read4Bytes_def read_be_Some_iff)

declare avcc_loop.simps [simp del]

definition Avcc2Nalus :: "bytes \<Rightarrow> nat \<Rightarrow> (bool \<times> bytes list) option" where
  "Avcc2Nalus data len = (if len < 4 then Some (False, []) else avcc_loop data (int len) [])"

text \<open>
  The parameter sets of an AVC decoder configuration: the inner \<open>None\<close> is the return code
  -1, which leaves the caller's buffers and lengths alone.  The caller's buffers have
  \<open>pps_cap\<close> and \<open>sps_cap\<close> bytes.
\<close>

definition read_sets :: "nat \<Rightarrow> nat \<Rightarrow> bytes \<Rightarrow> (bytes \<times> bytes) option" where
  "read_sets pps_cap sps_cap body = do {
     sps_len \<leftarrow> Read2Bytes (drop 6 body);
     sps \<leftarrow> grab (unat sps_len) (drop 8 body);
     require (unat sps_len \<le> sps_cap);
     pps_len \<leftarrow> Read2Bytes (drop (8 + unat sps_len + 1) body);
     pps \<leftarrow> grab (unat pps_len) (drop (8 + unat sps_len + 3) body);
     require (unat pps_len \<le> pps_cap);
     Some (pps, sps) }"

definition GetSpsPpsFromExtraData :: "nat \<Rightarrow> nat \<Rightarrow> bytes \<Rightarrow> nat \<Rightarrow> (bytes \<times> bytes) option option" where
  "GetSpsPpsFromExtraData pps_cap sps_cap body extra_len =
     (if extra_len = 0 then Some None
      else do {
        bad \<leftarrow> (if extra_len > 4 then do {
                  b4 \<leftarrow> rd body 4;
                  if b4 \<noteq> 0xff then Some True
                  else do { b5 \<leftarrow> rd body 5; Some (b5 \<noteq> 0xe1) } }
                else Some False);
        if bad then Some None
        else map_option Some (read_sets pps_cap sps_cap body) })"

section \<open>HEVC\<close>

record Hevc_Header =
  forbid :: u8
  nalu_type :: u8
  layer_id :: u8
  tid :: u8

definition GetHevcHeader :: "bytes \<Rightarrow> Hevc_Header option" where
  "GetHevcHeader p = do {
     b0 \<leftarrow> rd p 0;
     b1 \<leftarrow> rd p 1;
     Some \<lparr> forbid = drop_bit 7 b0 AND 0x01, nalu_type = drop_bit 1 b0 AND 0x3f,
            layer_id = push_bit 6 (b0 AND 0x01) OR drop_bit 3 (b1 AND 0xf8), tid = b1 AND 0x07 \<rparr> }"

definition NAL_UNIT_VPS :: u8 where "NAL_UNIT_VPS = 32"
definition NAL_UNIT_SPS :: u8 where "NAL_UNIT_SPS = 33"
definition NAL_UNIT_PPS :: u8 where "NAL_UNIT_PPS = 34"

record HEVC_NALUnit =
  array_completeness :: u8
  nal_unit_type :: u8
  num_nalus :: u16
  nal_data_vec :: "bytes list"

record HEVC_DEC_CONF_RECORD =
  configuration_version :: u8
  general_profile_space :: u8
  general_tier_flag :: u8
  general_profile_idc :: u8
  general_profile_compatibility_flags :: u32
  general_constraint_indicator_flags :: u64
  general_level_idc :: u8
  min_spatial_segmentation_idc :: u16
  parallelism_type :: u8
  chroma_format :: u8
  bitdepth_lumaminus8 :: u8
  bitdepth_chromaminus8 :: u8
  avg_framerate :: u16
  constant_frameRate :: u8
  num_temporallayers :: u8
  temporalid_nested :: u8
  lengthsize_minusone :: u8
  nalu_vec :: "HEVC_NALUnit list"

text \<open>
  The loops over the parameter set arrays.  \<open>Some (Inl ())\<close> is the return code -1, after
  which the fields already stored are not used.  The bytes are those up to \<open>end\<close>, so
  \<open>p + n > end\<close> is \<open>length p < n\<close>.
\<close>

primrec read_nalus :: "nat \<Rightarrow> bytes \<Rightarrow> (unit + bytes list \<times> bytes) option" where
  "read_nalus 0 p = Some (Inr ([], p))"
| "read_nalus (Suc n) p = (case Read2Bytes p of
     None \<Rightarrow> None
   | Some nalUnitLength \<Rightarrow>
       if length (drop 2 p) < unat nalUnitLength then Some (Inl ())
       else (case read_nalus n (drop (2 + unat nalUnitLength) p) of
               None \<Rightarrow> None
             | Some (Inl e) \<Rightarrow> Some (Inl e)
             | Some (Inr (xs, p')) \<Rightarrow> Some (Inr (take (unat nalUnitLength) (drop 2 p) # xs, p'))))"

primrec read_arrays :: "nat \<Rightarrow> bytes \<Rightarrow> (unit + HEVC_NALUnit list) option" where
  "read_arrays 0 p = Some (Inr [])"
| "read_arrays (Suc n) p =
     (if length p < 5 then Some (Inl ())
      else (case read_nalus (unat (the (Read2Bytes (drop 1 p)))) (drop 3 p) of
              None \<Rightarrow> None
            | Some (Inl e) \<Rightarrow> Some (Inl e)
            | Some (Inr (xs, p')) \<Rightarrow>
                (case read_arrays n p' of
                   None \<Rightarrow> None
                 | Some (Inl e) \<Rightarrow> Some (Inl e)
                 | Some (Inr us) \<Rightarrow>
                     Some (Inr (\<lparr> array_completeness = drop_bit 7 (hd p) AND 0x01,
                                  nal_unit_type = hd p AND 0x3f,
                                  num_nalus = the (Read2Bytes (drop 1 p)),
                                  nal_data_vec = xs \<rparr> # us)))))"

definition GetHevcDecInfoFromExtradata :: "bytes \<Rightarrow> (unit + HEVC_DEC_CONF_RECORD) option" where
  "GetHevcDecInfoFromExtradata p = do {
     version \<leftarrow> rd p 0;
     if version \<noteq> 1 then Some (Inl ())
     else do {
       b1 \<leftarrow> rd p 1;
       compat \<leftarrow> Read4Bytes (drop 2 p);
       c_hi \<leftarrow> Read4Bytes (drop 6 p);
       c_lo \<leftarrow> Read2Bytes (drop 10 p);
       level \<leftarrow> rd p 12;
       spatial \<leftarrow> Read2Bytes (drop 13 p);
       parallel \<leftarrow> rd p 15;
       chroma \<leftarrow> rd p 16;
       luma8 \<leftarrow> rd p 17;
       chroma8 \<leftarrow> rd p 18;
       rate \<leftarrow> Read2Bytes (drop 19 p);
       b21 \<leftarrow> rd p 21;
       arrays_num \<leftarrow> rd p 22;
       arrays \<leftarrow> read_arrays (unat arrays_num) (drop 23 p);
       Some (case arrays of
         Inl e \<Rightarrow> Inl e
       | Inr us \<Rightarrow> Inr
           \<lparr> configuration_version = version,
             general_profile_space = drop_bit 6 b1 AND 0x03,
             general_tier_flag = drop_bit 5 b1 AND 0x01,
             general_profile_idc = b1 AND 0x1f,
             general_profile_compatibility_flags = compat,
             general_constraint_indicator_flags = push_bit 16 (ucast c_hi) OR ucast c_lo,
             general_level_idc = level,
             min_spatial_segmentation_idc = spatial AND 0x0fff,
             parallelism_type = parallel AND 0x03,
             chroma_format = chroma AND 0x03,
             bitdepth_lumaminus8 = luma8 AND 0x07,
             bitdepth_chromaminus8 = chroma8 AND 0x07,
             avg_framerate = rate,
             constant_frameRate = drop_bit 6 b21 AND 0x03,
             num_temporallayers = drop_bit 3 b21 AND 0x07,
             temporalid_nested = drop_bit 2 b21 AND 0x01,
             lengthsize_minusone = b21 AND 0x03,
             nalu_vec = us \<rparr>) } }"

text \<open>
  The last parameter set of each kind in the record; the first NALU of an array is taken,
  and an array without NALUs is out of range.  \<open>None\<close> inside is the return code -1.
\<close>

fun pick_sets :: "HEVC_NALUnit list \<Rightarrow> bytes \<times> bytes \<times> bytes \<Rightarrow> (bytes \<times> bytes \<times> bytes) option" where
  "pick_sets [] acc = Some acc"
| "pick_sets (u # us) (vps, sps, pps) =
     (if nal_unit_type u \<in> {NAL_UNIT_VPS, NAL_UNIT_SPS, NAL_UNIT_PPS} then do {
        d \<leftarrow> rd (nal_data_vec u) 0;
        pick_sets us (if nal_unit_type u = NAL_UNIT_VPS then d else vps,
                      if nal_unit_type u = NAL_UNIT_SPS then d else sps,
                      if nal_unit_type u = NAL_UNIT_PPS then d else pps) }
      else pick_sets us (vps, sps, pps))"

definition GetVpsSpsPpsFromHevcDecInfo ::
  "HEVC_DEC_CONF_RECORD \<Rightarrow> (bytes \<times> bytes \<times> bytes) option option" where
  "GetVpsSpsPpsFromHevcDecInfo info = do {
     (vps, sps, pps) \<leftarrow> pick_sets (nalu_vec info) ([], [], []);
     Some (if vps = [] \<or> sps = [] \<or> pps = [] then None else Some (vps, sps, pps)) }"

text \<open>
  The layered record.  The two fields of the fifth byte are computed with \<open>>\<close> where the
  format has a shift, so each of them is a comparison's 0 or 1.
\<close>

record LHEVC_DEC_CONF_RECORD =
  lhevc_version :: u8
  lhevc_spatial_idc :: u16
  parallelismType :: u8
  numTemporalLayers :: u8
  temporalIdNested :: u8
  lengthSizeMinusOne :: u8
  numOfArrays :: u8
  lhevc_nalu_vec :: "HEVC_NALUnit list"

definition GetLHevcDecInfoFromExtradata :: "bytes \<Rightarrow> (unit + LHEVC_DEC_CONF_RECORD) option" where
  "GetLHevcDecInfoFromExtradata p = do {
     b0 \<leftarrow> rd p 0;
     b1 \<leftarrow> rd p 1;
     b2 \<leftarrow> rd p 2;
     b3 \<leftarrow> rd p 3;
     b4 \<leftarrow> rd p 4;
     b5 \<leftarrow> rd p 5;
     arrays \<leftarrow> read_arrays (unat b5) (drop 6 p);
     Some (case arrays of
       Inl e \<Rightarrow> Inl e
     | Inr us \<Rightarrow> Inr
         \<lparr> lhevc_version = b0,
           lhevc_spatial_idc = push_bit 8 (ucast (b1 AND 0x0f)) OR ucast b2,
           parallelismType = b3 AND 0x03,
           numTemporalLayers = (if b4 AND 0x38 > 3 then 1 else 0),
           temporalIdNested = (if b4 AND 0x04 > 2 then 1 else 0),
           lengthSizeMinusOne = b4 AND 0x03,
           numOfArrays = b5,
           lhevc_nalu_vec = us \<rparr>) }"

section \<open>Splitting at the start codes\<close>

definition annexb :: "bytes list \<Rightarrow> bytes" where
  "annexb bs = concat (map (\<lambda>b. START_CODE @ b) bs)"

primrec offsets :: "nat \<Rightarrow> bytes list \<Rightarrow> nat list" where
  "offsets off [] = []"
| "offsets off (b # bs) = off # offsets (off + 4 + length b) bs"

lemma annexb_simps [simp]: "annexb [] = []" "annexb (b # bs) = 0 # 0 # 0 # 1 # b @ annexb bs"
  by (simp_all add: annexb_def START_CODE_def)

lemma annexb_cases: "annexb bs = [] \<or> (\<exists>t. annexb bs = 0 # 0 # 0 # 1 # t)"
  by (cases bs) simp_all

lemma find_starts_skip:
  assumes "t = [] \<or> (\<exists>t'. t = 0 # 0 # 0 # 1 # t')" and "\<not> sublist [0, 0, 1] b"
  shows "find_starts off (b @ t) = find_starts (off + length b) t"
  using assms(2)
proof (induction b arbitrary: off)
  case Nil
  then show ?case by simp
next
  case (Cons a b)
  from Cons.prems have s: "\<not> prefix [0, 0, 1] (a # b)" "\<not> sublist [0, 0, 1] b"
    by (auto simp: sublist_Cons_right)
  then have "take 3 (a # b @ t) \<noteq> [0, 0, 1]"
    using assms(1) by (cases b; cases "tl b") (auto simp: prefix_def numeral_3_eq_3)
  moreover have "take 4 (a # b @ t) \<noteq> [0, 0, 0, 1]"
  proof
    assume m: "take 4 (a # b @ t) = [0, 0, 0, 1]"
    with assms(1) s(2) show False
      by (cases b; cases "tl b"; cases "tl (tl b)")
         (auto simp: sublist_Cons_right prefix_def eval_nat_numeral)
  qed
  ultimately have "find_starts off ((a # b) @ t) = find_starts (off + 1) (b @ t)"
    by (simp only: append_Cons find_starts.simps if_False)
  with Cons.IH [OF s(2)] show ?case by simp
qed

lemma find_starts_annexb:
  assumes "\<forall>b\<in>set bs. \<not> sublist [0, 0, 1] b"
  shows "find_starts off (annexb bs) = map (\<lambda>i. (i, 4)) (offsets off bs)"
  using assms
proof (induction bs arbitrary: off)
  case Nil
  then show ?case by simp
next
  case (Cons b bs)
  then show ?case
    using find_starts_skip [OF annexb_cases [of bs], of b "off + 4"] by (simp add: add.commute)
qed

lemma cut_at_offsets:
  "cut_at (pre @ annexb bs) (offsets (length pre) bs) = map (\<lambda>b. START_CODE @ b) bs"
proof (induction bs arbitrary: pre)
  case Nil
  then show ?case by simp
next
  case (Cons b bs)
  from Cons.IH [of "pre @ START_CODE @ b"] show ?case
    by (cases bs) (simp_all add: START_CODE_def eval_nat_numeral)
qed

lemma AnnexB2Nalus_annexb:
  assumes "\<forall>b\<in>set bs. \<not> sublist [0, 0, 1] b" and "bs \<noteq> []"
  shows "AnnexB2Nalus (annexb bs) = (True, map (\<lambda>b. START_CODE @ b) bs)"
proof -
  from assms(2) have "4 \<le> length (annexb bs)" by (cases bs) simp_all
  with cut_at_offsets [of "[]" bs] find_starts_annexb [OF assms(1), of 0] show ?thesis
    by (simp add: AnnexB2Nalus_def comp_def)
qed

lemma cut_at_behind:
  assumes "bs \<noteq> []"
  shows "cut_at (pre @ annexb bs) (map ((+) 4) (offsets (length pre) bs)) =
    map (\<lambda>b. b @ START_CODE) (butlast bs) @ [last bs]"
  using assms
proof (induction bs arbitrary: pre)
  case Nil
  then show ?case by simp
next
  case (Cons b bs)
  from Cons.IH [of "pre @ START_CODE @ b"] show ?case
    by (cases bs) (simp_all add: START_CODE_def eval_nat_numeral)
qed

section \<open>Reading length-prefixed NALUs\<close>

definition avcc :: "bytes list \<Rightarrow> bytes" where
  "avcc bs = concat (map (\<lambda>b. Write4Bytes (of_nat (length b)) @ b) bs)"

lemma avcc_simps [simp]:
  "avcc [] = []" "avcc (b # bs) = Write4Bytes (of_nat (length b)) @ b @ avcc bs"
  by (simp_all add: avcc_def)

lemma avcc_loop_done: "len \<le> 0 \<Longrightarrow> avcc_loop p len nalus = Some (True, nalus)"
  by (subst avcc_loop.simps) simp

lemma avcc_loop_step:
  assumes "length b \<le> 10000000" and "0 < len"
  shows "avcc_loop (Write4Bytes (of_nat (length b)) @ b @ p) len nalus =
    avcc_loop p (len - 4 - int (length b)) (nalus @ [START_CODE @ b])"
proof -
  from assms(1) have n: "unat (of_nat (length b) :: u32) = length b"
    by (intro unat_of_nat_u32) simp
  with assms(1) have "\<not> of_nat (length b) > kMaxLen"
    by (simp add: kMaxLen_def word_less_nat_alt)
  with n assms(2) show ?thesis
    by (subst avcc_loop.simps) (simp add: wire grab_append)
qed

lemma avcc_loop_avcc:
  "\<forall>b\<in>set bs. length b \<le> 10000000 \<Longrightarrow>
   avcc_loop (avcc bs @ r) (int (length (avcc bs))) nalus =
     Some (True, nalus @ map (\<lambda>b. START_CODE @ b) bs)"
proof (induction bs arbitrary: nalus)
  case Nil
  then show ?case by (simp add: avcc_loop_done)
next
  case (Cons b bs)
  then show ?case
    using avcc_loop_step [of b "int (length (avcc (b # bs)))" "avcc bs @ r" nalus] by simp
qed

section \<open>More bytes behind the data\<close>

lemma avcc_loop_longer:
  "avcc_loop p len nalus = Some x \<Longrightarrow> avcc_loop (p @ d) len nalus = Some x"
proof (induction p len nalus rule: avcc_loop.induct)
  case (1 p len nalus)
  show ?case
  proof (cases "len > 0")
    case True
    with "1.prems" obtain n where n: "Read4Bytes p = Some n"
      by (subst (asm) avcc_loop.simps) (auto split: option.splits)
    have p: "drop 4 (p @ d) = drop 4 p @ d" using Read_length(2) [OF n] by simp
    show ?thesis
    proof (cases "n > kMaxLen")
      case True
      with "1.prems" \<open>len > 0\<close> n show ?thesis
        by (subst avcc_loop.simps, subst (asm) avcc_loop.simps) (simp add: longer)
    next
      case False
      with "1.prems" \<open>len > 0\<close> n obtain b where b: "grab (unat n) (drop 4 p) = Some b"
        by (subst (asm) avcc_loop.simps) (auto split: option.splits)
      have q: "drop (4 + unat n) (p @ d) = drop (4 + unat n) p @ d"
        using Read_length(2) [OF n] grab_length [OF b] by simp
      from "1.prems" \<open>len > 0\<close> n False b have
        "avcc_loop (drop (4 + unat n) p) (len - 4 - int (unat n)) (nalus @ [START_CODE @ b]) = Some x"
        by (subst (asm) avcc_loop.simps) simp
      from "1.IH" [OF \<open>len > 0\<close> n False b this] show ?thesis
        using \<open>len > 0\<close> n False b
        by (subst avcc_loop.simps) (simp add: longer p q del: drop_append)
    qed
  next
    case False
    with "1.prems" show ?thesis by (simp add: avcc_loop_done)
  qed
qed

lemma Avcc2Nalus_longer [longer]:
  "Avcc2Nalus p len = Some x \<Longrightarrow> Avcc2Nalus (p @ d) len = Some x"
  by (auto simp: Avcc2Nalus_def avcc_loop_longer split: if_splits)

lemma read_sets_longer [longer]:
  assumes "read_sets pc sc p = Some x"
  shows "read_sets pc sc (p @ d) = Some x"
proof -
  have dr: "Read2Bytes (drop k (p @ d)) = Some v" "k + 2 \<le> length p"
    if "Read2Bytes (drop k p) = Some v" for k v
    using Read_length(1) [OF that] Read_append(4) [OF that, of d] by simp_all
  have gr: "grab n (drop k (p @ d)) = Some v" if "k \<le> length p" "grab n (drop k p) = Some v" for k n v
    using that grab_longer [OF that(2), of d] by simp
  from assms obtain n s m t where r: "Read2Bytes (drop 6 p) = Some n" "grab (unat n) (drop 8 p) = Some s"
      "unat n \<le> sc" "Read2Bytes (drop (8 + unat n + 1) p) = Some m"
      "grab (unat m) (drop (8 + unat n + 3) p) = Some t" "unat m \<le> pc" "x = (t, s)"
    by (auto simp: read_sets_def bind_Some_iff require_Some_iff simp del: drop_drop)
  from dr [OF r(1)] dr [OF r(4)] gr [OF _ r(2)] gr [OF _ r(5)] r show ?thesis
    by (simp add: read_sets_def del: drop_append)
qed

lemma GetSpsPps_longer [longer]:
  assumes "GetSpsPpsFromExtraData pc sc p len = Some x"
  shows "GetSpsPpsFromExtraData pc sc (p @ d) len = Some x"
proof (cases "len > 4")
  case True
  with assms obtain b4 where b4: "rd p 4 = Some b4"
    by (auto simp: GetSpsPpsFromExtraData_def bind_Some_iff)
  show ?thesis
  proof (cases "b4 = 0xff")
    case False
    with True b4 assms rd_longer [OF b4, of d] show ?thesis
      by (simp add: GetSpsPpsFromExtraData_def del: rd_append rd_append_ge)
  next
    case eq: True
    with assms True b4 obtain b5 where b5: "rd p 5 = Some b5"
      by (auto simp: GetSpsPpsFromExtraData_def bind_Some_iff)
    from eq True b4 b5 assms rd_longer [OF b4, of d] rd_longer [OF b5, of d] show ?thesis
      by (auto simp add: GetSpsPpsFromExtraData_def read_sets_longer simp del: rd_append rd_append_ge)
  qed
next
  case False
  with assms show ?thesis
    by (auto simp: GetSpsPpsFromExtraData_def read_sets_longer split: if_splits)
qed

section \<open>The properties\<close>

text \<open>
  C19: cutting a byte stream at its start codes gives back exactly the NALUs that were
  joined with 4-byte start codes, each behind its start code, when no NALU contains a start
  code; the stream is refused only when it has no NALU.
\<close>

theorem annexb_split:
  assumes "\<forall>b\<in>set bs. \<not> sublist [0, 0, 1] b"
  shows "AnnexB2Nalus (annexb bs) = (bs \<noteq> [], map (\<lambda>b. START_CODE @ b) bs)"
  using AnnexB2Nalus_annexb [OF assms] by (cases "bs = []") (simp_all add: AnnexB2Nalus_def)

theorem annexb_split_witness:
  "AnnexB2Nalus [0, 0, 0, 1, 0x67, 0, 0, 0, 0, 0, 1, 0x68, 5] =
     (True, [[0, 0, 0, 1, 0x67, 0, 0], [0, 0, 0, 1, 0x68, 5]])"
  using annexb_split [of "[[0x67, 0, 0], [0x68, 5]]"]
  by (simp add: sublist_Cons_right START_CODE_def)

text \<open>
  C21: the length-prefixed form that \<open>AnnexB2Avcc\<close> makes of a byte stream is right only for
  the last NALU: every other item carries the start code of the NALU behind it as its
  last four bytes, and its length counts them.
\<close>

theorem AnnexB2Avcc_keeps_start_codes:
  assumes "\<forall>b\<in>set bs. \<not> sublist [0, 0, 1] b" and "bs \<noteq> []"
  shows "AnnexB2Avcc (annexb bs) =
    (True, map (\<lambda>n. Write4Bytes (of_nat (length n)) @ n)
             (map (\<lambda>b. b @ START_CODE) (butlast bs) @ [last bs]))"
proof -
  from assms(2) have "4 \<le> length (annexb bs)" by (cases bs) simp_all
  moreover have "(\<lambda>(off, k). off + k) \<circ> (\<lambda>i. (i, 4)) = (+) (4 :: nat)" by auto
  ultimately show ?thesis
    using cut_at_behind [OF assms(2), of "[]"] find_starts_annexb [OF assms(1), of 0]
    by (simp add: AnnexB2Avcc_def del: map_append)
qed

theorem AnnexB2Avcc_keeps_start_codes_witness:
  "AnnexB2Avcc [0, 0, 0, 1, 0x67, 0, 0, 0, 1, 0x68] =
     (True, [[0, 0, 0, 5, 0x67, 0, 0, 0, 1], [0, 0, 0, 1, 0x68]])"
  using AnnexB2Avcc_keeps_start_codes [of "[[0x67], [0x68]]"]
  by (simp add: sublist_Cons_right START_CODE_def Write4Bytes_def eval_bits)

text \<open>
  C20: reading length-prefixed NALUs of at most ten million bytes each gives back the
  NALUs, each behind a 4-byte start code, whatever follows them in the buffer.
\<close>

theorem avcc_roundtrip:
  assumes "\<forall>b\<in>set bs. length b \<le> 10000000" and "bs \<noteq> []"
  shows "Avcc2Nalus (avcc bs @ r) (length (avcc bs)) = Some (True, map (\<lambda>b. START_CODE @ b) bs)"
proof -
  from assms(2) have "4 \<le> length (avcc bs)" by (cases bs) simp_all
  with avcc_loop_avcc [OF assms(1), of r "[]"] show ?thesis by (simp add: Avcc2Nalus_def)
qed

theorem avcc_roundtrip_witness:
  "Avcc2Nalus [0, 0, 0, 2, 0x65, 1, 0, 0, 0, 1, 0x41, 9] 11 =
     Some (True, [[0, 0, 0, 1, 0x65, 1], [0, 0, 0, 1, 0x41]])"
proof -
  let ?e = "[0, 0, 0, 2, 0x65, 1, 0, 0, 0, 1, 0x41] :: bytes"
  have e: "avcc [[0x65, 1], [0x41]] = ?e" by (simp add: Write4Bytes_def eval_bits)
  have l: "length ?e = 11" by simp
  from avcc_roundtrip [of "[[0x65, 1], [0x41]]" "[9]", unfolded e l] show ?thesis
    by (simp add: START_CODE_def)
qed

text \<open>
  the parameter sets that \<open>get_video_extradata\<close> packs into an AVC decoder
  configuration are read back by \<open>GetSpsPpsFromExtraData\<close>, for sets that fit the reader's
  buffers.
\<close>

theorem extradata_roundtrip:
  assumes "get_video_extradata pps sps = Some extra"
    and "length sps \<le> sps_cap" "length pps \<le> pps_cap" "length sps < 65536" "length pps < 65536"
  shows "GetSpsPpsFromExtraData pps_cap sps_cap (extra @ r) (length extra) = Some (Some (pps, sps))"
proof -
  from assms(4,5) have u: "unat (of_nat (length sps) :: u16) = length sps"
    "unat (of_nat (length pps) :: u16) = length pps" by (simp_all add: unat_of_nat_u16)
  from assms(1) obtain a b c where e: "extra = [0x01, a, b, c, 0xff, 0xe1] @
      Write2Bytes (of_nat (length sps)) @ sps @ [0x01] @ Write2Bytes (of_nat (length pps)) @ pps"
    by (auto simp: get_video_extradata_def bind_Some_iff)
  let ?head = "[0x01, a, b, c, 0xff, 0xe1] @ Write2Bytes (of_nat (length sps)) @ sps @ [0x01]"
  have "drop (8 + length sps + 1) (extra @ r) = Write2Bytes (of_nat (length pps)) @ pps @ r"
    using drop_eq_append [of ?head "8 + length sps + 1" "Write2Bytes (of_nat (length pps)) @ pps @ r"]
    by (simp add: e)
  moreover have "drop (8 + length sps + 3) (extra @ r) = pps @ r"
    using drop_eq_append [of "?head @ Write2Bytes (of_nat (length pps))" "8 + length sps + 3" "pps @ r"]
    by (simp add: e)
  moreover have "drop 8 (extra @ r) = sps @ [0x01] @ Write2Bytes (of_nat (length pps)) @ pps @ r"
    using drop_eq_append [of "[0x01, a, b, c, 0xff, 0xe1] @ Write2Bytes (of_nat (length sps))" 8]
    by (simp add: e)
  moreover have "Read2Bytes (drop 6 (extra @ r)) = Some (of_nat (length sps))"
    by (simp add: e wire)
  moreover have "rd (extra @ r) 4 = Some 0xff" "rd (extra @ r) 5 = Some 0xe1"
    "length extra > 4" "extra \<noteq> []"
    by (simp_all add: e)
  ultimately show ?thesis
    using u assms(2,3) by (simp add: GetSpsPpsFromExtraData_def read_sets_def wire del: drop_append)
qed

theorem extradata_roundtrip_witness:
  "GetSpsPpsFromExtraData 512 512 [1, 0x42, 0xc0, 0x1f, 0xff, 0xe1, 0, 4, 0x67, 0x42, 0xc0, 0x1f, 1, 0, 2, 0x68, 0xce] 17 =
     Some (Some ([0x68, 0xce], [0x67, 0x42, 0xc0, 0x1f]))"
proof -
  let ?e = "[1, 0x42, 0xc0, 0x1f, 0xff, 0xe1, 0, 4, 0x67, 0x42, 0xc0, 0x1f, 1, 0, 2, 0x68, 0xce] :: bytes"
  have e: "get_video_extradata [0x68, 0xce] [0x67, 0x42, 0xc0, 0x1f] = Some ?e"
    by (simp add: get_video_extradata_def Write2Bytes_def eval_bits)
  have l: "length ?e = 17" by simp
  from extradata_roundtrip [OF e, of 512 512 "[]", unfolded l] show ?thesis by simp
qed

end
