(* ===== verification/FlvMux.thy ===== *)
theory FlvMux
  imports Streamer FlvPub NaluHeader
begin

text \<open>
  format/flv/flv_mux.hpp and format/flv/flv_mux.cpp: the stage that turns packets into FLV
  tags.  The record is the muxer's state; \<open>sps_len_\<close> and \<open>pps_len_\<close> below 1 are \<open>None\<close>.  The
  packet's buffer is its bytes; \<open>SourceData\<close> moves a packet with a three-byte start code one
  byte back into the room in front of it, the argument \<open>head\<close>.  The lemmas give the exact
  bytes of a tag, and show that the timestamp of a tag has no more than 24 bits.
\<close>

record flv_muxer = streamer +
  mux_has_video :: bool
  mux_has_audio :: bool
  mux_sps :: "bytes option"
  mux_pps :: "bytes option"
  first_video :: bool
  header_ready :: bool

definition flv_mux_options :: "bytes \<rightharpoonup> bytes" where
  "flv_mux_options = [str ''onlyaudio'' \<mapsto> str ''false'', str ''onlyvideo'' \<mapsto> str ''false'']"

definition new_FlvMuxer :: "bytes \<Rightarrow> flv_muxer" where
  "new_FlvMuxer name = streamer.extend (new_streamer name flv_mux_options)
     \<lparr> mux_has_video = True, mux_has_audio = True, mux_sps = None, mux_pps = None,
       first_video = False, header_ready = False \<rparr>"

definition flv_mux_AddOption :: "bytes \<Rightarrow> bytes \<Rightarrow> flv_muxer \<Rightarrow> flv_muxer option" where
  "flv_mux_AddOption key v s = do {
     s \<leftarrow> put_option key v s;
     s \<leftarrow> Some (if options s (str ''onlyvideo'') = Some (str ''true'')
                then s\<lparr>mux_has_video := True, mux_has_audio := False\<rparr> else s);
     Some (if options s (str ''onlyaudio'') = Some (str ''true'')
           then s\<lparr>mux_has_video := False, mux_has_audio := True\<rparr> else s) }"

section \<open>Tags\<close>

definition MuxFlvHeader :: "flv_muxer \<Rightarrow> bytes" where
  "MuxFlvHeader s =
     (let flag = (if mux_has_video s then 0x01 else 0) OR (if mux_has_audio s then 0x04 else 0)
      in [0x46, 0x4c, 0x56, 0x01, flag, 0, 0, 0, 0x09, 0, 0, 0, 0])"

text \<open>
  The 11 bytes of a tag header.  The extension byte is taken from the timestamp after the
  timestamp has been cut to 24 bits.
\<close>

definition flv_tag_header :: "u8 \<Rightarrow> nat \<Rightarrow> int \<Rightarrow> bytes" where
  "flv_tag_header tag media_size ts =
     (let timestamp_base = of_int (ts AND 0xffffff) :: u32;
          timestamp_ext = ucast (drop_bit 24 (of_int (ts AND 0xffffff) :: u32) AND 0xff) :: u8
      in [tag] @ Write3Bytes (of_nat media_size) @ Write3Bytes timestamp_base @ [timestamp_ext]
         @ [0, 0, 1])"

definition mux_video_bytes :: "u8 \<Rightarrow> media_packet \<Rightarrow> bytes" where
  "mux_video_bytes codec pkt =
     (if is_seq_hdr pkt then [FLV_VIDEO_KEY_FLAG OR codec, FLV_VIDEO_AVC_SEQHDR]
      else if is_key_frame pkt then [FLV_VIDEO_KEY_FLAG OR codec, FLV_VIDEO_AVC_NALU]
      else [FLV_VIDEO_INTER_FLAG OR codec, FLV_VIDEO_AVC_NALU])
     @ Write3Bytes (flv_ts_delta pkt)"

definition flv_OutputPacket :: "media_packet \<Rightarrow> flv_muxer \<Rightarrow> flv_muxer" where
  "flv_OutputPacket pkt s = sink_all pkt s"

text \<open>The tag of a packet: the type byte and what stands between the tag header and the data.\<close>

definition flv_media_head :: "media_packet \<Rightarrow> (u8 \<times> bytes) option" where
  "flv_media_head pkt =
     (if av_type pkt = MEDIA_VIDEO_TYPE then
        map_option (\<lambda>c. (FLV_TAG_VIDEO, mux_video_bytes c pkt)) (flv_video_codec (codec_type pkt))
      else if av_type pkt = MEDIA_AUDIO_TYPE then
        map_option (\<lambda>c. (FLV_TAG_AUDIO, [0x0f OR c, if is_seq_hdr pkt then 0x00 else 0x01]))
          (flv_audio_codec (codec_type pkt))
      else if av_type pkt = MEDIA_METADATA_TYPE then Some (FLV_TAG_TYPE_META, [])
      else None)"

definition flv_mux_error :: "media_packet \<Rightarrow> flv_muxer \<Rightarrow> flv_muxer" where
  "flv_mux_error pkt s =
     (if av_type pkt = MEDIA_VIDEO_TYPE then
        Report ''error'' ''flv mux unsuport video codec type:%d'' [int (codec_value (codec_type pkt))] s
      else if av_type pkt = MEDIA_AUDIO_TYPE then
        Report ''error'' ''flv mux unsuport audio codec type:%d'' [int (codec_value (codec_type pkt))] s
      else Report ''error'' ''flv mux does not suport media type:%d''
             [case av_type pkt of MEDIA_MOVBOX_TYPE \<Rightarrow> 3 | _ \<Rightarrow> 0] s)"

definition flv_InputPacket :: "media_packet \<Rightarrow> flv_muxer \<Rightarrow> int \<times> flv_muxer" where
  "flv_InputPacket pkt s =
     (let file_header = (if header_ready s then [] else MuxFlvHeader s);
          s = s\<lparr>header_ready := True\<rparr>
      in case flv_media_head pkt of
           None \<Rightarrow> (-1, flv_mux_error pkt s)
         | Some (tag, media_head) \<Rightarrow>
             let media_size = length media_head + length (pkt_data pkt);
                 pre_size = 11 + length media_head + length (pkt_data pkt);
                 output = new_Media_Packet
                   \<lparr>pkt_data := file_header @ flv_tag_header tag media_size (dts pkt) @ media_head
                                @ pkt_data pkt @ Write4Bytes (of_nat pre_size),
                    av_type := av_type pkt, codec_type := codec_type pkt, fmt_type := MEDIA_FORMAT_FLV,
                    dts := dts pkt, pts := pts pkt\<rparr>
             in (0, flv_OutputPacket output s))"

section \<open>Packets from the pipeline\<close>

definition seq_packet :: "media_packet \<Rightarrow> bytes \<Rightarrow> media_packet" where
  "seq_packet pkt extra =
     (copy_properties new_Media_Packet pkt)\<lparr>is_seq_hdr := True, is_key_frame := False, pkt_data := extra\<rparr>"

text \<open>
  A video packet has one NALU behind a start code.  Parameter sets that fit the muxer's
  buffers of 128 bytes are kept; a key frame, and the first frame, is preceded by a
  configuration packet; then the start code is overwritten by the length.
\<close>

definition flv_SourceData_video :: "bytes \<Rightarrow> media_packet \<Rightarrow> flv_muxer \<Rightarrow> (int \<times> flv_muxer) option" where
  "flv_SourceData_video head pkt s =
     (let p = pkt_data pkt; len = length p in
      if len < 5 then Some (-1, Report ''error'' ''video data length error'' [] s)
      else do {
        nalu_type_pos \<leftarrow> GetNaluTypePos p;
        if nalu_type_pos < 3 then Some (-1, s)
        else do {
          nalu \<leftarrow> Some (drop (nat nalu_type_pos) p);
          ty \<leftarrow> rd p (nat nalu_type_pos);
          if len < 128 \<and> H264_IS_SPS ty then Some (0, s\<lparr>mux_sps := Some nalu\<rparr>)
          else if len < 128 \<and> H264_IS_PPS ty then Some (0, s\<lparr>mux_pps := Some nalu\<rparr>)
          else (case (mux_sps s, mux_pps s) of
                  (Some sps, Some pps) \<Rightarrow> do {
                    s \<leftarrow> (if H264_IS_KEYFRAME ty \<or> \<not> first_video s then do {
                            extra \<leftarrow> get_video_extradata pps sps;
                            Some (snd (flv_InputPacket (seq_packet pkt extra) (s\<lparr>first_video := True\<rparr>))) }
                          else Some s);
                    require (nalu_type_pos = 3 \<longrightarrow> 1 \<le> length head);
                    Some (flv_InputPacket
                            (pkt\<lparr>pkt_data := Write4Bytes (of_nat (length nalu)) @ nalu\<rparr>) s) }
                | _ \<Rightarrow> Some (-1, s)) } })"

definition flv_SourceData :: "bytes \<Rightarrow> media_packet option \<Rightarrow> flv_muxer \<Rightarrow> (int \<times> flv_muxer) option" where
  "flv_SourceData head pkt s = (case pkt of
     None \<Rightarrow> Some (0, s)
   | Some pkt \<Rightarrow>
       if av_type pkt = MEDIA_VIDEO_TYPE then flv_SourceData_video head pkt s
       else Some (flv_InputPacket pkt s))"

section \<open>The bytes of a tag\<close>

definition flv_tag :: "media_packet \<Rightarrow> bytes" where
  "flv_tag pkt = (case flv_media_head pkt of
     None \<Rightarrow> []
   | Some (tag, media_head) \<Rightarrow>
       flv_tag_header tag (length media_head + length (pkt_data pkt)) (dts pkt) @ media_head
       @ pkt_data pkt @ Write4Bytes (of_nat (11 + length media_head + length (pkt_data pkt))))"

lemma length_flv_tag_header [simp, lens]: "length (flv_tag_header tag n ts) = 11"
  by (simp add: flv_tag_header_def Let_def)

lemma ts_24: "of_int (ts AND 0xffffff) = (of_int (ts mod 2 ^ 24) :: u32)"
  using take_bit_eq_mask [of 24 ts] by (simp add: take_bit_eq_mod mask_eq_exp_minus_1)

text \<open>The extension byte is always 0.\<close>

lemma flv_tag_header_eq:
  "flv_tag_header tag n ts =
     [tag] @ Write3Bytes (of_nat n) @ Write3Bytes (of_int (ts mod 2 ^ 24)) @ [0, 0, 0, 1]"
proof -
  have "unat (of_int (ts mod 2 ^ 24) :: u32) < 2 ^ 24"
    by (simp add: unsigned_of_int take_bit_eq_mod nat_less_iff)
  then have "drop_bit 24 (of_int (ts mod 2 ^ 24) :: u32) = 0"
    by (simp only: word_eq_iff_unat unat_drop_bit_eq) (simp add: drop_bit_eq_div)
  then show ?thesis by (simp add: flv_tag_header_def ts_24 Let_def)
qed

lemma mux_video_bytes_eq: "mux_video_bytes c pkt = flv_video_bytes c pkt"
  by (simp add: mux_video_bytes_def flv_video_bytes_eq flv_codes or.commute)

lemma flv_InputPacket_ok:
  assumes "flv_media_head pkt \<noteq> None"
  shows "\<exists>q. flv_InputPacket pkt s = (0, sink_all q (s\<lparr>header_ready := True\<rparr>)) \<and>
    pkt_data q = (if header_ready s then [] else MuxFlvHeader s) @ flv_tag pkt"
  using assms by (auto simp: flv_InputPacket_def flv_tag_def Let_def flv_OutputPacket_def split: prod.splits)

end
