(* ===== verification/AudioHeader.thy ===== *)
theory AudioHeader
  imports FlvPub
begin

text \<open>
  format/audio_header.hpp and format/audio_header.cpp: the audio parameters of an FLV tag
  and of an AAC AudioSpecificConfig (ASC), the ADTS frame header and the Opus header.  The
  out-parameters of the C++ functions are the components of the results; \<open>None\<close> is a read
  past the bytes that are there or a failed assertion, which ends the process.  The lemmas
  show that the two ASC readers agree where the format has the short form, that an ASC
  reads back as it was built, and that a parser of the ADTS format finds in the header the
  values it was made from, within the widths of its fields.
\<close>

definition FLV_AUDIO_MP3_CODEC :: u8 where "FLV_AUDIO_MP3_CODEC = 0x20"

definition FLV_AUDIO_CHANNEL_MASK :: u8 where "FLV_AUDIO_CHANNEL_MASK = 0x01"
definition FLV_AUDIO_SAMPLESIZE_MASK :: u8 where "FLV_AUDIO_SAMPLESIZE_MASK = 0x02"
definition FLV_AUDIO_SAMPLERATE_MASK :: u8 where "FLV_AUDIO_SAMPLERATE_MASK = 0x0c"
definition FLV_AUDIO_CODECID_MASK :: u8 where "FLV_AUDIO_CODECID_MASK = 0xf0"

definition mpeg4audio_sample_rates :: "int list" where
  "mpeg4audio_sample_rates =
     [96000, 88200, 64000, 48000, 44100, 32000,
      24000, 22050, 16000, 12000, 11025, 8000, 7350, 0, 0, 0]"

definition flv_audio_rates :: "int list" where
  "flv_audio_rates = [5512, 11025, 22050, 44100]"

section \<open>The FLV flag byte\<close>

definition GetAudioInfoByFlvHeader :: "u8 \<Rightarrow> (MEDIA_CODEC_TYPE \<times> int \<times> int \<times> u8) option" where
  "GetAudioInfoByFlvHeader flag =
     (let c = flag AND FLV_AUDIO_CODECID_MASK;
          rate_flag = drop_bit 2 (flag AND FLV_AUDIO_SAMPLERATE_MASK);
          info = (\<lambda>codec. Some (codec, flv_audio_rates ! unat rate_flag,
                    if flag AND FLV_AUDIO_SAMPLESIZE_MASK \<noteq> 0 then 1 else 0,
                    if flag AND FLV_AUDIO_CHANNEL_MASK = FLV_AUDIO_CHANNEL_MASK then 2 else 1))
      in if c = FLV_AUDIO_AAC_CODEC then info MEDIA_CODEC_AAC
         else if c = FLV_AUDIO_MP3_CODEC then info MEDIA_CODEC_MP3
         else if c = FLV_AUDIO_OPUS_CODEC then info MEDIA_CODEC_OPUS
         else None)"

section \<open>Sample rates and object types\<close>

definition GetSampleRateByIndex :: "int \<Rightarrow> int" where
  "GetSampleRateByIndex index =
     (if index < 0 \<or> 16 \<le> index then -1 else mpeg4audio_sample_rates ! nat index)"

text \<open>The search loop over the table; a rate that is not there gets index 4.\<close>

fun rate_index_from :: "int \<Rightarrow> int list \<Rightarrow> nat \<Rightarrow> nat" where
  "rate_index_from samplerate [] index = 4"
| "rate_index_from samplerate (r # rs) index =
     (if samplerate = r then index else rate_index_from samplerate rs (index + 1))"

definition GetSamplerateIndex :: "int \<Rightarrow> nat" where
  "GetSamplerateIndex samplerate = rate_index_from samplerate mpeg4audio_sample_rates 0"

definition ASC_TYPE_AAC_MAIN :: int where "ASC_TYPE_AAC_MAIN = 1"
definition ASC_TYPE_LC :: int where "ASC_TYPE_LC = 2"
definition ASC_TYPE_AAC_SSR :: int where "ASC_TYPE_AAC_SSR = 3"
definition ASC_TYPE_AAC_HE :: int where "ASC_TYPE_AAC_HE = 5"
definition ASC_TYPE_AAC_HEv2 :: int where "ASC_TYPE_AAC_HEv2 = 29"

definition AAC_ADTS_TYPE_MAIN :: int where "AAC_ADTS_TYPE_MAIN = 1"
definition AAC_ADTS_TYPE_LC :: int where "AAC_ADTS_TYPE_LC = 2"
definition AAC_ADTS_TYPE_SSR :: int where "AAC_ADTS_TYPE_SSR = 3"
definition AAC_ADTS_TYPE_RESERVE :: int where "AAC_ADTS_TYPE_RESERVE = 4"

lemmas aac_types = ASC_TYPE_AAC_MAIN_def ASC_TYPE_LC_def ASC_TYPE_AAC_SSR_def ASC_TYPE_AAC_HE_def
  ASC_TYPE_AAC_HEv2_def AAC_ADTS_TYPE_MAIN_def AAC_ADTS_TYPE_LC_def AAC_ADTS_TYPE_SSR_def
  AAC_ADTS_TYPE_RESERVE_def

definition GetAdtsTypeByAscType :: "int \<Rightarrow> int" where
  "GetAdtsTypeByAscType asc_type =
     (if asc_type = ASC_TYPE_AAC_MAIN then AAC_ADTS_TYPE_MAIN
      else if asc_type = ASC_TYPE_AAC_HE \<or> asc_type = ASC_TYPE_AAC_HEv2 \<or> asc_type = ASC_TYPE_LC
      then AAC_ADTS_TYPE_LC
      else if asc_type = ASC_TYPE_AAC_SSR then AAC_ADTS_TYPE_SSR
      else AAC_ADTS_TYPE_RESERVE)"

definition GetAscTypeByAdtsType :: "int \<Rightarrow> int" where
  "GetAscTypeByAdtsType adts_type =
     (if adts_type = AAC_ADTS_TYPE_MAIN then ASC_TYPE_AAC_MAIN
      else if adts_type = AAC_ADTS_TYPE_LC then ASC_TYPE_LC
      else if adts_type = AAC_ADTS_TYPE_SSR then ASC_TYPE_AAC_SSR
      else ASC_TYPE_LC)"

section \<open>The AudioSpecificConfig\<close>

text \<open>
  \<open>data_size\<close> is the \<open>size_t\<close> argument; \<open>left_len\<close> is its conversion to \<open>int\<close> less 2.  The
  result is the object type, the sample rate and the channel number, of which the last two
  may be those of the caller: the form with an explicit rate does not set the channel.
  The pointer moves on by one byte behind the two that have been read, and a 24-bit read
  is stored in 16 bits.
\<close>

definition asc_left_len :: "nat \<Rightarrow> int" where
  "asc_left_len data_size = sint (of_nat data_size :: 32 word) - 2"

definition GetAudioInfoByAsc ::
  "bytes \<Rightarrow> nat \<Rightarrow> int \<Rightarrow> u8 \<Rightarrow> (u8 \<times> int \<times> u8) option" where
  "GetAudioInfoByAsc data data_size rate0 channel0 = do {
     require (data_size \<ge> 2);
     field \<leftarrow> Read2Bytes data;
     p \<leftarrow> Some (drop 1 data);
     audio_type \<leftarrow> Some (ucast (drop_bit 11 (field AND 0xf900)) :: u8);
     if audio_type = 31 then do {
       audio_type \<leftarrow> Some (ucast (drop_bit 5 (field AND 0x07e0)) :: u8);
       index \<leftarrow> Some (unat (drop_bit 1 (field AND 0x1e)));
       if index = 0x0f then do {
         require (asc_left_len data_size > 3);
         v \<leftarrow> Read3Bytes p;
         field \<leftarrow> Some (ucast v :: u16);
         b \<leftarrow> rd p 3;
         Some (audio_type, int (unat (drop_bit 1 field)),
               push_bit 3 (ucast (field AND 0x01)) OR (drop_bit 5 b AND 0x07)) }
       else do {
         b \<leftarrow> rd p 0;
         Some (audio_type, mpeg4audio_sample_rates ! index,
               push_bit 3 (ucast (field AND 0x01)) OR (drop_bit 5 b AND 0x07)) } }
     else do {
       index \<leftarrow> Some (unat (drop_bit 7 (field AND 0x0790) AND 0x0f));
       if index = 0x0f then do {
         last_bits \<leftarrow> Some (int (unat (field AND 0x7f)));
         field \<leftarrow> Read2Bytes p;
         Some (audio_type, (push_bit 17 last_bits AND 0xfe0000) OR int (unat (drop_bit 1 field AND 0x7f)),
               channel0) }
       else
         Some (audio_type, mpeg4audio_sample_rates ! index, ucast (drop_bit 3 field AND 0x0f)) } }"

text \<open>The second reader; \<open>None\<close> inside is the return value \<open>false\<close>.\<close>

definition GetAudioInfo2ByAsc :: "bytes \<Rightarrow> (u8 \<times> int \<times> u8) option option" where
  "GetAudioInfo2ByAsc data = do {
     b0 \<leftarrow> rd data 0;
     audio_type \<leftarrow> Some (drop_bit 3 b0 AND 0x1f);
     if audio_type = 31 then Some None
     else do {
       b1 \<leftarrow> rd data 1;
       index \<leftarrow> Some (push_bit 1 (b0 AND 0x07) OR drop_bit 7 (b1 AND 0x80));
       rate \<leftarrow> Some (mpeg4audio_sample_rates ! unat index);
       chan \<leftarrow> Some (drop_bit 3 b1 AND 0x0f);
       if audio_type = 5 \<or> audio_type = 29 then do {
         b2 \<leftarrow> rd data 2;
         index \<leftarrow> Some ((push_bit 1 b1 AND 0x0e) OR drop_bit 7 b2);
         Some (Some (audio_type, mpeg4audio_sample_rates ! unat index, chan)) }
       else Some (Some (audio_type, rate, chan)) } }"

lemma GetAudioInfoByAsc_longer [longer]:
  assumes "GetAudioInfoByAsc p n r c = Some x"
  shows "GetAudioInfoByAsc (p @ d) n r c = Some x"
proof -
  from assms obtain f where f: "Read2Bytes p = Some f" by (auto simp: GetAudioInfoByAsc_def bind_Some_iff)
  then have p: "drop 1 (p @ d) = drop 1 p @ d" using Read_length(1) [OF f] by simp
  from assms show ?thesis
    unfolding GetAudioInfoByAsc_def p Read_append(4) [OF f] f
    by (auto simp: bind_Some_iff longer simp del: drop_append rd_drop split: if_splits)
qed

section \<open>The ADTS header\<close>

definition ADTS_LEN :: nat where "ADTS_LEN = 7"

definition MakeAdts :: "u8 \<Rightarrow> int \<Rightarrow> int \<Rightarrow> int \<Rightarrow> bool \<Rightarrow> bytes" where
  "MakeAdts object_type rate chan full_frame_size mpegts2 =
     (let index = int (GetSamplerateIndex rate);
          size = (full_frame_size + int ADTS_LEN) AND 0x1fff
      in [0xff,
          if mpegts2 then 0xf9 else 0xf1,
          of_int (push_bit 6 (int (unat object_type) - 1)) OR of_int (push_bit 2 index)
            OR of_int (drop_bit 2 chan),
          of_int (push_bit 6 chan) OR of_int (drop_bit 14 (push_bit 3 size)),
          of_int (drop_bit 8 (push_bit 5 size)),
          of_int (push_bit 5 (drop_bit 13 (push_bit 13 size))) OR of_int (drop_bit 3 (push_bit 1 0x7c)),
          0xfc])"

definition MakeOpusHeader :: "int \<Rightarrow> int \<Rightarrow> bytes" where
  "MakeOpusHeader rate chan =
     [0x4f, 0x70, 0x75, 0x73, 0x48, 0x65, 0x61, 0x64, 1, of_int chan]
     @ Write2Bytes_le 0 @ Write4Bytes_le (of_int rate) @ Write2Bytes_le 0 @ [0]"

section \<open>The indices of the rates\<close>

lemma length_rates [simp]: "length mpeg4audio_sample_rates = 16"
  by (simp add: mpeg4audio_sample_rates_def)

lemma GetSamplerateIndex_less: "GetSamplerateIndex r < 14"
  by (simp add: GetSamplerateIndex_def mpeg4audio_sample_rates_def)

lemma rate_of_index:
  "i < 13 \<Longrightarrow> GetSamplerateIndex (mpeg4audio_sample_rates ! i) = i"
proof -
  assume "i < 13"
  then have "i \<in> set [0..<13]" by simp
  then show ?thesis
    by (auto simp: GetSamplerateIndex_def mpeg4audio_sample_rates_def upt_conv_Cons)
qed

section \<open>Building and reading an ASC\<close>

text \<open>The short form of the format: 5 bits object type, 4 bits rate index, 4 bits channels.\<close>

definition asc_bytes :: "u8 \<Rightarrow> u8 \<Rightarrow> u8 \<Rightarrow> bytes" where
  "asc_bytes t i c = [push_bit 3 t OR drop_bit 1 i, push_bit 7 i OR push_bit 3 c]"

lemma Read2Bytes_Cons [wire]:
  "Read2Bytes (a # b # r) = Some (push_bit 8 (ucast a) OR ucast b)"
proof -
  have "(of_nat (unat a * 256 + unat b) :: u16) = push_bit 8 (ucast a) + ucast b"
    by (simp add: push_bit_eq_mult)
  also have "\<dots> = push_bit 8 (ucast a) OR ucast b"
    by (rule disjunctive_add) (auto simp: bit_simps dest: bit_imp_le_length)
  finally show ?thesis
    by (simp add: Read2Bytes_def read_be_def grab_def be_val_def)
qed

text \<open>Bit fields as arithmetic on the values.\<close>

lemma unat_drop_bit: "unat (drop_bit n w) = unat w div 2 ^ n" for w :: "'a::len word"
  by (simp only: unat_drop_bit_eq) (simp only: drop_bit_eq_div)

lemma unat_word16_of_bytes: "unat (push_bit 8 (ucast a) OR ucast b :: u16) = 256 * unat a + unat b" for a b :: u8
proof -
  have "(push_bit 8 (ucast a) OR ucast b :: u16) = push_bit 8 (ucast a) + ucast b"
    by (rule disjunctive_add [symmetric]) (auto simp: bit_simps dest: bit_imp_le_length)
  also have "\<dots> = of_nat (256 * unat a + unat b)" by (simp add: push_bit_eq_mult)
  moreover have "256 * unat a + unat b < 2 ^ 16"
    using unat_byte_less [of a] unat_byte_less [of b] by (simp del: unat_byte_less)
  ultimately show ?thesis by (simp add: unat_of_nat del: of_nat_add of_nat_mult)
qed

lemma asc_fields:
  fixes a b :: u8
  defines "f \<equiv> (push_bit 8 (ucast a) OR ucast b) :: u16"
  shows "drop_bit 11 (f AND 0xf900) = ucast (drop_bit 3 a)"
    "drop_bit 7 (f AND 0x0790) AND 0x0f = ucast (push_bit 1 (a AND 0x07) OR drop_bit 7 b)"
    "drop_bit 3 f AND 0x0f = ucast (drop_bit 3 b AND 0x0f)"
proof -
  have f: "unat f = 256 * unat a + unat b" unfolding f_def by (rule unat_word16_of_bytes)
  have m: "(0x0f :: u16) = mask 4" "(0x1f :: u16) = mask 5" "(0x0f :: u8) = mask 4" "(0x07 :: u8) = mask 3"
    by (simp_all add: mask_eq_exp_minus_1)
  have "unat (drop_bit 11 f AND mask 5) = unat a div 8"
    unfolding unat_mask_mod unat_drop_bit f using unat_byte_less [of a] unat_byte_less [of b]
    by (simp del: unat_byte_less)
  then have "drop_bit 11 f AND 0x1f = ucast (drop_bit 3 a)"
    unfolding m word_eq_iff_unat unat_ucast_byte unat_drop_bit by simp
  then show "drop_bit 11 (f AND 0xf900) = ucast (drop_bit 3 a)" by (simp add: drop_bit_and)
  have "unat (push_bit 1 (a AND mask 3) OR drop_bit 7 b) = unat (a AND mask 3) * 2 ^ 1 + unat (drop_bit 7 b)"
    using unat_byte_less [of b] by (intro unat_push_or) (simp_all add: unat_drop_bit unat_mask_mod del: unat_byte_less)
  moreover have "unat (drop_bit 7 f AND mask 4) = unat (a AND mask 3) * 2 ^ 1 + unat (drop_bit 7 b)"
  proof -
    have "(256 * unat a + unat b) div 128 = 2 * unat a + unat b div 128"
      using div_mult_self2 [of 128 "unat b" "2 * unat a"] by (simp add: add.commute)
    moreover have "(2 * unat a + x) mod 16 = unat a mod 8 * 2 + x" if "x < 2" for x
      using that mod_mult2_eq [of "2 * unat a + x" 2 8] by (auto simp: less_2_cases_iff)
    moreover have "unat b div 128 < 2" using unat_byte_less [of b] by (simp del: unat_byte_less)
    ultimately show ?thesis by (simp add: unat_mask_mod unat_drop_bit f)
  qed
  ultimately have "drop_bit 7 f AND 0x0f = ucast (push_bit 1 (a AND 0x07) OR drop_bit 7 b)"
    unfolding m word_eq_iff_unat unat_ucast_byte by (simp only:)
  moreover have "drop_bit 7 (f AND 0x0790) AND 0x0f = drop_bit 7 f AND 0x0f"
    by (simp add: drop_bit_and and.assoc)
  ultimately show "drop_bit 7 (f AND 0x0790) AND 0x0f = ucast (push_bit 1 (a AND 0x07) OR drop_bit 7 b)"
    by (simp only:)
  show "drop_bit 3 f AND 0x0f = ucast (drop_bit 3 b AND 0x0f)"
  proof -
    have "(256 * unat a + unat b) div 8 = 16 * (2 * unat a) + unat b div 8"
      using div_mult_self2 [of 8 "unat b" "32 * unat a"] by (simp add: add.commute)
    also have "\<dots> mod 16 = unat b div 8 mod 16" by (rule mod_mult_self4)
    finally show ?thesis
      unfolding m word_eq_iff_unat unat_ucast_byte unat_mask_mod unat_drop_bit f by simp
  qed
qed

lemma GetAudioInfoByAsc_fields:
  assumes "2 \<le> n" and "drop_bit 3 a \<noteq> 31" and "push_bit 1 (a AND 0x07) OR drop_bit 7 b \<noteq> 0x0f"
  shows "GetAudioInfoByAsc (a # b # r) n rate0 chan0 =
    Some (drop_bit 3 a, mpeg4audio_sample_rates ! unat (push_bit 1 (a AND 0x07) OR drop_bit 7 b),
          drop_bit 3 b AND 0x0f)"
proof -
  have u: "(ucast (ucast x :: u16) :: u8) = x" for x :: u8
    by (simp add: word_eq_iff_unat unat_ucast)
  obtain t i c where t: "t = drop_bit 3 a" "i = (push_bit 1 (a AND 0x07) OR drop_bit 7 b)"
    "c = drop_bit 3 b AND 0x0f" by blast
  obtain f where "Read2Bytes (a # b # r) = Some f" "drop_bit 11 (f AND 0xf900) = ucast t"
    "drop_bit 7 (f AND 0x0790) AND 0x0f = ucast i" "drop_bit 3 f AND 0x0f = ucast c"
    using asc_fields [of a b] unfolding t by (simp only: Read2Bytes_Cons)
  moreover have "unat i \<noteq> 15" "t \<noteq> 31"
    using assms(2,3) unfolding t by (simp_all add: word_eq_iff_unat)
  ultimately show ?thesis
    using assms(1) unfolding t [symmetric] GetAudioInfoByAsc_def
    by (simp only: u unat_ucast_byte bind.bind_lunit if_False require_simps)
qed

lemma asc_bytes_fields:
  fixes t i c :: u8
  assumes "t < 31" "i < 15" "c < 16"
  defines "a \<equiv> push_bit 3 t OR drop_bit 1 i" and "b \<equiv> push_bit 7 i OR push_bit 3 c"
  shows "drop_bit 3 a = t" "push_bit 1 (a AND 0x07) OR drop_bit 7 b = i" "drop_bit 3 b AND 0x0f = c"
proof -
  from assms(1-3) have l: "unat t < 31" "unat i < 15" "unat c < 16"
    by (simp_all add: word_less_nat_alt)
  have a: "unat a = unat t * 8 + unat i div 2"
    unfolding a_def using l unat_push_or [of "drop_bit 1 i" 3 t] by (simp add: unat_drop_bit)
  have c: "unat (push_bit 3 c) = unat c * 8"
    using l unat_push_or [of 0 3 c] by simp
  have "unat (push_bit 7 (take_bit 1 i) OR push_bit 3 c) = unat i mod 2 * 128 + unat c * 8"
    using l unat_push_or [of "push_bit 3 c" 7 "take_bit 1 i"]
    by (simp add: c take_bit_eq_mod unat_mod)
  moreover have "push_bit 7 (take_bit 1 i) = push_bit 7 i"
    by (rule bit_word_eqI) (auto simp: bit_simps bit_0)
  ultimately have b: "unat b = unat i mod 2 * 128 + unat c * 8" unfolding b_def by simp
  have m: "(0x0f :: u8) = mask 4" "(0x07 :: u8) = mask 3" by (simp_all add: mask_eq_exp_minus_1)
  show "drop_bit 3 a = t"
    unfolding word_eq_iff_unat unat_drop_bit a using l by simp
  have "unat (push_bit 1 (a AND mask 3) OR drop_bit 7 b) = unat (a AND mask 3) * 2 ^ 1 + unat (drop_bit 7 b)"
    using l by (intro unat_push_or) (simp_all add: unat_drop_bit unat_mask_mod b)
  also have "\<dots> = unat i" using l by (simp add: unat_drop_bit unat_mask_mod a b)
  finally show "push_bit 1 (a AND 0x07) OR drop_bit 7 b = i"
    unfolding m word_eq_iff_unat by (simp only:)
  show "drop_bit 3 b AND 0x0f = c"
    unfolding m word_eq_iff_unat unat_mask_mod unat_drop_bit b using l by simp
qed

section \<open>The ADTS header as the format reads it\<close>

definition adts_profile :: "bytes \<Rightarrow> nat" where
  "adts_profile p = unat (p ! 2) div 64"

definition adts_rate_index :: "bytes \<Rightarrow> nat" where
  "adts_rate_index p = unat (p ! 2) div 4 mod 16"

definition adts_channels :: "bytes \<Rightarrow> nat" where
  "adts_channels p = unat (p ! 2) mod 2 * 4 + unat (p ! 3) div 64"

definition adts_frame_length :: "bytes \<Rightarrow> nat" where
  "adts_frame_length p = unat (p ! 3) mod 4 * 2048 + unat (p ! 4) * 8 + unat (p ! 5) div 32"

lemma unat_of_int_byte: "unat (of_int k :: u8) = nat (k mod 256)"
  by (simp add: unsigned_of_int take_bit_eq_mod)

lemma push_bit_keeps:
  "n + m = LENGTH('a) \<Longrightarrow> push_bit n w = push_bit n (take_bit m w)" for w :: "'a::len word"
  by (rule bit_word_eqI) (auto simp: bit_simps)

text \<open>A shifted field beside a small one, for the widths of the header's bytes.\<close>

lemma unat_field:
  assumes "n + m = 8" and "unat b < 2 ^ n"
  shows "unat (of_int (push_bit n k) OR b :: u8) = nat (k mod 2 ^ m) * 2 ^ n + unat b"
proof -
  have l: "0 \<le> k mod 2 ^ m" "k mod 2 ^ m < 2 ^ m" by simp_all
  have "(2 :: int) ^ m \<le> 2 ^ 8" using assms(1) by (intro power_increasing) auto
  with l(2) have "k mod 2 ^ m < 256" by (simp del: pos_mod_bound)
  with l(1) have "k mod 2 ^ m mod 256 = k mod 2 ^ m" by (intro mod_pos_pos_trivial)
  then have t: "unat (of_int (k mod 2 ^ m) :: u8) = nat (k mod 2 ^ m)"
    by (simp only: unat_of_int_byte)
  have "(of_int (push_bit n k) :: u8) = push_bit n (take_bit m (of_int k))"
    using push_bit_keeps [of n m "of_int k :: u8"] assms(1) by (simp add: push_bit_eq_mult)
  also have "take_bit m (of_int k :: u8) = of_int (k mod 2 ^ m)"
    unfolding take_bit_of_int by (simp only: take_bit_eq_mod)
  finally have e: "(of_int (push_bit n k) :: u8) = push_bit n (of_int (k mod 2 ^ m))" .
  have "nat (k mod 2 ^ m) < 2 ^ m" using l by (simp add: nat_less_iff)
  then have "nat (k mod 2 ^ m) * 2 ^ n < 2 ^ m * 2 ^ n" by (rule mult_strict_right_mono) simp
  also have "\<dots> = 2 ^ LENGTH(8)" using assms(1) by (simp flip: power_add add: add.commute)
  finally show ?thesis
    unfolding e using unat_push_or [OF assms(2), of "of_int (k mod 2 ^ m)"] by (simp add: t)
qed

text \<open>
  In the ADTS header that \<open>MakeAdts\<close> writes, a reader of the format finds the profile,
  the index of the sample rate, the channels and the length of the frame with its header,
  for the values the fields can hold; the length is taken modulo 8192.
\<close>

theorem adts_fields_read_back:
  assumes "1 \<le> object_type" "object_type \<le> 4" "0 \<le> chan" "chan < 8"
  shows "let p = MakeAdts object_type rate chan n v2 in
     length p = ADTS_LEN \<and> p ! 0 = 0xff \<and> adts_profile p = unat object_type - 1 \<and>
     adts_rate_index p = GetSamplerateIndex rate \<and> adts_channels p = nat chan \<and>
     adts_frame_length p = nat ((n + 7) mod 8192)"
proof -
  let ?i = "GetSamplerateIndex rate" and ?p = "MakeAdts object_type rate chan n v2"
  obtain c where c: "chan = int c" "c < 8" using assms(3,4) by (cases chan) auto
  obtain s where s: "(n + 7) mod 8192 = int s" "s < 8192"
    using zero_le_imp_eq_int [of "(n + 7) mod 8192"] by force
  have ot: "1 \<le> unat object_type" "unat object_type \<le> 4"
    using assms(1,2) by (simp_all add: word_le_nat_alt)
  obtain t where t: "unat object_type = t + 1" "t < 4"
    using ot by (intro that [of "unat object_type - 1"]) auto
  then have t': "uint object_type - 1 = int t" by (simp only: uint_nat)
  have i: "?i < 14" by (rule GetSamplerateIndex_less)
  have size: "(n + int ADTS_LEN) AND 0x1fff = int s"
    using take_bit_eq_mask [of 13 "n + 7"] s(1)
    by (simp add: ADTS_LEN_def take_bit_eq_mod mask_eq_exp_minus_1)
  have "unat (of_int (drop_bit 2 (int c)) :: u8) = c div 4"
    using c(2) by (simp add: unat_of_int_byte drop_bit_eq_div nat_div_distrib nat_mod_distrib)
  moreover from this c(2) have lo: "unat (of_int (push_bit 2 (int ?i)) OR of_int (drop_bit 2 (int c)) :: u8) = ?i * 4 + c div 4"
    using i unat_field [of 2 6 "of_int (drop_bit 2 (int c))" "int ?i"]
    by (simp add: nat_mod_distrib)
  ultimately have b2: "unat (?p ! 2) = t * 64 + (?i * 4 + c div 4)"
    using i c(2) t(2) unat_field [of 6 2 "of_int (push_bit 2 (int ?i)) OR of_int (drop_bit 2 (int c))" "int t"]
    by (simp add: MakeAdts_def Let_def c(1) t' or.assoc nat_mod_distrib)
  have d: "drop_bit 14 (push_bit 3 (int s)) = int (s div 2048)"
    by (simp add: drop_bit_eq_div push_bit_eq_mult zdiv_int) 
  have "unat (of_int (int (s div 2048)) :: u8) = s div 2048"
    using s(2) by (simp only: unat_of_int_byte) (simp flip: of_nat_mod)
  then have b3: "unat (?p ! 3) = c mod 4 * 64 + s div 2048"
    using s(2) unat_field [of 6 2 "of_int (int (s div 2048))" "int c"]
    by (simp add: MakeAdts_def Let_def c(1) size d nat_mod_distrib)
  have "drop_bit 8 (push_bit 5 (int s)) = int (s div 8)"
    by (simp add: drop_bit_eq_div push_bit_eq_mult zdiv_int)
  then have b4: "unat (?p ! 4) = s div 8 mod 256"
    by (simp add: MakeAdts_def Let_def size unat_of_nat)
  have b5: "unat (?p ! 5) = s mod 8 * 32 + 31"
    using unat_field [of 5 3 31 "int s"]
    by (simp add: MakeAdts_def Let_def size drop_bit_eq_div push_bit_eq_mult nat_mod_distrib)
  have "length ?p = ADTS_LEN" "?p ! 0 = 0xff" by (simp_all add: MakeAdts_def Let_def ADTS_LEN_def)
  moreover have "adts_profile ?p = unat object_type - 1"
    using i c(2) t(1) by (simp add: adts_profile_def b2)
  moreover have "adts_rate_index ?p = ?i"
  proof -
    have "(t * 64 + (?i * 4 + c div 4)) div 4 = ?i + t * 16"
      using c(2) div_mult_self2 [of 4 "c div 4" "t * 16 + ?i"] by (simp add: algebra_simps)
    then show ?thesis using i by (simp add: adts_rate_index_def b2)
  qed
  moreover have "adts_channels ?p = nat chan"
  proof -
    have "(t * 64 + (?i * 4 + c div 4)) mod 2 = c div 4"
      using c(2) mod_mult_self3 [of "t * 32 + ?i * 2" 2 "c div 4"] by (simp add: algebra_simps)
    moreover have "(c mod 4 * 64 + s div 2048) div 64 = c mod 4" using s(2) by simp
    ultimately show ?thesis unfolding adts_channels_def b2 b3 by (simp add: c(1))
  qed
  moreover have "adts_frame_length ?p = nat ((n + 7) mod 8192)"
  proof -
    have "(c mod 4 * 64 + s div 2048) mod 4 = s div 2048"
      using s(2) mod_mult_self3 [of "c mod 4 * 16" 4 "s div 2048"] by (simp add: algebra_simps)
    moreover have "s div 8 mod 256 * 8 + s mod 8 = s mod 2048"
      using mod_mult2_eq [of s 8 256] by simp
    then have "s div 2048 * 2048 + s div 8 mod 256 * 8 + s mod 8 = s"
      using div_mult_mod_eq [of s 2048] by (simp only: add.assoc)
    ultimately show ?thesis unfolding adts_frame_length_def b3 b4 b5 by (simp add: s(1))
  qed
  ultimately show ?thesis by (simp add: Let_def)
qed

theorem adts_fields_read_back_witness:
  "adts_frame_length (MakeAdts 2 44100 2 300 True) = 307 \<and> adts_channels (MakeAdts 2 44100 2 300 True) = 2"
  using adts_fields_read_back [of 2 2 44100 300 True] by (simp add: Let_def)

text \<open>
  The AudioSpecificConfig in its short form reads back as it was built: object type,
  sample rate and channel number, for the object types below 31 and the indexed rates, and
  whatever follows it.
\<close>

theorem asc_roundtrip:
  assumes "t < 31" "i < 15" "c < 16" "2 \<le> n"
  shows "GetAudioInfoByAsc (asc_bytes t i c @ r) n rate0 chan0 =
    Some (t, mpeg4audio_sample_rates ! unat i, c)"
proof -
  from assms(1,2) have "t \<noteq> 31" "i \<noteq> 15" by auto
  with assms(4) GetAudioInfoByAsc_fields [of n "push_bit 3 t OR drop_bit 1 i" "push_bit 7 i OR push_bit 3 c" r]
  show ?thesis
    unfolding asc_bytes_fields [OF assms(1-3)] by (simp add: asc_bytes_def)
qed

theorem asc_roundtrip_witness:
  "GetAudioInfoByAsc [0x12, 0x10] 2 0 0 = Some (2, 44100, 2)"
proof -
  have "asc_bytes 2 4 2 = [0x12, 0x10]" by (simp add: asc_bytes_def)
  with asc_roundtrip [of 2 4 2 2 "[]" 0 0] show ?thesis by (simp add: mpeg4audio_sample_rates_def)
qed

text \<open>
  The two ASC readers agree on every ASC in the short form: an object type that is
  neither the escape value nor one of the two extended ones, and an indexed rate.
\<close>

theorem asc_readers_agree:
  assumes "2 \<le> n" and "drop_bit 3 a \<notin> {5, 29, 31}" and "push_bit 1 (a AND 0x07) OR drop_bit 7 b \<noteq> 0x0f"
  shows "GetAudioInfo2ByAsc (a # b # r) = Some (GetAudioInfoByAsc (a # b # r) n rate0 chan0)"
proof -
  have a: "drop_bit 3 a AND 0x1f = drop_bit 3 a" for a :: u8
  proof -
    have "unat (drop_bit 3 a AND mask 5) = unat (drop_bit 3 a)"
      using unat_byte_less [of a] unfolding unat_mask_mod unat_drop_bit by (simp del: unat_byte_less)
    then show ?thesis by (simp add: word_eq_iff_unat mask_eq_exp_minus_1)
  qed
  have b: "drop_bit 7 b AND 1 = drop_bit 7 b" for b :: u8
  proof -
    have "unat (drop_bit 7 b AND mask 1) = unat (drop_bit 7 b)"
      using unat_byte_less [of b] unfolding unat_mask_mod unat_drop_bit by (simp del: unat_byte_less)
    then show ?thesis by (simp add: word_eq_iff_unat mask_eq_exp_minus_1 drop_bit_and)
  qed
  from assms show ?thesis
    by (simp add: GetAudioInfo2ByAsc_def GetAudioInfoByAsc_fields a b)
qed

theorem asc_readers_agree_witness:
  "GetAudioInfo2ByAsc [0x12, 0x10] = Some (GetAudioInfoByAsc [0x12, 0x10] 2 0 0)"
  by (rule asc_readers_agree) simp_all

end
