(* ===== verification/FlvDemux.thy ===== *)
theory FlvDemux
  imports FlvMux AudioHeader
begin

text \<open>
  format/flv/flv_demux.hpp and format/flv/flv_demux.cpp: the stage that turns FLV bytes
  into packets.  \<open>HandlePacket\<close> takes at most one tag from the buffer and \<open>InputPacket\<close>
  repeats it while it returns 0.  The buffer is its byte view, so \<open>p\<close> is the buffer itself.
  The text of a double in the metadata is made by \<open>snprintf\<close>, the argument \<open>fmt_double\<close>.
  \<open>None\<close> is undefined or aborted.  The wait for the wall clock before a packet is sunk has no
  effect on the state, and the JSON text of a metadata report is not modelled.
\<close>

definition FLV_RET_NEED_MORE :: int where "FLV_RET_NEED_MORE = 1"
definition FLV_HEADER_LEN :: nat where "FLV_HEADER_LEN = 9"
definition FLV_TAG_PRE_SIZE :: nat where "FLV_TAG_PRE_SIZE = 4"
definition FLV_TAG_HEADER_LEN :: nat where "FLV_TAG_HEADER_LEN = 11"

lemmas flv_lens = FLV_RET_NEED_MORE_def FLV_HEADER_LEN_def FLV_TAG_PRE_SIZE_def FLV_TAG_HEADER_LEN_def

record flv_demuxer = streamer +
  flv_buffer :: bytes
  flv_key :: bytes
  has_video :: bool
  has_audio :: bool
  flv_header_ready :: bool
  tag_header_ready :: bool
  tag_type :: u8
  tag_data_size :: u32
  tag_timestamp :: u32

definition new_FlvDemuxer :: "bytes \<Rightarrow> flv_demuxer" where
  "new_FlvDemuxer name = streamer.extend (new_streamer name [str ''re'' \<mapsto> str ''false''])
     \<lparr> flv_buffer = [], flv_key = [], has_video = False, has_audio = False,
       flv_header_ready = False, tag_header_ready = False, tag_type = 0, tag_data_size = 0,
       tag_timestamp = 0 \<rparr>"

definition flv_demux_AddOption :: "bytes \<Rightarrow> bytes \<Rightarrow> flv_demuxer \<Rightarrow> flv_demuxer option" where
  "flv_demux_AddOption key v s = put_option key v s"

text \<open>With the option \<open>re\<close> the code first sleeps until the packet's time, which is left out.\<close>

definition SinkData :: "media_packet \<Rightarrow> flv_demuxer \<Rightarrow> flv_demuxer" where
  "SinkData pkt s = sink_all pkt s"

text \<open>\<open>buffer_.ConsumeData\<close>, with no more bytes than the buffer has, as each of its calls here makes sure.\<close>

definition consume :: "nat \<Rightarrow> flv_demuxer \<Rightarrow> flv_demuxer" where
  "consume n s = s\<lparr>flv_buffer := drop n (flv_buffer s)\<rparr>"

section \<open>Headers\<close>

text \<open>\<open>Inl\<close> is an early return of \<open>HandlePacket\<close>.\<close>

definition handle_flv_header :: "flv_demuxer \<Rightarrow> (int \<times> flv_demuxer) + flv_demuxer" where
  "handle_flv_header s =
     (let p = flv_buffer s in
      if flv_header_ready s then Inr s
      else if length p < FLV_HEADER_LEN + FLV_TAG_PRE_SIZE then Inl (FLV_RET_NEED_MORE, s)
      else if p ! 0 \<noteq> 0x46 \<or> p ! 1 \<noteq> 0x4c \<or> p ! 2 \<noteq> 0x56 then
        Inl (-1, Report ''error'' ''flv header tag must be FLV'' [] s)
      else let s = s\<lparr>has_video := has_video s \<or> p ! 4 AND 0x01 = 0x01,
                     has_audio := has_audio s \<or> p ! 4 AND 0x04 = 0x04\<rparr> in
        if p ! 5 \<noteq> 0 \<or> p ! 6 \<noteq> 0 \<or> p ! 7 \<noteq> 0 \<or> p ! 8 \<noteq> 9 then
          Inl (-1, Report ''error'' ''flv pretag size error'' [] s)
        else Inr ((consume (FLV_HEADER_LEN + FLV_TAG_PRE_SIZE) s)\<lparr>flv_header_ready := True\<rparr>))"

definition handle_tag_header :: "flv_demuxer \<Rightarrow> (int \<times> flv_demuxer) + flv_demuxer" where
  "handle_tag_header s =
     (let p = flv_buffer s in
      if tag_header_ready s then Inr s
      else if length p < FLV_TAG_HEADER_LEN then Inl (FLV_RET_NEED_MORE, s)
      else Inr (consume FLV_TAG_HEADER_LEN
             (s\<lparr>tag_type := p ! 0,
                tag_data_size := the (Read3Bytes (drop 1 p)),
                tag_timestamp := the (Read3Bytes (drop 4 p)) OR push_bit 24 (ucast (p ! 7)),
                tag_header_ready := True\<rparr>)))"

section \<open>Audio and video\<close>

definition flv_audio_of_byte :: "u8 \<Rightarrow> MEDIA_CODEC_TYPE option" where
  "flv_audio_of_byte c =
     (if c = FLV_AUDIO_AAC_CODEC then Some MEDIA_CODEC_AAC
      else if c = FLV_AUDIO_OPUS_CODEC then Some MEDIA_CODEC_OPUS
      else if c = FLV_AUDIO_MP3_CODEC then Some MEDIA_CODEC_MP3 else None)"

definition flv_video_of_byte :: "u8 \<Rightarrow> MEDIA_CODEC_TYPE option" where
  "flv_video_of_byte c =
     (if c = FLV_VIDEO_H264_CODEC then Some MEDIA_CODEC_H264
      else if c = FLV_VIDEO_H265_CODEC then Some MEDIA_CODEC_H265
      else if c = FLV_VIDEO_VP8_CODEC then Some MEDIA_CODEC_VP8
      else if c = FLV_VIDEO_VP9_CODEC then Some MEDIA_CODEC_VP9 else None)"

text \<open>\<open>DataLen() - 2\<close> on \<open>size_t\<close>.\<close>

definition len_minus_2 :: "nat \<Rightarrow> nat" where
  "len_minus_2 n = unat (of_nat n - 2 :: u64)"

definition set_asc :: "u8 \<times> int \<times> u8 \<Rightarrow> media_packet \<Rightarrow> media_packet" where
  "set_asc info pkt = (case info of (t, r, c) \<Rightarrow>
     pkt\<lparr>aac_asc_type := t, sample_rate := r, channel := c, has_flv_audio_asc := True\<rparr>)"

text \<open>The packet as far as the audio tag's two bytes say; its buffer is still empty here.\<close>

definition handle_audio_tag ::
  "bytes \<Rightarrow> media_packet \<Rightarrow> flv_demuxer \<Rightarrow> ((int \<times> flv_demuxer) + media_packet) option" where
  "handle_audio_tag p pkt s = do {
     p0 \<leftarrow> rd p 0;
     pkt \<leftarrow> Some (pkt\<lparr>av_type := MEDIA_AUDIO_TYPE\<rparr>);
     case flv_audio_of_byte (p0 AND 0xf0) of
       None \<Rightarrow> Some (Inl (-1, Report ''error'' ''does not suport audio codec type:0x%02x'' [int (unat p0)] s))
     | Some codec \<Rightarrow> do {
         pkt \<leftarrow> Some (pkt\<lparr>codec_type := codec\<rparr>);
         p1 \<leftarrow> rd p 1;
         if p1 = 0x00 then
           (if p0 AND 0xf0 = FLV_AUDIO_AAC_CODEC then do {
              info \<leftarrow> GetAudioInfoByAsc (drop 2 p) (len_minus_2 0) (sample_rate pkt) (channel pkt);
              Some (Inr ((set_asc info pkt)\<lparr>is_seq_hdr := True\<rparr>)) }
            else Some (Inr (pkt\<lparr>is_seq_hdr := True\<rparr>)))
         else Some (Inr (pkt\<lparr>is_key_frame := True, is_seq_hdr := False,
                              aac_asc_type := ASC_TYPE_AAC_LC\<rparr>)) } }"

text \<open>The packet and the composition time of a video tag, and a report on an unknown codec.\<close>

definition handle_video_tag ::
  "bytes \<Rightarrow> media_packet \<Rightarrow> flv_demuxer \<Rightarrow> (media_packet \<times> u32 \<times> flv_demuxer) option" where
  "handle_video_tag p pkt s = do {
     p0 \<leftarrow> rd p 0;
     (codec, s) \<leftarrow> Some (case flv_video_of_byte (p0 AND 0x0f) of
         Some codec \<Rightarrow> (codec, s)
       | None \<Rightarrow> (MEDIA_CODEC_UNKOWN,
                  Report ''error'' ''does not suport video codec type:0x%02x'' [int (unat p0)] s));
     pkt \<leftarrow> Some (pkt\<lparr>av_type := MEDIA_VIDEO_TYPE, codec_type := codec\<rparr>);
     pkt \<leftarrow> (if p0 AND 0xf0 = FLV_VIDEO_KEY_FLAG then do {
               p1 \<leftarrow> rd p 1;
               Some (if p1 = 0x00 then pkt\<lparr>is_seq_hdr := True\<rparr>
                     else if p1 = 0x01 then pkt\<lparr>is_seq_hdr := False, is_key_frame := True\<rparr>
                     else pkt\<lparr>is_key_frame := False, is_seq_hdr := False\<rparr>) }
             else Some pkt);
     ts_delta \<leftarrow> Read3Bytes (drop 2 p);
     Some (pkt, ts_delta, s) }"

definition set_times :: "u32 \<Rightarrow> flv_demuxer \<Rightarrow> media_packet \<Rightarrow> media_packet" where
  "set_times ts_delta s pkt =
     pkt\<lparr>dts := int (unat (tag_timestamp s)), pts := int (unat (tag_timestamp s + ts_delta))\<rparr>"

text \<open>
  The two configuration tags that return at once: they are not consumed and
  \<open>tag_header_ready_\<close> stays set.
\<close>

definition handle_h264_seq :: "bytes \<Rightarrow> nat \<Rightarrow> media_packet \<Rightarrow> flv_demuxer \<Rightarrow> flv_demuxer option" where
  "handle_h264_seq nalu len pkt s = do {
     sets \<leftarrow> GetSpsPpsFromExtraData 512 512 nalu len;
     (pps, sps) \<leftarrow> Some (case sets of None \<Rightarrow> ([], []) | Some x \<Rightarrow> x);
     base \<leftarrow> Some ((copy_properties new_Media_Packet pkt)\<lparr>is_seq_hdr := True, is_key_frame := False\<rparr>);
     Some (SinkData (base\<lparr>pkt_data := START_CODE @ pps\<rparr>)
             (SinkData (base\<lparr>pkt_data := START_CODE @ sps\<rparr>) s)) }"

definition handle_h265_seq :: "bytes \<Rightarrow> nat \<Rightarrow> media_packet \<Rightarrow> flv_demuxer \<Rightarrow> flv_demuxer option" where
  "handle_h265_seq nalu len pkt s = do {
     d \<leftarrow> grab len nalu;
     Some (SinkData (pkt\<lparr>fmt_type := MEDIA_FORMAT_FLV, pkt_data := d\<rparr>) s) }"

section \<open>Metadata\<close>

definition metadata_type_of :: "bytes \<Rightarrow> int" where
  "metadata_type_of name =
     (if name = str ''onTextData'' then 1
      else if name = str ''onCaption'' then 2
      else if name = str ''onCaptionInfo'' then 3
      else if name = str ''onMetaData'' then 0
      else METADATA_TYPE_UNKNOWN)"

definition metadata_entry :: "(u64 \<Rightarrow> bytes) \<Rightarrow> amf_iterm \<Rightarrow> bytes option" where
  "metadata_entry fmt_double v =
     (case amf_type v of
        AMF_DATA_TYPE_STRING \<Rightarrow> Some (desc_str v)
      | AMF_DATA_TYPE_NUMBER \<Rightarrow> Some (fmt_double (number v))
      | AMF_DATA_TYPE_BOOL \<Rightarrow> Some (if enable v then str ''true'' else str ''false'')
      | _ \<Rightarrow> None)"

fun put_metadata ::
  "(u64 \<Rightarrow> bytes) \<Rightarrow> (bytes \<times> amf_iterm) list \<Rightarrow> (bytes \<rightharpoonup> bytes) \<Rightarrow> (bytes \<rightharpoonup> bytes)" where
  "put_metadata fmt_double [] m = m"
| "put_metadata fmt_double ((k, v) # es) m =
     put_metadata fmt_double es
       (case metadata_entry fmt_double v of None \<Rightarrow> m | Some d \<Rightarrow> m(k \<mapsto> d))"

text \<open>
  The loop over the items of a metadata tag.  One item is decoded into again and again, so
  the entries of an earlier object are still in \<open>obj\<close> when the next object is decoded.  The
  result is the return code, the packet and whether the report was made.
\<close>

partial_function (option) metadata_loop ::
  "(u64 \<Rightarrow> bytes) \<Rightarrow> bytes \<Rightarrow> int \<Rightarrow> bool \<Rightarrow> (bytes \<times> amf_iterm) list \<Rightarrow> media_packet \<Rightarrow>
   (int \<times> media_packet \<times> bool) option" where
  "metadata_loop fmt_double p len first obj pkt =
     (case amf_decode p len of
        None \<Rightarrow> None
      | Some (ret, item, p', len') \<Rightarrow>
          if ret < 0 then Some (0, pkt, False)
          else if first \<and> amf_type item \<noteq> AMF_DATA_TYPE_STRING then Some (-1, pkt, False)
          else let obj' = (if amf_type item = AMF_DATA_TYPE_OBJECT
                           then fold (\<lambda>(k, v). obj_insert k v) (amf_obj item) obj else obj);
                   pkt' = (if first then pkt\<lparr>metadata_type := Some (metadata_type_of (desc_str item))\<rparr>
                           else if amf_type item = AMF_DATA_TYPE_OBJECT
                           then pkt\<lparr>metadata := put_metadata fmt_double obj' (metadata pkt)\<rparr> else pkt)
               in if len' > 1 then metadata_loop fmt_double p' len' False obj' pkt'
                  else Some (0, pkt', True))"

definition DecodeMetaData ::
  "(u64 \<Rightarrow> bytes) \<Rightarrow> bytes \<Rightarrow> int \<Rightarrow> media_packet \<Rightarrow> flv_demuxer \<Rightarrow>
   (int \<times> media_packet \<times> flv_demuxer) option" where
  "DecodeMetaData fmt_double data data_len pkt s = do {
     (ret, pkt, report) \<leftarrow> metadata_loop fmt_double data data_len True [] pkt;
     Some (ret, pkt, if report then Report ''MetaData'' '''' [] s else s) }"

section \<open>One tag\<close>

definition next_tag :: "flv_demuxer \<Rightarrow> flv_demuxer" where
  "next_tag s = (consume (unat (tag_data_size s) + FLV_TAG_PRE_SIZE) s)\<lparr>tag_header_ready := False\<rparr>"

text \<open>The packet of one NALU of an H.264 or H.265 frame; the inner \<open>None\<close> skips the NALU.\<close>

definition nalu_packet :: "bytes \<Rightarrow> media_packet \<Rightarrow> media_packet option option" where
  "nalu_packet nalu pkt = do {
     pos \<leftarrow> GetNaluTypePos nalu;
     if pos < 3 then Some None
     else do {
       ty \<leftarrow> rd nalu (nat pos);
       q \<leftarrow> Some ((copy_properties new_Media_Packet pkt)\<lparr>pkt_data := nalu\<rparr>);
       q \<leftarrow> Some (if H264_IS_PPS ty \<or> H264_IS_SPS ty then q\<lparr>is_seq_hdr := True, is_key_frame := False\<rparr> else q);
       Some (Some (if H264_IS_KEYFRAME ty then q\<lparr>is_seq_hdr := False, is_key_frame := True\<rparr> else q)) } }"

fun sink_nalus :: "bytes list \<Rightarrow> media_packet \<Rightarrow> flv_demuxer \<Rightarrow> flv_demuxer option" where
  "sink_nalus [] pkt s = Some s"
| "sink_nalus (nalu # nalus) pkt s = (case nalu_packet nalu pkt of
     None \<Rightarrow> None
   | Some None \<Rightarrow> sink_nalus nalus pkt s
   | Some (Some q) \<Rightarrow> sink_nalus nalus pkt (SinkData q s))"

definition sink_frame :: "bytes \<Rightarrow> nat \<Rightarrow> u32 \<Rightarrow> media_packet \<Rightarrow> flv_demuxer \<Rightarrow> flv_demuxer option" where
  "sink_frame p header_len ts_delta pkt s =
     (if int (unat (tag_data_size s)) \<le> int header_len then Some s
      else do {
        pkt \<leftarrow> Some (set_times ts_delta s pkt);
        len \<leftarrow> Some (unat (tag_data_size s) - header_len);
        if codec_type pkt = MEDIA_CODEC_H264 \<or> codec_type pkt = MEDIA_CODEC_H265 then do {
          (_, nalus) \<leftarrow> Avcc2Nalus (drop header_len p) len;
          sink_nalus nalus pkt s }
        else do {
          d \<leftarrow> grab len (drop header_len p);
          pkt \<leftarrow> Some (pkt\<lparr>pkt_data := d\<rparr>);
          p0 \<leftarrow> rd p 0;
          p1 \<leftarrow> rd p 1;
          pkt \<leftarrow> (if p0 AND 0xf0 = FLV_AUDIO_AAC_CODEC \<and> p1 = 0x00 then do {
                    info \<leftarrow> GetAudioInfoByAsc (drop 2 p) (len_minus_2 (length d)) (sample_rate pkt) (channel pkt);
                    Some ((set_asc info pkt)) }
                  else Some pkt);
          Some (SinkData pkt s) } })"

definition handle_tag :: "(u64 \<Rightarrow> bytes) \<Rightarrow> flv_demuxer \<Rightarrow> (int \<times> flv_demuxer) option" where
  "handle_tag fmt_double s =
     (let p = flv_buffer s;
          pkt = new_Media_Packet\<lparr>fmt_type := MEDIA_FORMAT_RAW, pkt_key := flv_key s\<rparr>
      in if tag_type s = FLV_TAG_AUDIO then do {
           r \<leftarrow> handle_audio_tag p pkt s;
           (case r of
              Inl e \<Rightarrow> Some e
            | Inr pkt \<Rightarrow> map_option (\<lambda>s. (0, next_tag s)) (sink_frame p 2 0 pkt s)) }
         else if tag_type s = FLV_TAG_VIDEO then do {
           (pkt, ts_delta, s) \<leftarrow> handle_video_tag p pkt s;
           size \<leftarrow> Some (tag_data_size s - 5);
           if is_seq_hdr pkt \<and> codec_type pkt = MEDIA_CODEC_H264 \<and> size < 512 then
             map_option (\<lambda>s. (0, s)) (handle_h264_seq (drop 5 p) (unat size) (set_times ts_delta s pkt) s)
           else if is_seq_hdr pkt \<and> codec_type pkt = MEDIA_CODEC_H265 then
             map_option (\<lambda>s. (0, s)) (handle_h265_seq (drop 5 p) (unat size) (set_times ts_delta s pkt) s)
           else map_option (\<lambda>s. (0, next_tag s)) (sink_frame p 5 ts_delta pkt s) }
         else if tag_type s = FLV_TAG_TYPE_META then do {
           (ret, pkt, s) \<leftarrow> DecodeMetaData fmt_double p (int (unat (tag_data_size s)))
                              (pkt\<lparr>av_type := MEDIA_METADATA_TYPE\<rparr>) s;
           if ret < 0 then Some (0, Report ''error'' ''decode metadata error'' [] (next_tag s))
           else map_option (\<lambda>s. (0, next_tag s)) (sink_frame p 0 0 pkt s) }
         else Some (0, next_tag s))"

definition HandlePacket :: "(u64 \<Rightarrow> bytes) \<Rightarrow> flv_demuxer \<Rightarrow> (int \<times> flv_demuxer) option" where
  "HandlePacket fmt_double s =
     (case handle_flv_header s of
        Inl r \<Rightarrow> Some r
      | Inr s \<Rightarrow>
          (case handle_tag_header s of
             Inl r \<Rightarrow> Some r
           | Inr s \<Rightarrow>
               if length (flv_buffer s) < unat (tag_data_size s) + FLV_TAG_PRE_SIZE
               then Some (FLV_RET_NEED_MORE, s)
               else handle_tag fmt_double s))"

definition flv_add :: "bytes \<Rightarrow> flv_demuxer \<Rightarrow> flv_demuxer" where
  "flv_add d s = s\<lparr>flv_buffer := flv_buffer s @ d\<rparr>"

text \<open>The two entries: a packet's key is kept from the first packet that has one.\<close>

definition flv_demux_InputPacket ::
  "(u64 \<Rightarrow> bytes) \<Rightarrow> media_packet \<Rightarrow> flv_demuxer \<Rightarrow> (int \<times> flv_demuxer) option" where
  "flv_demux_InputPacket fmt_double pkt s =
     (let s = flv_add (pkt_data pkt) s;
          s = (if flv_key s = [] \<and> pkt_key pkt \<noteq> [] then s\<lparr>flv_key := pkt_key pkt\<rparr> else s)
      in repeat_while_0 (HandlePacket fmt_double) s)"

definition flv_demux_InputData ::
  "(u64 \<Rightarrow> bytes) \<Rightarrow> bytes \<Rightarrow> bytes \<Rightarrow> flv_demuxer \<Rightarrow> (int \<times> flv_demuxer) option" where
  "flv_demux_InputData fmt_double data key s =
     repeat_while_0 (HandlePacket fmt_double) ((flv_add data s)\<lparr>flv_key := key\<rparr>)"

definition flv_demux_SourceData ::
  "(u64 \<Rightarrow> bytes) \<Rightarrow> media_packet option \<Rightarrow> flv_demuxer \<Rightarrow> (int \<times> flv_demuxer) option" where
  "flv_demux_SourceData fmt_double pkt s = (case pkt of
     None \<Rightarrow> Some (0, s)
   | Some pkt \<Rightarrow> flv_demux_InputPacket fmt_double pkt s)"

section \<open>More bytes behind the tag\<close>

lemma flv_add_simps [simp]:
  "flv_buffer (flv_add d s) = flv_buffer s @ d" "flv_key (flv_add d s) = flv_key s"
  "flv_header_ready (flv_add d s) = flv_header_ready s" "tag_header_ready (flv_add d s) = tag_header_ready s"
  "tag_type (flv_add d s) = tag_type s" "tag_data_size (flv_add d s) = tag_data_size s"
  "tag_timestamp (flv_add d s) = tag_timestamp s" "has_video (flv_add d s) = has_video s"
  "has_audio (flv_add d s) = has_audio s" "sinkers (flv_add d s) = sinkers s" "sunk (flv_add d s) = sunk s"
  "Report ty fmt args (flv_add d s) = flv_add d (Report ty fmt args s)"
  "SinkData pkt (flv_add d s) = flv_add d (SinkData pkt s)"
  "set_times ts (flv_add d s) = set_times ts s"
  by (simp_all add: flv_add_def Report_def SinkData_def sink_all_def set_times_def fun_eq_iff)

lemma consume_flv_add [simp]:
  "n \<le> length (flv_buffer s) \<Longrightarrow> consume n (flv_add d s) = flv_add d (consume n s)"
  by (simp add: consume_def flv_add_def)

lemma SinkData_simps [simp]:
  "flv_buffer (SinkData pkt s) = flv_buffer s" "tag_data_size (SinkData pkt s) = tag_data_size s"
  "tag_header_ready (SinkData pkt s) = tag_header_ready s" "flv_header_ready (SinkData pkt s) = flv_header_ready s"
  "tag_type (SinkData pkt s) = tag_type s" "tag_timestamp (SinkData pkt s) = tag_timestamp s"
  "flv_key (SinkData pkt s) = flv_key s" "sinkers (SinkData pkt s) = sinkers s"
  by (simp_all add: SinkData_def sink_all_def)

lemma Report_simps [simp]:
  "flv_buffer (Report ty fmt args s) = flv_buffer s" "tag_data_size (Report ty fmt args s) = tag_data_size s"
  "tag_header_ready (Report ty fmt args s) = tag_header_ready s"
  "flv_header_ready (Report ty fmt args s) = flv_header_ready s"
  "tag_type (Report ty fmt args s) = tag_type s" "tag_timestamp (Report ty fmt args s) = tag_timestamp s"
  by (simp_all add: Report_def)

lemma handle_audio_tag_longer:
  assumes "handle_audio_tag p pkt s = Some r"
  shows "handle_audio_tag (p @ d) pkt (flv_add d s) = Some (case r of
     Inl (e, s') \<Rightarrow> Inl (e, flv_add d s') | Inr q \<Rightarrow> Inr q)"
proof -
  from assms obtain p0 where p0: "rd p 0 = Some p0" by (auto simp: handle_audio_tag_def bind_Some_iff)
  show ?thesis
  proof (cases "flv_audio_of_byte (p0 AND 0xf0)")
    case None
    with assms show ?thesis by (auto simp: handle_audio_tag_def p0 rd_longer [OF p0])
  next
    case (Some codec)
    with assms obtain p1 where p1: "rd p (Suc 0) = Some p1"
      by (auto simp: handle_audio_tag_def p0 bind_Some_iff)
    then have "drop 2 (p @ d) = drop 2 p @ d" by (simp add: rd_Some_iff)
    with assms Some p1 show ?thesis
      by (auto simp: handle_audio_tag_def p0 rd_longer [OF p0] rd_longer [OF p1] bind_Some_iff
            GetAudioInfoByAsc_longer simp del: drop_append split: if_splits)
  qed
qed

lemma handle_video_tag_longer:
  assumes "handle_video_tag p pkt s = Some (q, ts, s')"
  shows "handle_video_tag (p @ d) pkt (flv_add d s) = Some (q, ts, flv_add d s')"
proof -
  from assms obtain p0 where p0: "rd p 0 = Some p0" by (auto simp: handle_video_tag_def bind_Some_iff)
  from assms obtain w where w: "Read3Bytes (drop 2 p) = Some w"
    by (auto simp: handle_video_tag_def bind_Some_iff split: option.splits)
  then have l: "2 \<le> length p" "drop 2 (p @ d) = drop 2 p @ d" using Read_length(4) [OF w] by simp_all
  then obtain p1 where p1: "rd p (Suc 0) = Some p1" by (simp add: rd_def)
  from assms show ?thesis
    by (auto simp: handle_video_tag_def p0 p1 w rd_longer [OF p0] rd_longer [OF p1] l(2)
          Read_append(3) [OF w] simp del: drop_append split: option.splits if_splits)
qed

lemma sink_nalus_add:
  "sink_nalus nalus pkt s = Some s' \<Longrightarrow> sink_nalus nalus pkt (flv_add d s) = Some (flv_add d s')"
  by (induction nalus arbitrary: s) (auto split: option.splits)

lemma sink_nalus_same:
  "sink_nalus nalus pkt s = Some s' \<Longrightarrow> flv_buffer s' = flv_buffer s \<and> tag_data_size s' = tag_data_size s"
  by (induction nalus arbitrary: s) (auto split: option.splits)

lemma metadata_loop_longer:
  assumes "metadata_loop fmt_double p len first obj pkt = Some x"
  shows "metadata_loop fmt_double (p @ d) len first obj pkt = Some x"
proof (rule metadata_loop.raw_induct
    [where P = "\<lambda>fmt p len first obj pkt x. metadata_loop fmt (p @ d) len first obj pkt = Some x", OF _ assms],
    goal_cases)
  case (1 loop fmt p len first obj pkt x)
  note ih = 1(1) and run = 1(2)
  from run obtain ret item p' len' where i: "amf_decode p len = Some (ret, item, p', len')"
    by (auto split: option.splits)
  note j = amf_decode_longer [OF i, of d]
  show ?case
  proof (cases "ret < 0 \<or> first \<and> amf_type item \<noteq> AMF_DATA_TYPE_STRING \<or> \<not> len' > 1")
    case True
    with run show ?thesis by (subst metadata_loop.simps) (auto simp: i j Let_def)
  next
    case False
    with run show ?thesis
      by (subst metadata_loop.simps)
         (simp only: i j option.case prod.case if_True if_False Let_def de_Morgan_disj simp_thms ih)
  qed
qed

lemma DecodeMetaData_longer:
  assumes "DecodeMetaData fmt_double p len pkt s = Some (r, q, s')"
  shows "DecodeMetaData fmt_double (p @ d) len pkt (flv_add d s) = Some (r, q, flv_add d s')"
proof -
  from assms obtain b where "metadata_loop fmt_double p len True [] pkt = Some (r, q, b)"
    by (auto simp: DecodeMetaData_def bind_Some_iff)
  with assms metadata_loop_longer [OF this, of d] show ?thesis by (auto simp: DecodeMetaData_def)
qed

lemma sink_frame_longer:
  assumes "sink_frame p h ts pkt s = Some s'" and "h \<le> length p" "2 \<le> length p"
  shows "sink_frame (p @ d) h ts pkt (flv_add d s) = Some (flv_add d s')"
proof (cases "int (unat (tag_data_size s)) \<le> int h")
  case True
  with assms show ?thesis by (simp add: sink_frame_def)
next
  case small: False
  let ?q = "set_times ts s pkt" and ?n = "unat (tag_data_size s) - h"
  have h: "drop h (p @ d) = drop h p @ d" "drop 2 (p @ d) = drop 2 p @ d" using assms(2,3) by simp_all
  show ?thesis
  proof (cases "codec_type ?q = MEDIA_CODEC_H264 \<or> codec_type ?q = MEDIA_CODEC_H265")
    case True
    with assms(1) small obtain b nalus where n: "Avcc2Nalus (drop h p) ?n = Some (b, nalus)"
      and s: "sink_nalus nalus ?q s = Some s'"
      by (auto simp: sink_frame_def bind_Some_iff)
    from small True show ?thesis
      by (simp add: sink_frame_def h Avcc2Nalus_longer [OF n] sink_nalus_add [OF s] del: drop_append)
  next
    case False
    from assms(3) have "rd p 0 = Some (p ! 0)" "rd p (Suc 0) = Some (p ! Suc 0)" by (auto simp: rd_def)
    then obtain p0 p1 where p: "rd p 0 = Some p0" "rd p (Suc 0) = Some p1" by blast
    from assms(1) small False obtain b where b: "grab ?n (drop h p) = Some b"
      by (auto simp: sink_frame_def bind_Some_iff)
    show ?thesis
    proof (cases "p0 AND 0xf0 = FLV_AUDIO_AAC_CODEC \<and> p1 = 0x00")
      case True
      with assms(1) small False p b obtain i where
        "GetAudioInfoByAsc (drop 2 p) (len_minus_2 (length b)) (sample_rate ?q) (channel ?q) = Some i"
        by (auto simp: sink_frame_def bind_Some_iff)
      from GetAudioInfoByAsc_longer [OF this, of d] this True assms(1) small False p b show ?thesis
        by (simp add: sink_frame_def h rd_longer [OF p(1)] rd_longer [OF p(2)] grab_longer [OF b] del: drop_append)
    next
      case no: False
      with assms(1) small False p b show ?thesis
        by (auto simp: sink_frame_def h rd_longer [OF p(1)] rd_longer [OF p(2)] grab_longer [OF b]
              simp del: drop_append)
    qed
  qed
qed

lemma sink_frame_same:
  assumes "sink_frame p h ts pkt s = Some s'"
  shows "flv_buffer s' = flv_buffer s" "tag_data_size s' = tag_data_size s"
  using assms
  by (auto simp: sink_frame_def bind_Some_iff dest: sink_nalus_same split: if_splits)

lemma next_tag_add:
  "unat (tag_data_size s) + 4 \<le> length (flv_buffer s) \<Longrightarrow> next_tag (flv_add d s) = flv_add d (next_tag s)"
  by (simp add: next_tag_def flv_lens) (simp add: flv_add_def)

lemma frame_step_longer:
  assumes "map_option (\<lambda>s. (0 :: int, next_tag s)) (sink_frame (flv_buffer s0) h ts pkt s) = Some (r, s')"
    and "flv_buffer s = flv_buffer s0" "unat (tag_data_size s) + 4 \<le> length (flv_buffer s0)"
    and "h \<le> length (flv_buffer s0)"
  shows "map_option (\<lambda>s. (0 :: int, next_tag s)) (sink_frame (flv_buffer s0 @ d) h ts pkt (flv_add d s)) = Some (r, flv_add d s')"
proof -
  from assms(1) obtain t where t: "sink_frame (flv_buffer s0) h ts pkt s = Some t" "r = 0" "s' = next_tag t"
    by auto
  from sink_frame_longer [OF t(1) assms(4)] assms(3) have
    "sink_frame (flv_buffer s0 @ d) h ts pkt (flv_add d s) = Some (flv_add d t)" by simp
  with t sink_frame_same [OF t(1)] assms(2,3) show ?thesis by (simp add: next_tag_add)
qed

lemma handle_audio_tag_code: "handle_audio_tag p pkt s = Some (Inl (r, s')) \<Longrightarrow> r = -1"
  by (auto simp: handle_audio_tag_def bind_Some_iff split: option.splits if_splits)

lemma handle_h264_seq_longer:
  assumes "handle_h264_seq (drop 5 p) n pkt s = Some s'" "5 \<le> length p"
  shows "handle_h264_seq (drop 5 (p @ d)) n pkt (flv_add d s) = Some (flv_add d s')"
proof -
  have h: "drop 5 (p @ d) = drop 5 p @ d" using assms(2) by simp
  from assms(1) obtain x where x: "GetSpsPpsFromExtraData 512 512 (drop 5 p) n = Some x"
    by (auto simp: handle_h264_seq_def bind_Some_iff)
  from assms(1) show ?thesis
    by (auto simp: handle_h264_seq_def h x GetSpsPps_longer [OF x] simp del: drop_append
          split: prod.splits)
qed

lemma handle_h265_seq_longer:
  assumes "handle_h265_seq (drop 5 p) n pkt s = Some s'" "5 \<le> length p"
  shows "handle_h265_seq (drop 5 (p @ d)) n pkt (flv_add d s) = Some (flv_add d s')"
proof -
  have h: "drop 5 (p @ d) = drop 5 p @ d" using assms(2) by simp
  from assms(1) obtain x where x: "grab n (drop 5 p) = Some x"
    by (auto simp: handle_h265_seq_def bind_Some_iff)
  from assms(1) show ?thesis
    by (auto simp: handle_h265_seq_def h x grab_longer [OF x] simp del: drop_append)
qed

lemma handle_video_tag_same:
  "handle_video_tag p pkt s = Some (q, ts, s') \<Longrightarrow>
   flv_buffer s' = flv_buffer s \<and> tag_data_size s' = tag_data_size s \<and> 5 \<le> length p"
  by (auto simp: handle_video_tag_def bind_Some_iff dest!: Read_length split: option.splits if_splits)

lemma DecodeMetaData_same:
  "DecodeMetaData fmt_double p len pkt s = Some (r, q, s') \<Longrightarrow>
   flv_buffer s' = flv_buffer s \<and> tag_data_size s' = tag_data_size s"
  by (auto simp: DecodeMetaData_def bind_Some_iff split: if_splits)

lemma handle_tag_longer:
  assumes "handle_tag fmt_double s = Some (r, s')"
    and l: "unat (tag_data_size s) + 4 \<le> length (flv_buffer s)"
  shows "handle_tag fmt_double (flv_add d s) = Some (r, flv_add d s') \<and> (r = 0 \<or> r = -1)"
proof -
  let ?p = "flv_buffer s"
  let ?k = "new_Media_Packet\<lparr>fmt_type := MEDIA_FORMAT_RAW, pkt_key := flv_key s\<rparr>"
  consider (audio) "tag_type s = FLV_TAG_AUDIO" | (video) "tag_type s = FLV_TAG_VIDEO"
    | (meta) "tag_type s = FLV_TAG_TYPE_META"
    | (other) "tag_type s \<notin> {FLV_TAG_AUDIO, FLV_TAG_VIDEO, FLV_TAG_TYPE_META}" by blast
  then show ?thesis
  proof cases
    case audio
    with assms(1) obtain e where e: "handle_audio_tag ?p ?k s = Some e"
      by (auto simp: handle_tag_def Let_def bind_Some_iff)
    show ?thesis
    proof (cases e)
      case (Inl x)
      with audio assms(1) e handle_audio_tag_longer [OF e, of d] handle_audio_tag_code [of ?p ?k s] show ?thesis
        by (cases x) (auto simp: handle_tag_def Let_def)
    next
      case (Inr q)
      with audio assms(1) e have f: "map_option (\<lambda>s. (0, next_tag s)) (sink_frame ?p 2 0 q s) = Some (r, s')"
        by (simp add: handle_tag_def Let_def)
      from frame_step_longer [OF f, of d] l f audio e Inr handle_audio_tag_longer [OF e, of d] show ?thesis
        by (auto simp: handle_tag_def Let_def)
    qed
  next
    case video
    with assms(1) obtain q ts t where v: "handle_video_tag ?p ?k s = Some (q, ts, t)"
      by (auto simp: handle_tag_def Let_def bind_Some_iff FLV_TAG_VIDEO_def FLV_TAG_AUDIO_def)
    note w = handle_video_tag_longer [OF v, of d]
    have vt: "FLV_TAG_VIDEO \<noteq> FLV_TAG_AUDIO" by (simp add: flv_codes)
    from handle_video_tag_same [OF v] have t: "flv_buffer t = ?p" "tag_data_size t = tag_data_size s" "5 \<le> length ?p"
      by simp_all
    from assms(1) show ?thesis
      using handle_h264_seq_longer [OF _ t(3), of "unat (tag_data_size t - 5)" "set_times ts t q" t _ d]
        handle_h265_seq_longer [OF _ t(3), of "unat (tag_data_size t - 5)" "set_times ts t q" t _ d]
        frame_step_longer [of s 5 ts q t r s' d] l t
      by (auto simp: handle_tag_def Let_def video v w vt split: if_splits)
  next
    case meta
    with assms(1) obtain c q t where v: "DecodeMetaData fmt_double ?p (int (unat (tag_data_size s)))
        (?k\<lparr>av_type := MEDIA_METADATA_TYPE\<rparr>) s = Some (c, q, t)"
      by (auto simp: handle_tag_def Let_def bind_Some_iff flv_codes)
    note w = DecodeMetaData_longer [OF v, of d]
    have vt: "FLV_TAG_TYPE_META \<noteq> FLV_TAG_AUDIO" "FLV_TAG_TYPE_META \<noteq> FLV_TAG_VIDEO" by (simp_all add: flv_codes)
    from DecodeMetaData_same [OF v] have t: "flv_buffer t = ?p" "tag_data_size t = tag_data_size s" by simp_all
    from assms(1) show ?thesis
      using frame_step_longer [of s 0 0 q t r s' d] l t next_tag_add [of t d]
      by (auto simp: handle_tag_def Let_def meta v w vt simp del: of_nat_unat split: if_splits)
  next
    case other
    with assms l next_tag_add [of s d] show ?thesis by (auto simp: handle_tag_def Let_def)
  qed
qed

lemma nth_longer: "i < length p \<Longrightarrow> (p @ d) ! i = p ! i"
  by (simp add: nth_append)

lemma handle_flv_header_done: "flv_header_ready s \<Longrightarrow> handle_flv_header s = Inr s"
  by (simp add: handle_flv_header_def)

lemma handle_flv_header_cases:
  obtains (ready) "flv_header_ready s" "handle_flv_header s = Inr s"
  | (short) "\<not> flv_header_ready s" "length (flv_buffer s) < 13" "handle_flv_header s = Inl (FLV_RET_NEED_MORE, s)"
  | (full) "\<not> flv_header_ready s" "13 \<le> length (flv_buffer s)"
proof (cases "flv_header_ready s")
  case True
  then show ?thesis using ready by (simp add: handle_flv_header_def)
next
  case False
  then show ?thesis using short full by (cases "length (flv_buffer s) < 13") (auto simp: handle_flv_header_def flv_lens)
qed

text \<open>On a full header, the outcome is a function of its 13 bytes.\<close>

lemma handle_flv_header_full:
  assumes "\<not> flv_header_ready s" "13 \<le> length (flv_buffer s)"
  shows "handle_flv_header (flv_add d s) = (case handle_flv_header s of
    Inl (r, s') \<Rightarrow> Inl (r, flv_add d s') | Inr s' \<Rightarrow> Inr (flv_add d s'))"
proof -
  have n: "(flv_buffer s @ d) ! i = flv_buffer s ! i" if "i < 13" for i
    using assms(2) that by (intro nth_longer) simp
  have l: "\<not> length (flv_buffer s) < 9 + 4" "\<not> length (flv_buffer s) + length d < 9 + 4" using assms(2) by simp_all
  show ?thesis
    unfolding handle_flv_header_def Let_def flv_lens flv_add_simps length_append
      if_not_P [OF l(1)] if_not_P [OF l(2)] if_not_P [OF assms(1)]
    by (simp add: n flv_add_def consume_def Report_def assms(2))
qed

lemma handle_flv_header_full_code:
  assumes "13 \<le> length (flv_buffer s)" "handle_flv_header s = Inl (r, s')"
  shows "r = -1"
proof -
  have "\<not> length (flv_buffer s) < 9 + 4" using assms(1) by simp
  with assms(2) show ?thesis by (simp add: handle_flv_header_def Let_def flv_lens split: if_splits)
qed

lemma handle_flv_header_on:
  "handle_flv_header s = Inr s' \<Longrightarrow> handle_flv_header (flv_add d s) = Inr (flv_add d s')"
  by (cases s rule: handle_flv_header_cases) (auto simp: handle_flv_header_done handle_flv_header_full)

lemma handle_flv_header_return:
  assumes "handle_flv_header s = Inl (r, s')"
  shows "r = FLV_RET_NEED_MORE \<and> s' = s \<or> r = -1 \<and> handle_flv_header (flv_add d s) = Inl (r, flv_add d s')"
  using assms
  by (cases s rule: handle_flv_header_cases) (simp_all add: handle_flv_header_full handle_flv_header_full_code)

lemma handle_flv_header_ready: "handle_flv_header s = Inr s' \<Longrightarrow> handle_flv_header (flv_add d s') = Inr (flv_add d s')"
  by (auto simp: handle_flv_header_def Let_def split: if_splits)

lemma handle_tag_header_longer:
  assumes "handle_tag_header s = Inr s'"
  shows "handle_tag_header (flv_add d s) = Inr (flv_add d s')"
proof (cases "tag_header_ready s")
  case True
  with assms show ?thesis by (simp add: handle_tag_header_def)
next
  case False
  with assms have l: "11 \<le> length (flv_buffer s)"
    by (auto simp: handle_tag_header_def Let_def flv_lens split: if_splits)
  have r: "\<exists>v. Read3Bytes (drop k (flv_buffer s)) = Some v" if "k \<le> 8" for k
    using l that by (cases "Read3Bytes (drop k (flv_buffer s))") auto
  obtain v w where v: "Read3Bytes (drop 1 (flv_buffer s)) = Some v" "Read3Bytes (drop 4 (flv_buffer s)) = Some w"
    using r [of 1] r [of 4] by auto
  have "\<forall>k \<le> 11. drop k (flv_buffer s @ d) = drop k (flv_buffer s) @ d" using l by simp
  then have dr: "drop (Suc 0) (flv_buffer s @ d) = drop (Suc 0) (flv_buffer s) @ d"
    "drop 4 (flv_buffer s @ d) = drop 4 (flv_buffer s) @ d" "drop 11 (flv_buffer s @ d) = drop 11 (flv_buffer s) @ d"
    by fastforce+
  have n: "(flv_buffer s @ d) ! k = flv_buffer s ! k" if "k \<le> 7" for k
    using l that by (intro nth_longer) simp
  from False assms l v Read_append(3) [OF v(1), of d] Read_append(3) [OF v(2), of d] show ?thesis
    by (auto simp: handle_tag_header_def Let_def flv_lens flv_add_def consume_def dr n simp del: drop_append)
qed

lemma handle_tag_header_more: "handle_tag_header s = Inl (r, s') \<Longrightarrow> r = FLV_RET_NEED_MORE \<and> s' = s"
  by (auto simp: handle_tag_header_def Let_def split: if_splits)

lemma handle_tag_header_ready: "handle_tag_header s = Inr s' \<Longrightarrow> handle_tag_header (flv_add d s') = Inr (flv_add d s')"
  by (auto simp: handle_tag_header_def Let_def consume_def split: if_splits)

lemma headers_ready:
  "handle_flv_header s = Inr s1 \<Longrightarrow> flv_header_ready s1"
  "handle_tag_header s1 = Inr s2 \<Longrightarrow> flv_header_ready s2 = flv_header_ready s1"
  by (auto simp: handle_flv_header_def handle_tag_header_def Let_def consume_def split: if_splits)

interpretation flv: resumable "HandlePacket fmt_double" flv_add FLV_RET_NEED_MORE for fmt_double
proof
  show "FLV_RET_NEED_MORE \<noteq> 0" by (simp add: flv_lens)
  show "flv_add e (flv_add d s) = flv_add (d @ e) s" for e d s by (simp add: flv_add_def)
  fix s r s' d
  show "HandlePacket fmt_double (flv_add d s) = Some (r, flv_add d s')"
    if h: "HandlePacket fmt_double s = Some (r, s')" "r \<noteq> FLV_RET_NEED_MORE"
  proof (cases "handle_flv_header s")
    case (Inl x)
    with h handle_flv_header_return [of s "fst x" "snd x" d] show ?thesis
      by (cases x) (auto simp: HandlePacket_def)
  next
    case (Inr s1)
    note f = handle_flv_header_on [OF Inr, of d]
    show ?thesis
    proof (cases "handle_tag_header s1")
      case (Inl x)
      with h Inr handle_tag_header_more [of s1 "fst x" "snd x"] show ?thesis
        by (cases x) (auto simp: HandlePacket_def)
    next
      case t: (Inr s2)
      from h Inr t have l: "unat (tag_data_size s2) + 4 \<le> length (flv_buffer s2)"
        and ht: "handle_tag fmt_double s2 = Some (r, s')"
        by (auto simp: HandlePacket_def flv_lens split: if_splits)
      from handle_tag_longer [OF ht l, of d] l show ?thesis
        by (simp add: HandlePacket_def f handle_tag_header_longer [OF t, of d] flv_lens)
    qed
  qed
  show "HandlePacket fmt_double (flv_add d s) = HandlePacket fmt_double (flv_add d s')"
    if h: "HandlePacket fmt_double s = Some (FLV_RET_NEED_MORE, s')"
  proof (cases "handle_flv_header s")
    case (Inl x)
    with h handle_flv_header_return [of s "fst x" "snd x" d] show ?thesis
      by (cases x) (auto simp: HandlePacket_def flv_lens)
  next
    case (Inr s1)
    note f = handle_flv_header_on [OF Inr, of d] and g = handle_flv_header_ready [OF Inr, of d]
    show ?thesis
    proof (cases "handle_tag_header s1")
      case (Inl x)
      with h Inr handle_tag_header_more [of s1 "fst x" "snd x"] show ?thesis
        by (cases x) (auto simp: HandlePacket_def f g)
    next
      case t: (Inr s2)
      have "\<not> unat (tag_data_size s2) + 4 \<le> length (flv_buffer s2)"
        using h Inr t handle_tag_longer [of fmt_double s2 FLV_RET_NEED_MORE s'] by (auto simp: HandlePacket_def flv_lens)
      with h Inr t have s': "s' = s2" by (auto simp: HandlePacket_def flv_lens split: if_splits)
      have "flv_header_ready s2" using headers_ready(1) [OF Inr] headers_ready(2) [OF t] by simp
      then have "handle_flv_header (flv_add d s2) = Inr (flv_add d s2)" by (simp add: handle_flv_header_def)
      with handle_tag_header_ready [OF t, of d] show ?thesis
        by (simp add: s' HandlePacket_def f handle_tag_header_longer [OF t, of d])
    qed
  qed
qed

end
