(* ===== verification/FlvPipeline.thy ===== *)
theory FlvPipeline
  imports FlvDemux
begin

text \<open>
  The FLV muxer and the FLV demuxer as stages of one pipeline: what the demuxer returns on
  the bytes that the muxer has produced, that the cut of the byte stream into packets does
  not matter to the demuxer, and the configuration tags at which it never returns.
\<close>

section \<open>The demuxer\<close>

lemma sink_nalus_key: "sink_nalus nalus pkt s = Some s' \<Longrightarrow> flv_key s' = flv_key s \<and> sinkers s' = sinkers s"
  by (induction nalus arbitrary: s) (auto split: option.splits)

lemma sink_frame_key: "sink_frame p h ts pkt s = Some s' \<Longrightarrow> flv_key s' = flv_key s"
  by (auto simp: sink_frame_def bind_Some_iff dest: sink_nalus_key split: if_splits)

lemma Report_key [simp]: "flv_key (Report ty fmt args s) = flv_key s"
  by (simp add: Report_def)

lemma consume_key [simp]: "flv_key (consume n s) = flv_key s"
  by (simp add: consume_def)

lemma next_tag_key [simp]: "flv_key (next_tag s) = flv_key s"
  by (simp add: next_tag_def)

lemma part_key:
  "handle_audio_tag p pkt s = Some (Inl (r, s')) \<Longrightarrow> flv_key s' = flv_key s"
  "handle_video_tag p pkt s = Some (q, ts, s') \<Longrightarrow> flv_key s' = flv_key s"
  "handle_h264_seq p n pkt s = Some s' \<Longrightarrow> flv_key s' = flv_key s"
  "handle_h265_seq p n pkt s = Some s' \<Longrightarrow> flv_key s' = flv_key s"
  "DecodeMetaData fmt_double p l pkt s = Some (r, q, s') \<Longrightarrow> flv_key s' = flv_key s"
  by (auto simp: handle_audio_tag_def handle_video_tag_def handle_h264_seq_def handle_h265_seq_def
        DecodeMetaData_def bind_Some_iff split: option.splits if_splits)

lemma handle_tag_key:
  assumes h: "handle_tag fmt_double s = Some (r, s')"
  shows "flv_key s' = flv_key s"
proof -
  let ?k = "new_Media_Packet\<lparr>fmt_type := MEDIA_FORMAT_RAW, pkt_key := flv_key s\<rparr>"
  consider (audio) "tag_type s = FLV_TAG_AUDIO" | (video) "tag_type s = FLV_TAG_VIDEO"
    | (meta) "tag_type s = FLV_TAG_TYPE_META"
    | (other) "tag_type s \<notin> {FLV_TAG_AUDIO, FLV_TAG_VIDEO, FLV_TAG_TYPE_META}" by blast
  then show ?thesis
  proof cases
    case audio
    with h obtain e where e: "handle_audio_tag (flv_buffer s) ?k s = Some e"
      by (auto simp: handle_tag_def Let_def bind_Some_iff)
    with audio h part_key(1) [of "flv_buffer s" ?k s] show ?thesis
      by (cases e) (auto simp: handle_tag_def Let_def dest: sink_frame_key)
  next
    case video
    then have vt: "tag_type s \<noteq> FLV_TAG_AUDIO" by (simp add: flv_codes)
    from h video vt obtain q ts t where v: "handle_video_tag (flv_buffer s) ?k s = Some (q, ts, t)"
      by (auto simp: handle_tag_def Let_def bind_Some_iff)
    with h video vt part_key(2) [OF v] show ?thesis
      by (auto simp: handle_tag_def Let_def dest: sink_frame_key part_key split: if_splits)
  next
    case meta
    then have vt: "tag_type s \<noteq> FLV_TAG_AUDIO" "tag_type s \<noteq> FLV_TAG_VIDEO" by (simp_all add: flv_codes)
    from h meta vt obtain c q t where v: "DecodeMetaData fmt_double (flv_buffer s) (int (unat (tag_data_size s)))
        (?k\<lparr>av_type := MEDIA_METADATA_TYPE\<rparr>) s = Some (c, q, t)"
      by (auto simp: handle_tag_def Let_def bind_Some_iff)
    with h meta vt part_key(5) [OF v] show ?thesis
      by (auto simp: handle_tag_def Let_def dest: sink_frame_key simp del: of_nat_unat split: if_splits)
  next
    case other
    with h show ?thesis by (auto simp: handle_tag_def Let_def)
  qed
qed

lemma HandlePacket_key: "HandlePacket fmt_double s = Some (r, s') \<Longrightarrow> flv_key s' = flv_key s"
proof -
  assume h: "HandlePacket fmt_double s = Some (r, s')"
  have f: "handle_flv_header s = Inr t \<Longrightarrow> flv_key t = flv_key s" "handle_flv_header s = Inl (r, t) \<Longrightarrow> flv_key t = flv_key s"
    "handle_tag_header s = Inr t \<Longrightarrow> flv_key t = flv_key s" "handle_tag_header s = Inl (r, t) \<Longrightarrow> flv_key t = flv_key s" for s t
    by (auto simp: handle_flv_header_def handle_tag_header_def Let_def split: if_splits)
  show ?thesis
  proof (cases "handle_flv_header s")
    case (Inl x)
    with h f(2) [of s "snd x"] show ?thesis by (cases x) (auto simp: HandlePacket_def)
  next
    case (Inr s1)
    show ?thesis
    proof (cases "handle_tag_header s1")
      case (Inl x)
      with h f(4) [of s1 "snd x"] f(1) [OF Inr] Inr show ?thesis by (cases x) (auto simp: HandlePacket_def)
    next
      case t: (Inr s2)
      with h f(3) [OF t] f(1) [OF Inr] Inr show ?thesis
        by (auto simp: HandlePacket_def dest: handle_tag_key split: if_splits)
    qed
  qed
qed

lemma drive_key: "repeat_while_0 (HandlePacket fmt_double) s = Some (r, s') \<Longrightarrow> flv_key s' = flv_key s"
proof -
  have "flv_key (snd x) = flv_key s" if "repeat_while_0 (HandlePacket fmt_double) s = Some x" for x
    using that by (induction rule: repeat_while_0_induct) (auto dest: HandlePacket_key)
  then show "repeat_while_0 (HandlePacket fmt_double) s = Some (r, s') \<Longrightarrow> flv_key s' = flv_key s" by fastforce
qed

text \<open>
  C16: The cut of an FLV byte stream does not matter to the demuxer: when it has taken a first
  part and asks for more, feeding it the second part gives the same return code and the
  same state (packets sunk, reports, buffer) as feeding it both parts at once.
\<close>
theorem flv_demux_chunking:
  assumes "flv_demux_InputData fmt_double a key s = Some (FLV_RET_NEED_MORE, s')"
  shows "flv_demux_InputData fmt_double (a @ b) key s = flv_demux_InputData fmt_double b key s'"
proof -
  have e: "(flv_add d s)\<lparr>flv_key := key\<rparr> = flv_add d (s\<lparr>flv_key := key\<rparr>)" for d s
    by (simp add: flv_add_def)
  from assms have r: "repeat_while_0 (HandlePacket fmt_double) (flv_add a (s\<lparr>flv_key := key\<rparr>)) = Some (FLV_RET_NEED_MORE, s')"
    by (simp add: flv_demux_InputData_def e)
  have k: "s'\<lparr>flv_key := key\<rparr> = s'" using drive_key [OF r] by simp
  from flv.drive_split [OF r, of b] show ?thesis by (simp add: flv_demux_InputData_def e k)
qed

theorem flv_demux_chunking_witness:
  "flv_demux_InputData (\<lambda>_. []) ([0x46, 0x4c] @ [0x56, 1, 5]) [] (new_FlvDemuxer []) =
   flv_demux_InputData (\<lambda>_. []) [0x56, 1, 5] [] ((new_FlvDemuxer [])\<lparr>flv_buffer := [0x46, 0x4c]\<rparr>)"
proof (rule flv_demux_chunking)
  have "HandlePacket (\<lambda>_. []) ((new_FlvDemuxer [])\<lparr>flv_buffer := [0x46, 0x4c]\<rparr>) =
      Some (FLV_RET_NEED_MORE, (new_FlvDemuxer [])\<lparr>flv_buffer := [0x46, 0x4c]\<rparr>)"
    by (simp add: HandlePacket_def handle_flv_header_def new_FlvDemuxer_def streamer.defs flv_lens)
  moreover have "(flv_add [0x46, 0x4c] (new_FlvDemuxer []))\<lparr>flv_key := []\<rparr> = (new_FlvDemuxer [])\<lparr>flv_buffer := [0x46, 0x4c]\<rparr>"
    by (simp add: flv_add_def new_FlvDemuxer_def streamer.defs)
  ultimately show "flv_demux_InputData (\<lambda>_. []) [0x46, 0x4c] [] (new_FlvDemuxer []) =
      Some (FLV_RET_NEED_MORE, (new_FlvDemuxer [])\<lparr>flv_buffer := [0x46, 0x4c]\<rparr>)"
    by (simp add: flv_demux_InputData_def repeat_while_0_stop flv_lens)
qed

section \<open>A configuration tag stops the demuxer for ever\<close>

text \<open>The demuxer has read the header of a complete H.264 or H.265 configuration tag.\<close>

definition at_seq_tag :: "flv_demuxer \<Rightarrow> bool" where
  "at_seq_tag s \<longleftrightarrow>
     flv_header_ready s \<and> tag_header_ready s \<and> tag_type s = FLV_TAG_VIDEO \<and>
     5 \<le> unat (tag_data_size s) \<and> unat (tag_data_size s) + 4 \<le> length (flv_buffer s) \<and>
     flv_buffer s ! 0 AND 0xf0 = FLV_VIDEO_KEY_FLAG \<and> flv_buffer s ! 1 = FLV_VIDEO_AVC_SEQHDR \<and>
     (flv_buffer s ! 0 AND 0x0f = FLV_VIDEO_H265_CODEC \<or>
      flv_buffer s ! 0 AND 0x0f = FLV_VIDEO_H264_CODEC \<and> unat (tag_data_size s) < 517 \<and>
      GetSpsPpsFromExtraData 512 512 (drop 5 (flv_buffer s)) (unat (tag_data_size s) - 5) \<noteq> None)"

primrec flv_steps :: "(u64 \<Rightarrow> bytes) \<Rightarrow> nat \<Rightarrow> flv_demuxer \<Rightarrow> flv_demuxer option" where
  "flv_steps fmt_double 0 s = Some s"
| "flv_steps fmt_double (Suc n) s = (case HandlePacket fmt_double s of
     Some (ret, s') \<Rightarrow> if ret = 0 then flv_steps fmt_double n s' else None
   | None \<Rightarrow> None)"

lemma at_seq_tag_SinkData: "at_seq_tag (SinkData pkt s) = at_seq_tag s"
  by (simp add: at_seq_tag_def)

lemma length_sunk_SinkData [simp]: "length (sunk (SinkData pkt s)) = length (sunk s) + length (sinkers s)"
  by (simp add: SinkData_def sink_all_def)

lemma HandlePacket_ready:
  "flv_header_ready s \<Longrightarrow> tag_header_ready s \<Longrightarrow> unat (tag_data_size s) + 4 \<le> length (flv_buffer s) \<Longrightarrow>
   HandlePacket fmt_double s = handle_tag fmt_double s"
  by (simp add: HandlePacket_def handle_flv_header_done handle_tag_header_def Let_def flv_lens)

lemma at_seq_tag_step:
  assumes "at_seq_tag s"
  shows "\<exists>t. HandlePacket fmt_double s = Some (0, t) \<and> at_seq_tag t \<and> flv_buffer t = flv_buffer s \<and>
    sinkers t = sinkers s \<and> length (sunk s) + length (sinkers s) \<le> length (sunk t)"
proof -
  let ?p = "flv_buffer s" and ?n = "unat (tag_data_size s) - 5"
  have l: "unat (tag_data_size s) + 4 \<le> length ?p" "5 \<le> unat (tag_data_size s)"
    using assms by (simp_all add: at_seq_tag_def)
  then have p: "rd ?p 0 = Some (?p ! 0)" "rd ?p (Suc 0) = Some (?p ! 1)" "2 + 3 \<le> length ?p" by (auto simp: rd_def)
  then obtain ts where ts: "Read3Bytes (drop 2 ?p) = Some ts" by (cases "Read3Bytes (drop 2 ?p)") auto
  have n: "unat (tag_data_size s - 5) = ?n"
    using l(2) by (simp add: unat_sub word_le_nat_alt)
  have vt: "FLV_TAG_VIDEO \<noteq> FLV_TAG_AUDIO" by (simp add: flv_codes)
  have hp: "HandlePacket fmt_double s = handle_tag fmt_double s"
    using assms by (intro HandlePacket_ready) (simp_all add: at_seq_tag_def)
  from assms consider (h265) "?p ! 0 AND 0x0f = FLV_VIDEO_H265_CODEC"
    | (h264) x where "?p ! 0 AND 0x0f = FLV_VIDEO_H264_CODEC" "?n < 512" "GetSpsPpsFromExtraData 512 512 (drop 5 ?p) ?n = Some x"
    by (fastforce simp: at_seq_tag_def)
  then show ?thesis
  proof cases
    case h265
    from l have "grab ?n (drop 5 ?p) = Some (take ?n (drop 5 ?p))" by (simp add: grab_Some_iff)
    with assms h265 show ?thesis
      unfolding hp
      by (simp add: at_seq_tag_SinkData handle_tag_def Let_def vt handle_video_tag_def p ts n flv_video_of_byte_def
            handle_h265_seq_def at_seq_tag_def flv_codes)
  next
    case h264
    have "\<not> unat (tag_data_size s - 5) \<ge> 512" using h264(2) n by simp
    then have "tag_data_size s - 5 < 512" by (simp add: word_less_nat_alt)
    with assms h264 show ?thesis
      unfolding hp
      by (cases x; cases "the x") (simp_all add: at_seq_tag_SinkData handle_tag_def Let_def vt handle_video_tag_def p ts n
        flv_video_of_byte_def handle_h264_seq_def at_seq_tag_def flv_codes)
  qed
qed

text \<open>
  C17: At an H.264 or H.265 configuration tag the demuxer never returns to its caller.
  \<open>HandlePacket\<close> sinks the parameter sets and returns 0 without consuming the tag, so the
  loop of \<open>InputPacket\<close> repeats it: every number of repetitions is reached, with the buffer
  unchanged and another packet given to every sink each time, and the loop has no result.
\<close>
theorem flv_seq_header_never_returns:
  assumes "at_seq_tag s"
  shows "(\<forall>n. \<exists>t. flv_steps fmt_double n s = Some t \<and> flv_buffer t = flv_buffer s \<and>
            length (sunk s) + n * length (sinkers s) \<le> length (sunk t)) \<and>
    flv_demux_InputData fmt_double [] (flv_key s) s = None"
proof (intro conjI allI)
  fix n
  have "\<exists>t. flv_steps fmt_double n s = Some t \<and> flv_buffer t = flv_buffer s \<and> sinkers t = sinkers s \<and>
      length (sunk s) + n * length (sinkers s) \<le> length (sunk t)"
    using assms
  proof (induction n arbitrary: s)
    case 0
    then show ?case by simp
  next
    case (Suc n)
    from at_seq_tag_step [OF Suc.prems, of fmt_double] obtain t where
      t: "HandlePacket fmt_double s = Some (0, t)" "at_seq_tag t" "flv_buffer t = flv_buffer s" "sinkers t = sinkers s"
        "length (sunk s) + length (sinkers s) \<le> length (sunk t)" by blast
    from Suc.IH [OF t(2)] t show ?case by fastforce
  qed
  then show "\<exists>t. flv_steps fmt_double n s = Some t \<and> flv_buffer t = flv_buffer s \<and>
      length (sunk s) + n * length (sinkers s) \<le> length (sunk t)" by blast
next
  have "\<not> at_seq_tag s" if "repeat_while_0 (HandlePacket fmt_double) s = Some x" for s x
    using that
  proof (induction rule: repeat_while_0_induct)
    case (stop s r s')
    then show ?case using at_seq_tag_step [of s fmt_double] by fastforce
  next
    case (again s s' x)
    then show ?case using at_seq_tag_step [of s fmt_double] by fastforce
  qed
  with assms have "repeat_while_0 (HandlePacket fmt_double) s = None" by (meson not_None_eq)
  then show "flv_demux_InputData fmt_double [] (flv_key s) s = None"
    by (simp add: flv_demux_InputData_def flv_add_def)
qed

theorem flv_seq_header_never_returns_witness:
  "\<exists>s. sinkers s = [([], 0)] \<and> flv_demux_InputData (\<lambda>_. []) [] (flv_key s) s = None"
proof -
  let ?avc = "[1, 0x64, 0, 0x1e, 0xff, 0xe1, 0, 4, 0x67, 0x64, 0, 0x1e, 1, 0, 2, 0x68, 0xee] :: bytes"
  let ?s = "(new_FlvDemuxer [])\<lparr>sinkers := [([], 0)], flv_header_ready := True, tag_header_ready := True,
    tag_type := 9, tag_data_size := 22, flv_buffer := [0x17, 0, 0, 0, 0] @ ?avc @ [0, 0, 0, 33]\<rparr>"
  have "at_seq_tag ?s"
    by (simp add: at_seq_tag_def flv_codes GetSpsPpsFromExtraData_def read_sets_def Read2Bytes_def read_be_def
          grab_def be_val_def require_def)
  from flv_seq_header_never_returns [OF this] show ?thesis by (intro exI [of _ ?s]) simp
qed

section \<open>From the muxer to the demuxer\<close>

text \<open>
  The packets of the round trip: audio that is not an AAC configuration, VP8 and VP9 video, and
  H.264 and H.265 video with one NALU behind its length, which is how \<open>SourceData\<close> passes it on.
\<close>

definition flv_frame :: "media_packet \<Rightarrow> bool" where
  "flv_frame pkt \<longleftrightarrow>
     (let d = pkt_data pkt; c = codec_type pkt in
      d \<noteq> [] \<and> length d \<le> 10000000 \<and>
      (if av_type pkt = MEDIA_AUDIO_TYPE then c = MEDIA_CODEC_OPUS \<or> c = MEDIA_CODEC_AAC \<and> \<not> is_seq_hdr pkt
       else av_type pkt = MEDIA_VIDEO_TYPE \<and>
         (c = MEDIA_CODEC_VP8 \<or> c = MEDIA_CODEC_VP9 \<or>
          (c = MEDIA_CODEC_H264 \<or> c = MEDIA_CODEC_H265) \<and> \<not> is_seq_hdr pkt \<and> 4 < length d \<and>
          take 4 d = Write4Bytes (of_nat (length d - 4)))))"

text \<open>
  The packet that comes out: the times are those of the packet modulo \<open>2 ^ 24\<close>, an H.264 or
  H.265 NALU has its start code again and is classified anew by its first byte.
\<close>

definition demuxed :: "bytes \<Rightarrow> media_packet \<Rightarrow> media_packet" where
  "demuxed key pkt =
     (let ts = dts pkt mod 2 ^ 24; d = pkt_data pkt; c = codec_type pkt;
          base = new_Media_Packet\<lparr>av_type := av_type pkt, codec_type := c, fmt_type := MEDIA_FORMAT_RAW,
                   pkt_key := key, dts := ts\<rparr>
      in if av_type pkt = MEDIA_AUDIO_TYPE then
           base\<lparr>pts := ts, is_seq_hdr := is_seq_hdr pkt, is_key_frame := \<not> is_seq_hdr pkt, pkt_data := d\<rparr>
         else let base = base\<lparr>pts := ts + max 0 (pts pkt - dts pkt) mod 2 ^ 24\<rparr> in
           if c = MEDIA_CODEC_VP8 \<or> c = MEDIA_CODEC_VP9 then
             base\<lparr>is_seq_hdr := is_seq_hdr pkt, is_key_frame := is_key_frame pkt \<and> \<not> is_seq_hdr pkt, pkt_data := d\<rparr>
           else let set = H264_IS_SPS (d ! 4) \<or> H264_IS_PPS (d ! 4) in
             base\<lparr>is_seq_hdr := set, is_key_frame := \<not> set \<and> (is_key_frame pkt \<or> H264_IS_KEYFRAME (d ! 4)),
                  pkt_data := START_CODE @ drop 4 d\<rparr>)"

lemma tag_header_of_mux:
  assumes "\<not> tag_header_ready s" "flv_buffer s = flv_tag_header tag n ts @ r" "n < 2 ^ 24"
  shows "handle_tag_header s = Inr (s\<lparr>tag_type := tag, tag_data_size := of_nat n,
    tag_timestamp := of_int (ts mod 2 ^ 24), tag_header_ready := True, flv_buffer := r\<rparr>)"
proof -
  let ?b = "flv_tag_header tag n ts @ r"
  have n: "unat (of_nat n :: u32) = n" using assms(3) by (intro unat_of_nat_u32) simp
  with assms(3) have n': "unat (of_nat n :: u32) < 2 ^ 24" by simp
  have t: "unat (of_int (ts mod 2 ^ 24) :: u32) < 2 ^ 24"
    by (simp add: unsigned_of_int take_bit_eq_mod nat_less_iff)
  have b: "?b = [tag] @ Write3Bytes (of_nat n) @ Write3Bytes (of_int (ts mod 2 ^ 24)) @ [0, 0, 0, 1] @ r"
    by (simp add: flv_tag_header_eq)
  have "?b ! 0 = tag" "?b ! 7 = 0" "drop 11 ?b = r" by (simp_all add: b nth_append)
  moreover have "drop 1 ?b = Write3Bytes (of_nat n) @ Write3Bytes (of_int (ts mod 2 ^ 24)) @ [0, 0, 0, 1] @ r"
    "drop 4 ?b = Write3Bytes (of_int (ts mod 2 ^ 24)) @ [0, 0, 0, 1] @ r" by (simp_all add: b)
  then have "Read3Bytes (drop 1 ?b) = Some (of_nat n)" "Read3Bytes (drop 4 ?b) = Some (of_int (ts mod 2 ^ 24))"
    by (simp_all only: Read3Bytes_Write3Bytes_small [OF t] Read3Bytes_Write3Bytes_small [OF n'])
  moreover have "\<not> length ?b < 11" by simp
  ultimately show ?thesis
    using assms(1) unfolding handle_tag_header_def Let_def flv_lens assms(2)
    by (simp add: consume_def assms(2))
qed

lemma sink_frame_plain:
  assumes "flv_buffer s = hd0 # hd1 # media @ d @ r" "unat (tag_data_size s) = 2 + length media + length d" "d \<noteq> []"
    and "codec_type pkt \<notin> {MEDIA_CODEC_H264, MEDIA_CODEC_H265}"
    and "\<not> (hd0 AND 0xf0 = FLV_AUDIO_AAC_CODEC \<and> hd1 = 0)"
  shows "sink_frame (flv_buffer s) (2 + length media) ts pkt s = Some (SinkData ((set_times ts s pkt)\<lparr>pkt_data := d\<rparr>) s)"
  using assms by (auto simp: sink_frame_def set_times_def grab_def)

lemma GetNaluTypePos_start: "n \<noteq> [] \<Longrightarrow> GetNaluTypePos (START_CODE @ n) = Some 4"
  by (simp add: GetNaluTypePos_def START_CODE_def)

lemma sink_frame_avcc:
  assumes "flv_buffer s = hd0 # hd1 # media @ Write4Bytes (of_nat (length n)) @ n @ r"
    and "unat (tag_data_size s) = 2 + length media + 4 + length n" "n \<noteq> []" "length n \<le> 10000000"
    and "codec_type pkt \<in> {MEDIA_CODEC_H264, MEDIA_CODEC_H265}"
  shows "sink_frame (flv_buffer s) (2 + length media) ts pkt s =
    (case nalu_packet (START_CODE @ n) (set_times ts s pkt) of
       Some (Some q) \<Rightarrow> Some (SinkData q s) | Some None \<Rightarrow> Some s | None \<Rightarrow> None)"
proof -
  have "Avcc2Nalus (avcc [n] @ r) (length (avcc [n])) = Some (True, [START_CODE @ n])"
    using avcc_loop_avcc [of "[n]" r "[]"] assms(4) by (simp add: Avcc2Nalus_def)
  then have a: "Avcc2Nalus (Write4Bytes (of_nat (length n)) @ n @ r) (4 + length n) = Some (True, [START_CODE @ n])"
    by simp
  from assms(1) have d: "drop (2 + length media) (flv_buffer s) = Write4Bytes (of_nat (length n)) @ n @ r" by simp
  from assms(2,5) show ?thesis
    unfolding sink_frame_def d
    by (auto simp: set_times_def a split: option.splits)
qed

lemma unat_flv_ts_delta: "int (unat (flv_ts_delta pkt) mod 2 ^ 24) = max 0 (pts pkt - dts pkt) mod 2 ^ 24"
proof (cases "pts pkt > dts pkt")
  case True
  have "int (unat (of_int x :: u32)) = x mod 2 ^ 32" for x
    by (simp add: unsigned_of_int take_bit_eq_mod)
  with True have "int (unat (flv_ts_delta pkt)) = (pts pkt - dts pkt) mod 2 ^ 32"
    by (simp only: flv_ts_delta_def if_True)
  moreover have "(x mod 2 ^ 32) mod 2 ^ 24 = x mod 2 ^ 24" for x :: int by (rule mod_mod_cancel) simp
  ultimately show ?thesis using True by (simp add: zmod_int)
next
  case False
  then show ?thesis by (simp add: flv_ts_delta_def)
qed

lemma int_unat_ts: "int (unat (of_int (ts mod 2 ^ 24) :: u32)) = ts mod 2 ^ 24"
proof -
  have "ts mod 2 ^ 24 < 2 ^ 24" by simp
  then have "(ts mod 2 ^ 24) mod 2 ^ 32 = ts mod 2 ^ 24" by (intro mod_pos_pos_trivial) simp_all
  then show ?thesis by (simp add: unsigned_of_int take_bit_eq_mod)
qed

lemma set_times_mux:
  assumes "tag_timestamp s = of_int (dts pkt mod 2 ^ 24)"
  shows "set_times (of_nat (unat (flv_ts_delta pkt) mod 2 ^ 24)) s q =
      q\<lparr>dts := dts pkt mod 2 ^ 24, pts := dts pkt mod 2 ^ 24 + max 0 (pts pkt - dts pkt) mod 2 ^ 24\<rparr>"
    and "set_times 0 s q = q\<lparr>dts := dts pkt mod 2 ^ 24, pts := dts pkt mod 2 ^ 24\<rparr>"
proof -
  let ?a = "tag_timestamp s" and ?d = "unat (flv_ts_delta pkt) mod 2 ^ 24"
  have a: "int (unat ?a) = dts pkt mod 2 ^ 24" unfolding assms by (rule int_unat_ts)
  have "int (unat ?a) < int (2 ^ 24)" unfolding a by simp
  then have la: "unat ?a < 2 ^ 24" by (simp only: of_nat_less_iff)
  have ld: "?d < 2 ^ 24" by simp
  then have d: "unat (of_nat ?d :: u32) = ?d" by (intro unat_of_nat_u32) simp
  have "unat ?a + ?d < 2 ^ 32" using la ld by simp
  then have "unat (?a + of_nat ?d) = unat ?a + ?d" using d by (simp add: unat_plus_small)
  then have p: "int (unat (?a + of_nat ?d)) = dts pkt mod 2 ^ 24 + max 0 (pts pkt - dts pkt) mod 2 ^ 24"
    using a unat_flv_ts_delta [of pkt] by linarith
  show "set_times (of_nat ?d) s q = q\<lparr>dts := dts pkt mod 2 ^ 24, pts := dts pkt mod 2 ^ 24 + max 0 (pts pkt - dts pkt) mod 2 ^ 24\<rparr>"
    unfolding set_times_def a p ..
  show "set_times 0 s q = q\<lparr>dts := dts pkt mod 2 ^ 24, pts := dts pkt mod 2 ^ 24\<rparr>"
    by (simp add: set_times_def a del: of_nat_unat)
qed

text \<open>The video tag that the muxer writes, as the demuxer sees it.\<close>

lemma flv_video_of_codec:
  "flv_video_codec c = Some b \<Longrightarrow> flv_video_of_byte b = Some c"
  by (auto simp: flv_video_codec_def flv_video_of_byte_def flv_codes split: if_splits)

lemma handle_video_tag_mux:
  assumes "flv_video_codec (codec_type pkt) = Some b" "flv_buffer s = mux_video_bytes b pkt @ r"
  shows "handle_video_tag (flv_buffer s) q s =
    Some (q\<lparr>av_type := MEDIA_VIDEO_TYPE, codec_type := codec_type pkt,
            is_seq_hdr := is_seq_hdr pkt \<or> is_seq_hdr q \<and> \<not> is_key_frame pkt,
            is_key_frame := is_key_frame pkt \<and> \<not> is_seq_hdr pkt \<or> is_key_frame q\<rparr>,
          of_nat (unat (flv_ts_delta pkt) mod 2 ^ 24), s)"
proof -
  note b = flv_video_codec_cases [OF assms(1)]
  have ne: "FLV_VIDEO_INTER_FLAG \<noteq> FLV_VIDEO_KEY_FLAG" by (simp add: flv_codes)
  show ?thesis
    using flv_video_of_codec [OF assms(1)] ne
    by (simp add: assms(2) handle_video_tag_def mux_video_bytes_eq flv_video_bytes_eq b wire)
qed

lemma handle_audio_tag_mux:
  assumes "flv_audio_codec (codec_type pkt) = Some c" "codec_type pkt = MEDIA_CODEC_AAC \<longrightarrow> \<not> is_seq_hdr pkt"
    and "\<not> is_seq_hdr q" "\<not> is_key_frame q" "aac_asc_type q = ASC_TYPE_AAC_LC"
  shows "handle_audio_tag ((0x0f OR c) # (if is_seq_hdr pkt then 0x00 else 0x01) # r) q s =
    Some (Inr (q\<lparr>av_type := MEDIA_AUDIO_TYPE, codec_type := codec_type pkt, is_seq_hdr := is_seq_hdr pkt,
                 is_key_frame := \<not> is_seq_hdr pkt\<rparr>))"
proof -
  have c: "(0x0f OR c) AND 0xf0 = c" using flv_audio_codec_cases [OF assms(1)] by (simp add: or.commute)
  have ne: "FLV_AUDIO_OPUS_CODEC \<noteq> FLV_AUDIO_AAC_CODEC" by (simp add: flv_codes)
  from assms(1) consider (aac) "codec_type pkt = MEDIA_CODEC_AAC" "c = FLV_AUDIO_AAC_CODEC"
    | (opus) "codec_type pkt = MEDIA_CODEC_OPUS" "c = FLV_AUDIO_OPUS_CODEC"
    by (auto simp: flv_audio_codec_def split: if_splits)
  then show ?thesis
  proof cases
    case aac
    with assms(2-5) c show ?thesis
      by (cases q) (simp add: handle_audio_tag_def flv_audio_of_byte_def)
  next
    case opus
    with assms(2-5) c ne show ?thesis
      by (cases q) (simp add: handle_audio_tag_def flv_audio_of_byte_def)
  qed
qed

definition flv_reader_ok :: "flv_demuxer \<Rightarrow> bytes \<Rightarrow> bool" where
  "flv_reader_ok s r \<longleftrightarrow> flv_header_ready s \<and> \<not> tag_header_ready s \<and> flv_buffer s = r"

lemma next_tag_ok:
  assumes "flv_header_ready t" "flv_buffer t = d @ Write4Bytes x @ r" "unat (tag_data_size t) = length d"
  shows "flv_reader_ok (next_tag t) r" "flv_key (next_tag t) = flv_key t" "sinkers (next_tag t) = sinkers t"
    "sunk (next_tag t) = sunk t"
  using assms by (simp_all add: flv_reader_ok_def next_tag_def consume_def flv_lens)

lemma sunk_SinkData: "sunk (SinkData q s) = sunk s @ map (\<lambda>(_, i). (i, q)) (sinkers s)"
  by (simp add: SinkData_def sink_all_def)

text \<open>The tag of an audio packet and of a video packet, from the state behind the tag header.\<close>

lemma handle_tag_audio_mux:
  assumes "tag_type s = FLV_TAG_AUDIO" "flv_header_ready s" "tag_timestamp s = of_int (dts pkt mod 2 ^ 24)"
    and "flv_frame pkt" "av_type pkt = MEDIA_AUDIO_TYPE" "flv_audio_codec (codec_type pkt) = Some c"
    and "flv_buffer s = [0x0f OR c, if is_seq_hdr pkt then 0x00 else 0x01] @ pkt_data pkt @ Write4Bytes x @ r"
    and "unat (tag_data_size s) = 2 + length (pkt_data pkt)"
  shows "handle_tag fmt_double s = Some (0, next_tag (SinkData (demuxed (flv_key s) pkt) s))"
proof -
  let ?q = "new_Media_Packet\<lparr>fmt_type := MEDIA_FORMAT_RAW, pkt_key := flv_key s\<rparr>"
  let ?h = "?q\<lparr>av_type := MEDIA_AUDIO_TYPE, codec_type := codec_type pkt, is_seq_hdr := is_seq_hdr pkt,
                 is_key_frame := \<not> is_seq_hdr pkt\<rparr>"
  have f: "pkt_data pkt \<noteq> []" "codec_type pkt = MEDIA_CODEC_AAC \<longrightarrow> \<not> is_seq_hdr pkt"
    using assms(4,5) by (auto simp: flv_frame_def Let_def)
  have new: "\<not> is_seq_hdr ?q" "\<not> is_key_frame ?q" "aac_asc_type ?q = ASC_TYPE_AAC_LC" by (simp_all add: new_Media_Packet_def)
  have a: "handle_audio_tag (flv_buffer s) ?q s = Some (Inr ?h)"
    unfolding assms(7) using handle_audio_tag_mux [OF assms(6) f(2) new] by simp
  have c: "(0x0f OR c) AND 0xf0 = c" using flv_audio_codec_cases [OF assms(6)] by (simp add: or.commute)
  have "\<not> ((0x0f OR c) AND 0xf0 = FLV_AUDIO_AAC_CODEC \<and> (if is_seq_hdr pkt then 0x00 else 0x01) = (0 :: u8))"
    unfolding c using assms(6) f(2) by (auto simp: flv_audio_codec_def flv_codes split: if_splits)
  moreover have "codec_type ?h \<notin> {MEDIA_CODEC_H264, MEDIA_CODEC_H265}"
    using assms(6) by (auto simp: flv_audio_codec_def split: if_splits)
  ultimately have "sink_frame (flv_buffer s) (2 + length []) 0 ?h s =
      Some (SinkData ((set_times 0 s ?h)\<lparr>pkt_data := pkt_data pkt\<rparr>) s)"
    using assms(7,8) f(1) sink_frame_plain [of s "0x0f OR c" "if is_seq_hdr pkt then 0x00 else 0x01" "[]"
      "pkt_data pkt" "Write4Bytes x @ r" ?h 0] by simp
  moreover have "(set_times 0 s ?h)\<lparr>pkt_data := pkt_data pkt\<rparr> = demuxed (flv_key s) pkt"
    unfolding set_times_mux(2) [of s pkt, OF assms(3)] by (simp add: demuxed_def Let_def assms(5) new_Media_Packet_def)
  ultimately show ?thesis by (simp add: handle_tag_def Let_def assms(1) a)
qed

lemma nalu_packet_start:
  assumes "n \<noteq> []"
  shows "nalu_packet (START_CODE @ n) q = Some (Some
    (let set = H264_IS_SPS (n ! 0) \<or> H264_IS_PPS (n ! 0); t = (copy_properties new_Media_Packet q)\<lparr>pkt_data := START_CODE @ n\<rparr> in
     t\<lparr>is_seq_hdr := (set \<or> is_seq_hdr q) \<and> \<not> H264_IS_KEYFRAME (n ! 0),
       is_key_frame := (is_key_frame q \<and> \<not> set) \<or> H264_IS_KEYFRAME (n ! 0)\<rparr>))"
proof -
  have "rd (START_CODE @ n) 4 = Some (n ! 0)" using assms by (simp add: rd_def START_CODE_def)
  then show ?thesis
    by (auto simp: nalu_packet_def GetNaluTypePos_start [OF assms] Let_def nalu_types copy_properties_def)
qed

lemma handle_tag_video_mux:
  assumes "tag_type s = FLV_TAG_VIDEO" "flv_header_ready s" "tag_timestamp s = of_int (dts pkt mod 2 ^ 24)"
    and "flv_frame pkt" "av_type pkt = MEDIA_VIDEO_TYPE" "flv_video_codec (codec_type pkt) = Some b"
    and "flv_buffer s = mux_video_bytes b pkt @ pkt_data pkt @ Write4Bytes x @ r"
    and "unat (tag_data_size s) = 5 + length (pkt_data pkt)"
  shows "handle_tag fmt_double s = Some (0, next_tag (SinkData (demuxed (flv_key s) pkt) s))"
proof -
  let ?q = "new_Media_Packet\<lparr>fmt_type := MEDIA_FORMAT_RAW, pkt_key := flv_key s\<rparr>"
  let ?h = "?q\<lparr>av_type := MEDIA_VIDEO_TYPE, codec_type := codec_type pkt,
            is_seq_hdr := is_seq_hdr pkt \<or> is_seq_hdr ?q \<and> \<not> is_key_frame pkt,
            is_key_frame := is_key_frame pkt \<and> \<not> is_seq_hdr pkt \<or> is_key_frame ?q\<rparr>"
  let ?ts = "of_nat (unat (flv_ts_delta pkt) mod 2 ^ 24) :: u32" and ?d = "pkt_data pkt"
  note v = handle_video_tag_mux [OF assms(6,7), of ?q]
  let ?k = "b OR (if is_key_frame pkt \<or> is_seq_hdr pkt then FLV_VIDEO_KEY_FLAG else FLV_VIDEO_INTER_FLAG)"
  let ?m = "Write3Bytes (flv_ts_delta pkt)"
  have buf: "flv_buffer s = ?k # (if is_seq_hdr pkt then 0x00 else 0x01) # ?m @ ?d @ Write4Bytes x @ r"
    by (simp add: assms(7) mux_video_bytes_eq flv_video_bytes_eq)
  have d: "?d \<noteq> []" "length ?d \<le> 10000000" using assms(4) by (auto simp: flv_frame_def Let_def)
  have vt: "FLV_TAG_VIDEO \<noteq> FLV_TAG_AUDIO" by (simp add: flv_codes)
  have t: "handle_tag fmt_double s = map_option (\<lambda>s. (0, next_tag s)) (sink_frame (flv_buffer s) (2 + length ?m) ?ts ?h s)"
    if "is_seq_hdr pkt \<longrightarrow> codec_type pkt \<noteq> MEDIA_CODEC_H264 \<and> codec_type pkt \<noteq> MEDIA_CODEC_H265"
  proof -
    have n: "\<not> is_seq_hdr ?q" by (simp add: new_Media_Packet_def)
    have "\<not> (is_seq_hdr ?h \<and> codec_type ?h = MEDIA_CODEC_H264 \<and> tag_data_size s - 5 < 512)"
      "\<not> (is_seq_hdr ?h \<and> codec_type ?h = MEDIA_CODEC_H265)" using that n by auto
    then show ?thesis
      unfolding handle_tag_def Let_def v assms(1) if_not_P [OF vt] by (simp add: if_not_P)
  qed
  show ?thesis
  proof (cases "codec_type pkt = MEDIA_CODEC_VP8 \<or> codec_type pkt = MEDIA_CODEC_VP9")
    case True
    have k: "?k AND 0xf0 \<noteq> FLV_AUDIO_AAC_CODEC"
      using flv_video_codec_cases [OF assms(6)] by (auto simp: flv_codes)
    have "sink_frame (flv_buffer s) (2 + length ?m) ?ts ?h s = Some (SinkData ((set_times ?ts s ?h)\<lparr>pkt_data := ?d\<rparr>) s)"
      using True k d(1) assms(8) by (intro sink_frame_plain [OF buf]) auto
    moreover have "(set_times ?ts s ?h)\<lparr>pkt_data := ?d\<rparr> = demuxed (flv_key s) pkt"
      unfolding set_times_mux(1) [of s pkt, OF assms(3)] using True
      by (simp add: demuxed_def Let_def assms(5) new_Media_Packet_def)
    ultimately show ?thesis using True t by auto
  next
    case False
    with assms(4,5) have c: "codec_type pkt = MEDIA_CODEC_H264 \<or> codec_type pkt = MEDIA_CODEC_H265" "\<not> is_seq_hdr pkt"
      and l: "4 < length ?d" and w: "take 4 ?d = Write4Bytes (of_nat (length ?d - 4))"
      by (auto simp: flv_frame_def Let_def)
    let ?n = "drop 4 ?d"
    have dn: "?d = Write4Bytes (of_nat (length ?n)) @ ?n" using w append_take_drop_id [of 4 ?d] by simp
    have n: "?n \<noteq> []" "length ?n \<le> 10000000" "?n ! 0 = ?d ! 4" using l d(2) by simp_all
    have buf': "flv_buffer s = ?k # (if is_seq_hdr pkt then 0x00 else 0x01) # ?m @ Write4Bytes (of_nat (length ?n)) @ ?n @ Write4Bytes x @ r"
      using buf dn by simp
    have "sink_frame (flv_buffer s) (2 + length ?m) ?ts ?h s =
        (case nalu_packet (START_CODE @ ?n) (set_times ?ts s ?h) of
           Some (Some q) \<Rightarrow> Some (SinkData q s) | Some None \<Rightarrow> Some s | None \<Rightarrow> None)"
      using c n l assms(8) by (intro sink_frame_avcc [OF buf']) auto
    moreover have "nalu_packet (START_CODE @ ?n) (set_times ?ts s ?h) = Some (Some (demuxed (flv_key s) pkt))"
      unfolding set_times_mux(1) [of s pkt, OF assms(3)] nalu_packet_start [OF n(1)] n(3) using c
      by (auto simp: demuxed_def Let_def assms(5) new_Media_Packet_def copy_properties_def nalu_types)
    ultimately show ?thesis using c t by auto
  qed
qed

lemma flv_frame_head:
  assumes "flv_frame pkt"
  obtains (audio) c where "av_type pkt = MEDIA_AUDIO_TYPE" "flv_audio_codec (codec_type pkt) = Some c"
      "flv_media_head pkt = Some (FLV_TAG_AUDIO, [0x0f OR c, if is_seq_hdr pkt then 0x00 else 0x01])"
  | (video) c where "av_type pkt = MEDIA_VIDEO_TYPE" "flv_video_codec (codec_type pkt) = Some c"
      "flv_media_head pkt = Some (FLV_TAG_VIDEO, mux_video_bytes c pkt)"
proof (cases "av_type pkt = MEDIA_AUDIO_TYPE")
  case True
  with assms obtain c where "flv_audio_codec (codec_type pkt) = Some c"
    by (auto simp: flv_frame_def Let_def flv_audio_codec_def)
  with True show ?thesis by (intro audio) (simp_all add: flv_media_head_def)
next
  case False
  with assms obtain c where "av_type pkt = MEDIA_VIDEO_TYPE" "flv_video_codec (codec_type pkt) = Some c"
    by (auto simp: flv_frame_def Let_def flv_video_codec_def)
  then show ?thesis by (intro video) (simp_all add: flv_media_head_def)
qed

lemma flv_step:
  assumes "flv_frame pkt" "flv_reader_ok s (flv_tag pkt @ r)"
  shows "\<exists>t. HandlePacket fmt_double s = Some (0, t) \<and> flv_reader_ok t r \<and> flv_key t = flv_key s \<and>
    sinkers t = sinkers s \<and> sunk t = sunk s @ map (\<lambda>(_, i). (i, demuxed (flv_key s) pkt)) (sinkers s)"
proof -
  obtain tag mh where mh: "flv_media_head pkt = Some (tag, mh)" "length mh \<le> 5"
    using assms(1) by (cases rule: flv_frame_head) (auto simp: mux_video_bytes_eq)
  let ?d = "pkt_data pkt" and ?n = "length mh + length (pkt_data pkt)"
  let ?x = "of_nat (11 + ?n) :: u32"
  have d: "length ?d \<le> 10000000" using assms(1) by (auto simp: flv_frame_def Let_def)
  then have n: "unat (of_nat ?n :: u32) = ?n" using mh(2) by (intro unat_of_nat_u32) simp
  have buf: "flv_buffer s = flv_tag_header tag ?n (dts pkt) @ mh @ ?d @ Write4Bytes ?x @ r"
    using assms(2) mh by (simp add: flv_reader_ok_def flv_tag_def add.assoc)
  have ready: "flv_header_ready s" "\<not> tag_header_ready s" using assms(2) by (simp_all add: flv_reader_ok_def)
  let ?t = "s\<lparr>tag_type := tag, tag_data_size := of_nat ?n, tag_timestamp := of_int (dts pkt mod 2 ^ 24),
    tag_header_ready := True, flv_buffer := mh @ ?d @ Write4Bytes ?x @ r\<rparr>"
  have "?n < 2 ^ 24" using d mh(2) by simp
  note h = tag_header_of_mux [OF ready(2) buf this]
  have "\<not> length (flv_buffer ?t) < unat (tag_data_size ?t) + FLV_TAG_PRE_SIZE"
    using n by (simp add: flv_lens del: of_nat_add)
  then have hp: "HandlePacket fmt_double s = handle_tag fmt_double ?t"
    by (simp only: HandlePacket_def handle_flv_header_done [OF ready(1)] h sum.case if_False)
  have "handle_tag fmt_double ?t = Some (0, next_tag (SinkData (demuxed (flv_key s) pkt) ?t))"
    using assms(1)
  proof (cases rule: flv_frame_head)
    case (audio c)
    then show ?thesis
      using mh(1) assms(1) ready n handle_tag_audio_mux [of ?t pkt c ?x r fmt_double] by simp
  next
    case (video c)
    then show ?thesis
      using mh(1) assms(1) ready n handle_tag_video_mux [of ?t pkt c ?x r fmt_double]
      by (simp add: mux_video_bytes_eq)
  qed
  moreover have "flv_buffer (SinkData (demuxed (flv_key s) pkt) ?t) = (mh @ ?d) @ Write4Bytes ?x @ r"
    "unat (tag_data_size (SinkData (demuxed (flv_key s) pkt) ?t)) = length (mh @ ?d)"
    "flv_header_ready (SinkData (demuxed (flv_key s) pkt) ?t)"
    using n ready by simp_all
  ultimately show ?thesis
    unfolding hp using next_tag_ok [of "SinkData (demuxed (flv_key s) pkt) ?t" "mh @ ?d" ?x r]
    by (simp add: sunk_SinkData)
qed

lemma flv_header_step:
  assumes "\<not> flv_header_ready s" "\<not> tag_header_ready s" "flv_buffer s = MuxFlvHeader m @ r"
  shows "\<exists>t. HandlePacket fmt_double s = HandlePacket fmt_double t \<and> flv_reader_ok t r \<and> flv_key t = flv_key s \<and>
    sinkers t = sinkers s \<and> sunk t = sunk s"
proof -
  obtain t where t: "handle_flv_header s = Inr t" "flv_reader_ok t r" "flv_key t = flv_key s" "sinkers t = sinkers s" "sunk t = sunk s"
    using assms by (simp add: handle_flv_header_def Let_def flv_lens MuxFlvHeader_def consume_def flv_reader_ok_def)
  then have "HandlePacket fmt_double s = HandlePacket fmt_double t"
    by (simp add: HandlePacket_def handle_flv_header_done flv_reader_ok_def)
  with t show ?thesis by blast
qed

lemma flv_drain:
  assumes "\<forall>pkt\<in>set pkts. flv_frame pkt" "flv_reader_ok s (concat (map flv_tag pkts))"
  shows "\<exists>t. repeat_while_0 (HandlePacket fmt_double) s = Some (FLV_RET_NEED_MORE, t) \<and> flv_reader_ok t [] \<and>
    sunk t = sunk s @ concat (map (\<lambda>pkt. map (\<lambda>(_, i). (i, demuxed (flv_key s) pkt)) (sinkers s)) pkts)"
  using assms
proof (induction pkts arbitrary: s)
  case Nil
  then have "HandlePacket fmt_double s = Some (FLV_RET_NEED_MORE, s)"
    by (simp add: flv_reader_ok_def HandlePacket_def handle_flv_header_done handle_tag_header_def flv_lens)
  with Nil show ?case by (simp add: repeat_while_0_stop flv_lens)
next
  case (Cons pkt pkts)
  then have "flv_frame pkt" "flv_reader_ok s (flv_tag pkt @ concat (map flv_tag pkts))" by simp_all
  from flv_step [OF this, of fmt_double] obtain t where
    t: "HandlePacket fmt_double s = Some (0, t)" "flv_reader_ok t (concat (map flv_tag pkts))" "flv_key t = flv_key s"
      "sinkers t = sinkers s" "sunk t = sunk s @ map (\<lambda>(_, i). (i, demuxed (flv_key s) pkt)) (sinkers s)"
    by blast
  from Cons.IH [OF _ t(2)] Cons.prems(1) t show ?case by (simp add: repeat_while_0_step)
qed

section \<open>A stream\<close>

definition flv_mux_all :: "media_packet list \<Rightarrow> flv_muxer \<Rightarrow> flv_muxer" where
  "flv_mux_all pkts m = fold (\<lambda>pkt m. snd (flv_InputPacket pkt m)) pkts m"

lemma flv_frame_media_head: "flv_frame pkt \<Longrightarrow> flv_media_head pkt \<noteq> None"
  by (erule flv_frame_head) simp_all

lemma flv_mux_all_bytes:
  assumes "\<forall>pkt\<in>set pkts. flv_frame pkt" "sinkers m = [(k, i)]"
  shows "concat (map pkt_data (received i (flv_mux_all pkts m))) =
    concat (map pkt_data (received i m)) @
    (if pkts = [] \<or> header_ready m then [] else MuxFlvHeader m) @ concat (map flv_tag pkts)"
  using assms
proof (induction pkts arbitrary: m)
  case Nil
  then show ?case by (simp add: flv_mux_all_def)
next
  case (Cons pkt pkts)
  from Cons.prems(1) have "flv_frame pkt" by simp
  from flv_InputPacket_ok [OF flv_frame_media_head [OF this], of m] obtain q where
    q: "flv_InputPacket pkt m = (0, sink_all q (m\<lparr>header_ready := True\<rparr>))"
      "pkt_data q = (if header_ready m then [] else MuxFlvHeader m) @ flv_tag pkt" by blast
  let ?m = "sink_all q (m\<lparr>header_ready := True\<rparr>)"
  have m: "sinkers ?m = [(k, i)]" "header_ready ?m" "received i ?m = received i m @ [q]"
    using Cons.prems(2) received_sink_all [of "m\<lparr>header_ready := True\<rparr>" i q]
    by (simp_all add: sink_all_def received_def)
  have "flv_mux_all (pkt # pkts) m = flv_mux_all pkts ?m" by (simp add: flv_mux_all_def q)
  with Cons.IH [OF _ m(1)] Cons.prems(1) m q show ?case by simp
qed

text \<open>
  C15: FLV round trip: the bytes that a new FLV muxer has sent for a non-empty list of audio and video
  packets, fed to a new demuxer in one buffer, make it send one packet for each, in the same
  order, and then wait for more bytes.  The packets have 1 to 10000000 bytes of data; they are Opus, AAC but no sequence header, VP8, VP9, or
  H.264 or H.265 with one NALU, not a sequence header, behind its length in four bytes.  What comes out has the media type and
  codec of the packet; its data, with a start code in the place of the length in front of a NALU; the decoding time modulo \<open>2 ^ 24\<close>
  ms, the part that the muxer writes, and as presentation time the decoding time for audio, and for video the decoding time
  plus the difference of the two modulo \<open>2 ^ 24\<close>, or plus 0 if it is negative.  The sequence header flag is that of the packet
  for audio, VP8 and VP9; the key flag is set for audio that is no sequence header, and for VP8 and VP9 if the packet is
  a key frame and no sequence header.  A NALU is classified anew by its first byte: a parameter set
  is a sequence header, and another NALU is a key frame if the packet or its type says so.
\<close>
theorem flv_stream_roundtrip:
  assumes frames: "\<forall>pkt\<in>set pkts. flv_frame pkt" and "pkts \<noteq> []"
    and m: "snd (AddSinker (Some (k, i)) (new_FlvMuxer name)) = m"
    and d: "snd (AddSinker (Some (k', j)) (new_FlvDemuxer name')) = d"
  shows "\<exists>d'. flv_demux_InputData fmt_double (concat (map pkt_data (received i (flv_mux_all pkts m)))) key d
      = Some (FLV_RET_NEED_MORE, d') \<and> received j d' = map (demuxed key) pkts"
proof -
  have mm: "sinkers m = [(k, i)]" "\<not> header_ready m" "received i m = []"
    unfolding m [symmetric]
    by (simp_all add: AddSinker_def Let_def new_FlvMuxer_def new_streamer_def streamer.defs received_def)
  have dd: "sinkers d = [(k', j)]" "\<not> flv_header_ready d" "\<not> tag_header_ready d" "flv_buffer d = []" "sunk d = []"
    unfolding d [symmetric]
    by (simp_all add: AddSinker_def Let_def new_FlvDemuxer_def new_streamer_def streamer.defs)
  let ?b = "MuxFlvHeader m @ concat (map flv_tag pkts)"
  have b: "concat (map pkt_data (received i (flv_mux_all pkts m))) = ?b"
    using flv_mux_all_bytes [OF frames mm(1)] mm assms(2) by simp
  let ?d = "(flv_add ?b d)\<lparr>flv_key := key\<rparr>"
  have "\<not> flv_header_ready ?d" "\<not> tag_header_ready ?d" "flv_buffer ?d = ?b" using dd by simp_all
  from flv_header_step [OF this] obtain t where t: "HandlePacket fmt_double ?d = HandlePacket fmt_double t"
    "flv_reader_ok t (concat (map flv_tag pkts))" "flv_key t = key" "sinkers t = [(k', j)]" "sunk t = []"
    using dd by (auto simp: flv_add_def)
  from flv_drain [OF frames t(2), of fmt_double] obtain d' where
    d': "repeat_while_0 (HandlePacket fmt_double) t = Some (FLV_RET_NEED_MORE, d')"
      "sunk d' = concat (map (\<lambda>pkt. [(j, demuxed key pkt)]) pkts)"
    using t by auto
  have "received j d' = map (demuxed key) pkts"
    unfolding received_def d'(2) by (induction pkts) simp_all
  moreover have "repeat_while_0 (HandlePacket fmt_double) ?d = Some (FLV_RET_NEED_MORE, d')"
    using d'(1) t(1) by (subst repeat_while_0.simps, subst (asm) repeat_while_0.simps) simp
  ultimately show ?thesis unfolding flv_demux_InputData_def b by blast
qed

theorem flv_stream_roundtrip_witness:
  "\<exists>d'. flv_demux_InputData (\<lambda>_. [])
      (concat (map pkt_data (received 0 (flv_mux_all
        [new_Media_Packet\<lparr>av_type := MEDIA_AUDIO_TYPE, codec_type := MEDIA_CODEC_OPUS, dts := 16777220, pkt_data := [7, 8]\<rparr>,
         new_Media_Packet\<lparr>av_type := MEDIA_VIDEO_TYPE, codec_type := MEDIA_CODEC_H264, dts := 40, pts := 80,
                          pkt_data := [0, 0, 0, 2, 0x65, 9]\<rparr>]
        (snd (AddSinker (Some ([], 0)) (new_FlvMuxer [])))))))
      [] (snd (AddSinker (Some ([], 1)) (new_FlvDemuxer []))) = Some (FLV_RET_NEED_MORE, d') \<and>
    map dts (received 1 d') = [4, 40] \<and> map pts (received 1 d') = [4, 80] \<and>
    map pkt_data (received 1 d') = [[7, 8], [0, 0, 0, 1, 0x65, 9]] \<and>
    map is_key_frame (received 1 d') = [True, True]"
proof -
  let ?a = "new_Media_Packet\<lparr>av_type := MEDIA_AUDIO_TYPE, codec_type := MEDIA_CODEC_OPUS, dts := 16777220, pkt_data := [7, 8]\<rparr>"
  let ?v = "new_Media_Packet\<lparr>av_type := MEDIA_VIDEO_TYPE, codec_type := MEDIA_CODEC_H264, dts := 40, pts := 80,
                          pkt_data := [0, 0, 0, 2, 0x65, 9]\<rparr>"
  have "\<forall>pkt\<in>set [?a, ?v]. flv_frame pkt"
    by (simp add: flv_frame_def Let_def new_Media_Packet_def Write4Bytes_def eval_bits)
  from flv_stream_roundtrip [OF this _ refl refl, where k = "[]" and i = 0 and name = "[]" and k' = "[]" and j = 1
      and name' = "[]" and fmt_double = "\<lambda>_. []" and key = "[]"]
  show ?thesis
    by (auto simp: demuxed_def Let_def new_Media_Packet_def START_CODE_def nalu_types)
qed

section \<open>The AAC configuration\<close>

text \<open>
  C18: The FLV tag that the muxer writes for an AAC configuration of the usual two bytes (or
  of three) aborts the demuxer: the length it passes to \<open>GetAudioInfoByAsc\<close> is two less than
  the length of the configuration, and the function asserts that it is at least two.
\<close>
theorem flv_aac_config_aborts:
  assumes "flv_reader_ok s (flv_tag pkt @ r)"
    and "av_type pkt = MEDIA_AUDIO_TYPE" "codec_type pkt = MEDIA_CODEC_AAC" "is_seq_hdr pkt"
    and "length (pkt_data pkt) = 2 \<or> length (pkt_data pkt) = 3"
  shows "HandlePacket fmt_double s = None"
proof -
  let ?d = "pkt_data pkt" and ?n = "2 + length (pkt_data pkt)"
  have mh: "flv_media_head pkt = Some (FLV_TAG_AUDIO, [0xaf, 0])"
    using assms by (simp add: flv_media_head_def flv_audio_codec_def flv_codes)
  obtain x where buf: "flv_buffer s = flv_tag_header FLV_TAG_AUDIO ?n (dts pkt) @ [0xaf, 0] @ ?d @ Write4Bytes x @ r"
    using assms(1) mh by (simp add: flv_reader_ok_def flv_tag_def)
  have ready: "flv_header_ready s" "\<not> tag_header_ready s" using assms(1) by (simp_all add: flv_reader_ok_def)
  have n: "unat (of_nat ?n :: u32) = ?n" "?n < 2 ^ 24" "\<not> of_nat ?n = (0 :: u32)" using assms(5) by auto
  let ?t = "s\<lparr>tag_type := FLV_TAG_AUDIO, tag_data_size := of_nat ?n, tag_timestamp := of_int (dts pkt mod 2 ^ 24),
    tag_header_ready := True, flv_buffer := [0xaf, 0] @ ?d @ Write4Bytes x @ r\<rparr>"
  note h = tag_header_of_mux [OF ready(2) buf n(2)]
  have "\<not> length (flv_buffer ?t) < unat (tag_data_size ?t) + FLV_TAG_PRE_SIZE"
    using n by (simp add: flv_lens del: of_nat_add)
  then have hp: "HandlePacket fmt_double s = handle_tag fmt_double ?t"
    by (simp only: HandlePacket_def handle_flv_header_done [OF ready(1)] h sum.case if_False)
  have z: "len_minus_2 (length ?d) < 2" using assms(5) by (auto simp: len_minus_2_def)
  then have g: "GetAudioInfoByAsc p (len_minus_2 (length ?d)) a c = None" for p a c
    by (simp add: GetAudioInfoByAsc_def require_def)
  have c: "flv_audio_of_byte 160 = Some MEDIA_CODEC_AAC" "FLV_AUDIO_AAC_CODEC = 160"
    by (simp_all add: flv_audio_of_byte_def flv_codes)
  have sf: "sink_frame (flv_buffer ?t) 2 0 q ?t = None" if "codec_type q = MEDIA_CODEC_AAC" for q
    using n(1) assms(5) that c(2) by (auto simp: sink_frame_def set_times_def grab_def g simp del: of_nat_add)
  have "handle_tag fmt_double ?t = None"
  proof (cases "handle_audio_tag (flv_buffer ?t) (new_Media_Packet\<lparr>fmt_type := MEDIA_FORMAT_RAW, pkt_key := flv_key ?t\<rparr>) ?t")
    case None
    then show ?thesis by (simp add: handle_tag_def Let_def)
  next
    case (Some e)
    then obtain q where "e = Inr q" "codec_type q = MEDIA_CODEC_AAC"
      by (auto simp: handle_audio_tag_def c bind_Some_iff set_asc_def split: prod.splits)
    with Some sf show ?thesis by (simp add: handle_tag_def Let_def)
  qed
  then show ?thesis by (simp only: hp)
qed

theorem flv_aac_config_aborts_witness:
  "\<exists>s. flv_buffer s = [8, 0, 0, 4, 0, 0, 0, 0, 0, 0, 1, 0xaf, 0, 0x12, 0x10, 0, 0, 0, 15] \<and>
       HandlePacket (\<lambda>_. []) s = None"
proof -
  let ?a = "new_Media_Packet\<lparr>av_type := MEDIA_AUDIO_TYPE, codec_type := MEDIA_CODEC_AAC, is_seq_hdr := True,
    dts := 0, pkt_data := [0x12, 0x10]\<rparr>"
  let ?s = "(new_FlvDemuxer [])\<lparr>flv_header_ready := True, flv_buffer := flv_tag ?a @ []\<rparr>"
  have "flv_reader_ok ?s (flv_tag ?a @ [])" by (simp add: flv_reader_ok_def new_FlvDemuxer_def streamer.defs)
  from flv_aac_config_aborts [OF this] have "HandlePacket (\<lambda>_. []) ?s = None" by simp
  moreover have "flv_buffer ?s = [8, 0, 0, 4, 0, 0, 0, 0, 0, 0, 1, 0xaf, 0, 0x12, 0x10, 0, 0, 0, 15]"
    by (simp add: flv_tag_def flv_media_head_def flv_audio_codec_def flv_codes flv_tag_header_eq Write3Bytes_def
          Write4Bytes_def eval_bits new_Media_Packet_def)
  ultimately show ?thesis by blast
qed

end
