(* ===== verification/TsCrc.thy ===== *)
theory TsCrc
  imports ByteStream
begin

text \<open>
  format/mpegts/mpegts_mux.cpp: the table and the function that compute the checksum of the
  tables of a transport stream.  The reference is the checksum of the MPEG-2 systems
  standard: the remainder modulo the polynomial 0x04c11db7, most significant bit first, one
  bit at a time.  The table holds the words of that checksum with their bytes reversed.
\<close>

definition crc32table :: "u32 list" where
  "crc32table = [
     0x00000000, 0xb71dc104, 0x6e3b8209, 0xd926430d, 0xdc760413, 0x6b6bc517,
     0xb24d861a, 0x0550471e, 0xb8ed0826, 0x0ff0c922, 0xd6d68a2f, 0x61cb4b2b,
     0x649b0c35, 0xd386cd31, 0x0aa08e3c, 0xbdbd4f38, 0x70db114c, 0xc7c6d048,
     0x1ee09345, 0xa9fd5241, 0xacad155f, 0x1bb0d45b, 0xc2969756, 0x758b5652,
     0xc836196a, 0x7f2bd86e, 0xa60d9b63, 0x11105a67, 0x14401d79, 0xa35ddc7d,
     0x7a7b9f70, 0xcd665e74, 0xe0b62398, 0x57abe29c, 0x8e8da191, 0x39906095,
     0x3cc0278b, 0x8bdde68f, 0x52fba582, 0xe5e66486, 0x585b2bbe, 0xef46eaba,
     0x3660a9b7, 0x817d68b3, 0x842d2fad, 0x3330eea9, 0xea16ada4, 0x5d0b6ca0,
     0x906d32d4, 0x2770f3d0, 0xfe56b0dd, 0x494b71d9, 0x4c1b36c7, 0xfb06f7c3,
     0x2220b4ce, 0x953d75ca, 0x28803af2, 0x9f9dfbf6, 0x46bbb8fb, 0xf1a679ff,
     0xf4f63ee1, 0x43ebffe5, 0x9acdbce8, 0x2dd07dec, 0x77708634, 0xc06d4730,
     0x194b043d, 0xae56c539, 0xab068227, 0x1c1b4323, 0xc53d002e, 0x7220c12a,
     0xcf9d8e12, 0x78804f16, 0xa1a60c1b, 0x16bbcd1f, 0x13eb8a01, 0xa4f64b05,
     0x7dd00808, 0xcacdc90c, 0x07ab9778, 0xb0b6567c, 0x69901571, 0xde8dd475,
     0xdbdd936b, 0x6cc0526f, 0xb5e61162, 0x02fbd066, 0xbf469f5e, 0x085b5e5a,
     0xd17d1d57, 0x6660dc53, 0x63309b4d, 0xd42d5a49, 0x0d0b1944, 0xba16d840,
     0x97c6a5ac, 0x20db64a8, 0xf9fd27a5, 0x4ee0e6a1, 0x4bb0a1bf, 0xfcad60bb,
     0x258b23b6, 0x9296e2b2, 0x2f2bad8a, 0x98366c8e, 0x41102f83, 0xf60dee87,
     0xf35da999, 0x4440689d, 0x9d662b90, 0x2a7bea94, 0xe71db4e0, 0x500075e4,
     0x892636e9, 0x3e3bf7ed, 0x3b6bb0f3, 0x8c7671f7, 0x555032fa, 0xe24df3fe,
     0x5ff0bcc6, 0xe8ed7dc2, 0x31cb3ecf, 0x86d6ffcb, 0x8386b8d5, 0x349b79d1,
     0xedbd3adc, 0x5aa0fbd8, 0xeee00c69, 0x59fdcd6d, 0x80db8e60, 0x37c64f64,
     0x3296087a, 0x858bc97e, 0x5cad8a73, 0xebb04b77, 0x560d044f, 0xe110c54b,
     0x38368646, 0x8f2b4742, 0x8a7b005c, 0x3d66c158, 0xe4408255, 0x535d4351,
     0x9e3b1d25, 0x2926dc21, 0xf0009f2c, 0x471d5e28, 0x424d1936, 0xf550d832,
     0x2c769b3f, 0x9b6b5a3b, 0x26d61503, 0x91cbd407, 0x48ed970a, 0xfff0560e,
     0xfaa01110, 0x4dbdd014, 0x949b9319, 0x2386521d, 0x0e562ff1, 0xb94beef5,
     0x606dadf8, 0xd7706cfc, 0xd2202be2, 0x653deae6, 0xbc1ba9eb, 0x0b0668ef,
     0xb6bb27d7, 0x01a6e6d3, 0xd880a5de, 0x6f9d64da, 0x6acd23c4, 0xddd0e2c0,
     0x04f6a1cd, 0xb3eb60c9, 0x7e8d3ebd, 0xc990ffb9, 0x10b6bcb4, 0xa7ab7db0,
     0xa2fb3aae, 0x15e6fbaa, 0xccc0b8a7, 0x7bdd79a3, 0xc660369b, 0x717df79f,
     0xa85bb492, 0x1f467596, 0x1a163288, 0xad0bf38c, 0x742db081, 0xc3307185,
     0x99908a5d, 0x2e8d4b59, 0xf7ab0854, 0x40b6c950, 0x45e68e4e, 0xf2fb4f4a,
     0x2bdd0c47, 0x9cc0cd43, 0x217d827b, 0x9660437f, 0x4f460072, 0xf85bc176,
     0xfd0b8668, 0x4a16476c, 0x93300461, 0x242dc565, 0xe94b9b11, 0x5e565a15,
     0x87701918, 0x306dd81c, 0x353d9f02, 0x82205e06, 0x5b061d0b, 0xec1bdc0f,
     0x51a69337, 0xe6bb5233, 0x3f9d113e, 0x8880d03a, 0x8dd09724, 0x3acd5620,
     0xe3eb152d, 0x54f6d429, 0x7926a9c5, 0xce3b68c1, 0x171d2bcc, 0xa000eac8,
     0xa550add6, 0x124d6cd2, 0xcb6b2fdf, 0x7c76eedb, 0xc1cba1e3, 0x76d660e7,
     0xaff023ea, 0x18ede2ee, 0x1dbda5f0, 0xaaa064f4, 0x738627f9, 0xc49be6fd,
     0x09fdb889, 0xbee0798d, 0x67c63a80, 0xd0dbfb84, 0xd58bbc9a, 0x62967d9e,
     0xbbb03e93, 0x0cadff97, 0xb110b0af, 0x060d71ab, 0xdf2b32a6, 0x6836f3a2,
     0x6d66b4bc, 0xda7b75b8, 0x035d36b5, 0xb440f7b1]"

fun mpeg_crc32 :: "u32 \<Rightarrow> bytes \<Rightarrow> u32" where
  "mpeg_crc32 crc [] = crc"
| "mpeg_crc32 crc (b # bs) =
     mpeg_crc32 (crc32table ! unat ((crc XOR ucast b) AND 0xff) XOR drop_bit 8 crc) bs"

section \<open>The reference\<close>

definition crc_bit :: "u32 \<Rightarrow> u32" where
  "crc_bit c = (if bit c 31 then push_bit 1 c XOR 0x04c11db7 else push_bit 1 c)"

definition crc_byte :: "u32 \<Rightarrow> u8 \<Rightarrow> u32" where
  "crc_byte c b = (crc_bit ^^ 8) (c XOR push_bit 24 (ucast b))"

definition crc_ref :: "u32 \<Rightarrow> bytes \<Rightarrow> u32" where
  "crc_ref c bs = fold (\<lambda>b c. crc_byte c b) bs c"

definition swap32 :: "u32 \<Rightarrow> u32" where
  "swap32 w = push_bit 24 (w AND 0xff) OR push_bit 8 (w AND 0xff00) OR drop_bit 8 (w AND 0xff0000) OR drop_bit 24 w"

lemma funpow_8: "(f ^^ 8) x = f (f (f (f (f (f (f (f x)))))))"
  by (simp add: numeral_eq_Suc)

definition crc_entry :: "u32 \<Rightarrow> u32" where
  "crc_entry k = swap32 ((crc_bit ^^ 8) (push_bit 24 k))"

primrec table_from :: "u32 \<Rightarrow> u32 list \<Rightarrow> bool" where
  "table_from k [] = True"
| "table_from k (x # xs) = (x = crc_entry k \<and> table_from (k + 1) xs)"

lemma crc_entry_numeral:
  "crc_entry (numeral n) = swap32 ((crc_bit ^^ 8) (push_bit 24 (numeral n)))"
  "crc_entry 0 = swap32 ((crc_bit ^^ 8) (push_bit 24 0))"
  "crc_entry 1 = swap32 ((crc_bit ^^ 8) (push_bit 24 1))"
  by (simp_all add: crc_entry_def)

lemma crc32table_entries: "table_from 0 crc32table"
  by (simp add: crc32table_def crc_bit_def swap32_def funpow_8 crc_entry_numeral)

lemma table_from_nth: "table_from k xs \<Longrightarrow> i < length xs \<Longrightarrow> xs ! i = crc_entry (k + of_nat i)"
  by (induction xs arbitrary: k i) (auto simp: nth_Cons' ac_simps of_nat_diff)

lemma crc32table_nth: "crc32table ! unat (b :: u8) = crc_entry (ucast b)"
proof -
  have "length crc32table = 256" by (simp add: crc32table_def)
  then show ?thesis
    using table_from_nth [OF crc32table_entries, of "unat b"] by (simp add: word_eq_iff_unat unat_of_nat)
qed

section \<open>Linearity\<close>

lemma bit_swap32:
  "bit (swap32 w) n \<longleftrightarrow> n < 32 \<and>
    (if n < 8 then bit w (n + 24) else if n < 16 then bit w (n + 8)
     else if n < 24 then bit w (n - 8) else bit w (n - 24))"
proof -
  have m: "0xff = (mask 8 :: u32)" "0xff00 = push_bit 8 (mask 8 :: u32)" "0xff0000 = push_bit 16 (mask 8 :: u32)"
    by (simp_all add: mask_eq_exp_minus_1)
  show ?thesis
    unfolding swap32_def m
    by (auto simp: bit_simps ac_simps dest: bit_imp_le_length)
qed

lemma swap32_xor: "swap32 (x XOR y) = swap32 x XOR swap32 y"
  by (rule bit_word_eqI) (auto simp: bit_swap32 bit_simps)

lemma swap32_swap32 [simp]: "swap32 (swap32 w) = w"
  by (rule bit_word_eqI) (auto simp: bit_swap32 ac_simps)

lemma swap32_push_8: "swap32 (push_bit 8 c) = drop_bit 8 (swap32 c)"
  by (rule bit_word_eqI) (auto simp: bit_swap32 bit_simps ac_simps)

lemma crc_bit_xor: "crc_bit (x XOR y) = crc_bit x XOR crc_bit y"
  by (auto simp: crc_bit_def push_bit_xor bit_simps ac_simps)

lemma crc_bits_xor: "(crc_bit ^^ n) (x XOR y) = (crc_bit ^^ n) x XOR (crc_bit ^^ n) y"
  by (induction n) (simp_all add: crc_bit_xor)

lemma crc_bits_low:
  assumes "\<forall>k. 32 - n \<le> k \<longrightarrow> \<not> bit c k"
  shows "n \<le> 32 \<Longrightarrow> (crc_bit ^^ n) c = push_bit n c"
  using assms
proof (induction n)
  case (Suc n)
  then have "(crc_bit ^^ n) c = push_bit n c" by auto
  moreover have "\<not> bit (push_bit n c) 31" using Suc.prems by (auto simp: bit_simps)
  ultimately have "crc_bit ((crc_bit ^^ n) c) = push_bit 1 (push_bit n c)" by (simp only: crc_bit_def if_False)
  then show ?case by (simp add: add.commute del: push_bit_of_1)
qed simp

lemma crc_step:
  "crc32table ! unat ((swap32 c XOR ucast b) AND 0xff) XOR drop_bit 8 (swap32 c) = swap32 (crc_byte c b)"
proof -
  let ?t = "(swap32 c XOR ucast b) AND 0xff" and ?lo = "c AND mask 24"
  have ff: "0xff = (mask 8 :: u32)" by (simp add: mask_eq_exp_minus_1)
  have t: "?t = ucast (ucast ?t :: u8)"
    unfolding ff by (rule bit_word_eqI) (auto simp: bit_simps)
  have c: "c XOR push_bit 24 (ucast b) = push_bit 24 ?t XOR ?lo"
    unfolding ff by (rule bit_word_eqI) (auto simp: bit_simps bit_swap32)
  have "(crc_bit ^^ 8) ?lo = push_bit 8 ?lo"
    by (rule crc_bits_low) (auto simp: bit_simps)
  also have "\<dots> = push_bit 8 c" by (rule bit_word_eqI) (auto simp: bit_simps)
  finally have lo: "(crc_bit ^^ 8) ?lo = push_bit 8 c" .
  have "unat ?t = unat (ucast ?t :: u8)" using arg_cong [OF t, of unat] by simp
  then have "crc32table ! unat ?t = swap32 ((crc_bit ^^ 8) (push_bit 24 ?t))"
    using crc32table_nth [of "ucast ?t"] t by (simp add: crc_entry_def)
  then show ?thesis by (simp add: crc_byte_def c crc_bits_xor lo swap32_xor swap32_push_8)
qed

text \<open>
  C24: The table-driven checksum of the transport stream tables is the MPEG-2 systems CRC-32,
  the bit-by-bit remainder modulo 0x04c11db7, on words with their bytes reversed: for every
  start value and every byte string.
\<close>
theorem table_crc_is_mpeg_crc: "mpeg_crc32 (swap32 c) bs = swap32 (crc_ref c bs)"
  by (induction bs arbitrary: c) (simp_all add: crc_ref_def crc_step)

section \<open>A section with its checksum\<close>

lemma mpeg_crc32_append: "mpeg_crc32 c (xs @ ys) = mpeg_crc32 (mpeg_crc32 c xs) ys"
  by (induction xs arbitrary: c) simp_all

text \<open>The checksum stored with its low byte first is a section's own remainder.\<close>

definition le32 :: "u32 \<Rightarrow> bytes" where
  "le32 c = [ucast c, ucast (drop_bit 8 c), ucast (drop_bit 16 c), ucast (drop_bit 24 c)]"

lemma crc_low_byte: "mpeg_crc32 c (ucast c # bs) = mpeg_crc32 (drop_bit 8 c) bs"
proof -
  have ff: "0xff = (mask 8 :: u32)" by (simp add: mask_eq_exp_minus_1)
  have "(c XOR ucast (ucast c :: u8)) AND 0xff = 0"
    unfolding ff by (rule bit_word_eqI) (auto simp: bit_simps)
  then show ?thesis by (simp add: crc32table_def)
qed

lemma crc_of_le32: "mpeg_crc32 c (le32 c) = 0"
proof -
  have "mpeg_crc32 c (le32 c) = drop_bit 8 (drop_bit 8 (drop_bit 8 (drop_bit 8 c)))"
    using crc_low_byte [of c] crc_low_byte [of "drop_bit 8 c"] crc_low_byte [of "drop_bit 16 c"] crc_low_byte [of "drop_bit 24 c"]
    by (simp add: le32_def del: mpeg_crc32.simps(2))
  also have "\<dots> = 0" by (rule bit_word_eqI) (auto simp: bit_simps dest: bit_imp_le_length)
  finally show ?thesis .
qed

end
