(* ===== verification/TsMux.thy ===== *)
theory TsMux
  imports Streamer NaluHeader AudioHeader TsCrc
begin

text \<open>
  format/mpegts/mpegts_mux.hpp and format/mpegts/mpegts_mux.cpp: the stage that turns packets
  into a transport stream.  The record is the muxer's state; the arrays \<open>pat_data_\<close> and
  \<open>pmt_data_\<close> are kept because a new table is computed over the old bytes.  An array of
  parameter sets with its length is the bytes in it; \<open>None\<close> is a copy past its 512 bytes, a
  read past the data, or the output of bytes that were never written.  A packet that is
  given an ADTS header has the seven bytes of room in front of its data (\<open>DataBuffer\<close>).
\<close>

definition TS_PACKET_SIZE :: nat where "TS_PACKET_SIZE = 188"
definition STREAM_TYPE_PRIVATE_DATA :: u16 where "STREAM_TYPE_PRIVATE_DATA = 0x06"
definition STREAM_TYPE_AUDIO_AAC :: u16 where "STREAM_TYPE_AUDIO_AAC = 0x0f"
definition STREAM_TYPE_VIDEO_H264 :: u16 where "STREAM_TYPE_VIDEO_H264 = 0x1b"
definition STREAM_TYPE_VIDEO_HEVC :: u16 where "STREAM_TYPE_VIDEO_HEVC = 0x24"
definition PAT_TID_PAS :: u8 where "PAT_TID_PAS = 0x00"
definition PAT_TID_PMS :: u8 where "PAT_TID_PMS = 0x02"
definition PES_SID_AUDIO :: u8 where "PES_SID_AUDIO = 0xc0"
definition PES_SID_VIDEO :: u8 where "PES_SID_VIDEO = 0xe0"

lemmas ts_codes = TS_PACKET_SIZE_def STREAM_TYPE_PRIVATE_DATA_def STREAM_TYPE_AUDIO_AAC_def
  STREAM_TYPE_VIDEO_H264_def STREAM_TYPE_VIDEO_HEVC_def PAT_TID_PAS_def PAT_TID_PMS_def
  PES_SID_AUDIO_def PES_SID_VIDEO_def

definition H264_AUD_DATA :: bytes where "H264_AUD_DATA = [0, 0, 0, 1, 0x09, 0xff]"
definition H265_AUD_DATA :: bytes where "H265_AUD_DATA = [0, 0, 0, 1, 0x46, 0x01, 0x50]"

record mpegts_mux = streamer +
  pmt_count :: u32
  pat_data :: bytes
  pmt_data :: bytes
  transport_stream_id :: u16
  pat_ver :: u8
  program_number :: u16
  ts_has_video :: bool
  ts_has_audio :: bool
  video_codec_type :: MEDIA_CODEC_TYPE
  audio_codec_type :: MEDIA_CODEC_TYPE
  pmt_pid :: u16
  pmt_pn :: u16
  pmt_ver :: u8
  pcr_id :: u16
  pminfo_len :: u16
  video_stream_type :: u16
  audio_stream_type :: u16
  video_pid :: u16
  audio_pid :: u16
  video_sid :: u8
  audio_sid :: u8
  video_cc :: u8
  audio_cc :: u8
  last_patpmt_ts :: int
  patpmt_interval :: int
  ts_pps :: bytes
  ts_sps :: bytes
  ts_vps :: bytes
  is_annexb :: bool
  aac_type :: u8
  ts_sample_rate :: int
  ts_channel :: u8
  video_ready :: bool
  audio_ready :: bool
  ts_ready :: bool
  keyframe_ready :: bool
  wait_queue :: "media_packet list"

definition new_MpegtsMux :: "bytes \<Rightarrow> mpegts_mux" where
  "new_MpegtsMux name = streamer.extend (new_streamer name Map.empty)
     \<lparr> pmt_count = 1,
       pat_data = [0x47, 0x40, 0x00, 0x10, 0x00] @ replicate (TS_PACKET_SIZE - 5) 0xff,
       pmt_data = [0x47, 0x50, 0x01, 0x10, 0x00] @ replicate (TS_PACKET_SIZE - 5) 0xff,
       transport_stream_id = 1, pat_ver = 0, program_number = 1,
       ts_has_video = True, ts_has_audio = True,
       video_codec_type = MEDIA_CODEC_H264, audio_codec_type = MEDIA_CODEC_AAC,
       pmt_pid = 0x1001, pmt_pn = 0x01, pmt_ver = 0, pcr_id = 0x100, pminfo_len = 0,
       video_stream_type = STREAM_TYPE_VIDEO_H264, audio_stream_type = STREAM_TYPE_AUDIO_AAC,
       video_pid = 0x100, audio_pid = 0x101, video_sid = 0, audio_sid = 0,
       video_cc = 0, audio_cc = 0, last_patpmt_ts = -1, patpmt_interval = 3000,
       ts_pps = [], ts_sps = [], ts_vps = [], is_annexb = False,
       aac_type = 0, ts_sample_rate = 0, ts_channel = 0,
       video_ready = False, audio_ready = False, ts_ready = False, keyframe_ready = False,
       wait_queue = [] \<rparr>"

section \<open>The tables\<close>

text \<open>
  The section is written into the array behind its first five bytes.  The checksum is taken
  from the array's offset 6 on over the section length, before it is stored itself.
\<close>

definition GeneratePat :: "mpegts_mux \<Rightarrow> (int \<times> mpegts_mux) option" where
  "GeneratePat s =
     (let len = pmt_count s * 4 + 5 + 4;
          body = [PAT_TID_PAS] @ Write2Bytes (ucast (0xb000 OR len)) @ Write2Bytes (transport_stream_id s)
            @ [0xc1 OR push_bit 1 (pat_ver s), 0, 0]
            @ concat (replicate (unat (pmt_count s))
                (Write2Bytes (program_number s) @ Write2Bytes (0xe000 OR pmt_pid s)));
          written = take 5 (pat_data s) @ body @ drop (5 + length body) (pat_data s);
          crc = mpeg_crc32 0xffffffff (take (unat len) (drop 6 written));
          used = 5 + length body + 4
      in do {
        require (used \<le> TS_PACKET_SIZE);
        Some (int used, s\<lparr>pat_data := take 5 (pat_data s) @ body @ Write4Bytes crc
                                      @ replicate (TS_PACKET_SIZE - used) 0xff\<rparr>) })"

text \<open>An entry of the map section; the descriptor of VP8, VP9 and Opus.\<close>

definition registration :: "string \<Rightarrow> bytes" where
  "registration name = [0x05, 4] @ str name @ [0x7f, 2, 0x80, 2]"

definition es_entry :: "u16 \<Rightarrow> u16 \<Rightarrow> bytes \<Rightarrow> bytes" where
  "es_entry stream_type pid info =
     [ucast stream_type] @ Write2Bytes (0xe000 OR pid)
     @ Write2Bytes (0xf000 OR of_nat (length info)) @ info"

definition video_stream_type_of :: "MEDIA_CODEC_TYPE \<Rightarrow> u16" where
  "video_stream_type_of codec =
     (if codec = MEDIA_CODEC_H264 then STREAM_TYPE_VIDEO_H264
      else if codec = MEDIA_CODEC_H265 then STREAM_TYPE_VIDEO_HEVC
      else STREAM_TYPE_PRIVATE_DATA)"

definition audio_stream_type_of :: "MEDIA_CODEC_TYPE \<Rightarrow> u16" where
  "audio_stream_type_of codec =
     (if codec = MEDIA_CODEC_AAC then STREAM_TYPE_AUDIO_AAC else STREAM_TYPE_PRIVATE_DATA)"

definition video_info :: "MEDIA_CODEC_TYPE \<Rightarrow> bytes" where
  "video_info codec =
     (if codec = MEDIA_CODEC_VP8 then registration ''Vp80''
      else if codec = MEDIA_CODEC_VP9 then registration ''Vp90'' else [])"

definition audio_info :: "MEDIA_CODEC_TYPE \<Rightarrow> bytes" where
  "audio_info codec = (if codec = MEDIA_CODEC_OPUS then registration ''Opus'' else [])"

definition GeneratePmt :: "mpegts_mux \<Rightarrow> int \<times> mpegts_mux" where
  "GeneratePmt s =
     (let s = (if ts_has_video s then s\<lparr>video_stream_type := video_stream_type_of (video_codec_type s)\<rparr> else s);
          s = (if ts_has_audio s then s\<lparr>audio_stream_type := audio_stream_type_of (audio_codec_type s)\<rparr> else s);
          es = (if ts_has_video s then es_entry (video_stream_type s) (video_pid s) (video_info (video_codec_type s)) else [])
            @ (if ts_has_audio s then es_entry (audio_stream_type s) (audio_pid s) (audio_info (audio_codec_type s)) else []);
          body = Write2Bytes (pmt_pn s) @ [0xc1 OR push_bit 1 (pmt_ver s), 0, 0]
            @ Write2Bytes (0xe000 OR pcr_id s) @ Write2Bytes (0xf000 OR pminfo_len s) @ es;
          len = of_nat (length body + 4) :: u16;
          data = [PAT_TID_PMS] @ Write2Bytes (0xb000 OR len) @ body;
          crc = mpeg_crc32 0xffffffff data;
          used = 5 + length data + 4
      in (int used, s\<lparr>pmt_data := take 5 (pmt_data s) @ data @ le32 crc
                                   @ replicate (TS_PACKET_SIZE - used) 0xff\<rparr>))"

text \<open>A transport packet, sunk with the properties of the packet it belongs to.\<close>

definition TsOutput :: "media_packet option \<Rightarrow> bytes \<Rightarrow> mpegts_mux \<Rightarrow> mpegts_mux" where
  "TsOutput pkt data s =
     (let ts = (case pkt of None \<Rightarrow> new_Media_Packet | Some pkt \<Rightarrow> copy_properties new_Media_Packet pkt)
      in sink_all (ts\<lparr>fmt_type := MEDIA_FORMAT_MPEGTS, pkt_data := data\<rparr>) s)"

definition WritePat :: "mpegts_mux \<Rightarrow> mpegts_mux option" where
  "WritePat s = do {
     (_, s) \<leftarrow> GeneratePat s;
     Some (TsOutput None (pat_data s) s) }"

definition WritePmt :: "mpegts_mux \<Rightarrow> mpegts_mux" where
  "WritePmt s = (case GeneratePmt s of (_, s) \<Rightarrow> TsOutput None (pmt_data s) s)"

section \<open>PES packets\<close>

definition WriteTs :: "u8 \<Rightarrow> int \<Rightarrow> bytes" where
  "WriteTs flag ts =
     (let ts = (if ts > 0x1ffffffff then ts - 0x1ffffffff else ts);
          v1 = push_bit 4 (ucast flag) OR push_bit 1 (of_int (drop_bit 30 ts) AND 0x07) OR 1 :: u32;
          v2 = push_bit 1 (of_int (drop_bit 15 ts) AND 0x7fff) OR 1 :: u32;
          v3 = push_bit 1 (of_int (ts AND 0x7fff)) OR 1 :: u32
      in [ucast v1, ucast (drop_bit 8 v2), ucast v2, ucast (drop_bit 8 v3), ucast v3])"

definition WritePcr :: "int \<Rightarrow> bytes" where
  "WritePcr pcr =
     [of_int (drop_bit 25 pcr), of_int (drop_bit 17 pcr AND 0xff), of_int (drop_bit 9 pcr AND 0xff),
      of_int (drop_bit 1 pcr AND 0xff), of_int (push_bit 7 (pcr AND 0x1) OR 0x7e), 0]"

definition WritePesHeader :: "nat \<Rightarrow> bool \<Rightarrow> int \<Rightarrow> int \<Rightarrow> mpegts_mux \<Rightarrow> bytes" where
  "WritePesHeader data_size is_video dts90 pts90 s =
     (let both = is_video \<and> dts90 \<noteq> pts90;
          flag = (if both then 0xc0 else 0x80) :: u8;
          header_len = (if both then 10 else 5);
          packet_len = (if data_size + header_len + 3 > 0xffff then 0 else data_size + header_len + 3)
      in [0x00, 0x00, 0x01, if is_video then PES_SID_VIDEO + video_sid s else PES_SID_AUDIO + audio_sid s]
         @ Write2Bytes (of_nat packet_len) @ [0x80, flag, of_nat header_len]
         @ WriteTs (drop_bit 6 flag) pts90 @ (if both then WriteTs 0x01 dts90 else []))"

text \<open>The bytes that \<open>AdaptationBufInit\<close> writes; for one byte of room, only that byte.\<close>

definition AdaptationBufInit :: "nat \<Rightarrow> nat \<Rightarrow> bytes" where
  "AdaptationBufInit data_size remain_bytes =
     of_int (int remain_bytes - 1) #
     (if remain_bytes \<noteq> 1 then 0x00 # replicate (data_size - 2) 0xff else [])"

text \<open>
  One turn of the loop of \<open>WritePes\<close>: the transport packet, and how many bytes of the PES
  header and of the data went into it.  \<open>rest\<close> is the data from \<open>wBytes\<close> on, \<open>len\<close> is
  \<open>packet_bytes_len\<close>.  The 8-bit variables of the source are words here.
\<close>

definition ts_head :: "bool \<Rightarrow> bool \<Rightarrow> u16 \<Rightarrow> u8 \<Rightarrow> int \<Rightarrow> bool \<Rightarrow> bytes" where
  "ts_head first pcr pid cc dts90 adaptation =
     [0x47, ucast (drop_bit 8 pid) OR (if first then 0x40 else 0), ucast pid,
      (0x10 OR (cc AND 0x0f)) OR (if pcr \<or> adaptation then 0x20 else 0)]
     @ (if pcr then [7, 0x50] @ WritePcr dts90 else [])"

definition ts_unit ::
  "bool \<Rightarrow> bool \<Rightarrow> u16 \<Rightarrow> u8 \<Rightarrow> int \<Rightarrow> bytes \<Rightarrow> bytes \<Rightarrow> nat \<Rightarrow> (bytes \<times> nat \<times> nat) option" where
  "ts_unit first pcr pid cc dts90 hdr rest len =
     (let head = ts_head first pcr pid cc dts90 (len < 184);
          i = length head;
          used = of_nat (if first then i - 4 else 0) :: u8;
          data_len = (if len \<ge> 184 then 184 - used else of_nat len) :: u8;
          remain = (if len \<ge> 184 then 0 else unat (184 - of_nat len - used :: u8));
          fill = (if len \<ge> 184 then [] else AdaptationBufInit (TS_PACKET_SIZE - i) remain);
          i' = i + remain
      in if i' \<ge> TS_PACKET_SIZE then do {
           require (length (head @ fill) = TS_PACKET_SIZE);
           Some (head @ fill, 0, 0) }
         else do {
           tmp \<leftarrow> Some (if first then min (length hdr) (TS_PACKET_SIZE - i') else 0);
           data_len \<leftarrow> Some (unat (data_len - of_nat tmp));
           n \<leftarrow> Some (min (TS_PACKET_SIZE - (i' + tmp)) data_len);
           d \<leftarrow> grab n rest;
           ts_packet \<leftarrow> Some (head @ take remain fill @ take tmp hdr @ d);
           require (length ts_packet = TS_PACKET_SIZE);
           Some (ts_packet, tmp, n) })"

definition next_cc :: "u8 \<Rightarrow> u8" where
  "next_cc cc = (if cc + 1 > 0xf then 0 else cc + 1)"

definition bump_cc :: "bool \<Rightarrow> mpegts_mux \<Rightarrow> u8 \<times> mpegts_mux" where
  "bump_cc is_video s =
     (if is_video then (next_cc (video_cc s), s\<lparr>video_cc := next_cc (video_cc s)\<rparr>)
      else (next_cc (audio_cc s), s\<lparr>audio_cc := next_cc (audio_cc s)\<rparr>))"

lemma unat_small_u8: "n < 256 \<Longrightarrow> unat (of_nat n :: u8) = n"
  by (simp add: unat_of_nat)

lemma unat_rest_u8: "n \<le> 184 \<Longrightarrow> unat (184 - of_nat n :: u8) = 184 - n"
  by (simp add: unat_sub word_le_nat_alt unat_small_u8)

lemma ts_unit_next:
  assumes "0 < len"
  shows "ts_unit False False pid cc dts90 hdr rest len =
    (let n = min 184 len; k = 184 - n in map_option (\<lambda>d.
       ([0x47, ucast (drop_bit 8 pid), ucast pid, (0x10 OR (cc AND 0x0f)) OR (if len < 184 then 0x20 else 0)]
        @ take k (AdaptationBufInit 184 k) @ d, 0, n)) (grab n rest))"
proof (cases "len \<ge> 184")
  case True
  then show ?thesis
    by (cases "grab 184 rest")
       (auto simp: ts_unit_def ts_head_def ts_codes min_def grab_def split: if_splits)
next
  case False
  note u = unat_rest_u8 [of len] unat_small_u8 [of len]
  have "\<not> 188 \<le> 4 + (184 - len)" "min (188 - (4 + (184 - len))) len = len" "len \<le> 184" "min 184 len = len"
    using assms False by simp_all
  moreover have "length (take (184 - len) (AdaptationBufInit 184 (184 - len))) = 184 - len"
    by (auto simp: AdaptationBufInit_def)
  ultimately show ?thesis using False u
    by (cases "grab len rest") (auto simp: ts_unit_def ts_head_def ts_codes Let_def grab_def split: if_splits)
qed

lemma ts_unit_progress:
  assumes "ts_unit False False pid cc dts90 hdr rest len = Some (p, tmp, n)" "0 < len"
  shows "0 < n"
  using assms by (auto simp: ts_unit_next Let_def)

function pes_loop ::
  "bool \<Rightarrow> media_packet \<Rightarrow> bool \<Rightarrow> u16 \<Rightarrow> int \<Rightarrow> bytes \<Rightarrow> bytes \<Rightarrow> nat \<Rightarrow> nat \<Rightarrow> mpegts_mux \<Rightarrow> mpegts_mux option"
where
  "pes_loop first pkt is_video pid dts90 hdr data len w s =
     (if len = 0 then Some s
      else let (cc, s) = bump_cc is_video s in
        (case ts_unit first (first \<and> is_video \<and> is_key_frame pkt) pid cc dts90 hdr (drop w data) len of
           None \<Rightarrow> None
         | Some (ts_packet, tmp, n) \<Rightarrow>
             pes_loop False pkt is_video pid dts90 hdr data (len - tmp - n) (w + n)
               (TsOutput (Some pkt) ts_packet s)))"
  by pat_completeness auto

termination
  by (relation "measure (\<lambda>(first, _, _, _, _, _, _, len, _, _). 2 * len + (if first then 1 else 0))")
     (auto dest!: ts_unit_progress)

declare pes_loop.simps [simp del]

definition WritePes :: "media_packet \<Rightarrow> mpegts_mux \<Rightarrow> mpegts_mux option" where
  "WritePes pkt s =
     (let data = pkt_data pkt;
          is_video = (av_type pkt = MEDIA_VIDEO_TYPE);
          dts90 = dts pkt * 90;
          pts90 = pts pkt * 90;
          pid = (if is_video then video_pid s else audio_pid s);
          hdr = WritePesHeader (length data) is_video dts90 pts90 s
      in pes_loop True pkt is_video pid dts90 hdr data (length data + length hdr) 0 s)"

section \<open>Video\<close>

definition ReportEvent :: "string \<Rightarrow> string \<Rightarrow> int list \<Rightarrow> mpegts_mux \<Rightarrow> mpegts_mux" where
  "ReportEvent ty fmt args s = Report ty fmt args s"

text \<open>\<open>p[0] == 0 && p[1] == 0 && p[2] == 0 && p[3] == 1\<close>\<close>

definition begins_0001 :: "bytes \<Rightarrow> bool option" where
  "begins_0001 p = do {
     b0 \<leftarrow> rd p 0;
     if b0 \<noteq> 0 then Some False
     else do {
       b1 \<leftarrow> rd p 1;
       if b1 \<noteq> 0 then Some False
       else do {
         b2 \<leftarrow> rd p 2;
         if b2 \<noteq> 0 then Some False
         else do { b3 \<leftarrow> rd p 3; Some (b3 = 1) } } } }"

text \<open>The type byte of a NALU; a position of -1 reads in front of the data.\<close>

definition nalu_type_byte :: "bytes \<Rightarrow> u8 option" where
  "nalu_type_byte data = do {
     pos \<leftarrow> GetNaluTypePos data;
     require (0 \<le> pos);
     ty \<leftarrow> rd data (nat pos);
     Some (ty AND 0x1f) }"

definition store_pps :: "bytes \<Rightarrow> mpegts_mux \<Rightarrow> mpegts_mux option" where
  "store_pps d s = do { require (length d \<le> 512); Some (s\<lparr>ts_pps := d\<rparr>) }"

definition store_sps :: "bytes \<Rightarrow> mpegts_mux \<Rightarrow> mpegts_mux option" where
  "store_sps d s = do { require (length d \<le> 512); Some (s\<lparr>ts_sps := d\<rparr>) }"

text \<open>The loop over the NALUs of a frame; one packet is reused for all of them.\<close>

fun h264_nalus :: "bytes list \<Rightarrow> media_packet \<Rightarrow> mpegts_mux \<Rightarrow> mpegts_mux option" where
  "h264_nalus [] pkt s = Some s"
| "h264_nalus (data # nalus) pkt s =
     (case nalu_type_byte data of
        None \<Rightarrow> None
      | Some ty \<Rightarrow>
          if H264_IS_AUD ty then h264_nalus nalus pkt s
          else if H264_IS_PPS ty then Option.bind (store_pps data s) (h264_nalus nalus pkt)
          else if H264_IS_SPS ty then Option.bind (store_sps data s) (h264_nalus nalus pkt)
          else
            let s = (if H264_IS_KEYFRAME ty then s\<lparr>keyframe_ready := True\<rparr> else s);
                out = H264_AUD_DATA @ (if H264_IS_KEYFRAME ty then ts_sps s @ ts_pps s else []) @ data
            in if keyframe_ready s
               then Option.bind (WritePes ((copy_properties new_Media_Packet pkt)\<lparr>pkt_data := out\<rparr>) s)
                      (h264_nalus nalus pkt)
               else h264_nalus nalus pkt s)"

definition h264_seq_header :: "bytes \<Rightarrow> mpegts_mux \<Rightarrow> (int \<times> mpegts_mux) option" where
  "h264_seq_header data s =
     (if \<not> is_annexb s then do {
        sets \<leftarrow> GetSpsPpsFromExtraData 512 512 data (length data);
        Some (0, case sets of
          None \<Rightarrow> s\<lparr>ts_pps := [], ts_sps := []\<rparr>
        | Some (pps, sps) \<Rightarrow> s\<lparr>ts_pps := pps, ts_sps := sps\<rparr>) }
      else do {
        ty \<leftarrow> nalu_type_byte data;
        s \<leftarrow> (if H264_IS_PPS ty then store_pps data s
             else if H264_IS_SPS ty then store_sps data s else Some s);
        Some (0, s) })"

text \<open>The lengths are unsigned, so the test that the parameter sets are there never fails.\<close>

definition HandleH264 :: "media_packet \<Rightarrow> mpegts_mux \<Rightarrow> (int \<times> mpegts_mux) option" where
  "HandleH264 pkt s = do {
     s \<leftarrow> (if is_annexb s then Some s
          else map_option (\<lambda>b. s\<lparr>is_annexb := b\<rparr>) (begins_0001 (pkt_data pkt)));
     if is_seq_hdr pkt then h264_seq_header (pkt_data pkt) s
     else do {
       (ret, nalus) \<leftarrow> (if is_annexb s then Some (AnnexB2Nalus (pkt_data pkt))
                       else Avcc2Nalus (pkt_data pkt) (length (pkt_data pkt)));
       if \<not> ret then Some (-1, ReportEvent ''error'' ''avcc/annexb to nalus error'' [] s)
       else map_option (\<lambda>s. (0, s)) (h264_nalus nalus pkt s) } }"

definition NAL_UNIT_ACCESS_UNIT_DELIMITER :: u8 where "NAL_UNIT_ACCESS_UNIT_DELIMITER = 35"
definition NAL_UNIT_CODED_SLICE_BLA :: u8 where "NAL_UNIT_CODED_SLICE_BLA = 16"
definition NAL_UNIT_RESERVED_23 :: u8 where "NAL_UNIT_RESERVED_23 = 23"

definition GET_HEVC_NALU_TYPE :: "u8 \<Rightarrow> u8" where
  "GET_HEVC_NALU_TYPE code = drop_bit 1 (code AND 0x7e)"

fun h265_nalus :: "bytes list \<Rightarrow> bool \<Rightarrow> media_packet \<Rightarrow> mpegts_mux \<Rightarrow> mpegts_mux option" where
  "h265_nalus [] appended pkt s = Some s"
| "h265_nalus (data # nalus) appended pkt s =
     (case rd data 4 of
        None \<Rightarrow> None
      | Some b \<Rightarrow>
          let ty = GET_HEVC_NALU_TYPE b;
              sets = NAL_UNIT_CODED_SLICE_BLA \<le> ty \<and> ty \<le> NAL_UNIT_RESERVED_23 \<and> \<not> appended;
              out = H265_AUD_DATA
                @ (if sets then START_CODE @ ts_vps s @ START_CODE @ ts_sps s @ START_CODE @ ts_pps s else [])
                @ START_CODE @ drop 4 data
          in if ty = NAL_UNIT_ACCESS_UNIT_DELIMITER then h265_nalus nalus appended pkt s
             else Option.bind (WritePes ((copy_properties new_Media_Packet pkt)\<lparr>pkt_data := out\<rparr>) s)
                    (h265_nalus nalus (appended \<or> sets) pkt))"

text \<open>The sets of the configuration are copied whether or not all three are there.\<close>

definition h265_seq_header :: "bytes \<Rightarrow> mpegts_mux \<Rightarrow> (int \<times> mpegts_mux) option" where
  "h265_seq_header data s = do {
     info \<leftarrow> GetHevcDecInfoFromExtradata data;
     (case info of
        Inl _ \<Rightarrow> Some (-1, s)
      | Inr info \<Rightarrow> do {
          (vps, sps, pps) \<leftarrow> pick_sets (nalu_vec info) ([], [], []);
          require (list_all (\<lambda>u. nal_unit_type u \<notin> {NAL_UNIT_VPS, NAL_UNIT_SPS, NAL_UNIT_PPS}
                     \<or> length (hd (nal_data_vec u)) \<le> 512) (nalu_vec info));
          Some (0, s\<lparr>ts_vps := vps, ts_sps := sps, ts_pps := pps\<rparr>) }) }"

definition HandleH265 :: "media_packet \<Rightarrow> mpegts_mux \<Rightarrow> (int \<times> mpegts_mux) option" where
  "HandleH265 pkt s =
     (if is_seq_hdr pkt then h265_seq_header (pkt_data pkt) s
      else do {
        (ret, nalus) \<leftarrow> Avcc2Nalus (pkt_data pkt) (length (pkt_data pkt));
        if \<not> ret then Some (-1, ReportEvent ''error'' ''Avcc to Nalus error'' [] s)
        else map_option (\<lambda>s. (0, s)) (h265_nalus nalus False pkt s) })"

definition HandleVpx :: "media_packet \<Rightarrow> mpegts_mux \<Rightarrow> (int \<times> mpegts_mux) option" where
  "HandleVpx pkt s = map_option (\<lambda>s. (0, s)) (WritePes pkt s)"

definition HandleVideo :: "media_packet \<Rightarrow> mpegts_mux \<Rightarrow> (int \<times> mpegts_mux) option" where
  "HandleVideo pkt s =
     (if codec_type pkt = MEDIA_CODEC_H264 then HandleH264 pkt s
      else if codec_type pkt = MEDIA_CODEC_VP8 then HandleVpx pkt s
      else if codec_type pkt = MEDIA_CODEC_H265 then HandleH265 pkt s
      else Some (0, ReportEvent ''error'' ''handle video can't handle codec type:%d''
                      [int (codec_value (codec_type pkt))] s))"

section \<open>Audio\<close>

text \<open>
  The code puts the ADTS header into the buffer of the packet itself, which its other holders would see too; here the packet is a
  value, and only the stream that is written shows the header.
\<close>

definition HandleAudioAac :: "media_packet \<Rightarrow> mpegts_mux \<Rightarrow> (int \<times> mpegts_mux) option" where
  "HandleAudioAac pkt s =
     (if is_seq_hdr pkt \<and> has_flv_audio_asc pkt then
        Some (0, s\<lparr>audio_codec_type := codec_type pkt, ts_sample_rate := sample_rate pkt,
                   ts_channel := channel pkt, aac_type := aac_asc_type pkt\<rparr>)
      else if aac_type s = 0 \<or> ts_sample_rate s = 0 \<or> ts_channel s = 0 then Some (0, s)
      else let adts = MakeAdts (of_int (GetAdtsTypeByAscType (int (unat (aac_asc_type pkt)))))
                        (ts_sample_rate s) (int (unat (ts_channel s))) (int (length (pkt_data pkt))) True
        in map_option (\<lambda>s. (0, s)) (WritePes (pkt\<lparr>pkt_data := adts @ pkt_data pkt\<rparr>) s))"

definition HandleAudioOpus :: "media_packet \<Rightarrow> mpegts_mux \<Rightarrow> (int \<times> mpegts_mux) option" where
  "HandleAudioOpus pkt s = map_option (\<lambda>s. (0, s)) (WritePes pkt s)"

definition HandleAudio :: "media_packet \<Rightarrow> mpegts_mux \<Rightarrow> (int \<times> mpegts_mux) option" where
  "HandleAudio pkt s =
     (if codec_type pkt = MEDIA_CODEC_AAC then HandleAudioAac pkt s
      else if codec_type pkt = MEDIA_CODEC_OPUS then HandleAudioOpus pkt s
      else Some (-1, ReportEvent ''error'' ''not support audio codec type:%s''
                       [int (codec_value (codec_type pkt))] s))"

section \<open>Packets from the pipeline\<close>

definition ts_HandlePacket :: "media_packet \<Rightarrow> mpegts_mux \<Rightarrow> (int \<times> mpegts_mux) option" where
  "ts_HandlePacket pkt s =
     (if av_type pkt = MEDIA_VIDEO_TYPE then HandleVideo pkt (s\<lparr>video_codec_type := codec_type pkt\<rparr>)
      else if av_type pkt = MEDIA_AUDIO_TYPE then HandleAudio pkt (s\<lparr>audio_codec_type := codec_type pkt\<rparr>)
      else Some (0, ReportEvent ''error'' ''packet av type(%d) is unkown''
                      [case av_type pkt of MEDIA_MOVBOX_TYPE \<Rightarrow> 3 | MEDIA_METADATA_TYPE \<Rightarrow> 4 | _ \<Rightarrow> 0] s))"

text \<open>The packets that wait are handled in order; what they return is ignored.\<close>

fun drain_queue :: "media_packet list \<Rightarrow> mpegts_mux \<Rightarrow> mpegts_mux option" where
  "drain_queue [] s = Some s"
| "drain_queue (pkt # pkts) s =
     (case ts_HandlePacket pkt (s\<lparr>wait_queue := pkts\<rparr>) of
        None \<Rightarrow> None
      | Some (_, s) \<Rightarrow> drain_queue pkts s)"

definition enqueue :: "media_packet \<Rightarrow> mpegts_mux \<Rightarrow> mpegts_mux" where
  "enqueue pkt s =
     (let s = (if av_type pkt = MEDIA_VIDEO_TYPE then s\<lparr>video_ready := True, video_codec_type := codec_type pkt\<rparr>
               else if av_type pkt = MEDIA_AUDIO_TYPE then s\<lparr>audio_ready := True, audio_codec_type := codec_type pkt\<rparr>
               else s)
      in s\<lparr>wait_queue := wait_queue s @ [pkt]\<rparr>)"

definition write_tables :: "int \<Rightarrow> mpegts_mux \<Rightarrow> mpegts_mux option" where
  "write_tables ts s =
     (if last_patpmt_ts s < 0 \<or> ts - last_patpmt_ts s \<ge> patpmt_interval s
      then map_option (\<lambda>s. (WritePmt s)\<lparr>last_patpmt_ts := ts\<rparr>) (WritePat s)
      else Some s)"

definition ts_InputPacket :: "media_packet \<Rightarrow> mpegts_mux \<Rightarrow> (int \<times> mpegts_mux) option" where
  "ts_InputPacket pkt s =
     (if av_type pkt = MEDIA_METADATA_TYPE then Some (0, s)
      else if \<not> ts_ready s \<and> (\<not> video_ready s \<or> \<not> audio_ready s) \<and> length (wait_queue s) < 30
      then Some (0, enqueue pkt s)
      else do {
        s \<leftarrow> write_tables (dts pkt) (s\<lparr>ts_ready := True\<rparr>);
        s \<leftarrow> drain_queue (wait_queue s) s;
        ts_HandlePacket pkt s })"

definition ts_SourceData :: "media_packet option \<Rightarrow> mpegts_mux \<Rightarrow> (int \<times> mpegts_mux) option" where
  "ts_SourceData pkt s = (case pkt of None \<Rightarrow> Some (-1, s) | Some pkt \<Rightarrow> ts_InputPacket pkt s)"

end
