(* ===== verification/OpusHeader.thy ===== *)
theory OpusHeader
  imports ByteStream
begin

text \<open>
  format/opus_header.cpp: the access units of Opus in a transport stream.  A pointer with its
  end is the bytes from it to the end; \<open>None\<close> is a read past them.  A frame is the offset of
  its pointer in the unit and its length: the pointer is one byte in front of the frame, and
  the length counts that byte.
\<close>

text \<open>The loop over the size bytes, from index \<open>i\<close>.\<close>

function opus_unit_size :: "bytes \<Rightarrow> nat \<Rightarrow> nat \<Rightarrow> nat \<times> nat" where
  "opus_unit_size data i unit_size =
     (if i < length data \<and> data ! (i - 1) = 255 then opus_unit_size data (i + 1) (unit_size + unat (data ! i))
      else (i, unit_size))"
  by pat_completeness auto

termination by (relation "measure (\<lambda>(data, i, _). length data - i)") auto

declare opus_unit_size.simps [simp del]

text \<open>
  The inner \<open>None\<close> is the null pointer; otherwise the offset of the payload and its length.
\<close>

definition GetOpusHeader :: "bytes \<Rightarrow> (nat \<times> nat) option option" where
  "GetOpusHeader data =
     (if length data < 3 then Some None
      else let prefix = push_bit 8 (ucast (data ! 0)) OR ucast (data ! 1) :: u16 in
        if prefix AND 0xffe0 \<noteq> 0x7fe0 then Some (Some (0, length data))
        else do {
          (i, unit_size) \<leftarrow> Some (opus_unit_size data 3 (unat (data ! 2)));
          i \<leftarrow> Some (if bit prefix 4 then i + 2 else i);
          i \<leftarrow> Some (if bit prefix 3 then i + 2 else i);
          i \<leftarrow> (if bit prefix 2 then map_option (\<lambda>n. i + 1 + unat n) (rd data i) else Some i);
          Some (if i + unit_size > length data then None else Some (i, unit_size)) })"

text \<open>A frame length of one or two bytes; \<open>Inl\<close> is -1.  The offset moves behind it.\<close>

definition xiph_lacing_16bit :: "bytes \<Rightarrow> nat \<Rightarrow> unit + nat \<times> nat" where
  "xiph_lacing_16bit p off =
     (if off \<ge> length p then Inl ()
      else let v = unat (p ! off) in
        if v \<ge> 252 then
          (if off + 1 \<ge> length p then Inl () else Inr (v + 4 * unat (p ! (off + 1)), off + 2))
        else Inr (v, off + 1))"

text \<open>The padding length.  The test against \<open>INT_MAX\<close> is that of the source.\<close>

function xiph_lacing_full :: "bytes \<Rightarrow> nat \<Rightarrow> int \<Rightarrow> unit + int \<times> nat" where
  "xiph_lacing_full p off val =
     (if off \<ge> length p \<or> val > 0x7fffffff - 254 then Inl ()
      else let v = int (unat (p ! off)) in
        if v < 255 then Inr (val + v, off + 1) else xiph_lacing_full p (off + 1) (val + v - 1))"
  by pat_completeness auto

termination by (relation "measure (\<lambda>(p, off, _). length p - off)") auto

declare xiph_lacing_full.simps [simp del]

text \<open>The lengths of all frames but the last in a unit with lengths of its own.\<close>

primrec opus_sizes :: "nat \<Rightarrow> bytes \<Rightarrow> nat \<Rightarrow> unit + nat list \<times> nat" where
  "opus_sizes 0 p off = Inr ([], off)"
| "opus_sizes (Suc n) p off = (case xiph_lacing_16bit p off of
     Inl e \<Rightarrow> Inl e
   | Inr (len, off) \<Rightarrow> (case opus_sizes n p off of
       Inl e \<Rightarrow> Inl e
     | Inr (lens, off) \<Rightarrow> Inr (len # lens, off)))"

text \<open>
  The frames of such a unit.  The loop runs over the stored lengths, and the last of them is
  replaced by what remains, so one frame fewer than announced comes out.
\<close>

fun opus_vbr_frames :: "nat list \<Rightarrow> int \<Rightarrow> int \<Rightarrow> (int \<times> int) list" where
  "opus_vbr_frames [] off last_len = []"
| "opus_vbr_frames [len] off last_len = [(off - 1, last_len + 1)]"
| "opus_vbr_frames (len # lens) off last_len =
     (off - 1, int len + 1) # opus_vbr_frames lens (off + int len) last_len"

primrec opus_cbr_frames :: "nat \<Rightarrow> int \<Rightarrow> int \<Rightarrow> (int \<times> int) list" where
  "opus_cbr_frames 0 off len = []"
| "opus_cbr_frames (Suc n) off len = (off - 1, len + 1) # opus_cbr_frames n (off + len) len"

text \<open>The unit is the first \<open>n\<close> bytes of \<open>p\<close>; the bytes behind it belong to the next one.\<close>

definition opus_code3 :: "bytes \<Rightarrow> nat \<Rightarrow> (unit + (int \<times> int) list) option" where
  "opus_code3 p n = do {
     index \<leftarrow> rd p 1;
     count \<leftarrow> Some (unat (index AND 0x3f));
     if count = 0 \<or> count > 48 then Some (Inl ())
     else Some (case (if bit index 6 then xiph_lacing_full (take n p) 2 0 else Inr (0, 2)) of
       Inl e \<Rightarrow> Inl e
     | Inr (padding, off) \<Rightarrow>
         if bit index 7 then
           (case opus_sizes (count - 1) (take n p) off of
              Inl e \<Rightarrow> Inl e
            | Inr (lens, off) \<Rightarrow>
                let frame_len = int n - int off - padding; total = int (sum_list lens) in
                if total > frame_len then Inl ()
                else Inr (opus_vbr_frames lens (int off) (frame_len - total)))
         else
           (let frame_len = int n - int off - padding in
            if frame_len mod int count \<noteq> 0 \<or> frame_len div int count > 48 then Inl ()
            else Inr (opus_cbr_frames count (int off) (frame_len div int count)))) }"

definition GetOpusFrame :: "bytes \<Rightarrow> nat \<Rightarrow> (unit + (int \<times> int) list) option" where
  "GetOpusFrame p n = do {
     ty \<leftarrow> rd p 0;
     len \<leftarrow> Some (int (n - 1));
     if ty AND 0x03 = 0 then Some (Inr [(0, int n)])
     else if ty AND 0x03 = 1 then
       Some (if len mod 2 = 1 then Inl ()
             else Inr [(0, len div 2 + 1), (len div 2, len div 2 + 1)])
     else if ty AND 0x03 = 2 then
       Some (case xiph_lacing_16bit (take n p) 1 of
          Inl e \<Rightarrow> Inl e
        | Inr (frame_len, off) \<Rightarrow>
            if frame_len = 0 then Inl ()
            else Inr [(int off - 1, int frame_len + 1),
                      (int off + int frame_len - 1, int n - int (off + frame_len) + 1)])
     else opus_code3 p n }"

lemma opus_unit_size_le: "i \<le> fst (opus_unit_size data i n)"
proof (induction data i n rule: opus_unit_size.induct)
  case (1 data i n)
  show ?case
  proof (cases "i < length data \<and> data ! (i - 1) = 255")
    case True
    with 1 [OF True] show ?thesis by (subst opus_unit_size.simps) simp
  next
    case False
    then show ?thesis by (subst opus_unit_size.simps) auto
  qed
qed

lemma GetOpusHeader_progress: "GetOpusHeader data = Some (Some (i, n)) \<Longrightarrow> 0 < i + n"
proof -
  assume a: "GetOpusHeader data = Some (Some (i, n))"
  obtain j m where s: "opus_unit_size data 3 (unat (data ! 2)) = (j, m)" by fastforce
  with opus_unit_size_le [of 3 data "unat (data ! 2)"] have "3 \<le> j" by simp
  with a s show "0 < i + n"
    by (auto simp: GetOpusHeader_def Let_def bind_Some_iff split: if_splits)
qed

text \<open>The frames of all units, with offsets into the whole data.\<close>

function opus_units :: "bytes \<Rightarrow> nat \<Rightarrow> (int \<times> int) list \<Rightarrow> (unit + (int \<times> int) list) option" where
  "opus_units data off frames =
     (if off \<ge> length data then Some (Inr frames)
      else (case GetOpusHeader (drop off data) of
        None \<Rightarrow> None
      | Some None \<Rightarrow> Some (Inl ())
      | Some (Some (i, n)) \<Rightarrow>
          (case GetOpusFrame (drop (off + i) data) n of
             None \<Rightarrow> None
           | Some (Inl e) \<Rightarrow> Some (Inl e)
           | Some (Inr fs) \<Rightarrow>
               opus_units data (off + i + n) (frames @ map (\<lambda>(o', l). (int (off + i) + o', l)) fs))))"
  by pat_completeness auto

termination
  by (relation "measure (\<lambda>(data, off, _). length data - off)") (auto dest!: GetOpusHeader_progress)

declare opus_units.simps [simp del]

definition GetOpusFrameVector :: "bytes \<Rightarrow> (unit + (int \<times> int) list) option" where
  "GetOpusFrameVector data = opus_units data 0 []"

definition GetOpusExtraData :: "int \<Rightarrow> int \<Rightarrow> bytes" where
  "GetOpusExtraData clock_rate chan =
     [0x4f, 0x70, 0x75, 0x73, 0x48, 0x65, 0x61, 0x64, 1, of_int chan]
     @ Write2Bytes_le 0 @ Write4Bytes_le (of_int clock_rate) @ Write2Bytes_le 0 @ [0]"

end
