(* ===== verification/TsDemux.thy ===== *)
theory TsDemux
  imports Streamer NaluHeader OpusHeader
begin

text \<open>
  format/mpegts/mpegts_pub.hpp, mpegts_demux.hpp and mpegts_demux.cpp: the stage that turns a
  transport stream into packets.  \<open>DecodeUnit\<close> gets a pointer to 188 bytes, but reads where
  the lengths in them lead: \<open>p\<close> is the data from the unit to the end of the buffer, and
  \<open>None\<close> is a read past it.  Members that are never set are \<open>None\<close> in the model.  The text
  of the reports on the tables and the wait for the wall clock are not modelled.
\<close>

section \<open>Tables\<close>

record PID_INFO =
  pi_program_number :: u16
  pi_pid :: "u16 option"
  pi_network_id :: "u16 option"

record PatInfo =
  pat_table_id :: u8
  pat_section_syntax_indicator :: u8
  pat_section_length :: u16
  pat_transport_stream_id :: u16
  pat_version_number :: u8
  pat_current_next_indicator :: u8
  pat_section_number :: u8
  pat_last_section_number :: u8
  pid_vec :: "PID_INFO list"

record ES_INFO =
  descriptor_tag :: nat
  es_desc :: bytes

record STREAM_PID_INFO =
  si_stream_type :: u8
  si_elementary_PID :: u16
  si_ES_info_length :: u16
  es_info_vec :: "ES_INFO list"

record PmtInfo =
  pmt_table_id :: u8
  pmt_section_syntax_indicator :: u8
  pmt_section_length :: u16
  pmt_program_number :: u16
  pmt_version_number :: u8
  pmt_current_next_indicator :: u8
  pmt_section_number :: u8
  pmt_last_section_number :: u8
  pmt_PCR_PID :: u16
  pmt_program_info_length :: u16
  pmt_dscr :: bytes
  pid2steamtype :: "u16 \<rightharpoonup> u8"
  stream_pid_vec :: "STREAM_PID_INFO list"

record mpegts_demux = streamer +
  ts_pat :: PatInfo
  ts_pmt :: PmtInfo
  data_buffer_vec :: "bytes list"
  data_total :: nat
  last_pid :: u16
  last_dts :: u64
  last_pts :: u64
  opus_count :: int
  opus_dts :: int

definition new_MpegtsDemux :: "bytes \<Rightarrow> mpegts_demux" where
  "new_MpegtsDemux name = streamer.extend (new_streamer name [str ''re'' \<mapsto> str ''false''])
     \<lparr> ts_pat = \<lparr> pat_table_id = 0, pat_section_syntax_indicator = 0, pat_section_length = 0,
         pat_transport_stream_id = 0, pat_version_number = 0, pat_current_next_indicator = 0,
         pat_section_number = 0, pat_last_section_number = 0, pid_vec = [] \<rparr>,
       ts_pmt = \<lparr> pmt_table_id = 0, pmt_section_syntax_indicator = 0, pmt_section_length = 0,
         pmt_program_number = 0, pmt_version_number = 0, pmt_current_next_indicator = 0,
         pmt_section_number = 0, pmt_last_section_number = 0, pmt_PCR_PID = 0,
         pmt_program_info_length = 0, pmt_dscr = [], pid2steamtype = Map.empty, stream_pid_vec = [] \<rparr>,
       data_buffer_vec = [], data_total = 0, last_pid = 0, last_dts = 0, last_pts = 0,
       opus_count = 0, opus_dts = -1 \<rparr>"

definition ts_demux_AddOption :: "bytes \<Rightarrow> bytes \<Rightarrow> mpegts_demux \<Rightarrow> mpegts_demux option" where
  "ts_demux_AddOption key v s = put_option key v s"

definition ts_report :: "string \<Rightarrow> string \<Rightarrow> int list \<Rightarrow> mpegts_demux \<Rightarrow> mpegts_demux" where
  "ts_report ty fmt args s = Report ty fmt args s"

text \<open>\<open>(p[i] << 8 | p[i + 1]) & mask\<close>\<close>

definition rd16 :: "bytes \<Rightarrow> nat \<Rightarrow> u16 option" where
  "rd16 p i = Read2Bytes (drop i p)"

text \<open>
  The end of the adaptation field.  The fields in it are read and not used: \<open>f\<close> is its byte of
  flags.  The private data is copied, but the position is not moved behind it.
\<close>

definition adaptation_private :: "bytes \<Rightarrow> u8 \<Rightarrow> nat option" where
  "adaptation_private p f =
     (let pos = 6 + (if bit f 4 then 6 else 0) + (if bit f 3 then 6 else 0) + (if bit f 2 then 1 else 0) in
      if bit f 1 then do {
        n \<leftarrow> rd p pos;
        _ \<leftarrow> grab (unat n) (drop (pos + 1) p);
        Some (pos + 1) }
      else Some pos)"

definition adaptation_fields :: "bytes \<Rightarrow> u8 \<Rightarrow> unit option" where
  "adaptation_fields p f = do {
     pos \<leftarrow> adaptation_private p f;
     if bit f 0 then do { _ \<leftarrow> rd p pos; _ \<leftarrow> rd p (pos + 1); Some () } else Some () }"

definition adaptation_npos :: "bytes \<Rightarrow> u8 \<Rightarrow> nat option" where
  "adaptation_npos p control =
     (if control \<noteq> 2 \<and> control \<noteq> 3 then Some 4
      else do {
        len \<leftarrow> rd p 4;
        _ \<leftarrow> (if len = 0 then Some () else Option.bind (rd p 5) (adaptation_fields p));
        Some (5 + unat len) })"

text \<open>The loop over the programs of a PAT, up to \<open>limit\<close>.\<close>

function pat_entries :: "bytes \<Rightarrow> nat \<Rightarrow> int \<Rightarrow> PID_INFO list option" where
  "pat_entries p pos limit =
     (if int pos + 4 \<le> limit then
        (case (rd16 p pos, rd16 p (pos + 2)) of
           (Some pn, Some pid) \<Rightarrow>
             let pid = pid AND 0x1fff in
             map_option (\<lambda>es.
               \<lparr> pi_program_number = pn,
                 pi_pid = (if pn = 0 then None else Some pid),
                 pi_network_id = (if pn = 0 then Some pid else None) \<rparr> # es)
               (pat_entries p (pos + 4) limit)
         | _ \<Rightarrow> None)
      else Some [])"
  by pat_completeness auto

termination by (relation "measure (\<lambda>(p, pos, limit). nat (limit - int pos))") auto

declare pat_entries.simps [simp del]

definition parse_pat :: "bytes \<Rightarrow> bool \<Rightarrow> nat \<Rightarrow> mpegts_demux \<Rightarrow> (int \<times> mpegts_demux) option" where
  "parse_pat p start npos s = do {
     pos \<leftarrow> Some (if start then npos + 1 else npos);
     table_id \<leftarrow> rd p pos;
     f \<leftarrow> rd p (pos + 1);
     section \<leftarrow> rd16 p (pos + 1);
     stream_id \<leftarrow> rd16 p (pos + 3);
     v \<leftarrow> rd p (pos + 5);
     pn \<leftarrow> rd p (pos + 6);
     last \<leftarrow> rd p (pos + 7);
     pat \<leftarrow> Some ((ts_pat s)\<lparr>pat_table_id := table_id,
              pat_section_syntax_indicator := drop_bit 7 f AND 0x01, pat_section_length := section AND 0x0fff,
              pat_transport_stream_id := stream_id, pat_version_number := drop_bit 1 (v AND 0x3e),
              pat_current_next_indicator := v AND 0x01, pat_section_number := pn,
              pat_last_section_number := last\<rparr>);
     s \<leftarrow> Some (s\<lparr>ts_pat := pat\<rparr>);
     if table_id \<noteq> 0 then Some (-1, ts_report ''error'' ''pat tableid:0x%02x error, it must be 0x00'' [int (unat table_id)] s)
     else if 188 - int npos \<le> int (unat (pat_section_length pat)) + 3 then
       Some (-1, ts_report ''error'' ''pat section length:0x%d error, the left length:%d''
                   [int (unat table_id), 188 - int npos] s)
     else do {
       es \<leftarrow> pat_entries p (pos + 8) (int (unat (pat_section_length pat)) + int npos);
       Some (0, ts_report ''pat'' '''' [] (s\<lparr>ts_pat := pat\<lparr>pid_vec := es\<rparr>\<rparr>)) } }"

text \<open>
  The descriptors of one stream, and the position behind them, which may be behind \<open>limit\<close>.
  The text of a descriptor ends at its first zero byte.
\<close>

function descriptors :: "bytes \<Rightarrow> nat \<Rightarrow> nat \<Rightarrow> (ES_INFO list \<times> nat) option" where
  "descriptors p pos limit =
     (if pos < limit then
        (case (rd p pos, rd p (pos + 1)) of
           (Some tag, Some len) \<Rightarrow>
             (case grab (unat len) (drop (pos + 2) p) of
                None \<Rightarrow> None
              | Some d \<Rightarrow> map_option (\<lambda>(es, pos').
                  (\<lparr> descriptor_tag = unat tag, es_desc = takeWhile (\<lambda>b. b \<noteq> 0) d \<rparr> # es, pos'))
                  (descriptors p (pos + 2 + unat len) limit))
         | _ \<Rightarrow> None)
      else Some ([], pos))"
  by pat_completeness auto

termination by (relation "measure (\<lambda>(p, pos, limit). limit - pos)") auto

declare descriptors.simps [simp del]

lemma descriptors_pos: "descriptors p pos limit = Some (es, pos') \<Longrightarrow> pos \<le> pos'"
proof (induction p pos limit arbitrary: es pos' rule: descriptors.induct)
  case (1 p pos limit)
  show ?case
  proof (cases "pos < limit")
    case True
    with "1.prems" obtain tag len d es1 where x: "rd p pos = Some tag" "rd p (pos + 1) = Some len"
      "grab (unat len) (drop (pos + 2) p) = Some d" "descriptors p (pos + 2 + unat len) limit = Some (es1, pos')"
      by (subst (asm) descriptors.simps) (auto split: option.splits)
    from "1.IH" [OF True refl x(1,2,3,4)] show ?thesis by simp
  next
    case False
    with "1.prems" show ?thesis by (subst (asm) descriptors.simps) simp
  qed
qed

text \<open>The loop over the streams of a PMT, up to \<open>limit\<close>.\<close>

function pmt_entries :: "bytes \<Rightarrow> nat \<Rightarrow> nat \<Rightarrow> STREAM_PID_INFO list option" where
  "pmt_entries p pos limit =
     (if pos + 5 \<le> limit then
        (case (rd p pos, rd16 p (pos + 1), rd16 p (pos + 3)) of
           (Some stream_type, Some pid, Some len) \<Rightarrow>
             let len = len AND 0x0fff in
             if pos + 5 + unat len > limit then Some []
             else (case descriptors p (pos + 5) (pos + 5 + unat len) of
               None \<Rightarrow> None
             | Some (es, pos') \<Rightarrow> map_option (\<lambda>infos.
                 \<lparr> si_stream_type = stream_type, si_elementary_PID = pid AND 0x1fff,
                   si_ES_info_length = len, es_info_vec = es \<rparr> # infos)
                 (pmt_entries p pos' limit))
         | _ \<Rightarrow> None)
      else Some [])"
  by pat_completeness auto

termination
  by (relation "measure (\<lambda>(p, pos, limit). limit - pos)") (auto dest: descriptors_pos)

declare pmt_entries.simps [simp del]

text \<open>\<open>insert\<close> keeps the entry that is there.\<close>

definition stream_types :: "STREAM_PID_INFO list \<Rightarrow> (u16 \<rightharpoonup> u8)" where
  "stream_types infos = fold (\<lambda>i m. if m (si_elementary_PID i) = None
     then m(si_elementary_PID i \<mapsto> si_stream_type i) else m) infos Map.empty"

definition parse_pmt :: "bytes \<Rightarrow> bool \<Rightarrow> nat \<Rightarrow> mpegts_demux \<Rightarrow> (int \<times> mpegts_demux) option" where
  "parse_pmt p start npos s = do {
     pos \<leftarrow> Some (if start then npos + 1 else npos);
     table_id \<leftarrow> rd p pos;
     f \<leftarrow> rd p (pos + 1);
     section \<leftarrow> rd16 p (pos + 1);
     program \<leftarrow> rd16 p (pos + 3);
     v \<leftarrow> rd p (pos + 5);
     pn \<leftarrow> rd p (pos + 6);
     last \<leftarrow> rd p (pos + 7);
     pcr \<leftarrow> rd16 p (pos + 8);
     info_len \<leftarrow> rd16 p (pos + 10);
     pmt \<leftarrow> Some ((ts_pmt s)\<lparr>pmt_table_id := table_id,
              pmt_section_syntax_indicator := drop_bit 7 f AND 0x01, pmt_section_length := section AND 0x0fff,
              pmt_program_number := program, pmt_version_number := drop_bit 1 (v AND 0x3e),
              pmt_current_next_indicator := v AND 0x01, pmt_section_number := pn,
              pmt_last_section_number := last, pmt_PCR_PID := pcr AND 0x1fff,
              pmt_program_info_length := info_len AND 0x0fff\<rparr>);
     if table_id \<noteq> 0x02 then
       Some (-1, ts_report ''error'' ''pmt tableid(0x%02x) error, it must be 0x02'' [int (unat table_id)] (s\<lparr>ts_pmt := pmt\<rparr>))
     else do {
       n \<leftarrow> Some (unat (pmt_program_info_length pmt));
       dscr \<leftarrow> grab n (drop (pos + 12) p);
       infos \<leftarrow> pmt_entries p (pos + 12 + n) (unat (pmt_section_length pmt) + npos);
       Some (0, ts_report ''pmt'' '''' []
         (s\<lparr>ts_pmt := pmt\<lparr>pmt_dscr := dscr, stream_pid_vec := infos, pid2steamtype := stream_types infos\<rparr>\<rparr>)) } }"

definition IsPmt :: "u16 \<Rightarrow> mpegts_demux \<Rightarrow> bool" where
  "IsPmt pid s \<longleftrightarrow> list_ex (\<lambda>i. pi_program_number i \<noteq> 0 \<and> pi_pid i = Some pid) (pid_vec (ts_pat s))"

section \<open>Media\<close>

text \<open>Types that are not known leave the caller's values alone.\<close>

definition GetMediaInfoByStreamtype ::
  "u8 \<Rightarrow> MEDIA_PKT_TYPE \<times> MEDIA_CODEC_TYPE \<Rightarrow> MEDIA_PKT_TYPE \<times> MEDIA_CODEC_TYPE" where
  "GetMediaInfoByStreamtype streamtype old =
     (if streamtype = 0x0f then (MEDIA_AUDIO_TYPE, MEDIA_CODEC_AAC)
      else if streamtype = 0x1b then (MEDIA_VIDEO_TYPE, MEDIA_CODEC_H264)
      else if streamtype = 0x24 then (MEDIA_VIDEO_TYPE, MEDIA_CODEC_H265)
      else old)"

definition String2Lower :: "bytes \<Rightarrow> bytes" where
  "String2Lower = map (\<lambda>c. if 0x41 \<le> c \<and> c \<le> 0x5a then c + 0x20 else c)"

definition GetMediaInfoByPid :: "u16 \<Rightarrow> mpegts_demux \<Rightarrow> MEDIA_PKT_TYPE \<times> MEDIA_CODEC_TYPE" where
  "GetMediaInfoByPid pid s =
     (let unknown = (MEDIA_UNKOWN_TYPE, MEDIA_CODEC_UNKOWN);
          types = (case pid2steamtype (ts_pmt s) pid of
            None \<Rightarrow> unknown | Some st \<Rightarrow> GetMediaInfoByStreamtype st unknown)
      in if fst types \<noteq> MEDIA_UNKOWN_TYPE \<and> snd types \<noteq> MEDIA_CODEC_UNKOWN then types
         else if list_ex (\<lambda>info. si_elementary_PID info = pid \<and>
                   list_ex (\<lambda>es. String2Lower (es_desc es) = str ''opus'') (es_info_vec info))
                 (stream_pid_vec (ts_pmt s))
         then (MEDIA_AUDIO_TYPE, MEDIA_CODEC_OPUS) else types)"

text \<open>
  \<open>Output\<close>.  With the option \<open>re\<close> the code first sleeps until the packet's time (\<open>waiter_.Wait\<close>); this changes neither the
  packet nor what the model keeps of the state, and is left out.
\<close>

definition ts_sink :: "media_packet \<Rightarrow> mpegts_demux \<Rightarrow> mpegts_demux" where
  "ts_sink pkt s = sink_all pkt s"

text \<open>The NALUs of a video packet; a position of -1 reads in front of the data.\<close>

fun callback_nalus :: "bytes list \<Rightarrow> media_packet \<Rightarrow> mpegts_demux \<Rightarrow> mpegts_demux option" where
  "callback_nalus [] pkt s = Some s"
| "callback_nalus (d # ds) pkt s =
     (if length d < 5 then callback_nalus ds pkt s
      else (case GetNaluTypePos d of
        None \<Rightarrow> None
      | Some pos \<Rightarrow> (case (if pos < 0 then None else rd d (nat pos)) of
          None \<Rightarrow> None
        | Some ty \<Rightarrow>
            if H264_IS_AUD ty then callback_nalus ds pkt s
            else callback_nalus ds pkt (ts_sink
              ((copy_properties new_Media_Packet pkt)\<lparr>is_seq_hdr := H264_IS_SPS ty \<or> H264_IS_PPS ty,
                 is_key_frame := H264_IS_KEYFRAME ty, pkt_data := d\<rparr>) s))))"

text \<open>The Opus frames, 20 ms each; a frame outside the data is a read past it.\<close>

fun callback_opus :: "(int \<times> int) list \<Rightarrow> nat \<Rightarrow> media_packet \<Rightarrow> mpegts_demux \<Rightarrow> mpegts_demux option" where
  "callback_opus [] i pkt s = Some s"
| "callback_opus ((off, len) # fs) i pkt s =
     (case (if off < 0 \<or> len < 0 then None else grab (nat len) (drop (nat off) (pkt_data pkt))) of
        None \<Rightarrow> None
      | Some d \<Rightarrow>
          let t = dts pkt + 20 * int i in
          callback_opus fs (i + 1) pkt (ts_sink
            ((copy_properties new_Media_Packet pkt)\<lparr>pkt_data := d, dts := t, pts := t\<rparr>)
            (s\<lparr>opus_dts := opus_dts s + 20\<rparr>)))"

definition OnCallback :: "u16 \<Rightarrow> u64 \<Rightarrow> u64 \<Rightarrow> mpegts_demux \<Rightarrow> mpegts_demux option" where
  "OnCallback pid d_ts p_ts s =
     (if data_total s = 0 \<or> data_buffer_vec s = [] then Some s
      else let (media, codec) = GetMediaInfoByPid pid s;
               pkt = new_Media_Packet\<lparr>av_type := media, codec_type := codec, fmt_type := MEDIA_FORMAT_RAW,
                 dts := int (unat d_ts div 90), pts := int (unat p_ts div 90),
                 pkt_data := concat (data_buffer_vec s)\<rparr>;
               s = s\<lparr>data_buffer_vec := [], data_total := 0\<rparr>
        in if media = MEDIA_VIDEO_TYPE then
             (case AnnexB2Nalus (pkt_data pkt) of (ret, ds) \<Rightarrow>
                if ret then callback_nalus ds pkt s else Some s)
           else if media = MEDIA_AUDIO_TYPE \<and> codec = MEDIA_CODEC_OPUS then
             (let s = (if opus_dts s < 0 then s\<lparr>opus_dts := dts pkt\<rparr> else s) in
              case GetOpusFrameVector (pkt_data pkt) of
                None \<Rightarrow> None
              | Some (Inl _) \<Rightarrow> Some s
              | Some (Inr fs) \<Rightarrow> callback_opus fs 0 pkt (s\<lparr>opus_count := opus_count s + 1\<rparr>))
           else Some (ts_sink pkt s))"

text \<open>The size is a \<open>size_t\<close>; one that has wrapped is longer than any buffer.\<close>

definition InsertIntoDatabuf :: "bytes \<Rightarrow> nat \<Rightarrow> u16 \<Rightarrow> mpegts_demux \<Rightarrow> mpegts_demux option" where
  "InsertIntoDatabuf p n pid s = do {
     d \<leftarrow> grab n p;
     Some (s\<lparr>last_pid := pid, data_total := data_total s + n, data_buffer_vec := data_buffer_vec s @ [d]\<rparr>) }"

section \<open>PES packets\<close>

text \<open>
  A timestamp of five bytes.  The shifts are on \<open>int\<close>: bit 31 is its sign, and the assignment
  to \<open>uint64_t\<close> extends it.
\<close>

definition pes_timestamp :: "bytes \<Rightarrow> nat \<Rightarrow> u64 option" where
  "pes_timestamp p pos = do {
     b0 \<leftarrow> rd p pos; b1 \<leftarrow> rd p (pos + 1); b2 \<leftarrow> rd p (pos + 2); b3 \<leftarrow> rd p (pos + 3); b4 \<leftarrow> rd p (pos + 4);
     Some (scast (push_bit 30 (ucast (drop_bit 1 b0 AND 0x07)) OR push_bit 22 (ucast b1)
       OR push_bit 15 (ucast (drop_bit 1 b2 AND 0x7f)) OR push_bit 7 (ucast b3)
       OR ucast (drop_bit 1 b4 AND 0x7f) :: u32)) }"

text \<open>The position behind the extension, whose first byte is at \<open>pos\<close>.\<close>

definition pes_extension :: "bytes \<Rightarrow> nat \<Rightarrow> nat option" where
  "pes_extension p pos = do {
     f \<leftarrow> rd p pos;
     pos \<leftarrow> Some (pos + 1 + (if bit f 7 then 16 else 0) + (if bit f 5 then 2 else 0) + (if bit f 4 then 2 else 0));
     if bit f 0 then map_option (\<lambda>n. pos + 1 + unat (n AND 0x7f)) (rd p pos) else Some pos }"

text \<open>The position behind the optional fields, and the timestamps.\<close>

definition pes_fields :: "bytes \<Rightarrow> u8 \<Rightarrow> (nat \<times> u64 \<times> u64) option" where
  "pes_fields p f = do {
     (pos, d_ts, p_ts) \<leftarrow>
       (if drop_bit 6 f = 2 then do { t \<leftarrow> pes_timestamp p 9; Some (14, 0, t) }
        else if drop_bit 6 f = 3 then do { t \<leftarrow> pes_timestamp p 9; u \<leftarrow> pes_timestamp p 14; Some (19, u, t) }
        else Some (9, 0, 0));
     pos \<leftarrow> (if bit f 5 then map_option (\<lambda>_. pos + 6) (grab 6 (drop pos p)) else Some pos);
     pos \<leftarrow> (if bit f 4 then map_option (\<lambda>_. pos + 3) (grab 3 (drop pos p)) else Some pos);
     pos \<leftarrow> (if bit f 3 then map_option (\<lambda>_. pos + 1) (rd p pos) else Some pos);
     pos \<leftarrow> Some (if bit f 2 then pos + 1 else pos);
     pos \<leftarrow> Some (if bit f 1 then pos + 2 else pos);
     pos \<leftarrow> (if bit f 0 then pes_extension p pos else Some pos);
     Some (pos, d_ts, p_ts) }"

text \<open>
  The result is the return value, the offset and the size of the payload if there is one,
  and the timestamps.  \<open>p\<close> starts at the PES header; the size is computed on \<open>size_t\<close>.
\<close>

definition PesParse ::
  "bytes \<Rightarrow> nat \<Rightarrow> mpegts_demux \<Rightarrow> (nat \<times> (nat \<times> nat) option \<times> u64 \<times> u64 \<times> mpegts_demux) option" where
  "PesParse p npos s = do {
     b0 \<leftarrow> rd p 0; b1 \<leftarrow> rd p 1; b2 \<leftarrow> rd p 2;
     stream_id \<leftarrow> rd p 3;
     packet_len \<leftarrow> rd16 p 4;
     if b0 \<noteq> 0 \<or> b1 \<noteq> 0 \<or> b2 \<noteq> 1 then
       Some (255, None, 0, 0, ts_report ''error''
         ''packet_start_code_prefix:0x%08x error, and streamid:%d, pes packet length:%d''
         [int (unat b0) * 65536 + int (unat b1) * 256 + int (unat b2), int (unat stream_id), int (unat packet_len)] s)
     else if stream_id \<in> {188, 190, 191, 240, 241, 255, 242, 248} then
       Some (6, Some (6, unat (188 - (of_nat npos + 6) :: u64)), 0, 0, s)
     else do {
       b6 \<leftarrow> rd p 6;
       if b6 AND 0xc0 \<noteq> 0x80 then
         Some (255, None, 0, 0, ts_report ''error'' ''the first 2 bits:0x%02x error, it must be 0x80.''
           [int (unat (b6 AND 0xc0))] s)
       else do {
         f \<leftarrow> rd p 7;
         _ \<leftarrow> rd p 8;
         (pos, d_ts, p_ts) \<leftarrow> pes_fields p f;
         Some (pos, Some (pos, unat (188 - (of_nat npos + of_nat pos) :: u64)), d_ts, p_ts, s) } } }"

section \<open>Transport packets\<close>

text \<open>One stream whose PID is that of the packet; the outer \<open>Inl\<close> is the return of -1.\<close>

definition pes_unit ::
  "bytes \<Rightarrow> bool \<Rightarrow> nat \<Rightarrow> u16 \<Rightarrow> mpegts_demux \<Rightarrow> (mpegts_demux + mpegts_demux) option" where
  "pes_unit p start npos pid s =
     (if start then do {
        s \<leftarrow> OnCallback (last_pid s) (last_dts s) (last_pts s) s;
        (ret, payload, d_ts, p_ts, s) \<leftarrow> PesParse (drop npos p) npos s;
        if ret > 188 then Some (Inl (ts_report ''error'' ''pes length(%d) error'' [int ret] s))
        else do {
          s \<leftarrow> Some (s\<lparr>last_pts := p_ts, last_dts := (if d_ts = 0 then p_ts else d_ts)\<rparr>);
          (case payload of
             None \<Rightarrow> Some (Inr s)
           | Some (off, n) \<Rightarrow>
               if n > 0 then map_option Inr (InsertIntoDatabuf (drop (npos + off) p) n pid s) else Some (Inr s)) } }
      else map_option Inr (InsertIntoDatabuf (drop npos p) (unat (188 - of_nat npos :: u64)) pid s))"

fun pes_units ::
  "STREAM_PID_INFO list \<Rightarrow> bytes \<Rightarrow> bool \<Rightarrow> nat \<Rightarrow> u16 \<Rightarrow> mpegts_demux \<Rightarrow> (int \<times> mpegts_demux) option" where
  "pes_units [] p start npos pid s = Some (0, s)"
| "pes_units (i # is) p start npos pid s =
     (if si_elementary_PID i = pid then
        (case pes_unit p start npos pid s of
           None \<Rightarrow> None
         | Some (Inl s) \<Rightarrow> Some (-1, s)
         | Some (Inr s) \<Rightarrow> pes_units is p start npos pid s)
      else pes_units is p start npos pid s)"

definition DecodeUnit :: "bytes \<Rightarrow> mpegts_demux \<Rightarrow> (int \<times> mpegts_demux) option" where
  "DecodeUnit p s = do {
     b1 \<leftarrow> rd p 1;
     pid \<leftarrow> rd16 p 1;
     b3 \<leftarrow> rd p 3;
     start \<leftarrow> Some (bit b1 6);
     pid \<leftarrow> Some (pid AND 0x1fff);
     control \<leftarrow> Some (drop_bit 4 (b3 AND 0x30));
     npos \<leftarrow> adaptation_npos p control;
     if control \<noteq> 1 \<and> control \<noteq> 3 then Some (0, s)
     else if pid = 0x00 then parse_pat p start npos s
     else if pid \<in> {0x01, 0x02, 0x03, 0x11} then Some (0, s)
     else if IsPmt pid s then parse_pmt p start npos s
     else if pid \<in> {0x0042, 0x1fff} then Some (0, s)
     else pes_units (stream_pid_vec (ts_pmt s)) p start npos pid s }"

text \<open>The loop over the transport packets of a buffer; \<open>p\<close> is the buffer from the next one on.\<close>

primrec decode_units :: "nat \<Rightarrow> bytes \<Rightarrow> int \<Rightarrow> mpegts_demux \<Rightarrow> (int \<times> mpegts_demux) option" where
  "decode_units 0 p ret s = Some (ret, s)"
| "decode_units (Suc n) p ret s =
     (if p ! 0 \<noteq> 0x47 then decode_units n (drop 188 p) ret s
      else (case DecodeUnit p s of
        None \<Rightarrow> None
      | Some (ret, s) \<Rightarrow> if ret < 0 then Some (ret, s) else decode_units n (drop 188 p) ret s))"

definition ts_Decode :: "bytes \<Rightarrow> mpegts_demux \<Rightarrow> (int \<times> mpegts_demux) option" where
  "ts_Decode data s =
     (if length data < 188 \<or> length data mod 188 \<noteq> 0 then
        Some (-1, ts_report ''error'' ''mpegts len must be divided d evenly by 188'' [] s)
      else decode_units (length data div 188) data (-1) s)"

definition ts_demux_SourceData :: "media_packet \<Rightarrow> mpegts_demux \<Rightarrow> (int \<times> mpegts_demux) option" where
  "ts_demux_SourceData pkt s = ts_Decode (pkt_data pkt) s"

end
