(* ===== verification/TsPipeline.thy ===== *)
theory TsPipeline
  imports TsMux TsDemux
begin

text \<open>
  The transport stream muxer and demuxer as stages of one pipeline: the payloads of the
  transport packets that \<open>WritePes\<close> makes of one packet, what the demuxer reads from them,
  the two tables, and the key frames for which the packetisation fails.
\<close>

section \<open>A transport packet as the demuxer sees it\<close>

definition ts_packet_of :: "bool \<Rightarrow> u16 \<Rightarrow> bytes \<Rightarrow> bytes \<Rightarrow> bool" where
  "ts_packet_of first pid p payload \<longleftrightarrow>
     length p = 188 \<and> p ! 0 = 0x47 \<and> bit (p ! 1) 6 = first \<and>
     map_option (\<lambda>w. w AND 0x1fff) (rd16 p 1) = Some pid \<and>
     (\<exists>npos. drop_bit 4 (p ! 3 AND 0x30) \<in> {1, 3} \<and>
        adaptation_npos p (drop_bit 4 (p ! 3 AND 0x30)) = Some npos \<and> npos \<le> 188 \<and> payload = drop npos p)"

lemma rd16_longer [longer]: "rd16 p i = Some x \<Longrightarrow> rd16 (p @ d) i = Some x"
proof -
  assume a: "rd16 p i = Some x"
  then have "drop i (p @ d) = drop i p @ d" using Read_length(1) by (fastforce simp: rd16_def)
  with a show ?thesis by (simp add: rd16_def Read_append(4) del: drop_append)
qed

lemma adaptation_private_longer [longer]:
  assumes "adaptation_private p f = Some pos"
  shows "adaptation_private (p @ d) f = Some pos"
proof (cases "bit f 1")
  case True
  let ?pos = "6 + (if bit f 4 then 6 else 0) + (if bit f 3 then 6 else 0) + (if bit f 2 then 1 else 0 :: nat)"
  from True assms obtain m x where m: "rd p ?pos = Some m" "grab (unat m) (drop (?pos + 1) p) = Some x" "pos = ?pos + 1"
    unfolding adaptation_private_def Let_def by (auto simp only: bind_Some_iff if_True option.inject)
  from m(1) have "drop (?pos + 1) (p @ d) = drop (?pos + 1) p @ d" by (intro drop_longer) (simp add: rd_Some_iff)
  with True m show ?thesis
    unfolding adaptation_private_def Let_def
    by (simp only: if_True rd_longer [OF m(1)] Option.bind.bind_lunit grab_longer [OF m(2)])
next
  case False
  with assms show ?thesis by (simp add: adaptation_private_def)
qed

lemma adaptation_fields_longer [longer]:
  "adaptation_fields p f = Some () \<Longrightarrow> adaptation_fields (p @ d) f = Some ()"
  by (auto simp: adaptation_fields_def bind_Some_iff longer split: if_splits)

lemma adaptation_npos_longer [longer]:
  assumes "adaptation_npos p c = Some n"
  shows "adaptation_npos (p @ d) c = Some n"
proof (cases "c \<noteq> 2 \<and> c \<noteq> 3")
  case True
  with assms show ?thesis by (simp add: adaptation_npos_def)
next
  case False
  note e = adaptation_npos_def [of _ c, unfolded if_not_P [OF False]]
  from assms obtain len where l: "rd p 4 = Some len" by (auto simp: e bind_Some_iff)
  show ?thesis
  proof (cases "len = 0")
    case True
    with assms l show ?thesis by (simp add: e rd_longer [OF l])
  next
    case len: False
    with assms l obtain f where f: "rd p 5 = Some f" "adaptation_fields p f = Some ()"
      by (auto simp: e bind_Some_iff)
    with assms l len show ?thesis
      by (simp add: e rd_longer [OF l] rd_longer [OF f(1)] adaptation_fields_longer [OF f(2)])
  qed
qed

lemma pid_bytes:
  fixes pid :: u16
  assumes "pid AND 0x1fff = pid"
  shows "bit ((ucast (drop_bit 8 pid) :: u8) OR (if first then 0x40 else 0)) 6 = first"
    and "(push_bit 8 (ucast ((ucast (drop_bit 8 pid) :: u8) OR (if first then 0x40 else 0))) OR ucast (ucast pid :: u8) :: u16) AND 0x1fff = pid"
proof -
  have m: "0x1fff = (mask 13 :: u16)" "0x40 = (push_bit 6 1 :: u8)" by (simp_all add: mask_eq_exp_minus_1)
  have p: "bit pid n \<longleftrightarrow> n < 13 \<and> bit pid n" for n
    using arg_cong [OF assms, of "\<lambda>w. bit w n"] by (auto simp: m bit_simps)
  have "\<not> bit pid 14" using p [of 14] by simp
  then show "bit ((ucast (drop_bit 8 pid) :: u8) OR (if first then 0x40 else 0)) 6 = first"
    by (simp add: bit_simps)
  show "(push_bit 8 (ucast ((ucast (drop_bit 8 pid) :: u8) OR (if first then 0x40 else 0))) OR ucast (ucast pid :: u8) :: u16) AND 0x1fff = pid"
  proof (rule bit_word_eqI)
    fix n assume "n < LENGTH(16)"
    then show "bit ((push_bit 8 (ucast ((ucast (drop_bit 8 pid) :: u8) OR (if first then 0x40 else 0))) OR ucast (ucast pid :: u8) :: u16) AND 0x1fff) n = bit pid n"
      using p [of n] unfolding m by (auto simp: bit_simps simp del: push_bit_of_1)
  qed
qed

lemma head_control:
  fixes cc :: u8
  shows "drop_bit 4 (((0x10 OR (cc AND 0x0f)) OR (if a then 0x20 else 0)) AND 0x30) = (if a then 3 else 1)"
proof -
  have "(cc AND 0x0f) AND 0x30 = (0 :: u8)" by (simp add: and.assoc)
  then show ?thesis by (simp add: word_bw_comms word_ao_dist)
qed

lemma ts_packet_of_bytes:
  assumes "pid AND 0x1fff = pid" "length r = 184"
    and "adaptation_npos ([0x47, ucast (drop_bit 8 pid) OR (if first then 0x40 else 0), ucast pid,
      (0x10 OR (cc AND 0x0f)) OR (if a then 0x20 else 0)] @ r) (if a then 3 else 1) = Some n"
    and "4 \<le> n" "n \<le> 188" "payload = drop (n - 4) r"
  shows "ts_packet_of first pid ([0x47, ucast (drop_bit 8 pid) OR (if first then 0x40 else 0), ucast pid,
      (0x10 OR (cc AND 0x0f)) OR (if a then 0x20 else 0)] @ r) payload"
proof -
  let ?p = "[0x47, ucast (drop_bit 8 pid) OR (if first then 0x40 else 0), ucast pid,
      (0x10 OR (cc AND 0x0f)) OR (if a then 0x20 else 0)] @ r"
  have "rd16 ?p 1 = Some (push_bit 8 (ucast ((ucast (drop_bit 8 pid) :: u8) OR (if first then 0x40 else 0)))
      OR ucast (ucast pid :: u8))"
    by (simp add: rd16_def Read2Bytes_Cons)
  then have "map_option (\<lambda>w. w AND 0x1fff) (rd16 ?p 1) = Some pid"
    using pid_bytes(2) [OF assms(1), of first] by simp
  moreover have "?p ! 3 = (0x10 OR (cc AND 0x0f)) OR (if a then 0x20 else 0)" "bit (?p ! 1) 6 = first"
    using pid_bytes(1) [OF assms(1), of first] by (simp_all add: numeral_eq_Suc)
  moreover have "payload = drop n ?p" using assms(4,6) by (simp add: drop_Cons split: nat.splits)
  ultimately show ?thesis
    unfolding ts_packet_of_def using assms(2,3,5) head_control [of cc a] by (intro conjI exI [of _ n]) auto
qed

lemma ts_packet_of_plain:
  assumes "pid AND 0x1fff = pid" "length payload = 184"
  shows "ts_packet_of first pid (ts_head first False pid cc t False @ payload) payload"
  using ts_packet_of_bytes [OF assms, of first cc False 4 payload]
  by (simp add: ts_head_def adaptation_npos_def)

lemma ts_packet_of_filled:
  assumes "pid AND 0x1fff = pid" "length payload = 184 - k" "0 < k" "k \<le> 184"
  shows "ts_packet_of first pid (ts_head first False pid cc t True @ take k (AdaptationBufInit 184 k) @ payload) payload"
proof (cases "k = 1")
  case True
  with assms(1,2) ts_packet_of_bytes [of pid "0 # payload" first cc True 5 payload] show ?thesis
    by (simp add: ts_head_def AdaptationBufInit_def adaptation_npos_def)
next
  case False
  let ?f = "of_int (int k - 1) # 0 # replicate (k - 2) 0xff :: bytes"
  have f: "take k (AdaptationBufInit 184 k) = ?f"
    using assms(3,4) False by (cases k; cases "k - 1") (auto simp: AdaptationBufInit_def min_def)
  have u: "unat (of_int (int k - 1) :: u8) = k - 1"
  proof -
    have "(of_int (int k - 1) :: u8) = of_nat (k - 1)" using assms(3) by (simp add: of_nat_diff)
    then show ?thesis using assms(4) by (simp add: unat_small_u8)
  qed
  have "(of_int (int k - 1) :: u8) \<noteq> 0"
  proof
    assume "(of_int (int k - 1) :: u8) = 0"
    with u have "k - 1 = 0" by simp
    with assms(3) False show False by simp
  qed
  moreover have "\<not> bit (0 :: u8) n" for n by simp
  ultimately have "adaptation_npos ([0x47, ucast (drop_bit 8 pid) OR (if first then 0x40 else 0), ucast pid,
      (0x10 OR (cc AND 0x0f)) OR 0x20] @ ?f @ payload) 3 = Some (5 + (k - 1))"
    using u by (simp add: adaptation_npos_def adaptation_fields_def adaptation_private_def)
  moreover have "5 + (k - 1) - 4 = length ?f" using assms(3) False by simp
  then have "payload = drop (5 + (k - 1) - 4) (?f @ payload)" by (simp only: drop_eq_append)
  ultimately show ?thesis
    using ts_packet_of_bytes [OF assms(1), of "?f @ payload" first cc True "5 + (k - 1)" payload] assms(2,3,4) False
    by (simp add: ts_head_def f del: drop_append drop_Cons' of_int_diff)
qed

lemma ts_packet_of_pcr:
  assumes "pid AND 0x1fff = pid" "length payload = 176"
  shows "ts_packet_of first pid (ts_head first True pid cc t b @ payload) payload"
proof -
  have l: "length (WritePcr t) = 6" by (simp add: WritePcr_def)
  have b: "bit (0x50 :: u8) 4" "\<not> bit (0x50 :: u8) 3" "\<not> bit (0x50 :: u8) 2" "\<not> bit (0x50 :: u8) 1" "\<not> bit (0x50 :: u8) 0"
    by simp_all
  have "adaptation_npos ([0x47, ucast (drop_bit 8 pid) OR (if first then 0x40 else 0), ucast pid,
      (0x10 OR (cc AND 0x0f)) OR 0x20] @ [7, 0x50] @ WritePcr t @ payload) 3 = Some 12"
    by (simp add: adaptation_npos_def adaptation_fields_def adaptation_private_def b)
  then show ?thesis
    using ts_packet_of_bytes [OF assms(1), of "[7, 0x50] @ WritePcr t @ payload" first cc True 12 payload] assms(2) l
    by (simp add: ts_head_def)
qed

section \<open>The packets of one frame\<close>

lemma length_ts_head: "length (ts_head first pcr pid cc t a) = (if pcr then 12 else 4)"
  by (simp add: ts_head_def WritePcr_def)

text \<open>A key frame of video must not fall short of the room behind the clock reference.\<close>

definition pes_fits :: "bool \<Rightarrow> nat \<Rightarrow> bool" where
  "pes_fits pcr len \<longleftrightarrow> (pcr \<longrightarrow> len = 176 \<or> 184 \<le> len)"

lemma ts_unit_start:
  assumes len: "len = length hdr + length data" and h: "length hdr \<le> 19" "0 < length hdr"
    and fits: "pes_fits pcr len"
  shows "\<exists>fill. ts_unit True pcr pid cc t hdr data len = Some
      (ts_head True pcr pid cc t (len < 184) @ fill @ hdr @ take (min len (184 - length fill - (if pcr then 8 else 0)) - length hdr) data,
       length hdr, min len (184 - length fill - (if pcr then 8 else 0)) - length hdr) \<and>
    fill = (if pcr \<or> 184 \<le> len then [] else take (184 - len) (AdaptationBufInit 184 (184 - len)))"
proof (cases "184 \<le> len")
  case True
  let ?n = "184 - (if pcr then 8 else 0) - length hdr"
  have n: "?n \<le> length data" using True len by simp
  then have g: "grab ?n data = Some (take ?n data)" by (simp add: grab_Some_iff)
  have u: "unat ((184 - (if pcr then 8 else 0)) - of_nat (length hdr) :: u8) = ?n"
    using h(1) by (auto simp: unat_sub word_le_nat_alt unat_small_u8)
  show ?thesis
    using True h n g u
    by (cases pcr) (simp_all add: ts_unit_def Let_def length_ts_head ts_codes min_def)
next
  case False
  note r = unat_rest_u8 [of len] unat_small_u8 [of len]
  show ?thesis
  proof (cases pcr)
    case True
    with fits False have l: "len = 176" by (simp add: pes_fits_def)
    have g: "grab (length data) data = Some data" by (simp add: grab_Some_iff)
    have u: "unat ((176 :: u8) - of_nat (length hdr)) = length data" "length hdr \<le> 176"
      using h(1) l len by (simp_all add: unat_sub word_le_nat_alt unat_small_u8)
    have d: "176 - length hdr = length data" "length hdr + length data = 176" using l len by simp_all
    show ?thesis using True l g u d h
      by (simp add: ts_unit_def Let_def length_ts_head ts_codes)
  next
    case np: False
    have g: "grab (length data) data = Some data" by (simp add: grab_Some_iff)
    have u: "unat ((of_nat len :: u8) - of_nat (length hdr)) = length data"
      using False len h by (simp add: unat_sub word_le_nat_alt unat_small_u8)
    have f: "length (take (184 - len) (AdaptationBufInit 184 (184 - len))) = 184 - len"
      using False by (auto simp: AdaptationBufInit_def)
    have d: "\<not> 188 \<le> 4 + (184 - len)" "188 - (4 + (184 - len)) = len" "len - length hdr = length data" "len \<noteq> 0"
      using False len h by linarith+
    have m: "min (length hdr) len = length hdr" "188 + len - len = 188" "length hdr + length data = len"
      using len by simp_all
    show ?thesis using np False r g u f d h m
      by (simp add: ts_unit_def Let_def length_ts_head ts_codes)
  qed
qed

text \<open>What the muxer's sinks get for the packets \<open>ps\<close> of \<open>pkt\<close>.\<close>

definition ts_sunk :: "media_packet \<Rightarrow> bytes list \<Rightarrow> (bytes \<times> nat) list \<Rightarrow> (nat \<times> media_packet) list" where
  "ts_sunk pkt ps sinks = concat (map (\<lambda>p. map (\<lambda>(_, i). (i,
     (copy_properties new_Media_Packet pkt)\<lparr>fmt_type := MEDIA_FORMAT_MPEGTS, pkt_data := p\<rparr>)) sinks) ps)"

definition ts_after :: "media_packet \<Rightarrow> bytes list \<Rightarrow> mpegts_mux \<Rightarrow> mpegts_mux \<Rightarrow> bool" where
  "ts_after pkt ps s s' \<longleftrightarrow> (\<exists>vc ac. s' = s\<lparr>video_cc := vc, audio_cc := ac, sunk := sunk s @ ts_sunk pkt ps (sinkers s)\<rparr>)"

lemma ts_after_Nil: "ts_after pkt [] s s"
  unfolding ts_after_def by (rule exI [of _ "video_cc s"], rule exI [of _ "audio_cc s"]) (simp add: ts_sunk_def)

lemma ts_after_step:
  assumes "bump_cc is_video s = (cc, s1)" "ts_after pkt ps (TsOutput (Some pkt) p s1) s'"
  shows "ts_after pkt (p # ps) s s'"
proof -
  from assms(2) obtain vc ac where "s' = (TsOutput (Some pkt) p s1)\<lparr>video_cc := vc, audio_cc := ac,
      sunk := sunk (TsOutput (Some pkt) p s1) @ ts_sunk pkt ps (sinkers s1)\<rparr>"
    by (auto simp: ts_after_def TsOutput_def sink_all_def)
  with assms(1) have "s' = s\<lparr>video_cc := vc, audio_cc := ac, sunk := sunk s @ ts_sunk pkt (p # ps) (sinkers s)\<rparr>"
    by (auto simp: ts_sunk_def bump_cc_def TsOutput_def sink_all_def split: if_splits)
  then show ?thesis unfolding ts_after_def by blast
qed

lemma pes_loop_rest:
  assumes "pid AND 0x1fff = pid" "len = length (drop w data)"
  shows "\<exists>ps payloads s'. pes_loop False pkt is_video pid t hdr data len w s = Some s' \<and>
    list_all2 (ts_packet_of False pid) ps payloads \<and> concat payloads = drop w data \<and> ts_after pkt ps s s'"
  using assms(2)
proof (induction len arbitrary: w s rule: less_induct)
  case (less len)
  show ?case
  proof (cases "len = 0")
    case True
    then show ?thesis using less.prems ts_after_Nil by (subst pes_loop.simps) (auto intro!: exI [of _ "[]"])
  next
    case False
    obtain cc s1 where c: "bump_cc is_video s = (cc, s1)" by fastforce
    let ?n = "min 184 len" and ?k = "184 - min 184 len"
    let ?d = "take ?n (drop w data)"
    let ?p = "ts_head False False pid cc t (len < 184) @ take ?k (AdaptationBufInit 184 ?k) @ ?d"
    have g: "grab ?n (drop w data) = Some ?d" using less.prems by (simp add: grab_Some_iff)
    have u: "ts_unit False False pid cc t hdr (drop w data) len = Some (?p, 0, ?n)"
      using False g by (simp add: ts_unit_next Let_def ts_head_def)
    have ld: "length ?d = ?n" using less.prems by simp
    have pk: "ts_packet_of False pid ?p ?d"
    proof (cases "len < 184")
      case True
      then show ?thesis
        using ts_packet_of_filled [OF assms(1), of ?d ?k False cc t] ld False by simp
    next
      case ge: False
      then show ?thesis using ts_packet_of_plain [OF assms(1), of ?d False cc t] ld by simp
    qed
    have "len - ?n < len" "len - ?n = length (drop (w + ?n) data)" using False less.prems by auto
    from less.IH [OF this, of "TsOutput (Some pkt) ?p s1"] obtain ps payloads s' where
      r: "pes_loop False pkt is_video pid t hdr data (len - ?n) (w + ?n) (TsOutput (Some pkt) ?p s1) = Some s'"
        "list_all2 (ts_packet_of False pid) ps payloads" "concat payloads = drop (w + ?n) data"
        "ts_after pkt ps (TsOutput (Some pkt) ?p s1) s'" by blast
    have "pes_loop False pkt is_video pid t hdr data len w s = Some s'"
      using False r(1) by (subst pes_loop.simps) (simp add: c u)
    moreover have "?d @ drop (w + ?n) data = drop w data" by (metis append_take_drop_id drop_drop add.commute)
    ultimately show ?thesis
      using r(2,3) pk ts_after_step [OF c r(4)]
      by (intro exI [of _ "?p # ps"] exI [of _ "?d # payloads"] exI [of _ s']) simp
  qed
qed

definition pes_pid :: "media_packet \<Rightarrow> mpegts_mux \<Rightarrow> u16" where
  "pes_pid pkt s = (if av_type pkt = MEDIA_VIDEO_TYPE then video_pid s else audio_pid s)"

definition pes_hdr :: "media_packet \<Rightarrow> mpegts_mux \<Rightarrow> bytes" where
  "pes_hdr pkt s = WritePesHeader (length (pkt_data pkt)) (av_type pkt = MEDIA_VIDEO_TYPE) (dts pkt * 90) (pts pkt * 90) s"

lemma length_pes_hdr: "length (pes_hdr pkt s) = (if av_type pkt = MEDIA_VIDEO_TYPE \<and> dts pkt \<noteq> pts pkt then 19 else 14)"
  by (simp add: pes_hdr_def WritePesHeader_def WriteTs_def Let_def)

lemma WritePes_packets:
  assumes pid: "pes_pid pkt s AND 0x1fff = pes_pid pkt s"
    and fits: "pes_fits (av_type pkt = MEDIA_VIDEO_TYPE \<and> is_key_frame pkt) (length (pes_hdr pkt s) + length (pkt_data pkt))"
  shows "\<exists>p d ps payloads s'. WritePes pkt s = Some s' \<and> ts_packet_of True (pes_pid pkt s) p (pes_hdr pkt s @ d) \<and>
    list_all2 (ts_packet_of False (pes_pid pkt s)) ps payloads \<and> d @ concat payloads = pkt_data pkt \<and>
    ts_after pkt (p # ps) s s'"
proof -
  let ?v = "av_type pkt = MEDIA_VIDEO_TYPE" and ?pid = "pes_pid pkt s" and ?hdr = "pes_hdr pkt s"
  let ?data = "pkt_data pkt" and ?t = "dts pkt * 90"
  define pcr where "pcr \<longleftrightarrow> ?v \<and> is_key_frame pkt"
  let ?len = "length ?data + length ?hdr"
  have h: "length ?hdr \<le> 19" "0 < length ?hdr" by (simp_all add: length_pes_hdr)
  obtain cc s1 where c: "bump_cc ?v s = (cc, s1)" by fastforce
  have l: "?len = length ?hdr + length ?data" by simp
  have f: "pes_fits pcr ?len" using fits by (simp add: add.commute pcr_def)
  from ts_unit_start [OF l h f, of ?pid cc ?t] obtain fill where
    u: "ts_unit True pcr ?pid cc ?t ?hdr ?data ?len = Some
      (ts_head True pcr ?pid cc ?t (?len < 184) @ fill @ ?hdr @ take (min ?len (184 - length fill - (if pcr then 8 else 0)) - length ?hdr) ?data,
       length ?hdr, min ?len (184 - length fill - (if pcr then 8 else 0)) - length ?hdr)"
    and fl: "fill = (if pcr \<or> 184 \<le> ?len then [] else take (184 - ?len) (AdaptationBufInit 184 (184 - ?len)))"
    by blast
  define n where "n = min ?len (184 - length fill - (if pcr then 8 else 0)) - length ?hdr"
  let ?d = "take n ?data"
  let ?p = "ts_head True pcr ?pid cc ?t (?len < 184) @ fill @ ?hdr @ ?d"
  have fill: "length fill = (if pcr \<or> 184 \<le> ?len then 0 else 184 - ?len)"
    using fl by (auto simp: AdaptationBufInit_def)
  have ld: "length (?hdr @ ?d) = 184 - length fill - (if pcr then 8 else 0)"
    using f h(1) fill by (auto simp: n_def pes_fits_def)
  have pk: "ts_packet_of True ?pid ?p (?hdr @ ?d)"
  proof (cases pcr)
    case True
    then show ?thesis using fl ld ts_packet_of_pcr [OF pid, of "?hdr @ ?d" True cc ?t "?len < 184"] by simp
  next
    case np: False
    show ?thesis
    proof (cases "184 \<le> ?len")
      case True
      then show ?thesis using np fl ld ts_packet_of_plain [OF pid, of "?hdr @ ?d" True cc ?t] by simp
    next
      case False
      then show ?thesis
        using np fl fill ld h(2) ts_packet_of_filled [OF pid, of "?hdr @ ?d" "184 - ?len" True cc ?t] by simp
    qed
  qed
  have "?len - length ?hdr - n = length (drop n ?data)" by simp
  from pes_loop_rest [OF pid this, of pkt ?v ?t ?hdr "TsOutput (Some pkt) ?p s1"] obtain ps payloads s' where
    r: "pes_loop False pkt ?v ?pid ?t ?hdr ?data (?len - length ?hdr - n) n (TsOutput (Some pkt) ?p s1) = Some s'"
      "list_all2 (ts_packet_of False ?pid) ps payloads" "concat payloads = drop n ?data"
      "ts_after pkt ps (TsOutput (Some pkt) ?p s1) s'" by blast
  have ne: "?hdr \<noteq> []" using h by auto
  moreover have "WritePes pkt s = pes_loop True pkt ?v ?pid ?t ?hdr ?data ?len 0 s"
    by (simp add: WritePes_def Let_def pes_pid_def pes_hdr_def)
  ultimately have "WritePes pkt s = Some s'"
    using r(1) u [folded n_def] by (subst (asm) pes_loop.simps) (simp add: c pcr_def ne)
  then show ?thesis
    using pk r(2,3) ts_after_step [OF c r(4)] by (intro exI [of _ ?p] exI [of _ ?d] exI [of _ ps] exI [of _ payloads] exI [of _ s']) simp
qed

section \<open>Timestamps\<close>

definition ts_word :: "u8 \<Rightarrow> u8 \<Rightarrow> u8 \<Rightarrow> u8 \<Rightarrow> u8 \<Rightarrow> u32" where
  "ts_word b0 b1 b2 b3 b4 = push_bit 30 (ucast (drop_bit 1 b0 AND 0x07)) OR push_bit 22 (ucast b1)
       OR push_bit 15 (ucast (drop_bit 1 b2 AND 0x7f)) OR push_bit 7 (ucast b3)
       OR ucast (drop_bit 1 b4 AND 0x7f)"

lemma bit_ts_word:
  assumes "n < 32"
  shows "bit (ts_word b0 b1 b2 b3 b4) n \<longleftrightarrow>
    (if n < 7 then bit b4 (n + 1) else if n < 15 then bit b3 (n - 7)
     else if n < 22 then bit b2 (n - 14) else if n < 30 then bit b1 (n - 22) else bit b0 (n - 29))"
proof -
  have m: "0x07 = (mask 3 :: u8)" "0x7f = (mask 7 :: u8)" by (simp_all add: mask_eq_exp_minus_1)
  have e: "\<not> bit b n" if "8 \<le> n" for n and b :: u8 using that bit_imp_le_length [of b n] by auto
  have c: "Suc (n - k) = n - (k - 1)" if "k \<le> n" "0 < k" for k using that by simp
  show ?thesis
    using assms unfolding ts_word_def m
    by (auto simp: bit_simps c e not_less)
qed

lemma ts_bytes_word:
  assumes "ts \<le> 0x1ffffffff"
  shows "\<exists>b0 b1 b2 b3 b4. WriteTs flag ts = [b0, b1, b2, b3, b4] \<and> ts_word b0 b1 b2 b3 b4 = of_int ts"
proof -
  let ?v1 = "push_bit 4 (ucast flag) OR push_bit 1 (of_int (drop_bit 30 ts) AND 0x07) OR 1 :: u32"
  let ?v2 = "push_bit 1 (of_int (drop_bit 15 ts) AND 0x7fff) OR 1 :: u32"
  let ?v3 = "push_bit 1 (of_int (ts AND 0x7fff)) OR 1 :: u32"
  have m: "0x07 = (mask 3 :: u32)" "0x7fff = (mask 15 :: u32)" "0x7fff = (mask 15 :: int)"
    by (simp_all add: mask_eq_exp_minus_1)
  have of_int_take: "(of_int (take_bit 15 ts) :: u32) = take_bit 15 (of_int ts)"
    by (rule bit_word_eqI) (auto simp: bit_simps)
  have v1: "bit ?v1 n \<longleftrightarrow> bit ts (n + 29)" if "1 \<le> n" "n < 4" for n
    using that unfolding m bit_or_iff bit_push_bit_iff take_bit_eq_mask [symmetric] of_int_take
    by (auto simp: bit_simps bit_take_bit_iff add.commute)
  have v2: "bit ?v2 n \<longleftrightarrow> bit ts (n + 14)" if "1 \<le> n" "n < 16" for n
    using that unfolding m bit_or_iff bit_push_bit_iff take_bit_eq_mask [symmetric] of_int_take
    by (auto simp: bit_simps bit_take_bit_iff add.commute)
  have v3: "bit ?v3 n \<longleftrightarrow> bit ts (n - 1)" if "1 \<le> n" "n < 16" for n
    using that unfolding m bit_or_iff bit_push_bit_iff take_bit_eq_mask [symmetric] of_int_take
    by (auto simp: bit_simps bit_take_bit_iff add.commute)
  define w1 w2 w3 where "w1 = ?v1" and "w2 = ?v2" and "w3 = ?v3"
  have "ts_word (ucast w1) (ucast (drop_bit 8 w2)) (ucast w2) (ucast (drop_bit 8 w3)) (ucast w3) = of_int ts"
  proof (rule bit_word_eqI)
    fix n assume n: "n < LENGTH(32)"
    show "bit (ts_word (ucast w1) (ucast (drop_bit 8 w2)) (ucast w2) (ucast (drop_bit 8 w3)) (ucast w3)) n
        = bit (of_int ts :: u32) n"
      using n v1 [folded w1_def, of "n - 29"] v2 [folded w2_def, of "n - 14"] v3 [folded w3_def, of "n + 1"]
      unfolding bit_ts_word [OF n [simplified]]
      by (auto simp: bit_simps)
  qed
  moreover have "WriteTs flag ts = [ucast w1, ucast (drop_bit 8 w2), ucast w2, ucast (drop_bit 8 w3), ucast w3]"
    using assms by (simp add: WriteTs_def Let_def w1_def w2_def w3_def)
  ultimately show ?thesis by blast
qed

lemma pes_timestamp_WriteTs:
  assumes "0 \<le> ts" "ts < 2 ^ 31"
  shows "pes_timestamp (WriteTs flag ts @ r) 0 = Some (of_int ts)"
proof -
  from assms(2) ts_bytes_word [of ts flag] obtain b0 b1 b2 b3 b4 where
    b: "WriteTs flag ts = [b0, b1, b2, b3, b4]" "ts_word b0 b1 b2 b3 b4 = of_int ts" by auto
  have "(scast (of_int ts :: u32) :: u64) = of_int ts"
    using assms by (simp add: signed_of_int scast_eq signed_take_bit_int_eq_self)
  with b show ?thesis by (simp add: pes_timestamp_def ts_word_def)
qed

section \<open>What the demuxer does with the packets\<close>

definition au_dts :: "media_packet \<Rightarrow> u64" where
  "au_dts pkt = (if av_type pkt = MEDIA_VIDEO_TYPE \<and> dts pkt \<noteq> pts pkt then of_int (dts pkt * 90) else 0)"

definition times_fit :: "media_packet \<Rightarrow> bool" where
  "times_fit pkt \<longleftrightarrow> 0 \<le> dts pkt \<and> dts pkt * 90 < 2 ^ 31 \<and> 0 \<le> pts pkt \<and> pts pkt * 90 < 2 ^ 31"

lemma pes_timestamp_drop: "pes_timestamp p k = pes_timestamp (drop k p) 0"
  by (simp add: pes_timestamp_def)

lemma PesParse_pes_hdr:
  assumes "times_fit pkt" "video_sid m = 0" "audio_sid m = 0"
  shows "PesParse (pes_hdr pkt m @ r) npos s = Some (length (pes_hdr pkt m),
    Some (length (pes_hdr pkt m), unat (188 - (of_nat npos + of_nat (length (pes_hdr pkt m))) :: u64)),
    au_dts pkt, of_int (pts pkt * 90), s)"
proof -
  let ?both = "av_type pkt = MEDIA_VIDEO_TYPE \<and> dts pkt \<noteq> pts pkt"
  let ?f = "(if ?both then 0xc0 else 0x80) :: u8"
  let ?sid = "(if av_type pkt = MEDIA_VIDEO_TYPE then PES_SID_VIDEO else PES_SID_AUDIO)"
  have "\<exists>a b. Write2Bytes w = [a, b]" for w by (simp add: Write2Bytes_def eval_bits)
  then obtain l0 l1 where l: "Write2Bytes (of_nat (if length (pkt_data pkt) + (if ?both then 10 else 5) + 3 > 0xffff then 0
      else length (pkt_data pkt) + (if ?both then 10 else 5) + 3)) = [l0, l1]"
    by blast
  let ?t = "WriteTs (drop_bit 6 ?f) (pts pkt * 90) @ (if ?both then WriteTs 0x01 (dts pkt * 90) else [])"
  have hdr: "pes_hdr pkt m = [0, 0, 1, ?sid, l0, l1, 0x80, ?f, of_nat (if ?both then 10 else 5)] @ ?t"
    using l assms(2,3) by (simp add: pes_hdr_def WritePesHeader_def Let_def)
  have sid: "?sid \<notin> {188, 190, 191, 240, 241, 255, 242, 248}" by (simp add: ts_codes)
  have p: "pes_timestamp (pes_hdr pkt m @ r) 9 = Some (of_int (pts pkt * 90))"
    using assms(1) pes_timestamp_WriteTs [of "pts pkt * 90"] by (subst pes_timestamp_drop) (simp add: hdr times_fit_def)
  have lt: "length (WriteTs f t) = 5" for f t by (simp add: WriteTs_def Let_def)
  have fields: "pes_fields (pes_hdr pkt m @ r) ?f = Some (length (pes_hdr pkt m), au_dts pkt, of_int (pts pkt * 90))"
  proof (cases ?both)
    case True
    then have "drop 14 (pes_hdr pkt m @ r) = WriteTs 0x01 (dts pkt * 90) @ r" by (simp add: hdr lt)
    then have d: "pes_timestamp (pes_hdr pkt m @ r) 14 = Some (of_int (dts pkt * 90))"
      using assms(1) pes_timestamp_WriteTs [of "dts pkt * 90"] by (subst pes_timestamp_drop) (simp add: times_fit_def)
    have b: "\<not> bit (0xc0 :: u8) 5" "\<not> bit (0xc0 :: u8) 4" "\<not> bit (0xc0 :: u8) 3" "\<not> bit (0xc0 :: u8) 2"
      "\<not> bit (0xc0 :: u8) 1" "\<not> bit (0xc0 :: u8) 0" by simp_all
    from True p d show ?thesis by (simp add: pes_fields_def b length_pes_hdr au_dts_def)
  next
    case False
    have b: "\<not> bit (0x80 :: u8) 5" "\<not> bit (0x80 :: u8) 4" "\<not> bit (0x80 :: u8) 3" "\<not> bit (0x80 :: u8) 2"
      "\<not> bit (0x80 :: u8) 1" "\<not> bit (0x80 :: u8) 0" by simp_all
    from False p show ?thesis by (auto simp: pes_fields_def b length_pes_hdr au_dts_def)
  qed
  have "rd (pes_hdr pkt m @ r) 0 = Some 0" "rd (pes_hdr pkt m @ r) 1 = Some 0" "rd (pes_hdr pkt m @ r) 2 = Some 1"
    "rd (pes_hdr pkt m @ r) 3 = Some ?sid" "rd (pes_hdr pkt m @ r) 6 = Some 0x80"
    "rd (pes_hdr pkt m @ r) 7 = Some ?f" "rd (pes_hdr pkt m @ r) 8 = Some (of_nat (if ?both then 10 else 5))"
    "\<exists>w. rd16 (pes_hdr pkt m @ r) 4 = Some w"
    by (simp_all add: hdr rd16_def Read2Bytes_Cons)
  then show ?thesis using sid fields unfolding PesParse_def by auto
qed

text \<open>The demuxer knows the PID as that of one elementary stream.\<close>

definition ts_reader :: "u16 \<Rightarrow> mpegts_demux \<Rightarrow> bool" where
  "ts_reader pid s \<longleftrightarrow>
     length (filter (\<lambda>i. si_elementary_PID i = pid) (stream_pid_vec (ts_pmt s))) = 1 \<and> \<not> IsPmt pid s \<and>
     pid \<notin> {0, 0x01, 0x02, 0x03, 0x11, 0x42, 0x1fff}"

lemma pes_units_none:
  "filter (\<lambda>i. si_elementary_PID i = pid) is = [] \<Longrightarrow> pes_units is p start npos pid s = Some (0, s)"
  by (induction "is") (auto split: if_splits)

lemma pes_units_one:
  "length (filter (\<lambda>i. si_elementary_PID i = pid) is) = 1 \<Longrightarrow>
   pes_units is p start npos pid s = (case pes_unit p start npos pid s of
     None \<Rightarrow> None | Some (Inl t) \<Rightarrow> Some (-1, t) | Some (Inr t) \<Rightarrow> Some (0, t))"
proof (induction "is")
  case (Cons i "is")
  show ?case
  proof (cases "si_elementary_PID i = pid")
    case True
    with Cons.prems have "filter (\<lambda>i. si_elementary_PID i = pid) is = []" by simp
    from pes_units_none [OF this] True show ?thesis by (auto split: option.splits sum.splits)
  next
    case False
    with Cons show ?thesis by simp
  qed
qed simp

lemma DecodeUnit_pes:
  assumes "ts_packet_of first pid p payload" "ts_reader pid s"
  obtains npos where "DecodeUnit (p @ r) s = (case pes_unit (p @ r) first npos pid s of
      None \<Rightarrow> None | Some (Inl t) \<Rightarrow> Some (-1, t) | Some (Inr t) \<Rightarrow> Some (0, t))"
    "drop npos (p @ r) = payload @ r" "length payload = 188 - npos" "npos \<le> 188"
proof -
  from assms(1) obtain npos w where p: "length p = 188" "bit (p ! 1) 6 = first"
    "rd16 p 1 = Some w" "w AND 0x1fff = pid" "drop_bit 4 (p ! 3 AND 0x30) \<in> {1, 3}"
    "adaptation_npos p (drop_bit 4 (p ! 3 AND 0x30)) = Some npos" "npos \<le> 188" "payload = drop npos p"
    by (auto simp: ts_packet_of_def)
  have rd: "rd (p @ r) 1 = Some (p ! 1)" "rd (p @ r) 3 = Some (p ! 3)"
    using p(1) by (simp_all add: rd_def nth_append)
  have c: "\<not> (drop_bit 4 (p ! 3 AND 0x30) \<noteq> 1 \<and> drop_bit 4 (p ! 3 AND 0x30) \<noteq> 3)" using p(5) by blast
  have np: "pid \<noteq> 0" "pid \<notin> {0x01, 0x02, 0x03, 0x11}" "\<not> IsPmt pid s" "pid \<notin> {0x0042, 0x1fff}"
    and one: "length (filter (\<lambda>i. si_elementary_PID i = pid) (stream_pid_vec (ts_pmt s))) = 1"
    using assms(2) by (auto simp: ts_reader_def)
  have "DecodeUnit (p @ r) s = pes_units (stream_pid_vec (ts_pmt s)) (p @ r) first npos pid s"
    unfolding DecodeUnit_def rd rd16_longer [OF p(3)] Option.bind.bind_lunit adaptation_npos_longer [OF p(6)]
      if_not_P [OF c] p(2,4) if_not_P [OF np(1)] if_not_P [OF np(2)] if_not_P [OF np(3)] if_not_P [OF np(4)] ..
  then show ?thesis
    using that [of npos] pes_units_one [OF one] p(1,7,8) by simp
qed

lemma size_minus: "n \<le> 188 \<Longrightarrow> unat (188 - of_nat n :: u64) = 188 - n"
  by (simp add: unat_sub word_le_nat_alt unat_of_nat)

lemma DecodeUnit_next:
  assumes "ts_packet_of False pid p payload" "ts_reader pid s"
  shows "DecodeUnit (p @ r) s = Some (0, s\<lparr>last_pid := pid, data_total := data_total s + length payload,
    data_buffer_vec := data_buffer_vec s @ [payload]\<rparr>)"
proof -
  from DecodeUnit_pes [OF assms, of r] obtain npos where
    d: "DecodeUnit (p @ r) s = (case pes_unit (p @ r) False npos pid s of
      None \<Rightarrow> None | Some (Inl t) \<Rightarrow> Some (-1, t) | Some (Inr t) \<Rightarrow> Some (0, t))"
    "drop npos (p @ r) = payload @ r" "length payload = 188 - npos" "npos \<le> 188" by blast
  have "grab (188 - npos) (payload @ r) = Some payload" using d(3) by (simp add: grab_append)
  then show ?thesis
    using d by (simp add: pes_unit_def InsertIntoDatabuf_def size_minus)
qed

text \<open>Sinking a packet only adds to \<open>sunk\<close>.\<close>

definition only_sunk :: "mpegts_demux \<Rightarrow> mpegts_demux \<Rightarrow> bool" where
  "only_sunk s t \<longleftrightarrow> ts_pmt t = ts_pmt s \<and> ts_pat t = ts_pat s \<and> sinkers t = sinkers s \<and>
     data_buffer_vec t = data_buffer_vec s \<and> data_total t = data_total s"

lemma only_sunk_trans: "only_sunk s t \<Longrightarrow> only_sunk t u \<Longrightarrow> only_sunk s u"
  by (simp add: only_sunk_def)

lemma ts_sink_only: "only_sunk s (ts_sink pkt s)"
  by (simp add: only_sunk_def ts_sink_def sink_all_def)

lemma callback_nalus_only: "callback_nalus ds pkt s = Some t \<Longrightarrow> only_sunk s t"
proof (induction ds arbitrary: s)
  case Nil
  then show ?case by (simp add: only_sunk_def)
next
  case (Cons d ds)
  then show ?case
    by (auto split: if_splits option.splits intro: only_sunk_trans [OF ts_sink_only])
qed

lemma callback_opus_only: "callback_opus fs i pkt s = Some t \<Longrightarrow> only_sunk s t"
proof (induction fs arbitrary: s i)
  case Nil
  then show ?case by (simp add: only_sunk_def)
next
  case (Cons f fs)
  obtain off len where f: "f = (off, len)" by fastforce
  from Cons.prems obtain q where q: "callback_opus fs (i + 1) pkt (ts_sink q (s\<lparr>opus_dts := opus_dts s + 20\<rparr>)) = Some t"
    by (auto simp: f Let_def split: option.splits if_splits)
  have "only_sunk s (ts_sink q (s\<lparr>opus_dts := opus_dts s + 20\<rparr>))"
    by (simp add: only_sunk_def ts_sink_def sink_all_def)
  with Cons.IH [OF q] show ?case by (rule only_sunk_trans [rotated])
qed

lemma OnCallback_same:
  assumes "OnCallback pid d p s = Some t"
  shows "only_sunk s t \<or> only_sunk (s\<lparr>data_buffer_vec := [], data_total := 0\<rparr>) t"
proof (cases "data_total s = 0 \<or> data_buffer_vec s = []")
  case True
  with assms show ?thesis by (simp add: OnCallback_def only_sunk_def)
next
  case False
  let ?s = "s\<lparr>data_buffer_vec := [], data_total := 0\<rparr>"
  obtain media codec where i: "GetMediaInfoByPid pid s = (media, codec)" by fastforce
  have o: "only_sunk ?s t" if "only_sunk (?s\<lparr>opus_dts := a, opus_count := b\<rparr>) t \<or> only_sunk (?s\<lparr>opus_count := b\<rparr>) t
      \<or> only_sunk (?s\<lparr>opus_dts := a\<rparr>) t" for a b
    using that by (auto simp: only_sunk_def)
  have r: "only_sunk ?s ?s" by (simp add: only_sunk_def)
  from False assms i show ?thesis
    by (auto simp: OnCallback_def Let_def only_sunk_def [of _ "_\<lparr>opus_dts := _\<rparr>"] ts_sink_only r
          dest!: callback_nalus_only callback_opus_only split: if_splits option.splits sum.splits prod.splits intro: o)
qed

lemma DecodeUnit_start:
  assumes "ts_packet_of True (pes_pid pkt m) p (pes_hdr pkt m @ d)" "ts_reader (pes_pid pkt m) s"
    and "times_fit pkt" "video_sid m = 0" "audio_sid m = 0"
    and "OnCallback (last_pid s) (last_dts s) (last_pts s) s = Some t"
  shows "\<exists>u. DecodeUnit (p @ r) s = Some (0, u) \<and> concat (data_buffer_vec u) = concat (data_buffer_vec t) @ d \<and>
    data_total u = data_total t + length d \<and> last_pts u = of_int (pts pkt * 90) \<and>
    last_dts u = (if au_dts pkt = 0 then of_int (pts pkt * 90) else au_dts pkt) \<and>
    (d \<noteq> [] \<longrightarrow> last_pid u = pes_pid pkt m) \<and> ts_pmt u = ts_pmt t \<and> ts_pat u = ts_pat t \<and>
    sinkers u = sinkers t \<and> sunk u = sunk t"
proof -
  let ?hdr = "pes_hdr pkt m"
  from DecodeUnit_pes [OF assms(1,2), of r] obtain npos where
    u: "DecodeUnit (p @ r) s = (case pes_unit (p @ r) True npos (pes_pid pkt m) s of
      None \<Rightarrow> None | Some (Inl t) \<Rightarrow> Some (-1, t) | Some (Inr t) \<Rightarrow> Some (0, t))"
    "drop npos (p @ r) = ?hdr @ d @ r" "length (?hdr @ d) = 188 - npos" "npos \<le> 188" by auto
  have n: "unat (188 - (of_nat npos + of_nat (length ?hdr)) :: u64) = length d"
  proof -
    have "npos + length ?hdr \<le> 188" using u(3,4) by (auto simp: length_pes_hdr)
    from size_minus [OF this] show ?thesis using u(3) by simp
  qed
  have h: "\<not> length ?hdr > 188" by (simp add: length_pes_hdr)
  have dr: "drop (npos + length ?hdr) (p @ r) = d @ r"
  proof -
    have "drop (npos + length ?hdr) (p @ r) = drop (length ?hdr) (drop npos (p @ r))" by (simp only: drop_drop add.commute)
    then show ?thesis by (simp only: u(2)) simp
  qed
  have g: "grab (length d) (d @ r) = Some d" by (simp add: grab_append)
  show ?thesis
    using u(1) unfolding pes_unit_def assms(6) u(2) PesParse_pes_hdr [OF assms(3-5)] n
    by (cases "d = []") (simp_all add: h dr g InsertIntoDatabuf_def del: drop_append)
qed

end
