(* ===== verification/TsStream.thy ===== *)
theory TsStream
  imports TsPipeline
begin

text \<open>
  A whole transport stream: the tables and the PES packets that a new muxer writes for a list
  of access units, and what a new demuxer sinks when it gets them.
\<close>

section \<open>Access units\<close>

text \<open>
  A frame of H.264 video (decoding and presentation time, key frame, its NALUs), and an
  audio frame.
\<close>

datatype ts_au = Video_au int int bool "bytes list" | Audio_au int bytes

primrec au_packet :: "ts_au \<Rightarrow> media_packet" where
  "au_packet (Video_au d p key bs) = new_Media_Packet\<lparr>av_type := MEDIA_VIDEO_TYPE,
     codec_type := MEDIA_CODEC_H264, dts := d, pts := p, is_key_frame := key, pkt_data := annexb bs\<rparr>"
| "au_packet (Audio_au d x) = new_Media_Packet\<lparr>av_type := MEDIA_AUDIO_TYPE,
     codec_type := MEDIA_CODEC_AAC, dts := d, pts := d, pkt_data := x\<rparr>"

text \<open>
  What the demuxer makes of it: one packet per NALU, but none for an access unit delimiter.
\<close>

primrec au_view :: "ts_au \<Rightarrow> media_packet list" where
  "au_view (Video_au d p key bs) = map (\<lambda>b. new_Media_Packet\<lparr>av_type := MEDIA_VIDEO_TYPE,
       codec_type := MEDIA_CODEC_H264, fmt_type := MEDIA_FORMAT_RAW, dts := d, pts := p,
       is_seq_hdr := H264_IS_SPS (b ! 0) \<or> H264_IS_PPS (b ! 0), is_key_frame := H264_IS_KEYFRAME (b ! 0),
       pkt_data := START_CODE @ b\<rparr>)
     (filter (\<lambda>b. \<not> H264_IS_AUD (b ! 0)) bs)"
| "au_view (Audio_au d x) = [new_Media_Packet\<lparr>av_type := MEDIA_AUDIO_TYPE, codec_type := MEDIA_CODEC_AAC,
     fmt_type := MEDIA_FORMAT_RAW, dts := d, pts := d, pkt_data := x\<rparr>]"

text \<open>
  The times fit the 31 bits that the demuxer reads, a decoding time of 0 is not different
  from the presentation time, no NALU is empty or has a start code inside, and a key frame
  fills its first transport packet.
\<close>

definition time_ok :: "int \<Rightarrow> bool" where
  "time_ok t \<longleftrightarrow> 0 \<le> t \<and> t * 90 < 2 ^ 31"

primrec au_ok :: "ts_au \<Rightarrow> bool" where
  "au_ok (Video_au d p key bs) \<longleftrightarrow> time_ok d \<and> time_ok p \<and> (d = 0 \<longrightarrow> p = 0) \<and> bs \<noteq> [] \<and>
     (\<forall>b\<in>set bs. b \<noteq> [] \<and> \<not> sublist [0, 0, 1] b) \<and>
     pes_fits key ((if d = p then 14 else 19) + length (annexb bs))"
| "au_ok (Audio_au d x) \<longleftrightarrow> time_ok d \<and> x \<noteq> []"

definition au_video :: "ts_au \<Rightarrow> bool" where
  "au_video au \<longleftrightarrow> av_type (au_packet au) = MEDIA_VIDEO_TYPE"

section \<open>The demuxer's callback\<close>

definition ts_types :: "u16 \<Rightarrow> u16 \<Rightarrow> mpegts_demux \<Rightarrow> bool" where
  "ts_types vp ap s \<longleftrightarrow> vp \<noteq> ap \<and> ts_reader vp s \<and> ts_reader ap s \<and>
     pid2steamtype (ts_pmt s) vp = Some 0x1b \<and> pid2steamtype (ts_pmt s) ap = Some 0x0f"

definition au_pid :: "u16 \<Rightarrow> u16 \<Rightarrow> ts_au \<Rightarrow> u16" where
  "au_pid vp ap au = (if au_video au then vp else ap)"

text \<open>The unit that waits in the demuxer's buffers.\<close>

definition waiting :: "u16 \<Rightarrow> u16 \<Rightarrow> ts_au option \<Rightarrow> mpegts_demux \<Rightarrow> bool" where
  "waiting vp ap w s \<longleftrightarrow> data_total s = length (concat (data_buffer_vec s)) \<and>
     (case w of None \<Rightarrow> concat (data_buffer_vec s) = []
      | Some au \<Rightarrow> concat (data_buffer_vec s) = pkt_data (au_packet au) \<and> last_pid s = au_pid vp ap au \<and>
          last_dts s = of_int (dts (au_packet au) * 90) \<and> last_pts s = of_int (pts (au_packet au) * 90))"

definition sent :: "media_packet list \<Rightarrow> (bytes \<times> nat) list \<Rightarrow> (nat \<times> media_packet) list" where
  "sent ps sinks = concat (map (\<lambda>q. map (\<lambda>(_, i). (i, q)) sinks) ps)"

lemma sent_simps [simp]: "sent [] sinks = []" "sent (p # ps) sinks = map (\<lambda>(_, i). (i, p)) sinks @ sent ps sinks"
  "sent (ps @ qs) sinks = sent ps sinks @ sent qs sinks"
  by (simp_all add: sent_def)

lemma callback_nalus_au:
  assumes "\<forall>b\<in>set bs. b \<noteq> []"
  shows "callback_nalus (map (\<lambda>b. START_CODE @ b) bs) pkt s =
    Some (s\<lparr>sunk := sunk s @ sent (map (\<lambda>b. (copy_properties new_Media_Packet pkt)
      \<lparr>is_seq_hdr := H264_IS_SPS (b ! 0) \<or> H264_IS_PPS (b ! 0), is_key_frame := H264_IS_KEYFRAME (b ! 0),
       pkt_data := START_CODE @ b\<rparr>) (filter (\<lambda>b. \<not> H264_IS_AUD (b ! 0)) bs)) (sinkers s)\<rparr>)"
  using assms
proof (induction bs arbitrary: s)
  case Nil
  then show ?case by simp
next
  case (Cons b bs)
  then have b: "b \<noteq> []" by simp
  then have "rd (START_CODE @ b) 4 = Some (b ! 0)" "\<not> length (START_CODE @ b) < 5" "GetNaluTypePos (START_CODE @ b) = Some 4"
    by (cases b; simp add: START_CODE_def GetNaluTypePos_def)+
  with Cons show ?case by (simp add: ts_sink_def sink_all_def del: length_append)
qed

lemma uint_u64: "0 \<le> x \<Longrightarrow> x < 2 ^ 63 \<Longrightarrow> int (unat (of_int x :: u64)) = x" for x :: int
  by (simp add: unsigned_of_int take_bit_int_eq_self)

lemma time_of_word:
  assumes "time_ok t"
  shows "int (unat (of_int t * 90 :: u64) div 90) = t"
proof -
  have "(of_int t * 90 :: u64) = of_int (t * 90)" by simp
  moreover have "int (unat (of_int (t * 90) :: u64)) = t * 90"
    using assms by (intro uint_u64) (auto simp: time_ok_def)
  ultimately have "int (unat (of_int t * 90 :: u64)) = t * 90" by (simp only:)
  then show ?thesis by (simp only: zdiv_int) simp
qed

lemma OnCallback_waiting:
  assumes "ts_types vp ap s" "waiting vp ap w s" "\<forall>au\<in>set_option w. au_ok au"
  shows "\<exists>t. OnCallback (last_pid s) (last_dts s) (last_pts s) s = Some t \<and>
    sunk t = sunk s @ sent (case w of None \<Rightarrow> [] | Some au \<Rightarrow> au_view au) (sinkers s) \<and>
    concat (data_buffer_vec t) = [] \<and> data_total t = 0 \<and> sinkers t = sinkers s \<and> ts_pmt t = ts_pmt s \<and> ts_pat t = ts_pat s"
proof (cases w)
  case None
  with assms(2) show ?thesis by (simp add: waiting_def OnCallback_def)
next
  case (Some au)
  note w = assms(2) [unfolded waiting_def Some, simplified]
  show ?thesis
  proof (cases au)
    case (Video_au d p key bs)
    with assms(3) Some have ok: "time_ok d" "time_ok p" "bs \<noteq> []" "\<forall>b\<in>set bs. \<not> sublist [0, 0, 1] b" "\<forall>b\<in>set bs. b \<noteq> []"
      by auto
    have pid: "last_pid s = vp" using w Video_au by (simp add: au_pid_def au_video_def)
    have i: "GetMediaInfoByPid vp s = (MEDIA_VIDEO_TYPE, MEDIA_CODEC_H264)"
      using assms(1) by (simp add: ts_types_def GetMediaInfoByPid_def GetMediaInfoByStreamtype_def)
    have ne: "annexb bs \<noteq> []" using ok(3) by (cases bs) simp_all
    then have "data_buffer_vec s \<noteq> []" "data_total s \<noteq> 0" using w Video_au by auto
    then show ?thesis
      using w i pid Some Video_au AnnexB2Nalus_annexb [OF ok(4,3)] callback_nalus_au [OF ok(5)]
        time_of_word [OF ok(1)] time_of_word [OF ok(2)]
      by (simp add: OnCallback_def Let_def new_Media_Packet_def copy_properties_def)
  next
    case (Audio_au d x)
    with assms(3) Some have ok: "time_ok d" "x \<noteq> []" by auto
    have pid: "last_pid s = ap" using w Audio_au by (simp add: au_pid_def au_video_def)
    have i: "GetMediaInfoByPid ap s = (MEDIA_AUDIO_TYPE, MEDIA_CODEC_AAC)"
      using assms(1) by (simp add: ts_types_def GetMediaInfoByPid_def GetMediaInfoByStreamtype_def)
    have "data_buffer_vec s \<noteq> []" "data_total s \<noteq> 0" using w Audio_au ok(2) by auto
    then show ?thesis
      using w i pid Some Audio_au time_of_word [OF ok(1)]
      by (simp add: OnCallback_def Let_def new_Media_Packet_def ts_sink_def sink_all_def)
  qed
qed

section \<open>Decoding the transport packets of one unit\<close>

lemma ts_packet_sync: "ts_packet_of first pid p payload \<Longrightarrow> (p @ r) ! 0 = 0x47 \<and> drop 188 (p @ r) = r"
  by (auto simp: ts_packet_of_def nth_append)

lemma decode_step:
  assumes "ts_packet_of first pid p payload" "DecodeUnit (p @ r) s = Some (0, t)"
  shows "decode_units (Suc n) (p @ r) ret s = decode_units n r 0 t"
  using ts_packet_sync [OF assms(1), of r] assms(2) by simp

lemma ts_reader_cong: "ts_pmt t = ts_pmt s \<Longrightarrow> ts_pat t = ts_pat s \<Longrightarrow> ts_reader pid t = ts_reader pid s"
  by (simp add: ts_reader_def IsPmt_def)

lemma decode_next:
  assumes "list_all2 (ts_packet_of False pid) ps payloads" "ts_reader pid s"
  shows "decode_units (length ps + n) (concat ps @ r) 0 s = decode_units n r 0
    (s\<lparr>last_pid := (if ps = [] then last_pid s else pid), data_total := data_total s + length (concat payloads),
       data_buffer_vec := data_buffer_vec s @ payloads\<rparr>)"
  using assms
proof (induction ps payloads arbitrary: s rule: list_all2_induct)
  case Nil
  then show ?case by simp
next
  case (Cons p ps payload payloads)
  let ?t = "s\<lparr>last_pid := pid, data_total := data_total s + length payload, data_buffer_vec := data_buffer_vec s @ [payload]\<rparr>"
  have "ts_reader pid ?t" using Cons.prems by (simp add: ts_reader_cong [of ?t s])
  from Cons.IH [OF this] decode_step [OF Cons.hyps(1) DecodeUnit_next [OF Cons.hyps(1) Cons.prems], of "length ps + n" "concat ps @ r" 0]
  show ?case by (simp add: add.assoc)
qed

lemma au_facts:
  assumes "au_ok au"
  shows "times_fit (au_packet au)" "pkt_data (au_packet au) \<noteq> []"
    "(if au_dts (au_packet au) = 0 then of_int (pts (au_packet au) * 90) else au_dts (au_packet au)) = of_int (dts (au_packet au) * 90)"
proof -
  show "times_fit (au_packet au)"
    using assms by (cases au) (auto simp: times_fit_def time_ok_def)
  show "pkt_data (au_packet au) \<noteq> []"
  proof (cases au)
    case (Video_au d p key bs)
    with assms show ?thesis by (cases bs) auto
  next
    case (Audio_au d x)
    with assms show ?thesis by simp
  qed
  show "(if au_dts (au_packet au) = 0 then of_int (pts (au_packet au) * 90) else au_dts (au_packet au)) = of_int (dts (au_packet au) * 90)"
  proof (cases au)
    case (Video_au d p key bs)
    with assms have ok: "time_ok d" "d = 0 \<longrightarrow> p = 0" by auto
    have "d = 0" if "(of_int (d * 90) :: u64) = 0"
    proof -
      have "int (unat (of_int (d * 90) :: u64)) = d * 90" using ok(1) by (intro uint_u64) (auto simp: time_ok_def)
      with that show ?thesis by simp
    qed
    with ok(2) Video_au show ?thesis by (auto simp: au_dts_def)
  next
    case (Audio_au d x)
    then show ?thesis by (simp add: au_dts_def)
  qed
qed

text \<open>The muxer's fields that the packets depend on.\<close>

definition mux_ids :: "mpegts_mux \<Rightarrow> bool" where
  "mux_ids m \<longleftrightarrow> video_pid m AND 0x1fff = video_pid m \<and> audio_pid m AND 0x1fff = audio_pid m \<and>
     video_sid m = 0 \<and> audio_sid m = 0"

lemma pes_pid_au: "pes_pid (au_packet au) m = au_pid (video_pid m) (audio_pid m) au"
  by (simp add: pes_pid_def au_pid_def au_video_def)

definition pending :: "ts_au option \<Rightarrow> ts_au list" where
  "pending w = (case w of None \<Rightarrow> [] | Some au \<Rightarrow> [au])"

text \<open>
  From the packets \<open>ps\<close> the demuxer reads the units \<open>aus\<close>: it sinks the unit that waited and
  all of them but the last one, which waits.
\<close>

definition decodes :: "u16 \<Rightarrow> u16 \<Rightarrow> ts_au list \<Rightarrow> bytes list \<Rightarrow> bool" where
  "decodes vp ap aus ps \<longleftrightarrow> (\<forall>s w n r ret. ts_types vp ap s \<longrightarrow> waiting vp ap w s \<longrightarrow> (\<forall>a\<in>set_option w. au_ok a) \<longrightarrow>
     (\<exists>u. decode_units (length ps + n) (concat ps @ r) ret s = decode_units n r 0 u \<and>
       ts_types vp ap u \<and> waiting vp ap (Some (last aus)) u \<and> sinkers u = sinkers s \<and>
       sunk u = sunk s @ sent (concat (map au_view (butlast (pending w @ aus)))) (sinkers s)))"

lemma decodesD:
  assumes "decodes vp ap aus ps" "ts_types vp ap s" "waiting vp ap w s" "\<forall>a\<in>set_option w. au_ok a"
  obtains u where "decode_units (length ps + n) (concat ps @ r) ret s = decode_units n r 0 u"
    "ts_types vp ap u" "waiting vp ap (Some (last aus)) u" "sinkers u = sinkers s"
    "sunk u = sunk s @ sent (concat (map au_view (butlast (pending w @ aus)))) (sinkers s)"
  using assms unfolding decodes_def by blast

lemma decodes_Cons:
  assumes "decodes vp ap [au] ps" "decodes vp ap aus qs" "au_ok au" "aus \<noteq> []"
  shows "decodes vp ap (au # aus) (ps @ qs)"
  unfolding decodes_def
proof (intro allI impI)
  fix s w n r ret
  assume s: "ts_types vp ap s" "waiting vp ap w s" "\<forall>a\<in>set_option w. au_ok a"
  from decodesD [OF assms(1) s, of "length qs + n" "concat qs @ r" ret] obtain t where
    t: "decode_units (length ps + (length qs + n)) (concat ps @ concat qs @ r) ret s = decode_units (length qs + n) (concat qs @ r) 0 t"
      "ts_types vp ap t" "waiting vp ap (Some au) t" "sinkers t = sinkers s"
      "sunk t = sunk s @ sent (concat (map au_view (butlast (pending w @ [au])))) (sinkers s)"
    by auto
  from decodesD [OF assms(2) t(2,3), of n r 0] assms(3) obtain u where
    u: "decode_units (length qs + n) (concat qs @ r) 0 t = decode_units n r 0 u"
      "ts_types vp ap u" "waiting vp ap (Some (last aus)) u" "sinkers u = sinkers t"
      "sunk u = sunk t @ sent (concat (map au_view (butlast (pending (Some au) @ aus)))) (sinkers t)"
    by auto
  have b: "butlast (pending w @ au # aus) = butlast (pending w @ [au]) @ butlast (pending (Some au) @ aus)"
    using assms(4) by (simp add: pending_def butlast_append split: option.splits)
  show "\<exists>u. decode_units (length (ps @ qs) + n) (concat (ps @ qs) @ r) ret s = decode_units n r 0 u \<and>
      ts_types vp ap u \<and> waiting vp ap (Some (last (au # aus))) u \<and> sinkers u = sinkers s \<and>
      sunk u = sunk s @ sent (concat (map au_view (butlast (pending w @ au # aus)))) (sinkers s)"
    using t u assms(4) unfolding b by (intro exI [of _ u]) (simp add: add.assoc)
qed

lemma decode_au:
  assumes ids: "mux_ids m" and ok: "au_ok au"
  shows "\<exists>ps m'. WritePes (au_packet au) m = Some m' \<and> ts_after (au_packet au) ps m m' \<and>
    (\<forall>p\<in>set ps. length p = 188) \<and> decodes (video_pid m) (audio_pid m) [au] ps"
proof -
  let ?pkt = "au_packet au" and ?pid = "pes_pid (au_packet au) m" and ?vp = "video_pid m" and ?ap = "audio_pid m"
  have pid: "?pid AND 0x1fff = ?pid" using ids by (simp add: mux_ids_def pes_pid_def)
  have fits: "pes_fits (av_type ?pkt = MEDIA_VIDEO_TYPE \<and> is_key_frame ?pkt) (length (pes_hdr ?pkt m) + length (pkt_data ?pkt))"
  proof (cases au)
    case (Video_au d p key bs)
    with ok have "pes_fits key ((if d = p then 14 else 19) + length (annexb bs))" by simp
    moreover have "length (pes_hdr ?pkt m) = (if d = p then 14 else 19)" using Video_au by (simp add: length_pes_hdr)
    ultimately show ?thesis using Video_au by simp
  next
    case (Audio_au d x)
    then show ?thesis by (simp add: pes_fits_def)
  qed
  from WritePes_packets [OF pid fits] obtain p d ps payloads m' where
    w: "WritePes ?pkt m = Some m'" "ts_packet_of True ?pid p (pes_hdr ?pkt m @ d)"
      "list_all2 (ts_packet_of False ?pid) ps payloads" "d @ concat payloads = pkt_data ?pkt" "ts_after ?pkt (p # ps) m m'"
    by blast
  have sid: "video_sid m = 0" "audio_sid m = 0" using ids by (simp_all add: mux_ids_def)
  have "\<exists>u. decode_units (length (p # ps) + n) (concat (p # ps) @ r) ret s = decode_units n r 0 u \<and>
      ts_types ?vp ?ap u \<and> waiting ?vp ?ap (Some (last [au])) u \<and> sinkers u = sinkers s \<and>
      sunk u = sunk s @ sent (concat (map au_view (butlast (pending w @ [au])))) (sinkers s)"
    if s: "ts_types ?vp ?ap s" "waiting ?vp ?ap w s" "\<forall>a\<in>set_option w. au_ok a" for s w n r ret
  proof -
    have pe: "concat (map au_view (butlast (pending w @ [au]))) = (case w of None \<Rightarrow> [] | Some a \<Rightarrow> au_view a)"
      by (simp add: pending_def split: option.splits)
    have reader: "ts_reader ?pid s" using s(1) by (simp add: ts_types_def pes_pid_def)
    from OnCallback_waiting [OF s] obtain t where
      t: "OnCallback (last_pid s) (last_dts s) (last_pts s) s = Some t"
        "sunk t = sunk s @ sent (case w of None \<Rightarrow> [] | Some au \<Rightarrow> au_view au) (sinkers s)"
        "concat (data_buffer_vec t) = []" "data_total t = 0" "sinkers t = sinkers s" "ts_pmt t = ts_pmt s" "ts_pat t = ts_pat s"
      by blast
    from DecodeUnit_start [OF w(2) reader au_facts(1) [OF ok] sid t(1), of "concat ps @ r"] obtain u where
      u: "DecodeUnit (p @ concat ps @ r) s = Some (0, u)" "concat (data_buffer_vec u) = d" "data_total u = length d"
        "last_pts u = of_int (pts ?pkt * 90)" "last_dts u = of_int (dts ?pkt * 90)" "d \<noteq> [] \<longrightarrow> last_pid u = ?pid"
        "ts_pmt u = ts_pmt s" "ts_pat u = ts_pat s" "sinkers u = sinkers s"
        "sunk u = sunk s @ sent (case w of None \<Rightarrow> [] | Some a \<Rightarrow> au_view a) (sinkers s)"
      using t au_facts(3) [OF ok] by auto
    let ?u = "u\<lparr>last_pid := (if ps = [] then last_pid u else ?pid), data_total := data_total u + length (concat payloads),
       data_buffer_vec := data_buffer_vec u @ payloads\<rparr>"
    have "ts_reader ?pid u" using reader ts_reader_cong [OF u(7,8)] by simp
    from decode_next [OF w(3) this, of n r] decode_step [OF w(2) u(1), of "length ps + n" ret]
    have "decode_units (length (p # ps) + n) (concat (p # ps) @ r) ret s = decode_units n r 0 ?u" by (simp add: add.assoc)
    moreover have "ts_types ?vp ?ap ?u"
      using s(1) u(7,8) ts_reader_cong [of ?u s] by (simp add: ts_types_def)
    moreover have "ps = [] \<longrightarrow> d \<noteq> []" using w(3,4) au_facts(2) [OF ok] by auto
    then have "waiting ?vp ?ap (Some au) ?u"
      using u w(4) by (auto simp: waiting_def pes_pid_au simp flip: length_append)
    ultimately show ?thesis using u(9,10) unfolding pe by (intro exI [of _ ?u]) simp
  qed
  moreover have "\<forall>q\<in>set (p # ps). length q = 188"
    using w(2,3) by (auto simp: ts_packet_of_def list_all2_conv_all_nth in_set_conv_nth)
  ultimately show ?thesis using w(1,5) unfolding decodes_def by (intro exI [of _ "p # ps"] exI [of _ m']) blast
qed

section \<open>The packets of all units\<close>

fun write_units :: "ts_au list \<Rightarrow> mpegts_mux \<Rightarrow> mpegts_mux option" where
  "write_units [] m = Some m"
| "write_units (au # aus) m = Option.bind (WritePes (au_packet au) m) (write_units aus)"

lemma received_ts_after:
  assumes "ts_after pkt ps m m'" "sinkers m = [(k, i)]"
  shows "map pkt_data (received i m') = map pkt_data (received i m) @ ps" "sinkers m' = [(k, i)]"
    "mux_ids m' = mux_ids m" "video_pid m' = video_pid m" "audio_pid m' = audio_pid m"
proof -
  have "map pkt_data (map snd (filter (\<lambda>(j, _). j = i) (ts_sunk pkt ps [(k, i)]))) = ps"
    by (induction ps) (simp_all add: ts_sunk_def)
  with assms show "map pkt_data (received i m') = map pkt_data (received i m) @ ps"
    by (auto simp: ts_after_def received_def)
  show "sinkers m' = [(k, i)]" "mux_ids m' = mux_ids m" "video_pid m' = video_pid m" "audio_pid m' = audio_pid m"
    using assms by (auto simp: ts_after_def mux_ids_def)
qed

lemma decode_aus:
  assumes "mux_ids m" "sinkers m = [(k, i)]" "\<forall>au\<in>set aus. au_ok au" "aus \<noteq> []"
  shows "\<exists>m' ps. write_units aus m = Some m' \<and> map pkt_data (received i m') = map pkt_data (received i m) @ ps \<and>
    (\<forall>p\<in>set ps. length p = 188) \<and> decodes (video_pid m) (audio_pid m) aus ps"
  using assms
proof (induction aus arbitrary: m)
  case Nil
  then show ?case by simp
next
  case (Cons au aus)
  have ok: "au_ok au" using Cons.prems(3) by simp
  from decode_au [OF Cons.prems(1) ok] obtain ps m1 where
    m1: "WritePes (au_packet au) m = Some m1" "ts_after (au_packet au) ps m m1" "\<forall>p\<in>set ps. length p = 188"
      "decodes (video_pid m) (audio_pid m) [au] ps" by blast
  note a = received_ts_after [OF m1(2) Cons.prems(2)]
  show ?case
  proof (cases "aus = []")
    case True
    then show ?thesis using m1 a(1) by (intro exI [of _ m1] exI [of _ ps]) simp
  next
    case False
    with Cons.IH [of m1] Cons.prems(1,3) a obtain m' qs where
      q: "write_units aus m1 = Some m'" "map pkt_data (received i m') = map pkt_data (received i m1) @ qs"
        "\<forall>p\<in>set qs. length p = 188" "decodes (video_pid m) (audio_pid m) aus qs" by auto
    from decodes_Cons [OF m1(4) q(4) ok False] q m1 a(1) show ?thesis
      by (intro exI [of _ m'] exI [of _ "ps @ qs"]) auto
  qed
qed

section \<open>The tables\<close>

text \<open>The first bytes of the two tables that a new muxer writes.\<close>

definition pat_head :: bytes where
  "pat_head = [0x47, 0x40, 0, 0x10, 0, 0, 0xb0, 13, 0, 1, 0xc1, 0, 0, 0, 1, 0xf0, 0x01]"

definition pmt_head :: bytes where
  "pmt_head = [0x47, 0x50, 0x01, 0x10, 0, 2, 0xb0, 23, 0, 1, 0xc1, 0, 0, 0xe1, 0, 0xf0, 0,
     0x1b, 0xe1, 0, 0xf0, 0, 0x0f, 0xe1, 0x01, 0xf0, 0]"

definition mux_tables :: "mpegts_mux \<Rightarrow> bool" where
  "mux_tables m \<longleftrightarrow> pmt_count m = 1 \<and> transport_stream_id m = 1 \<and> pat_ver m = 0 \<and> program_number m = 1 \<and>
     pmt_pid m = 0x1001 \<and> pmt_pn m = 1 \<and> pmt_ver m = 0 \<and> pcr_id m = 0x100 \<and> pminfo_len m = 0 \<and>
     ts_has_video m \<and> ts_has_audio m \<and> video_codec_type m = MEDIA_CODEC_H264 \<and> audio_codec_type m = MEDIA_CODEC_AAC \<and>
     video_pid m = 0x100 \<and> audio_pid m = 0x101 \<and>
     length (pat_data m) = 188 \<and> take 5 (pat_data m) = [0x47, 0x40, 0, 0x10, 0] \<and>
     length (pmt_data m) = 188 \<and> take 5 (pmt_data m) = [0x47, 0x50, 0x01, 0x10, 0]"

lemma length_Write4Bytes [simp]: "length (Write4Bytes w) = 4"
  by (simp add: Write4Bytes_def)

lemma take_drop_head: "take n b = h \<Longrightarrow> \<exists>r. b = h @ r"
  using append_take_drop_id by metis

lemma GeneratePat_head:
  assumes "mux_tables m"
  shows "\<exists>r. GeneratePat m = Some (21, m\<lparr>pat_data := pat_head @ r\<rparr>) \<and> length (pat_head @ r) = 188"
proof -
  let ?b = "pat_data (snd (the (GeneratePat m)))"
  have "GeneratePat m = Some (21, m\<lparr>pat_data := ?b\<rparr>)" "length ?b = 188" "take 17 ?b = pat_head"
    using assms
    by (simp_all add: mux_tables_def GeneratePat_def Let_def Write2Bytes_def eval_bits ts_codes pat_head_def del: mpeg_crc32.simps)
  moreover from this(3) obtain r where "?b = pat_head @ r" using take_drop_head by blast
  ultimately show ?thesis by (intro exI [of _ r]) simp
qed

lemma GeneratePmt_head:
  assumes "mux_tables m"
  shows "\<exists>r. GeneratePmt m = (31, m\<lparr>video_stream_type := STREAM_TYPE_VIDEO_H264, audio_stream_type := STREAM_TYPE_AUDIO_AAC,
    pmt_data := pmt_head @ r\<rparr>) \<and> length (pmt_head @ r) = 188"
proof -
  let ?b = "pmt_data (snd (GeneratePmt m))"
  have "GeneratePmt m = (31, m\<lparr>video_stream_type := STREAM_TYPE_VIDEO_H264, audio_stream_type := STREAM_TYPE_AUDIO_AAC,
      pmt_data := ?b\<rparr>)" "length ?b = 188" "take 27 ?b = pmt_head"
    using assms
    by (simp_all add: mux_tables_def GeneratePmt_def Let_def Write2Bytes_def eval_bits ts_codes pmt_head_def es_entry_def
       video_info_def audio_info_def video_stream_type_of_def audio_stream_type_of_def le32_def del: mpeg_crc32.simps)
  moreover from this(3) obtain r where "?b = pmt_head @ r" using take_drop_head by blast
  ultimately show ?thesis by (intro exI [of _ r]) simp
qed

definition the_pmt :: "PID_INFO list" where
  "the_pmt = [\<lparr>pi_program_number = 1, pi_pid = Some 0x1001, pi_network_id = None\<rparr>]"

text \<open>Decoding a table changes the table and the reports only.\<close>

definition same_data :: "mpegts_demux \<Rightarrow> mpegts_demux \<Rightarrow> bool" where
  "same_data s t \<longleftrightarrow> sinkers t = sinkers s \<and> sunk t = sunk s \<and> data_buffer_vec t = data_buffer_vec s \<and> data_total t = data_total s"

lemma DecodeUnit_pat:
  "\<exists>t. DecodeUnit (pat_head @ r) s = Some (0, t) \<and> pid_vec (ts_pat t) = the_pmt \<and> ts_pmt t = ts_pmt s \<and> same_data s t"
proof -
  have e: "pat_entries (pat_head @ r) 13 17 = Some the_pmt"
    by (subst pat_entries.simps, subst pat_entries.simps) (simp add: pat_head_def the_pmt_def rd16_def Read2Bytes_Cons)
  show ?thesis
    using e by (simp add: DecodeUnit_def pat_head_def rd16_def Read2Bytes_Cons adaptation_npos_def parse_pat_def
      ts_report_def Report_def same_data_def)
qed

definition av_streams :: "STREAM_PID_INFO list" where
  "av_streams = [\<lparr>si_stream_type = 0x1b, si_elementary_PID = 0x100, si_ES_info_length = 0, es_info_vec = []\<rparr>,
     \<lparr>si_stream_type = 0x0f, si_elementary_PID = 0x101, si_ES_info_length = 0, es_info_vec = []\<rparr>]"

lemma DecodeUnit_pmt:
  assumes "pid_vec (ts_pat s) = the_pmt"
  shows "\<exists>t. DecodeUnit (pmt_head @ r) s = Some (0, t) \<and> ts_pat t = ts_pat s \<and> stream_pid_vec (ts_pmt t) = av_streams \<and>
    pid2steamtype (ts_pmt t) = stream_types av_streams \<and> same_data s t"
proof -
  have e: "pmt_entries (pmt_head @ r) 17 27 = Some av_streams"
    by (subst pmt_entries.simps, subst pmt_entries.simps, subst pmt_entries.simps)
       (simp add: pmt_head_def av_streams_def rd16_def Read2Bytes_Cons descriptors.simps)
  show ?thesis
    using e assms by (simp add: DecodeUnit_def pmt_head_def rd16_def Read2Bytes_Cons adaptation_npos_def parse_pmt_def
      IsPmt_def the_pmt_def grab_def ts_report_def Report_def same_data_def)
qed

section \<open>A whole stream\<close>

text \<open>The tables, then the packets of the units.\<close>

definition mux_stream :: "ts_au list \<Rightarrow> mpegts_mux \<Rightarrow> mpegts_mux option" where
  "mux_stream aus m = Option.bind (WritePat m) (\<lambda>m. write_units aus (WritePmt m))"

lemma mux_tables_new:
  "mux_tables (snd (AddSinker (Some (k, i)) (new_MpegtsMux name)))"
  by (simp add: mux_tables_def AddSinker_def Let_def new_MpegtsMux_def streamer.defs new_streamer_def ts_codes)

lemma ts_types_av: "pid_vec (ts_pat s) = the_pmt \<Longrightarrow> stream_pid_vec (ts_pmt s) = av_streams \<Longrightarrow>
   pid2steamtype (ts_pmt s) = stream_types av_streams \<Longrightarrow> ts_types 0x100 0x101 s"
  by (simp add: ts_types_def ts_reader_def IsPmt_def the_pmt_def av_streams_def stream_types_def)

lemma decode_tables:
  assumes "length (pat_head @ r1) = 188" "length (pmt_head @ r2) = 188" "data_buffer_vec s = []" "data_total s = 0"
  obtains t where "decode_units (Suc (Suc n)) ((pat_head @ r1) @ (pmt_head @ r2) @ r) ret s = decode_units n r 0 t"
    "ts_types 0x100 0x101 t" "waiting 0x100 0x101 None t" "sinkers t = sinkers s" "sunk t = sunk s"
proof -
  have b: "(p @ q) ! 0 = 0x47 \<and> drop 188 (p @ q) = q" if "length p = 188" "p ! 0 = 0x47" for p q :: bytes
    using that by (auto simp: nth_append)
  from DecodeUnit_pat [of "r1 @ (pmt_head @ r2) @ r" s] obtain t1 where
    t1: "DecodeUnit (pat_head @ r1 @ (pmt_head @ r2) @ r) s = Some (0, t1)" "pid_vec (ts_pat t1) = the_pmt" "same_data s t1" by blast
  from DecodeUnit_pmt [OF t1(2), of "r2 @ r"] obtain t2 where
    t2: "DecodeUnit (pmt_head @ r2 @ r) t1 = Some (0, t2)" "ts_pat t2 = ts_pat t1" "stream_pid_vec (ts_pmt t2) = av_streams"
      "pid2steamtype (ts_pmt t2) = stream_types av_streams" "same_data t1 t2" by blast
  have h: "(pat_head @ r1) ! 0 = 0x47" "(pmt_head @ r2) ! 0 = 0x47" by (simp_all add: pat_head_def pmt_head_def)
  have "decode_units (Suc (Suc n)) ((pat_head @ r1) @ (pmt_head @ r2) @ r) ret s = decode_units n r 0 t2"
    using b [OF assms(1) h(1), of "(pmt_head @ r2) @ r"] b [OF assms(2) h(2), of r] t1(1) t2(1) by simp
  with that [of t2] t1 t2 assms(3,4) ts_types_av [of t2] show ?thesis
    by (simp add: waiting_def same_data_def)
qed

lemma concat_188: "\<forall>p\<in>set ps. length p = 188 \<Longrightarrow> length (concat ps) = 188 * length ps"
  by (induction ps) simp_all

lemma mux_stream_packets:
  assumes "\<forall>au\<in>set aus. au_ok au" "aus \<noteq> []"
    and m: "m = snd (AddSinker (Some (k, i)) (new_MpegtsMux name))"
  obtains m' r1 r2 ps where "mux_stream aus m = Some m'" "map pkt_data (received i m') = (pat_head @ r1) # (pmt_head @ r2) # ps"
    "length (pat_head @ r1) = 188" "length (pmt_head @ r2) = 188" "\<forall>p\<in>set ps. length p = 188" "decodes 0x100 0x101 aus ps"
proof -
  have t: "mux_tables m" unfolding m by (rule mux_tables_new)
  from GeneratePat_head [OF t] obtain r1 where
    r1: "GeneratePat m = Some (21, m\<lparr>pat_data := pat_head @ r1\<rparr>)" "length (pat_head @ r1) = 188" by blast
  let ?m1 = "TsOutput None (pat_head @ r1) (m\<lparr>pat_data := pat_head @ r1\<rparr>)"
  have "mux_tables ?m1" using t r1(2) by (simp add: mux_tables_def TsOutput_def sink_all_def pat_head_def)
  from GeneratePmt_head [OF this] obtain r2 where
    r2: "GeneratePmt ?m1 = (31, ?m1\<lparr>video_stream_type := STREAM_TYPE_VIDEO_H264, audio_stream_type := STREAM_TYPE_AUDIO_AAC,
      pmt_data := pmt_head @ r2\<rparr>)" "length (pmt_head @ r2) = 188" by blast
  let ?m2 = "WritePmt ?m1"
  have s: "sinkers m = [(k, i)]" "sunk m = []" "video_sid m = 0" "audio_sid m = 0"
    unfolding m by (simp_all add: AddSinker_def Let_def new_MpegtsMux_def streamer.defs new_streamer_def)
  have e: "?m2 = TsOutput None (pmt_head @ r2) (?m1\<lparr>video_stream_type := STREAM_TYPE_VIDEO_H264,
      audio_stream_type := STREAM_TYPE_AUDIO_AAC, pmt_data := pmt_head @ r2\<rparr>)"
    unfolding WritePmt_def r2(1) by simp
  have m2: "map pkt_data (received i ?m2) = [pat_head @ r1, pmt_head @ r2]" "sinkers ?m2 = [(k, i)]" "mux_ids ?m2"
    "video_pid ?m2 = 0x100" "audio_pid ?m2 = 0x101"
    using s t unfolding e by (simp_all add: TsOutput_def sink_all_def received_def mux_ids_def mux_tables_def)
  from decode_aus [OF m2(3,2) assms(1,2)] obtain m' ps where
    "write_units aus ?m2 = Some m'" "map pkt_data (received i m') = map pkt_data (received i ?m2) @ ps"
    "\<forall>p\<in>set ps. length p = 188" "decodes 0x100 0x101 aus ps" using m2(4,5) by auto
  moreover have "mux_stream aus m = write_units aus ?m2" by (simp add: mux_stream_def WritePat_def r1(1))
  ultimately show ?thesis using that r1(2) r2(2) m2(1) by simp
qed

text \<open>
  C22: Transport stream round trip: the tables and the PES packets that a new muxer writes for
  H.264 frames and AAC audio frames, fed to a new demuxer in one buffer, make it send, in the same
  order, one packet for every NALU of a video frame (access unit delimiters left out), with the frame's times, the NALU behind a start
  code and the flags of its type, and one for every audio frame, with its decoding time as both times and its data.  The last frame is
  missing: it stays in the demuxer's buffers, since only the start of the next one flushes it.  The frames are
  such that their times are at least 0 and less than \<open>2 ^ 31 / 90\<close> ms, a video frame with decoding time 0 has presentation time 0,
  audio data is not empty, a video frame has at least one NALU and each NALU is not empty and has no start code (0, 0, 1) inside, and a
  key frame is not short: its PES packet, a header of 14 bytes, or 19 if the times differ, and the NALUs with their start codes, has 176 or at
  least 184 bytes (others are left out; for a short one see \<open>ts_short_key_frame\<close>).
\<close>
theorem ts_stream_roundtrip:
  assumes ok: "\<forall>au\<in>set aus. au_ok au" "aus \<noteq> []"
    and m: "m = snd (AddSinker (Some (k, i)) (new_MpegtsMux name))"
    and d: "d = snd (AddSinker (Some (k', j)) (new_MpegtsDemux name'))"
  shows "\<exists>m' d'. mux_stream aus m = Some m' \<and>
    ts_Decode (concat (map pkt_data (received i m'))) d = Some (0, d') \<and>
    received j d' = concat (map au_view (butlast aus)) \<and>
    concat (data_buffer_vec d') = pkt_data (au_packet (last aus))"
proof -
  from mux_stream_packets [OF ok m] obtain m' r1 r2 ps where
    s: "mux_stream aus m = Some m'" "map pkt_data (received i m') = (pat_head @ r1) # (pmt_head @ r2) # ps"
      "length (pat_head @ r1) = 188" "length (pmt_head @ r2) = 188" "\<forall>p\<in>set ps. length p = 188" "decodes 0x100 0x101 aus ps" .
  have dd: "data_buffer_vec d = []" "data_total d = 0" "sunk d = []" "sinkers d = [(k', j)]"
    unfolding d by (simp_all add: AddSinker_def Let_def new_MpegtsDemux_def streamer.defs new_streamer_def)
  from decode_tables [OF s(3,4) dd(1,2), of "length ps" "concat ps" "-1"] obtain t where
    t: "decode_units (Suc (Suc (length ps))) ((pat_head @ r1) @ (pmt_head @ r2) @ concat ps) (-1) d
        = decode_units (length ps) (concat ps) 0 t"
      "ts_types 0x100 0x101 t" "waiting 0x100 0x101 None t" "sinkers t = sinkers d" "sunk t = sunk d" .
  from decodesD [OF s(6) t(2,3), of 0 "[]" 0] obtain u where
    u: "decode_units (length ps) (concat ps) 0 t = Some (0, u)" "waiting 0x100 0x101 (Some (last aus)) u"
      "sunk u = sunk t @ sent (concat (map au_view (butlast (pending None @ aus)))) (sinkers t)"
    by auto
  let ?b = "(pat_head @ r1) @ (pmt_head @ r2) @ concat ps"
  have l: "length ?b = 188 * Suc (Suc (length ps))" using s(3,4) concat_188 [OF s(5)] by simp
  have "ts_Decode ?b d = decode_units (length ?b div 188) ?b (-1) d" unfolding ts_Decode_def l by simp
  then have "ts_Decode ?b d = Some (0, u)" unfolding l using t(1) u(1) by (simp del: append_assoc)
  moreover have "received j u = concat (map au_view (butlast aus))"
    using u(3) dd t(4,5) unfolding received_def sent_def
    by (simp add: pending_def comp_def)
  moreover have "concat (data_buffer_vec u) = pkt_data (au_packet (last aus))" using u(2) by (simp add: waiting_def)
  ultimately show ?thesis using s(1,2) by (intro exI [of _ m'] exI [of _ u]) simp
qed

theorem ts_stream_roundtrip_witness:
  "\<exists>m' d'. mux_stream [Video_au 40 80 False [[0x41, 7, 8]], Audio_au 41 [9, 9], Video_au 60 60 False [[0x41, 6]]]
      (snd (AddSinker (Some ([], 0)) (new_MpegtsMux []))) = Some m' \<and>
    ts_Decode (concat (map pkt_data (received 0 m'))) (snd (AddSinker (Some ([], 1)) (new_MpegtsDemux []))) = Some (0, d') \<and>
    map dts (received 1 d') = [40, 41] \<and> map pts (received 1 d') = [80, 41] \<and>
    map pkt_data (received 1 d') = [[0, 0, 0, 1, 0x41, 7, 8], [9, 9]] \<and>
    concat (data_buffer_vec d') = [0, 0, 0, 1, 0x41, 6]"
proof -
  let ?aus = "[Video_au 40 80 False [[0x41, 7, 8]], Audio_au 41 [9, 9], Video_au 60 60 False [[0x41, 6]]]"
  have ok: "\<forall>au\<in>set ?aus. au_ok au" by (simp add: time_ok_def pes_fits_def sublist_Cons_right)
  have k: "\<not> H264_IS_AUD 0x41" by (simp add: H264_IS_AUD_def kAud_def)
  from ts_stream_roundtrip [OF ok _ refl refl, where k = "[]" and i = 0 and name = "[]" and k' = "[]" and j = 1 and name' = "[]"]
  show ?thesis by (auto simp: k START_CODE_def)
qed

end
