(* ===== verification/TsWf.thy ===== *)
theory TsWf
  imports TsStream
begin

text \<open>
  What every operation of the transport stream muxer keeps, and the key frames for which the
  packetisation fails.
\<close>

section \<open>The muxer's invariant\<close>

definition ts_packet_ok :: "media_packet \<Rightarrow> bool" where
  "ts_packet_ok p \<longleftrightarrow> fmt_type p = MEDIA_FORMAT_MPEGTS \<and> length (pkt_data p) = TS_PACKET_SIZE \<and> hd (pkt_data p) = 0x47"

definition table_ok :: "bytes \<Rightarrow> bool" where
  "table_ok d \<longleftrightarrow> length d = TS_PACKET_SIZE \<and> hd d = 0x47"

text \<open>The tables are whole packets, the counters have four bits, the queue is bounded and only
  transport packets have been sent.\<close>

definition mux_wf :: "mpegts_mux \<Rightarrow> bool" where
  "mux_wf s \<longleftrightarrow> table_ok (pat_data s) \<and> table_ok (pmt_data s) \<and> video_cc s < 16 \<and> audio_cc s < 16 \<and>
     length (wait_queue s) \<le> 30 \<and> (\<forall>(_, p)\<in>set (sunk s). ts_packet_ok p)"

text \<open>The fields the invariant is about.\<close>

lemma mux_wf_cong:
  "\<lbrakk>mux_wf s; pat_data t = pat_data s; pmt_data t = pmt_data s; video_cc t = video_cc s; audio_cc t = audio_cc s;
    length (wait_queue t) \<le> 30; sunk t = sunk s\<rbrakk> \<Longrightarrow> mux_wf t"
  by (simp add: mux_wf_def)

lemma mux_wf_queue: "mux_wf s \<Longrightarrow> length (wait_queue s) \<le> 30"
  by (simp add: mux_wf_def)

lemma TsOutput_wf:
  "mux_wf s \<Longrightarrow> table_ok data \<Longrightarrow> mux_wf (TsOutput pkt data s)"
  by (auto simp: mux_wf_def TsOutput_def sink_all_def ts_packet_ok_def table_ok_def split: option.splits)

lemma next_cc_less: "next_cc cc < 16"
proof (cases "cc + 1 > 0xf")
  case False
  then have "cc + 1 \<le> 0xf" by (simp add: not_less)
  also have "(0xf :: u8) < 16" by simp
  finally show ?thesis using False by (simp add: next_cc_def)
qed (simp add: next_cc_def)

lemma bump_cc_wf: "bump_cc is_video s = (cc, t) \<Longrightarrow> mux_wf s \<Longrightarrow> mux_wf t"
  by (auto simp: bump_cc_def mux_wf_def next_cc_less split: if_splits)

lemma ts_unit_ok: "ts_unit first pcr pid cc t hdr rest len = Some (p, k, n) \<Longrightarrow> table_ok p"
proof -
  assume a: "ts_unit first pcr pid cc t hdr rest len = Some (p, k, n)"
  have h: "hd (ts_head first pcr pid cc t b @ r) = 0x47" for b r by (simp add: ts_head_def)
  from a obtain b r where "p = ts_head first pcr pid cc t b @ r" "length p = TS_PACKET_SIZE"
    unfolding ts_unit_def Let_def by (auto simp only: bind_Some_iff option.inject prod.inject require_Some_iff split: if_split_asm)
  with h show ?thesis by (simp add: table_ok_def)
qed

lemma pes_loop_wf:
  "pes_loop first pkt is_video pid t hdr data len w s = Some s' \<Longrightarrow> mux_wf s \<Longrightarrow> mux_wf s'"
proof (induction first pkt is_video pid t hdr data len w s rule: pes_loop.induct)
  case (1 first pkt is_video pid t hdr data len w s)
  show ?case
  proof (cases "len = 0")
    case True
    with "1.prems" show ?thesis by (subst (asm) pes_loop.simps) simp
  next
    case False
    obtain cc s1 where c: "bump_cc is_video s = (cc, s1)" by fastforce
    from "1.prems"(1) False c obtain p k n where
      u: "ts_unit first (first \<and> is_video \<and> is_key_frame pkt) pid cc t hdr (drop w data) len = Some (p, k, n)"
        "pes_loop False pkt is_video pid t hdr data (len - k - n) (w + n) (TsOutput (Some pkt) p s1) = Some s'"
      by (subst (asm) pes_loop.simps) (auto split: option.splits)
    from "1.IH" [OF False refl c [symmetric] u(1) refl refl u(2)] u(1) c "1.prems"(2) show ?thesis
      by (blast intro: TsOutput_wf bump_cc_wf ts_unit_ok)
  qed
qed

lemma WritePes_wf: "WritePes pkt s = Some s' \<Longrightarrow> mux_wf s \<Longrightarrow> mux_wf s'"
  by (auto simp: WritePes_def Let_def intro: pes_loop_wf)

lemma WritePat_wf:
  assumes "WritePat s = Some s'" "mux_wf s"
  shows "mux_wf s'"
proof -
  from assms(1) obtain n t where t: "GeneratePat s = Some (n, t)" "s' = TsOutput None (pat_data t) t"
    by (auto simp: WritePat_def bind_Some_iff)
  have ok: "table_ok (pat_data s)" using assms(2) by (simp add: mux_wf_def)
  then have ne: "pat_data s \<noteq> []" by (auto simp: table_ok_def ts_codes)
  from t(1) obtain body c where b: "t = s\<lparr>pat_data := take 5 (pat_data s) @ body @ Write4Bytes c @
      replicate (TS_PACKET_SIZE - (5 + length body + 4)) 0xff\<rparr>" "5 + length body + 4 \<le> TS_PACKET_SIZE"
    unfolding GeneratePat_def Let_def by (auto simp only: bind_Some_iff option.inject prod.inject require_Some_iff)
  have "table_ok (pat_data t)"
    using ok ne b(2) by (cases "pat_data s") (auto simp: b(1) table_ok_def TS_PACKET_SIZE_def)
  moreover have "mux_wf t" using calculation assms(2) by (simp add: b(1) mux_wf_def)
  ultimately show ?thesis using t(2) by (simp add: TsOutput_wf)
qed

lemma mux_wf_update [simp]:
  "mux_wf (s\<lparr>keyframe_ready := x0\<rparr>) = mux_wf s" "mux_wf (s\<lparr>ts_pps := x1\<rparr>) = mux_wf s" "mux_wf (s\<lparr>ts_sps := x2\<rparr>) = mux_wf s"
  "mux_wf (s\<lparr>ts_vps := x3\<rparr>) = mux_wf s" "mux_wf (s\<lparr>is_annexb := x4\<rparr>) = mux_wf s" "mux_wf (s\<lparr>video_codec_type := x5\<rparr>) = mux_wf s"
  "mux_wf (s\<lparr>audio_codec_type := x6\<rparr>) = mux_wf s" "mux_wf (s\<lparr>ts_sample_rate := x7\<rparr>) = mux_wf s" "mux_wf (s\<lparr>ts_channel := x8\<rparr>) = mux_wf s"
  "mux_wf (s\<lparr>aac_type := x9\<rparr>) = mux_wf s" "mux_wf (s\<lparr>reports := x10\<rparr>) = mux_wf s" "mux_wf (s\<lparr>video_ready := x11\<rparr>) = mux_wf s"
  "mux_wf (s\<lparr>audio_ready := x12\<rparr>) = mux_wf s" "mux_wf (s\<lparr>ts_ready := x13\<rparr>) = mux_wf s" "mux_wf (s\<lparr>last_patpmt_ts := x14\<rparr>) = mux_wf s"
  "mux_wf (s\<lparr>video_stream_type := x15\<rparr>) = mux_wf s" "mux_wf (s\<lparr>audio_stream_type := x16\<rparr>) = mux_wf s"
  by (simp_all add: mux_wf_def)

lemma length_info: "length (video_info c) = 0 \<or> length (video_info c) = 10" "length (audio_info c) = 0 \<or> length (audio_info c) = 10"
  by (simp_all add: video_info_def audio_info_def registration_def str_def)

lemma GeneratePmt_table: "table_ok (pmt_data s) \<Longrightarrow> table_ok (pmt_data (snd (GeneratePmt s)))"
proof -
  assume ok: "table_ok (pmt_data s)"
  then obtain b r where r: "pmt_data s = b # r" "b = 0x47" "length r = 187"
    by (cases "pmt_data s") (auto simp: table_ok_def ts_codes)
  have two: "length (Write2Bytes w) = 2" for w by (simp add: Write2Bytes_def)
  show ?thesis
    using length_info(1) [of "video_codec_type s"] length_info(2) [of "audio_codec_type s"]
    by (cases "ts_has_video s"; cases "ts_has_audio s")
       (auto simp: GeneratePmt_def Let_def table_ok_def r es_entry_def two le32_def ts_codes)
qed

lemma GeneratePmt_fields:
  "pat_data (snd (GeneratePmt s)) = pat_data s" "video_cc (snd (GeneratePmt s)) = video_cc s"
  "audio_cc (snd (GeneratePmt s)) = audio_cc s" "wait_queue (snd (GeneratePmt s)) = wait_queue s"
  "sunk (snd (GeneratePmt s)) = sunk s"
  by (simp_all add: GeneratePmt_def Let_def)

lemma WritePmt_wf:
  assumes "mux_wf s"
  shows "mux_wf (WritePmt s)"
proof -
  let ?t = "snd (GeneratePmt s)"
  have ok: "table_ok (pmt_data ?t)" using assms GeneratePmt_table by (simp add: mux_wf_def)
  moreover from this have "mux_wf ?t" using assms by (simp add: mux_wf_def GeneratePmt_fields)
  moreover have "WritePmt s = TsOutput None (pmt_data ?t) ?t" by (simp add: WritePmt_def split: prod.split)
  ultimately show ?thesis by (simp add: TsOutput_wf)
qed

section \<open>The handlers\<close>

lemma store_wf: "store_pps d s = Some t \<Longrightarrow> mux_wf t = mux_wf s" "store_sps d s = Some t \<Longrightarrow> mux_wf t = mux_wf s"
  by (auto simp: store_pps_def store_sps_def bind_Some_iff)

lemma h264_nalus_wf: "h264_nalus ds pkt s = Some s' \<Longrightarrow> mux_wf s \<Longrightarrow> mux_wf s'"
proof (induction ds arbitrary: s)
  case (Cons d ds)
  from Cons.prems(1) obtain ty where ty: "nalu_type_byte d = Some ty" by (auto split: option.splits)
  show ?case
  proof (cases "H264_IS_AUD ty \<or> H264_IS_PPS ty \<or> H264_IS_SPS ty")
    case True
    with ty Cons show ?thesis by (auto simp: bind_Some_iff store_wf split: if_splits)
  next
    case False
    let ?s = "if H264_IS_KEYFRAME ty then s\<lparr>keyframe_ready := True\<rparr> else s"
    have "mux_wf ?s" using Cons.prems(2) by simp
    with False ty Cons show ?thesis
      by (cases "keyframe_ready ?s") (auto simp: Let_def bind_Some_iff dest!: WritePes_wf simp del: if_split)
  qed
qed simp

lemma h265_nalus_wf: "h265_nalus ds appended pkt s = Some s' \<Longrightarrow> mux_wf s \<Longrightarrow> mux_wf s'"
proof (induction ds arbitrary: s appended)
  case (Cons d ds)
  then show ?case
    by (auto simp: Let_def bind_Some_iff dest!: WritePes_wf split: option.splits if_splits)
qed simp

lemma ReportEvent_wf [simp]: "mux_wf (ReportEvent ty fmt args s) = mux_wf s"
  by (simp add: ReportEvent_def Report_def mux_wf_def)

lemma HandleH264_wf: "HandleH264 pkt s = Some (r, s') \<Longrightarrow> mux_wf s \<Longrightarrow> mux_wf s'"
proof -
  assume a: "HandleH264 pkt s = Some (r, s')" and w: "mux_wf s"
  from a obtain t where t: "(if is_annexb s then Some s
          else map_option (\<lambda>b. s\<lparr>is_annexb := b\<rparr>) (begins_0001 (pkt_data pkt))) = Some t"
    by (auto simp: HandleH264_def bind_Some_iff)
  have wt: "mux_wf t" using t w by (auto split: if_splits)
  show ?thesis
  proof (cases "is_seq_hdr pkt")
    case True
    with a t have "h264_seq_header (pkt_data pkt) t = Some (r, s')" by (simp add: HandleH264_def)
    with wt show ?thesis
      by (auto simp: h264_seq_header_def bind_Some_iff store_wf split: if_splits option.splits prod.splits)
  next
    case False
    with a t wt show ?thesis
      by (auto simp: HandleH264_def bind_Some_iff split: if_splits intro: h264_nalus_wf)
  qed
qed

lemma h265_seq_header_wf:
  assumes "h265_seq_header data s = Some (r, s')" "mux_wf s"
  shows "mux_wf s'"
proof -
  from assms(1) obtain info where i: "GetHevcDecInfoFromExtradata data = Some info"
    by (auto simp: h265_seq_header_def bind_Some_iff)
  with assms show ?thesis
    by (cases info) (auto simp: h265_seq_header_def bind_Some_iff)
qed

lemma HandleH265_wf: "HandleH265 pkt s = Some (r, s') \<Longrightarrow> mux_wf s \<Longrightarrow> mux_wf s'"
  by (auto simp: HandleH265_def bind_Some_iff split: if_splits intro: h265_nalus_wf h265_seq_header_wf)

lemma HandleAudioAac_wf: "HandleAudioAac pkt s = Some (r, s') \<Longrightarrow> mux_wf s \<Longrightarrow> mux_wf s'"
  by (auto simp: HandleAudioAac_def Let_def split: if_splits intro: WritePes_wf)

lemma ts_HandlePacket_wf: "ts_HandlePacket pkt s = Some (r, s') \<Longrightarrow> mux_wf s \<Longrightarrow> mux_wf s'"
  by (auto simp: ts_HandlePacket_def HandleVideo_def HandleAudio_def HandleVpx_def HandleAudioOpus_def
        split: if_splits dest: HandleH264_wf HandleH265_wf HandleAudioAac_wf WritePes_wf)

lemma drain_queue_wf: "drain_queue pkts s = Some s' \<Longrightarrow> length pkts \<le> 30 \<Longrightarrow> mux_wf s \<Longrightarrow> mux_wf s'"
proof (induction pkts arbitrary: s)
  case (Cons pkt pkts)
  have "mux_wf (s\<lparr>wait_queue := pkts\<rparr>)" using Cons.prems(2,3) by (simp add: mux_wf_def)
  with Cons show ?case by (auto split: option.splits dest: ts_HandlePacket_wf)
qed simp

lemma enqueue_wf: "mux_wf s \<Longrightarrow> length (wait_queue s) < 30 \<Longrightarrow> mux_wf (enqueue pkt s)"
  by (simp add: enqueue_def Let_def mux_wf_def)

lemma write_tables_wf: "write_tables ts s = Some t \<Longrightarrow> mux_wf s \<Longrightarrow> mux_wf t"
  by (auto simp: write_tables_def WritePmt_wf split: if_splits dest!: WritePat_wf)

lemma new_MpegtsMux_wf: "mux_wf (snd (AddSinker sinker (new_MpegtsMux name)))"
  by (simp add: mux_wf_def AddSinker_def Let_def new_MpegtsMux_def streamer.defs new_streamer_def table_ok_def ts_codes
      split: option.splits)

lemma ts_SourceData_wf: "ts_SourceData pkt s = Some (r, s') \<Longrightarrow> mux_wf s \<Longrightarrow> mux_wf s'"
  by (auto simp: ts_SourceData_def ts_InputPacket_def bind_Some_iff enqueue_wf mux_wf_queue split: option.splits if_splits
      dest!: ts_HandlePacket_wf drain_queue_wf write_tables_wf)

text \<open>The packets of a pipeline, one after the other, whatever each call returns.\<close>

fun ts_mux_run :: "media_packet option list \<Rightarrow> mpegts_mux \<Rightarrow> mpegts_mux option" where
  "ts_mux_run [] s = Some s"
| "ts_mux_run (pkt # pkts) s = (case ts_SourceData pkt s of None \<Rightarrow> None | Some (_, s) \<Rightarrow> ts_mux_run pkts s)"

lemma ts_mux_run_wf: "ts_mux_run pkts s = Some s' \<Longrightarrow> mux_wf s \<Longrightarrow> mux_wf s'"
  by (induction pkts arbitrary: s) (auto split: option.splits dest: ts_SourceData_wf)

text \<open>
  C23: Whatever packets a new transport stream muxer is given, what it sends are transport
  packets of 188 bytes with the sync byte, its two tables are such packets, its continuity
  counters have four bits and at most 30 packets wait in its queue.
\<close>
theorem ts_mux_output_typed:
  assumes "ts_mux_run pkts (snd (AddSinker sinker (new_MpegtsMux name))) = Some s"
  shows "mux_wf s"
  using assms new_MpegtsMux_wf by (rule ts_mux_run_wf)

theorem ts_mux_output_typed_witness:
  "\<exists>s. ts_mux_run [Some (new_Media_Packet\<lparr>av_type := MEDIA_AUDIO_TYPE, codec_type := MEDIA_CODEC_AAC\<rparr>),
      Some (new_Media_Packet\<lparr>av_type := MEDIA_VIDEO_TYPE, codec_type := MEDIA_CODEC_VP9\<rparr>),
      Some (new_Media_Packet\<lparr>av_type := MEDIA_VIDEO_TYPE, codec_type := MEDIA_CODEC_VP9\<rparr>)]
      (snd (AddSinker (Some ([], 0)) (new_MpegtsMux []))) = Some s \<and> length (sunk s) = 2 \<and> mux_wf s"
  (is "\<exists>s. ts_mux_run ?pkts ?m = Some s \<and> _ s \<and> _ s")
proof -
  have "\<exists>s. ts_mux_run ?pkts ?m = Some s \<and> length (sunk s) = 2"
    by (simp add: ts_SourceData_def ts_InputPacket_def AddSinker_def Let_def new_MpegtsMux_def streamer.defs new_streamer_def
        new_Media_Packet_def enqueue_def write_tables_def WritePat_def GeneratePat_def WritePmt_def GeneratePmt_def TsOutput_def
        sink_all_def ts_HandlePacket_def HandleVideo_def HandleAudio_def HandleAudioAac_def ReportEvent_def Report_def
        ts_codes Write2Bytes_def del: mpeg_crc32.simps)
  then show ?thesis using ts_mux_output_typed [of ?pkts "Some ([], 0)" "[]"] by blast
qed

section \<open>Short key frames\<close>

text \<open>
  A key frame whose PES packet has 177 to 183 bytes is not packetised: the room left
  behind the clock reference is computed in eight bits and wraps around, so that the first
  transport packet is filled with stuffing, the PES header is lost, and the next turn copies
  as many bytes as header and data have, past the end of the data.
\<close>
theorem ts_short_key_frame:
  assumes "av_type pkt = MEDIA_VIDEO_TYPE" "is_key_frame pkt"
    and len: "len = (if dts pkt = pts pkt then 14 else 19) + length (pkt_data pkt)" "176 < len" "len < 184"
  shows "WritePes pkt s = None"
proof -
  let ?hdr = "pes_hdr pkt s" and ?data = "pkt_data pkt" and ?pid = "pes_pid pkt s" and ?t = "dts pkt * 90"
  have h: "length ?hdr = (if dts pkt = pts pkt then 14 else 19)" using assms(1) by (simp add: length_pes_hdr)
  have ne: "?hdr \<noteq> []" using h by (auto split: if_splits)
  have l: "length ?data + length ?hdr = len" using h len(1) by simp
  obtain cc s1 where c: "bump_cc True s = (cc, s1)" by fastforce
  have r: "unat (184 - of_nat len - 8 :: u8) = 432 - len"
  proof -
    have "(184 - of_nat len - 8 :: u8) = of_nat (432 - len)" using len(2,3) by (simp add: of_nat_diff)
    then show ?thesis using len(2) by (simp add: unat_small_u8)
  qed
  have u: "ts_unit True True ?pid cc ?t ?hdr ?data len
      = Some (ts_head True True ?pid cc ?t True @ AdaptationBufInit 176 (432 - len), 0, 0)"
  proof -
    have "188 \<le> 444 - len" "432 - len \<noteq> Suc 0" using len(2,3) by simp_all
    then show ?thesis
      using len(2,3) r by (simp add: ts_unit_def Let_def length_ts_head ts_codes AdaptationBufInit_def)
  qed
  have g: "grab len ?data = None" using l ne by (cases "?hdr") (auto simp: grab_def)
  have n: "pes_loop False pkt True ?pid ?t ?hdr ?data len 0 t = None" for t
  proof -
    obtain cc' t' where c': "bump_cc True t = (cc', t')" by fastforce
    show ?thesis using g len(2,3) c' by (subst pes_loop.simps) (simp add: ts_unit_next Let_def)
  qed
  have "WritePes pkt s = pes_loop True pkt True ?pid ?t ?hdr ?data len 0 s"
    using assms(1) l by (simp add: WritePes_def Let_def pes_pid_def pes_hdr_def)
  also have "\<dots> = None"
    using n assms(2) len(2) u by (subst pes_loop.simps) (simp add: c)
  finally show ?thesis .
qed

theorem ts_short_key_frame_witness:
  "WritePes (new_Media_Packet\<lparr>av_type := MEDIA_VIDEO_TYPE, is_key_frame := True, pkt_data := replicate 166 0\<rparr>)
     (new_MpegtsMux []) = None"
  by (rule ts_short_key_frame [OF _ _ refl]) (simp_all add: new_Media_Packet_def)

end
