(* ===== verification/RtpH264.thy ===== *)
theory RtpH264
  imports RtpPacket NaluHeader
begin

text \<open>
  net/rtprtcp/rtp_pack.hpp and rtp_h264_pack.cpp, the payload formats of RFC 6184 that the
  sender writes: a NALU alone in a packet, several NALUs in one packet (STAP-A) and a NALU cut
  into fragments (FU-A).  net/webrtc/pack_handle_h264.cpp and pack_handle_audio.hpp, the
  receiver: packets in the order of their extended sequence numbers come in, frames behind a
  start code go out.  The clock is an argument, and the callbacks of one call are the list
  of its events in their order.  A new buffer holds unspecified bytes: they are arguments too.
\<close>

section \<open>Building packets\<close>

definition kStapA :: u8 where "kStapA = 24"
definition kFuA :: u8 where "kFuA = 28"
definition kFBit :: u8 where "kFBit = 0x80"
definition kNriMask :: u8 where "kNriMask = 0x60"
definition kTypeMask :: u8 where "kTypeMask = 0x1f"
definition kSBit :: u8 where "kSBit = 0x80"
definition kEBit :: u8 where "kEBit = 0x40"
definition kPayloadMaxSize :: nat where "kPayloadMaxSize = 1200"

lemmas fu_consts = kStapA_def kFuA_def kFBit_def kNriMask_def kTypeMask_def kSBit_def kEBit_def

text \<open>
  \<open>MakeRtpPacket\<close>: \<open>buf\<close> is the new buffer; the extension is the list of its bytes.
  \<open>Inr None\<close> is the null pointer, which every caller dereferences.
\<close>

definition rtp_ext_bytes :: "bytes option \<Rightarrow> bytes option" where
  "rtp_ext_bytes ext = (case ext of None \<Rightarrow> Some []
     | Some e \<Rightarrow> do { l \<leftarrow> Read2Bytes (drop 2 e); grab (4 + 4 * unat l) e })"

definition MakeRtpPacket ::
  "int \<Rightarrow> bytes \<Rightarrow> bytes option \<Rightarrow> nat \<Rightarrow> (rtp_error + rtp_packet option) option" where
  "MakeRtpPacket now buf ext n = do {
     e \<leftarrow> rtp_ext_bytes ext;
     require (length buf = RTP_PACKET_MAX_SIZE \<and> RTP_HEADER_SIZE + length e \<le> RTP_PACKET_MAX_SIZE);
     let m = put_at 0 ((if ext = None then 0x80 else 0x90) # replicate 11 0 @ e) buf;
     let data_len = n + RTP_HEADER_SIZE + length e;
     (if data_len > RTP_PACKET_MAX_SIZE then Some (Inr None)
      else map_option (map_sum id (\<lambda>p. Some (p\<lparr>need_delete := True\<rparr>))) (Parse now m data_len)) }"

text \<open>The callers: the payload is written and its length set.\<close>

definition fill_packet :: "(rtp_error + rtp_packet option) option \<Rightarrow> bytes \<Rightarrow> (rtp_error + rtp_packet) option" where
  "fill_packet r data = (case r of
     None \<Rightarrow> None
   | Some (Inl e) \<Rightarrow> Some (Inl e)
   | Some (Inr None) \<Rightarrow> None
   | Some (Inr (Some p)) \<Rightarrow> do {
       require (rtp_payload p + length data \<le> length (rtp_mem p));
       Some (Inr (p\<lparr>rtp_mem := put_at (rtp_payload p) data (rtp_mem p), payload_len := length data\<rparr>)) })"

definition GenerateSinglePackets :: "int \<Rightarrow> bytes \<Rightarrow> bytes \<Rightarrow> bytes option \<Rightarrow> (rtp_error + rtp_packet) option" where
  "GenerateSinglePackets now buf data ext = fill_packet (MakeRtpPacket now buf ext (length data)) data"

definition stap_entry :: "bytes \<Rightarrow> bytes" where
  "stap_entry nalu = [of_nat (length nalu div 256), of_nat (length nalu)] @ nalu"

definition GenerateStapAPackets :: "int \<Rightarrow> bytes \<Rightarrow> bytes list \<Rightarrow> bytes option \<Rightarrow> (rtp_error + rtp_packet) option" where
  "GenerateStapAPackets now buf nalus ext = (case MakeRtpPacket now buf ext (1 + (\<Sum>nalu\<leftarrow>nalus. 2 + length nalu)) of
     Some (Inr (Some p)) \<Rightarrow> do {
       nalu \<leftarrow> rd nalus 0;
       h \<leftarrow> rd nalu 0;
       fill_packet (Some (Inr (Some p))) (((h AND (kFBit OR kNriMask)) OR kStapA) # concat (map stap_entry nalus)) }
   | r \<Rightarrow> fill_packet r [])"

text \<open>The loop of \<open>SplitNalu\<close>; a negative length becomes a very large \<open>size_t\<close>, on which it runs out of memory.\<close>

function split_loop :: "nat \<Rightarrow> nat list" where
  "split_loop payload_left =
     (if payload_left > 0 then
        (if payload_left > kPayloadMaxSize then kPayloadMaxSize # split_loop (payload_left - kPayloadMaxSize)
         else [payload_left])
      else [])"
  by pat_completeness auto

termination by (relation "measure (\<lambda>n. n)") (auto simp: kPayloadMaxSize_def)

declare split_loop.simps [simp del]

definition SplitNalu :: "int \<Rightarrow> nat list option" where
  "SplitNalu n = (if n < 0 then None else Some (split_loop (nat n)))"

definition fu_payload :: "u8 \<Rightarrow> bool \<Rightarrow> bool \<Rightarrow> bytes \<Rightarrow> bytes" where
  "fu_payload h first final d =
     [(h AND (kFBit OR kNriMask)) OR kFuA,
      (if first then kSBit else 0) OR (if final then kEBit else 0) OR (h AND kTypeMask)] @ d"

fun fua_loop :: "int \<Rightarrow> (nat \<Rightarrow> bytes) \<Rightarrow> bytes option \<Rightarrow> u8 \<Rightarrow> nat \<Rightarrow> nat list \<Rightarrow> bytes \<Rightarrow> (rtp_error + rtp_packet list) option" where
  "fua_loop now bufs ext h i [] fragment = Some (Inr [])"
| "fua_loop now bufs ext h i (s # sizes) fragment =
     (case fill_packet (MakeRtpPacket now (bufs i) ext (2 + s)) (fu_payload h (i = 0) (sizes = []) (take s fragment)) of
        None \<Rightarrow> None
      | Some (Inl e) \<Rightarrow> Some (Inl e)
      | Some (Inr p) \<Rightarrow>
          map_option (map_sum id ((#) (SetMarker (if sizes = [] then 1 else 0) p)))
            (fua_loop now bufs ext h (i + 1) sizes (drop s fragment)))"

text \<open>\<open>size_t\<close> to \<open>int\<close>: the length of the NALU, less its header, in 32 bits.\<close>

definition GenerateFuAPackets :: "int \<Rightarrow> (nat \<Rightarrow> bytes) \<Rightarrow> bytes \<Rightarrow> bytes option \<Rightarrow> (rtp_error + rtp_packet list) option" where
  "GenerateFuAPackets now bufs nalu ext = do {
     sizes \<leftarrow> SplitNalu (sint (of_int (int (length nalu) - 1) :: 32 word));
     h \<leftarrow> rd nalu 0;
     fua_loop now bufs ext h 0 sizes (drop 1 nalu) }"

section \<open>The receiver\<close>

record rtp_packet_info =
  info_media_type :: MEDIA_PKT_TYPE
  info_pkt :: rtp_packet
  extend_seq :: int
  info_clock_rate :: int

datatype pack_event = PackHandleReset rtp_packet_info | MediaPacketOutput media_packet

definition PACK_BUFFER_TIMEOUT :: int where "PACK_BUFFER_TIMEOUT = 600"

record pack_handle_h264 =
  ph_init_flag :: bool
  ph_start_flag :: bool
  ph_end_flag :: bool
  ph_last_extend_seq :: int
  packets_queue :: "rtp_packet_info list"
  ph_report_lost_ts :: int

definition new_PackHandleH264 :: pack_handle_h264 where
  "new_PackHandleH264 = \<lparr> ph_init_flag = False, ph_start_flag = False, ph_end_flag = False,
     ph_last_extend_seq = 0, packets_queue = [], ph_report_lost_ts = -1 \<rparr>"

definition GetStartEndBit :: "rtp_packet \<Rightarrow> (bool \<times> bool) option" where
  "GetStartEndBit p = do { fu_header \<leftarrow> rd (GetPayload p) 1; Some (fu_header AND 0x80 \<noteq> 0, fu_header AND 0x40 \<noteq> 0) }"

definition ph_ReportLost :: "int \<Rightarrow> rtp_packet_info \<Rightarrow> pack_handle_h264 \<Rightarrow> pack_handle_h264 \<times> pack_event list" where
  "ph_ReportLost now pkt_ptr s =
     (if now - ph_report_lost_ts s > 500 then (s\<lparr>ph_report_lost_ts := now\<rparr>, [PackHandleReset pkt_ptr]) else (s, []))"

definition CheckFuaTimeout :: "int \<Rightarrow> pack_handle_h264 \<Rightarrow> pack_handle_h264" where
  "CheckFuaTimeout now s =
     s\<lparr>packets_queue := dropWhile (\<lambda>i. \<not> now - local_ms (info_pkt i) < PACK_BUFFER_TIMEOUT) (packets_queue s)\<rparr>"

definition ph_OnTimer :: "int \<Rightarrow> pack_handle_h264 \<Rightarrow> pack_handle_h264" where
  "ph_OnTimer now s = CheckFuaTimeout now s"

definition ResetRtpFua :: "pack_handle_h264 \<Rightarrow> pack_handle_h264" where
  "ResetRtpFua s = s\<lparr>ph_start_flag := False, ph_end_flag := False, packets_queue := []\<rparr>"

text \<open>A frame for the next component; the flags come from the type of its NALU.\<close>

definition h264_frame :: "bytes \<Rightarrow> int \<Rightarrow> u8 \<Rightarrow> media_packet" where
  "h264_frame data ts nal_type = new_Media_Packet\<lparr>
     pkt_data := data, av_type := MEDIA_VIDEO_TYPE, codec_type := MEDIA_CODEC_H264, fmt_type := MEDIA_FORMAT_RAW,
     dts := ts, pts := ts, is_seq_hdr := (nal_type = kSps \<or> nal_type = kPps), is_key_frame := (nal_type = kIdr)\<rparr>"

text \<open>The bytes of the payload from an offset on; a payload shorter than that gives a length below 0.\<close>

definition payload_from :: "nat \<Rightarrow> rtp_packet \<Rightarrow> bytes option" where
  "payload_from k p = do { require (k \<le> payload_len p); grab (payload_len p - k) (drop k (GetPayload p)) }"

text \<open>\<open>DemuxFua\<close>: what is left of the queue, the frame's bytes, the timestamp and the two flags.\<close>

fun demux_fua_loop :: "bool \<Rightarrow> rtp_packet_info list \<Rightarrow> bytes \<Rightarrow> int \<Rightarrow> bool \<Rightarrow>
    (rtp_packet_info list \<times> bytes \<times> int \<times> bool \<times> bool) option" where
  "demux_fua_loop first [] data ts has_start = Some ([], data, ts, has_start, False)"
| "demux_fua_loop first (i # queue) data ts has_start = do {
     let p = info_pkt i;
     let ts = int (unat (GetTimestamp p));
     (start, end_bit) \<leftarrow> GetStartEndBit p;
     (data, has_start) \<leftarrow>
       (if first then
          (if start then do {
             fu_indicator \<leftarrow> rd (GetPayload p) 0;
             fu_header \<leftarrow> rd (GetPayload p) 1;
             d \<leftarrow> payload_from 2 p;
             Some (data @ START_CODE @ [(fu_indicator AND 0xe0) OR (fu_header AND 0x1f)] @ d, True) }
           else Some (data, has_start))
        else if has_start then do { d \<leftarrow> payload_from 2 p; Some (data @ d, has_start) }
        else Some (data, has_start));
     (if end_bit then Some (queue, data, ts, has_start, True)
      else demux_fua_loop False queue data ts has_start) }"

text \<open>\<open>ParseStapAOffsets\<close> and the loop of \<open>DemuxStapA\<close> over the offsets.\<close>

function stapa_offsets :: "bytes \<Rightarrow> nat \<Rightarrow> nat \<Rightarrow> (bool \<times> nat list) option" where
  "stapa_offsets p left_len offset =
     (if left_len > 0 then
        (if left_len < 2 then Some (False, [])
         else (case Read2Bytes p of None \<Rightarrow> None
           | Some nalu_len \<Rightarrow>
              if unat nalu_len > left_len - 2 then Some (False, [])
              else map_option (\<lambda>(ok, offs). (ok, (offset + 2) # offs))
                     (stapa_offsets (drop (2 + unat nalu_len) p) (left_len - 2 - unat nalu_len) (offset + 2 + unat nalu_len))))
      else Some (True, []))"
  by pat_completeness auto

termination by (relation "measure (\<lambda>(p, left_len, offset). left_len)") auto

declare stapa_offsets.simps [simp del]

definition ParseStapAOffsets :: "bytes \<Rightarrow> nat \<Rightarrow> (bool \<times> nat list) option" where
  "ParseStapAOffsets data data_len = stapa_offsets (drop 1 data) (data_len - 1) 1"

fun stapa_frames :: "bytes \<Rightarrow> int \<Rightarrow> nat list \<Rightarrow> (bool \<times> pack_event list) option" where
  "stapa_frames data ts (start_offset # next_offset # offs) =
     (let end_offset = next_offset - 2 in
      if end_offset - start_offset < 1 then Some (False, [])
      else do {
        d \<leftarrow> grab (end_offset - start_offset) (drop start_offset data);
        h \<leftarrow> rd data start_offset;
        (ok, evs) \<leftarrow> stapa_frames data ts (next_offset # offs);
        Some (ok, MediaPacketOutput (h264_frame (START_CODE @ d) ts (h AND 0x1f)) # evs) })"
| "stapa_frames data ts _ = Some (True, [])"

definition DemuxStapA :: "rtp_packet_info \<Rightarrow> (bool \<times> pack_event list) option" where
  "DemuxStapA pkt_ptr = (let p = info_pkt pkt_ptr; payload_data = GetPayload p; payload_length = payload_len p in
     if payload_length \<le> 3 then Some (False, [])
     else do {
       (ok, offsets) \<leftarrow> ParseStapAOffsets payload_data payload_length;
       if \<not> ok then Some (False, [])
       else stapa_frames payload_data (int (unat (GetTimestamp p))) (offsets @ [payload_length + 2]) })"

text \<open>The packets with fragments: the two flags, the queue and the frame.\<close>

definition input_fua :: "int \<Rightarrow> rtp_packet_info \<Rightarrow> pack_handle_h264 \<Rightarrow> (pack_handle_h264 \<times> pack_event list) option" where
  "input_fua now pkt_ptr s = do {
     (start, end_bit) \<leftarrow> GetStartEndBit (info_pkt pkt_ptr);
     let s = (if start \<and> \<not> end_bit then s\<lparr>packets_queue := [], ph_start_flag := start\<rparr> else s);
     if start \<and> end_bit \<or> end_bit \<and> \<not> ph_start_flag s then Some (ph_ReportLost now pkt_ptr (ResetRtpFua s))
     else do {
       let s = (if end_bit then s\<lparr>ph_end_flag := True\<rparr> else s);
       let s = s\<lparr>packets_queue := packets_queue s @ [pkt_ptr]\<rparr>;
       if ph_start_flag s \<and> ph_end_flag s then do {
         (queue, data, ts, has_start, has_end) \<leftarrow> demux_fua_loop True (packets_queue s) [] 0 False;
         let s = s\<lparr>packets_queue := queue\<rparr>;
         (s, evs) \<leftarrow>
           (if has_start \<and> has_end then do {
              nal_type \<leftarrow> rd data 4;
              Some (s, [MediaPacketOutput (h264_frame data ts (nal_type AND 0x1f))]) }
            else Some (ph_ReportLost now pkt_ptr s));
         Some (s\<lparr>ph_start_flag := False, ph_end_flag := False\<rparr>, evs) }
       else Some (CheckFuaTimeout now s, []) } }"

definition input_payload :: "int \<Rightarrow> rtp_packet_info \<Rightarrow> pack_handle_h264 \<Rightarrow> (pack_handle_h264 \<times> pack_event list) option" where
  "input_payload now pkt_ptr s = do {
     let p = info_pkt pkt_ptr;
     b \<leftarrow> rd (GetPayload p) 0;
     let nal_type = b AND 0x1f;
     if 1 \<le> nal_type \<and> nal_type \<le> 23 then do {
       d \<leftarrow> payload_from 0 p;
       Some (s, [MediaPacketOutput (h264_frame (START_CODE @ d) (int (unat (GetTimestamp p))) nal_type)]) }
     else if nal_type = kFuA then input_fua now pkt_ptr s
     else if nal_type = kStapA then do {
       (ok, evs) \<leftarrow> DemuxStapA pkt_ptr;
       let (s, lost) = (if ok then (s, []) else ph_ReportLost now pkt_ptr s);
       Some (s, evs @ lost) }
     else Some (s, []) }"

definition ph_InputRtpPacket :: "int \<Rightarrow> rtp_packet_info \<Rightarrow> pack_handle_h264 \<Rightarrow> (pack_handle_h264 \<times> pack_event list) option" where
  "ph_InputRtpPacket now pkt_ptr s =
     (if ph_init_flag s \<and> ph_last_extend_seq s + 1 \<noteq> extend_seq pkt_ptr then
        (let (s, evs) = ph_ReportLost now pkt_ptr (ResetRtpFua s)
         in Some (s\<lparr>ph_last_extend_seq := extend_seq pkt_ptr\<rparr>, evs))
      else input_payload now pkt_ptr (s\<lparr>ph_init_flag := True, ph_last_extend_seq := extend_seq pkt_ptr\<rparr>))"

text \<open>\<open>PackHandleAudio\<close>: each packet is a frame.\<close>

definition pa_InputRtpPacket :: "rtp_packet_info \<Rightarrow> pack_event list option" where
  "pa_InputRtpPacket pkt_ptr = do {
     let p = info_pkt pkt_ptr;
     let ts = int (unat (GetTimestamp p));
     d \<leftarrow> payload_from 0 p;
     Some [MediaPacketOutput (new_Media_Packet\<lparr>pkt_data := d, av_type := MEDIA_AUDIO_TYPE, codec_type := MEDIA_CODEC_OPUS,
       fmt_type := MEDIA_FORMAT_RAW, dts := ts, pts := ts\<rparr>)] }"

text \<open>A receiver that is given packets, each with the time of its arrival.\<close>

fun ph_run :: "(int \<times> rtp_packet_info) list \<Rightarrow> pack_handle_h264 \<Rightarrow> (pack_handle_h264 \<times> pack_event list) option" where
  "ph_run [] s = Some (s, [])"
| "ph_run ((now, i) # is) s = do {
     (s, evs) \<leftarrow> ph_InputRtpPacket now i s;
     (s, evs') \<leftarrow> ph_run is s;
     Some (s, evs @ evs') }"

section \<open>What the sender builds\<close>

lemma fu_bits:
  fixes h :: u8
  shows "(((h AND (kFBit OR kNriMask)) OR kFuA) AND 0xe0) OR
      (((if first then kSBit else 0) OR (if final then kEBit else 0) OR (h AND kTypeMask)) AND 0x1f) = h"
    "((h AND (kFBit OR kNriMask)) OR kFuA) AND 0x1f = kFuA"
    "((if first then kSBit else 0) OR (if final then kEBit else 0) OR (h AND kTypeMask)) AND 0x80 \<noteq> 0 \<longleftrightarrow> first"
    "((if first then kSBit else 0) OR (if final then kEBit else 0) OR (h AND kTypeMask)) AND 0x40 \<noteq> 0 \<longleftrightarrow> final"
proof -
  have "(h AND 0xe0) OR (h AND 0x1f) = h AND (0xe0 OR 0x1f)" by (simp only: word_ao_dist2)
  moreover have "(0xe0 OR 0x1f :: u8) = - 1" by simp
  ultimately have h: "(h AND 0xe0) OR (h AND 0x1f) = h" by (simp only: and.right_neutral)
  show "(((h AND (kFBit OR kNriMask)) OR kFuA) AND 0xe0) OR
      (((if first then kSBit else 0) OR (if final then kEBit else 0) OR (h AND kTypeMask)) AND 0x1f) = h"
    by (simp add: fu_consts word_ao_dist word_bw_assocs h)
  show "((h AND (kFBit OR kNriMask)) OR kFuA) AND 0x1f = kFuA"
    by (simp add: fu_consts word_ao_dist word_bw_assocs)
  show "((if first then kSBit else 0) OR (if final then kEBit else 0) OR (h AND kTypeMask)) AND 0x80 \<noteq> 0 \<longleftrightarrow> first"
    by (simp add: fu_consts word_ao_dist word_bw_assocs)
  show "((if first then kSBit else 0) OR (if final then kEBit else 0) OR (h AND kTypeMask)) AND 0x40 \<noteq> 0 \<longleftrightarrow> final"
    by (simp add: fu_consts word_ao_dist word_bw_assocs)
qed

text \<open>A new packet: the payload begins behind the 12 bytes of the header.\<close>

definition blank_packet :: "int \<Rightarrow> nat \<Rightarrow> rtp_packet \<Rightarrow> bool" where
  "blank_packet now n p \<longleftrightarrow> rtp_payload p = 12 \<and> payload_len p = n \<and> length (rtp_mem p) = 1500 \<and> rtp_data_len p = 12 + n \<and>
     \<not> HasPadding p \<and> pad_len p = 0 \<and> local_ms p = now \<and> take 12 (rtp_mem p) = 0x80 # replicate 11 0"

lemma MakeRtpPacket_ok:
  assumes "length buf = 1500" "0 < n" "n \<le> 1488"
  obtains p where "MakeRtpPacket now buf None n = Some (Inr (Some p))" "blank_packet now n p"
proof -
  define m where "m = put_at 0 (0x80 # replicate 11 0) buf"
  have m: "length m = 1500" "take 12 m = 0x80 # replicate 11 0" "m ! 0 = 0x80" "m \<noteq> []"
    using assms(1) by (auto simp: m_def put_at_def)
  define p where "p = \<lparr> rtp_mem = m, rtp_ext = None, rtp_payload = 12, payload_len = n,
               pad_len = 0, rtp_data_len = 12 + n, local_ms = now, need_delete = True,
               mid_extension_id = 0, abs_time_extension_id = 0,
               onebyte_ext_map = Map.empty, twobytes_ext_map = Map.empty \<rparr>"
  have "MakeRtpPacket now buf None n = Some (Inr (Some p))"
    using assms m
    by (simp add: MakeRtpPacket_def rtp_ext_bytes_def RTP_PACKET_MAX_SIZE_def RTP_HEADER_SIZE_def m_def [symmetric]
        Parse_def rtp_parse_payload_def ParseExt_def Let_def p_def bit_simps)
  moreover have "blank_packet now n p" using m by (simp add: blank_packet_def p_def HasPadding_def bit_simps)
  ultimately show thesis by (rule that)
qed

lemma fill_blank:
  assumes "blank_packet now (length d) p" "length d \<le> 1488" "0 < length d"
  obtains q where "fill_packet (Some (Inr (Some p))) d = Some (Inr q)" "carries d q"
    "length (rtp_mem q) = 1500" "rtp_payload q = 12" "local_ms q = now" "take 12 (rtp_mem q) = 0x80 # replicate 11 0"
proof -
  define q where "q = p\<lparr>rtp_mem := put_at 12 d (rtp_mem p), payload_len := length d\<rparr>"
  have "fill_packet (Some (Inr (Some p))) d = Some (Inr q)"
    using assms by (simp add: fill_packet_def blank_packet_def q_def)
  moreover have "carries d q" "length (rtp_mem q) = 1500" "rtp_payload q = 12" "local_ms q = now"
    "take 12 (rtp_mem q) = 0x80 # replicate 11 0"
    using assms by (auto simp: q_def blank_packet_def carries_def payload_of_def GetPayload_def RTP_HEADER_SIZE_def
        drop_put_at HasPadding_def put_at_def nth_append)
  ultimately show thesis by (rule that)
qed

text \<open>The fragments that a list of sizes cuts a list into, and the packets that carry them.\<close>

fun cut_sizes :: "nat list \<Rightarrow> bytes \<Rightarrow> bytes list" where
  "cut_sizes [] d = []"
| "cut_sizes (n # ns) d = take n d # cut_sizes ns (drop n d)"

lemma concat_cut: "sum_list ns = length d \<Longrightarrow> concat (cut_sizes ns d) = d"
proof (induction ns arbitrary: d)
  case (Cons n ns)
  then show ?case using Cons.IH [of "drop n d"] by simp
qed simp

lemma cut_Nil_iff [simp]: "cut_sizes ns d = [] \<longleftrightarrow> ns = []"
  by (cases ns) simp_all

lemma length_cut [simp]: "length (cut_sizes ns d) = length ns"
  by (induction ns arbitrary: d) simp_all

lemma split_loop_sizes: "sum_list (split_loop n) = n" "s \<in> set (split_loop n) \<Longrightarrow> 0 < s \<and> s \<le> 1200"
proof (induction n rule: split_loop.induct)
  case (1 n)
  { case 1 show ?case using "1.IH"(1) by (subst split_loop.simps) (auto simp: kPayloadMaxSize_def) }
  { case 2 then show ?case using "1.IH"(2) by (subst (asm) split_loop.simps) (auto simp: kPayloadMaxSize_def split: if_splits) }
qed

lemma split_loop_big: "1200 < n \<Longrightarrow> \<exists>ns. split_loop n = 1200 # ns \<and> ns \<noteq> []"
  using split_loop_sizes(1) [of "n - 1200"] split_loop.simps [of n] by (auto simp: kPayloadMaxSize_def)

fun fu_packets :: "u8 \<Rightarrow> bool \<Rightarrow> bytes list \<Rightarrow> rtp_packet list \<Rightarrow> bool" where
  "fu_packets h first [] ps \<longleftrightarrow> ps = []"
| "fu_packets h first (f # fs) [] \<longleftrightarrow> False"
| "fu_packets h first (f # fs) (p # ps) \<longleftrightarrow> carries (fu_payload h first (fs = []) f) p \<and>
     GetMarker p = (if fs = [] then 1 else 0) \<and> length (rtp_mem p) = 1500 \<and> rtp_payload p = 12 \<and>
     fu_packets h False fs ps"

lemma carries_SetMarker: "carries d p \<Longrightarrow> carries d (SetMarker b p)"
  by (auto simp: carries_def SetMarker_def RTP_HEADER_SIZE_def payload_of_def GetPayload_def HasPadding_def
      drop_put_at_later nth_put_at)

lemma fua_loop_ok:
  assumes "\<And>k. length (bufs k) = 1500" "\<forall>s\<in>set sizes. 0 < s \<and> s \<le> 1200" "sum_list sizes = length d"
  shows "\<exists>ps. fua_loop now bufs None h i sizes d = Some (Inr ps) \<and> fu_packets h (i = 0) (cut_sizes sizes d) ps \<and> length ps = length sizes"
  using assms(2,3)
proof (induction sizes arbitrary: i d)
  case (Cons s sizes)
  define pl where "pl = fu_payload h (i = 0) (sizes = []) (take s d)"
  have l: "length pl = 2 + s" using Cons.prems by (simp add: pl_def fu_payload_def)
  obtain p where p: "MakeRtpPacket now (bufs i) None (2 + s) = Some (Inr (Some p))" "blank_packet now (2 + s) p"
    using MakeRtpPacket_ok [of "bufs i" "2 + s" now] assms(1) Cons.prems by auto
  obtain q where q: "fill_packet (Some (Inr (Some p))) pl = Some (Inr q)" "carries pl q"
    "length (rtp_mem q) = 1500" "rtp_payload q = 12" "take 12 (rtp_mem q) = 0x80 # replicate 11 0"
    using fill_blank [of now pl p] p(2) l Cons.prems by auto
  have "rtp_mem q ! 1 = take 12 (rtp_mem q) ! 1" by simp
  then have q1: "rtp_mem q ! 1 = 0" unfolding q(5) by simp
  obtain ps where ps: "fua_loop now bufs None h (i + 1) sizes (drop s d) = Some (Inr ps)"
    "fu_packets h False (cut_sizes sizes (drop s d)) ps" "length ps = length sizes"
  proof -
    have "sum_list sizes = length (drop s d)" using Cons.prems by simp
    then show thesis using Cons.IH [of "drop s d" "i + 1"] Cons.prems that by auto
  qed
  let ?q = "SetMarker (if sizes = [] then 1 else 0) q"
  have "GetMarker ?q = (if sizes = [] then 1 else 0)" "length (rtp_mem ?q) = 1500" "rtp_payload ?q = 12"
    using q(3,4) q1 by (simp_all add: GetMarker_def SetMarker_def nth_put_at)
  then show ?case using p(1) q ps carries_SetMarker [OF q(2)] by (simp add: pl_def)
qed simp

lemma GenerateFuAPackets_ok:
  assumes "\<And>k. length (bufs k) = 1500" "length nalu < 2 ^ 31" "2 \<le> length nalu"
  obtains ps where "GenerateFuAPackets now bufs nalu None = Some (Inr ps)"
    "fu_packets (hd nalu) True (cut_sizes (split_loop (length nalu - 1)) (tl nalu)) ps" "length ps = length (split_loop (length nalu - 1))"
proof -
  obtain h d where n: "nalu = h # d" "d \<noteq> []" using assms(3) by (cases nalu; cases "tl nalu") auto
  have "sint (of_int (int (length d)) :: 32 word) = int (length d)"
    using assms(2) n by (simp add: int_word_sint del: of_int_of_nat_eq)
  then have "SplitNalu (sint (of_int (int (length nalu) - 1) :: 32 word)) = Some (split_loop (length d))"
    by (simp add: SplitNalu_def n del: of_int_of_nat_eq)
  moreover have "\<forall>s\<in>set (split_loop (length d)). 0 < s \<and> s \<le> 1200" "sum_list (split_loop (length d)) = length d"
    using split_loop_sizes by auto
  ultimately show thesis
    using fua_loop_ok [of bufs "split_loop (length d)" d now h 0] assms(1) that
    by (auto simp: GenerateFuAPackets_def n simp del: of_int_of_nat_eq)
qed

section \<open>What the receiver makes of it\<close>

text \<open>A packet whose payload is \<open>d\<close>.\<close>

definition has_payload :: "bytes \<Rightarrow> rtp_packet \<Rightarrow> bool" where
  "has_payload d q \<longleftrightarrow> payload_len q = length d \<and> take (length d) (GetPayload q) = d"

lemma has_payload_rd: "has_payload d q \<Longrightarrow> k < length d \<Longrightarrow> rd (GetPayload q) k = Some (d ! k)"
proof -
  assume a: "has_payload d q" "k < length d"
  then have "take (length d) (GetPayload q) = d" by (simp add: has_payload_def)
  then have "length d \<le> length (GetPayload q)" "GetPayload q ! k = d ! k"
    using a(2) by (metis length_take min.absorb_iff2 min.commute, metis nth_take)
  then show ?thesis using a(2) by (simp add: rd_def)
qed

lemma has_payload_from: "has_payload d q \<Longrightarrow> k \<le> length d \<Longrightarrow> payload_from k q = Some (drop k d)"
proof -
  assume a: "has_payload d q" "k \<le> length d"
  then have t: "take (length d) (GetPayload q) = d" "payload_len q = length d" by (simp_all add: has_payload_def)
  then have "length d \<le> length (GetPayload q)" by (metis length_take min.absorb_iff2 min.commute)
  moreover have "take (length d - k) (drop k (GetPayload q)) = drop k d" using arg_cong [OF t(1), of "drop k"] by (simp add: drop_take)
  ultimately show ?thesis using t(2) a(2) by (simp add: payload_from_def grab_def)
qed

fun fu_infos :: "u8 \<Rightarrow> bool \<Rightarrow> u32 \<Rightarrow> int \<Rightarrow> bytes list \<Rightarrow> rtp_packet_info list \<Rightarrow> bool" where
  "fu_infos h first ts e [] is \<longleftrightarrow> is = []"
| "fu_infos h first ts e (f # fs) [] \<longleftrightarrow> False"
| "fu_infos h first ts e (f # fs) (i # is) \<longleftrightarrow> has_payload (fu_payload h first (fs = []) f) (info_pkt i) \<and>
     GetTimestamp (info_pkt i) = ts \<and> extend_seq i = e \<and> fu_infos h False ts (e + 1) fs is"

lemma fu_payload_parts:
  assumes "has_payload (fu_payload h first final f) q"
  shows "GetStartEndBit q = Some (first, final)" "payload_from 2 q = Some f"
    "\<exists>b0 b1. rd (GetPayload q) 0 = Some b0 \<and> rd (GetPayload q) (Suc 0) = Some b1 \<and> (b0 AND 0xe0) OR (b1 AND 0x1f) = h \<and> b0 AND 0x1f = kFuA"
  using has_payload_rd [OF assms, of 0] has_payload_rd [OF assms, of 1] has_payload_from [OF assms, of 2]
  by (simp_all add: fu_payload_def GetStartEndBit_def fu_bits)

lemma demux_tail:
  "fu_infos h False ts e fs is \<Longrightarrow> fs \<noteq> [] \<Longrightarrow>
   demux_fua_loop False is data t True = Some ([], data @ concat fs, int (unat ts), True, True)"
proof (induction h "False" ts e fs "is" arbitrary: data t rule: fu_infos.induct)
  case (3 h ts e f fs i "is")
  then have i: "has_payload (fu_payload h False (fs = []) f) (info_pkt i)" "GetTimestamp (info_pkt i) = ts" by simp_all
  note p = fu_payload_parts [OF i(1)]
  show ?case
  proof (cases "fs = []")
    case True
    then show ?thesis using 3 p i by simp
  next
    case False
    then show ?thesis using 3 p i by simp
  qed
qed simp_all

lemma demux_all:
  assumes "fu_infos h True ts e (f # fs) is" "fs \<noteq> []"
  shows "demux_fua_loop True is [] 0 False = Some ([], START_CODE @ h # f @ concat fs, int (unat ts), True, True)"
proof -
  obtain i "is'" where "is": "is = i # is'" "has_payload (fu_payload h True False f) (info_pkt i)" "GetTimestamp (info_pkt i) = ts"
    "fu_infos h False ts (e + 1) fs is'" using assms by (cases "is") auto
  note p = fu_payload_parts [OF "is"(2)]
  from demux_tail [OF "is"(4) assms(2)] p "is" show ?thesis by auto
qed

text \<open>No packet of a list has been waiting for 600 ms at the time \<open>now\<close>.\<close>

definition in_time :: "int \<Rightarrow> rtp_packet_info list \<Rightarrow> bool" where
  "in_time now is \<longleftrightarrow> (\<forall>i\<in>set is. now - local_ms (info_pkt i) < PACK_BUFFER_TIMEOUT)"

lemma CheckFuaTimeout_in_time: "in_time now (packets_queue s) \<Longrightarrow> CheckFuaTimeout now s = s"
  by (cases "packets_queue s") (auto simp: CheckFuaTimeout_def in_time_def)

lemma input_is_fua:
  assumes "has_payload (fu_payload h first final f) (info_pkt i)"
  shows "input_payload now i s = input_fua now i s"
proof -
  obtain b0 where "rd (GetPayload (info_pkt i)) 0 = Some b0" "b0 AND 0x1f = kFuA"
    using fu_payload_parts [OF assms] by auto
  then show ?thesis by (simp add: input_payload_def kFuA_def)
qed

lemma fua_step:
  assumes "has_payload (fu_payload h first False f) (info_pkt i)" "first \<or> ph_start_flag s" "\<not> ph_end_flag s"
    "in_time now ((if first then [] else packets_queue s) @ [i])"
  shows "input_fua now i s = Some (s\<lparr>packets_queue := (if first then [] else packets_queue s) @ [i],
     ph_start_flag := True\<rparr>, [])"
  using assms(2-4) fu_payload_parts(1) [OF assms(1)] by (auto simp: input_fua_def CheckFuaTimeout_in_time)

lemma fua_final:
  assumes "has_payload (fu_payload h False True f) (info_pkt i)" "ph_start_flag s"
    "demux_fua_loop True (packets_queue s @ [i]) [] 0 False = Some ([], START_CODE @ b # d, ts, True, True)"
  shows "input_fua now i s = Some (s\<lparr>packets_queue := [], ph_start_flag := False, ph_end_flag := False\<rparr>,
     [MediaPacketOutput (h264_frame (START_CODE @ b # d) ts (b AND 0x1f))])"
  using assms(2,3) fu_payload_parts(1) [OF assms(1)] by (simp add: input_fua_def START_CODE_def)

lemma fua_feed:
  assumes "fu_infos h False ts e fs (map snd arr)" "fs \<noteq> []"
    and "ph_init_flag s" "ph_start_flag s" "\<not> ph_end_flag s" "ph_last_extend_seq s + 1 = e"
    and "demux_fua_loop True (packets_queue s @ map snd arr) [] 0 False = Some ([], START_CODE @ b # d, t, True, True)"
    and "\<forall>(now, i)\<in>set arr. in_time now (packets_queue s @ map snd arr)"
  shows "ph_run arr s = Some (s\<lparr>packets_queue := [], ph_start_flag := False, ph_end_flag := False,
       ph_last_extend_seq := e + int (length fs) - 1\<rparr>,
     [MediaPacketOutput (h264_frame (START_CODE @ b # d) t (b AND 0x1f))])"
  using assms
proof (induction fs arbitrary: e arr s)
  case (Cons f fs)
  obtain now i arr' where arr: "arr = (now, i) # arr'" using Cons.prems(1) by (cases arr) auto
  let ?s = "s\<lparr>ph_init_flag := True, ph_last_extend_seq := e\<rparr>"
  have i: "has_payload (fu_payload h False (fs = []) f) (info_pkt i)" "extend_seq i = e" "fu_infos h False ts (e + 1) fs (map snd arr')"
    using Cons.prems(1) by (simp_all add: arr)
  have inp: "ph_InputRtpPacket now i s = input_fua now i ?s"
    using Cons.prems(3,6) i by (simp add: ph_InputRtpPacket_def input_is_fua [OF i(1)])
  show ?case
  proof (cases "fs = []")
    case True
    with i(3) have "arr' = []" by simp
    have "input_fua now i ?s = Some (?s\<lparr>packets_queue := [], ph_start_flag := False, ph_end_flag := False\<rparr>,
        [MediaPacketOutput (h264_frame (START_CODE @ b # d) t (b AND 0x1f))])"
      using Cons.prems(4,7) i(1) True by (intro fua_final) (simp_all add: arr \<open>arr' = []\<close>)
    with True show ?thesis using Cons.prems(3) by (simp add: arr \<open>arr' = []\<close> inp)
  next
    case False
    let ?t = "?s\<lparr>packets_queue := packets_queue s @ [i], ph_start_flag := True\<rparr>"
    have "in_time now (packets_queue s @ [i])" using Cons.prems(8) by (simp add: arr in_time_def)
    then have "input_fua now i ?s = Some (?t, [])"
      using fua_step [of h False f i ?s now] i(1) False Cons.prems(4,5) by simp
    moreover have "ph_run arr' ?t = Some (?t\<lparr>packets_queue := [], ph_start_flag := False, ph_end_flag := False,
       ph_last_extend_seq := e + 1 + int (length fs) - 1\<rparr>,
       [MediaPacketOutput (h264_frame (START_CODE @ b # d) t (b AND 0x1f))])"
      using Cons.prems(5,7,8) False i(3) by (intro Cons.IH) (auto simp: arr)
    ultimately show ?thesis using Cons.prems(3) by (simp add: arr inp)
  qed
qed simp

text \<open>
  The receiver's packets hold what the sender's packets hold: the same payloads, one timestamp and
  extended sequence numbers that go up by one.
\<close>

fun delivers :: "u32 \<Rightarrow> int \<Rightarrow> rtp_packet list \<Rightarrow> rtp_packet_info list \<Rightarrow> bool" where
  "delivers ts e [] is \<longleftrightarrow> is = []"
| "delivers ts e (p # ps) [] \<longleftrightarrow> False"
| "delivers ts e (p # ps) (i # is) \<longleftrightarrow> has_payload (payload_of p) (info_pkt i) \<and> GetTimestamp (info_pkt i) = ts \<and>
     extend_seq i = e \<and> delivers ts (e + 1) ps is"

text \<open>The receiver expects the sequence number \<open>e\<close> and no frame is complete.\<close>

definition ph_ready :: "int \<Rightarrow> pack_handle_h264 \<Rightarrow> bool" where
  "ph_ready e s \<longleftrightarrow> \<not> ph_end_flag s \<and> (ph_init_flag s \<longrightarrow> ph_last_extend_seq s + 1 = e)"

lemma fu_infos_delivers: "fu_packets h first fs ps \<Longrightarrow> delivers ts e ps is \<Longrightarrow> fu_infos h first ts e fs is"
proof (induction h first fs ps arbitrary: e "is" rule: fu_packets.induct)
  case (3 h first f fs p ps)
  then show ?case by (cases "is") (auto simp: carries_def)
qed simp_all

lemma fua_receive:
  assumes fi: "fu_infos h True ts e (f # fs) (map snd arr)" and "fs \<noteq> []" and s: "ph_ready e s"
    and "in": "\<forall>(now, i)\<in>set arr. in_time now (map snd arr)"
  shows "\<exists>s'. ph_run arr s = Some (s', [MediaPacketOutput (h264_frame (START_CODE @ h # f @ concat fs) (int (unat ts)) (h AND 0x1f))]) \<and>
     ph_ready (e + int (length fs) + 1) s' \<and> packets_queue s' = []"
proof -
  obtain now i arr' where arr: "arr = (now, i) # arr'" using fi by (cases arr) auto
  have i: "has_payload (fu_payload h True False f) (info_pkt i)" "extend_seq i = e" "fu_infos h False ts (e + 1) fs (map snd arr')"
    using fi \<open>fs \<noteq> []\<close> by (simp_all add: arr)
  let ?s = "s\<lparr>ph_init_flag := True, ph_last_extend_seq := e\<rparr>"
  let ?t = "?s\<lparr>packets_queue := [i], ph_start_flag := True\<rparr>"
  have "in_time now [i]" using "in" by (simp add: arr in_time_def)
  then have "input_fua now i ?s = Some (?t, [])" using fua_step [OF i(1), of ?s now] s by (simp add: ph_ready_def)
  then have inp: "ph_InputRtpPacket now i s = Some (?t, [])"
    using s i(2) by (auto simp: ph_InputRtpPacket_def input_is_fua [OF i(1)] ph_ready_def)
  have "ph_run arr' ?t = Some (?t\<lparr>packets_queue := [], ph_start_flag := False, ph_end_flag := False,
       ph_last_extend_seq := e + 1 + int (length fs) - 1\<rparr>,
       [MediaPacketOutput (h264_frame (START_CODE @ h # f @ concat fs) (int (unat ts)) (h AND 0x1f))])"
    using i(3) \<open>fs \<noteq> []\<close> demux_all [OF fi \<open>fs \<noteq> []\<close>] "in" s
    by (intro fua_feed [where ts = ts]) (auto simp: arr ph_ready_def)
  then show ?thesis by (simp add: arr inp ph_ready_def)
qed

text \<open>
  C27: A NALU that is sent in fragments arrives.  For every NALU of at least 1202 and less than \<open>2 ^ 31\<close> bytes
  \<open>GenerateFuAPackets\<close> returns packets, and a receiver that is given their payloads in the order
  of their sequence numbers before the timeout, puts out one frame: a start code and
  the NALU, with the packets' timestamp and the flags of the NALU's type.  It then
  expects the next sequence number and holds no fragment.
\<close>
theorem fua_roundtrip:
  assumes "\<And>k. length (bufs k) = 1500" "1202 \<le> length nalu" "length nalu < 2 ^ 31"
  shows "\<exists>ps. GenerateFuAPackets now bufs nalu None = Some (Inr ps) \<and>
    (\<forall>ts e arr s. delivers ts e ps (map snd arr) \<longrightarrow> ph_ready e s \<longrightarrow> (\<forall>(now, i)\<in>set arr. in_time now (map snd arr)) \<longrightarrow>
      (\<exists>s'. ph_run arr s = Some (s', [MediaPacketOutput (h264_frame (START_CODE @ nalu) (int (unat ts)) (hd nalu AND 0x1f))]) \<and>
        ph_ready (e + int (length ps)) s' \<and> packets_queue s' = []))"
proof -
  obtain ps where ps: "GenerateFuAPackets now bufs nalu None = Some (Inr ps)"
    "fu_packets (hd nalu) True (cut_sizes (split_loop (length nalu - 1)) (tl nalu)) ps" "length ps = length (split_loop (length nalu - 1))"
    using GenerateFuAPackets_ok [of bufs nalu now] assms by auto
  obtain n ns where sp: "split_loop (length nalu - 1) = n # ns" "ns \<noteq> []"
  proof -
    have "1200 < length nalu - 1" using assms(2) by simp
    from split_loop_big [OF this] that show thesis by auto
  qed
  let ?fs = "cut_sizes ns (drop n (tl nalu))"
  have c: "take n (tl nalu) @ concat ?fs = tl nalu" "length ?fs = length ns"
  proof -
    have "sum_list (n # ns) = length (tl nalu)" using split_loop_sizes(1) [of "length nalu - 1"] unfolding sp(1) by simp
    from concat_cut [OF this] show "take n (tl nalu) @ concat ?fs = tl nalu" by simp
  qed simp
  have "nalu \<noteq> []" using assms(2) by auto
  then have nalu: "START_CODE @ hd nalu # take n (tl nalu) @ concat ?fs = START_CODE @ nalu" unfolding c(1) by simp
  show ?thesis
  proof (rule exI [of _ ps], intro conjI allI impI)
    fix ts e arr s
    assume a: "delivers ts e ps (map snd arr)" "ph_ready e s" "\<forall>(now, i)\<in>set arr. in_time now (map snd arr)"
    from fu_infos_delivers [OF ps(2) a(1)] sp
    have "fu_infos (hd nalu) True ts e (take n (tl nalu) # ?fs) (map snd arr)" by simp
    moreover have "length ps = length ns + 1" unfolding ps(3) sp(1) by simp
    ultimately
    show "\<exists>s'. ph_run arr s = Some (s', [MediaPacketOutput (h264_frame (START_CODE @ nalu) (int (unat ts)) (hd nalu AND 0x1f))]) \<and>
        ph_ready (e + int (length ps)) s' \<and> packets_queue s' = []"
      using fua_receive [of "hd nalu" ts e "take n (tl nalu)" ?fs arr s] sp(2) c(2) a(2,3)
      unfolding nalu by (simp add: add_ac)
  qed (rule ps(1))
qed

text \<open>A NALU of 1201 bytes.\<close>

lemma input_both_bits:
  assumes "has_payload (fu_payload h True True f) (info_pkt i)"
  shows "\<exists>s' evs. ph_InputRtpPacket now i s = Some (s', evs) \<and> set evs \<subseteq> {PackHandleReset i} \<and>
     \<not> ph_start_flag s' \<and> packets_queue s' = []"
proof -
  have "input_fua now i s = Some (ph_ReportLost now i (ResetRtpFua s))" for s
    using fu_payload_parts(1) [OF assms] by (simp add: input_fua_def)
  then show ?thesis
    by (auto simp: ph_InputRtpPacket_def input_is_fua [OF assms] ph_ReportLost_def ResetRtpFua_def)
qed

text \<open>
  A NALU of exactly 1201 bytes is lost.  The sender takes it for too large for a packet of its
  own, but without its header byte it fits in one fragment: \<open>GenerateFuAPackets\<close> makes a single
  packet with the start bit and the end bit set.  The receiver takes such a packet for an
  error in every state: it puts out no frame, drops the fragments it holds and at most reports a loss.
\<close>
theorem fua_1201_lost:
  assumes "\<And>k. length (bufs k) = 1500" "length nalu = 1201"
  shows "\<exists>p. GenerateFuAPackets now bufs nalu None = Some (Inr [p]) \<and> payload_len p = 1202 \<and>
    (\<forall>i t s. has_payload (payload_of p) (info_pkt i) \<longrightarrow>
      (\<exists>s' evs. ph_InputRtpPacket t i s = Some (s', evs) \<and> set evs \<subseteq> {PackHandleReset i} \<and>
        \<not> ph_start_flag s' \<and> packets_queue s' = []))"
proof -
  obtain ps where ps: "GenerateFuAPackets now bufs nalu None = Some (Inr ps)"
    "fu_packets (hd nalu) True (cut_sizes (split_loop (length nalu - 1)) (tl nalu)) ps"
    using GenerateFuAPackets_ok [of bufs nalu now] assms by auto
  have "split_loop 1200 = [1200]" by (subst split_loop.simps) (simp add: kPayloadMaxSize_def)
  then obtain p where p: "ps = [p]" "carries (fu_payload (hd nalu) True True (take 1200 (tl nalu))) p"
    using ps(2) assms(2) by (cases ps) auto
  moreover have "payload_len p = 1202" using p(2) assms(2) by (simp add: carries_def fu_payload_def)
  moreover have "payload_of p = fu_payload (hd nalu) True True (take 1200 (tl nalu))" using p(2) by (simp add: carries_def)
  ultimately show ?thesis using ps(1) input_both_bits by auto
qed

text \<open>Several NALUs in one packet.\<close>

fun stap_offs :: "nat \<Rightarrow> bytes list \<Rightarrow> nat list" where
  "stap_offs k [] = []"
| "stap_offs k (n # ns) = (k + 2) # stap_offs (k + 2 + length n) ns"

definition stap_size :: "bytes list \<Rightarrow> nat" where
  "stap_size ns = length (concat (map stap_entry ns))"

lemma stap_size_simps [simp]: "stap_size [] = 0" "stap_size (n # ns) = 2 + length n + stap_size ns"
  by (simp_all add: stap_size_def stap_entry_def)

lemma stap_size_sum: "(\<Sum>n\<leftarrow>ns. 2 + length n) = stap_size ns"
  by (induction ns) simp_all

lemma Read2Bytes_entry: "length n < 65536 \<Longrightarrow> Read2Bytes (stap_entry n @ r) = Some (of_nat (length n))"
proof -
  assume a: "length n < 65536"
  have "be_val [of_nat (length n div 256), of_nat (length n)] = length n"
    using a by (simp add: be_val_def unat_of_nat)
  then show ?thesis by (simp add: Read2Bytes_def read_be_def grab_def stap_entry_def)
qed

lemma stapa_offsets_ok:
  "\<forall>n\<in>set ns. length n < 65536 \<Longrightarrow>
   stapa_offsets (concat (map stap_entry ns) @ r) (stap_size ns) k = Some (True, stap_offs k ns)"
proof (induction ns arbitrary: k)
  case Nil
  then show ?case by (subst stapa_offsets.simps) simp
next
  case (Cons n ns)
  let ?w = "of_nat (length n) :: u16"
  have n: "length n < 65536" "unat ?w = length n" using Cons.prems by (simp_all add: unat_of_nat)
  have "drop (2 + length n) (stap_entry n @ concat (map stap_entry ns) @ r) = concat (map stap_entry ns) @ r"
    by (simp add: stap_entry_def)
  then show ?case using Cons.IH [of "k + 2 + length n"] Cons.prems
    by (subst stapa_offsets.simps) (simp add: Read2Bytes_entry [OF n(1)] n(2))
qed

lemma stapa_frames_ok:
  assumes "\<forall>n\<in>set ns. n \<noteq> []" "drop k data = concat (map stap_entry ns) @ r"
  shows "stapa_frames data ts (stap_offs k ns @ [k + stap_size ns + 2]) =
    Some (True, map (\<lambda>n. MediaPacketOutput (h264_frame (START_CODE @ n) ts (hd n AND 0x1f))) ns)"
  using assms
proof (induction ns arbitrary: k)
  case (Cons n ns)
  obtain b d where n: "n = b # d" using Cons.prems(1) by (cases n) auto
  have "drop 2 (drop k data) = n @ concat (map stap_entry ns) @ r" unfolding Cons.prems(2) by (simp add: stap_entry_def)
  then have d2: "drop (k + 2) data = n @ concat (map stap_entry ns) @ r" by simp
  then have "drop (length n) (drop (k + 2) data) = concat (map stap_entry ns) @ r" by simp
  then have "drop (k + 2 + length n) data = concat (map stap_entry ns) @ r" by (simp add: add.commute add.left_commute)
  with Cons.IH [of "k + 2 + length n"] Cons.prems(1)
  have ih: "stapa_frames data ts (stap_offs (k + 2 + length n) ns @ [k + 2 + length n + stap_size ns + 2]) =
    Some (True, map (\<lambda>n. MediaPacketOutput (h264_frame (START_CODE @ n) ts (hd n AND 0x1f))) ns)" by simp
  have h: "rd data (k + 2) = Some b" using d2 rd_drop [of "k + 2" data 0] by (simp add: n)
  have g: "grab (length n) (drop (k + 2) data) = Some n" unfolding d2 by (simp add: grab_def)
  obtain next_offset offs where nx: "stap_offs (k + 2 + length n) ns @ [k + 2 + length n + stap_size ns + 2] = next_offset # offs"
    "next_offset = k + 2 + length n + 2"
    by (cases ns) auto
  have "k + stap_size (n # ns) + 2 = k + 2 + length n + stap_size ns + 2" by simp
  then have "stap_offs k (n # ns) @ [k + stap_size (n # ns) + 2] = (k + 2) # next_offset # offs"
    by (simp only: stap_offs.simps append.simps nx(1))
  then show ?case using ih h g unfolding nx by (simp add: n)
qed simp

lemma GenerateStapAPackets_ok:
  assumes "length buf = 1500" "ns \<noteq> []" "hd ns \<noteq> []" "stap_size ns \<le> 1487"
  obtains p h where "GenerateStapAPackets now buf ns None = Some (Inr p)" "h AND 0x1f = kStapA"
    "carries (h # concat (map stap_entry ns)) p" "length (rtp_mem p) = 1500" "rtp_payload p = 12"
    "take 12 (rtp_mem p) = 0x80 # replicate 11 0"
proof -
  obtain b d ns' where ns: "ns = (b # d) # ns'" using assms(2,3) by (cases ns; cases "hd ns") auto
  let ?h = "(b AND (kFBit OR kNriMask)) OR kStapA"
  let ?pl = "?h # concat (map stap_entry ns)"
  have l: "length ?pl = 1 + stap_size ns" by (simp add: stap_size_def)
  obtain p where p: "MakeRtpPacket now buf None (1 + stap_size ns) = Some (Inr (Some p))" "blank_packet now (1 + stap_size ns) p"
    using MakeRtpPacket_ok [of buf "1 + stap_size ns" now] assms(1,4) by auto
  obtain q where q: "fill_packet (Some (Inr (Some p))) ?pl = Some (Inr q)" "carries ?pl q"
    "length (rtp_mem q) = 1500" "rtp_payload q = 12" "take 12 (rtp_mem q) = 0x80 # replicate 11 0"
    using fill_blank [of now ?pl p] p(2) l assms(4) by auto
  have "?h AND 0x1f = kStapA" by (simp add: fu_consts word_ao_dist word_bw_assocs)
  moreover have "GenerateStapAPackets now buf ns None = Some (Inr q)"
    using p(1) q(1) unfolding GenerateStapAPackets_def stap_size_sum by (simp add: ns)
  ultimately show thesis using q that by blast
qed

lemma stapa_receive:
  assumes ns: "ns \<noteq> []" "\<forall>n\<in>set ns. n \<noteq> []" "stap_size ns \<le> 1487" and h: "h AND 0x1f = kStapA"
    and i: "has_payload (h # concat (map stap_entry ns)) (info_pkt i)" and s: "ph_ready (extend_seq i) s"
  shows "ph_InputRtpPacket t i s = Some (s\<lparr>ph_init_flag := True, ph_last_extend_seq := extend_seq i\<rparr>,
    map (\<lambda>n. MediaPacketOutput (h264_frame (START_CODE @ n) (int (unat (GetTimestamp (info_pkt i)))) (hd n AND 0x1f))) ns)"
proof -
  let ?d = "h # concat (map stap_entry ns)"
  let ?ts = "int (unat (GetTimestamp (info_pkt i)))"
  let ?evs = "map (\<lambda>n. MediaPacketOutput (h264_frame (START_CODE @ n) ?ts (hd n AND 0x1f))) ns"
  have small: "\<forall>n\<in>set ns. length n < 65536"
    using ns(3) member_le_sum_list [of _ "map (\<lambda>n. 2 + length n) ns"] by (force simp flip: stap_size_sum)
  have big: "3 \<le> stap_size ns" using ns(1,2) by (cases ns; cases "hd ns") auto
  have len: "payload_len (info_pkt i) = 1 + stap_size ns" using i by (simp add: has_payload_def stap_size_def)
  have "take (length ?d) (GetPayload (info_pkt i)) = ?d" using i by (simp add: has_payload_def)
  then obtain r where r: "GetPayload (info_pkt i) = ?d @ r" by (metis append_take_drop_id)
  have "DemuxStapA i = Some (True, ?evs)"
    using stapa_offsets_ok [OF small, of r 1] stapa_frames_ok [OF ns(2), of 1 "?d @ r" r ?ts] big
    by (simp add: DemuxStapA_def ParseStapAOffsets_def len r add.commute)
  then have "input_payload t i s' = Some (s', ?evs)" for s'
    by (simp add: input_payload_def r h kStapA_def kFuA_def)
  then show ?thesis using s by (auto simp: ph_InputRtpPacket_def ph_ready_def)
qed

text \<open>
  C28: NALUs that are sent together arrive one by one.  For NALUs that are not empty
  and fit in one packet with their length fields, \<open>GenerateStapAPackets\<close> returns a
  packet, and a receiver that expects a packet with this payload puts out one frame for each NALU in
  their order, a start code and the NALU, with the packet's timestamp and the flags of
  the NALU's type.
\<close>
theorem stapa_roundtrip:
  assumes "length buf = 1500" "ns \<noteq> []" "\<forall>n\<in>set ns. n \<noteq> []" "stap_size ns \<le> 1487"
  shows "\<exists>p. GenerateStapAPackets now buf ns None = Some (Inr p) \<and>
    (\<forall>t i s. has_payload (payload_of p) (info_pkt i) \<longrightarrow> ph_ready (extend_seq i) s \<longrightarrow>
      ph_InputRtpPacket t i s = Some (s\<lparr>ph_init_flag := True, ph_last_extend_seq := extend_seq i\<rparr>,
        map (\<lambda>n. MediaPacketOutput (h264_frame (START_CODE @ n) (int (unat (GetTimestamp (info_pkt i)))) (hd n AND 0x1f))) ns))"
proof -
  have "hd ns \<noteq> []" using assms(2,3) by simp
  from GenerateStapAPackets_ok [OF assms(1,2) this assms(4), of now] obtain p h
    where p: "GenerateStapAPackets now buf ns None = Some (Inr p)" "h AND 0x1f = kStapA"
      "carries (h # concat (map stap_entry ns)) p" by blast
  have pl: "payload_of p = h # concat (map stap_entry ns)" using p(3) by (simp add: carries_def)
  show ?thesis
  proof (intro exI conjI allI impI)
    fix t and i :: rtp_packet_info and s :: pack_handle_h264
    assume "has_payload (payload_of p) (info_pkt i)" "ph_ready (extend_seq i) s"
    then show "ph_InputRtpPacket t i s = Some (s\<lparr>ph_init_flag := True, ph_last_extend_seq := extend_seq i\<rparr>,
        map (\<lambda>n. MediaPacketOutput (h264_frame (START_CODE @ n) (int (unat (GetTimestamp (info_pkt i)))) (hd n AND 0x1f))) ns)"
      unfolding pl by (rule stapa_receive [OF assms(2-4) p(2)])
  qed (rule p(1))
qed

theorem fua_roundtrip_witness:
  "\<exists>ps. GenerateFuAPackets 0 (\<lambda>_. replicate 1500 0) (0x65 # replicate 1300 7) None = Some (Inr ps) \<and>
    (\<forall>ts e arr. delivers ts e ps (map snd arr) \<longrightarrow> (\<forall>(now, i)\<in>set arr. in_time now (map snd arr)) \<longrightarrow>
      (\<exists>s'. ph_run arr new_PackHandleH264 =
         Some (s', [MediaPacketOutput (h264_frame (START_CODE @ 0x65 # replicate 1300 7) (int (unat ts)) kIdr)])))"
proof -
  have r: "ph_ready e new_PackHandleH264" for e by (simp add: ph_ready_def new_PackHandleH264_def)
  have h: "hd (0x65 # replicate 1300 7 :: bytes) AND 0x1f = kIdr" by (simp add: kIdr_def)
  have "length ((0x65 :: u8) # replicate 1300 7) = 1301" by simp
  then show ?thesis
    using fua_roundtrip [of "\<lambda>_. replicate 1500 0" "0x65 # replicate 1300 7" 0, unfolded h] r by fastforce
qed

theorem fua_1201_lost_witness:
  "\<exists>p. GenerateFuAPackets 0 (\<lambda>_. replicate 1500 0) (0x65 # replicate 1200 7) None = Some (Inr [p]) \<and> payload_len p = 1202"
  using fua_1201_lost [of "\<lambda>_. replicate 1500 0" "0x65 # replicate 1200 7" 0] by auto

theorem stapa_roundtrip_witness:
  "\<exists>p. GenerateStapAPackets 0 (replicate 1500 0) [[0x67, 1, 2], [0x68, 3]] None = Some (Inr p) \<and>
    (\<forall>i. has_payload (payload_of p) (info_pkt i) \<longrightarrow>
      (\<exists>s'. ph_InputRtpPacket 0 i new_PackHandleH264 = Some (s',
        [MediaPacketOutput (h264_frame (START_CODE @ [0x67, 1, 2]) (int (unat (GetTimestamp (info_pkt i)))) kSps),
         MediaPacketOutput (h264_frame (START_CODE @ [0x68, 3]) (int (unat (GetTimestamp (info_pkt i)))) kPps)])))"
proof -
  have r: "ph_ready e new_PackHandleH264" for e by (simp add: ph_ready_def new_PackHandleH264_def)
  show ?thesis
    using stapa_roundtrip [of "replicate 1500 0" "[[0x67, 1, 2], [0x68, 3]]" 0] by (auto simp: r kSps_def kPps_def)
qed

end
