(* ===== verification/RtpCopy.thy ===== *)
theory RtpCopy
  imports RtpPacket
begin

text \<open>
  A packet points into a buffer, and \<open>Clone\<close> (net/rtprtcp/rtp_packet.cpp) copies its bytes to another
  buffer and parses them again.  The lemmas show that the parser reads nothing but the
  bytes of the packet, so that a copy is the same packet in another buffer.
\<close>

section \<open>What the parser reads\<close>

lemma skip_zeros_cong: "(\<And>k. k < ext_end \<Longrightarrow> m ! k = m' ! k) \<Longrightarrow> skip_zeros m pos ext_end = skip_zeros m' pos ext_end"
proof (induction m pos ext_end rule: skip_zeros.induct)
  case (1 m pos ext_end)
  then show ?case by (subst (1 2) skip_zeros.simps) auto
qed

lemma onebyte_loop_cong:
  "(\<And>k. k < ext_end \<Longrightarrow> m ! k = m' ! k) \<Longrightarrow> onebyte_loop m pos ext_end exts = onebyte_loop m' pos ext_end exts"
proof (induction m pos ext_end exts rule: onebyte_loop.induct)
  case (1 m pos ext_end exts)
  show ?case
  proof (cases "pos < ext_end")
    case True
    let ?id = "drop_bit 4 (m ! pos AND 0xf0)" and ?len = "unat (m ! pos AND 0x0f) + 1"
    have e: "m ! pos = m' ! pos" using "1.prems" True by simp
    have z: "skip_zeros m k ext_end = skip_zeros m' k ext_end" for k using "1.prems" by (rule skip_zeros_cong)
    have "?id \<noteq> 0x0f \<Longrightarrow> ?id \<noteq> 0 \<Longrightarrow> \<not> pos + 1 + ?len > ext_end \<Longrightarrow>
        onebyte_loop m (skip_zeros m (pos + 1 + ?len) ext_end) ext_end (exts(?id \<mapsto> pos)) =
        onebyte_loop m' (skip_zeros m' (pos + 1 + ?len) ext_end) ext_end (exts(?id \<mapsto> pos))"
      using "1.IH"(1) [OF True refl refl _ _ _ "1.prems"] unfolding z by blast
    moreover have "?id \<noteq> 0x0f \<Longrightarrow> \<not> ?id \<noteq> 0 \<Longrightarrow>
        onebyte_loop m (skip_zeros m (pos + 1) ext_end) ext_end exts = onebyte_loop m' (skip_zeros m' (pos + 1) ext_end) ext_end exts"
      using "1.IH"(2) [OF True refl refl _ _ "1.prems"] unfolding z by blast
    ultimately show ?thesis
      unfolding onebyte_loop.simps [of m pos] onebyte_loop.simps [of m' pos] Let_def e by (simp only: if_True True split: if_split) blast
  qed (subst (1 2) onebyte_loop.simps, simp)
qed

lemma twobytes_loop_cong:
  "(\<And>k. k < ext_end \<Longrightarrow> m ! k = m' ! k) \<Longrightarrow> twobytes_loop m pos ext_end exts = twobytes_loop m' pos ext_end exts"
proof (induction m pos ext_end exts rule: twobytes_loop.induct)
  case (1 m pos ext_end exts)
  show ?case
  proof (cases "pos + 1 < ext_end")
    case True
    let ?id = "m ! pos" and ?len = "unat (m ! (pos + 1))"
    have e: "m ! pos = m' ! pos" "m ! (pos + 1) = m' ! (pos + 1)" using "1.prems" True by simp_all
    have z: "skip_zeros m k ext_end = skip_zeros m' k ext_end" for k using "1.prems" by (rule skip_zeros_cong)
    have "?id \<noteq> 0 \<Longrightarrow> \<not> pos + 2 + ?len > ext_end \<Longrightarrow>
        twobytes_loop m (skip_zeros m (pos + 2 + ?len) ext_end) ext_end (exts(?id \<mapsto> pos)) =
        twobytes_loop m' (skip_zeros m' (pos + 2 + ?len) ext_end) ext_end (exts(?id \<mapsto> pos))"
      using "1.IH"(1) [OF True refl refl _ _ "1.prems"] unfolding z by blast
    moreover have "\<not> ?id \<noteq> 0 \<Longrightarrow>
        twobytes_loop m (skip_zeros m (pos + 1) ext_end) ext_end exts = twobytes_loop m' (skip_zeros m' (pos + 1) ext_end) ext_end exts"
      using "1.IH"(2) [OF True refl refl _ "1.prems"] unfolding z by blast
    ultimately show ?thesis
      unfolding twobytes_loop.simps [of m pos] twobytes_loop.simps [of m' pos] Let_def e by (simp only: if_True True split: if_split) blast
  qed (subst (1 2) twobytes_loop.simps, simp)
qed

lemma ParseExt_cong:
  assumes "\<And>k. k < n \<Longrightarrow> rtp_mem p ! k = m' ! k" "n \<le> length (rtp_mem p)" "n \<le> length m'" "0 < n"
    "\<And>e. rtp_ext p = Some e \<Longrightarrow> e + 4 + unat (net16 (rtp_mem p) (e + 2)) * 4 \<le> n"
  shows "ParseExt (p\<lparr>rtp_mem := m', local_ms := t\<rparr>) = map_sum id (\<lambda>q. q\<lparr>rtp_mem := m', local_ms := t\<rparr>) (ParseExt p)"
proof (cases "rtp_ext p")
  case (Some e)
  have "e + 4 \<le> n" using assms(5) [OF Some] by simp
  then have i: "net16 (rtp_mem p) e = net16 m' e" "net16 (rtp_mem p) (e + 2) = net16 m' (e + 2)" "rtp_mem p ! 0 = m' ! 0"
    using assms(1-4) by (simp_all add: net16_nth)
  define l where "l = unat (net16 m' (Suc (Suc e)) * 4)"
  have "l \<le> unat (net16 (rtp_mem p) (e + 2)) * 4"
    using i(2) by (simp add: l_def unat_word_ariths)
  then have "e + 4 + l \<le> n" using assms(5) [OF Some] by simp
  then have s: "k < e + 4 + l \<Longrightarrow> rtp_mem p ! k = m' ! k" for k using assms(1) by simp
  have c: "onebyte_loop m' (e + 4) (e + 4 + l) f = onebyte_loop (rtp_mem p) (e + 4) (e + 4 + l) f"
    "twobytes_loop m' (e + 4) (e + 4 + l) f = twobytes_loop (rtp_mem p) (e + 4) (e + 4 + l) f" for f
    using s by (auto intro!: onebyte_loop_cong [symmetric] twobytes_loop_cong [symmetric])
  have u: "(\<lambda>x. p\<lparr>onebyte_ext_map := x, rtp_mem := m', local_ms := t\<rparr>) = (\<lambda>x. p\<lparr>rtp_mem := m', local_ms := t, onebyte_ext_map := x\<rparr>)"
    "(\<lambda>x. p\<lparr>twobytes_ext_map := x, rtp_mem := m', local_ms := t\<rparr>) = (\<lambda>x. p\<lparr>rtp_mem := m', local_ms := t, twobytes_ext_map := x\<rparr>)"
    by (rule ext, cases p, simp)+
  show ?thesis
    using Some i c
    by (simp add: ParseExt_def HasExtension_def HasOnebyteExt_def HasTwobytesExt_def GetExtId_def GetExtLength_def
        l_def [symmetric] sum.map_comp comp_def id_def u)
qed (simp add: ParseExt_def)

text \<open>Only the bytes of the packet matter to the parser, not what lies behind them.\<close>

lemma Parse_cong:
  assumes "Parse now m len = Some r" "take len m' = take len m" "len \<le> length m'"  "0 < len"
  shows "Parse t m' len = Some (map_sum id (\<lambda>p. p\<lparr>rtp_mem := m', local_ms := t\<rparr>) r)"
proof -
  have l: "len \<le> length m" "m \<noteq> []" using assms(1) by (auto simp: Parse_def split: if_splits)
  have k: "m' ! k = m ! k" if "k < len" for k using assms(2) that by (metis nth_take)
  have b: "m' ! 0 = m ! 0" using k assms(4) by simp
  have n: "net16 m' j = net16 m j" if "j + 1 < len" for j using that k l assms(3) by (simp add: net16_nth)
  have pay: "rtp_parse_payload t m' len ext pos = map_sum id (\<lambda>p. p\<lparr>rtp_mem := m', local_ms := t\<rparr>) (rtp_parse_payload now m len ext pos)"
    if e: "\<And>e. ext = Some e \<Longrightarrow> e + 4 + unat (net16 m (e + 2)) * 4 \<le> len" for ext pos
  proof -
    let ?pad = "if bit (m ! 0) 5 then m ! (len - 1) else 0"
    let ?p = "\<lparr> rtp_mem = m, rtp_ext = ext, rtp_payload = pos, payload_len = len - pos - unat ?pad,
               pad_len = ?pad, rtp_data_len = len, local_ms = now, need_delete = False,
               mid_extension_id = 0, abs_time_extension_id = 0,
               onebyte_ext_map = Map.empty, twobytes_ext_map = Map.empty \<rparr>"
    have "ParseExt (?p\<lparr>rtp_mem := m', local_ms := t\<rparr>) = map_sum id (\<lambda>q. q\<lparr>rtp_mem := m', local_ms := t\<rparr>) (ParseExt ?p)"
      by (rule ParseExt_cong [where n = len]) (use k l assms(3,4) e in auto)
    note E = this [unfolded rtp_packet.update_convs]
    have L: "m' ! (len - 1) = m ! (len - 1)" using k assms(4) by simp
    show ?thesis unfolding rtp_parse_payload_def Let_def b L
      by (cases "len \<le> pos"; cases "?pad > 0 \<and> len - pos \<le> unat ?pad")
         (simp_all only: if_True if_False map_sum.simps id_apply E simp_thms)
  qed
  have "m' \<noteq> []" using assms(3,4) by auto
  with assms(1,3) l show ?thesis
    by (auto simp: Parse_def Let_def b n RTP_HEADER_SIZE_def intro!: pay split: if_splits)
qed

section \<open>Copies\<close>

text \<open>A packet as the parser makes it, whatever ids and owner are set afterwards.\<close>

definition parsed :: "rtp_packet \<Rightarrow> bool" where
  "parsed p \<longleftrightarrow> Parse (local_ms p) (rtp_mem p) (rtp_data_len p) =
     Some (Inr (p\<lparr>need_delete := False, mid_extension_id := 0, abs_time_extension_id := 0\<rparr>))"

lemma parsed_ok: "parsed p \<Longrightarrow> rtp_ok p"
  unfolding parsed_def by (drule Parse_ok(1)) (simp add: rtp_ok_def HasPadding_def)

lemma ParseExt_owner: "ParseExt p = Inr q \<Longrightarrow> need_delete q = need_delete p \<and> mid_extension_id q = mid_extension_id p \<and>
     abs_time_extension_id q = abs_time_extension_id p"
  by (auto simp: ParseExt_def map_sum_def split: option.splits if_splits sum.splits)

lemma Parse_parsed: "Parse now m len = Some (Inr p) \<Longrightarrow> parsed p"
proof -
  assume a: "Parse now m len = Some (Inr p)"
  have "need_delete p = False \<and> mid_extension_id p = 0 \<and> abs_time_extension_id p = 0"
    using a by (auto simp: Parse_def rtp_parse_payload_def Let_def split: if_splits dest!: ParseExt_owner)
  then have "p\<lparr>need_delete := False, mid_extension_id := 0, abs_time_extension_id := 0\<rparr> = p" by simp
  with a Parse_ok [OF a] show ?thesis by (simp add: parsed_def)
qed

text \<open>The packet in another buffer.\<close>

definition moved :: "int \<Rightarrow> bytes \<Rightarrow> bool \<Rightarrow> rtp_packet \<Rightarrow> rtp_packet" where
  "moved now buf own p = p\<lparr>rtp_mem := put_at 0 (GetData p) buf, local_ms := now, need_delete := own\<rparr>"

lemma Clone_parsed:
  assumes p: "parsed p" and "rtp_data_len p < 1500" "rtp_data_len p \<le> length buf"
  shows "Clone now buf own p = Some (Inr (moved now buf own p))" "parsed (moved now buf own p)"
proof -
  let ?m = "put_at 0 (GetData p) buf"
  let ?c = "p\<lparr>need_delete := False, mid_extension_id := 0, abs_time_extension_id := 0\<rparr>"
  have l: "rtp_data_len p \<le> length (rtp_mem p)" "0 < rtp_data_len p" using parsed_ok [OF p] by (auto simp: rtp_ok_def)
  have t: "take (rtp_data_len p) ?m = take (rtp_data_len p) (rtp_mem p)" "rtp_data_len p \<le> length ?m"
    using l assms(3) by (simp_all add: put_at_def GetData_def)
  have P: "Parse now ?m (rtp_data_len p) = Some (Inr (?c\<lparr>rtp_mem := ?m, local_ms := now\<rparr>))"
    using Parse_cong [OF p [unfolded parsed_def] t l(2), of now] by simp
  then show "Clone now buf own p = Some (Inr (moved now buf own p))"
    using assms(2,3) by (simp add: Clone_def moved_def RTP_PACKET_MAX_SIZE_def)
  show "parsed (moved now buf own p)" using P by (simp add: parsed_def moved_def)
qed

lemma moved_same:
  assumes "rtp_ok p" "rtp_data_len p \<le> length buf"
  shows "GetData (moved now buf own p) = GetData p" "GetSeq (moved now buf own p) = GetSeq p"
    "GetTimestamp (moved now buf own p) = GetTimestamp p" "GetSsrc (moved now buf own p) = GetSsrc p"
    "GetPayloadType (moved now buf own p) = GetPayloadType p" "GetMarker (moved now buf own p) = GetMarker p"
    "HasPadding (moved now buf own p) = HasPadding p"
    "payload_of (moved now buf own p) = payload_of p" "payload_len (moved now buf own p) = payload_len p"
    "rtp_data_len (moved now buf own p) = rtp_data_len p" "length (rtp_mem (moved now buf own p)) = length buf"
    "local_ms (moved now buf own p) = now" "rtp_payload (moved now buf own p) = rtp_payload p"
    "rtp_ext (moved now buf own p) = rtp_ext p" "onebyte_ext_map (moved now buf own p) = onebyte_ext_map p"
    "twobytes_ext_map (moved now buf own p) = twobytes_ext_map p"
proof -
  have l: "12 < rtp_data_len p" "rtp_data_len p \<le> length (rtp_mem p)" "rtp_payload p + payload_len p \<le> rtp_data_len p"
    using assms(1) by (auto simp: rtp_ok_def RTP_HEADER_SIZE_def)
  have n: "put_at 0 (GetData p) buf ! k = rtp_mem p ! k" if "k < 12" for k
    using l assms(2) that by (simp add: nth_put_at GetData_def)
  show "GetData (moved now buf own p) = GetData p" "rtp_data_len (moved now buf own p) = rtp_data_len p"
    "length (rtp_mem (moved now buf own p)) = length buf"
    using l assms(2) by (simp_all add: GetData_def moved_def put_at_def)
  show "GetSeq (moved now buf own p) = GetSeq p" "GetTimestamp (moved now buf own p) = GetTimestamp p"
    "GetSsrc (moved now buf own p) = GetSsrc p" "GetPayloadType (moved now buf own p) = GetPayloadType p"
    "GetMarker (moved now buf own p) = GetMarker p" "HasPadding (moved now buf own p) = HasPadding p"
    using l assms(2) n by (simp_all add: rtp_getters moved_def net16_nth net32_nth GetData_def [symmetric] del: length_put_at)
       (simp_all add: GetData_def put_at_def net16_nth net32_nth nth_append)
  show "payload_of (moved now buf own p) = payload_of p"
    using l assms(2) by (simp add: payload_of_def GetPayload_def moved_def put_at_def GetData_def drop_take min_def)
  show "payload_len (moved now buf own p) = payload_len p" "local_ms (moved now buf own p) = now"
    "rtp_payload (moved now buf own p) = rtp_payload p"
    "rtp_ext (moved now buf own p) = rtp_ext p" "onebyte_ext_map (moved now buf own p) = onebyte_ext_map p"
    "twobytes_ext_map (moved now buf own p) = twobytes_ext_map p"
    by (simp_all add: moved_def)
qed

end
