(* ===== verification/JitterBuffer.thy ===== *)
theory JitterBuffer
  imports RtpH264 RtpCopy
begin

text \<open>
  net/webrtc/jitterbuffer.cpp: packets come in from the network with 16-bit sequence numbers and in
  any order, and go out with extended sequence numbers, in order where the buffer can put them
  in order.  The \<open>std::map\<close> of waiting packets is the list of its entries by ascending key.
  The clock is an argument, one time for a call.  The input packet is cloned into a buffer of the
  pool and from there into a buffer of its own, whose former contents are the argument \<open>heap\<close>.
\<close>

definition JITTER_BUFFER_AUDIO_TIMEOUT :: int where "JITTER_BUFFER_AUDIO_TIMEOUT = 100"
definition JITTER_BUFFER_VIDEO_TIMEOUT :: int where "JITTER_BUFFER_VIDEO_TIMEOUT = 400"

datatype jitter_event = RtpPacketReset rtp_packet_info | RtpPacketOutput rtp_packet_info

type_synonym packets_map = "(int \<times> rtp_packet_info) list"

record jitter_buffer =
  jb_media_type :: MEDIA_PKT_TYPE
  jb_init_flag :: bool
  base_seq :: u16
  max_seq :: u16
  bad_seq :: u32
  cycles :: u32
  rtp_packets_map :: packets_map
  output_seq :: int
  jb_report_lost_ts :: int
  pkt_buffers :: "nat \<Rightarrow> bytes"
  buffer_index :: nat
  buffer_timeout :: int

text \<open>The constructor, which refuses media types other than audio and video.\<close>

definition new_JitterBuffer :: "MEDIA_PKT_TYPE \<Rightarrow> (nat \<Rightarrow> bytes) \<Rightarrow> jitter_buffer option" where
  "new_JitterBuffer ty pool =
     (if ty = MEDIA_VIDEO_TYPE \<or> ty = MEDIA_AUDIO_TYPE then
        Some \<lparr> jb_media_type = ty, jb_init_flag = False, base_seq = 0, max_seq = 0, bad_seq = 65537, cycles = 0,
          rtp_packets_map = [], output_seq = 0, jb_report_lost_ts = -1, pkt_buffers = pool, buffer_index = 0,
          buffer_timeout = (if ty = MEDIA_VIDEO_TYPE then JITTER_BUFFER_VIDEO_TIMEOUT else JITTER_BUFFER_AUDIO_TIMEOUT) \<rparr>
      else None)"

definition jb_InitSeq :: "u16 \<Rightarrow> jitter_buffer \<Rightarrow> jitter_buffer" where
  "jb_InitSeq seq s = s\<lparr>base_seq := seq, max_seq := seq, bad_seq := 65537, cycles := 0\<rparr>"

text \<open>\<open>UpdateSeq\<close>: whether the packet is taken, its extended number, whether the sender has restarted.\<close>

definition MAX_DROPOUT :: nat where "MAX_DROPOUT = 3000"
definition MAX_MISORDER :: nat where "MAX_MISORDER = 100"

definition extended :: "u16 \<Rightarrow> jitter_buffer \<Rightarrow> int" where
  "extended seq s = int (unat (cycles s + ucast seq))"

definition jb_UpdateSeq :: "u16 \<Rightarrow> jitter_buffer \<Rightarrow> (bool \<times> int \<times> bool) \<times> jitter_buffer" where
  "jb_UpdateSeq seq s =
     (let udelta = unat (seq - max_seq s) in
      if udelta < MAX_DROPOUT then
        (let s = (if seq < max_seq s then s\<lparr>cycles := cycles s + 65536\<rparr> else s)\<lparr>max_seq := seq\<rparr>
         in ((True, extended seq s, False), s))
      else if udelta \<le> RTP_SEQ_MOD - MAX_MISORDER then
        (if ucast seq = bad_seq s then
           (let s = jb_InitSeq seq s in ((True, extended seq s, True), s))
         else ((False, 0, False), s\<lparr>bad_seq := (ucast seq + 1) AND 65535\<rparr>))
      else ((True, extended seq s, False), s))"

definition jb_ReportLost :: "int \<Rightarrow> rtp_packet_info \<Rightarrow> jitter_buffer \<Rightarrow> jitter_buffer \<times> jitter_event list" where
  "jb_ReportLost now i s =
     (if now - jb_report_lost_ts s > 500 then (s\<lparr>jb_report_lost_ts := now\<rparr>, [RtpPacketReset i]) else (s, []))"

definition jb_OutputPacket :: "rtp_packet_info \<Rightarrow> jitter_buffer \<Rightarrow> jitter_buffer \<times> jitter_event list" where
  "jb_OutputPacket i s = (s\<lparr>output_seq := extend_seq i\<rparr>, [RtpPacketOutput i])"

text \<open>The loop behind a packet that came in order: the waiting packets that follow it.\<close>

fun flush_loop :: "packets_map \<Rightarrow> jitter_buffer \<Rightarrow> jitter_buffer \<times> jitter_event list" where
  "flush_loop [] s = (s\<lparr>rtp_packets_map := []\<rparr>, [])"
| "flush_loop ((k, i) # m) s =
     (if output_seq s + 1 = k then
        (let (s, e) = jb_OutputPacket i s; (s, evs) = flush_loop m s in (s, e @ evs))
      else (s\<lparr>rtp_packets_map := (k, i) # m\<rparr>, []))"

text \<open>The loop of \<open>CheckTimeout\<close> over the map; \<open>kept\<close> are the entries it has passed, last one first.\<close>

fun timeout_loop :: "int \<Rightarrow> packets_map \<Rightarrow> packets_map \<Rightarrow> jitter_buffer \<Rightarrow> jitter_buffer \<times> jitter_event list" where
  "timeout_loop now kept [] s = (s\<lparr>rtp_packets_map := rev kept\<rparr>, [])"
| "timeout_loop now kept ((k, i) # m) s =
     (if now - local_ms (info_pkt i) > buffer_timeout s then
        (let (s, e) = jb_OutputPacket i s; (s, l) = jb_ReportLost now i s; (s, evs) = timeout_loop now kept m s
         in (s, e @ l @ evs))
      else if output_seq s + 1 = extend_seq i then
        (let (s, e) = jb_OutputPacket i s; (s, evs) = timeout_loop now kept m s in (s, e @ evs))
      else timeout_loop now ((k, i) # kept) m s)"

definition CheckTimeout :: "int \<Rightarrow> jitter_buffer \<Rightarrow> jitter_buffer \<times> jitter_event list" where
  "CheckTimeout now s = (if rtp_packets_map s = [] then (s, []) else timeout_loop now [] (rtp_packets_map s) s)"

definition jb_OnTimer :: "int \<Rightarrow> jitter_buffer \<Rightarrow> jitter_buffer \<times> jitter_event list" where
  "jb_OnTimer now s = CheckTimeout now s"

text \<open>\<open>InputRtpPacket\<close> from where the packet has its extended number.\<close>

definition jb_deliver :: "int \<Rightarrow> rtp_packet_info \<Rightarrow> bool \<Rightarrow> bool \<Rightarrow> jitter_buffer \<Rightarrow> jitter_buffer \<times> jitter_event list" where
  "jb_deliver now i reset first_pkt s =
     (let (s, lost) = (if reset then jb_ReportLost now i s else (s, [])) in
      if first_pkt \<or> reset then (let (s, e) = jb_OutputPacket i s in (s, lost @ e))
      else if output_seq s + 1 = extend_seq i then
        (let (s, e) = jb_OutputPacket i s; (s, evs) = flush_loop (rtp_packets_map s) s in (s, lost @ e @ evs))
      else if extend_seq i \<le> output_seq s then (s, lost)
      else (let (s, evs) = CheckTimeout now (s\<lparr>rtp_packets_map := map_put (extend_seq i) i (rtp_packets_map s)\<rparr>)
            in (s, lost @ evs)))"

definition jb_sequence :: "u16 \<Rightarrow> jitter_buffer \<Rightarrow> (bool \<times> int \<times> bool \<times> bool) \<times> jitter_buffer" where
  "jb_sequence seq s =
     (if \<not> jb_init_flag s then ((True, int (unat seq), True, True), jb_InitSeq seq (s\<lparr>jb_init_flag := True\<rparr>))
      else (let ((ok, ext, reset), s) = jb_UpdateSeq seq s
            in ((ok, ext, reset, False), if ok \<and> reset then s\<lparr>jb_init_flag := False\<rparr> else s)))"

definition jb_InputRtpPacket :: "int \<Rightarrow> bytes \<Rightarrow> int \<Rightarrow> rtp_packet \<Rightarrow> jitter_buffer \<Rightarrow>
    (jitter_buffer \<times> (rtp_error + jitter_event list)) option" where
  "jb_InputRtpPacket now heap clock_rate pkt s =
     (let index = buffer_index s mod RTP_PACKET_MAX_SIZE; buffer = pkt_buffers s index;
          s = s\<lparr>buffer_index := buffer_index s + 1, pkt_buffers := (pkt_buffers s)(index := put_at 0 (GetData pkt) buffer)\<rparr> in
      case Clone now buffer False pkt of
        None \<Rightarrow> None
      | Some (Inl e) \<Rightarrow> Some (s, Inl e)
      | Some (Inr input_pkt) \<Rightarrow>
          (let ((ok, ext, reset, first_pkt), s) = jb_sequence (GetSeq input_pkt) s in
           if \<not> ok then Some (s, Inr [])
           else case Clone now heap True input_pkt of
             None \<Rightarrow> None
           | Some (Inl e) \<Rightarrow> Some (s, Inl e)
           | Some (Inr q) \<Rightarrow>
               Some (map_prod id Inr (jb_deliver now \<lparr> info_media_type = jb_media_type s, info_pkt = q, extend_seq = ext,
                 info_clock_rate = clock_rate \<rparr> reset first_pkt s))))"

section \<open>Extended sequence numbers\<close>

text \<open>
  The highest number so far, extended.  A packet has a number \<open>x\<close> in the stream, of which
  the header holds the low 16 bits.
\<close>

definition highest :: "jitter_buffer \<Rightarrow> int" where
  "highest s = int (unat (cycles s)) + int (unat (max_seq s))"

definition whole_cycles :: "jitter_buffer \<Rightarrow> bool" where
  "whole_cycles s \<longleftrightarrow> int (unat (cycles s)) mod 65536 = 0"

lemma u16_parts: "int (unat (of_int x :: u16)) = x mod 65536"
  by (simp add: uint_word_of_int)

lemma highest_parts:
  assumes "whole_cycles s"
  shows "int (unat (cycles s)) = highest s div 65536 * 65536" "int (unat (max_seq s)) = highest s mod 65536"
    "max_seq s = of_int (highest s)"
proof -
  have w: "0 \<le> int (unat (max_seq s))" "int (unat (max_seq s)) < 65536"
    using unat_u16_less [of "max_seq s"] by (simp_all del: unat_u16_less of_nat_unat)
  obtain k where k: "int (unat (cycles s)) = 65536 * k" 
    using assms unfolding whole_cycles_def mod_eq_0_iff_dvd by (rule dvdE)
  show h: "int (unat (cycles s)) = highest s div 65536 * 65536" "int (unat (max_seq s)) = highest s mod 65536"
    unfolding highest_def k using w by (simp_all del: of_nat_unat)
  show "max_seq s = of_int (highest s)"
    using h(2) by (simp add: word_eq_iff_unat u16_parts [symmetric] del: of_nat_unat flip: of_nat_eq_iff)
qed

lemma extended_parts:
  assumes "whole_cycles s" "highest s < 2 ^ 32 - 65536"
  shows "extended (of_int x) s = highest s div 65536 * 65536 + x mod 65536"
proof -
  have u: "unat (ucast (of_int x :: u16) :: u32) = unat (of_int x :: u16)" 
    using unat_u16_less [of "of_int x"] by (simp add: unat_ucast del: unat_u16_less)
  have "int (unat (cycles s)) + int (unat (of_int x :: u16)) < 2 ^ 32"
    using highest_parts(1) [OF assms(1)] assms(2) u16_parts [of x] pos_mod_bound [of 65536 x] minus_mod_eq_div_mult [of "highest s" 65536]
    by (simp del: of_nat_unat add: highest_def)
  then have "unat (cycles s + ucast (of_int x :: u16)) = unat (cycles s) + unat (of_int x :: u16)"
    by (simp add: unat_word_ariths u del: of_nat_unat)
  then show ?thesis using highest_parts(1) [OF assms(1)] u16_parts [of x] by (simp add: extended_def del: of_nat_unat)
qed

lemma udelta_parts:
  assumes "whole_cycles s"
  shows "int (unat (of_int x - max_seq s)) = (x - highest s) mod 65536"
  unfolding highest_parts(3) [OF assms] of_int_diff [symmetric] by (rule u16_parts)

lemma seq_less_max: "whole_cycles s \<Longrightarrow> of_int x < max_seq s \<longleftrightarrow> x mod 65536 < highest s mod 65536"
  using u16_parts [of x] highest_parts(2) [of s] unfolding word_less_nat_alt by linarith

lemma UpdateSeq_forward:
  assumes w: "whole_cycles s" and h: "0 \<le> highest s" "highest s < 2 ^ 32 - 2 * 65536" and x: "highest s \<le> x" "x - highest s < 3000"
  shows "\<exists>c b. jb_UpdateSeq (of_int x) s = ((True, x, False), s\<lparr>cycles := c, max_seq := b\<rparr>) \<and>
    highest (s\<lparr>cycles := c, max_seq := b\<rparr>) = x \<and> whole_cycles (s\<lparr>cycles := c, max_seq := b\<rparr>)"
proof -
  let ?wrap = "x mod 65536 < highest s mod 65536"
  let ?c = "if ?wrap then cycles s + 65536 else cycles s"
  let ?t = "s\<lparr>cycles := ?c, max_seq := of_int x\<rparr>"
  have d: "x div 65536 = highest s div 65536 + (if ?wrap then 1 else 0)"
  proof -
    obtain q r where "highest s = 65536 * q + r" "0 \<le> r" "r < 65536"
      by (metis mult_div_mod_eq pos_mod_bound pos_mod_sign zero_less_numeral)
    moreover obtain q' r' where "x = 65536 * q' + r'" "0 \<le> r'" "r' < 65536"
      by (metis mult_div_mod_eq pos_mod_bound pos_mod_sign zero_less_numeral)
    ultimately show ?thesis using x by (auto simp: div_pos_pos_trivial)
  qed
  have c: "int (unat ?c) = x div 65536 * 65536"
  proof (cases ?wrap)
    case True
    have "unat (cycles s) + 65536 < 2 ^ 32" using highest_parts(1) [OF w] h by (simp del: of_nat_unat)
    then have "unat (cycles s + 65536) = unat (cycles s) + 65536" by (simp add: unat_word_ariths)
    with True d highest_parts(1) [OF w] show ?thesis by (simp del: of_nat_unat)
  next
    case False
    with d highest_parts(1) [OF w] show ?thesis by (simp del: of_nat_unat)
  qed
  have t: "whole_cycles ?t" using c by (simp add: whole_cycles_def del: of_nat_unat)
  moreover have ht: "highest ?t = x" using c u16_parts [of x] by (simp add: highest_def del: of_nat_unat)
  moreover have "extended (of_int x) ?t = x" using extended_parts [OF t, of x] ht h x by simp
  moreover have "unat (of_int x - max_seq s) < MAX_DROPOUT"
    using udelta_parts [OF w, of x] x by (simp add: MAX_DROPOUT_def del: of_nat_unat)
  then have "jb_UpdateSeq (of_int x) s = ((True, extended (of_int x) ?t, False), ?t)"
    by (simp add: jb_UpdateSeq_def Let_def seq_less_max [OF w])
  ultimately show ?thesis by metis
qed

lemma UpdateSeq_late:
  assumes w: "whole_cycles s" and h: "highest s < 2 ^ 32 - 2 * 65536" and x: "x < highest s" "highest s - x < 100"
  shows "jb_UpdateSeq (of_int x) s =
    ((True, if highest s div 65536 * 65536 \<le> x then x else x + 65536, False), s)"
proof -
  let ?h = "highest s"
  have "(x - ?h) mod 65536 = x - ?h + 65536"
    using x by (smt (verit) mod_add_self2 mod_pos_pos_trivial)
  then have u: "\<not> unat (of_int x - max_seq s) < MAX_DROPOUT" "\<not> unat (of_int x - max_seq s) \<le> RTP_SEQ_MOD - MAX_MISORDER"
    using udelta_parts [OF w, of x] x
    by (simp_all add: MAX_DROPOUT_def RTP_SEQ_MOD_def MAX_MISORDER_def del: of_nat_unat)
  have "?h div 65536 * 65536 + x mod 65536 = (if ?h div 65536 * 65536 \<le> x then x else x + 65536)"
  proof -
    obtain q r where "?h = 65536 * q + r" "0 \<le> r" "r < 65536"
      by (metis mult_div_mod_eq pos_mod_bound pos_mod_sign zero_less_numeral)
    moreover obtain q' r' where "x = 65536 * q' + r'" "0 \<le> r'" "r' < 65536"
      by (metis mult_div_mod_eq pos_mod_bound pos_mod_sign zero_less_numeral)
    moreover from calculation have "q' \<le> q" "q \<le> q' + 1" using x by linarith+
    then have "q = q' \<or> q = q' + 1" by arith
    ultimately show ?thesis using x by (auto simp: div_pos_pos_trivial)
  qed
  then show ?thesis using extended_parts [OF w, of x] h u by (simp add: jb_UpdateSeq_def Let_def)
qed

section \<open>The waiting packets\<close>

text \<open>The entries of the map by ascending key, each under the number of its packet.\<close>

definition map_ok :: "packets_map \<Rightarrow> bool" where
  "map_ok m \<longleftrightarrow> sorted_map m \<and> (\<forall>(k, i)\<in>set m. extend_seq i = k)"

lemma map_ok_Cons: "map_ok ((k, i) # m) \<longleftrightarrow> extend_seq i = k \<and> map_ok m \<and> (\<forall>k'\<in>fst ` set m. k < k')"
  by (auto simp: map_ok_def)

lemma map_ok_Nil [simp]: "map_ok []"
  by (simp add: map_ok_def)

lemma map_ok_put: "map_ok m \<Longrightarrow> extend_seq i = k \<Longrightarrow> map_ok (map_put k i m)"
  by (auto simp: map_ok_def sorted_map_put set_map_put)

text \<open>What goes out: the packets, and for each its number, its payload and its timestamp.\<close>

fun outputs :: "jitter_event list \<Rightarrow> rtp_packet_info list" where
  "outputs [] = []"
| "outputs (RtpPacketOutput i # es) = i # outputs es"
| "outputs (RtpPacketReset i # es) = outputs es"

lemma outputs_append [simp]: "outputs (es @ es') = outputs es @ outputs es'"
  by (induction es rule: outputs.induct) simp_all

definition info_content :: "rtp_packet_info \<Rightarrow> bytes \<times> u32" where
  "info_content i = (payload_of (info_pkt i), GetTimestamp (info_pkt i))"

definition outs :: "jitter_event list \<Rightarrow> (int \<times> bytes \<times> u32) list" where
  "outs evs = map (\<lambda>i. (extend_seq i, info_content i)) (outputs evs)"

lemma outs_simps [simp]:
  "outs [] = []" "outs (RtpPacketOutput i # es) = (extend_seq i, info_content i) # outs es"
  "outs (RtpPacketReset i # es) = outs es" "outs (es @ es') = outs es @ outs es'"
  by (simp_all add: outs_def)

text \<open>
  A packet that is as the parser makes it; \<open>T\<close> are the arrivals so far, each the number of a packet and
  the time at which it came.
\<close>

type_synonym arrivals = "(int \<times> int) set"

definition good_info :: "arrivals \<Rightarrow> rtp_packet_info \<Rightarrow> bool" where
  "good_info T i \<longleftrightarrow> rtp_ok (info_pkt i) \<and> (extend_seq i, local_ms (info_pkt i)) \<in> T"

definition goes_out :: "(int \<Rightarrow> bytes \<times> u32) \<Rightarrow> arrivals \<Rightarrow> jitter_event list \<Rightarrow> int list \<Rightarrow> bool" where
  "goes_out content T evs ks \<longleftrightarrow> outs evs = map (\<lambda>k. (k, content k)) ks \<and> (\<forall>i\<in>set (outputs evs). good_info T i)"

lemma goes_out_Nil [simp]: "goes_out content T [] []"
  by (simp add: goes_out_def)

lemma good_info_mono: "good_info T i \<Longrightarrow> T \<subseteq> T' \<Longrightarrow> good_info T' i"
  by (auto simp: good_info_def)

lemma goes_out_mono: "goes_out content T evs ks \<Longrightarrow> T \<subseteq> T' \<Longrightarrow> goes_out content T' evs ks"
  by (auto simp: goes_out_def intro: good_info_mono)

lemma goes_out_append: "goes_out content T es ks \<Longrightarrow> goes_out content T es' ks' \<Longrightarrow> goes_out content T (es @ es') (ks @ ks')"
  by (auto simp: goes_out_def)

lemma goes_out_Cons:
  "goes_out content T (RtpPacketOutput i # es) (k # ks) \<longleftrightarrow>
   extend_seq i = k \<and> info_content i = content k \<and> good_info T i \<and> goes_out content T es ks"
  by (auto simp: goes_out_def)

text \<open>
  The state after the packets with the numbers \<open>R\<close>: \<open>m\<close> is the last one that went out, the
  later ones wait.  \<open>content x\<close> is the payload and timestamp of packet \<open>x\<close>.
\<close>

definition holds :: "(int \<Rightarrow> bytes \<times> u32) \<Rightarrow> arrivals \<Rightarrow> int \<Rightarrow> int set \<Rightarrow> packets_map \<Rightarrow> bool" where
  "holds content T m R w \<longleftrightarrow> map_ok w \<and> fst ` set w = {k \<in> R. m < k} \<and>
     (\<forall>(k, i)\<in>set w. info_content i = content k \<and> good_info T i)"

lemma flush_holds:
  "holds content T m R w \<Longrightarrow> output_seq s = m \<Longrightarrow>
   \<exists>m' evs w'. flush_loop w s = (s\<lparr>output_seq := m', rtp_packets_map := w'\<rparr>, evs) \<and> m \<le> m' \<and>
     goes_out content T evs [m + 1..m'] \<and> {m + 1..m'} \<subseteq> R \<and> m' + 1 \<notin> R \<and> holds content T m' R w'"
proof (induction w arbitrary: s m)
  case Nil
  then have "{k \<in> R. m < k} = {}" by (auto simp: holds_def)
  then have "m + 1 \<notin> R" by auto
  with Nil show ?case
    by (intro exI [of _ m] exI [of _ "[]"] exI [of _ "[] :: packets_map"]) (auto simp: holds_def)
next
  case (Cons e w)
  obtain k i where e: "e = (k, i)" by (cases e)
  have ok: "extend_seq i = k" "map_ok w" "\<forall>k'\<in>fst ` set w. k < k'" "info_content i = content k" "good_info T i"
    "\<forall>(k, i)\<in>set w. info_content i = content k \<and> good_info T i"
    using Cons.prems(1) by (auto simp: holds_def e map_ok_Cons)
  have ks: "insert k (fst ` set w) = {j \<in> R. m < j}" using Cons.prems(1) by (auto simp: holds_def e)
  then have k: "k \<in> R" "m < k" by auto
  show ?case
  proof (cases "m + 1 = k")
    case True
    have "j \<in> fst ` set w \<longleftrightarrow> j \<in> R \<and> k < j" for j
    proof -
      have "j \<in> insert k (fst ` set w) \<longleftrightarrow> j \<in> R \<and> m < j" unfolding ks by simp
      moreover have "k < j" if "j \<in> fst ` set w" using that ok(3) by blast
      moreover have "m < j \<longleftrightarrow> k < j \<or> j = k" using True by linarith
      ultimately show ?thesis by blast
    qed
    then have "holds content T k R w" using ok unfolding holds_def by blast
    from Cons.IH [OF this, of "s\<lparr>output_seq := k\<rparr>"] obtain m' evs w' where
      f: "flush_loop w (s\<lparr>output_seq := k\<rparr>) = (s\<lparr>output_seq := m', rtp_packets_map := w'\<rparr>, evs)" "k \<le> m'"
      "goes_out content T evs [k + 1..m']" "{k + 1..m'} \<subseteq> R" "m' + 1 \<notin> R" "holds content T m' R w'"
      by auto
    have u: "[m + 1..m'] = k # [k + 1..m']" using upto_rec1 [of "m + 1" m'] True f(2) by simp
    have "{m + 1..m'} = insert k {k + 1..m'}" using True f(2) by auto
    then have "{m + 1..m'} \<subseteq> R" using f(4) k(1) by simp
    moreover have "flush_loop (e # w) s = (s\<lparr>output_seq := m', rtp_packets_map := w'\<rparr>, RtpPacketOutput i # evs)"
      using f(1) True ok(1) Cons.prems(2) by (simp add: e jb_OutputPacket_def)
    moreover have "goes_out content T (RtpPacketOutput i # evs) [m + 1..m']" using f(3) ok(1,4,5) by (simp add: u goes_out_Cons)
    ultimately show ?thesis using f(2,5,6) k(2) by (meson less_imp_le order_trans)
  next
    case False
    have "\<forall>j\<in>insert k (fst ` set w). k \<le> j" using ok(3) by auto
    then have "m + 1 \<notin> R" using False k unfolding ks by force
    moreover have "flush_loop (e # w) s = (s\<lparr>output_seq := m, rtp_packets_map := e # w\<rparr>, [])"
      using False Cons.prems(2) by (simp add: e)
    ultimately show ?thesis using Cons.prems(1)
      by (intro exI [of _ m] exI [of _ "[]"] exI [of _ "e # w"]) simp
  qed
qed

text \<open>As long as no packet has waited for too long and the next one is missing, the timer does nothing.\<close>

lemma timeout_loop_idle:
  "\<forall>(k, i)\<in>set w. \<not> now - local_ms (info_pkt i) > buffer_timeout s \<and> output_seq s + 1 \<noteq> extend_seq i \<Longrightarrow>
   timeout_loop now kept w s = (s\<lparr>rtp_packets_map := rev kept @ w\<rparr>, [])"
  by (induction w arbitrary: kept) auto

lemma CheckTimeout_idle:
  "\<forall>(k, i)\<in>set (rtp_packets_map s). \<not> now - local_ms (info_pkt i) > buffer_timeout s \<and> output_seq s + 1 \<noteq> extend_seq i \<Longrightarrow>
   CheckTimeout now s = (s, [])"
  by (simp add: CheckTimeout_def timeout_loop_idle)

section \<open>Packets go out in order\<close>

definition in_order :: "(int \<Rightarrow> bytes \<times> u32) \<Rightarrow> arrivals \<Rightarrow> int \<Rightarrow> int set \<Rightarrow> jitter_buffer \<Rightarrow> bool" where
  "in_order content T b R s \<longleftrightarrow> b \<le> output_seq s \<and> {b..output_seq s} \<subseteq> R \<and> output_seq s + 1 \<notin> R \<and>
     holds content T (output_seq s) R (rtp_packets_map s)"

lemma in_order_mono: "in_order content T b R s \<Longrightarrow> T \<subseteq> T' \<Longrightarrow> in_order content T' b R s"
  by (auto simp: in_order_def holds_def intro: good_info_mono)

lemma holds_insert:
  assumes "holds content T m R w" "x \<le> m \<or> x = m + 1" "m + 1 \<notin> R"
  shows "holds content T (max m x) (insert x R) w"
proof -
  have "{k \<in> insert x R. max m x < k} = {k \<in> R. m < k}" 
  proof (cases "x \<le> m")
    case False
    with assms(2) have x: "x = m + 1" "max m x = x" by simp_all
    have "m < k \<longleftrightarrow> x < k \<or> k = m + 1" for k using x(1) by arith
    with assms(3) x show ?thesis by auto
  qed auto
  with assms(1) show ?thesis by (simp add: holds_def)
qed

lemma holds_put:
  assumes "holds content T m R w" "m < x" "extend_seq i = x" "info_content i = content x" "good_info T i"
  shows "holds content T m (insert x R) (map_put x i w)"
proof -
  have w: "map_ok w" "fst ` set w = {k \<in> R. m < k}" "\<forall>(k, i)\<in>set w. info_content i = content k \<and> good_info T i"
    using assms(1) by (simp_all add: holds_def)
  have s: "set (map_put x i w) = insert (x, i) {e \<in> set w. fst e \<noteq> x}" using w(1) by (intro set_map_put) (simp add: map_ok_def)
  have "fst ` set (map_put x i w) = insert x (fst ` set w)" unfolding s by (auto simp: image_iff)
  also have "\<dots> = {k \<in> insert x R. m < k}" unfolding w(2) using assms(2) by auto
  finally have "fst ` set (map_put x i w) = {k \<in> insert x R. m < k}" .
  moreover have "\<forall>(k, i)\<in>set (map_put x i w). info_content i = content k \<and> good_info T i"
    unfolding s using w(3) assms(4,5) by simp
  ultimately show ?thesis using map_ok_put [OF w(1) assms(3)] unfolding holds_def by blast
qed

lemma deliver_in_order:
  assumes inv: "in_order content T b R s" and i: "extend_seq i = x" "info_content i = content x" "good_info T i" "local_ms (info_pkt i) = now"
    and wait: "\<forall>(y, \<tau>)\<in>T. now - \<tau> \<le> buffer_timeout s \<or> {b..y} \<subseteq> insert x R"
  shows "\<exists>m w evs. jb_deliver now i False False s = (s\<lparr>output_seq := m, rtp_packets_map := w\<rparr>, evs) \<and>
    in_order content T b (insert x R) (s\<lparr>output_seq := m, rtp_packets_map := w\<rparr>) \<and>
    goes_out content T evs [output_seq s + 1..m] \<and> output_seq s \<le> m"
proof -
  let ?m = "output_seq s" and ?w = "rtp_packets_map s"
  have o: "b \<le> ?m" "{b..?m} \<subseteq> R" "?m + 1 \<notin> R" "holds content T ?m R ?w" using inv by (simp_all add: in_order_def)
  consider "x = ?m + 1" | "x \<le> ?m" | "?m + 1 < x" by linarith
  then show ?thesis
  proof cases
    case 1
    have "holds content T x (insert x R) ?w" using holds_insert [OF o(4) _ o(3), of x] 1 by (simp add: max_def)
    from flush_holds [OF this, of "s\<lparr>output_seq := x\<rparr>"] obtain m evs w where
      f: "flush_loop ?w (s\<lparr>output_seq := x\<rparr>) = (s\<lparr>output_seq := m, rtp_packets_map := w\<rparr>, evs)" "x \<le> m"
      "goes_out content T evs [x + 1..m]" "{x + 1..m} \<subseteq> insert x R" "m + 1 \<notin> insert x R"
      "holds content T m (insert x R) w" by auto
    have "{b..m} = {b..?m} \<union> {x} \<union> {x + 1..m}" using o(1) 1 f(2) by auto
    then have "{b..m} \<subseteq> insert x R" using o(2) f(4) by auto
    moreover have "[?m + 1..m] = x # [x + 1..m]" using upto_rec1 [of "?m + 1" m] 1 f(2) by simp
    moreover have "jb_deliver now i False False s = (s\<lparr>output_seq := m, rtp_packets_map := w\<rparr>, RtpPacketOutput i # evs)"
      using i 1 f(1) by (simp add: jb_deliver_def jb_OutputPacket_def)
    ultimately show ?thesis using f i 1 o(1)
      by (intro exI [of _ m] exI [of _ w] exI [of _ "RtpPacketOutput i # evs"]) (simp add: in_order_def goes_out_Cons)
  next
    case 2
    have "holds content T ?m (insert x R) ?w" using holds_insert [OF o(4) _ o(3), of x] 2 by (simp add: max_def)
    with 2 o i show ?thesis
      by (intro exI [of _ ?m] exI [of _ ?w] exI [of _ "[]"]) (auto simp: in_order_def jb_deliver_def)
  next
    case 3
    let ?v = "map_put x i ?w"
    have h: "holds content T ?m (insert x R) ?v" using holds_put [OF o(4) _ i(1-3)] 3 by simp
    have keys: "k \<noteq> ?m + 1" if "k \<in> fst ` set ?v" for k using h that o(3) 3 by (auto simp: holds_def)
    have "\<forall>(k, j)\<in>set ?v. \<not> now - local_ms (info_pkt j) > buffer_timeout s \<and> ?m + 1 \<noteq> extend_seq j"
    proof (clarify, intro conjI)
      fix k j assume kj: "(k, j) \<in> set ?v"
      then have j: "(k, local_ms (info_pkt j)) \<in> T" "extend_seq j = k" using h by (auto simp: holds_def map_ok_def good_info_def)
      have k: "k \<in> fst ` set ?v" using kj by force
      then have "?m < k" using h by (auto simp: holds_def)
      then have "?m + 1 \<in> {b..k}" using o(1) by simp
      then have "\<not> {b..k} \<subseteq> insert x R" using o(3) 3 by auto
      then show "\<not> now - local_ms (info_pkt j) > buffer_timeout s" using wait j(1) by auto
      show "?m + 1 \<noteq> extend_seq j" using keys [OF k] j(2) by simp
    qed
    then have "CheckTimeout now (s\<lparr>rtp_packets_map := ?v\<rparr>) = (s\<lparr>rtp_packets_map := ?v\<rparr>, [])" by (intro CheckTimeout_idle) simp
    then have "jb_deliver now i False False s = (s\<lparr>rtp_packets_map := ?v\<rparr>, [])" using 3 i(1) by (simp add: jb_deliver_def)
    with o h 3 show ?thesis
      by (intro exI [of _ ?m] exI [of _ ?v] exI [of _ "[]"]) (auto simp: in_order_def)
  qed
qed

text \<open>What the buffer does with a packet as the parser makes it.\<close>

definition pool_ok :: "jitter_buffer \<Rightarrow> bool" where
  "pool_ok s \<longleftrightarrow> (\<forall>k. length (pkt_buffers s k) = 1500)"

definition sendable :: "int \<Rightarrow> bytes \<times> u32 \<Rightarrow> rtp_packet \<Rightarrow> bool" where
  "sendable x c p \<longleftrightarrow> parsed p \<and> rtp_data_len p < 1500 \<and> GetSeq p = of_int x \<and> (payload_of p, GetTimestamp p) = c"

lemma input_sendable:
  assumes "sendable x c p" "pool_ok s" "length heap = 1500"
  shows "\<exists>q pool n. (payload_of q, GetTimestamp q) = c \<and> local_ms q = now \<and> rtp_ok q \<and>
    (\<forall>k. length (pool k) = 1500) \<and>
    jb_InputRtpPacket now heap cr p s =
     (let ((ok, ext, reset, first_pkt), s) = jb_sequence (of_int x) (s\<lparr>buffer_index := n, pkt_buffers := pool\<rparr>) in
      if \<not> ok then Some (s, Inr [])
      else Some (map_prod id Inr (jb_deliver now \<lparr> info_media_type = jb_media_type s, info_pkt = q, extend_seq = ext,
        info_clock_rate = cr \<rparr> reset first_pkt s)))"
proof -
  let ?k = "buffer_index s mod RTP_PACKET_MAX_SIZE"
  let ?b = "pkt_buffers s ?k"
  let ?pool = "(pkt_buffers s)(?k := put_at 0 (GetData p) ?b)"
  let ?i = "moved now ?b False p" and ?q = "moved now heap True (moved now ?b False p)"
  have p: "parsed p" "rtp_data_len p < 1500" "GetSeq p = of_int x" "(payload_of p, GetTimestamp p) = c"
    using assms(1) by (simp_all add: sendable_def)
  have ok: "rtp_ok p" "rtp_data_len p \<le> length (rtp_mem p)" using parsed_ok [OF p(1)] by (auto simp: rtp_ok_def)
  have l: "rtp_data_len p \<le> length ?b" "length ?b = 1500" using assms(2) p(2) by (simp_all add: pool_ok_def)
  note c1 = Clone_parsed [OF p(1,2) l(1), of now False]
  note m1 = moved_same [OF ok(1) l(1), of now False]
  note ok1 = parsed_ok [OF c1(2)]
  have l2: "rtp_data_len ?i < 1500" "rtp_data_len ?i \<le> length heap" using p(2) assms(3) m1 by simp_all
  note c2 = Clone_parsed [OF c1(2) l2, of now True]
  note m2 = moved_same [OF ok1 l2(2), of now True]
  have "\<forall>k. length (?pool k) = 1500" using assms(2) l ok(2) p(2) by (simp add: pool_ok_def GetData_def)
  moreover have "jb_InputRtpPacket now heap cr p s =
     (let ((ok, ext, reset, first_pkt), s) = jb_sequence (of_int x) (s\<lparr>buffer_index := buffer_index s + 1, pkt_buffers := ?pool\<rparr>) in
      if \<not> ok then Some (s, Inr [])
      else Some (map_prod id Inr (jb_deliver now \<lparr> info_media_type = jb_media_type s, info_pkt = ?q, extend_seq = ext,
        info_clock_rate = cr \<rparr> reset first_pkt s)))"
    using c1(1) c2(1) m1(2) p(3) by (simp add: jb_InputRtpPacket_def Let_def split_def)
  moreover have "(payload_of ?q, GetTimestamp ?q) = c" "local_ms ?q = now" "rtp_ok ?q"
    using m1 m2 parsed_ok [OF c2(2)] p(4) by simp_all
  ultimately show ?thesis by blast
qed

text \<open>The numbers that come in, seen from the highest one so far.\<close>

definition in_window :: "int \<Rightarrow> int \<Rightarrow> bool" where
  "in_window h x \<longleftrightarrow> h \<le> x \<and> x - h < 3000 \<or> x < h \<and> h - x < 100 \<and> h div 65536 * 65536 \<le> x"

fun windows :: "int \<Rightarrow> int list \<Rightarrow> bool" where
  "windows h [] \<longleftrightarrow> True"
| "windows h (x # xs) \<longleftrightarrow> in_window h x \<and> windows (max h x) xs"

definition jb_inv :: "(int \<Rightarrow> bytes \<times> u32) \<Rightarrow> arrivals \<Rightarrow> int \<Rightarrow> int \<Rightarrow> int \<Rightarrow> jitter_buffer \<Rightarrow> bool" where
  "jb_inv content T b h lim s \<longleftrightarrow> jb_init_flag s \<and> whole_cycles s \<and> pool_ok s \<and> 0 \<le> h \<and> highest s = h \<and>
     buffer_timeout s = lim \<and> 0 \<le> lim \<and> in_order content T b (fst ` T) s"

lemma in_order_fields:
  "in_order content T b R (s\<lparr>buffer_index := n, pkt_buffers := pool\<rparr>) \<longleftrightarrow> in_order content T b R s"
  "in_order content T b R (s\<lparr>cycles := c, max_seq := w\<rparr>) \<longleftrightarrow> in_order content T b R s"
  by (simp_all add: in_order_def)

lemma input_in_order:
  assumes p: "sendable x (content x) p" "length heap = 1500" and inv: "jb_inv content T b h lim s"
    and x: "in_window h x" "h < 2 ^ 32 - 2 * 65536" and wait: "\<forall>(y, \<tau>)\<in>T. now - \<tau> \<le> lim \<or> {b..y} \<subseteq> insert x (fst ` T)"
  shows "\<exists>s' evs. jb_InputRtpPacket now heap cr p s = Some (s', Inr evs) \<and> jb_inv content (insert (x, now) T) b (max h x) lim s' \<and>
    goes_out content (insert (x, now) T) evs [output_seq s + 1..output_seq s'] \<and> output_seq s \<le> output_seq s'"
proof -
  let ?T = "insert (x, now) T" and ?R = "fst ` T"
  have s: "jb_init_flag s" "whole_cycles s" "pool_ok s" "0 \<le> h" "highest s = h" "buffer_timeout s = lim" "in_order content T b ?R s" "0 \<le> lim"
    using inv by (simp_all add: jb_inv_def)
  obtain q pool n where q: "(payload_of q, GetTimestamp q) = content x" "local_ms q = now" "rtp_ok q" "\<forall>k. length (pool k) = 1500"
    "jb_InputRtpPacket now heap cr p s =
     (let ((ok, ext, reset, first_pkt), s) = jb_sequence (of_int x) (s\<lparr>buffer_index := n, pkt_buffers := pool\<rparr>) in
      if \<not> ok then Some (s, Inr [])
      else Some (map_prod id Inr (jb_deliver now \<lparr> info_media_type = jb_media_type s, info_pkt = q, extend_seq = ext,
        info_clock_rate = cr \<rparr> reset first_pkt s)))"
    using input_sendable [OF p(1) s(3) p(2), of now cr] by blast
  let ?s = "s\<lparr>buffer_index := n, pkt_buffers := pool\<rparr>"
  have s1: "whole_cycles ?s" "highest ?s = h" using s by (simp_all add: whole_cycles_def highest_def)
  have "\<exists>u. jb_UpdateSeq (of_int x) ?s = ((True, x, False), u) \<and> jb_init_flag u \<and> whole_cycles u \<and> pool_ok u \<and>
    highest u = max h x \<and> buffer_timeout u = lim \<and> in_order content T b ?R u \<and> output_seq u = output_seq s"
  proof (cases "h \<le> x")
    case True
    then obtain c w where "jb_UpdateSeq (of_int x) ?s = ((True, x, False), ?s\<lparr>cycles := c, max_seq := w\<rparr>)"
      "highest (?s\<lparr>cycles := c, max_seq := w\<rparr>) = x" "whole_cycles (?s\<lparr>cycles := c, max_seq := w\<rparr>)"
      using UpdateSeq_forward [OF s1(1), of x] s1(2) s(4) x by (auto simp: in_window_def)
    with True s q(4) show ?thesis by (auto simp: pool_ok_def in_order_fields)
  next
    case False
    then have "jb_UpdateSeq (of_int x) ?s = ((True, x, False), ?s)"
      using UpdateSeq_late [OF s1(1), of x] s1(2) x by (auto simp: in_window_def)
    with False s s1 q(4) show ?thesis by (auto simp: pool_ok_def in_order_fields)
  qed
  then obtain u where u: "jb_UpdateSeq (of_int x) ?s = ((True, x, False), u)" "jb_init_flag u" "whole_cycles u" "pool_ok u"
    "highest u = max h x" "buffer_timeout u = lim" "in_order content T b ?R u" "output_seq u = output_seq s" by blast
  let ?i = "\<lparr> info_media_type = jb_media_type u, info_pkt = q, extend_seq = x, info_clock_rate = cr \<rparr>"
  have "jb_sequence (of_int x) ?s = ((True, x, False, False), u)" using u(1) s(1) by (simp add: jb_sequence_def)
  then have I: "jb_InputRtpPacket now heap cr p s = Some (map_prod id Inr (jb_deliver now ?i False False u))"
    unfolding q(5) by simp
  obtain m w evs where d: "jb_deliver now ?i False False u = (u\<lparr>output_seq := m, rtp_packets_map := w\<rparr>, evs)"
    "in_order content ?T b (insert x ?R) (u\<lparr>output_seq := m, rtp_packets_map := w\<rparr>)"
    "goes_out content ?T evs [output_seq u + 1..m]" "output_seq u \<le> m"
    using deliver_in_order [OF in_order_mono [OF u(7), of ?T], of ?i x now] q(1-3) wait u(6) s(8)
    by (auto simp: info_content_def good_info_def)
  show ?thesis using I d u s(4,8)
    by (intro exI [of _ "u\<lparr>output_seq := m, rtp_packets_map := w\<rparr>"] exI [of _ evs])
       (simp add: jb_inv_def whole_cycles_def highest_def pool_ok_def)
qed

text \<open>A buffer that is given packets, each with its time and the new buffer for its copy.\<close>

fun jb_run :: "int \<Rightarrow> (int \<times> bytes \<times> rtp_packet) list \<Rightarrow> jitter_buffer \<Rightarrow> (jitter_buffer \<times> jitter_event list) option" where
  "jb_run cr [] s = Some (s, [])"
| "jb_run cr ((now, heap, p) # arr) s = (case jb_InputRtpPacket now heap cr p s of
     Some (s, Inr evs) \<Rightarrow> map_option (map_prod id ((@) evs)) (jb_run cr arr s)
   | _ \<Rightarrow> None)"

text \<open>
  The packets that come, without their times.  \<open>waits_ok\<close> is about the times: whenever a packet comes, at
  \<open>now\<close>, every packet that came more than \<open>lim\<close> before has gone out already or goes out now,
  since all packets from the first one, \<open>b\<close>, up to it have come.
\<close>

definition arrives :: "(int \<Rightarrow> bytes \<times> u32) \<Rightarrow> int \<Rightarrow> int \<times> bytes \<times> rtp_packet \<Rightarrow> bool" where
  "arrives content x a \<longleftrightarrow> (case a of (now, heap, p) \<Rightarrow> sendable x (content x) p \<and> length heap = 1500)"

fun waits_ok :: "int \<Rightarrow> int \<Rightarrow> arrivals \<Rightarrow> (int \<times> int) list \<Rightarrow> bool" where
  "waits_ok b lim T [] \<longleftrightarrow> True"
| "waits_ok b lim T ((x, now) # ts) \<longleftrightarrow>
     (\<forall>(y, \<tau>)\<in>T. now - \<tau> \<le> lim \<or> {b..y} \<subseteq> insert x (fst ` T)) \<and> waits_ok b lim (insert (x, now) T) ts"

definition stamps :: "int list \<Rightarrow> (int \<times> bytes \<times> rtp_packet) list \<Rightarrow> (int \<times> int) list" where
  "stamps xs arr = zip xs (map fst arr)"

lemma stamps_simps [simp]:
  "stamps (x # xs) ((now, heap, p) # arr) = (x, now) # stamps xs arr" "stamps [] arr = []"
  by (simp_all add: stamps_def)

lemma arrives_Cons:
  assumes "list_all2 (arrives content) (x # xs) arr"
  obtains now heap p arr' where "arr = (now, heap, p) # arr'" "list_all2 (arrives content) xs arr'"
    "sendable x (content x) p" "length heap = 1500"
proof -
  from assms obtain a arr' where "arr = a # arr'" "arrives content x a" "list_all2 (arrives content) xs arr'"
    by (cases arr) simp_all
  then show thesis using that by (cases a) (auto simp: arrives_def)
qed

lemma stamps_numbers: "list_all2 (arrives content) xs arr \<Longrightarrow> fst ` set (stamps xs arr) = set xs"
  by (induction xs arr rule: list_all2_induct) (auto simp: stamps_def)

lemma upto_append: "a \<le> b + 1 \<Longrightarrow> b \<le> c \<Longrightarrow> [a..c] = [a..b] @ [b + 1..c]" for a b c :: int
  using upto_split2 [of a b c] by (cases "a = b + 1") auto

lemma run_in_order:
  assumes "list_all2 (arrives content) xs arr" "jb_inv content T b h lim s" "windows h xs" "waits_ok b lim T (stamps xs arr)"
    "h < 2 ^ 32 - 2 * 65536" "\<forall>x\<in>set xs. x < 2 ^ 32 - 2 * 65536"
  shows "\<exists>s' evs h'. jb_run cr arr s = Some (s', evs) \<and> jb_inv content (T \<union> set (stamps xs arr)) b h' lim s' \<and>
    goes_out content (T \<union> set (stamps xs arr)) evs [output_seq s + 1..output_seq s'] \<and> output_seq s \<le> output_seq s'"
  using assms
proof (induction xs arbitrary: arr s T h)
  case (Cons x xs)
  obtain now heap p arr' where arr: "arr = (now, heap, p) # arr'" "list_all2 (arrives content) xs arr'"
    "sendable x (content x) p" "length heap = 1500"
    using Cons.prems(1) by (rule arrives_Cons)
  let ?T = "insert (x, now) T"
  obtain u evs where u: "jb_InputRtpPacket now heap cr p s = Some (u, Inr evs)" "jb_inv content ?T b (max h x) lim u"
    "goes_out content ?T evs [output_seq s + 1..output_seq u]" "output_seq s \<le> output_seq u"
    using input_in_order [OF arr(3,4) Cons.prems(2), of now cr] Cons.prems(3-5) by (auto simp: arr(1))
  let ?T' = "?T \<union> set (stamps xs arr')"
  have "waits_ok b lim ?T (stamps xs arr')" using Cons.prems(4) by (simp add: arr(1))
  then obtain s' evs' h' where r: "jb_run cr arr' u = Some (s', evs')" "jb_inv content ?T' b h' lim s'"
    "goes_out content ?T' evs' [output_seq u + 1..output_seq s']" "output_seq u \<le> output_seq s'"
    using Cons.IH [OF arr(2) u(2)] Cons.prems(3,5,6) by auto
  have "[output_seq s + 1..output_seq s'] = [output_seq s + 1..output_seq u] @ [output_seq u + 1..output_seq s']"
    using u(4) r(4) by (intro upto_append) simp_all
  then have "goes_out content ?T' (evs @ evs') [output_seq s + 1..output_seq s']"
    using goes_out_append [OF goes_out_mono [OF u(3)] r(3)] by auto
  moreover have "T \<union> set (stamps (x # xs) arr) = ?T'" by (simp add: arr(1))
  ultimately show ?case using u r by (auto simp: arr(1))
qed (auto intro!: exI)

text \<open>The first packet of a new buffer.\<close>

lemma first_input:
  assumes "new_JitterBuffer ty pool = Some s0" "\<And>k. length (pool k) = 1500"
    and p: "sendable x0 (content x0) p" "length heap = 1500" and x0: "0 \<le> x0" "x0 < 65536"
  shows "\<exists>s evs. jb_InputRtpPacket now heap cr p s0 = Some (s, Inr evs) \<and> jb_inv content {(x0, now)} x0 x0 (buffer_timeout s0) s \<and>
    goes_out content {(x0, now)} evs [x0] \<and> output_seq s = x0"
proof -
  have s0: "\<not> jb_init_flag s0" "pool_ok s0" "rtp_packets_map s0 = []" "0 \<le> buffer_timeout s0"
    using assms(1,2)
    by (auto simp: new_JitterBuffer_def pool_ok_def JITTER_BUFFER_VIDEO_TIMEOUT_def JITTER_BUFFER_AUDIO_TIMEOUT_def split: if_splits)
  obtain q pool' n where q: "(payload_of q, GetTimestamp q) = content x0" "local_ms q = now" "rtp_ok q" "\<forall>k. length (pool' k) = 1500"
    "jb_InputRtpPacket now heap cr p s0 =
     (let ((ok, ext, reset, first_pkt), s) = jb_sequence (of_int x0) (s0\<lparr>buffer_index := n, pkt_buffers := pool'\<rparr>) in
      if \<not> ok then Some (s, Inr [])
      else Some (map_prod id Inr (jb_deliver now \<lparr> info_media_type = jb_media_type s, info_pkt = q, extend_seq = ext,
        info_clock_rate = cr \<rparr> reset first_pkt s)))"
    using input_sendable [OF p(1) s0(2) p(2), of now cr] by blast
  let ?u = "jb_InitSeq (of_int x0) (s0\<lparr>buffer_index := n, pkt_buffers := pool', jb_init_flag := True\<rparr>)"
  let ?i = "\<lparr> info_media_type = jb_media_type ?u, info_pkt = q, extend_seq = x0, info_clock_rate = cr \<rparr>"
  have n: "int (unat (of_int x0 :: u16)) = x0" using u16_parts [of x0] x0 by simp
  have "jb_sequence (of_int x0) (s0\<lparr>buffer_index := n, pkt_buffers := pool'\<rparr>) = ((True, x0, True, True), ?u)"
    using s0(1) n by (simp add: jb_sequence_def)
  then have I: "jb_InputRtpPacket now heap cr p s0 = Some (map_prod id Inr (jb_deliver now ?i True True ?u))" unfolding q(5) by simp
  let ?late = "now - jb_report_lost_ts ?u > 500"
  define l where "l = (if ?late then now else jb_report_lost_ts ?u)"
  define evs where "evs = (if ?late then [RtpPacketReset ?i] else [])"
  have lost: "jb_ReportLost now ?i ?u = (?u\<lparr>jb_report_lost_ts := l\<rparr>, evs)" "goes_out content {(x0, now)} evs []"
    by (simp_all add: jb_ReportLost_def l_def evs_def goes_out_def)
  let ?s = "?u\<lparr>jb_report_lost_ts := l, output_seq := x0\<rparr>"
  have D: "jb_deliver now ?i True True ?u = (?s, evs @ [RtpPacketOutput ?i])"
    by (simp add: jb_deliver_def lost(1) jb_OutputPacket_def)
  have "jb_inv content {(x0, now)} x0 x0 (buffer_timeout s0) ?s"
    using s0 q(4) n x0 by (auto simp: jb_inv_def jb_InitSeq_def whole_cycles_def highest_def pool_ok_def in_order_def holds_def)
  moreover have "goes_out content {(x0, now)} (evs @ [RtpPacketOutput ?i]) ([] @ [x0])"
    using q(1-3) by (intro goes_out_append lost(2)) (simp add: goes_out_Cons info_content_def good_info_def)
  ultimately show ?thesis using I D by auto
qed

lemma run_from_new:
  assumes "new_JitterBuffer ty pool = Some s0" "\<And>k. length (pool k) = 1500"
    and "list_all2 (arrives content) (x0 # xs) arr" "0 \<le> x0" "x0 < 65536" "windows x0 xs"
    and "waits_ok x0 (buffer_timeout s0) {} (stamps (x0 # xs) arr)" "\<forall>x\<in>set xs. x < 2 ^ 32 - 2 * 65536"
  obtains s evs h where "jb_run cr arr s0 = Some (s, evs)"
    "jb_inv content (set (stamps (x0 # xs) arr)) x0 h (buffer_timeout s0) s"
    "goes_out content (set (stamps (x0 # xs) arr)) evs [x0..output_seq s]" "x0 \<le> output_seq s"
proof -
  let ?lim = "buffer_timeout s0"
  obtain now heap p arr' where arr: "arr = (now, heap, p) # arr'" "list_all2 (arrives content) xs arr'"
    "sendable x0 (content x0) p" "length heap = 1500"
    using assms(3) by (rule arrives_Cons)
  obtain u e where u: "jb_InputRtpPacket now heap cr p s0 = Some (u, Inr e)" "jb_inv content {(x0, now)} x0 x0 ?lim u"
    "goes_out content {(x0, now)} e [x0]" "output_seq u = x0"
    using first_input [of ty pool s0 x0 content p heap now cr] assms(1,2,4,5) arr(3,4) by blast
  have w: "waits_ok x0 ?lim {(x0, now)} (stamps xs arr')" using assms(7) by (simp add: arr(1))
  let ?T = "{(x0, now)} \<union> set (stamps xs arr')"
  obtain s evs h where r: "jb_run cr arr' u = Some (s, evs)" "jb_inv content ?T x0 h ?lim s"
    "goes_out content ?T evs [x0 + 1..output_seq s]" "x0 \<le> output_seq s"
    using run_in_order [OF arr(2) u(2) assms(6) w _ assms(8), of cr] assms(5) u(4) by auto
  have "[x0..output_seq s] = [x0] @ [x0 + 1..output_seq s]" using upto_rec1 [OF r(4)] by simp
  then have "goes_out content ?T (e @ evs) [x0..output_seq s]"
    using goes_out_append [OF goes_out_mono [OF u(3)] r(3)] by auto
  moreover have "jb_run cr arr s0 = Some (s, e @ evs)" using u(1) r(1) by (simp add: arr(1))
  ultimately show thesis using that [of s "e @ evs" h] r(2,4) by (simp add: arr(1))
qed

text \<open>In such a state the timer does nothing at a time at which no packet has waited for too long.\<close>

lemma timer_idle:
  assumes "jb_inv content T b h lim s" "\<forall>(y, \<tau>)\<in>T. later - \<tau> \<le> lim \<or> {b..y} \<subseteq> fst ` T"
  shows "jb_OnTimer later s = (s, [])"
  unfolding jb_OnTimer_def
proof (rule CheckTimeout_idle, clarify, intro conjI)
  fix k i assume ki: "(k, i) \<in> set (rtp_packets_map s)"
  let ?m = "output_seq s"
  have o: "b \<le> ?m" "?m + 1 \<notin> fst ` T" "holds content T ?m (fst ` T) (rtp_packets_map s)" "buffer_timeout s = lim"
    using assms(1) by (simp_all add: jb_inv_def in_order_def)
  have i: "(k, local_ms (info_pkt i)) \<in> T" "extend_seq i = k" using o(3) ki by (auto simp: holds_def map_ok_def good_info_def)
  have "k \<in> fst ` set (rtp_packets_map s)" using ki by force
  then have k: "k \<in> fst ` T" "?m < k" using o(3) by (auto simp: holds_def)
  then have "?m + 1 \<in> {b..k}" using o(1) by simp
  then have "\<not> {b..k} \<subseteq> fst ` T" using o(2) by blast
  then show "\<not> later - local_ms (info_pkt i) > buffer_timeout s" using assms(2) i(1) o(4) by auto
  show "?m + 1 \<noteq> extend_seq i" using k(1) o(2) unfolding i(2) by metis
qed

text \<open>
  C29: The jitter buffer puts packets back in order.  A new buffer gets packets of less than 1500 bytes, as the parser makes them, with the numbers
  \<open>x0 # xs\<close> (\<open>x0\<close> below 65536, the others below \<open>2 ^ 32 - 131072\<close>), of which the headers hold the low
  16 bits: in any order, with repetitions and gaps, across the wrap-around of the 16 bits, over any length of
  time, as long as each number is less than 3000 above the highest one so far, or less than 100 below it and in the same
  cycle of 65536, and as long as, whenever a packet comes, every packet that came earlier by more than the
  timeout of the buffer either has gone out or goes out now (all numbers from \<open>x0\<close> up to its own have come).
  Then exactly the numbers from \<open>x0\<close> to the one before the first that is missing go out, once each, in ascending
  order and with the payloads and timestamps of their packets; and the timer, at any time at which no packet
  has waited for longer than the timeout, changes nothing.
\<close>
theorem jitter_in_order:
  assumes "new_JitterBuffer ty pool = Some s0" "\<And>k. length (pool k) = 1500"
    and "list_all2 (arrives content) (x0 # xs) arr" "0 \<le> x0" "x0 < 65536" "windows x0 xs"
    and "waits_ok x0 (buffer_timeout s0) {} (stamps (x0 # xs) arr)" "\<forall>x\<in>set xs. x < 2 ^ 32 - 2 * 65536"
  shows "\<exists>s evs m. jb_run cr arr s0 = Some (s, evs) \<and> outs evs = map (\<lambda>k. (k, content k)) [x0..m] \<and>
    x0 \<le> m \<and> {x0..m} \<subseteq> set (x0 # xs) \<and> m + 1 \<notin> set (x0 # xs) \<and>
    (\<forall>later. (\<forall>(y, \<tau>)\<in>set (stamps (x0 # xs) arr). later - \<tau> \<le> buffer_timeout s0 \<or> {x0..y} \<subseteq> set (x0 # xs)) \<longrightarrow>
      jb_OnTimer later s = (s, []))"
proof -
  obtain s evs h where r: "jb_run cr arr s0 = Some (s, evs)" "jb_inv content (set (stamps (x0 # xs) arr)) x0 h (buffer_timeout s0) s"
    "goes_out content (set (stamps (x0 # xs) arr)) evs [x0..output_seq s]" "x0 \<le> output_seq s"
    by (rule run_from_new [OF assms])
  note R = stamps_numbers [OF assms(3)]
  show ?thesis
    using r timer_idle [OF r(2)] unfolding R by (intro exI [of _ s] exI [of _ evs] exI [of _ "output_seq s"])
      (simp add: jb_inv_def in_order_def goes_out_def R)
qed

text \<open>
  A late packet from before a wrap-around: the packet \<open>x\<close> is in the cycle before that of the
  highest number.
\<close>

lemma timeout_loop_all:
  "\<forall>(k, i)\<in>set w. now - local_ms (info_pkt i) > buffer_timeout s \<Longrightarrow> w \<noteq> [] \<Longrightarrow>
   output_seq (fst (timeout_loop now kept w s)) = extend_seq (snd (last w))"
proof (induction w arbitrary: s kept)
  case (Cons e w)
  obtain k i where e: "e = (k, i)" by (cases e)
  let ?u = "fst (jb_ReportLost now i (s\<lparr>output_seq := extend_seq i\<rparr>))"
  have u: "buffer_timeout ?u = buffer_timeout s" "output_seq ?u = extend_seq i" by (simp_all add: jb_ReportLost_def)
  have step: "fst (timeout_loop now kept (e # w) s) = fst (timeout_loop now kept w ?u)"
    using Cons.prems(1) by (simp add: e jb_OutputPacket_def split_def Let_def)
  show ?case
  proof (cases "w = []")
    case True
    then show ?thesis using u unfolding step by (simp add: e)
  next
    case False
    then show ?thesis using Cons.IH [of ?u kept] Cons.prems(1) u unfolding step by simp
  qed
qed simp

lemma last_map_put: "map_ok m \<Longrightarrow> \<forall>k\<in>fst ` set m. k < x \<Longrightarrow> map_put x i m = m @ [(x, i)]"
  by (induction x i m rule: map_put.induct) (auto simp: map_ok_Cons)

text \<open>
  C30: A packet that comes late, behind the wrap-around of the sequence numbers, is misread.
  If the buffer still waits for the packet \<open>x\<close>, less than 100 below the highest number but in the
  cycle before it, it takes the packet for number \<open>x + 65536\<close>: the packet does not go out and
  is stored behind all others.  A timer call after its timeout puts it out as number
  \<open>x + 65536\<close>, and from then on every packet with a number up to \<open>x + 65536\<close>, that is
  all packets of the next 65536 but 100 numbers, is dropped as old.
\<close>
theorem jitter_late_wrap:
  assumes "sendable x d p" "pool_ok s" "length heap = 1500" "jb_init_flag s" "whole_cycles s"
    and "x < highest s" "highest s - x < 100" "x < highest s div 65536 * 65536" "highest s < 2 ^ 32 - 2 * 65536"
    and "map_ok (rtp_packets_map s)" "\<forall>k\<in>fst ` set (rtp_packets_map s). output_seq s + 1 < k \<and> k \<le> highest s"
    and "\<forall>(k, i)\<in>set (rtp_packets_map s). now - local_ms (info_pkt i) \<le> buffer_timeout s"
    and "output_seq s < x" "0 \<le> buffer_timeout s"
  shows "\<exists>s' i. jb_InputRtpPacket now heap cr p s = Some (s', Inr []) \<and> extend_seq i = x + 65536 \<and> info_content i = d \<and>
    rtp_packets_map s' = rtp_packets_map s @ [(x + 65536, i)] \<and>
    (\<forall>later. (\<forall>(k, j)\<in>set (rtp_packets_map s'). later - local_ms (info_pkt j) > buffer_timeout s') \<longrightarrow>
      output_seq (fst (CheckTimeout later s')) = x + 65536 \<and>
      (\<forall>t j. extend_seq j \<le> x + 65536 \<longrightarrow> jb_deliver t j False False (fst (CheckTimeout later s')) = (fst (CheckTimeout later s'), [])))"
proof -
  obtain q pool n where q: "(payload_of q, GetTimestamp q) = d" "local_ms q = now" "\<forall>k. length (pool k) = 1500"
    "jb_InputRtpPacket now heap cr p s =
     (let ((ok, ext, reset, first_pkt), s) = jb_sequence (of_int x) (s\<lparr>buffer_index := n, pkt_buffers := pool\<rparr>) in
      if \<not> ok then Some (s, Inr [])
      else Some (map_prod id Inr (jb_deliver now \<lparr> info_media_type = jb_media_type s, info_pkt = q, extend_seq = ext,
        info_clock_rate = cr \<rparr> reset first_pkt s)))"
    using input_sendable [OF assms(1-3), of now cr] by blast
  let ?s = "s\<lparr>buffer_index := n, pkt_buffers := pool\<rparr>"
  let ?i = "\<lparr> info_media_type = jb_media_type s, info_pkt = q, extend_seq = x + 65536, info_clock_rate = cr \<rparr>"
  have w: "whole_cycles ?s" "highest ?s = highest s" using assms(5) by (simp_all add: whole_cycles_def highest_def)
  have "jb_UpdateSeq (of_int x) ?s = ((True, x + 65536, False), ?s)"
    using UpdateSeq_late [OF w(1), of x] w(2) assms(6-9) by simp
  then have sq: "jb_sequence (of_int x) ?s = ((True, x + 65536, False, False), ?s)" using assms(4) by (simp add: jb_sequence_def)
  have "\<forall>k\<in>fst ` set (rtp_packets_map s). k < x + 65536" using assms(7,11) by fastforce
  then have put: "map_put (x + 65536) ?i (rtp_packets_map s) = rtp_packets_map s @ [(x + 65536, ?i)]"
    by (rule last_map_put [OF assms(10)])
  let ?t = "?s\<lparr>rtp_packets_map := rtp_packets_map s @ [(x + 65536, ?i)]\<rparr>"
  have "\<forall>(k, i)\<in>set (rtp_packets_map s). output_seq s + 1 \<noteq> extend_seq i"
    using assms(10,11) by (fastforce simp: map_ok_def)
  then have "CheckTimeout now ?t = (?t, [])" using assms(12-14) q(2) by (intro CheckTimeout_idle) fastforce
  then have "jb_deliver now ?i False False ?s = (?t, [])" using assms(13) by (simp add: jb_deliver_def put)
  then have I: "jb_InputRtpPacket now heap cr p s = Some (?t, Inr [])" unfolding q(4) sq by simp
  have later: "output_seq (fst (CheckTimeout later ?t)) = x + 65536"
    if "\<forall>(k, j)\<in>set (rtp_packets_map ?t). later - local_ms (info_pkt j) > buffer_timeout ?t" for later
    using timeout_loop_all [OF that, of "[]"] by (simp add: CheckTimeout_def)
  show ?thesis
    using I q(1) later by (intro exI [of _ ?t] exI [of _ ?i]) (auto simp: jb_deliver_def info_content_def)
qed

text \<open>
  The timeout can put packets out of order.  Two packets wait behind a gap, and the one with the
  higher number has arrived first.  When it has waited for longer than the timeout and the other one has
  not, it goes out and the lower one stays.  When that one times out too, it goes out after the
  higher one and sets the output position back, so that the next packet in order is taken for one behind a gap
  and has to wait.
\<close>
theorem jitter_timeout_misorder:
  assumes "rtp_packets_map s = [(m + 2, i), (m + 3, j)]" "output_seq s = m" "extend_seq i = m + 2" "extend_seq j = m + 3"
    and "now - local_ms (info_pkt i) \<le> buffer_timeout s" "buffer_timeout s < now - local_ms (info_pkt j)"
    and "buffer_timeout s < later - local_ms (info_pkt i)"
  shows "\<exists>s1 e1 s2 e2. CheckTimeout now s = (s1, e1) \<and> map fst (outs e1) = [m + 3] \<and>
    CheckTimeout later s1 = (s2, e2) \<and> map fst (outs e2) = [m + 2] \<and>
    (\<forall>t k. extend_seq k = m + 4 \<longrightarrow> t - local_ms (info_pkt k) \<le> buffer_timeout s \<longrightarrow>
      jb_deliver t k False False s2 = (s2\<lparr>rtp_packets_map := [(m + 4, k)]\<rparr>, []))"
proof -
  let ?u = "s\<lparr>output_seq := m + 3\<rparr>"
  obtain l e where r1: "jb_ReportLost now j ?u = (?u\<lparr>jb_report_lost_ts := l\<rparr>, e)" "outs e = []"
  proof (cases "now - jb_report_lost_ts ?u > 500")
    case False
    then show thesis by (intro that [of "jb_report_lost_ts s" "[]"]) (simp_all add: jb_ReportLost_def)
  qed (rule that [of now "[RtpPacketReset j]"], simp_all add: jb_ReportLost_def)
  let ?s1 = "?u\<lparr>jb_report_lost_ts := l, rtp_packets_map := [(m + 2, i)]\<rparr>"
  have c1: "CheckTimeout now s = (?s1, RtpPacketOutput j # e)"
    using assms(1-6) r1(1) by (simp add: CheckTimeout_def jb_OutputPacket_def)
  let ?v = "?s1\<lparr>output_seq := m + 2\<rparr>"
  obtain l' e' where r2: "jb_ReportLost later i ?v = (?v\<lparr>jb_report_lost_ts := l'\<rparr>, e')" "outs e' = []"
  proof (cases "later - jb_report_lost_ts ?v > 500")
    case False
    then show thesis by (intro that [of "jb_report_lost_ts ?v" "[]"]) (simp_all add: jb_ReportLost_def)
  qed (rule that [of later "[RtpPacketReset i]"], simp_all add: jb_ReportLost_def)
  let ?s2 = "?v\<lparr>jb_report_lost_ts := l', rtp_packets_map := []\<rparr>"
  have c2: "CheckTimeout later ?s1 = (?s2, RtpPacketOutput i # e')"
    using assms(3,7) r2(1) by (simp add: CheckTimeout_def jb_OutputPacket_def)
  have "jb_deliver t k False False ?s2 = (?s2\<lparr>rtp_packets_map := [(m + 4, k)]\<rparr>, [])"
    if "extend_seq k = m + 4" "t - local_ms (info_pkt k) \<le> buffer_timeout s" for t k
    using that by (simp add: jb_deliver_def CheckTimeout_def)
  with c1 c2 r1(2) r2(2) assms(3,4) show ?thesis
    by (intro exI [of _ ?s1] exI [of _ "RtpPacketOutput j # e"] exI [of _ ?s2] exI [of _ "RtpPacketOutput i # e'"]) simp
qed

section \<open>Witnesses\<close>

definition tiny_packet :: "u8 \<Rightarrow> u8 \<Rightarrow> u8 \<Rightarrow> rtp_packet" where
  "tiny_packet hi lo d = \<lparr> rtp_mem = [0x80, 0x60, hi, lo, 0, 0, 0, 0, 0, 0, 0, 0, d], rtp_ext = None, rtp_payload = 12,
     payload_len = 1, pad_len = 0, rtp_data_len = 13, local_ms = 0, need_delete = False, mid_extension_id = 0,
     abs_time_extension_id = 0, onebyte_ext_map = Map.empty, twobytes_ext_map = Map.empty \<rparr>"

lemma tiny_sendable: "net16 [0x80, 0x60, hi, lo, 0, 0, 0, 0, 0, 0, 0, 0, d] 2 = of_int x \<Longrightarrow> sendable x ([d], 0) (tiny_packet hi lo d)"
  by (simp add: sendable_def parsed_def tiny_packet_def Parse_def rtp_parse_payload_def ParseExt_def RTP_PACKET_MAX_SIZE_def
      RTP_HEADER_SIZE_def Let_def GetSeq_def payload_of_def GetPayload_def GetTimestamp_def net32_def be_val_def bit_simps)

lemma tiny_seqs:
  "sendable 65535 ([1], 0) (tiny_packet 0xff 0xff 1)" "sendable 65536 ([2], 0) (tiny_packet 0 0 2)" "sendable 65537 ([3], 0) (tiny_packet 0 1 3)"
  "sendable 65538 ([4], 0) (tiny_packet 0 2 4)"
  by (rule tiny_sendable, simp add: net16_def be_val_def)+

definition video_buffer :: jitter_buffer where
  "video_buffer = the (new_JitterBuffer MEDIA_VIDEO_TYPE (\<lambda>_. replicate 1500 0))"

text \<open>
  Four packets, across the wrap-around: the second and the third change places, and the last one comes a second
  after the others.
\<close>

theorem jitter_in_order_witness:
  "\<exists>s evs. jb_run 90000 [(0, replicate 1500 0, tiny_packet 0xff 0xff 1), (1, replicate 1500 0, tiny_packet 0 1 3),
      (300, replicate 1500 0, tiny_packet 0 0 2), (1300, replicate 1500 0, tiny_packet 0 2 4)] video_buffer = Some (s, evs) \<and>
    outs evs = [(65535, [1], 0), (65536, [2], 0), (65537, [3], 0), (65538, [4], 0)] \<and> jb_OnTimer 5000 s = (s, [])"
proof -
  let ?c = "\<lambda>x :: int. (if x = 65535 then [1] else if x = 65536 then [2] else if x = 65537 then [3] else [4] :: bytes, 0 :: u32)"
  let ?arr = "[(0, replicate 1500 0, tiny_packet 0xff 0xff 1), (1, replicate 1500 0, tiny_packet 0 1 3),
      (300, replicate 1500 0, tiny_packet 0 0 2), (1300, replicate 1500 0, tiny_packet 0 2 4)]"
  let ?xs = "[65537, 65536, 65538] :: int list"
  have new: "new_JitterBuffer MEDIA_VIDEO_TYPE (\<lambda>_. replicate 1500 0) = Some video_buffer"
    by (simp add: video_buffer_def new_JitterBuffer_def)
  have lim: "buffer_timeout video_buffer = 400" by (simp add: video_buffer_def new_JitterBuffer_def JITTER_BUFFER_VIDEO_TIMEOUT_def)
  have st: "stamps (65535 # ?xs) ?arr = [(65535, 0), (65537, 1), (65536, 300), (65538, 1300)]" by (simp add: stamps_def)
  have all: "{65535..65535} \<subseteq> {65535 :: int}" "{65535..65536} \<subseteq> {65535, 65536 :: int}" "{65535..65537} \<subseteq> {65535, 65536, 65537 :: int}"
    "{65535..65538} \<subseteq> {65535, 65536, 65537, 65538 :: int}" by auto
  have arr: "list_all2 (arrives ?c) (65535 # ?xs) ?arr" using tiny_seqs by (simp add: arrives_def)
  have "windows 65535 ?xs" by (simp add: in_window_def)
  moreover have "waits_ok 65535 (buffer_timeout video_buffer) {} (stamps (65535 # ?xs) ?arr)"
    unfolding st lim using all by (auto simp: insert_commute)
  ultimately obtain s evs m where r: "jb_run 90000 ?arr video_buffer = Some (s, evs)" "outs evs = map (\<lambda>k. (k, ?c k)) [65535..m]"
    "65535 \<le> m" "{65535..m} \<subseteq> set (65535 # ?xs)" "m + 1 \<notin> set (65535 # ?xs)"
    "\<forall>later. (\<forall>(y, \<tau>)\<in>set (stamps (65535 # ?xs) ?arr). later - \<tau> \<le> buffer_timeout video_buffer \<or> {65535..y} \<subseteq> set (65535 # ?xs)) \<longrightarrow>
      jb_OnTimer later s = (s, [])"
    using jitter_in_order [OF new _ arr, of 90000] by auto
  have "m \<in> {65535..m}" using r(3) by simp
  then have "m \<in> {65535, 65537, 65536, 65538}" using r(4) by auto
  then have "m = 65538" using r(5) by auto
  then have "[65535..m] = [65535, 65536, 65537, 65538]" by (simp add: upto.simps)
  moreover have "jb_OnTimer 5000 s = (s, [])" using r(6) unfolding st by (auto simp: lim)
  ultimately show ?thesis using r(1,2) by auto
qed

definition waiting_info :: "int \<Rightarrow> int \<Rightarrow> rtp_packet_info" where
  "waiting_info x t = \<lparr> info_media_type = MEDIA_VIDEO_TYPE, info_pkt = (tiny_packet 0 0 9)\<lparr>local_ms := t\<rparr>, extend_seq = x,
     info_clock_rate = 90000 \<rparr>"

theorem jitter_late_wrap_witness:
  "\<exists>s' (i :: rtp_packet_info). jb_InputRtpPacket 100 (replicate 1500 0) 90000 (tiny_packet 0xff 0xff 1)
      (video_buffer\<lparr>jb_init_flag := True, cycles := 65536, max_seq := 0, output_seq := 65534,
         rtp_packets_map := [(65536, waiting_info 65536 50)]\<rparr>) = Some (s', Inr []) \<and>
    extend_seq i = 131071 \<and> map fst (rtp_packets_map s') = [65536, 131071]"
proof -
  let ?s = "video_buffer\<lparr>jb_init_flag := True, cycles := 65536, max_seq := 0, output_seq := 65534,
         rtp_packets_map := [(65536, waiting_info 65536 50)]\<rparr>"
  have b: "buffer_timeout video_buffer = 400" "pkt_buffers video_buffer = (\<lambda>_. replicate 1500 0)"
    by (simp_all add: video_buffer_def new_JitterBuffer_def JITTER_BUFFER_VIDEO_TIMEOUT_def)
  let ?w = "rtp_packets_map ?s"
  have "\<exists>s' i. jb_InputRtpPacket 100 (replicate 1500 0) 90000 (tiny_packet 0xff 0xff 1) ?s = Some (s', Inr []) \<and>
    extend_seq i = 65535 + 65536 \<and> info_content i = ([1], 0) \<and> rtp_packets_map s' = ?w @ [(65535 + 65536, i)] \<and>
    (\<forall>later. (\<forall>(k, j)\<in>set (rtp_packets_map s'). later - local_ms (info_pkt j) > buffer_timeout s') \<longrightarrow>
      output_seq (fst (CheckTimeout later s')) = 65535 + 65536 \<and>
      (\<forall>t j. extend_seq j \<le> 65535 + 65536 \<longrightarrow> jb_deliver t j False False (fst (CheckTimeout later s')) = (fst (CheckTimeout later s'), [])))"
    by (rule jitter_late_wrap [OF tiny_seqs(1)])
       (simp_all add: b pool_ok_def whole_cycles_def highest_def map_ok_def waiting_info_def)
  then obtain s' i where "jb_InputRtpPacket 100 (replicate 1500 0) 90000 (tiny_packet 0xff 0xff 1) ?s = Some (s', Inr [])"
    "extend_seq i = 131071" "rtp_packets_map s' = ?w @ [(131071, i)]" by auto
  note r = this
  from r(3) have "map fst (rtp_packets_map s') = [65536, 131071]" by simp
  with r(1,2) show ?thesis by (intro exI [of _ s'] exI [of _ i] conjI)
qed

theorem jitter_timeout_misorder_witness:
  "\<exists>s1 e1 s2 e2. CheckTimeout 500 (video_buffer\<lparr>output_seq := 7, rtp_packets_map := [(9, waiting_info 9 300), (10, waiting_info 10 50)]\<rparr>) = (s1, e1) \<and>
    map fst (outs e1) = [10] \<and> CheckTimeout 800 s1 = (s2, e2) \<and> map fst (outs e2) = [9]"
proof -
  let ?s = "video_buffer\<lparr>output_seq := 7, rtp_packets_map := [(9, waiting_info 9 300), (10, waiting_info 10 50)]\<rparr>"
  have b: "buffer_timeout video_buffer = 400"
    by (simp add: video_buffer_def new_JitterBuffer_def JITTER_BUFFER_VIDEO_TIMEOUT_def)
  have "\<exists>s1 e1 s2 e2. CheckTimeout 500 ?s = (s1, e1) \<and> map fst (outs e1) = [7 + 3] \<and>
    CheckTimeout 800 s1 = (s2, e2) \<and> map fst (outs e2) = [7 + 2] \<and>
    (\<forall>t k. extend_seq k = 7 + 4 \<longrightarrow> t - local_ms (info_pkt k) \<le> buffer_timeout ?s \<longrightarrow>
      jb_deliver t k False False s2 = (s2\<lparr>rtp_packets_map := [(7 + 4, k)]\<rparr>, []))"
    by (rule jitter_timeout_misorder [of ?s 7 "waiting_info 9 300" "waiting_info 10 50"]) (simp_all add: b waiting_info_def)
  then show ?thesis by auto
qed

end
