(* ===== verification/RtcNack.thy ===== *)
theory RtcNack
  imports RtpPacket
begin

text \<open>
  Requests for lost packets.  net/webrtc/nack_generator.cpp keeps the list of the numbers that are
  missing, from which its timer makes the requests; net/rtprtcp/rtcpfb_nack.hpp is the RTCP packet
  that carries a request (RFC 4585), written by the receiver and read by the sender.
\<close>

section \<open>The list of missing numbers\<close>

definition NACK_LIST_MAX :: nat where "NACK_LIST_MAX = 5000"
definition NACK_RETRY_MAX :: int where "NACK_RETRY_MAX = 20"
definition NACK_DEFAULT_RTT :: int where "NACK_DEFAULT_RTT = 15"

record nack_info =
  nack_sent_ms :: int
  nack_retry :: int

record nack_generator =
  ng_init_flag :: bool
  ng_last_seq :: u16
  nack_map :: "(u16 \<times> nack_info) list"
  ng_rtt :: int

definition new_NackGenerator :: nack_generator where
  "new_NackGenerator = \<lparr> ng_init_flag = False, ng_last_seq = 0, nack_map = [], ng_rtt = NACK_DEFAULT_RTT \<rparr>"

definition UpdateRtt :: "int \<Rightarrow> nack_generator \<Rightarrow> nack_generator" where
  "UpdateRtt rtt s = s\<lparr>ng_rtt := rtt\<rparr>"

text \<open>The loop that enters the numbers from \<open>key_seq\<close> below \<open>seq_end\<close>, on \<open>uint16_t\<close>.\<close>

function gap_loop :: "u16 \<Rightarrow> u16 \<Rightarrow> (u16 \<times> nack_info) list \<Rightarrow> (u16 \<times> nack_info) list" where
  "gap_loop key_seq seq_end m =
     (if key_seq < seq_end then
        gap_loop (key_seq + 1) seq_end
          (if map_of m key_seq = None then map_put key_seq \<lparr> nack_sent_ms = 0, nack_retry = 0 \<rparr> m else m)
      else m)"
  by pat_completeness auto

termination
proof (relation "measure (\<lambda>(k, e, m). unat e - unat k)", goal_cases)
  case (2 key_seq seq_end m)
  then have "unat (key_seq + 1) = unat key_seq + 1" "unat key_seq < unat seq_end"
    using unat_u16_less [of seq_end] by (auto simp: word_less_nat_alt unat_word_ariths simp del: unat_u16_less)
  then show ?case by simp
qed simp

declare gap_loop.simps [simp del]

text \<open>\<open>UpdateNackList\<close>; the sum \<open>last_seq_ + 1\<close> is an \<open>int\<close>, the start of the loop a \<open>uint16_t\<close>.\<close>

definition UpdateNackList :: "u16 \<Rightarrow> nack_generator \<Rightarrow> nack_generator" where
  "UpdateNackList seq s =
     (if \<not> ng_init_flag s then s\<lparr>ng_init_flag := True, ng_last_seq := seq\<rparr>
      else if seq = ng_last_seq s then s
      else if SeqLowerThan seq (ng_last_seq s) then s\<lparr>nack_map := filter (\<lambda>e. fst e \<noteq> seq) (nack_map s)\<rparr>
      else if int (unat (ng_last_seq s)) + 1 = int (unat seq) then s\<lparr>ng_last_seq := seq\<rparr>
      else s\<lparr>ng_last_seq := seq, nack_map := gap_loop (ng_last_seq s + 1) seq (nack_map s)\<rparr>)"

text \<open>The timer: the entries that stay and the numbers to be requested, as the callback gets them.\<close>

fun nack_loop :: "int \<Rightarrow> int \<Rightarrow> (u16 \<times> nack_info) list \<Rightarrow> (u16 \<times> nack_info) list \<times> u16 list" where
  "nack_loop now rtt [] = ([], [])"
| "nack_loop now rtt ((k, i) # m) =
     (let (m', lost) = nack_loop now rtt m in
      if nack_retry i > NACK_RETRY_MAX then (m', lost)
      else if now - nack_sent_ms i < rtt then ((k, i) # m', lost)
      else ((k, \<lparr> nack_sent_ms = now, nack_retry = nack_retry i + 1 \<rparr>) # m', k # lost))"

definition ng_OnTimer :: "int \<Rightarrow> nack_generator \<Rightarrow> nack_generator \<times> u16 list option" where
  "ng_OnTimer now s =
     (if nack_map s = [] then (s, None)
      else let (m, lost) = nack_loop now (ng_rtt s) (nack_map s) in
        (s\<lparr>nack_map := drop (length m - NACK_LIST_MAX) m\<rparr>, if lost = [] then None else Some (sort lost)))"

section \<open>The request packet\<close>

definition FB_RTP_NACK :: u8 where "FB_RTP_NACK = 1"
definition RTCP_RTPFB :: u8 where "RTCP_RTPFB = 205"

text \<open>
  \<open>fb_data\<close> is the array of 1500 bytes, whose former contents the constructor is given; the
  blocks are offsets into it.
\<close>

record rtcp_fb_nack =
  fb_data :: bytes
  fb_data_len :: nat
  nack_blocks :: "nat list"

definition new_RtcpFbNack :: "bytes \<Rightarrow> u32 \<Rightarrow> u32 \<Rightarrow> rtcp_fb_nack" where
  "new_RtcpFbNack mem sender_ssrc media_ssrc =
     \<lparr> fb_data = put_at 0 ([0x80 OR FB_RTP_NACK, RTCP_RTPFB] @ Write2Bytes (12 div 4 - 1) @ Write4Bytes sender_ssrc @ Write4Bytes media_ssrc) mem,
       fb_data_len = 12, nack_blocks = [] \<rparr>"

definition GetSenderSsrc :: "rtcp_fb_nack \<Rightarrow> u32" where "GetSenderSsrc k = net32 (fb_data k) 4"
definition GetMediaSsrc :: "rtcp_fb_nack \<Rightarrow> u32" where "GetMediaSsrc k = net32 (fb_data k) 8"
definition GetPayloadLen :: "rtcp_fb_nack \<Rightarrow> nat" where "GetPayloadLen k = unat (net16 (fb_data k) 2) * 4"
definition GetBaseSeq :: "nat \<Rightarrow> rtcp_fb_nack \<Rightarrow> u16" where "GetBaseSeq block k = net16 (fb_data k) block"
definition GetBitask :: "nat \<Rightarrow> rtcp_fb_nack \<Rightarrow> u16" where "GetBitask block k = net16 (fb_data k) (block + 2)"

text \<open>
  \<open>bitmap |= 1 << (16 - (temp_seq - packet_id))\<close>: the shift is one of \<open>int\<close>, by an amount that may be
  negative or too large, which is undefined; the result is cut to 16 bits.
\<close>

definition nack_bit :: "u16 \<Rightarrow> u16 \<Rightarrow> u16 option" where
  "nack_bit packet_id temp_seq =
     (let n = 16 - (int (unat temp_seq) - int (unat packet_id)) in
      if 0 \<le> n \<and> n < 31 then Some (of_int (2 ^ nat n)) else None)"

fun nack_bitmap :: "u16 \<Rightarrow> u16 list \<Rightarrow> u16 \<Rightarrow> u16 option" where
  "nack_bitmap packet_id [] bitmap = Some bitmap"
| "nack_bitmap packet_id (s # seqs) bitmap = do { b \<leftarrow> nack_bit packet_id s; nack_bitmap packet_id seqs (bitmap OR b) }"

definition InsertBlock :: "u16 list \<Rightarrow> rtcp_fb_nack \<Rightarrow> rtcp_fb_nack option" where
  "InsertBlock report_seqs k = do {
     packet_id \<leftarrow> rd report_seqs 0;
     bitmap \<leftarrow> nack_bitmap packet_id (tl report_seqs) 0;
     require (fb_data_len k + 4 \<le> length (fb_data k));
     let data = put_at (fb_data_len k) (Write2Bytes packet_id @ Write2Bytes bitmap) (fb_data k);
     Some \<lparr> fb_data = put_at 2 (Write2Bytes (of_nat ((fb_data_len k + 4) div 4 - 1))) data,
       fb_data_len = fb_data_len k + 4, nack_blocks = nack_blocks k @ [fb_data_len k] \<rparr> }"

fun insert_seqs :: "u16 list \<Rightarrow> u16 list \<Rightarrow> rtcp_fb_nack \<Rightarrow> rtcp_fb_nack option" where
  "insert_seqs report_seqs [] k = (if report_seqs \<noteq> [] then InsertBlock report_seqs k else Some k)"
| "insert_seqs report_seqs (lost_seq # seqs) k =
     (let report_seqs = report_seqs @ [lost_seq] in
      if int (unat (last report_seqs)) - int (unat (hd report_seqs)) > 16 then
        do { k \<leftarrow> InsertBlock report_seqs k; insert_seqs [] seqs k }
      else insert_seqs report_seqs seqs k)"

definition InsertSeqList :: "u16 list \<Rightarrow> rtcp_fb_nack \<Rightarrow> rtcp_fb_nack option" where
  "InsertSeqList seq_vec k = insert_seqs [] seq_vec k"

text \<open>The reader.\<close>

function bits_loop :: "u16 \<Rightarrow> u16 \<Rightarrow> u16 list" where
  "bits_loop bit_mask seq =
     (if bit_mask \<noteq> 0 then (if bit_mask AND 0x01 \<noteq> 0 then [seq] else []) @ bits_loop (drop_bit 1 bit_mask) (seq + 1)
      else [])"
  by pat_completeness auto

termination
proof (relation "measure (\<lambda>(m, s). unat m)", goal_cases)
  case (2 bit_mask seq)
  then have "0 < unat bit_mask" by (simp add: unat_gt_0)
  moreover have "unat (drop_bit 1 bit_mask) = unat bit_mask div 2"
    by (simp only: unat_drop_bit_eq) (simp only: drop_bit_eq_div power_one_right)
  ultimately have "unat (drop_bit 1 bit_mask) < unat bit_mask" by simp
  then show ?case by (simp only: in_measure case_prod_conv)
qed simp

declare bits_loop.simps [simp del]

definition GetLostSeqs :: "rtcp_fb_nack \<Rightarrow> u16 list" where
  "GetLostSeqs k = concat (map (\<lambda>b. GetBaseSeq b k # bits_loop (GetBitask b k) (GetBaseSeq b k + 1)) (nack_blocks k))"

text \<open>
  \<open>Parse\<close>: the packet is copied into a new one, its blocks are counted by its length, also when
  the last one reaches over its end.
\<close>

definition nack_offsets :: "nat \<Rightarrow> nat list" where
  "nack_offsets len = filter (\<lambda>k. k mod 4 = 0) [12..<len]"

definition nack_Parse :: "bytes \<Rightarrow> bytes \<Rightarrow> rtcp_fb_nack option option" where
  "nack_Parse mem data =
     (if length data \<le> 12 then Some None
      else do {
        require (length data \<le> length mem);
        Some (Some \<lparr> fb_data = put_at 0 data (fb_data (new_RtcpFbNack mem 0 0)), fb_data_len = length data,
          nack_blocks = nack_offsets (length data) \<rparr>) })"

section \<open>Which numbers are missed\<close>

lemma unat_Suc_less: "k < e \<Longrightarrow> unat (k + 1) = unat k + 1" for k e :: u16
  using unat_u16_less [of e] by (auto simp: word_less_nat_alt unat_word_ariths simp del: unat_u16_less)

lemma map_of_None: "map_of m k = None \<longleftrightarrow> k \<notin> fst ` set m"
  by (simp add: map_of_eq_None_iff)

lemma gap_loop_keys:
  "sorted_map m \<Longrightarrow> sorted_map (gap_loop k e m) \<and> fst ` set (gap_loop k e m) = fst ` set m \<union> {j. k \<le> j \<and> j < e} \<and>
     set m \<subseteq> set (gap_loop k e m) \<and> (\<forall>x\<in>set (gap_loop k e m) - set m. snd x = \<lparr> nack_sent_ms = 0, nack_retry = 0 \<rparr>)"
proof (induction k e m rule: gap_loop.induct)
  case (1 k e m)
  show ?case
  proof (cases "k < e")
    case True
    let ?m = "if map_of m k = None then map_put k \<lparr> nack_sent_ms = 0, nack_retry = 0 \<rparr> m else m"
    have m: "sorted_map ?m" "fst ` set ?m = insert k (fst ` set m)" "set m \<subseteq> set ?m"
      "\<forall>x\<in>set ?m - set m. snd x = \<lparr> nack_sent_ms = 0, nack_retry = 0 \<rparr>"
      using "1.prems" by (auto simp: sorted_map_put fst_map_put set_map_put map_of_None)
    have "insert k {j. k + 1 \<le> j \<and> j < e} = {j. k \<le> j \<and> j < e}"
    proof -
      have "k + 1 \<le> j \<longleftrightarrow> k \<le> j \<and> j \<noteq> k" for j using unat_Suc_less [OF True] by (auto simp: word_le_nat_alt word_eq_iff_unat)
      with True show ?thesis by auto
    qed
    then show ?thesis using "1.IH" [OF True m(1)] m by (subst (1 2 3 4) gap_loop.simps) (auto simp: True)
  next
    case False
    then have e: "{j. k \<le> j \<and> j < e} = {}" by auto
    have g: "gap_loop k e m = m" using False by (subst gap_loop.simps) simp
    show ?thesis unfolding g e using "1.prems" by simp
  qed
qed

text \<open>
  C31: A gap in the numbers is entered in the list unless it spans the wrap-around.  When a packet comes
  whose number is higher, in the serial order, than the last one, the list keeps its
  entries and gets, with no request made so far, exactly the numbers from the one behind the last up to the
  packet's in the order of unsigned 16-bit integers.  So if the number has wrapped around
  and the last one was not 65535, nothing is entered: the packets that were lost there
  are never requested.
\<close>
theorem nack_gap:
  assumes "ng_init_flag s" "SeqHigherThan seq (ng_last_seq s)" "sorted_map (nack_map s)"
  shows "ng_last_seq (UpdateNackList seq s) = seq \<and>
    fst ` set (nack_map (UpdateNackList seq s)) = fst ` set (nack_map s) \<union> {j. ng_last_seq s + 1 \<le> j \<and> j < seq} \<and>
    set (nack_map s) \<subseteq> set (nack_map (UpdateNackList seq s)) \<and>
    (\<forall>x\<in>set (nack_map (UpdateNackList seq s)) - set (nack_map s). nack_retry (snd x) = 0) \<and>
    (seq < ng_last_seq s \<longrightarrow> ng_last_seq s \<noteq> 65535 \<longrightarrow>
      fst ` set (nack_map (UpdateNackList seq s)) = fst ` set (nack_map s))"
proof -
  let ?l = "ng_last_seq s" and ?m = "nack_map (UpdateNackList seq s)"
  have n: "seq \<noteq> ?l" "\<not> SeqLowerThan seq ?l" using assms(2) by (auto simp: SeqHigherThan_def split: if_splits)
  have l: "ng_last_seq (UpdateNackList seq s) = seq" using n assms(1) by (simp add: UpdateNackList_def)
  have keys: "fst ` set ?m = fst ` set (nack_map s) \<union> {j. ?l + 1 \<le> j \<and> j < seq} \<and>
    set (nack_map s) \<subseteq> set ?m \<and> (\<forall>x\<in>set ?m - set (nack_map s). nack_retry (snd x) = 0)"
  proof (cases "int (unat ?l) + 1 = int (unat seq)")
    case True
    then have "unat ?l + 1 = unat seq" by linarith
    then have "?l + 1 = seq" by (simp add: word_eq_iff_unat unat_word_ariths)
    then have e: "{j. ?l + 1 \<le> j \<and> j < seq} = {}" by auto
    have "?m = nack_map s" using True n assms(1) by (simp add: UpdateNackList_def)
    then show ?thesis unfolding e by simp
  next
    case False
    have "?m = gap_loop (?l + 1) seq (nack_map s)" using False n assms(1) by (simp add: UpdateNackList_def)
    with gap_loop_keys [OF assms(3), of "?l + 1" seq] show ?thesis by auto
  qed
  have "fst ` set ?m = fst ` set (nack_map s)" if "seq < ?l" "?l \<noteq> 65535"
  proof -
    have "unat ?l \<noteq> unat (65535 :: u16)" using that(2) unfolding word_eq_iff_unat .
    then have "unat ?l + 1 < 65536" using unat_u16_less [of ?l] by (simp del: unat_u16_less)
    then have "unat (?l + 1) = unat ?l + 1" by (simp add: unat_word_ariths)
    then have e: "{j. ?l + 1 \<le> j \<and> j < seq} = {}" using that(1) by (auto simp: word_le_nat_alt word_less_nat_alt)
    show ?thesis using keys unfolding e by simp
  qed
  with l keys show ?thesis by blast
qed

section \<open>How often a packet is requested\<close>

text \<open>
  The states a generator can reach, with the history of its requests.  \<open>h k\<close> are the requests of the number \<open>k\<close>
  since it was entered into the list, the last one first: the time of the call, and the round-trip time in it.
\<close>

type_synonym nack_history = "u16 \<Rightarrow> (int \<times> int) list"

definition nack_keys :: "nack_generator \<Rightarrow> u16 set" where
  "nack_keys s = fst ` set (nack_map s)"

definition entered :: "nack_generator \<Rightarrow> nack_generator \<Rightarrow> nack_history \<Rightarrow> nack_history" where
  "entered s s' h = (\<lambda>k. if k \<in> nack_keys s' \<and> k \<notin> nack_keys s then [] else h k)"

definition requested :: "int \<Rightarrow> int \<Rightarrow> u16 list option \<Rightarrow> nack_history \<Rightarrow> nack_history" where
  "requested now rtt r h = (\<lambda>k. if \<exists>l. r = Some l \<and> k \<in> set l then (now, rtt) # h k else h k)"

inductive nack_reach :: "nack_generator \<Rightarrow> nack_history \<Rightarrow> bool" where
  nack_start: "nack_reach new_NackGenerator (\<lambda>k. [])"
| nack_packet: "nack_reach s h \<Longrightarrow> nack_reach (UpdateNackList seq s) (entered s (UpdateNackList seq s) h)"
| nack_rtt: "nack_reach s h \<Longrightarrow> nack_reach (UpdateRtt rtt s) h"
| nack_timer: "nack_reach s h \<Longrightarrow> ng_OnTimer now s = (s', r) \<Longrightarrow> nack_reach s' (requested now (ng_rtt s) r h)"

text \<open>The time of the last request, which the code takes to be 0 before the first one; the distance of the requests.\<close>

definition last_asked :: "(int \<times> int) list \<Rightarrow> int" where
  "last_asked l = (case l of [] \<Rightarrow> 0 | (t, rtt) # l' \<Rightarrow> t)"

fun spaced :: "(int \<times> int) list \<Rightarrow> bool" where
  "spaced ((t, rtt) # (t', rtt') # l) \<longleftrightarrow> rtt \<le> t - t' \<and> spaced ((t', rtt') # l)"
| "spaced l \<longleftrightarrow> True"

lemma spaced_Cons: "spaced ((t, rtt) # l) \<longleftrightarrow> (l \<noteq> [] \<longrightarrow> rtt \<le> t - last_asked l) \<and> spaced l"
  by (cases l) (auto simp: last_asked_def)

definition nack_inv :: "(u16 \<times> nack_info) list \<Rightarrow> bool" where
  "nack_inv m \<longleftrightarrow> sorted_map m \<and> (\<forall>(k, i)\<in>set m. 0 \<le> nack_retry i \<and> nack_retry i \<le> NACK_RETRY_MAX + 1)"

lemma nack_inv_parts:
  "nack_inv m \<Longrightarrow> nack_inv (filter P m)" "nack_inv m \<Longrightarrow> nack_inv (drop n m)"
proof -
  show "nack_inv m \<Longrightarrow> nack_inv (filter P m)" by (induction m) (auto simp: nack_inv_def)
  show "nack_inv m \<Longrightarrow> nack_inv (drop n m)"
    by (auto simp: nack_inv_def sorted_map_def drop_map [symmetric] intro: sorted_wrt_drop dest: in_set_dropD)
qed

lemma gap_loop_inv: "nack_inv m \<Longrightarrow> nack_inv (gap_loop k e m)"
proof -
  assume a: "nack_inv m"
  then have "sorted_map m" by (simp add: nack_inv_def)
  note g = gap_loop_keys [OF this, of k e]
  have "0 \<le> nack_retry i \<and> nack_retry i \<le> NACK_RETRY_MAX + 1" if "(j, i) \<in> set (gap_loop k e m)" for j i
  proof (cases "(j, i) \<in> set m")
    case True
    with a show ?thesis by (auto simp: nack_inv_def)
  next
    case False
    with that g have "snd (j, i) = \<lparr> nack_sent_ms = 0, nack_retry = 0 \<rparr>" by blast
    then show ?thesis by (simp add: NACK_RETRY_MAX_def)
  qed
  with g show ?thesis by (auto simp: nack_inv_def)
qed

lemma nack_loop_inv:
  "nack_inv m \<Longrightarrow> nack_loop now rtt m = (m', lost) \<Longrightarrow> nack_inv m' \<and> fst ` set m' \<subseteq> fst ` set m \<and> sorted_wrt (<) lost \<and>
    (\<forall>k\<in>set lost. \<exists>i. (k, i) \<in> set m \<and> nack_retry i \<le> NACK_RETRY_MAX \<and> rtt \<le> now - nack_sent_ms i)"
proof (induction m arbitrary: m' lost)
  case (Cons e m)
  obtain k i where e: "e = (k, i)" by (cases e)
  obtain n l where n: "nack_loop now rtt m = (n, l)" by (cases "nack_loop now rtt m")
  have p: "nack_inv m" "\<forall>k'\<in>fst ` set m. k < k'" "0 \<le> nack_retry i" "nack_retry i \<le> NACK_RETRY_MAX + 1"
    using Cons.prems(1) by (auto simp: nack_inv_def e)
  note ih = Cons.IH [OF p(1) n]
  have lt: "\<forall>k'\<in>fst ` set n. k < k'" "\<forall>k'\<in>set l. k < k'" using ih p(2) by fastforce+
  consider "nack_retry i > NACK_RETRY_MAX" "m' = n" "lost = l"
    | "m' = e # n" "lost = l"
    | "\<not> nack_retry i > NACK_RETRY_MAX" "rtt \<le> now - nack_sent_ms i" "m' = (k, \<lparr> nack_sent_ms = now, nack_retry = nack_retry i + 1 \<rparr>) # n" "lost = k # l"
    using Cons.prems(2) by (auto simp: e n split: if_splits)
  then show ?case
  proof cases
    case 1
    with ih show ?thesis by auto
  next
    case 2
    with ih lt p show ?thesis by (auto simp: nack_inv_def e)
  next
    case 3
    with ih lt p show ?thesis by (auto simp: nack_inv_def e)
  qed
qed (simp add: nack_inv_def)

lemma nack_timer_inv:
  assumes "nack_inv (nack_map s)" "ng_OnTimer now s = (s', r)"
  shows "nack_inv (nack_map s')" "length (nack_map s') \<le> NACK_LIST_MAX"
    "r = Some l \<Longrightarrow> l \<noteq> [] \<and> sorted_wrt (<) l \<and>
       (\<forall>k\<in>set l. \<exists>i. (k, i) \<in> set (nack_map s) \<and> nack_retry i \<le> NACK_RETRY_MAX \<and> ng_rtt s \<le> now - nack_sent_ms i)"
proof -
  obtain m lost where m: "nack_loop now (ng_rtt s) (nack_map s) = (m, lost)" by (cases "nack_loop now (ng_rtt s) (nack_map s)")
  note i = nack_loop_inv [OF assms(1) m]
  have "sort lost = lost" using i by (intro sorted_sort_id) (simp add: strict_sorted_imp_sorted)
  with assms i m show "nack_inv (nack_map s')" "length (nack_map s') \<le> NACK_LIST_MAX"
    "r = Some l \<Longrightarrow> l \<noteq> [] \<and> sorted_wrt (<) l \<and>
       (\<forall>k\<in>set l. \<exists>i. (k, i) \<in> set (nack_map s) \<and> nack_retry i \<le> NACK_RETRY_MAX \<and> ng_rtt s \<le> now - nack_sent_ms i)"
    by (auto simp: ng_OnTimer_def nack_inv_parts split: if_splits)
qed

text \<open>What a timer call does to an entry, and which numbers it requests.\<close>

lemma nack_loop_entry:
  "nack_loop now rtt m = (m', lost) \<Longrightarrow> distinct (map fst m) \<Longrightarrow>
   set lost = {k. \<exists>i. (k, i) \<in> set m \<and> nack_retry i \<le> NACK_RETRY_MAX \<and> rtt \<le> now - nack_sent_ms i} \<and>
   (\<forall>(k, i)\<in>set m'. if k \<in> set lost then nack_sent_ms i = now \<and> (\<exists>i'. (k, i') \<in> set m \<and> nack_retry i = nack_retry i' + 1)
     else (k, i) \<in> set m)"
proof (induction m arbitrary: m' lost)
  case (Cons e m)
  obtain k i where e: "e = (k, i)" by (cases e)
  obtain n l where n: "nack_loop now rtt m = (n, l)" by (cases "nack_loop now rtt m")
  have k: "k \<notin> fst ` set m" "distinct (map fst m)" using Cons.prems(2) by (auto simp: e)
  let ?due = "\<lambda>m. {k. \<exists>i. (k, i) \<in> set m \<and> nack_retry i \<le> NACK_RETRY_MAX \<and> rtt \<le> now - nack_sent_ms i}"
  let ?entry = "\<lambda>m lost k i. if k \<in> set lost then nack_sent_ms i = now \<and> (\<exists>i'. (k, i') \<in> set m \<and> nack_retry i = nack_retry i' + 1)
     else (k, i) \<in> set m"
  have ih: "set l = ?due m" and ih': "\<And>k i. (k, i) \<in> set n \<Longrightarrow> ?entry m l k i" using Cons.IH [OF n k(2)] by blast+
  have kl: "k \<notin> set l" unfolding ih using k(1) by force
  have kn: "fst ` set n \<subseteq> fst ` set m"
  proof
    fix j assume "j \<in> fst ` set n"
    then obtain v where "(j, v) \<in> set n" by auto
    from ih' [OF this] have "\<exists>v'. (j, v') \<in> set m" by (auto split: if_splits)
    then show "j \<in> fst ` set m" by force
  qed
  have out: "j \<noteq> k" if "(j, v) \<in> set n" for j v using that k(1) kn by force
  consider "nack_retry i > NACK_RETRY_MAX" "m' = n" "lost = l"
    | "\<not> nack_retry i > NACK_RETRY_MAX" "now - nack_sent_ms i < rtt" "m' = e # n" "lost = l"
    | "\<not> nack_retry i > NACK_RETRY_MAX" "rtt \<le> now - nack_sent_ms i" "m' = (k, \<lparr> nack_sent_ms = now, nack_retry = nack_retry i + 1 \<rparr>) # n" "lost = k # l"
    using Cons.prems(1) by (auto simp: e n split: if_splits)
  then show ?case
  proof cases
    case 1
    have "set l = ?due (e # m)" using ih 1(1) by (auto simp: e)
    moreover have "?entry (e # m) l j v" if "(j, v) \<in> set n" for j v using ih' [OF that] by (auto simp: e split: if_splits)
    ultimately show ?thesis unfolding 1(2,3) by blast
  next
    case 2
    have "set l = ?due (e # m)" using ih 2(2) by (auto simp: e)
    moreover have "?entry (e # m) l j v" if "(j, v) \<in> set (e # n)" for j v
    proof (cases "(j, v) = e")
      case True
      then show ?thesis using kl by (simp add: e)
    next
      case False
      then have "(j, v) \<in> set n" using that by simp
      from ih' [OF this] show ?thesis by (auto simp: e split: if_splits)
    qed
    ultimately show ?thesis unfolding 2(3,4) by blast
  next
    case 3
    let ?x = "(k, \<lparr> nack_sent_ms = now, nack_retry = nack_retry i + 1 \<rparr>)"
    have "set (k # l) = ?due (e # m)" using ih 3(1,2) by (auto simp: e)
    moreover have "?entry (e # m) (k # l) j v" if "(j, v) \<in> set (?x # n)" for j v
    proof (cases "(j, v) = ?x")
      case True
      then show ?thesis by (auto simp: e)
    next
      case False
      then have "(j, v) \<in> set n" using that by auto
      from ih' [OF this] out [OF this] show ?thesis by (auto simp: e split: if_splits)
    qed
    ultimately show ?thesis unfolding 3(3,4) by blast
  qed
qed simp

text \<open>The list and the history agree.\<close>

definition nack_log :: "nack_generator \<Rightarrow> nack_history \<Rightarrow> bool" where
  "nack_log s h \<longleftrightarrow> (\<forall>k. int (length (h k)) \<le> NACK_RETRY_MAX + 1 \<and> spaced (h k)) \<and>
     (\<forall>(k, i)\<in>set (nack_map s). nack_retry i = int (length (h k)) \<and> nack_sent_ms i = last_asked (h k))"

lemma sorted_map_distinct: "sorted_map m \<Longrightarrow> distinct (map fst m)"
  by (simp add: sorted_map_def strict_sorted_iff)

lemma UpdateNackList_entry:
  assumes "sorted_map (nack_map s)" "(k, i) \<in> set (nack_map (UpdateNackList seq s))"
  shows "(k, i) \<in> set (nack_map s) \<or> k \<notin> nack_keys s \<and> i = \<lparr> nack_sent_ms = 0, nack_retry = 0 \<rparr>"
proof -
  have "(k, i) \<in> set (nack_map s) \<or> (k, i) \<in> set (gap_loop (ng_last_seq s + 1) seq (nack_map s))"
    using assms(2) by (auto simp: UpdateNackList_def split: if_splits)
  moreover have "k \<notin> nack_keys s \<and> i = \<lparr> nack_sent_ms = 0, nack_retry = 0 \<rparr>"
    if g: "(k, i) \<in> set (gap_loop (ng_last_seq s + 1) seq (nack_map s))" and no: "(k, i) \<notin> set (nack_map s)"
  proof
    note gl = gap_loop_keys [OF assms(1), of "ng_last_seq s + 1" seq]
    then have d: "distinct (map fst (gap_loop (ng_last_seq s + 1) seq (nack_map s)))" by (intro sorted_map_distinct) simp
    show "k \<notin> nack_keys s"
    proof
      assume "k \<in> nack_keys s"
      then obtain i' where "(k, i') \<in> set (nack_map s)" by (auto simp: nack_keys_def)
      moreover from this have "(k, i') \<in> set (gap_loop (ng_last_seq s + 1) seq (nack_map s))" using gl by blast
      ultimately show False using no eq_key_imp_eq_value [OF d g] by blast
    qed
    have "snd (k, i) = \<lparr> nack_sent_ms = 0, nack_retry = 0 \<rparr>" using gl g no by blast
    then show "i = \<lparr> nack_sent_ms = 0, nack_retry = 0 \<rparr>" by simp
  qed
  ultimately show ?thesis by blast
qed

lemma log_packet:
  assumes "nack_log s h" "sorted_map (nack_map s)"
  shows "nack_log (UpdateNackList seq s) (entered s (UpdateNackList seq s) h)"
proof -
  let ?s = "UpdateNackList seq s"
  have "nack_retry i = int (length (entered s ?s h k)) \<and> nack_sent_ms i = last_asked (entered s ?s h k)"
    if e: "(k, i) \<in> set (nack_map ?s)" for k i
  proof -
    have n: "k \<in> nack_keys ?s" using e by (force simp: nack_keys_def)
    from UpdateNackList_entry [OF assms(2) e] show ?thesis
    proof
      assume o: "(k, i) \<in> set (nack_map s)"
      then have "k \<in> nack_keys s" by (force simp: nack_keys_def)
      with o assms(1) show ?thesis by (auto simp: nack_log_def entered_def)
    qed (use n in \<open>simp add: entered_def last_asked_def\<close>)
  qed
  then show ?thesis using assms(1) by (auto simp: nack_log_def entered_def NACK_RETRY_MAX_def)
qed

text \<open>The numbers that a call at \<open>now\<close> has to request, by the history.\<close>

definition due :: "int \<Rightarrow> nack_generator \<Rightarrow> nack_history \<Rightarrow> u16 set" where
  "due now s h = {k \<in> nack_keys s. length (h k) \<le> 20 \<and> ng_rtt s \<le> now - last_asked (h k)}"

definition asked :: "u16 list option \<Rightarrow> u16 set" where
  "asked r = (case r of None \<Rightarrow> {} | Some l \<Rightarrow> set l)"

lemma timer_entry:
  assumes "nack_log s h" "sorted_map (nack_map s)" "ng_OnTimer now s = (s', r)"
  shows "asked r = due now s h \<and> (\<forall>(k, i)\<in>set (nack_map s'). if k \<in> asked r
    then nack_sent_ms i = now \<and> nack_retry i = int (length (h k)) + 1 else (k, i) \<in> set (nack_map s))"
proof (cases "nack_map s = []")
  case True
  with assms(3) show ?thesis by (auto simp: ng_OnTimer_def asked_def due_def nack_keys_def)
next
  case False
  obtain m lost where m: "nack_loop now (ng_rtt s) (nack_map s) = (m, lost)" by (cases "nack_loop now (ng_rtt s) (nack_map s)")
  have log: "nack_retry i = int (length (h k))" "nack_sent_ms i = last_asked (h k)" if "(k, i) \<in> set (nack_map s)" for k i
    using that assms(1) by (auto simp: nack_log_def)
  note l = nack_loop_entry [OF m sorted_map_distinct [OF assms(2)]]
  have r: "asked r = set lost" "nack_map s' = drop (length m - NACK_LIST_MAX) m"
    using assms(3) False m by (auto simp: ng_OnTimer_def asked_def split: if_splits)
  have "set lost = due now s h"
  proof (intro set_eqI iffI)
    fix k assume "k \<in> set lost"
    then obtain i where i: "(k, i) \<in> set (nack_map s)" "nack_retry i \<le> NACK_RETRY_MAX" "ng_rtt s \<le> now - nack_sent_ms i" using l by blast
    then have "k \<in> nack_keys s" by (force simp: nack_keys_def)
    then show "k \<in> due now s h" using i log [OF i(1)] by (simp add: due_def NACK_RETRY_MAX_def)
  next
    fix k assume k: "k \<in> due now s h"
    then obtain i where i: "(k, i) \<in> set (nack_map s)" by (auto simp: due_def nack_keys_def)
    have "nack_retry i \<le> NACK_RETRY_MAX \<and> ng_rtt s \<le> now - nack_sent_ms i" using k log [OF i] by (simp add: due_def NACK_RETRY_MAX_def)
    with i show "k \<in> set lost" using l by blast
  qed
  moreover have "if k \<in> set lost then nack_sent_ms i = now \<and> nack_retry i = int (length (h k)) + 1 else (k, i) \<in> set (nack_map s)"
    if "(k, i) \<in> set (nack_map s')" for k i
  proof -
    have "(k, i) \<in> set m" using that unfolding r(2) by (rule in_set_dropD)
    with l have "if k \<in> set lost then nack_sent_ms i = now \<and> (\<exists>i'. (k, i') \<in> set (nack_map s) \<and> nack_retry i = nack_retry i' + 1)
      else (k, i) \<in> set (nack_map s)" by blast
    with log show ?thesis by (auto split: if_splits)
  qed
  ultimately show ?thesis unfolding r(1) by blast
qed

lemma requested_asked: "requested now rtt r h = (\<lambda>k. if k \<in> asked r then (now, rtt) # h k else h k)"
  by (auto simp: requested_def asked_def split: option.splits)

lemma log_timer:
  assumes "nack_log s h" "sorted_map (nack_map s)" "ng_OnTimer now s = (s', r)"
  shows "nack_log s' (requested now (ng_rtt s) r h)"
proof -
  note t = timer_entry [OF assms]
  have h: "int (length (h k)) \<le> NACK_RETRY_MAX + 1" "spaced (h k)" for k using assms(1) by (auto simp: nack_log_def)
  have "int (length (requested now (ng_rtt s) r h k)) \<le> NACK_RETRY_MAX + 1 \<and> spaced (requested now (ng_rtt s) r h k)" for k
    using h [of k] t by (auto simp: requested_asked spaced_Cons due_def NACK_RETRY_MAX_def)
  moreover have "nack_retry i = int (length (requested now (ng_rtt s) r h k)) \<and> nack_sent_ms i = last_asked (requested now (ng_rtt s) r h k)"
    if "(k, i) \<in> set (nack_map s')" for k i
  proof (cases "k \<in> asked r")
    case True
    with t that show ?thesis by (fastforce simp: requested_asked last_asked_def)
  next
    case False
    with t that have "(k, i) \<in> set (nack_map s)" by fastforce
    with False assms(1) show ?thesis by (auto simp: requested_asked nack_log_def)
  qed
  ultimately show ?thesis by (auto simp: nack_log_def)
qed

lemma nack_reach_inv: "nack_reach s h \<Longrightarrow> nack_inv (nack_map s) \<and> nack_log s h"
proof (induction rule: nack_reach.induct)
  case nack_start
  then show ?case by (simp add: new_NackGenerator_def nack_inv_def nack_log_def NACK_RETRY_MAX_def)
next
  case (nack_packet s h seq)
  then have "nack_inv (nack_map (UpdateNackList seq s))" by (simp add: UpdateNackList_def nack_inv_parts gap_loop_inv)
  with nack_packet show ?case by (simp add: log_packet nack_inv_def)
next
  case (nack_rtt s h rtt)
  then show ?case by (simp add: UpdateRtt_def nack_log_def)
next
  case (nack_timer s h now s' r)
  then have "sorted_map (nack_map s)" by (simp add: nack_inv_def)
  with nack_timer.IH nack_timer.hyps(2) nack_timer_inv(1) log_timer show ?case by blast
qed

text \<open>
  C32: What is requested, and how often.  In every state that packets, timer calls and changes of the
  round-trip time can lead to, with the requests made so far: since it was entered in the list, each number has been requested at
  most 21 times, and each time not before the round-trip time of that call had passed since the time before; the list is in ascending
  order without repetitions, and for each of its numbers it holds the count of these requests and the time of the last one.
  The next timer call requests, in ascending order, exactly the numbers in the list that were requested at most 20 times and, if
  at all, not within the last round-trip time (a number not requested yet counts as requested at time 0), and leaves at
  most 5000 numbers in the list.
\<close>
theorem nack_requests:
  assumes "nack_reach s h" "ng_OnTimer now s = (s', r)"
  shows "(\<forall>k. length (h k) \<le> 21 \<and> spaced (h k)) \<and>
    sorted_map (nack_map s) \<and> (\<forall>(k, i)\<in>set (nack_map s). nack_retry i = int (length (h k)) \<and> nack_sent_ms i = last_asked (h k)) \<and>
    asked r = {k \<in> nack_keys s. length (h k) \<le> 20 \<and> ng_rtt s \<le> now - last_asked (h k)} \<and>
    (\<forall>l. r = Some l \<longrightarrow> l \<noteq> [] \<and> sorted_wrt (<) l) \<and> length (nack_map s') \<le> NACK_LIST_MAX"
proof -
  have i: "nack_inv (nack_map s)" "nack_log s h" using nack_reach_inv [OF assms(1)] by simp_all
  then have o: "sorted_map (nack_map s)" by (simp add: nack_inv_def)
  have "asked r = due now s h" using timer_entry [OF i(2) o assms(2)] by blast
  moreover have "\<forall>l. r = Some l \<longrightarrow> l \<noteq> [] \<and> sorted_wrt (<) l" "length (nack_map s') \<le> NACK_LIST_MAX"
    using nack_timer_inv [OF i(1) assms(2)] by blast+
  moreover have "length (h k) \<le> 21 \<and> spaced (h k)" for k
  proof -
    have "int (length (h k)) \<le> NACK_RETRY_MAX + 1 \<and> spaced (h k)" using i(2) by (simp add: nack_log_def)
    then show ?thesis by (simp add: NACK_RETRY_MAX_def)
  qed
  ultimately show ?thesis using o i(2) unfolding due_def nack_log_def by blast
qed

section \<open>What a request says\<close>

lemma set_bits_loop: "set (bits_loop m s) = {s + of_nat n | n. bit m n}"
proof (induction m s rule: bits_loop.induct)
  case (1 m s)
  show ?case
  proof (cases "m = 0")
    case True
    then show ?thesis by (subst bits_loop.simps) simp
  next
    case False
    have b: "m AND 1 \<noteq> 0 \<longleftrightarrow> bit m 0" by (simp add: and_one_eq bit_0 odd_iff_mod_2_eq_one)
    have "{s + of_nat n | n. bit m n} = (if bit m 0 then {s} else {}) \<union> {s + 1 + of_nat n | n. bit m (Suc n)}"
    proof (intro equalityI subsetI)
      fix x assume "x \<in> {s + of_nat n | n. bit m n}"
      then obtain n where n: "x = s + of_nat n" "bit m n" by blast
      then show "x \<in> (if bit m 0 then {s} else {}) \<union> {s + 1 + of_nat n | n. bit m (Suc n)}"
        by (cases n) (auto simp: algebra_simps)
    next
      fix x assume "x \<in> (if bit m 0 then {s} else {}) \<union> {s + 1 + of_nat n | n. bit m (Suc n)}"
      then consider "bit m 0" "x = s" | n where "x = s + of_nat (Suc n)" "bit m (Suc n)"
        by (auto simp: algebra_simps split: if_splits)
      then show "x \<in> {s + of_nat n | n. bit m n}"
      proof cases
        case 1
        then show ?thesis by (intro CollectI exI [of _ 0]) simp
      qed blast
    qed
    moreover have "bit (drop_bit 1 m) n \<longleftrightarrow> bit m (Suc n)" for n by (simp add: bit_drop_bit_eq)
    ultimately show ?thesis using False "1.IH" [OF False] b by (subst bits_loop.simps) (auto simp del: drop_bit_Suc)
  qed
qed

lemma nack_bit_ok:
  assumes "unat a < unat b" "unat b \<le> unat a + 16"
  shows "nack_bit a b = Some (push_bit (16 - (unat b - unat a)) 1)"
proof -
  have "16 - (int (unat b) - int (unat a)) = int (16 - (unat b - unat a))" using assms by (simp add: of_nat_diff del: of_nat_unat)
  then show ?thesis using assms unfolding nack_bit_def Let_def by (simp only: nat_int) (simp add: push_bit_eq_mult del: of_nat_unat)
qed

lemma nack_bitmap_ok:
  "\<forall>b\<in>set bs. unat a < unat b \<and> unat b \<le> unat a + 16 \<Longrightarrow>
   \<exists>m. nack_bitmap a bs m0 = Some m \<and> (\<forall>n. bit m n \<longleftrightarrow> bit m0 n \<or> (\<exists>b\<in>set bs. n = 16 - (unat b - unat a)))"
proof (induction bs arbitrary: m0)
  case (Cons b bs)
  let ?e = "16 - (unat b - unat a)"
  have "?e < 16" using Cons.prems by auto
  then have "bit (push_bit ?e 1 :: u16) n \<longleftrightarrow> n = ?e" for n by (auto simp: bit_simps)
  with Cons.IH [of "m0 OR push_bit ?e 1"] Cons.prems show ?case by (auto simp: nack_bit_ok bit_or_iff)
qed simp

lemma insert_seqs_one:
  "\<forall>b\<in>set bs. int (unat b) - int (unat a) \<le> 16 \<Longrightarrow> insert_seqs (a # cs) bs k = InsertBlock (a # cs @ bs) k"
  by (induction bs arbitrary: cs) simp_all

lemma InsertSeqList_block:
  assumes "length mem = 1500" "\<forall>b\<in>set bs. unat a < unat b \<and> unat b \<le> unat a + 16"
  shows "\<exists>bm r. nack_bitmap a bs 0 = Some bm \<and> InsertSeqList (a # bs) (new_RtcpFbNack mem s m) = Some r \<and>
    r = \<lparr> fb_data = put_at 2 (Write2Bytes 3) (put_at 12 (Write2Bytes a @ Write2Bytes bm) (fb_data (new_RtcpFbNack mem s m))),
      fb_data_len = 16, nack_blocks = [12] \<rparr> \<and>
    GetLostSeqs r = a # bits_loop bm (a + 1)"
proof -
  let ?k = "new_RtcpFbNack mem s m"
  obtain bm where bm: "nack_bitmap a bs 0 = Some bm" using nack_bitmap_ok [OF assms(2), of 0] by auto
  let ?d = "put_at 12 (Write2Bytes a @ Write2Bytes bm) (fb_data ?k)"
  let ?r = "\<lparr> fb_data = put_at 2 (Write2Bytes 3) ?d, fb_data_len = 16, nack_blocks = [12] \<rparr>"
  have l: "length (fb_data ?k) = 1500" using assms(1) by (simp add: new_RtcpFbNack_def lens)
  have I: "InsertBlock (a # bs) ?k = Some ?r"
    using bm l by (simp add: InsertBlock_def new_RtcpFbNack_def)
  have "int (unat b) - int (unat a) \<le> 16" if "b \<in> set bs" for b
  proof -
    have "unat b \<le> unat a + 16" using assms(2) that by blast
    then show ?thesis by linarith
  qed
  then have i: "InsertSeqList (a # bs) ?k = Some ?r" using insert_seqs_one [of bs a "[]" ?k] I by (simp add: InsertSeqList_def)
  have dr: "drop 12 (put_at 2 (Write2Bytes 3) ?d) = Write2Bytes a @ Write2Bytes bm @ drop 16 (fb_data ?k)"
    using l by (simp add: drop_put_at_later drop_put_at lens)
  have "net16 (fb_data ?r) 12 = a" using dr by (simp add: net16_def Write2Bytes_def be_val_be_bytes)
  moreover have "drop 14 (fb_data ?r) = Write2Bytes bm @ drop 16 (fb_data ?k)"
    using arg_cong [OF dr, of "drop 2"] by (simp add: lens)
  then have "net16 (fb_data ?r) 14 = bm" by (simp add: net16_def Write2Bytes_def be_val_be_bytes)
  ultimately have "GetLostSeqs ?r = a # bits_loop bm (a + 1)"
    by (simp add: GetLostSeqs_def GetBaseSeq_def GetBitask_def)
  with bm i show ?thesis by blast
qed

lemma misread_image:
  fixes a :: u16
  assumes "\<forall>b\<in>set bs. unat a < unat b \<and> unat b \<le> unat a + 16"
  shows "{a + 1 + of_nat n | n. \<exists>b\<in>set bs. n = 16 - (unat b - unat a)} = (\<lambda>b. a + 17 - (b - a)) ` set bs"
proof -
  have e: "a + 1 + of_nat (16 - (unat b - unat a)) = a + 17 - (b - a)" if "b \<in> set bs" for b
  proof -
    have "unat b - unat a \<le> 16" "unat a \<le> unat b" using assms that by fastforce+
    then have "of_nat (16 - (unat b - unat a)) = (16 - (of_nat (unat b) - of_nat (unat a)) :: u16)"
      by (simp only: of_nat_diff of_nat_numeral)
    then show ?thesis by simp
  qed
  have "{a + 1 + of_nat n | n. \<exists>b\<in>set bs. n = 16 - (unat b - unat a)} = (\<lambda>b. a + 1 + of_nat (16 - (unat b - unat a))) ` set bs"
    by auto
  also have "\<dots> = (\<lambda>b. a + 17 - (b - a)) ` set bs" using e by (rule image_cong [OF refl])
  finally show ?thesis .
qed

lemma insert_far_None:
  assumes "int (unat c) > int (unat a) + 16" "\<forall>b\<in>set (cs @ ds). unat a < unat b \<and> unat b \<le> unat a + 16"
  shows "insert_seqs (a # cs) (ds @ [c]) k = None"
  using assms(2)
proof (induction ds arbitrary: cs)
  case Nil
  obtain m where "nack_bitmap a cs 0 = Some m" using nack_bitmap_ok [of cs a 0] Nil by auto
  moreover have "nack_bitmap a (cs @ [c]) m0 = (case nack_bitmap a cs m0 of None \<Rightarrow> None | Some _ \<Rightarrow> None)" for m0
    using assms(1)
    by (induction cs arbitrary: m0) (auto simp: nack_bit_def Let_def split: option.splits bind_splits)
  ultimately have "InsertBlock (a # cs @ [c]) k = None" by (simp add: InsertBlock_def)
  then show ?case using assms(1) by simp
next
  case (Cons d ds)
  then have "unat d \<le> unat a + 16" by simp
  then have "\<not> int (unat d) - int (unat a) > 16" by linarith
  moreover have "insert_seqs (a # (cs @ [d])) (ds @ [c]) k = None" by (rule Cons.IH) (use Cons.prems in auto)
  ultimately show ?case by simp
qed

text \<open>
  C33: A request is misread.  If the numbers that are missing span at most 17, the receiver makes one
  block of them: the first number and a bit for each of the others.  But it sets the bits from
  the top and the sender reads them from the bottom: instead of \<open>a + d\<close> it takes \<open>a + 17 - d\<close>, so
  the wrong packets are sent again.  If the numbers span more than 17, the shift for the last one
  of the block is by a negative amount, which is undefined.
\<close>
theorem nack_misread:
  assumes "length mem = 1500" "\<forall>b\<in>set bs. unat a < unat b \<and> unat b \<le> unat a + 16"
  shows "\<exists>k. InsertSeqList (a # bs) (new_RtcpFbNack mem s m) = Some k \<and>
    set (GetLostSeqs k) = insert a ((\<lambda>b. a + 17 - (b - a)) ` set bs) \<and>
    (\<forall>c. int (unat c) > int (unat a) + 16 \<longrightarrow> InsertSeqList (a # bs @ [c]) (new_RtcpFbNack mem s m) = None)"
proof -
  obtain bm r where r: "nack_bitmap a bs 0 = Some bm" "InsertSeqList (a # bs) (new_RtcpFbNack mem s m) = Some r"
    "GetLostSeqs r = a # bits_loop bm (a + 1)"
    using InsertSeqList_block [OF assms] by blast
  then have "\<forall>n. bit bm n \<longleftrightarrow> (\<exists>b\<in>set bs. n = 16 - (unat b - unat a))" using nack_bitmap_ok [OF assms(2), of 0] by auto
  then have "set (GetLostSeqs r) = insert a ((\<lambda>b. a + 17 - (b - a)) ` set bs)"
    unfolding r(3) misread_image [OF assms(2), symmetric] by (simp add: set_bits_loop)
  moreover have "InsertSeqList (a # bs @ [c]) (new_RtcpFbNack mem s m) = None" if "int (unat c) > int (unat a) + 16" for c
    using insert_far_None [OF that, of "[]" bs] assms(2) by (simp add: InsertSeqList_def)
  ultimately show ?thesis using r(2) by blast
qed

section \<open>Witnesses\<close>

theorem nack_gap_witness:
  "fst ` set (nack_map (UpdateNackList 9 (new_NackGenerator\<lparr>ng_init_flag := True, ng_last_seq := 6\<rparr>))) = {7, 8} \<and>
   fst ` set (nack_map (UpdateNackList 2 (new_NackGenerator\<lparr>ng_init_flag := True, ng_last_seq := 65530\<rparr>))) = {}"
proof -
  let ?s = "\<lambda>l. new_NackGenerator\<lparr>ng_init_flag := True, ng_last_seq := l\<rparr>"
  have h: "SeqHigherThan 9 6" "SeqHigherThan 2 65530" by (simp_all add: SeqHigherThan_def SeqLowerThan_def SEQUENCE_MAX_def)
  have e: "nack_map (?s l) = []" for l by (simp add: new_NackGenerator_def)
  have "{j. (6 :: u16) + 1 \<le> j \<and> j < 9} = {7, 8}"
    by (auto simp: word_le_nat_alt word_less_nat_alt word_eq_iff_unat)
  then show ?thesis
    using nack_gap [of "?s 6" 9] nack_gap [of "?s 65530" 2] h by (simp add: e)
qed

text \<open>
  Packet 9 follows on packet 6: the timer requests 7 and 8 at 100 ms, 8 comes, and at 110 ms nothing is due, at 115 ms 7 is
  requested a second time.
\<close>

definition nack_before :: nack_generator where
  "nack_before = new_NackGenerator\<lparr>ng_init_flag := True, ng_last_seq := 9,
     nack_map := [(7, \<lparr> nack_sent_ms = 100, nack_retry = 1 \<rparr>)]\<rparr>"

lemma nack_before_reach:
  "\<exists>h. nack_reach nack_before h \<and> h 7 = [(100, 15)]"
proof -
  let ?s6 = "UpdateNackList 6 new_NackGenerator" and ?z = "\<lparr> nack_sent_ms = 0, nack_retry = 0 \<rparr>"
  let ?s9 = "UpdateNackList 9 ?s6"
  let ?h = "entered ?s6 ?s9 (entered new_NackGenerator ?s6 (\<lambda>k. []))"
  let ?t = "new_NackGenerator\<lparr>ng_init_flag := True, ng_last_seq := 9,
    nack_map := [(7, \<lparr> nack_sent_ms = 100, nack_retry = 1 \<rparr>), (8, \<lparr> nack_sent_ms = 100, nack_retry = 1 \<rparr>)]\<rparr>"
  have "gap_loop 7 9 [] = [(7, ?z), (8, ?z)]" by (simp add: gap_loop.simps)
  then have s9: "?s9 = new_NackGenerator\<lparr>ng_init_flag := True, ng_last_seq := 9, nack_map := [(7, ?z), (8, ?z)]\<rparr>"
    by (simp add: UpdateNackList_def new_NackGenerator_def SeqLowerThan_def SEQUENCE_MAX_def)
  have t: "ng_OnTimer 100 ?s9 = (?t, Some [7, 8])"
    unfolding s9 by (simp add: ng_OnTimer_def new_NackGenerator_def NACK_DEFAULT_RTT_def NACK_RETRY_MAX_def NACK_LIST_MAX_def)
  have r: "nack_reach ?t (requested 100 (ng_rtt ?s9) (Some [7, 8]) ?h)"
    by (rule nack_timer [OF nack_packet [OF nack_packet [OF nack_start]] t])
  have u: "UpdateNackList 8 ?t = nack_before"
    by (simp add: UpdateNackList_def nack_before_def new_NackGenerator_def SeqLowerThan_def SEQUENCE_MAX_def)
  from nack_packet [OF r, of 8] have "nack_reach nack_before (entered ?t nack_before (requested 100 (ng_rtt ?s9) (Some [7, 8]) ?h))"
    unfolding u .
  moreover have "entered ?t nack_before (requested 100 (ng_rtt ?s9) (Some [7, 8]) ?h) 7 = [(100, 15)]"
    unfolding s9 by (simp add: entered_def requested_def nack_keys_def new_NackGenerator_def NACK_DEFAULT_RTT_def)
  ultimately show ?thesis by blast
qed

theorem nack_requests_witness:
  "asked (snd (ng_OnTimer 110 nack_before)) = {} \<and> asked (snd (ng_OnTimer 115 nack_before)) = {7}"
proof -
  obtain h where h: "nack_reach nack_before h" "h 7 = [(100, 15)]" using nack_before_reach by blast
  obtain s1 r1 s2 r2 where t: "ng_OnTimer 110 nack_before = (s1, r1)" "ng_OnTimer 115 nack_before = (s2, r2)" by (meson surj_pair)
  have k: "nack_keys nack_before = {7}" "ng_rtt nack_before = 15"
    by (simp_all add: nack_keys_def nack_before_def new_NackGenerator_def NACK_DEFAULT_RTT_def)
  have "asked r1 = {k \<in> nack_keys nack_before. length (h k) \<le> 20 \<and> ng_rtt nack_before \<le> 110 - last_asked (h k)}"
    "asked r2 = {k \<in> nack_keys nack_before. length (h k) \<le> 20 \<and> ng_rtt nack_before \<le> 115 - last_asked (h k)}"
    using nack_requests [OF h(1) t(1)] nack_requests [OF h(1) t(2)] by blast+
  then show ?thesis unfolding k t snd_conv using h(2) by (auto simp: last_asked_def)
qed

theorem nack_misread_witness:
  "\<exists>k. InsertSeqList [100, 103] (new_RtcpFbNack (replicate 1500 0) 1 2) = Some k \<and> set (GetLostSeqs k) = {100, 114} \<and>
    InsertSeqList [100, 103, 117] (new_RtcpFbNack (replicate 1500 0) 1 2) = None"
  using nack_misread [of "replicate 1500 0" "[103]" 100 1 2] by auto

end
