(* ===== verification/Rtcp.thy ===== *)
theory Rtcp
  imports RtpPacket
begin

text \<open>
  The RTCP packets of net/rtprtcp: sender reports (rtcp_sr.hpp), receiver reports (rtcp_rr.hpp),
  requests for a key frame (rtcp_pspli.hpp) and the extended reports with a receiver's
  reference time (rtcp_xr_rrt.hpp) and with the sender's answer (rtcp_xr_dlrr.hpp); the NTP times of
  utils/timeex.hpp and the rates of utils/stream_statics.hpp.  Each packet object has an
  array of 1500 bytes; \<open>mem\<close> is what it holds before the constructor has run.
\<close>

section \<open>NTP times\<close>

text \<open>
  The fraction goes through \<open>double\<close>: \<open>ms % 1000 / 1000\<close> is rounded to 53 bits, a relative error
  below \<open>2 ^ -52\<close>, and the product with \<open>2 ^ 32\<close> is exact.  Either 125 divides the numerator and
  the quotient is exact, or the product is at least \<open>1 / 125\<close> away from an integer, so that cutting it off
  gives the integer quotient.  The way back has products below \<open>2 ^ 42\<close> and a quotient by \<open>2 ^ 32\<close>,
  which are exact, and rounds to the nearest integer.
\<close>

record ntp_timestamp =
  ntp_sec :: u32
  ntp_frac :: u32

definition millisec_to_ntp :: "int \<Rightarrow> ntp_timestamp" where
  "millisec_to_ntp ms = \<lparr> ntp_sec = of_int (ms div 1000), ntp_frac = of_int ((ms mod 1000) * 2 ^ 32 div 1000) \<rparr>"

definition ntp_to_millisec :: "ntp_timestamp \<Rightarrow> int" where
  "ntp_to_millisec t = int (unat (ntp_sec t)) * 1000 + (int (unat (ntp_frac t)) * 1000 + 2 ^ 31) div 2 ^ 32"

section \<open>Rates\<close>

definition STREAM_STATICS_INTERVAL_MAX :: int where "STREAM_STATICS_INTERVAL_MAX = 10 * 1000"

record stream_statics =
  st_count :: nat
  st_last_count :: nat
  st_bytes :: nat
  st_last_bytes :: nat
  st_timestamp :: int

definition new_StreamStatics :: stream_statics where
  "new_StreamStatics = \<lparr> st_count = 0, st_last_count = 0, st_bytes = 0, st_last_bytes = 0, st_timestamp = 0 \<rparr>"

definition st_mark :: "int \<Rightarrow> stream_statics \<Rightarrow> stream_statics" where
  "st_mark now s = s\<lparr>st_timestamp := now, st_last_bytes := st_bytes s, st_last_count := st_count s\<rparr>"

definition st_Update :: "nat \<Rightarrow> int \<Rightarrow> stream_statics \<Rightarrow> stream_statics" where
  "st_Update n now s =
     (let s = s\<lparr>st_bytes := st_bytes s + n, st_count := st_count s + 1\<rparr> in
      if st_timestamp s = 0 \<or> now - st_timestamp s > STREAM_STATICS_INTERVAL_MAX then st_mark now s else s)"

text \<open>The speed, the count per second where the function sets it, and the new state.\<close>

definition BytesPerSecond :: "int \<Rightarrow> stream_statics \<Rightarrow> nat \<times> nat option \<times> stream_statics" where
  "BytesPerSecond now s =
     (if st_timestamp s = 0 \<or> now - st_timestamp s > STREAM_STATICS_INTERVAL_MAX \<or> now \<le> st_timestamp s then (0, None, st_mark now s)
      else let d = nat (now - st_timestamp s) in
        ((st_bytes s - st_last_bytes s) * 1000 div d, Some ((st_count s - st_last_count s) * 1000 div d), st_mark now s))"

definition st_Reset :: "stream_statics \<Rightarrow> stream_statics" where
  "st_Reset s = new_StreamStatics"

section \<open>Sender reports\<close>

definition RTCP_SR :: u8 where "RTCP_SR = 200"
definition RTCP_RR :: u8 where "RTCP_RR = 201"
definition RTCP_PSFB :: u8 where "RTCP_PSFB = 206"
definition RTCP_XR :: u8 where "RTCP_XR = 207"
definition FB_PS_PLI :: u8 where "FB_PS_PLI = 1"
definition XR_RRT :: u8 where "XR_RRT = 4"
definition XR_DLRR :: u8 where "XR_DLRR = 5"

definition GetRtcpLength :: "bytes \<Rightarrow> u16" where "GetRtcpLength m = net16 m 2 * 4"

record rtcp_sr =
  sr_data :: bytes
  sr_sender_ssrc :: u32

definition new_RtcpSrPacket :: rtcp_sr where
  "new_RtcpSrPacket = \<lparr> sr_data = put_at 0 ([0x80, RTCP_SR] @ Write2Bytes (24 div 4) @ Write4Bytes 1) (replicate 1500 0),
     sr_sender_ssrc = 1 \<rparr>"

definition sr_SetSsrc :: "u32 \<Rightarrow> rtcp_sr \<Rightarrow> rtcp_sr" where
  "sr_SetSsrc ssrc p = p\<lparr>sr_sender_ssrc := ssrc, sr_data := put_at 4 (Write4Bytes ssrc) (sr_data p)\<rparr>"

definition sr_SetNtp :: "u32 \<Rightarrow> u32 \<Rightarrow> rtcp_sr \<Rightarrow> rtcp_sr" where
  "sr_SetNtp sec frac p = p\<lparr>sr_data := put_at 12 (Write4Bytes frac) (put_at 8 (Write4Bytes sec) (sr_data p))\<rparr>"

definition sr_SetRtpTimestamp :: "u32 \<Rightarrow> rtcp_sr \<Rightarrow> rtcp_sr" where
  "sr_SetRtpTimestamp ts p = p\<lparr>sr_data := put_at 16 (Write4Bytes ts) (sr_data p)\<rparr>"

definition sr_SetPktCount :: "u32 \<Rightarrow> rtcp_sr \<Rightarrow> rtcp_sr" where
  "sr_SetPktCount n p = p\<lparr>sr_data := put_at 20 (Write4Bytes n) (sr_data p)\<rparr>"

definition sr_SetBytesCount :: "u32 \<Rightarrow> rtcp_sr \<Rightarrow> rtcp_sr" where
  "sr_SetBytesCount n p = p\<lparr>sr_data := put_at 24 (Write4Bytes n) (sr_data p)\<rparr>"

definition sr_GetSsrc :: "rtcp_sr \<Rightarrow> u32" where "sr_GetSsrc p = sr_sender_ssrc p"
definition GetNtpSec :: "rtcp_sr \<Rightarrow> u32" where "GetNtpSec p = net32 (sr_data p) 8"
definition GetNtpFrac :: "rtcp_sr \<Rightarrow> u32" where "GetNtpFrac p = net32 (sr_data p) 12"
definition GetRtpTimestamp :: "rtcp_sr \<Rightarrow> u32" where "GetRtpTimestamp p = net32 (sr_data p) 16"
definition GetPktCount :: "rtcp_sr \<Rightarrow> u32" where "GetPktCount p = net32 (sr_data p) 20"
definition GetBytesCount :: "rtcp_sr \<Rightarrow> u32" where "GetBytesCount p = net32 (sr_data p) 24"

definition sr_GetData :: "rtcp_sr \<Rightarrow> bytes" where "sr_GetData p = take 28 (sr_data p)"

text \<open>\<open>None\<close> is the exception for a wrong length.\<close>

definition sr_Parse :: "bytes \<Rightarrow> bytes \<Rightarrow> rtcp_sr option" where
  "sr_Parse mem data = do {
     require (length data = 28);
     Some \<lparr> sr_data = put_at 0 data mem, sr_sender_ssrc = net32 data 4 \<rparr> }"

section \<open>Receiver reports\<close>

text \<open>A report block is its 24 bytes, in a packet or on its own.\<close>

definition GetReporteeSsrc :: "bytes \<Rightarrow> u32" where "GetReporteeSsrc b = net32 b 0"
definition SetReporteeSsrc :: "u32 \<Rightarrow> bytes \<Rightarrow> bytes" where "SetReporteeSsrc v b = put_at 0 (Write4Bytes v) b"
definition GetFracLost :: "bytes \<Rightarrow> u8" where "GetFracLost b = b ! 4"
definition SetFracLost :: "u8 \<Rightarrow> bytes \<Rightarrow> bytes" where "SetFracLost v b = put_at 4 [v] b"
definition GetCumulativeLost :: "bytes \<Rightarrow> u32 option" where "GetCumulativeLost b = Read3Bytes (drop 5 b)"
definition SetCumulativeLost :: "u32 \<Rightarrow> bytes \<Rightarrow> bytes" where "SetCumulativeLost v b = put_at 5 (Write3Bytes v) b"
definition GetHighestSeq :: "bytes \<Rightarrow> u32" where "GetHighestSeq b = net32 b 8"
definition SetHighestSeq :: "u32 \<Rightarrow> bytes \<Rightarrow> bytes" where "SetHighestSeq v b = put_at 8 (Write4Bytes v) b"
definition GetJitter :: "bytes \<Rightarrow> u32" where "GetJitter b = net32 b 12"
definition SetJitter :: "u32 \<Rightarrow> bytes \<Rightarrow> bytes" where "SetJitter v b = put_at 12 (Write4Bytes v) b"
definition GetLsr :: "bytes \<Rightarrow> u32" where "GetLsr b = net32 b 16"
definition SetLsr :: "u32 \<Rightarrow> bytes \<Rightarrow> bytes" where "SetLsr v b = put_at 16 (Write4Bytes v) b"
definition GetDlsr :: "bytes \<Rightarrow> u32" where "GetDlsr b = net32 b 20"
definition SetDlsr :: "u32 \<Rightarrow> bytes \<Rightarrow> bytes" where "SetDlsr v b = put_at 20 (Write4Bytes v) b"

record rtcp_rr =
  rr_data :: bytes
  rr_len :: nat
  rr_blocks :: "nat list"

definition new_RtcpRrPacket :: rtcp_rr where
  "new_RtcpRrPacket = \<lparr> rr_data = replicate 1500 0, rr_len = 0, rr_blocks = [] \<rparr>"

definition rr_block :: "rtcp_rr \<Rightarrow> nat \<Rightarrow> bytes" where "rr_block p k = take 24 (drop k (rr_data p))"

definition GetRrBlocks :: "rtcp_rr \<Rightarrow> bytes list" where "GetRrBlocks p = map (rr_block p) (rr_blocks p)"

definition GetReporterSsrc :: "rtcp_rr \<Rightarrow> u32" where "GetReporterSsrc p = net32 (rr_data p) 4"

definition rr_offsets :: "nat \<Rightarrow> nat list" where
  "rr_offsets len = map (\<lambda>i. 8 + 24 * i) [0..<(len - 8 + 23) div 24]"

text \<open>\<open>Inl\<close> is the exception, \<open>None\<close> a copy past the end of the array.\<close>

definition rr_Parse :: "bytes \<Rightarrow> bytes \<Rightarrow> (unit + rtcp_rr) option" where
  "rr_Parse mem data =
     (if length data < 32 then Some (Inl ())
      else do {
        require (length data \<le> length mem);
        Some (Inr \<lparr> rr_data = put_at 0 data mem, rr_len = length data, rr_blocks = rr_offsets (length data) \<rparr>) })"

definition AddRrBlock :: "bytes \<Rightarrow> rtcp_rr \<Rightarrow> rtcp_rr option" where
  "AddRrBlock block p =
     (let k = (if rr_blocks p = [] then 8 else last (rr_blocks p) + 24) in do {
        require (k + 24 \<le> length (rr_data p) \<and> length block = 24);
        Some (p\<lparr>rr_data := put_at k block (rr_data p), rr_blocks := rr_blocks p @ [k]\<rparr>) })"

text \<open>
  \<open>GetData\<close> completes the packet: the header, and the number 1 as the reporter, which is stored
  as the host stores it, lowest byte first.  The blocks are copied to where they are.
\<close>

definition rr_GetData :: "rtcp_rr \<Rightarrow> (bytes \<times> rtcp_rr) option" where
  "rr_GetData p =
     (if rr_blocks p = [] then Some ([], p)
      else let n = length (rr_blocks p); data_len = 8 + 24 * n;
             m = put_at 0 ([0x80 OR (of_nat n AND 0x1f), RTCP_RR] @ Write2Bytes (of_nat data_len div 4 - 1) @ [1, 0, 0, 0]) (rr_data p) in do {
        require (data_len \<le> length m);
        let p = p\<lparr>rr_data := put_at 8 (concat (GetRrBlocks p)) m\<rparr>;
        Some (take data_len (rr_data p), p) })"

section \<open>Requests for a key frame\<close>

definition new_RtcpPsPli :: bytes where
  "new_RtcpPsPli = put_at 0 ([0x80 OR FB_PS_PLI, RTCP_PSFB] @ Write2Bytes 2) (replicate 1500 0)"

definition pli_SetSenderSsrc :: "u32 \<Rightarrow> bytes \<Rightarrow> bytes" where "pli_SetSenderSsrc v d = put_at 4 (Write4Bytes v) d"
definition pli_SetMediaSsrc :: "u32 \<Rightarrow> bytes \<Rightarrow> bytes" where "pli_SetMediaSsrc v d = put_at 8 (Write4Bytes v) d"
definition pli_GetSenderSsrc :: "bytes \<Rightarrow> u32" where "pli_GetSenderSsrc d = net32 d 4"
definition pli_GetMediaSsrc :: "bytes \<Rightarrow> u32" where "pli_GetMediaSsrc d = net32 d 8"
definition pli_GetData :: "bytes \<Rightarrow> bytes" where "pli_GetData d = take 12 d"

definition pli_Parse :: "bytes \<Rightarrow> bytes option" where
  "pli_Parse data = (if length data \<noteq> 12 then None else Some (put_at 0 data new_RtcpPsPli))"

section \<open>Extended reports\<close>

definition new_XrRrt :: bytes where
  "new_XrRrt = put_at 0 ([0x80, RTCP_XR] @ Write2Bytes (20 div 4 - 1) @ [0, 0, 0, 0, XR_RRT, 0] @ Write2Bytes 2) (replicate 1500 0)"

definition rrt_SetSsrc :: "u32 \<Rightarrow> bytes \<Rightarrow> bytes" where "rrt_SetSsrc v d = put_at 4 (Write4Bytes v) d"
definition rrt_GetSsrc :: "bytes \<Rightarrow> u32" where "rrt_GetSsrc d = net32 d 4"
definition rrt_SetNtp :: "u32 \<Rightarrow> u32 \<Rightarrow> bytes \<Rightarrow> bytes" where
  "rrt_SetNtp sec frac d = put_at 16 (Write4Bytes frac) (put_at 12 (Write4Bytes sec) d)"
definition rrt_GetNtp :: "bytes \<Rightarrow> u32 \<times> u32" where "rrt_GetNtp d = (net32 d 12, net32 d 16)"
definition rrt_GetData :: "bytes \<Rightarrow> bytes" where "rrt_GetData d = take 20 d"

definition rrt_parse :: "bytes \<Rightarrow> bytes \<Rightarrow> bytes option" where
  "rrt_parse rtcp_data d = do { require (length rtcp_data = 20); Some (put_at 0 rtcp_data d) }"

record xr_dlrr =
  dlrr_data :: bytes
  dlrr_data_len :: nat
  dlrr_block_count :: nat

definition new_XrDlrr :: xr_dlrr where
  "new_XrDlrr = \<lparr> dlrr_data = put_at 0 [0x80, RTCP_XR, 0, 0] (replicate 1500 0), dlrr_data_len = 0, dlrr_block_count = 0 \<rparr>"

definition dlrr_SetSsrc :: "u32 \<Rightarrow> xr_dlrr \<Rightarrow> xr_dlrr" where
  "dlrr_SetSsrc v x = x\<lparr>dlrr_data := put_at 4 (Write4Bytes v) (dlrr_data x)\<rparr>"

definition dlrr_GetSsrc :: "xr_dlrr \<Rightarrow> u32" where "dlrr_GetSsrc x = net32 (dlrr_data x) 4"

text \<open>
  The block's length is added to in network order: \<open>htons(3)\<close> is 0x0300 on the host, so the sum
  carries within the low byte only.
\<close>

definition AddrDlrrBlock :: "u32 \<Rightarrow> u32 \<Rightarrow> u32 \<Rightarrow> xr_dlrr \<Rightarrow> xr_dlrr option" where
  "AddrDlrrBlock ssrc lrr dlrr x =
     (let n = dlrr_block_count x; m = dlrr_data x;
          m = (if n = 0 then put_at 8 ([XR_DLRR, 0] @ Write2Bytes 3) m else put_at 11 [m ! 11 + 3] m);
          k = 12 + 12 * n in do {
        require (k + 12 \<le> length m);
        let m = put_at k (Write4Bytes ssrc @ Write4Bytes lrr @ Write4Bytes dlrr) m;
        let m = put_at 2 (Write2Bytes (of_nat (8 + 12 * (n + 1)) div 4)) m;
        Some \<lparr> dlrr_data = m, dlrr_data_len = 12 + 12 * (n + 1), dlrr_block_count = n + 1 \<rparr> })"

definition GetDlrrBlocks :: "xr_dlrr \<Rightarrow> (u32 \<times> u32 \<times> u32) list" where
  "GetDlrrBlocks x =
     (if dlrr_data_len x < 24 then []
      else map (\<lambda>i. (net32 (dlrr_data x) (12 + 12 * i), net32 (dlrr_data x) (16 + 12 * i), net32 (dlrr_data x) (20 + 12 * i)))
             [0..<(dlrr_data_len x - 12) div 12])"

section \<open>Round trips\<close>

text \<open>
  C34: A time of less than \<open>2 ^ 32\<close> seconds survives the NTP format: the milliseconds come back from the
  seconds and the fraction, although the fraction is cut off.
\<close>
theorem ntp_roundtrip:
  assumes "0 \<le> ms" "ms < 2 ^ 32 * 1000"
  shows "ntp_to_millisec (millisec_to_ntp ms) = ms"
proof -
  define k where "k = ms mod 1000"
  have k: "0 \<le> k" "k < 1000" by (simp_all add: k_def)
  let ?f = "k * 2 ^ 32 div 1000"
  have f: "?f * 1000 \<le> k * 2 ^ 32" "k * 2 ^ 32 < ?f * 1000 + 1000" 
    using minus_mod_eq_div_mult [of "k * 2 ^ 32" 1000] pos_mod_bound [of 1000 "k * 2 ^ 32"] pos_mod_sign [of 1000 "k * 2 ^ 32"]
    by linarith+
  have f32: "0 \<le> ?f" "?f < 2 ^ 32" using f k by (simp_all add: pos_imp_zdiv_nonneg_iff)
  have "int (unat (of_int ?f :: u32)) = ?f" using f32 by (simp add: uint_word_of_int)
  moreover have "(?f * 1000 + 2 ^ 31) div 2 ^ 32 = k"
  proof -
    have "k * 2 ^ 32 \<le> ?f * 1000 + 2 ^ 31" "?f * 1000 + 2 ^ 31 < (k + 1) * 2 ^ 32" using f by simp_all
    then show ?thesis by (intro int_div_pos_eq [where r = "?f * 1000 + 2 ^ 31 - k * 2 ^ 32"]) simp_all
  qed
  moreover have "0 \<le> ms div 1000" "ms div 1000 < 2 ^ 32" using assms by (simp_all add: pos_imp_zdiv_nonneg_iff)
  then have "int (unat (of_int (ms div 1000) :: u32)) = ms div 1000" by (simp add: uint_word_of_int)
  ultimately show ?thesis by (simp add: ntp_to_millisec_def millisec_to_ntp_def k_def [symmetric] del: of_nat_unat) (simp add: k_def)
qed

theorem ntp_roundtrip_witness: "ntp_to_millisec (millisec_to_ntp 1700000000123) = 1700000000123"
  by (rule ntp_roundtrip) simp_all

text \<open>A sender report and what the receiver reads from it.\<close>

lemma sr_roundtrip:
  assumes "length mem = 1500"
  shows "\<exists>r. sr_Parse mem (sr_GetData (sr_SetBytesCount bc (sr_SetPktCount pc (sr_SetRtpTimestamp ts
      (sr_SetNtp sec frac (sr_SetSsrc ssrc new_RtcpSrPacket)))))) = Some r \<and>
    sr_GetSsrc r = ssrc \<and> GetNtpSec r = sec \<and> GetNtpFrac r = frac \<and> GetRtpTimestamp r = ts \<and>
    GetPktCount r = pc \<and> GetBytesCount r = bc"
proof -
  let ?h = "[0x80, RTCP_SR] @ Write2Bytes (24 div 4)"
  let ?d = "?h @ Write4Bytes ssrc @ Write4Bytes sec @ Write4Bytes frac @ Write4Bytes ts @ Write4Bytes pc @ Write4Bytes bc"
  have "sr_GetData (sr_SetBytesCount bc (sr_SetPktCount pc (sr_SetRtpTimestamp ts
      (sr_SetNtp sec frac (sr_SetSsrc ssrc new_RtcpSrPacket))))) = ?d"
    by (simp add: sr_GetData_def sr_SetBytesCount_def sr_SetPktCount_def sr_SetRtpTimestamp_def sr_SetNtp_def sr_SetSsrc_def
        new_RtcpSrPacket_def put_at_def lens)
  moreover have "put_at 0 ?d mem = ?d @ drop 28 mem" by (simp add: put_at_def lens)
  moreover have "be_val (Write4Bytes v) = unat v" for v by (simp add: Write4Bytes_def be_val_be_bytes)
  ultimately show ?thesis
    by (simp add: sr_Parse_def sr_GetSsrc_def GetNtpSec_def GetNtpFrac_def GetRtpTimestamp_def GetPktCount_def GetBytesCount_def
        net32_def lens)
qed

fun add_blocks :: "bytes list \<Rightarrow> rtcp_rr \<Rightarrow> rtcp_rr option" where
  "add_blocks [] p = Some p"
| "add_blocks (b # bs) p = do { p \<leftarrow> AddRrBlock b p; add_blocks bs p }"

definition rr_holds :: "bytes list \<Rightarrow> bytes \<Rightarrow> bool" where
  "rr_holds cs m \<longleftrightarrow> (\<forall>c\<in>set cs. length c = 24) \<and> take (24 * length cs) (drop 8 m) = concat cs"

lemma length_concat_blocks: "\<forall>c\<in>set cs. length c = 24 \<Longrightarrow> length (concat cs) = 24 * length cs"
  by (induction cs) simp_all

lemma block_of_concat:
  "\<forall>c\<in>set cs. length c = 24 \<Longrightarrow> i < length cs \<Longrightarrow> take 24 (drop (24 * i) (concat cs @ z)) = cs ! i"
proof (induction cs arbitrary: i)
  case (Cons c cs)
  then show ?case by (cases i) simp_all
qed simp

lemma rr_holds_blocks:
  assumes "rr_holds cs (rr_data p)" "rr_blocks p = map (\<lambda>i. 8 + 24 * i) [0..<length cs]"
  shows "GetRrBlocks p = cs"
proof (rule nth_equalityI)
  fix i assume "i < length (GetRrBlocks p)"
  then have i: "i < length cs" by (simp add: GetRrBlocks_def assms(2))
  obtain z where "drop 8 (rr_data p) = concat cs @ z"
    using assms(1) append_take_drop_id [of "24 * length cs" "drop 8 (rr_data p)"] unfolding rr_holds_def by metis
  moreover have "\<forall>c\<in>set cs. length c = 24" using assms(1) by (simp add: rr_holds_def)
  ultimately have "take 24 (drop (24 * i) (drop 8 (rr_data p))) = cs ! i" using block_of_concat [of cs i z] i by (simp only:)
  then show "GetRrBlocks p ! i = cs ! i" using i by (simp add: GetRrBlocks_def assms(2) rr_block_def add.commute)
qed (simp add: GetRrBlocks_def assms(2))

lemma add_blocks_ok:
  assumes "rr_holds cs (rr_data p)" "rr_blocks p = map (\<lambda>i. 8 + 24 * i) [0..<length cs]" "length (rr_data p) = 1500"
    "\<forall>b\<in>set bs. length b = 24" "length cs + length bs \<le> 62"
  shows "\<exists>q. add_blocks bs p = Some q \<and> rr_holds (cs @ bs) (rr_data q) \<and> length (rr_data q) = 1500 \<and>
    rr_blocks q = map (\<lambda>i. 8 + 24 * i) [0..<length cs + length bs]"
  using assms
proof (induction bs arbitrary: cs p)
  case (Cons b bs)
  let ?k = "8 + 24 * length cs"
  let ?q = "p\<lparr>rr_data := put_at ?k b (rr_data p), rr_blocks := rr_blocks p @ [?k]\<rparr>"
  have k: "(if rr_blocks p = [] then 8 else last (rr_blocks p) + 24) = ?k"
    using Cons.prems(2) by (cases "length cs") (simp_all add: last_map)
  have "AddRrBlock b p = Some ?q" using Cons.prems(3-5) unfolding AddRrBlock_def Let_def k by simp
  moreover have "rr_holds (cs @ [b]) (rr_data ?q)"
  proof -
    obtain z where z: "drop 8 (rr_data p) = concat cs @ z"
      using Cons.prems(1) append_take_drop_id [of "24 * length cs" "drop 8 (rr_data p)"] unfolding rr_holds_def by metis
    have l: "length (concat cs) = 24 * length cs" using Cons.prems(1) by (simp add: length_concat_blocks rr_holds_def)
    have "drop 8 (rr_data ?q) = take (24 * length cs) (drop 8 (rr_data p)) @ b @ drop (?k + length b) (rr_data p)"
      using Cons.prems(3,5) by (simp add: put_at_def drop_take)
    then have "take (24 * length (cs @ [b])) (drop 8 (rr_data ?q)) = concat (cs @ [b])"
      using Cons.prems(4) l unfolding z by simp
    then show ?thesis using Cons.prems(1,4) by (simp add: rr_holds_def)
  qed
  moreover have "length (rr_data ?q) = 1500" using Cons.prems(3-5) by simp
  ultimately show ?case using Cons.IH [of "cs @ [b]" ?q] Cons.prems(2,4,5) by simp
qed simp

text \<open>
  Receiver reports arrive, but not their reporter.  Up to 62 report blocks that are put into a packet
  come out of the parser at the other side, all and in their order.  The reporter, which
  is meant to be number 1, arrives as 0x01000000, since it is stored in the byte order of the host.
\<close>
theorem rr_roundtrip:
  assumes "bs \<noteq> []" "length bs \<le> 62" "\<forall>b\<in>set bs. length b = 24" "length mem = 1500"
  shows "\<exists>p d q r. add_blocks bs new_RtcpRrPacket = Some p \<and> rr_GetData p = Some (d, q) \<and> length d = 8 + 24 * length bs \<and>
    rr_Parse mem d = Some (Inr r) \<and> GetRrBlocks r = bs \<and> GetReporterSsrc r = 0x01000000"
proof -
  let ?n = "length bs"
  have "rr_holds [] (rr_data new_RtcpRrPacket)" by (simp add: rr_holds_def)
  from add_blocks_ok [OF this] assms obtain p where p: "add_blocks bs new_RtcpRrPacket = Some p" "rr_holds bs (rr_data p)"
    "length (rr_data p) = 1500" "rr_blocks p = map (\<lambda>i. 8 + 24 * i) [0..<?n]"
    by (auto simp: new_RtcpRrPacket_def)
  define hd where "hd = [0x80 OR (of_nat ?n AND 0x1f), RTCP_RR] @ Write2Bytes (of_nat (8 + 24 * ?n) div 4 - 1) @ [1, 0, 0, 0]"
  let ?m = "put_at 0 hd (rr_data p)"
  have lh: "length hd = 8" "drop 4 hd = [1, 0, 0, 0]" by (simp_all add: hd_def lens)
  have ne: "rr_blocks p \<noteq> []" "length (rr_blocks p) = ?n" using p(4) assms(1) by simp_all
  have bl: "GetRrBlocks p = bs" using p by (intro rr_holds_blocks)
  have lc: "length (concat bs) = 24 * ?n" using assms(3) by (rule length_concat_blocks)
  have m: "length ?m = 1500" using p(3) lh by simp
  let ?d = "take (8 + 24 * ?n) (put_at 8 (concat bs) ?m)"
  have G: "rr_GetData p = Some (?d, p\<lparr>rr_data := put_at 8 (concat bs) ?m\<rparr>)"
    using ne m assms(2) unfolding rr_GetData_def Let_def bl ne(2) hd_def [symmetric] by simp
  have d: "?d = hd @ concat bs"
    using lc m lh assms(2) by (simp add: put_at_def)
  have ld: "length (hd @ concat bs) = 8 + 24 * ?n" using lh lc by (simp only: length_append)
  define r where "r = \<lparr> rr_data = put_at 0 (hd @ concat bs) mem, rr_len = 8 + 24 * ?n, rr_blocks = rr_offsets (8 + 24 * ?n) \<rparr>"
  have "0 < ?n" using assms(1) by simp
  then have P: "rr_Parse mem (hd @ concat bs) = Some (Inr r)"
    using assms(2,4) unfolding rr_Parse_def ld r_def by simp
  have "(24 * ?n + 23) div 24 = ?n" by simp
  then have "rr_offsets (8 + 24 * ?n) = map (\<lambda>i. 8 + 24 * i) [0..<?n]" by (simp add: rr_offsets_def)
  then have B: "GetRrBlocks r = bs"
    using lh lc assms(3) by (intro rr_holds_blocks) (simp_all add: rr_holds_def put_at_def r_def)
  have "drop 4 (rr_data r) = [1, 0, 0, 0] @ concat bs @ drop (8 + 24 * ?n) mem"
    using ld lh by (simp add: put_at_def r_def)
  then have "GetReporterSsrc r = 0x01000000" by (simp add: GetReporterSsrc_def net32_def be_val_def)
  with p(1) G ld P B show ?thesis unfolding d by blast
qed

theorem rr_roundtrip_witness:
  "\<exists>p d q r. add_blocks [replicate 24 7, replicate 24 9] new_RtcpRrPacket = Some p \<and> rr_GetData p = Some (d, q) \<and>
    rr_Parse (replicate 1500 0) d = Some (Inr r) \<and> GetRrBlocks r = [replicate 24 7, replicate 24 9] \<and> GetReporterSsrc r = 0x01000000"
  using rr_roundtrip [of "[replicate 24 7, replicate 24 9]" "replicate 1500 0"] by auto

end
