(* ===== verification/CFloat.thy ===== *)
theory CFloat
  imports Complex_Main
begin

text \<open>
  The rounding of \<open>float\<close> and \<open>double\<close> (IEEE 754, to nearest, ties to even, with the
  denormal numbers) on rational numbers, for the few places where the code computes a time or a rate
  with them.  The values there stay far below the largest \<open>float\<close>, so there is no overflow.
\<close>

function int_bits :: "int \<Rightarrow> int" where
  "int_bits n = (if n \<le> 0 then 0 else 1 + int_bits (n div 2))"
  by pat_completeness auto

termination by (relation "measure nat") auto

declare int_bits.simps [simp del]

text \<open>The largest power of two up to a positive number.\<close>

definition ilog2 :: "rat \<Rightarrow> int" where
  "ilog2 x = (let (a, b) = quotient_of x; l = int_bits a - int_bits b in
     if 2 powi l * of_int b \<le> (of_int a :: rat) then l else l - 1)"

definition round_even :: "rat \<Rightarrow> int" where
  "round_even x = (let n = \<lfloor>x\<rfloor>; r = x - of_int n in if r < 1 / 2 \<or> (r = 1 / 2 \<and> even n) then n else n + 1)"

definition round_to :: "int \<Rightarrow> int \<Rightarrow> rat \<Rightarrow> rat" where
  "round_to prec emin x =
     (if x = 0 then 0
      else let e = max (ilog2 \<bar>x\<bar> - (prec - 1)) emin in of_int (round_even (x / 2 powi e)) * 2 powi e)"

definition float32 :: "rat \<Rightarrow> rat" where "float32 x = round_to 24 (-149) x"
definition float64 :: "rat \<Rightarrow> rat" where "float64 x = round_to 53 (-1074) x"

text \<open>A conversion to an integer type drops the fraction.\<close>

definition drop_fraction :: "rat \<Rightarrow> int" where
  "drop_fraction x = (if x < 0 then - \<lfloor>- x\<rfloor> else \<lfloor>x\<rfloor>)"

lemma round_even_of_int [simp]: "round_even (of_int n) = n"
  by (simp add: round_even_def)

lemma round_even_mono: "x \<le> y \<Longrightarrow> round_even x \<le> round_even y"
proof -
  assume xy: "x \<le> y"
  consider "\<lfloor>x\<rfloor> < \<lfloor>y\<rfloor>" | "\<lfloor>x\<rfloor> = \<lfloor>y\<rfloor>" using floor_mono [OF xy] by linarith
  then show ?thesis
  proof cases
    case 1
    then show ?thesis by (auto simp: round_even_def Let_def)
  next
    case 2
    with xy show ?thesis by (auto simp: round_even_def Let_def)
  qed
qed

text \<open>Multiples of the unit of the last place are kept.\<close>

lemma round_to_id:
  assumes "x = of_int m * 2 powi e" "e = max (ilog2 \<bar>x\<bar> - (prec - 1)) emin"
  shows "round_to prec emin x = x"
  using assms(1) unfolding round_to_def Let_def assms(2) [symmetric]
  by (cases "x = 0") simp_all

section \<open>Rounding errors\<close>

lemma int_bits_bounds: "0 < n \<Longrightarrow> 0 < int_bits n \<and> 2 powi (int_bits n - 1) \<le> (of_int n :: rat) \<and> (of_int n :: rat) < 2 powi int_bits n"
proof (induction n rule: int_bits.induct)
  case (1 n)
  show ?case
  proof (cases "n = 1")
    case True
    then show ?thesis by (simp add: int_bits.simps)
  next
    case False
    let ?k = "int_bits (n div 2)"
    have b: "int_bits n = 1 + ?k" using "1.prems" by (subst int_bits.simps) simp
    have ih: "0 < ?k" "2 powi (?k - 1) \<le> (of_int (n div 2) :: rat)" "(of_int (n div 2) :: rat) < 2 powi ?k"
      using "1.IH" "1.prems" False by auto
    have p: "2 powi (int_bits n - 1) = 2 * (2 powi (?k - 1) :: rat)" "2 powi int_bits n = 2 * (2 powi ?k :: rat)"
      by (simp_all add: b power_int_add power_int_diff)
    have k: "(2 powi ?k :: rat) = of_int (2 ^ nat ?k)" using ih(1) by (simp add: power_int_def)
    have "n div 2 < 2 ^ nat ?k" using ih(3) unfolding k of_int_less_iff .
    then have "n < 2 * 2 ^ nat ?k" by linarith
    then have "(of_int n :: rat) < of_int (2 * 2 ^ nat ?k)" by (simp only: of_int_less_iff)
    moreover have "2 * (of_int (n div 2) :: rat) \<le> of_int n"
    proof -
      have "2 * (n div 2) \<le> n" by simp
      then have "(of_int (2 * (n div 2)) :: rat) \<le> of_int n" by (simp only: of_int_le_iff)
      then show ?thesis by simp
    qed
    ultimately have "2 * 2 powi (?k - 1) \<le> (of_int n :: rat)" "(of_int n :: rat) < 2 * 2 powi ?k"
      using ih(2) unfolding k by (linarith, simp)
    moreover have "0 < int_bits n" using ih(1) b by simp
    ultimately show ?thesis unfolding p by blast
  qed
qed

lemma ilog2_le: "0 < x \<Longrightarrow> 2 powi ilog2 x \<le> x"
proof -
  assume x: "0 < x"
  obtain a b where q: "quotient_of x = (a, b)" by (cases "quotient_of x")
  have b: "0 < b" by (rule quotient_of_denom_pos [OF q])
  have xe: "x = of_int a / of_int b" by (rule quotient_of_div [OF q])
  then have a: "0 < a" using x b by (simp add: zero_less_divide_iff)
  let ?l = "int_bits a - int_bits b"
  have il: "ilog2 x = (if 2 powi ?l * of_int b \<le> (of_int a :: rat) then ?l else ?l - 1)" by (simp add: ilog2_def q)
  show ?thesis
  proof (cases "2 powi ?l * of_int b \<le> (of_int a :: rat)")
    case True
    then show ?thesis using b by (simp add: il pos_le_divide_eq flip: xe) (simp add: xe pos_le_divide_eq)
  next
    case False
    have "2 powi (?l - 1) * (of_int b :: rat) \<le> 2 powi (?l - 1) * 2 powi int_bits b"
      using int_bits_bounds [OF b] by (intro mult_left_mono) simp_all
    also have "\<dots> = 2 powi (int_bits a - 1)" by (simp flip: power_int_add)
    also have "\<dots> \<le> of_int a" using int_bits_bounds [OF a] by simp
    finally show ?thesis using False b by (simp add: il pos_le_divide_eq flip: xe) (simp add: xe pos_le_divide_eq)
  qed
qed

lemma ilog2_less: "0 < x \<Longrightarrow> x < 2 powi k \<Longrightarrow> ilog2 x < k"
proof -
  assume "0 < x" "x < 2 powi k"
  then have "(2 :: rat) powi ilog2 x < 2 powi k" using ilog2_le [of x] by linarith
  moreover have "(2 :: rat) powi k \<le> 2 powi ilog2 x" if "k \<le> ilog2 x" using that by (intro power_int_increasing) simp_all
  ultimately show ?thesis by (meson not_le)
qed

lemma round_even_near: "\<bar>of_int (round_even y) - y\<bar> \<le> 1 / 2"
proof -
  have "of_int \<lfloor>y\<rfloor> \<le> y" "y < of_int \<lfloor>y\<rfloor> + 1" using floor_correct [of y] by simp_all
  then show ?thesis by (cases "y - of_int \<lfloor>y\<rfloor> < 1 / 2 \<or> y - of_int \<lfloor>y\<rfloor> = 1 / 2 \<and> even \<lfloor>y\<rfloor>")
      (auto simp: round_even_def Let_def abs_le_iff)
qed

lemma round_to_near:
  assumes "\<bar>x\<bar> < 2 powi k" "emin \<le> k - prec"
  shows "\<bar>round_to prec emin x - x\<bar> \<le> 2 powi (k - prec) / 2"
proof (cases "x = 0")
  case False
  let ?e = "max (ilog2 \<bar>x\<bar> - (prec - 1)) emin"
  have e: "?e \<le> k - prec" using ilog2_less [OF _ assms(1)] assms(2) False by simp
  have pos: "0 < (2 powi ?e :: rat)" by simp
  have "round_to prec emin x - x = (of_int (round_even (x / 2 powi ?e)) - x / 2 powi ?e) * 2 powi ?e"
    using False by (simp add: round_to_def Let_def algebra_simps)
  then have "\<bar>round_to prec emin x - x\<bar> \<le> 1 / 2 * 2 powi ?e"
    using mult_right_mono [OF round_even_near [of "x / 2 powi ?e"], of "2 powi ?e"] pos by (simp add: abs_mult)
  also have "\<dots> \<le> 1 / 2 * 2 powi (k - prec)" using e by (intro mult_left_mono) (simp_all add: power_int_increasing)
  finally show ?thesis by simp
qed (simp add: round_to_def)

text \<open>Integers of at most 24 bits are \<open>float\<close>s, those of at most 53 bits \<open>double\<close>s.\<close>

lemma round_to_int:
  assumes "\<bar>n\<bar> < 2 ^ nat prec" "emin \<le> 0" "0 \<le> prec"
  shows "round_to prec emin (of_int n) = of_int n"
proof (cases "n = 0")
  case False
  let ?e = "max (ilog2 \<bar>of_int n\<bar> - (prec - 1)) emin"
  have "(of_int \<bar>n\<bar> :: rat) < of_int (2 ^ nat prec)" using assms(1) by (simp only: of_int_less_iff)
  then have "\<bar>of_int n :: rat\<bar> < 2 powi prec" using assms(3) by (simp add: power_int_def)
  then have e: "?e \<le> 0" using ilog2_less [of "\<bar>of_int n\<bar>" prec] False assms(2) by simp
  have "(of_int n :: rat) = of_int (n * 2 ^ nat (- ?e)) * 2 powi ?e"
    using e by (cases "?e = 0") (simp_all add: power_int_def field_simps)
  then show ?thesis by (rule round_to_id) simp
qed (simp add: round_to_def)

lemma float32_int: "\<bar>n\<bar> < 2 ^ 24 \<Longrightarrow> float32 (of_int n) = of_int n"
  unfolding float32_def by (rule round_to_int) simp_all

lemma float64_int: "\<bar>n\<bar> < 2 ^ 53 \<Longrightarrow> float64 (of_int n) = of_int n"
  unfolding float64_def by (rule round_to_int) simp_all

end
