(* ===== verification/RtcSend.thy ===== *)
theory RtcSend
  imports RtpH264 RtpCopy RtcNack Rtcp CFloat "HOL-Library.Signed_Division"
begin

text \<open>
  net/webrtc/rtc_send_stream.cpp and rtc_send_stream.hpp: the sender of one stream.  It
  cuts frames into packets, keeps the last packets for retransmission, sends sender reports
  and takes the receiver's reports and requests.  \<open>None\<close> is a read or write outside an array or a
  failed assertion, \<open>Inl\<close> an exception, which leaves the stream as it was.  The clock
  stands still during a call; what a new buffer holds is an argument.
\<close>

section \<open>The state\<close>

definition SEND_BUFFER_SIZE :: nat where "SEND_BUFFER_SIZE = 2048"
definition RTT_DEFAULT :: rat where "RTT_DEFAULT = 30"

datatype send_event = SendRtpPacket bytes | SendRtcpPacket bytes

record send_rtp_info =
  retry_count :: int
  last_ms :: int
  saved_pkt :: "rtp_packet option"

definition empty_info :: send_rtp_info where
  "empty_info = \<lparr> retry_count = 0, last_ms = 0, saved_pkt = None \<rparr>"

record rtc_send_stream =
  ss_media_type :: MEDIA_PKT_TYPE
  ss_nack_enable :: bool
  ss_has_rtx :: bool
  ss_ssrc :: u32
  ss_pt :: u8
  ss_seq :: u16
  ss_clock_rate :: int
  ss_channel :: int
  rtx_payload :: u8
  rtx_ssrc :: u32
  rtx_seq :: u16
  ss_sps :: bytes
  ss_pps :: bytes
  send_buffer :: "send_rtp_info list"
  last_sr_ntp_ts :: ntp_timestamp
  last_sr_rtp_ts :: u32
  sent_count :: u32
  sent_bytes :: u32
  last_sr_ts :: int
  ss_jitter :: u32
  lost_total :: u32
  lost_rate :: rat
  ss_rtt :: rat
  ss_avg_rtt :: rat
  resend_cnt :: int
  last_resend_cnt :: int
  last_resend_statics_ms :: int
  ss_statics :: stream_statics

text \<open>Both constructors: \<open>rtx\<close> is the type and source of the retransmissions.\<close>

definition new_RtcSendStream ::
  "MEDIA_PKT_TYPE \<Rightarrow> u32 \<Rightarrow> u8 \<Rightarrow> int \<Rightarrow> bool \<Rightarrow> (u8 \<times> u32) option \<Rightarrow> rtc_send_stream" where
  "new_RtcSendStream ty ssrc payload clock_rate nack rtx =
     \<lparr> ss_media_type = ty, ss_nack_enable = nack, ss_has_rtx = (rtx \<noteq> None), ss_ssrc = ssrc, ss_pt = payload, ss_seq = 0,
       ss_clock_rate = clock_rate, ss_channel = 0,
       rtx_payload = (case rtx of None \<Rightarrow> 0 | Some (pt, _) \<Rightarrow> pt), rtx_ssrc = (case rtx of None \<Rightarrow> 0 | Some (_, x) \<Rightarrow> x),
       rtx_seq = 0, ss_sps = [], ss_pps = [], send_buffer = replicate SEND_BUFFER_SIZE empty_info,
       last_sr_ntp_ts = \<lparr> ntp_sec = 0, ntp_frac = 0 \<rparr>, last_sr_rtp_ts = 0, sent_count = 0, sent_bytes = 0, last_sr_ts = 0,
       ss_jitter = 0, lost_total = 0, lost_rate = 0, ss_rtt = RTT_DEFAULT, ss_avg_rtt = RTT_DEFAULT, resend_cnt = 0,
       last_resend_cnt = 0, last_resend_statics_ms = 0, ss_statics = new_StreamStatics \<rparr>"

definition ss_SetSsrc :: "u32 \<Rightarrow> rtc_send_stream \<Rightarrow> rtc_send_stream" where "ss_SetSsrc ssrc s = s\<lparr>ss_ssrc := ssrc\<rparr>"
definition ss_SetPT :: "u8 \<Rightarrow> rtc_send_stream \<Rightarrow> rtc_send_stream" where "ss_SetPT pt s = s\<lparr>ss_pt := pt\<rparr>"
definition ss_SetClockRate :: "int \<Rightarrow> rtc_send_stream \<Rightarrow> rtc_send_stream" where "ss_SetClockRate r s = s\<lparr>ss_clock_rate := r\<rparr>"
definition ss_SetChannel :: "int \<Rightarrow> rtc_send_stream \<Rightarrow> rtc_send_stream" where "ss_SetChannel c s = s\<lparr>ss_channel := c\<rparr>"
definition ss_SetRtxPT :: "u8 \<Rightarrow> rtc_send_stream \<Rightarrow> rtc_send_stream" where "ss_SetRtxPT pt s = s\<lparr>rtx_payload := pt\<rparr>"
definition ss_SetRtxSsrc :: "u32 \<Rightarrow> rtc_send_stream \<Rightarrow> rtc_send_stream" where "ss_SetRtxSsrc ssrc s = s\<lparr>rtx_ssrc := ssrc\<rparr>"

section \<open>Sender reports\<close>

text \<open>\<open>now_ms / 1000 * clock_rate_\<close> drops the milliseconds before it multiplies.\<close>

definition GetRtcpSr :: "int \<Rightarrow> rtc_send_stream \<Rightarrow> rtcp_sr \<times> rtc_send_stream" where
  "GetRtcpSr now s =
     (let s = s\<lparr>last_sr_ntp_ts := millisec_to_ntp now, last_sr_rtp_ts := of_int (now sdiv 1000 * ss_clock_rate s)\<rparr> in
      (sr_SetBytesCount (sent_bytes s) (sr_SetPktCount (sent_count s) (sr_SetRtpTimestamp (last_sr_rtp_ts s)
        (sr_SetNtp (ntp_sec (last_sr_ntp_ts s)) (ntp_frac (last_sr_ntp_ts s)) (sr_SetSsrc (ss_ssrc s) new_RtcpSrPacket)))), s))"

definition send_report :: "int \<Rightarrow> rtc_send_stream \<Rightarrow> rtc_send_stream \<times> send_event list" where
  "send_report now s = (let (sr, s) = GetRtcpSr now (s\<lparr>last_sr_ts := now\<rparr>) in (s, [SendRtcpPacket (sr_GetData sr)]))"

definition ss_OnTimer :: "int \<Rightarrow> rtc_send_stream \<Rightarrow> rtc_send_stream \<times> send_event list" where
  "ss_OnTimer now s = (if now - last_sr_ts s > 500 then send_report now s else (s, []))"

section \<open>Sending a packet\<close>

text \<open>\<open>SaveBuffer\<close>: \<open>buf\<close> is the new buffer of the copy.\<close>

definition SaveBuffer :: "int \<Rightarrow> bytes \<Rightarrow> rtp_packet \<Rightarrow> rtc_send_stream \<Rightarrow> (rtp_error + rtc_send_stream) option" where
  "SaveBuffer now buf pkt s =
     (if \<not> ss_nack_enable s then Some (Inr s)
      else let index = unat (GetSeq pkt) mod SEND_BUFFER_SIZE in
        map_option (map_sum id (\<lambda>q. s\<lparr>send_buffer := (send_buffer s)[index := \<lparr> retry_count = 0, last_ms = 0, saved_pkt = Some q \<rparr>]\<rparr>))
          (Clone now buf True pkt))"

definition count_packet :: "int \<Rightarrow> rtp_packet \<Rightarrow> rtc_send_stream \<Rightarrow> rtc_send_stream \<times> send_event list" where
  "count_packet now pkt s =
     (let s = s\<lparr>sent_count := sent_count s + 1, sent_bytes := sent_bytes s + of_nat (rtp_data_len pkt)\<rparr> in
      if last_sr_ts s = 0 then send_report now s else (s, []))"

type_synonym 'a sending = "(rtp_error + 'a \<times> send_event list) option"

definition SendVideoRtpPacket :: "int \<Rightarrow> bytes \<Rightarrow> rtp_packet \<Rightarrow> bool \<Rightarrow> rtc_send_stream \<Rightarrow> rtc_send_stream sending" where
  "SendVideoRtpPacket now buf pkt resend s =
     (let (s, evs) = count_packet now pkt s in
      map_option (map_sum id (\<lambda>s. (s\<lparr>ss_statics := st_Update (rtp_data_len pkt) now (ss_statics s)\<rparr>, evs @ [SendRtpPacket (GetData pkt)])))
        (if resend then Some (Inr s) else SaveBuffer now buf pkt s))"

definition SendAudioRtpPacket :: "int \<Rightarrow> rtp_packet \<Rightarrow> rtc_send_stream \<Rightarrow> rtc_send_stream \<times> send_event list" where
  "SendAudioRtpPacket now pkt s =
     (let (s, evs) = count_packet now pkt s in
      (s\<lparr>ss_statics := st_Update (rtp_data_len pkt) now (ss_statics s)\<rparr>, evs @ [SendRtpPacket (GetData pkt)]))"

section \<open>Sending a frame\<close>

text \<open>The header's fields; the sequence number is the stream's, which then counts up.\<close>

definition stamp :: "u32 \<Rightarrow> rtp_packet \<Rightarrow> rtc_send_stream \<Rightarrow> rtp_packet \<times> rtc_send_stream" where
  "stamp ts pkt s = (SetTimestamp ts (SetSeq (ss_seq s) (SetSsrc (ss_ssrc s) (SetPayloadType (ss_pt s) pkt))),
     s\<lparr>ss_seq := ss_seq s + 1\<rparr>)"

text \<open>\<open>int64_t\<close> arithmetic: the division drops the fraction, the timestamp is the low 32 bits.\<close>

definition rtp_clock :: "int \<Rightarrow> rtc_send_stream \<Rightarrow> u32" where
  "rtp_clock t s = of_int (t * ss_clock_rate s sdiv 1000)"

definition SendAudioPacket :: "int \<Rightarrow> bytes \<Rightarrow> media_packet \<Rightarrow> rtc_send_stream \<Rightarrow> rtc_send_stream sending" where
  "SendAudioPacket now buf m s =
     (let len = length (pkt_data m) mod 256 in
      map_option (map_sum id (\<lambda>pkt. let (pkt, s) = stamp (rtp_clock (dts m) s) pkt s in SendAudioRtpPacket now (SetMarker 1 pkt) s))
        (GenerateSinglePackets now buf (take len (pkt_data m)) None))"

text \<open>
  A list of packets that are sent one after the other; \<open>marker\<close> is the marker bit, if it is to be set.
\<close>

fun send_video :: "int \<Rightarrow> (nat \<Rightarrow> bytes) \<Rightarrow> u32 \<Rightarrow> u8 option \<Rightarrow> rtp_packet list \<Rightarrow> rtc_send_stream \<Rightarrow> rtc_send_stream sending" where
  "send_video now bufs ts marker [] s = Some (Inr (s, []))"
| "send_video now bufs ts marker (p # ps) s =
     (let (p, s) = stamp ts p s;
          p = (case marker of None \<Rightarrow> p | Some b \<Rightarrow> SetMarker b p) in
      case SendVideoRtpPacket now (bufs 0) p False s of
        None \<Rightarrow> None
      | Some (Inl e) \<Rightarrow> Some (Inl e)
      | Some (Inr (s, evs)) \<Rightarrow>
          map_option (map_sum id (map_prod id ((@) evs))) (send_video now (\<lambda>k. bufs (k + 1)) ts marker ps s))"

definition send_built :: "int \<Rightarrow> (nat \<Rightarrow> bytes) \<Rightarrow> u32 \<Rightarrow> u8 option \<Rightarrow> (rtp_error + rtp_packet list) option \<Rightarrow> rtc_send_stream \<Rightarrow>
    rtc_send_stream sending" where
  "send_built now bufs ts marker built s = (case built of
     None \<Rightarrow> None | Some (Inl e) \<Rightarrow> Some (Inl e) | Some (Inr ps) \<Rightarrow> send_video now bufs ts marker ps s)"

text \<open>
  \<open>SendH264Packet\<close>.  \<open>prev\<close> is the byte in front of the frame in its buffer: of a frame without a start code the
  code takes it for the header.  \<open>new_bufs\<close> are the buffers of the packets and \<open>copies\<close> those
  of the saved packets; the first one of each is for the parameter sets.
\<close>

definition send_sets :: "int \<Rightarrow> bytes \<Rightarrow> (nat \<Rightarrow> bytes) \<Rightarrow> u32 \<Rightarrow> media_packet \<Rightarrow> rtc_send_stream \<Rightarrow> rtc_send_stream sending" where
  "send_sets now buf copies ts m s =
     (if is_key_frame m \<and> ss_sps s \<noteq> [] \<and> ss_pps s \<noteq> [] then
        send_built now copies ts (Some 0) (map_option (map_sum id (\<lambda>p. [p])) (GenerateStapAPackets now buf [ss_sps s, ss_pps s] None)) s
      else Some (Inr (s, [])))"

definition send_nalu :: "int \<Rightarrow> (nat \<Rightarrow> bytes) \<Rightarrow> (nat \<Rightarrow> bytes) \<Rightarrow> u32 \<Rightarrow> bytes \<Rightarrow> rtc_send_stream \<Rightarrow> rtc_send_stream sending" where
  "send_nalu now new_bufs copies ts nalu s =
     (if length nalu \<le> kPayloadMaxSize then
        send_built now copies ts (Some 1) (map_option (map_sum id (\<lambda>p. [p])) (GenerateSinglePackets now (new_bufs 0) nalu None)) s
      else send_built now copies ts None (GenerateFuAPackets now new_bufs nalu None) s)"

definition keep_sets :: "bytes \<Rightarrow> rtc_send_stream \<Rightarrow> rtc_send_stream option" where
  "keep_sets nalu s =
     (if length nalu \<ge> 512 then Some s
      else do {
        h \<leftarrow> rd nalu 0;
        let nalu_type = h AND 0x1f;
        let s = (if H264_IS_SPS nalu_type then s\<lparr>ss_sps := nalu\<rparr> else s);
        Some (if H264_IS_PPS nalu_type then s\<lparr>ss_pps := nalu\<rparr> else s) })"

definition SendH264Packet :: "int \<Rightarrow> (nat \<Rightarrow> bytes) \<Rightarrow> (nat \<Rightarrow> bytes) \<Rightarrow> u8 \<Rightarrow> media_packet \<Rightarrow> rtc_send_stream \<Rightarrow>
    rtc_send_stream sending" where
  "SendH264Packet now new_bufs copies prev m s = do {
     let ts = rtp_clock (dts m) s;
     pos \<leftarrow> GetNaluTypePos (pkt_data m);
     h \<leftarrow> rd (prev # pkt_data m) (nat (pos + 1));
     if H264_IS_SEI h then Some (Inr (s, []))
     else do {
       let nalu = drop (nat (pos + 1)) (prev # pkt_data m);
       if is_seq_hdr m then map_option (\<lambda>s. Inr (s, [])) (keep_sets nalu s)
       else (case send_sets now (new_bufs 0) copies ts m s of
           None \<Rightarrow> None
         | Some (Inl e) \<Rightarrow> Some (Inl e)
         | Some (Inr (s, evs)) \<Rightarrow> map_option (map_sum id (map_prod id ((@) evs)))
             (send_nalu now (\<lambda>k. new_bufs (k + 1)) (\<lambda>k. copies (k + 1)) ts nalu s)) } }"

definition SendPacket :: "int \<Rightarrow> (nat \<Rightarrow> bytes) \<Rightarrow> (nat \<Rightarrow> bytes) \<Rightarrow> u8 \<Rightarrow> media_packet \<Rightarrow> rtc_send_stream \<Rightarrow>
    rtc_send_stream sending" where
  "SendPacket now new_bufs copies prev m s =
     (if av_type m = MEDIA_VIDEO_TYPE then
        (if codec_type m = MEDIA_CODEC_H264 then SendH264Packet now new_bufs copies prev m s else Some (Inr (s, [])))
      else if av_type m = MEDIA_AUDIO_TYPE then SendAudioPacket now (new_bufs 0) m s
      else Some (Inr (s, [])))"

section \<open>Retransmission\<close>

text \<open>\<open>ResendRtpPacket\<close>: the entry of the send buffer, how long it must rest, and what goes out.\<close>

definition resend_interval :: "rtc_send_stream \<Rightarrow> rat" where
  "resend_interval s = (if ss_avg_rtt s > 10 then float32 (ss_avg_rtt s / 2) else ss_avg_rtt s)"

definition ResendRtpPacket :: "int \<Rightarrow> bytes \<Rightarrow> u16 \<Rightarrow> rtc_send_stream \<Rightarrow> rtc_send_stream sending" where
  "ResendRtpPacket now buf seq s =
     (let index = unat seq mod SEND_BUFFER_SIZE; info = send_buffer s ! index in
      case saved_pkt info of
        None \<Rightarrow> Some (Inr (s, []))
      | Some pkt \<Rightarrow>
          if GetSeq pkt \<noteq> seq then Some (Inr (s, []))
          else if last_ms info \<noteq> 0 \<and> float32 (of_int (now - last_ms info + 10)) < resend_interval s then Some (Inr (s, []))
          else let info = info\<lparr>retry_count := (if last_ms info = 0 then 1 else retry_count info + 1), last_ms := now\<rparr>;
                   s = s\<lparr>send_buffer := (send_buffer s)[index := info], resend_cnt := resend_cnt s + 1\<rparr> in
            if \<not> ss_has_rtx s then SendVideoRtpPacket now [] pkt True s
            else (case Clone now buf True pkt of
                None \<Rightarrow> None
              | Some (Inl e) \<Rightarrow> Some (Inl e)
              | Some (Inr q) \<Rightarrow> do {
                  q \<leftarrow> RtxMux (rtx_payload s) (rtx_ssrc s) (rtx_seq s) q;
                  SendVideoRtpPacket now [] q True (s\<lparr>rtx_seq := rtx_seq s + 1\<rparr>) }))"

fun resend_all :: "int \<Rightarrow> (nat \<Rightarrow> bytes) \<Rightarrow> u16 list \<Rightarrow> rtc_send_stream \<Rightarrow> rtc_send_stream sending" where
  "resend_all now bufs [] s = Some (Inr (s, []))"
| "resend_all now bufs (seq # seqs) s = (case ResendRtpPacket now (bufs 0) seq s of
     None \<Rightarrow> None
   | Some (Inl e) \<Rightarrow> Some (Inl e)
   | Some (Inr (s, evs)) \<Rightarrow> map_option (map_sum id (map_prod id ((@) evs))) (resend_all now (\<lambda>k. bufs (k + 1)) seqs s))"

definition HandleRtcpNack :: "int \<Rightarrow> (nat \<Rightarrow> bytes) \<Rightarrow> rtcp_fb_nack \<Rightarrow> rtc_send_stream \<Rightarrow> rtc_send_stream sending" where
  "HandleRtcpNack now bufs nack_pkt s =
     (if \<not> ss_nack_enable s then Some (Inr (s, [])) else resend_all now bufs (GetLostSeqs nack_pkt) s)"

section \<open>Receiver reports and statistics\<close>

text \<open>The middle 32 bits of an NTP time.\<close>

definition compact_ntp :: "ntp_timestamp \<Rightarrow> u32" where
  "compact_ntp t = push_bit 16 (ntp_sec t AND 0x0000ffff) OR drop_bit 16 (ntp_frac t AND 0xffff0000)"

text \<open>The round trip in units of 1/65536 s, and the milliseconds in \<open>float\<close>.\<close>

definition rr_rtt :: "u32 \<Rightarrow> u32 \<Rightarrow> u32 \<Rightarrow> u32" where
  "rr_rtt now lsr dlsr = (if lsr \<noteq> 0 \<and> dlsr \<noteq> 0 \<and> now > dlsr + lsr then now - dlsr - lsr else 0)"

definition rtt_float :: "u32 \<Rightarrow> rat" where
  "rtt_float rtt = float32 (float32 (of_nat (unat (drop_bit 16 rtt)) * 1000) + of_nat (unat (rtt AND 0xffff)) / 65536 * 1000)"

definition HandleRtcpRr :: "int \<Rightarrow> bytes \<Rightarrow> rtc_send_stream \<Rightarrow> rtc_send_stream option" where
  "HandleRtcpRr now block s = do {
     lost \<leftarrow> GetCumulativeLost block;
     let s = s\<lparr>lost_total := lost, lost_rate := float32 (of_nat (unat (GetFracLost block)) / 256), ss_jitter := GetJitter block\<rparr>;
     (if GetLsr block = 0 then Some (s\<lparr>ss_rtt := RTT_DEFAULT\<rparr>)
      else let rtt = rtt_float (rr_rtt (compact_ntp (millisec_to_ntp now)) (GetLsr block) (GetDlsr block)) in
        Some (s\<lparr>ss_rtt := rtt,
          ss_avg_rtt := float32 (float64 (ss_avg_rtt s + float32 (rtt - ss_avg_rtt s) / 4))\<rparr>)) }"

definition HandleXrRrt :: "bytes \<Rightarrow> rtc_send_stream \<Rightarrow> rtc_send_stream" where "HandleXrRrt rrt_block s = s"

definition ss_GetRtt :: "rtc_send_stream \<Rightarrow> u32" where "ss_GetRtt s = of_int (drop_fraction (ss_avg_rtt s))"

definition ss_GetStatics :: "int \<Rightarrow> rtc_send_stream \<Rightarrow> nat \<times> nat option \<times> rtc_send_stream" where
  "ss_GetStatics now s = (case BytesPerSecond now (ss_statics s) of
     (speed, pps, st) \<Rightarrow> (speed * 8 div 1000, pps, s\<lparr>ss_statics := st\<rparr>))"

text \<open>The count and the new value of \<open>resend_pps\<close>.\<close>

definition ss_GetResendCount :: "int \<Rightarrow> rtc_send_stream \<Rightarrow> (int \<times> int) \<times> rtc_send_stream" where
  "ss_GetResendCount now s =
     (if last_resend_statics_ms s \<le> 0 then
        ((resend_cnt s, 0), s\<lparr>last_resend_statics_ms := now, last_resend_cnt := resend_cnt s\<rparr>)
      else let diff_ms = now - last_resend_statics_ms s in
        ((resend_cnt s, if diff_ms > 0 then (resend_cnt s - last_resend_cnt s) * 1000 sdiv diff_ms else 0),
         s\<lparr>last_resend_statics_ms := now, last_resend_cnt := resend_cnt s\<rparr>))"

section \<open>The packets\<close>

text \<open>
  A packet as the sender builds it: no extension, no padding, the payload behind the 12 bytes of the
  header.
\<close>

definition plain :: "rtp_packet \<Rightarrow> bool" where
  "plain p \<longleftrightarrow> rtp_ext p = None \<and> onebyte_ext_map p = Map.empty \<and> twobytes_ext_map p = Map.empty \<and>
     rtp_payload p = 12 \<and> 0 < payload_len p \<and> rtp_data_len p = 12 + payload_len p \<and> pad_len p = 0 \<and>
     length (rtp_mem p) = 1500 \<and> rtp_data_len p < 1500 \<and> rtp_mem p ! 0 = 0x80"

lemma plain_parsed: "plain p \<Longrightarrow> parsed p"
  by (cases p) (auto simp: plain_def parsed_def Parse_def rtp_parse_payload_def ParseExt_def Let_def
      RTP_PACKET_MAX_SIZE_def RTP_HEADER_SIZE_def bit_simps)

lemma plain_setters [simp]:
  "plain (SetSeq q p) = plain p" "plain (SetSsrc x p) = plain p" "plain (SetTimestamp ts p) = plain p"
  "plain (SetPayloadType ty p) = plain p" "plain (SetMarker b p) = plain p"
  by (auto simp: plain_def rtp_setters nth_put_at lens put_at_def nth_append)

lemma MakeRtpPacket_plain:
  assumes "MakeRtpPacket now buf None n = Some (Inr (Some p))" "0 < n" "n < 1488"
  shows "plain p" "payload_len p = n"
proof -
  have l: "length buf = 1500" using assms(1) by (auto simp: MakeRtpPacket_def require_def RTP_PACKET_MAX_SIZE_def rtp_ext_bytes_def split: if_splits)
  define m where "m = put_at 0 (0x80 # replicate 11 0) buf"
  have m: "length m = 1500" "m ! 0 = 0x80" "m \<noteq> []" using l by (auto simp: m_def put_at_def)
  define q where "q = \<lparr> rtp_mem = m, rtp_ext = None, rtp_payload = 12, payload_len = n,
               pad_len = 0, rtp_data_len = 12 + n, local_ms = now, need_delete = True,
               mid_extension_id = 0, abs_time_extension_id = 0,
               onebyte_ext_map = Map.empty, twobytes_ext_map = Map.empty \<rparr>"
  have "MakeRtpPacket now buf None n = Some (Inr (Some q))"
    using assms(2,3) m l
    by (simp add: MakeRtpPacket_def rtp_ext_bytes_def RTP_PACKET_MAX_SIZE_def RTP_HEADER_SIZE_def m_def [symmetric]
        Parse_def rtp_parse_payload_def ParseExt_def Let_def q_def bit_simps)
  then have "p = q" using assms(1) by simp
  then show "plain p" "payload_len p = n" using m assms(2,3) by (simp_all add: plain_def q_def)
qed

lemma fill_plain:
  assumes "fill_packet (Some (Inr (Some p))) d = Some (Inr q)" "plain p" "payload_len p = length d"
  shows "plain q" "payload_of q = d"
  using assms by (auto simp: fill_packet_def plain_def require_def nth_put_at payload_of_def GetPayload_def drop_put_at split: if_splits)

lemma fill_made:
  assumes "fill_packet (MakeRtpPacket now buf None (length d)) d = Some (Inr q)" "0 < length d" "length d < 1488"
  shows "plain q" "payload_of q = d"
proof -
  obtain p where p: "MakeRtpPacket now buf None (length d) = Some (Inr (Some p))"
    using assms(1) by (auto simp: fill_packet_def split: option.splits sum.splits)
  note mk = MakeRtpPacket_plain [OF p assms(2,3)]
  from fill_plain [OF _ mk, of q] assms(1) p show "plain q" "payload_of q = d" by simp_all
qed

lemma fill_made_ok:
  assumes "length buf = 1500" "0 < length d" "length d < 1488"
  obtains q where "fill_packet (MakeRtpPacket now buf None (length d)) d = Some (Inr q)" "plain q" "payload_of q = d"
proof -
  obtain p where p: "MakeRtpPacket now buf None (length d) = Some (Inr (Some p))" "blank_packet now (length d) p"
    using MakeRtpPacket_ok [of buf "length d" now] assms by auto
  obtain q where "fill_packet (Some (Inr (Some p))) d = Some (Inr q)"
    using fill_blank [OF p(2)] assms by auto
  then have "fill_packet (MakeRtpPacket now buf None (length d)) d = Some (Inr q)" by (simp add: p(1))
  from that [OF this fill_made [OF this assms(2,3)]] show thesis .
qed

lemma map_sum_Inr: "map_sum id f z = Inr y \<longleftrightarrow> (\<exists>x. z = Inr x \<and> y = f x)"
  by (cases z) auto

lemma fua_loop_plain:
  assumes "fua_loop now bufs None h i sizes d = Some (Inr ps)" "\<forall>s\<in>set sizes. 0 < s \<and> s \<le> 1200" "sum_list sizes = length d" "p \<in> set ps"
  shows "plain p"
  using assms
proof (induction sizes arbitrary: i d ps)
  case (Cons s sizes)
  define pl where "pl = fu_payload h (i = 0) (sizes = []) (take s d)"
  have l: "length pl = 2 + s" using Cons.prems by (simp add: pl_def fu_payload_def)
  obtain q ps' where q: "fill_packet (MakeRtpPacket now (bufs i) None (length pl)) pl = Some (Inr q)"
    "fua_loop now bufs None h (i + 1) sizes (drop s d) = Some (Inr ps')" "ps = SetMarker (if sizes = [] then 1 else 0) q # ps'"
    using Cons.prems(1) l by (auto simp: pl_def map_sum_Inr split: option.splits sum.splits)
  have "plain q" using fill_made(1) [OF q(1)] l Cons.prems(2) by auto
  moreover have "p = SetMarker (if sizes = [] then 1 else 0) q \<or> p \<in> set ps'" using Cons.prems(4) q(3) by auto
  moreover have "plain p" if "p \<in> set ps'" using Cons.IH [OF q(2) _ _ that] Cons.prems(2,3) by simp
  ultimately show ?case by auto
qed simp

lemma GenerateFuAPackets_plain:
  assumes "GenerateFuAPackets now bufs nalu None = Some (Inr ps)" "length nalu < 2 ^ 31" "p \<in> set ps"
  shows "plain p"
proof -
  obtain h d where n: "nalu = h # d" using assms(1) by (cases nalu) (auto simp: GenerateFuAPackets_def rd_def)
  have "sint (of_int (int (length d)) :: 32 word) = int (length d)"
    using assms(2) n by (simp add: int_word_sint del: of_int_of_nat_eq)
  then have "SplitNalu (sint (of_int (int (length nalu) - 1) :: 32 word)) = Some (split_loop (length d))"
    by (simp add: SplitNalu_def n del: of_int_of_nat_eq)
  then have "fua_loop now bufs None h 0 (split_loop (length d)) d = Some (Inr ps)"
    using assms(1) by (simp add: GenerateFuAPackets_def n del: of_int_of_nat_eq)
  moreover have "\<forall>s\<in>set (split_loop (length d)). 0 < s \<and> s \<le> 1200" "sum_list (split_loop (length d)) = length d"
    using split_loop_sizes by auto
  ultimately show ?thesis using assms(3) by (rule fua_loop_plain)
qed

lemma plain_moved: "plain p \<Longrightarrow> length buf = 1500 \<Longrightarrow> plain (moved now buf own p)"
  by (simp add: plain_def moved_def put_at_def GetData_def nth_append)

lemma Clone_plain:
  assumes "plain p" "length buf = 1500"
  obtains q where "Clone now buf True p = Some (Inr q)" "plain q" "GetSeq q = GetSeq p" "GetTimestamp q = GetTimestamp p"
    "GetSsrc q = GetSsrc p" "payload_of q = payload_of p" "GetData q = GetData p"
proof -
  have l: "rtp_data_len p < 1500" "rtp_data_len p \<le> length buf" using assms by (auto simp: plain_def)
  note m = moved_same [OF parsed_ok [OF plain_parsed [OF assms(1)]] l(2), of now True]
  from that [OF Clone_parsed(1) [OF plain_parsed [OF assms(1)] l] plain_moved [OF assms]] m show thesis by blast
qed

section \<open>What has been sent\<close>

text \<open>
  The datagrams among the events, and what they have to be: \<open>seq\<close> is the first sequence number,
  each content is a payload with its timestamp.
\<close>

fun rtp_out :: "send_event list \<Rightarrow> bytes list" where
  "rtp_out [] = []"
| "rtp_out (SendRtpPacket b # evs) = b # rtp_out evs"
| "rtp_out (SendRtcpPacket b # evs) = rtp_out evs"

lemma rtp_out_append [simp]: "rtp_out (es @ es') = rtp_out es @ rtp_out es'"
  by (induction es rule: rtp_out.induct) simp_all

definition content_of :: "rtp_packet \<Rightarrow> bytes \<times> u32" where
  "content_of p = (payload_of p, GetTimestamp p)"

definition packet_is :: "u32 \<Rightarrow> u16 \<Rightarrow> bytes \<times> u32 \<Rightarrow> rtp_packet \<Rightarrow> bool" where
  "packet_is ssrc seq c p \<longleftrightarrow> plain p \<and> content_of p = c \<and> GetSeq p = seq \<and> GetSsrc p = ssrc"

definition datagram :: "u32 \<Rightarrow> u16 \<Rightarrow> bytes \<times> u32 \<Rightarrow> bytes \<Rightarrow> bool" where
  "datagram ssrc seq c b \<longleftrightarrow> (\<exists>p. packet_is ssrc seq c p \<and> b = GetData p)"

fun sent_as :: "u32 \<Rightarrow> u16 \<Rightarrow> (bytes \<times> u32) list \<Rightarrow> bytes list \<Rightarrow> bool" where
  "sent_as ssrc seq [] bs \<longleftrightarrow> bs = []"
| "sent_as ssrc seq (c # cs) [] \<longleftrightarrow> False"
| "sent_as ssrc seq (c # cs) (b # bs) \<longleftrightarrow> datagram ssrc seq c b \<and> sent_as ssrc (seq + 1) cs bs"

lemma sent_as_append:
  "sent_as ssrc seq cs bs \<Longrightarrow> sent_as ssrc (seq + of_nat (length cs)) cs' bs' \<Longrightarrow> sent_as ssrc seq (cs @ cs') (bs @ bs')"
  by (induction ssrc seq cs bs rule: sent_as.induct) (simp_all add: add_ac)

lemma sent_as_length: "sent_as ssrc seq cs bs \<Longrightarrow> length bs = length cs"
  by (induction ssrc seq cs bs rule: sent_as.induct) simp_all

lemma sent_as_nth: "sent_as ssrc seq cs bs \<Longrightarrow> k < length cs \<Longrightarrow> datagram ssrc (seq + of_nat k) (cs ! k) (bs ! k)"
proof (induction ssrc seq cs bs arbitrary: k rule: sent_as.induct)
  case (3 ssrc seq c cs b bs)
  then show ?case by (cases k) (simp_all add: add_ac)
qed simp_all

text \<open>What a stream is set to, which sending does not change.\<close>

definition config :: "rtc_send_stream \<Rightarrow> (bool \<times> bool \<times> u32 \<times> u8 \<times> int) \<times> (u8 \<times> u32) \<times> bytes \<times> bytes" where
  "config s = ((ss_nack_enable s, ss_has_rtx s, ss_ssrc s, ss_pt s, ss_clock_rate s), (rtx_payload s, rtx_ssrc s), ss_sps s, ss_pps s)"

text \<open>
  The send buffer after the packets with the contents \<open>cs\<close>: of the last 2048 each is at the place of its number
  and has not been sent again yet.
\<close>

definition buffer_holds :: "(bytes \<times> u32) list \<Rightarrow> rtc_send_stream \<Rightarrow> bool" where
  "buffer_holds cs s \<longleftrightarrow> length (send_buffer s) = 2048 \<and>
     (ss_nack_enable s \<longrightarrow> (\<forall>j. j < length cs \<and> j < 2048 \<longrightarrow>
       (\<exists>p. send_buffer s ! (unat (ss_seq s - 1 - of_nat j) mod 2048) = \<lparr> retry_count = 0, last_ms = 0, saved_pkt = Some p \<rparr> \<and>
         packet_is (ss_ssrc s) (ss_seq s - 1 - of_nat j) (rev cs ! j) p)))"

lemma count_packet_same:
  assumes "count_packet now p s = (s', evs)"
  shows "config s' = config s" "ss_seq s' = ss_seq s" "send_buffer s' = send_buffer s" "rtp_out evs = []"
  using assms by (auto simp: count_packet_def send_report_def GetRtcpSr_def Let_def config_def split: if_splits)

lemma slot_differs:
  fixes x :: u16
  assumes "0 < d" "d < 2048"
  shows "unat (x - of_nat d) mod 2048 \<noteq> unat x mod 2048"
proof
  assume e: "unat (x - of_nat d) mod 2048 = unat x mod 2048"
  have "uint (x - of_nat d) = (uint x - int d) mod 65536" by (simp add: uint_word_ariths unsigned_of_nat take_bit_eq_mod zmod_int mod_simps)
  then have "uint (x - of_nat d) mod 2048 = (uint x - int d) mod 2048" by (simp add: mod_mod_cancel)
  moreover have "uint (x - of_nat d) mod 2048 = uint x mod 2048" using arg_cong [OF e, of int] by (simp add: zmod_int)
  ultimately have "2048 dvd int d" by (metis mod_eq_dvd_iff diff_diff_eq2 add_diff_cancel_left' dvd_minus_iff minus_diff_eq diff_add_cancel)
  then show False using assms zdvd_imp_le by force
qed

lemma SendVideo_ok:
  assumes p: "packet_is (ss_ssrc s) (ss_seq s - 1) c p" and buf: "length buf = 1500"
    and h: "buffer_holds cs (s\<lparr>ss_seq := ss_seq s - 1\<rparr>)"
  obtains s' evs where "SendVideoRtpPacket now buf p False s = Some (Inr (s', evs))" "config s' = config s"
    "ss_seq s' = ss_seq s" "rtp_out evs = [GetData p]" "buffer_holds (cs @ [c]) s'"
proof -
  obtain s1 e1 where c: "count_packet now p s = (s1, e1)" by (cases "count_packet now p s")
  note same = count_packet_same [OF c]
  obtain q where q: "Clone now buf True p = Some (Inr q)" "plain q" "GetSeq q = GetSeq p" "GetTimestamp q = GetTimestamp p"
    "GetSsrc q = GetSsrc p" "payload_of q = payload_of p"
    using Clone_plain [OF _ buf, of p now] p by (auto simp: packet_is_def)
  let ?x = "ss_seq s - 1"
  let ?info = "\<lparr> retry_count = 0, last_ms = 0, saved_pkt = Some q \<rparr>"
  let ?b = "if ss_nack_enable s then (send_buffer s)[unat ?x mod 2048 := ?info] else send_buffer s"
  let ?s = "s1\<lparr>send_buffer := ?b, ss_statics := st_Update (rtp_data_len p) now (ss_statics s1)\<rparr>"
  have seq: "GetSeq p = ?x" using p by (simp add: packet_is_def)
  have nack: "ss_nack_enable s1 = ss_nack_enable s" "ss_ssrc s1 = ss_ssrc s" using same(1) by (simp_all add: config_def)
  have r: "SendVideoRtpPacket now buf p False s = Some (Inr (?s, e1 @ [SendRtpPacket (GetData p)]))"
    using q(1) nack by (simp add: SendVideoRtpPacket_def c SaveBuffer_def seq SEND_BUFFER_SIZE_def Let_def same(3))
  have len: "length (send_buffer s) = 2048" using h by (simp add: buffer_holds_def)
  have "buffer_holds (cs @ [c]) ?s"
  proof -
    have "\<exists>p. ?b ! (unat (ss_seq s - 1 - of_nat j) mod 2048) = \<lparr> retry_count = 0, last_ms = 0, saved_pkt = Some p \<rparr> \<and>
         packet_is (ss_ssrc s) (ss_seq s - 1 - of_nat j) (rev (cs @ [c]) ! j) p"
      if j: "j < Suc (length cs)" "j < 2048" and n: "ss_nack_enable s" for j
    proof (cases j)
      case 0
      then show ?thesis using p q len n by (simp add: packet_is_def content_of_def)
    next
      case (Suc k)
      then obtain p' where "send_buffer s ! (unat (ss_seq s - 1 - 1 - of_nat k) mod 2048) = \<lparr> retry_count = 0, last_ms = 0, saved_pkt = Some p' \<rparr>"
        "packet_is (ss_ssrc s) (ss_seq s - 1 - 1 - of_nat k) (rev cs ! k) p'"
        using h j n by (auto simp: buffer_holds_def)
      moreover have "ss_seq s - 1 - 1 - of_nat k = ?x - of_nat j" by (simp add: Suc)
      moreover have "unat (?x - of_nat j) mod 2048 \<noteq> unat ?x mod 2048" using slot_differs [of j ?x] j(2) Suc by simp
      moreover have "rev (cs @ [c]) ! j = rev cs ! k" by (simp add: Suc)
      ultimately show ?thesis using len n by (intro exI [of _ p']) (simp only: nth_list_update_neq simp_thms if_True)
    qed
    then show ?thesis using len same(2) nack by (simp add: buffer_holds_def)
  qed
  moreover have "config ?s = config s" using same(1) by (simp add: config_def)
  ultimately show thesis using that [OF r] same by simp
qed

lemma stamped_is:
  assumes "plain p"
  shows "packet_is ssrc seq (payload_of p, ts) (SetTimestamp ts (SetSeq seq (SetSsrc ssrc (SetPayloadType pt p))))"
proof -
  have l: "length (rtp_mem p) = 1500" "rtp_payload p = 12" using assms by (simp_all add: plain_def)
  have "payload_of (SetTimestamp ts (SetSeq seq (SetSsrc ssrc (SetPayloadType pt p)))) = payload_of p"
    using l by (simp add: payload_of_def GetPayload_def rtp_setters lens drop_put_at_later)
  moreover have "GetTimestamp (SetTimestamp ts (SetSeq seq (SetSsrc ssrc (SetPayloadType pt p)))) = ts"
    "GetSeq (SetTimestamp ts (SetSeq seq (SetSsrc ssrc (SetPayloadType pt p)))) = seq"
    "GetSsrc (SetTimestamp ts (SetSeq seq (SetSsrc ssrc (SetPayloadType pt p)))) = ssrc"
    using l by (simp_all add: rtp_setters rtp_getters net_put_other net16_Write net32_Write lens)
  ultimately show ?thesis using assms by (simp add: packet_is_def content_of_def)
qed

lemma marked_is: "packet_is ssrc seq c p \<Longrightarrow> packet_is ssrc seq c (SetMarker b p)"
proof -
  assume a: "packet_is ssrc seq c p"
  then have l: "length (rtp_mem p) = 1500" "rtp_payload p = 12" by (simp_all add: packet_is_def plain_def)
  then have "payload_of (SetMarker b p) = payload_of p" "GetTimestamp (SetMarker b p) = GetTimestamp p" "GetSeq (SetMarker b p) = GetSeq p"
    "GetSsrc (SetMarker b p) = GetSsrc p"
    by (simp_all add: payload_of_def GetPayload_def SetMarker_def rtp_getters net_put_other drop_put_at_later)
  then show ?thesis using a by (simp add: packet_is_def content_of_def)
qed

lemma send_video_ok:
  assumes "\<forall>p\<in>set ps. plain p" "\<forall>k. length (bufs k) = 1500" "buffer_holds cs s"
  shows "\<exists>s' evs. send_video now bufs ts marker ps s = Some (Inr (s', evs)) \<and> config s' = config s \<and>
    ss_seq s' = ss_seq s + of_nat (length ps) \<and> sent_as (ss_ssrc s) (ss_seq s) (map (\<lambda>p. (payload_of p, ts)) ps) (rtp_out evs) \<and>
    buffer_holds (cs @ map (\<lambda>p. (payload_of p, ts)) ps) s'"
  using assms
proof (induction ps arbitrary: s bufs cs)
  case (Cons p ps)
  let ?p = "SetTimestamp ts (SetSeq (ss_seq s) (SetSsrc (ss_ssrc s) (SetPayloadType (ss_pt s) p)))"
  define q where "q = (case marker of None \<Rightarrow> ?p | Some b \<Rightarrow> SetMarker b ?p)"
  let ?s = "s\<lparr>ss_seq := ss_seq s + 1\<rparr>"
  have q: "packet_is (ss_ssrc ?s) (ss_seq ?s - 1) (payload_of p, ts) q"
    using stamped_is [of p] Cons.prems(1) marked_is by (simp add: q_def split: option.splits)
  have h: "buffer_holds cs (?s\<lparr>ss_seq := ss_seq ?s - 1\<rparr>)" using Cons.prems(3) by simp
  obtain s1 e1 where s1: "SendVideoRtpPacket now (bufs 0) q False ?s = Some (Inr (s1, e1))" "config s1 = config ?s"
    "ss_seq s1 = ss_seq ?s" "rtp_out e1 = [GetData q]" "buffer_holds (cs @ [(payload_of p, ts)]) s1"
    using SendVideo_ok [OF q _ h, of "bufs 0" now] Cons.prems(2) by blast
  have bufs: "\<forall>k. length (bufs (k + 1)) = 1500" using Cons.prems(2) by blast
  obtain s2 e2 where s2: "send_video now (\<lambda>k. bufs (k + 1)) ts marker ps s1 = Some (Inr (s2, e2))" "config s2 = config s1"
    "ss_seq s2 = ss_seq s1 + of_nat (length ps)" "sent_as (ss_ssrc s1) (ss_seq s1) (map (\<lambda>p. (payload_of p, ts)) ps) (rtp_out e2)"
    "buffer_holds ((cs @ [(payload_of p, ts)]) @ map (\<lambda>p. (payload_of p, ts)) ps) s2"
    using Cons.IH [OF _ bufs s1(5)] Cons.prems(1) by auto
  have c: "config s2 = config s" "ss_ssrc s1 = ss_ssrc s" using s1(2) s2(2) by (simp_all add: config_def)
  have "send_video now bufs ts marker (p # ps) s = Some (Inr (s2, e1 @ e2))"
    using s1(1) s2(1) by (simp add: stamp_def q_def [symmetric])
  moreover have "datagram (ss_ssrc s) (ss_seq s) (payload_of p, ts) (GetData q)" using q by (auto simp: datagram_def)
  ultimately show ?case using c s1(3,4) s2(3-5) by (simp add: add_ac)
qed simp

end
