(* ===== verification/RtcRecv.thy ===== *)
theory RtcRecv
  imports RtcSend
begin

text \<open>
  net/webrtc/rtc_recv_stream.cpp and rtc_recv_stream.hpp: the receiver of one stream.  It follows
  the sequence numbers, undoes retransmissions, asks for missing packets and for key frames,
  and reports losses, the jitter and the times for the round trip.
\<close>

section \<open>The state\<close>

definition REQ_KEYFRAME_INTERVAL :: int where "REQ_KEYFRAME_INTERVAL = 5 * 1000"

datatype recv_error = RTP_ERROR rtp_error | CLOCK_RATE_INVALID

record rtc_recv_stream =
  rs_media_type :: MEDIA_PKT_TYPE
  rs_nack_enable :: bool
  rs_has_rtx :: bool
  rs_ssrc :: u32
  rs_pt :: u8
  rs_clock_rate :: int
  rs_channel :: int
  rs_rtx_payload :: u8
  rs_rtx_ssrc :: u32
  rs_first_pkt :: bool
  rs_base_seq :: u16
  rs_max_seq :: u16
  rs_bad_seq :: u32
  rs_cycles :: u32
  discard_count :: int
  expect_recv :: int
  last_recv :: int
  rs_rtp_timestamp :: int
  last_sr_ms :: int
  pkt_count :: int
  bytes_count :: int
  rs_lsr :: u32
  frac_lost :: u8
  lost_percent :: rat
  total_lost :: int
  last_keyframe_ms :: int
  rs_avg_rtt :: int
  resend_count :: int
  last_resend_count :: int
  last_resend_ms :: int
  last_diff_ms :: int
  rs_jitter :: int
  nack_gen :: nack_generator
  rs_statics :: stream_statics

definition new_RtcRecvStream ::
  "MEDIA_PKT_TYPE \<Rightarrow> u32 \<Rightarrow> u8 \<Rightarrow> int \<Rightarrow> bool \<Rightarrow> (u8 \<times> u32) option \<Rightarrow> rtc_recv_stream" where
  "new_RtcRecvStream ty ssrc payload clock_rate nack rtx =
     \<lparr> rs_media_type = ty, rs_nack_enable = nack, rs_has_rtx = (rtx \<noteq> None), rs_ssrc = ssrc, rs_pt = payload,
       rs_clock_rate = clock_rate, rs_channel = 0,
       rs_rtx_payload = (case rtx of None \<Rightarrow> 0 | Some (pt, _) \<Rightarrow> pt), rs_rtx_ssrc = (case rtx of None \<Rightarrow> 0 | Some (_, x) \<Rightarrow> x),
       rs_first_pkt = False, rs_base_seq = 0, rs_max_seq = 0, rs_bad_seq = of_nat (RTP_SEQ_MOD + 1), rs_cycles = 0,
       discard_count = 0, expect_recv = 0, last_recv = 0, rs_rtp_timestamp = 0, last_sr_ms = 0, pkt_count = 0,
       bytes_count = 0, rs_lsr = 0, frac_lost = 0, lost_percent = 0, total_lost = 0, last_keyframe_ms = -1,
       rs_avg_rtt = 10, resend_count = 0, last_resend_count = 0, last_resend_ms = -1, last_diff_ms = 0, rs_jitter = 0,
       nack_gen = new_NackGenerator, rs_statics = new_StreamStatics \<rparr>"

definition rs_SetSsrc :: "u32 \<Rightarrow> rtc_recv_stream \<Rightarrow> rtc_recv_stream" where "rs_SetSsrc ssrc s = s\<lparr>rs_ssrc := ssrc\<rparr>"
definition rs_SetPT :: "u8 \<Rightarrow> rtc_recv_stream \<Rightarrow> rtc_recv_stream" where "rs_SetPT pt s = s\<lparr>rs_pt := pt\<rparr>"
definition rs_SetClockRate :: "int \<Rightarrow> rtc_recv_stream \<Rightarrow> rtc_recv_stream" where "rs_SetClockRate r s = s\<lparr>rs_clock_rate := r\<rparr>"
definition rs_SetChannel :: "int \<Rightarrow> rtc_recv_stream \<Rightarrow> rtc_recv_stream" where "rs_SetChannel c s = s\<lparr>rs_channel := c\<rparr>"
definition rs_SetRtxPT :: "u8 \<Rightarrow> rtc_recv_stream \<Rightarrow> rtc_recv_stream" where "rs_SetRtxPT pt s = s\<lparr>rs_rtx_payload := pt\<rparr>"
definition rs_SetRtxSsrc :: "u32 \<Rightarrow> rtc_recv_stream \<Rightarrow> rtc_recv_stream" where "rs_SetRtxSsrc ssrc s = s\<lparr>rs_rtx_ssrc := ssrc\<rparr>"

section \<open>Packets that come in\<close>

definition rs_InitSeq :: "u16 \<Rightarrow> rtc_recv_stream \<Rightarrow> rtc_recv_stream" where
  "rs_InitSeq seq s = s\<lparr>rs_base_seq := seq, rs_max_seq := seq, rs_bad_seq := of_nat (RTP_SEQ_MOD + 1), rs_cycles := 0\<rparr>"

definition rs_UpdateSeq :: "u16 \<Rightarrow> rtc_recv_stream \<Rightarrow> rtc_recv_stream" where
  "rs_UpdateSeq seq s =
     (let udelta = unat (seq - rs_max_seq s) in
      if udelta < 3000 then
        s\<lparr>rs_cycles := (if seq < rs_max_seq s then rs_cycles s + of_nat RTP_SEQ_MOD else rs_cycles s), rs_max_seq := seq\<rparr>
      else if udelta \<le> RTP_SEQ_MOD - 100 then
        (if unat seq = unat (rs_bad_seq s) then rs_InitSeq seq s
         else s\<lparr>rs_bad_seq := of_nat ((unat seq + 1) mod RTP_SEQ_MOD), discard_count := discard_count s + 1\<rparr>)
      else s)"

text \<open>
  The timestamp is multiplied and divided as a \<open>uint32_t\<close>.  The first difference is kept for ever
  (as long as it is not 0), so the jitter is the distance from it.
\<close>

definition GenerateJitter :: "u32 \<Rightarrow> int \<Rightarrow> rtc_recv_stream \<Rightarrow> rtc_recv_stream option" where
  "GenerateJitter rtp_timestamp recv_pkt_ms s =
     (if rs_clock_rate s \<le> 0 then None
      else let rtp_ms = int (unat (rtp_timestamp * 1000 div of_int (rs_clock_rate s))); diff_t = recv_pkt_ms - rtp_ms in
        if last_diff_ms s = 0 then Some (s\<lparr>last_diff_ms := diff_t\<rparr>)
        else let d = \<bar>diff_t - last_diff_ms s\<bar> in
          Some (s\<lparr>rs_jitter := drop_fraction (float64 (float64 (of_int (rs_jitter s)) + float64 (of_int (d - rs_jitter s)) / 8))\<rparr>))"

text \<open>The packet may be a retransmission, which is undone in place.\<close>

definition HandleRtpPacket :: "rtp_packet \<Rightarrow> rtc_recv_stream \<Rightarrow> recv_error + rtp_packet \<times> rtc_recv_stream" where
  "HandleRtpPacket pkt s =
     (let r = (if GetSsrc pkt = rs_rtx_ssrc s then map_sum RTP_ERROR (\<lambda>p. (p, s)) (RtxDemux (rs_ssrc s) (rs_pt s) pkt)
               else case GenerateJitter (GetTimestamp pkt) (local_ms pkt) s of
                 None \<Rightarrow> Inl CLOCK_RATE_INVALID | Some s \<Rightarrow> Inr (pkt, s)) in
      map_sum id (\<lambda>(pkt, s).
        let seq = GetSeq pkt;
            s = (if \<not> rs_first_pkt s then rs_InitSeq seq (s\<lparr>rs_first_pkt := True\<rparr>) else rs_UpdateSeq seq s);
            s = (if rs_nack_enable s then s\<lparr>nack_gen := UpdateNackList seq (nack_gen s)\<rparr> else s)
        in (pkt, s\<lparr>rs_statics := st_Update (rtp_data_len pkt) (local_ms pkt) (rs_statics s)\<rparr>)) r)"

section \<open>Losses\<close>

text \<open>
  The sum is one of \<open>uint32_t\<close>, and it subtracts \<open>bad_seq_\<close>, which is 65537 as long as no number was out of range.
\<close>

definition GetExpectedPackets :: "rtc_recv_stream \<Rightarrow> int" where
  "GetExpectedPackets s = int (unat (rs_cycles s + ucast (rs_max_seq s) - rs_bad_seq s + 1))"

definition c_round :: "rat \<Rightarrow> int" where
  "c_round x = (if x < 0 then - \<lfloor>- x + 1 / 2\<rfloor> else \<lfloor>x + 1 / 2\<rfloor>)"

text \<open>\<open>None\<close> is a fraction outside a \<open>uint8_t\<close>, whose conversion is undefined.\<close>

definition GetPacketLost :: "rtc_recv_stream \<Rightarrow> (int \<times> rtc_recv_stream) option" where
  "GetPacketLost s =
     (let expected = GetExpectedPackets s; recv_count = int (st_count (rs_statics s));
          expected_interval = expected - expect_recv s; recv_interval = recv_count - last_recv s in
      if last_recv s \<le> 0 then Some (0, s\<lparr>expect_recv := expected, last_recv := recv_count\<rparr>)
      else let s = s\<lparr>expect_recv := expected, last_recv := recv_count\<rparr> in
        if expected_interval \<le> 0 \<or> recv_interval \<le> 0 then Some (total_lost s, s\<lparr>frac_lost := 0\<rparr>)
        else let lost = expected_interval - recv_interval;
                 f = c_round (float64 (float64 (of_int (lost * 256)) / float64 (of_int expected_interval))) in do {
          require (0 \<le> f \<and> f < 256);
          let s = s\<lparr>total_lost := total_lost s + lost, frac_lost := of_int f, lost_percent := float64 (of_int (lost sdiv expected_interval))\<rparr>;
          Some (total_lost s, s) })"

text \<open>The report block, in \<open>mem\<close>: the delay since the last report is in units of 1/65536 s.\<close>

definition delay_units :: "u32 \<Rightarrow> u32" where
  "delay_units diff_t = push_bit 16 (diff_t div 1000) OR diff_t mod 1000 * 65536 div 1000"

definition GetRtcpRr :: "bytes \<Rightarrow> int \<Rightarrow> rtc_recv_stream \<Rightarrow> (bytes \<times> rtc_recv_stream) option" where
  "GetRtcpRr mem now s = do {
     let highest_seq = ucast (rs_max_seq s) + rs_cycles s;
     let dlsr = (if last_sr_ms s > 0 then delay_units (of_int (now - last_sr_ms s)) else 0);
     (lost, s) \<leftarrow> GetPacketLost s;
     Some (SetDlsr dlsr (SetLsr (rs_lsr s) (SetJitter (of_int (rs_jitter s)) (SetHighestSeq highest_seq
       (SetCumulativeLost (of_int lost) (SetFracLost (frac_lost s) (SetReporteeSsrc (rs_ssrc s) mem)))))), s) }"

section \<open>Reports that come in\<close>

definition rs_HandleRtcpSr :: "int \<Rightarrow> rtcp_sr \<Rightarrow> rtc_recv_stream \<Rightarrow> rtc_recv_stream" where
  "rs_HandleRtcpSr now sr_pkt s = s\<lparr>rs_rtp_timestamp := int (unat (GetRtpTimestamp sr_pkt)), pkt_count := int (unat (GetPktCount sr_pkt)),
     bytes_count := int (unat (GetBytesCount sr_pkt)), last_sr_ms := now,
     rs_lsr := push_bit 16 (GetNtpSec sr_pkt AND 0xffff) OR (drop_bit 16 (GetNtpFrac sr_pkt) AND 0xffff)\<rparr>"

text \<open>A block of a DLRR report; the fields are read in network order.\<close>

definition HandleXrDlrr :: "int \<Rightarrow> bytes \<Rightarrow> rtc_recv_stream \<Rightarrow> rtc_recv_stream" where
  "HandleXrDlrr now dlrr_block s =
     (let lrr = net32 dlrr_block 4; dlrr = net32 dlrr_block 8; compound_now = compact_ntp (millisec_to_ntp now) in
      if compound_now < dlrr + lrr then s
      else s\<lparr>rs_avg_rtt := rs_avg_rtt s + (drop_fraction (rtt_float (compound_now - dlrr - lrr)) - rs_avg_rtt s) sdiv 5\<rparr>)"

section \<open>Requests\<close>

text \<open>The list of the missing numbers, from the timer of the generator; \<open>mem\<close> is the new packet's memory.\<close>

definition GenerateNackList :: "bytes \<Rightarrow> u16 list \<Rightarrow> rtc_recv_stream \<Rightarrow> (rtc_recv_stream \<times> send_event list) option" where
  "GenerateNackList mem seq_vec s = do {
     k \<leftarrow> InsertSeqList seq_vec (new_RtcpFbNack mem 0 (rs_ssrc s));
     Some (s\<lparr>resend_count := resend_count s + int (length seq_vec)\<rparr>, [SendRtcpPacket (take (fb_data_len k) (fb_data k))]) }"

definition nack_timer :: "bytes \<Rightarrow> int \<Rightarrow> rtc_recv_stream \<Rightarrow> (rtc_recv_stream \<times> send_event list) option" where
  "nack_timer mem now s = (let (g, req) = ng_OnTimer now (nack_gen s); s = s\<lparr>nack_gen := g\<rparr> in
     case req of None \<Rightarrow> Some (s, []) | Some seqs \<Rightarrow> GenerateNackList mem seqs s)"

definition SendXrRrt :: "int \<Rightarrow> rtc_recv_stream \<Rightarrow> send_event list" where
  "SendXrRrt now s = (let ntp = millisec_to_ntp now in
     [SendRtcpPacket (rrt_GetData (rrt_SetNtp (ntp_sec ntp) (ntp_frac ntp) (rrt_SetSsrc (rs_ssrc s) new_XrRrt)))])"

text \<open>\<open>clk\<close> is the clock, which is read if the caller has no time.\<close>

definition RequestKeyFrame :: "int \<Rightarrow> int \<Rightarrow> rtc_recv_stream \<Rightarrow> rtc_recv_stream \<times> send_event list" where
  "RequestKeyFrame clk now_ms s =
     (if rs_media_type s \<noteq> MEDIA_VIDEO_TYPE then (s, [])
      else if now_ms > 0 \<and> last_keyframe_ms s > 0 \<and> now_ms - last_keyframe_ms s < REQ_KEYFRAME_INTERVAL then (s, [])
      else (s\<lparr>last_keyframe_ms := (if now_ms > 0 then now_ms else clk)\<rparr>,
        [SendRtcpPacket (pli_GetData (pli_SetMediaSsrc (rs_ssrc s) (pli_SetSenderSsrc 1 new_RtcpPsPli)))]))"

definition rs_OnTimer :: "int \<Rightarrow> int \<Rightarrow> rtc_recv_stream \<Rightarrow> rtc_recv_stream \<times> send_event list" where
  "rs_OnTimer clk now_ms s = (let (s', evs) = RequestKeyFrame clk now_ms s in (s', SendXrRrt now_ms s @ evs))"

section \<open>Statistics\<close>

definition rs_GetStatics :: "int \<Rightarrow> rtc_recv_stream \<Rightarrow> nat \<times> nat option \<times> rtc_recv_stream" where
  "rs_GetStatics now s = (case BytesPerSecond now (rs_statics s) of
     (speed, pps, st) \<Rightarrow> (speed * 8 div 1000, pps, s\<lparr>rs_statics := st\<rparr>))"

text \<open>The count, the new value of \<open>resend_pps\<close> where the function sets it, and the state.\<close>

definition rs_GetResendCount :: "int \<Rightarrow> rtc_recv_stream \<Rightarrow> int \<times> int option \<times> rtc_recv_stream" where
  "rs_GetResendCount now s =
     (if last_resend_ms s \<le> 0 then (resend_count s, None, s\<lparr>last_resend_ms := now, last_resend_count := resend_count s\<rparr>)
      else let diff_t = now - last_resend_ms s in
        if diff_t \<le> 0 then (resend_count s, None, s)
        else (resend_count s, Some ((resend_count s - last_resend_count s) * 1000 sdiv diff_t),
          s\<lparr>last_resend_ms := now, last_resend_count := resend_count s\<rparr>))"

end
