(* ===== verification/RtcTiming.thy ===== *)
theory RtcTiming
  imports RtcRecv
begin

text \<open>
  The round trip that a sender computes from its own reports and the receiver's: the
  composition of \<open>GetRtcpSr\<close>, \<open>HandleRtcpSr\<close>, \<open>GetRtcpRr\<close> and \<open>HandleRtcpRr\<close>.
\<close>

section \<open>Times in units of 1/65536 s\<close>

definition units :: "int \<Rightarrow> int" where "units ms = ms * 65536 div 1000"

lemma units_split: "units ms = ms div 1000 * 65536 + ms mod 1000 * 65536 div 1000"
proof -
  obtain q r where "ms = 1000 * q + r" "0 \<le> r" "r < 1000"
    by (metis mult_div_mod_eq pos_mod_bound pos_mod_sign zero_less_numeral)
  then show ?thesis by (simp add: units_def algebra_simps)
qed

lemma units_bounds: "units ms * 1000 \<le> ms * 65536" "ms * 65536 < units ms * 1000 + 1000"
  unfolding units_def by simp_all

lemma half_words:
  fixes hi lo :: u32
  assumes "unat lo < 65536"
  shows "int (unat (push_bit 16 hi OR lo)) = int (unat hi) mod 65536 * 65536 + int (unat lo)"
proof -
  have "unat (take_bit 16 lo) = unat lo" unfolding unsigned_take_bit_eq using assms by (simp add: take_bit_eq_mod)
  from unsigned_word_eqI [OF this] have lo: "lo = take_bit 16 lo" by (rule sym)
  have "\<not> bit (push_bit 16 hi) n \<or> \<not> bit lo n" for n
    by (subst lo) (auto simp: bit_simps)
  from disjunctive_add [OF this] have o: "push_bit 16 hi OR lo = push_bit 16 hi + lo" by simp
  have "uint (push_bit 16 hi) = take_bit 32 (push_bit 16 (uint hi))" by (simp add: unsigned_push_bit_eq)
  also have "\<dots> = uint hi * 65536 mod (65536 * 65536)" by (simp add: push_bit_eq_mult take_bit_eq_mod)
  also have "\<dots> = uint hi mod 65536 * 65536" by (rule mult_mod_left [symmetric])
  finally have p: "uint (push_bit 16 hi) = uint hi mod 65536 * 65536" .
  have "uint lo = int (unat lo)" by simp
  then have "uint lo < 65536" using assms by linarith
  moreover have "uint hi mod 65536 < 65536" "0 \<le> uint hi mod 65536" by simp_all
  ultimately have "uint hi mod 65536 * 65536 + uint lo < 4294967296" by linarith
  then have "uint (push_bit 16 hi + lo) = uint hi mod 65536 * 65536 + uint lo"
    unfolding uint_word_ariths p by (intro mod_pos_pos_trivial) simp_all
  then show ?thesis unfolding o by simp
qed

lemma unat_drop16: "unat (drop_bit 16 x) = unat x div 65536" for x :: u32
  by (simp only: unat_drop_bit_eq) (simp only: drop_bit_eq_div power_numeral, simp)

lemma unat_drop_half: "unat (drop_bit 16 x) < 65536" "drop_bit 16 (x AND 0xffff0000) = drop_bit 16 x"
  "drop_bit 16 x AND 0xffff = drop_bit 16 x" "unat (x AND 0xffff) = unat x mod 65536" for x :: u32
proof -
  have m: "(0xffff :: u32) = mask 16" "(0xffff0000 :: u32) = NOT (mask 16)" by (simp_all add: mask_eq_exp_minus_1)
  show "unat (drop_bit 16 x) < 65536" 
  proof -
    have "unat x < 65536 * 65536" using unat_u32_less [of x] by (simp del: unat_u32_less)
    then have "unat x div 65536 < 65536" by (rule less_mult_imp_div_less)
    then show ?thesis unfolding unat_drop16 .
  qed
  have t: "n < 16" if "bit x (16 + n)" for n using bit_imp_le_length [OF that] by simp
  show "drop_bit 16 (x AND 0xffff0000) = drop_bit 16 x" unfolding m(2) by (rule bit_word_eqI) (auto simp: bit_simps dest: t)
  show "drop_bit 16 x AND 0xffff = drop_bit 16 x" unfolding m(1)
  proof (rule bit_word_eqI)
    fix n
    show "bit (drop_bit 16 x AND mask 16) n \<longleftrightarrow> bit (drop_bit 16 x) n" using t [of n] by (auto simp: bit_and_iff bit_mask_iff bit_drop_bit_eq)
  qed
  show "unat (x AND 0xffff) = unat x mod 65536" unfolding m(1) take_bit_eq_mask [symmetric] unsigned_take_bit_eq by (simp add: take_bit_eq_mod)
qed

lemma millisec_to_ntp_parts:
  "0 \<le> t \<Longrightarrow> int (unat (ntp_sec (millisec_to_ntp t))) = t div 1000 mod 2 ^ 32"
  "0 \<le> t \<Longrightarrow> int (unat (drop_bit 16 (ntp_frac (millisec_to_ntp t)))) = t mod 1000 * 65536 div 1000"
proof -
  show "int (unat (ntp_sec (millisec_to_ntp t))) = t div 1000 mod 2 ^ 32"
    by (simp add: millisec_to_ntp_def uint_word_of_int)
  have m: "0 \<le> t mod 1000" "t mod 1000 < 1000" by simp_all
  have "t mod 1000 * 2 ^ 32 div 1000 div 65536 = t mod 1000 * 65536 * 65536 div 65536 div 1000"
    by (simp add: div_mult2_eq [symmetric] flip: zdiv_zmult2_eq)
  then have d: "t mod 1000 * 2 ^ 32 div 1000 div 65536 = t mod 1000 * 65536 div 1000" by simp
  have "t mod 1000 * 2 ^ 32 div 1000 < 2 ^ 32" using m by (simp add: div_less_iff_less_mult)
  then have "uint (of_int (t mod 1000 * 2 ^ 32 div 1000) :: u32) = t mod 1000 * 2 ^ 32 div 1000"
    using m by (simp add: uint_word_of_int)
  then show "int (unat (drop_bit 16 (ntp_frac (millisec_to_ntp t)))) = t mod 1000 * 65536 div 1000"
    using d unfolding unat_drop16 by (simp add: millisec_to_ntp_def zdiv_int)
qed

lemma compact_units: "0 \<le> t \<Longrightarrow> int (unat (compact_ntp (millisec_to_ntp t))) = units t mod 2 ^ 32"
proof -
  assume t: "0 \<le> t"
  note p = millisec_to_ntp_parts [OF t]
  let ?f = "t mod 1000 * 65536 div 1000"
  have f: "0 \<le> ?f" "?f < 65536" using pos_mod_bound [of 1000 t] by (simp_all add: div_less_iff_less_mult)
  have "int (unat (compact_ntp (millisec_to_ntp t))) = int (unat (ntp_sec (millisec_to_ntp t) AND 0xffff)) mod 65536 * 65536 + ?f"
    unfolding compact_ntp_def unat_drop_half(2) p(2) [symmetric] by (rule half_words [OF unat_drop_half(1)])
  also have "int (unat (ntp_sec (millisec_to_ntp t) AND 0xffff)) mod 65536 = t div 1000 mod 65536"
    unfolding unat_drop_half(4) using p(1) by (simp add: zmod_int mod_mod_cancel del: of_nat_unat)
  also have "t div 1000 mod 65536 * 65536 + ?f = units t mod 4294967296"
  proof -
    have k: "k * 65536 = k div 65536 * 4294967296 + k mod 65536 * 65536" for k :: int
      using mult_div_mod_eq [of 65536 k] by linarith
    have "t div 1000 mod 65536 < 65536" "0 \<le> t div 1000 mod 65536" by simp_all
    then have "0 \<le> t div 1000 mod 65536 * 65536 + ?f" "t div 1000 mod 65536 * 65536 + ?f < 4294967296" using f by linarith+
    moreover have "units t = (t div 1000 mod 65536 * 65536 + ?f) + t div 1000 div 65536 * 4294967296"
      unfolding units_split using k [of "t div 1000"] by linarith
    ultimately show ?thesis by (metis mod_mult_self1 mod_pos_pos_trivial)
  qed
  finally show ?thesis by simp
qed

lemma delay_units_is: "0 \<le> d \<Longrightarrow> d < 65536000 \<Longrightarrow> int (unat (delay_units (of_int d))) = units d"
proof -
  assume d: "0 \<le> d" "d < 65536000"
  then have u: "uint (of_int d :: u32) = d" by (simp add: uint_word_of_int)
  let ?f = "d mod 1000 * 65536 div 1000"
  have f: "0 \<le> ?f" "?f < 65536" using pos_mod_bound [of 1000 d] by (simp_all add: div_less_iff_less_mult)
  have "d mod 1000 < 1000" "0 \<le> d mod 1000" by simp_all
  then have "(d mod 1000 * 65536) mod 2 ^ 32 = d mod 1000 * 65536" by (intro mod_pos_pos_trivial) simp_all
  then have "uint (of_int d mod 1000 * 65536 :: u32) = d mod 1000 * 65536"
    by (simp add: uint_word_arith_bintrs(3) uint_mod_distrib u take_bit_eq_mod)
  then have "uint (of_int d mod 1000 * 65536 div 1000 :: u32) = ?f" by (simp add: uint_div_distrib)
  then have lo: "unat (of_int d mod 1000 * 65536 div 1000 :: u32) = nat ?f" by (simp add: unat_eq_nat_uint)
  have hi: "uint (of_int d div 1000 :: u32) = d div 1000" by (simp add: uint_div_distrib u)
  have "d div 1000 < 65536" using d by linarith
  then show ?thesis unfolding delay_units_def using half_words [of "of_int d mod 1000 * 65536 div 1000" "of_int d div 1000"] f d
    by (simp add: lo hi units_split)
qed

section \<open>The round trip\<close>

text \<open>The unit of the last place of a time of less than 65.536 s is at most 1/256 ms.\<close>

lemma rtt_float_near:
  fixes w :: u32
  assumes "unat w < 2 ^ 22"
  shows "\<bar>rtt_float w - of_nat (unat w) * 1000 / 65536\<bar> \<le> 1 / 512"
proof -
  let ?hi = "unat (drop_bit 16 w)" and ?lo = "unat (w AND 0xffff)"
  have hi: "?hi = unat w div 65536" "?lo = unat w mod 65536" by (rule unat_drop16, rule unat_drop_half(4))
  then have "?hi < 64" using assms by (simp add: div_less_iff_less_mult)
  have b: "\<bar>int (k * 1000)\<bar> < 2 ^ 24" if "k < 64" for k using that by simp
  from b [OF \<open>?hi < 64\<close>] have "\<bar>int (?hi * 1000)\<bar> < 2 ^ 24" .
  then have f: "float32 (of_nat ?hi * 1000) = of_nat ?hi * 1000" using float32_int [of "int (?hi * 1000)"] by simp
  define x :: rat where "x = of_nat ?hi * 1000 + of_nat ?lo / 65536 * 1000"
  have "65536 * ?hi + ?lo = unat w" using hi by simp
  then have "(of_nat (65536 * ?hi + ?lo) :: rat) = of_nat (unat w)" by simp
  then have x: "x = of_nat (unat w) * 1000 / 65536" by (simp add: x_def field_simps)
  have "(of_nat (unat w) :: rat) < of_nat (2 ^ 22)" using assms by (simp only: of_nat_less_iff)
  moreover have "\<bar>of_nat k * 1000 / 65536 :: rat\<bar> < 2 powi 16" if "(of_nat k :: rat) < of_nat (2 ^ 22)" for k
    using that by (simp add: power_int_def)
  ultimately have "\<bar>x\<bar> < 2 powi 16" unfolding x by blast
  from round_to_near [OF this, of "-149" 24] have "\<bar>float32 x - x\<bar> \<le> 1 / 512"
    by (simp add: float32_def power_int_def power_divide)
  moreover have "rtt_float w = float32 x" by (simp only: rtt_float_def f x_def)
  ultimately show ?thesis unfolding x [symmetric] by simp
qed

text \<open>The fields of a report block, which is built field by field.\<close>

lemma report_fields:
  assumes "length mem = 24" "b = SetDlsr dlsr (SetLsr lsr (SetJitter j (SetHighestSeq h (SetCumulativeLost c (SetFracLost f (SetReporteeSsrc x mem))))))"
  shows "GetDlsr b = dlsr" "GetLsr b = lsr" "GetJitter b = j" "GetReporteeSsrc b = x" "GetHighestSeq b = h" "length b = 24"
    "GetFracLost b = f"
  using assms(1) unfolding assms(2)
  by (simp_all add: GetDlsr_def SetDlsr_def GetLsr_def SetLsr_def GetJitter_def SetJitter_def SetHighestSeq_def GetHighestSeq_def
      SetCumulativeLost_def SetFracLost_def GetFracLost_def SetReporteeSsrc_def GetReporteeSsrc_def net_put_other net32_Write lens nth_put_at)

lemma GetRtcpRr_parts:
  assumes "GetRtcpRr mem now s = Some (b, s')" "length mem = 24"
  shows "GetLsr b = rs_lsr s" "last_sr_ms s > 0 \<Longrightarrow> GetDlsr b = delay_units (of_int (now - last_sr_ms s))" "length b = 24"
proof -
  obtain lost s1 where l: "GetPacketLost s = Some (lost, s1)"
    "b = SetDlsr (if last_sr_ms s > 0 then delay_units (of_int (now - last_sr_ms s)) else 0) (SetLsr (rs_lsr s1)
       (SetJitter (of_int (rs_jitter s1)) (SetHighestSeq (ucast (rs_max_seq s) + rs_cycles s)
       (SetCumulativeLost (of_int lost) (SetFracLost (frac_lost s1) (SetReporteeSsrc (rs_ssrc s1) mem))))))"
    using assms(1) by (auto simp: GetRtcpRr_def Let_def split: Option.bind_splits)
  have "rs_lsr s1 = rs_lsr s" using l(1) by (auto simp: GetPacketLost_def Let_def split: if_splits Option.bind_splits)
  then show "GetLsr b = rs_lsr s" "last_sr_ms s > 0 \<Longrightarrow> GetDlsr b = delay_units (of_int (now - last_sr_ms s))" "length b = 24"
    using report_fields [OF assms(2) l(2)] by simp_all
qed

lemma units_super:
  assumes "0 \<le> r"
  shows "0 \<le> units (t + d + r) - units d - units t"
    "\<bar>(of_int (units (t + d + r) - units d - units t) * 1000 / 65536 :: rat) - of_int r\<bar> < 1 / 32"
    "(units (t + d + r) - units d - units t) * 1000 < r * 65536 + 2000"
proof -
  define u where "u = units (t + d + r) - units d - units t"
  note b = units_bounds [of t] units_bounds [of d] units_bounds [of "t + d + r"]
  have lo: "r * 65536 < u * 1000 + 1000" and hi: "u * 1000 < r * 65536 + 2000" using b by (auto simp: u_def)
  then show "(units (t + d + r) - units d - units t) * 1000 < r * 65536 + 2000" by (simp add: u_def)
  have "- 1 < u" using lo assms by linarith
  then show "0 \<le> units (t + d + r) - units d - units t" by (simp add: u_def)
  have "(of_int (r * 65536) :: rat) < of_int (u * 1000 + 1000)" "(of_int (u * 1000) :: rat) < of_int (r * 65536 + 2000)"
    using lo hi by (simp_all only: of_int_less_iff)
  then show "\<bar>(of_int (units (t + d + r) - units d - units t) * 1000 / 65536 :: rat) - of_int r\<bar> < 1 / 32"
    unfolding u_def [symmetric] by (simp add: abs_less_iff field_simps)
qed

lemma rr_rtt_is:
  assumes "int (unat now) = n" "int (unat lsr) = l" "int (unat dlsr) = d" "lsr \<noteq> 0" "dlsr \<noteq> 0" "d + l \<le> n"
  shows "int (unat (rr_rtt now lsr dlsr)) = n - d - l"
proof -
  have le: "unat dlsr + unat lsr \<le> unat now" using assms by linarith
  then have "unat dlsr + unat lsr < 2 ^ 32" using unat_u32_less [of now] by (simp del: unat_u32_less)
  then have s: "unat (dlsr + lsr) = unat dlsr + unat lsr" by (simp add: unat_word_ariths)
  have "unat (now - dlsr - lsr) = unat now - unat (dlsr + lsr)"
    using le by (simp add: diff_diff_eq unat_sub word_le_nat_alt s)
  then show ?thesis using le assms by (auto simp: rr_rtt_def s word_less_nat_alt of_nat_diff simp del: of_nat_unat)
qed

text \<open>What the sender reads from the clock in its report, and from its own clock when the answer comes.\<close>

lemma report_times:
  assumes "length mem = 1500"
  shows "\<exists>sr. sr_Parse mem (sr_GetData (fst (GetRtcpSr t0 s))) = Some sr \<and>
    GetNtpSec sr = ntp_sec (millisec_to_ntp t0) \<and> GetNtpFrac sr = ntp_frac (millisec_to_ntp t0)"
  by (simp add: GetRtcpSr_def Let_def) (use sr_roundtrip [OF assms] in blast)

lemma rr_rtt_near:
  assumes "0 \<le> t0" "1 \<le> d" "d < 65536000" "0 \<le> r" "r < 60000"
    "units t0 mod 2 ^ 32 \<noteq> 0" "units (t0 + d + r) div 2 ^ 32 = units t0 div 2 ^ 32"
  shows "delay_units (of_int d) \<noteq> 0 \<and> compact_ntp (millisec_to_ntp t0) \<noteq> 0 \<and>
    \<bar>rtt_float (rr_rtt (compact_ntp (millisec_to_ntp (t0 + d + r))) (compact_ntp (millisec_to_ntp t0)) (delay_units (of_int d))) - of_int r\<bar> < 1 / 25"
proof -
  let ?t3 = "t0 + d + r"
  define w where "w = units ?t3 - units d - units t0"
  define rr where "rr = rr_rtt (compact_ntp (millisec_to_ntp ?t3)) (compact_ntp (millisec_to_ntp t0)) (delay_units (of_int d))"
  note u = units_super [OF assms(4), of t0 d, folded w_def]
  have l: "int (unat (compact_ntp (millisec_to_ntp t0))) = units t0 mod 2 ^ 32" by (rule compact_units [OF assms(1)])
  have n: "int (unat (compact_ntp (millisec_to_ntp ?t3))) = units ?t3 mod 2 ^ 32" using assms by (intro compact_units) simp
  have d: "int (unat (delay_units (of_int d))) = units d" using assms(2,3) by (intro delay_units_is) simp_all
  have "units d \<noteq> 0" using units_bounds [of d] assms(2) by linarith
  then have nz: "delay_units (of_int d) \<noteq> 0" "compact_ntp (millisec_to_ntp t0) \<noteq> 0" using d l assms(6) by auto
  have diff: "units ?t3 mod 2 ^ 32 - units t0 mod 2 ^ 32 = units ?t3 - units t0"
    using assms(7) by (simp add: minus_div_mult_eq_mod [symmetric])
  have "int (unat rr) = units ?t3 mod 2 ^ 32 - units d - units t0 mod 2 ^ 32"
    using u(1) diff unfolding rr_def by (intro rr_rtt_is [OF n l d nz(2,1)]) (simp add: w_def)
  then have w: "int (unat rr) = w" unfolding w_def using diff by linarith
  have "w < 2 ^ 22" using u(3) assms(5) by simp
  moreover have "int n = w \<Longrightarrow> w < 2 ^ 22 \<Longrightarrow> n < 2 ^ 22" for n by simp
  ultimately have "unat rr < 2 ^ 22" using w by blast
  moreover have "of_nat (unat rr) = (of_int w :: rat)" unfolding w [symmetric] by (simp only: of_int_of_nat_eq)
  ultimately have "\<bar>rtt_float rr - of_int w * 1000 / 65536\<bar> \<le> 1 / 512" using rtt_float_near [of rr] by simp
  then have "\<bar>rtt_float rr - of_int r\<bar> < 1 / 25" using u(2) unfolding abs_le_iff abs_less_iff by linarith
  with nz show ?thesis unfolding rr_def by blast
qed

text \<open>
  C35: The sender's round trip time is right to 0.04 ms.  The sender makes a sender report at
  \<open>t0\<close>; the receiver takes it at \<open>r1\<close>, by its own clock, and makes a receiver
  report \<open>d\<close> ms later (from 1 ms to 18 hours), which comes to the sender after \<open>r\<close> ms on the way in all, less than a minute.  Then the
  round trip time that the sender computes from the three times in units of \<open>1/65536\<close> s and in \<open>float\<close>
  is within 0.04 ms of \<open>r\<close>, provided that the middle bits of the sender's NTP time do not wrap
  (they do so every 18 hours) and were not 0 at \<open>t0\<close>, which stands for no report.
\<close>
theorem rtt_measured:
  assumes "0 \<le> t0" "0 < r1" "1 \<le> d" "d < 65536000" "0 \<le> r" "r < 60000"
    "units t0 mod 2 ^ 32 \<noteq> 0" "units (t0 + d + r) div 2 ^ 32 = units t0 div 2 ^ 32"
    "length mem = 1500" "length mem' = 24"
  shows "\<exists>sr. sr_Parse mem (sr_GetData (fst (GetRtcpSr t0 s))) = Some sr \<and>
    (\<forall>block rs'. GetRtcpRr mem' (r1 + d) (rs_HandleRtcpSr r1 sr rs) = Some (block, rs') \<longrightarrow>
      (\<exists>s'. HandleRtcpRr (t0 + d + r) block s1 = Some s' \<and> \<bar>ss_rtt s' - of_int r\<bar> < 1 / 25))"
proof -
  obtain sr where sr: "sr_Parse mem (sr_GetData (fst (GetRtcpSr t0 s))) = Some sr"
    "GetNtpSec sr = ntp_sec (millisec_to_ntp t0)" "GetNtpFrac sr = ntp_frac (millisec_to_ntp t0)"
    using report_times [OF assms(9)] by blast
  note near = rr_rtt_near [OF assms(1,3-8)]
  have lsr: "rs_lsr (rs_HandleRtcpSr r1 sr rs) = compact_ntp (millisec_to_ntp t0)"
    by (simp add: rs_HandleRtcpSr_def compact_ntp_def sr unat_drop_half)
  have ls: "last_sr_ms (rs_HandleRtcpSr r1 sr rs) = r1" by (simp add: rs_HandleRtcpSr_def)
  have "\<exists>s'. HandleRtcpRr (t0 + d + r) block s1 = Some s' \<and> \<bar>ss_rtt s' - of_int r\<bar> < 1 / 25"
    if g: "GetRtcpRr mem' (r1 + d) (rs_HandleRtcpSr r1 sr rs) = Some (block, rs')" for block rs'
  proof -
    note p = GetRtcpRr_parts [OF g assms(10), unfolded lsr ls]
    have "GetDlsr block = delay_units (of_int d)" using p(2) assms(2) by simp
    moreover obtain lost where "GetCumulativeLost block = Some lost"
      using p(3) by (auto simp: GetCumulativeLost_def Read3Bytes_def read_be_def grab_def)
    ultimately show ?thesis using near by (simp add: HandleRtcpRr_def Let_def p(1))
  qed
  with sr(1) show ?thesis by blast
qed

text \<open>
  A report of 1.7 billion seconds, taken after 20 ms and answered after 100 ms.  
\<close>

theorem rtt_measured_witness:
  "\<exists>sr. sr_Parse (replicate 1500 0) (sr_GetData (fst (GetRtcpSr 1700000000123 (new_RtcSendStream MEDIA_VIDEO_TYPE 7 96 90000 True None)))) = Some sr \<and>
    (\<forall>block rs'. GetRtcpRr (replicate 24 0) 600 (rs_HandleRtcpSr 500 sr (new_RtcRecvStream MEDIA_VIDEO_TYPE 7 96 90000 True None)) = Some (block, rs') \<longrightarrow>
      (\<exists>s'. HandleRtcpRr 1700000000273 block (new_RtcSendStream MEDIA_VIDEO_TYPE 7 96 90000 True None) = Some s' \<and>
        \<bar>ss_rtt s' - 50\<bar> < 1 / 25)) \<and>
    (\<exists>block rs'. GetRtcpRr (replicate 24 0) 600 (rs_HandleRtcpSr 500 sr (new_RtcRecvStream MEDIA_VIDEO_TYPE 7 96 90000 True None)) = Some (block, rs'))"
proof -
  have "GetRtcpRr (replicate 24 0) 600 (rs_HandleRtcpSr 500 sr (new_RtcRecvStream MEDIA_VIDEO_TYPE 7 96 90000 True None)) \<noteq> None" for sr
    by (simp add: GetRtcpRr_def GetPacketLost_def rs_HandleRtcpSr_def new_RtcRecvStream_def Let_def)
  then have "\<exists>block rs'. GetRtcpRr (replicate 24 0) 600 (rs_HandleRtcpSr 500 sr (new_RtcRecvStream MEDIA_VIDEO_TYPE 7 96 90000 True None)) = Some (block, rs')" for sr
    by auto
  with rtt_measured [of 1700000000123 500 100 50 "replicate 1500 0" "replicate 24 0"
      "new_RtcSendStream MEDIA_VIDEO_TYPE 7 96 90000 True None" "new_RtcRecvStream MEDIA_VIDEO_TYPE 7 96 90000 True None"
      "new_RtcSendStream MEDIA_VIDEO_TYPE 7 96 90000 True None"]
  show ?thesis by (simp add: units_def)
qed

end
