(* ===== verification/PeerConn.thy ===== *)
theory PeerConn
  imports RtcTiming JitterBuffer Stun
begin

text \<open>
  net/webrtc/peerconnection.cpp and peerconnection.hpp: the media side of a WebRTC connection.
  It makes the streams, takes the datagrams apart by their kind, hands RTP packets to the
  receive stream, the jitter buffer and the depacketizer, RTCP packets to the streams, and sends reports.

  The library libsrtp is outside: what the decryption of a datagram gives is an argument, and
  a packet that is handed to the encryption is an event.  So are the answers that the session
  description (format/sdp) gives.  \<open>None\<close> is a read outside the
  datagram, a use of a null pointer or a failed assertion.
\<close>

section \<open>The state\<close>

definition RTCP_RR_INTERVAL :: int where "RTCP_RR_INTERVAL = 1 * 1000"

datatype WebRtcSdpDirection = DIRECTION_UNKNOWN | SEND_ONLY | RECV_ONLY | SEND_RECV

datatype PC_STATE = PC_INIT_STATE | PC_SDP_DONE_STATE | PC_STUN_DONE_STATE | PC_DTLS_DONE_STATE

fun pc_stage :: "PC_STATE \<Rightarrow> nat" where
  "pc_stage PC_INIT_STATE = 0" | "pc_stage PC_SDP_DONE_STATE = 1" | "pc_stage PC_STUN_DONE_STATE = 2" | "pc_stage PC_DTLS_DONE_STATE = 3"

text \<open>What the getters of a session description give.\<close>

record sdp_view =
  sdp_video_nack :: bool
  sdp_audio_nack :: bool
  sdp_video_ssrc :: u32
  sdp_video_rtx_ssrc :: u32
  sdp_audio_ssrc :: u32
  sdp_video_rtx :: bool
  sdp_video_pt :: int
  sdp_video_rtx_pt :: int
  sdp_audio_pt :: int
  sdp_video_rate :: int
  sdp_audio_rate :: int
  sdp_channel :: int

text \<open>
  \<open>ProtectRtp\<close> and \<open>ProtectRtcp\<close> are packets that go to the encryption and from there to the socket.
  The numbers of a report of statistics are kbit/s, packets/s, round trip time, jitter, loss rate and the
  resent packets, in all and per second.
\<close>

datatype pc_event =
    ProtectRtp bytes
  | ProtectRtcp bytes
  | OnReceiveMediaPacket media_packet
  | OnState string string
  | VideoStatics nat nat u32 u32 rat int int
  | AudioStatics nat nat u32 u32 rat
  | BindingRequest bytes
  | DtlsStart

record peer_connection =
  state_report :: bool
  direct_type :: WebRtcSdpDirection
  pc_state :: PC_STATE
  last_stun_ms :: int
  ice_udp :: "bool option"
  remote_fragment :: bytes
  remote_pwd :: bytes
  local_fragment :: bytes
  pc_ipaddr_str :: string
  pc_udp_port :: u16
  offer_sdp :: sdp_view
  answer_sdp :: sdp_view
  write_srtp :: bool
  read_srtp :: bool
  has_rtx :: bool
  video_send_stream :: "rtc_send_stream option"
  audio_send_stream :: "rtc_send_stream option"
  video_recv_stream :: "rtc_recv_stream option"
  audio_recv_stream :: "rtc_recv_stream option"
  last_xr_ntp :: ntp_timestamp
  last_xr_ms :: int
  last_send_xr_dlrr_ms :: int
  last_statics_ms :: int
  jb_video :: jitter_buffer
  jb_audio :: jitter_buffer
  h264_pack :: "pack_handle_h264 option"
  find_keyframe :: bool
  media_cb :: bool
  last_rr_ms :: int
  mspull :: bool

definition pc_Report :: "string \<Rightarrow> string \<Rightarrow> peer_connection \<Rightarrow> pc_event list" where
  "pc_Report key val s = (if state_report s then [OnState key val] else [])"

text \<open>\<open>SendRtpPacket\<close> and \<open>SendRtcpPacket\<close>, the callbacks of the streams.\<close>

fun protect :: "send_event \<Rightarrow> pc_event" where
  "protect (SendRtpPacket d) = ProtectRtp d"
| "protect (SendRtcpPacket d) = ProtectRtcp d"

definition pc_send :: "send_event list \<Rightarrow> peer_connection \<Rightarrow> pc_event list" where
  "pc_send evs s = (if write_srtp s then map protect evs else [])"

section \<open>The streams\<close>

definition CreateVideoRecvStream :: "int \<Rightarrow> peer_connection \<Rightarrow> peer_connection \<times> pc_event list" where
  "CreateVideoRecvStream clk s =
     (let a = answer_sdp s; s = s\<lparr>has_rtx := sdp_video_rtx a\<rparr>; rtx_payload = (of_int (sdp_video_rtx_pt a) :: u8) in
      if sdp_video_ssrc a > 0 then
        (let rtx = (if has_rtx s \<and> rtx_payload > 0 \<and> sdp_video_rtx_ssrc a > 0 then Some (rtx_payload, sdp_video_rtx_ssrc a) else None);
             v = new_RtcRecvStream MEDIA_VIDEO_TYPE (sdp_video_ssrc a) (of_int (sdp_video_pt a)) (sdp_video_rate a) (sdp_video_nack a) rtx;
             (v, evs) = RequestKeyFrame clk (-1) v
         in (s\<lparr>video_recv_stream := Some v\<rparr>, pc_send evs s))
      else (s, []))"

definition CreateAudioRecvStream :: "peer_connection \<Rightarrow> peer_connection" where
  "CreateAudioRecvStream s =
     (let a = answer_sdp s in
      if sdp_audio_ssrc a > 0 then
        s\<lparr>audio_recv_stream := Some (rs_SetChannel (sdp_channel a)
          (new_RtcRecvStream MEDIA_AUDIO_TYPE (sdp_audio_ssrc a) (of_int (sdp_audio_pt a)) (sdp_audio_rate a) (sdp_audio_nack a) None))\<rparr>
      else s)"

definition CreateRecvStream :: "int \<Rightarrow> peer_connection \<Rightarrow> peer_connection \<times> pc_event list" where
  "CreateRecvStream clk s = (let (s, evs) = CreateVideoRecvStream clk s in (CreateAudioRecvStream s, evs))"

text \<open>\<open>CreateSendStream\<close> takes the answer, \<open>CreateSendStream2\<close> the offer.\<close>

definition create_send_streams :: "sdp_view \<Rightarrow> peer_connection \<Rightarrow> peer_connection" where
  "create_send_streams a s =
     (let s = (if sdp_video_ssrc a > 0 then
          (let rtx_payload = (of_int (sdp_video_rtx_pt a) :: u8);
               rtx = (if sdp_video_rtx a \<and> rtx_payload > 0 \<and> sdp_video_rtx_ssrc a > 0 then Some (rtx_payload, sdp_video_rtx_ssrc a) else None)
           in s\<lparr>has_rtx := sdp_video_rtx a, video_send_stream :=
             Some (new_RtcSendStream MEDIA_VIDEO_TYPE (sdp_video_ssrc a) (of_int (sdp_video_pt a)) (sdp_video_rate a) (sdp_video_nack a) rtx)\<rparr>)
        else s) in
      if sdp_audio_ssrc a > 0 then
        s\<lparr>audio_send_stream := Some (ss_SetChannel (sdp_channel a)
          (new_RtcSendStream MEDIA_AUDIO_TYPE (sdp_audio_ssrc a) (of_int (sdp_audio_pt a)) (sdp_audio_rate a) (sdp_audio_nack a) None))\<rparr>
      else s)"

definition CreateSendStream :: "peer_connection \<Rightarrow> peer_connection" where
  "CreateSendStream s = create_send_streams (answer_sdp s) s"

definition CreateSendStream2 :: "peer_connection \<Rightarrow> peer_connection" where
  "CreateSendStream2 s = create_send_streams (offer_sdp s) s"

text \<open>\<open>w\<close> and \<open>r\<close> say whether libsrtp makes the session for the keys; if it does not, the exception ends the call.\<close>

definition OnDtlsConnected :: "int \<Rightarrow> bool \<Rightarrow> bool \<Rightarrow> peer_connection \<Rightarrow> peer_connection \<times> pc_event list" where
  "OnDtlsConnected clk w r s =
     (if pc_state s = PC_DTLS_DONE_STATE then (s, [])
      else let s = s\<lparr>pc_state := PC_DTLS_DONE_STATE, write_srtp := False, read_srtp := False\<rparr>; rep = pc_Report ''dtls'' ''ready'' s in
        if \<not> w then (s, rep)
        else if \<not> r then (s\<lparr>write_srtp := True\<rparr>, rep)
        else let s = s\<lparr>write_srtp := True, read_srtp := True\<rparr> in
          if direct_type s = SEND_ONLY then (CreateSendStream s, rep)
          else if direct_type s = RECV_ONLY \<and> \<not> mspull s then (let (s, evs) = CreateRecvStream clk s in (s, rep @ evs))
          else (s, rep))"

definition pc_SendVideoPacket :: "int \<Rightarrow> (nat \<Rightarrow> bytes) \<Rightarrow> (nat \<Rightarrow> bytes) \<Rightarrow> u8 \<Rightarrow> media_packet \<Rightarrow> peer_connection \<Rightarrow>
    (rtp_error + (int \<times> peer_connection) \<times> pc_event list) option" where
  "pc_SendVideoPacket now new_bufs copies prev m s = (case video_send_stream s of
     None \<Rightarrow> Some (Inr ((-1, s), []))
   | Some v \<Rightarrow> map_option (map_sum id (\<lambda>(v, evs). ((0, s\<lparr>video_send_stream := Some v\<rparr>), pc_send evs s)))
       (SendPacket now new_bufs copies prev m v))"

definition pc_SendAudioPacket :: "int \<Rightarrow> (nat \<Rightarrow> bytes) \<Rightarrow> (nat \<Rightarrow> bytes) \<Rightarrow> u8 \<Rightarrow> media_packet \<Rightarrow> peer_connection \<Rightarrow>
    (rtp_error + (int \<times> peer_connection) \<times> pc_event list) option" where
  "pc_SendAudioPacket now new_bufs copies prev m s = (case audio_send_stream s of
     None \<Rightarrow> Some (Inr ((-1, s), []))
   | Some v \<Rightarrow> map_option (map_sum id (\<lambda>(v, evs). ((0, s\<lparr>audio_send_stream := Some v\<rparr>), pc_send evs s)))
       (SendPacket now new_bufs copies prev m v))"

section \<open>RTP packets that come in\<close>

text \<open>The callbacks of the depacketizer.\<close>

definition PackHandleReset_cb :: "int \<Rightarrow> peer_connection \<Rightarrow> peer_connection \<times> pc_event list" where
  "PackHandleReset_cb clk s =
     (let s = s\<lparr>find_keyframe := True\<rparr> in
      case video_recv_stream s of
        None \<Rightarrow> (s, [])
      | Some v \<Rightarrow> (let (v, evs) = RequestKeyFrame clk (-1) v in (s\<lparr>video_recv_stream := Some v\<rparr>, pc_send evs s)))"

definition to_millisec :: "int \<Rightarrow> rtc_recv_stream option \<Rightarrow> int option" where
  "to_millisec ts r = do { v \<leftarrow> r; require (rs_clock_rate v \<noteq> 0); Some (ts * 1000 sdiv rs_clock_rate v) }"

definition receive_packet :: "media_packet \<Rightarrow> peer_connection \<Rightarrow> pc_event list" where
  "receive_packet m s = (if media_cb s then [OnReceiveMediaPacket m] else [])"

definition MediaPacketOutput_cb :: "media_packet \<Rightarrow> peer_connection \<Rightarrow> (peer_connection \<times> pc_event list) option" where
  "MediaPacketOutput_cb m s =
     (if av_type m = MEDIA_VIDEO_TYPE then do {
        t \<leftarrow> to_millisec (dts m) (video_recv_stream s);
        let m = m\<lparr>dts := t, pts := t\<rparr>;
        pos \<leftarrow> GetNaluTypePos (pkt_data m);
        require (0 \<le> pos);
        b \<leftarrow> rd (pkt_data m) (nat pos);
        if H264_IS_AUD b then Some (s, [])
        else if find_keyframe s \<and> \<not> H264_IS_KEYFRAME b then Some (s, [])
        else (let s = s\<lparr>find_keyframe := False\<rparr> in Some (s, receive_packet m s)) }
      else if av_type m = MEDIA_AUDIO_TYPE then do {
        t \<leftarrow> to_millisec (dts m) (audio_recv_stream s);
        Some (s, receive_packet (m\<lparr>dts := t, pts := t\<rparr>) s) }
      else Some (s, []))"

fun pack_events :: "int \<Rightarrow> pack_event list \<Rightarrow> peer_connection \<Rightarrow> (peer_connection \<times> pc_event list) option" where
  "pack_events clk [] s = Some (s, [])"
| "pack_events clk (PackHandleReset i # evs) s = do {
     let (s, out) = PackHandleReset_cb clk s;
     (s, out') \<leftarrow> pack_events clk evs s;
     Some (s, out @ out') }"
| "pack_events clk (MediaPacketOutput m # evs) s = do {
     (s, out) \<leftarrow> MediaPacketOutput_cb m s;
     (s, out') \<leftarrow> pack_events clk evs s;
     Some (s, out @ out') }"

text \<open>The callbacks of the jitter buffers, which make the depacketizer when they need it first.\<close>

definition RtpPacketOutput_cb :: "int \<Rightarrow> rtp_packet_info \<Rightarrow> peer_connection \<Rightarrow> (peer_connection \<times> pc_event list) option" where
  "RtpPacketOutput_cb now i s =
     (if info_media_type i = MEDIA_VIDEO_TYPE then do {
        let ph = (case h264_pack s of None \<Rightarrow> new_PackHandleH264 | Some ph \<Rightarrow> ph);
        (ph, evs) \<leftarrow> ph_InputRtpPacket now i ph;
        pack_events now evs (s\<lparr>h264_pack := Some ph\<rparr>) }
      else if info_media_type i = MEDIA_AUDIO_TYPE then do {
        evs \<leftarrow> pa_InputRtpPacket i;
        pack_events now evs s }
      else Some (s, []))"

fun jitter_events :: "int \<Rightarrow> jitter_event list \<Rightarrow> peer_connection \<Rightarrow> (peer_connection \<times> pc_event list) option" where
  "jitter_events now [] s = Some (s, [])"
| "jitter_events now (RtpPacketReset i # evs) s = jitter_events now evs s"
| "jitter_events now (RtpPacketOutput i # evs) s = do {
     (s, out) \<leftarrow> RtpPacketOutput_cb now i s;
     (s, out') \<leftarrow> jitter_events now evs s;
     Some (s, out @ out') }"

text \<open>
  \<open>HandleRtpData\<close>: \<open>dec\<close> is what the decryption gives, the buffer and the length of the packet in it.
  \<open>heap\<close> is a new buffer of the jitter buffer.  An exception ends the call, with what was done before it.
\<close>

definition HandleRtpData :: "int \<Rightarrow> bytes \<Rightarrow> (bytes \<times> nat) option \<Rightarrow> peer_connection \<Rightarrow>
    (peer_connection \<times> pc_event list) option" where
  "HandleRtpData now heap dec s =
     (if pc_stage (pc_state s) < pc_stage PC_DTLS_DONE_STATE \<or> \<not> read_srtp s then Some (s, [])
      else case dec of None \<Rightarrow> Some (s, []) | Some (m, len) \<Rightarrow>
        (case Parse now m len of None \<Rightarrow> None | Some (Inl e) \<Rightarrow> Some (s, []) | Some (Inr pkt) \<Rightarrow>
          let ssrc = GetSsrc pkt in
          if mspull s \<and> ssrc = 1234 then Some (s, [])
          else if (case video_recv_stream s of None \<Rightarrow> False | Some v \<Rightarrow> ssrc = rs_ssrc v \<or> ssrc = rs_rtx_ssrc v) then
            (case HandleRtpPacket pkt (the (video_recv_stream s)) of
               Inl e \<Rightarrow> Some (s, [])
             | Inr (pkt, v) \<Rightarrow> (case jb_InputRtpPacket now heap (rs_clock_rate v) pkt (jb_video s) of
                   None \<Rightarrow> None
                 | Some (jb, Inl e) \<Rightarrow> Some (s\<lparr>video_recv_stream := Some v, jb_video := jb\<rparr>, [])
                 | Some (jb, Inr evs) \<Rightarrow> jitter_events now evs (s\<lparr>video_recv_stream := Some v, jb_video := jb\<rparr>)))
          else if (case audio_recv_stream s of None \<Rightarrow> False | Some v \<Rightarrow> ssrc = rs_ssrc v) then
            (case HandleRtpPacket pkt (the (audio_recv_stream s)) of
               Inl e \<Rightarrow> Some (s, [])
             | Inr (pkt, v) \<Rightarrow> (case jb_InputRtpPacket now heap (rs_clock_rate v) pkt (jb_audio s) of
                   None \<Rightarrow> None
                 | Some (jb, Inl e) \<Rightarrow> Some (s\<lparr>audio_recv_stream := Some v, jb_audio := jb\<rparr>, [])
                 | Some (jb, Inr evs) \<Rightarrow> jitter_events now evs (s\<lparr>audio_recv_stream := Some v, jb_audio := jb\<rparr>)))
          else Some (s, [])))"

text \<open>The timers of the jitter buffers, whose packets go the same way, and of the depacketizer and the requests.\<close>

definition jitter_timer :: "int \<Rightarrow> peer_connection \<Rightarrow> (peer_connection \<times> pc_event list) option" where
  "jitter_timer now s = do {
     let (v, evs) = jb_OnTimer now (jb_video s);
     (s, out) \<leftarrow> jitter_events now evs (s\<lparr>jb_video := v\<rparr>);
     let (a, evs) = jb_OnTimer now (jb_audio s);
     (s, out') \<leftarrow> jitter_events now evs (s\<lparr>jb_audio := a\<rparr>);
     Some (s, out @ out') }"

section \<open>RTCP packets that come in\<close>

text \<open>
  The datagram is \<open>m\<close>, the buffer of the socket; a packet in it begins at \<open>p\<close> and has the length \<open>n\<close> by its own header.
  Each function gives the step to the next packet.  \<open>mem\<close> is the memory of new objects.
\<close>

definition slice :: "nat \<Rightarrow> nat \<Rightarrow> bytes \<Rightarrow> bytes option" where
  "slice p n m = grab n (drop p m)"

definition pc_HandleRtcpSr :: "int \<Rightarrow> bytes \<Rightarrow> bytes \<Rightarrow> nat \<Rightarrow> nat \<Rightarrow> peer_connection \<Rightarrow> (int \<times> peer_connection) option" where
  "pc_HandleRtcpSr now mem m p n s =
     (if n \<noteq> 28 then Some (-1, s)
      else do {
        d \<leftarrow> slice p n m;
        sr \<leftarrow> sr_Parse mem d;
        let ssrc = sr_GetSsrc sr;
        Some (28, case video_recv_stream s of
            Some v \<Rightarrow> if ssrc = rs_ssrc v then s\<lparr>video_recv_stream := Some (rs_HandleRtcpSr now sr v)\<rparr>
              else s\<lparr>audio_recv_stream := map_option (\<lambda>a. if ssrc = rs_ssrc a then rs_HandleRtcpSr now sr a else a) (audio_recv_stream s)\<rparr>
          | None \<Rightarrow> s\<lparr>audio_recv_stream := map_option (\<lambda>a. if ssrc = rs_ssrc a then rs_HandleRtcpSr now sr a else a) (audio_recv_stream s)\<rparr>) })"

definition rr_to :: "int \<Rightarrow> bytes \<Rightarrow> rtc_send_stream option \<Rightarrow> rtc_send_stream option option" where
  "rr_to now block r = (case r of None \<Rightarrow> Some None
     | Some v \<Rightarrow> if GetReporteeSsrc block = ss_ssrc v then map_option Some (HandleRtcpRr now block v) else Some (Some v))"

fun rr_blocks_loop :: "int \<Rightarrow> bytes list \<Rightarrow> peer_connection \<Rightarrow> peer_connection option" where
  "rr_blocks_loop now [] s = Some s"
| "rr_blocks_loop now (b # bs) s = do {
     v \<leftarrow> rr_to now b (video_send_stream s);
     a \<leftarrow> rr_to now b (audio_send_stream s);
     rr_blocks_loop now bs (s\<lparr>video_send_stream := v, audio_send_stream := a\<rparr>) }"

definition pc_HandleRtcpRr :: "int \<Rightarrow> bytes \<Rightarrow> bytes \<Rightarrow> nat \<Rightarrow> nat \<Rightarrow> peer_connection \<Rightarrow> (int \<times> peer_connection) option" where
  "pc_HandleRtcpRr now mem m p n s =
     (if n \<le> 28 then Some (int n, s)
      else do {
        d \<leftarrow> slice p n m;
        r \<leftarrow> rr_Parse mem d;
        (case r of Inl e \<Rightarrow> None
         | Inr rr \<Rightarrow> map_option (\<lambda>s. (int n, s)) (rr_blocks_loop now (GetRrBlocks rr) s)) })"

definition nack_to :: "int \<Rightarrow> (nat \<Rightarrow> bytes) \<Rightarrow> rtcp_fb_nack \<Rightarrow> rtc_send_stream option \<Rightarrow> rtc_send_stream option sending" where
  "nack_to now bufs k r = (case r of None \<Rightarrow> Some (Inr (None, []))
     | Some v \<Rightarrow> if GetMediaSsrc k = ss_ssrc v then map_option (map_sum id (map_prod Some id)) (HandleRtcpNack now bufs k v)
         else Some (Inr (Some v, [])))"

text \<open>An exception of a stream ends the call; a packet that is too short for a request gives a null pointer.\<close>

definition pc_HandleRtcpRtpFb :: "int \<Rightarrow> bytes \<Rightarrow> (nat \<Rightarrow> bytes) \<Rightarrow> (nat \<Rightarrow> bytes) \<Rightarrow> bytes \<Rightarrow> nat \<Rightarrow> nat \<Rightarrow> peer_connection \<Rightarrow>
    ((int \<times> peer_connection) \<times> pc_event list) option" where
  "pc_HandleRtcpRtpFb now mem vbufs abufs m p n s =
     (if n \<le> 4 then Some ((int n, s), [])
      else do {
        b \<leftarrow> rd m p;
        (if b AND 0x1f = FB_RTP_NACK then do {
           d \<leftarrow> slice p n m;
           r \<leftarrow> nack_Parse mem d;
           k \<leftarrow> r;
           (case nack_to now vbufs k (video_send_stream s) of
              None \<Rightarrow> None
            | Some (Inl e) \<Rightarrow> Some ((-1, s), [])
            | Some (Inr (v, evs)) \<Rightarrow>
                (case nack_to now abufs k (audio_send_stream s) of
                   None \<Rightarrow> None
                 | Some (Inl e) \<Rightarrow> Some ((-1, s\<lparr>video_send_stream := v\<rparr>), pc_send evs s)
                 | Some (Inr (a, evs')) \<Rightarrow>
                     Some ((int n, s\<lparr>video_send_stream := v, audio_send_stream := a\<rparr>), pc_send (evs @ evs') s))) }
         else Some ((int n, s), [])) })"

definition HandleRtcpPsFb :: "nat \<Rightarrow> peer_connection \<Rightarrow> int \<times> peer_connection" where
  "HandleRtcpPsFb n s = (int n, s)"

definition dlrr_to :: "int \<Rightarrow> bytes \<Rightarrow> rtc_recv_stream option \<Rightarrow> rtc_recv_stream option" where
  "dlrr_to now b r = map_option (\<lambda>v. if net32 b 0 = rs_ssrc v then HandleXrDlrr now b v else v) r"

definition pc_HandleXrDlrr :: "int \<Rightarrow> bytes \<Rightarrow> peer_connection \<Rightarrow> peer_connection" where
  "pc_HandleXrDlrr now b s =
     s\<lparr>video_recv_stream := dlrr_to now b (video_recv_stream s), audio_recv_stream := dlrr_to now b (audio_recv_stream s)\<rparr>"

text \<open>
  The blocks of an extended report: \<open>x\<close> is where the header of a block is read, \<open>d\<close> the pointer to which the
  lengths are added; it begins at the start of the packet, not at the first block.
\<close>

definition xr_block :: "int \<Rightarrow> bytes \<Rightarrow> nat \<Rightarrow> peer_connection \<Rightarrow> peer_connection option" where
  "xr_block now m x s = do {
     bt \<leftarrow> rd m x;
     if bt = XR_DLRR then map_option (\<lambda>b. pc_HandleXrDlrr now b s) (slice (x + 4) 12 m)
     else if bt = XR_RRT then
       map_option (\<lambda>b. s\<lparr>last_xr_ntp := \<lparr> ntp_sec = net32 b 0, ntp_frac = net32 b 4 \<rparr>, last_xr_ms := now\<rparr>) (slice (x + 4) 8 m)
     else Some s }"

function xr_loop :: "int \<Rightarrow> bytes \<Rightarrow> nat \<Rightarrow> nat \<Rightarrow> int \<Rightarrow> peer_connection \<Rightarrow> peer_connection option" where
  "xr_loop now m x d xr_len s =
     (if 0 < xr_len then
        (case xr_block now m x s of
           None \<Rightarrow> None
         | Some s \<Rightarrow>
             (if x + 4 \<le> length m then
                (let offset = 4 + unat (net16 m (x + 2)) * 4 in xr_loop now m (d + offset) (d + offset) (xr_len - int offset) s)
              else None))
      else Some s)"
  by pat_completeness auto

termination by (relation "measure (\<lambda>(now, m, x, d, xr_len, s). nat xr_len)") (auto simp del: of_nat_unat)

declare xr_loop.simps [simp del]

definition HandleRtcpXr :: "int \<Rightarrow> bytes \<Rightarrow> nat \<Rightarrow> nat \<Rightarrow> peer_connection \<Rightarrow> (int \<times> peer_connection) option" where
  "HandleRtcpXr now m p n s = map_option (\<lambda>s. (int n, s)) (xr_loop now m (p + 8) p (int n - 8) s)"

definition RTCP_SDES :: u8 where "RTCP_SDES = 202"
definition RTCP_BYE :: u8 where "RTCP_BYE = 203"
definition RTCP_APP :: u8 where "RTCP_APP = 204"

text \<open>One packet of the datagram.\<close>

definition rtcp_item :: "int \<Rightarrow> bytes \<Rightarrow> (nat \<Rightarrow> bytes) \<Rightarrow> (nat \<Rightarrow> bytes) \<Rightarrow> bytes \<Rightarrow> nat \<Rightarrow> int \<Rightarrow> peer_connection \<Rightarrow>
    ((int \<times> peer_connection) \<times> pc_event list) option" where
  "rtcp_item now mem vbufs abufs m p left_len s = do {
     h \<leftarrow> slice p 4 m;
     let n = 4 + unat (GetRtcpLength h);
     let ty = h ! 1;
     if ty = RTCP_SR then map_option (\<lambda>r. (r, [])) (pc_HandleRtcpSr now mem m p n s)
     else if ty = RTCP_RR then map_option (\<lambda>r. (r, [])) (pc_HandleRtcpRr now mem m p n s)
     else if ty = RTCP_RTPFB then pc_HandleRtcpRtpFb now mem vbufs abufs m p n s
     else if ty = RTCP_PSFB then Some (HandleRtcpPsFb n s, [])
     else if ty = RTCP_XR then map_option (\<lambda>r. (r, [])) (HandleRtcpXr now m p n s)
     else Some ((left_len, s), []) }"

text \<open>
  The loop of \<open>HandleRtcp\<close>: \<open>None\<close> would be a loop that does not end; \<open>Some None\<close> is undefined, which a pointer in
  front of the datagram is, too.  \<open>mems k\<close> is the memory for the packet \<open>k\<close>.
\<close>

type_synonym rtcp_mem = "nat \<Rightarrow> bytes \<times> (nat \<Rightarrow> bytes) \<times> (nat \<Rightarrow> bytes)"

partial_function (option) rtcp_loop :: "int \<Rightarrow> rtcp_mem \<Rightarrow> nat \<Rightarrow> bytes \<Rightarrow> int \<Rightarrow> int \<Rightarrow> peer_connection \<Rightarrow> pc_event list \<Rightarrow>
    (peer_connection \<times> pc_event list) option option" where
  "rtcp_loop now mems k m p left_len s out =
     (if left_len \<le> 0 then Some (Some (s, out))
      else if p < 0 then Some None
      else (case rtcp_item now (fst (mems k)) (fst (snd (mems k))) (snd (snd (mems k))) m (nat p) left_len s of
          None \<Rightarrow> Some None
        | Some ((ret, s'), evs) \<Rightarrow> rtcp_loop now mems (k + 1) m (p + ret) (left_len - ret) s' (out @ evs)))"

definition HandleRtcp :: "int \<Rightarrow> rtcp_mem \<Rightarrow> (bytes \<times> nat) option \<Rightarrow> peer_connection \<Rightarrow>
    (peer_connection \<times> pc_event list) option option" where
  "HandleRtcp now mems dec s =
     (if \<not> read_srtp s then Some (Some (s, []))
      else case dec of None \<Rightarrow> Some (Some (s, [])) | Some (m, len) \<Rightarrow> rtcp_loop now mems 0 m 0 (int len) s [])"

text \<open>\<open>OnRead\<close>: the kinds of datagrams.\<close>

definition IsDtls :: "bytes \<Rightarrow> bool" where
  "IsDtls d \<longleftrightarrow> 13 \<le> length d \<and> 19 < d ! 0 \<and> d ! 0 < 64"

text \<open>
  A STUN packet that could be parsed.  Where it has no address, \<open>GetIpStr\<close> gives the empty string, which is stored.
  \<open>ntop\<close> is \<open>inet_ntop\<close>.
\<close>

definition OnStun :: "(bytes \<Rightarrow> string) \<Rightarrow> stun_packet \<Rightarrow> peer_connection \<Rightarrow> (peer_connection \<times> pc_event list) option" where
  "OnStun ntop pkt s = do {
     (ip, port) \<leftarrow> GetIpStr ntop (xor_address pkt) 0;
     let s = (if pc_udp_port s = 0 \<or> pc_ipaddr_str s = [] \<or> ip \<noteq> pc_ipaddr_str s \<or> port \<noteq> pc_udp_port s then
         s\<lparr>pc_ipaddr_str := ip, pc_udp_port := port\<rparr>
       else s);
     Some (if pc_stage (pc_state s) < pc_stage PC_STUN_DONE_STATE then
         (let s = s\<lparr>pc_state := PC_STUN_DONE_STATE\<rparr> in (s, pc_Report ''stun'' ''ready'' s @ [DtlsStart]))
       else (s, [])) }"

text \<open>
  \<open>stun_mem\<close> is the memory of the STUN packet; \<open>dec_rtp\<close> and \<open>dec_rtcp\<close> stand for the decryption.  A datagram of DTLS is
  copied to an array of 8192 bytes and goes to the handshake, which is not modelled.
\<close>

definition pc_OnRead :: "int \<Rightarrow> bytes \<Rightarrow> rtcp_mem \<Rightarrow> bytes \<Rightarrow> (bytes \<Rightarrow> string) \<Rightarrow> (bytes \<Rightarrow> (bytes \<times> nat) option) \<Rightarrow>
    (bytes \<Rightarrow> (bytes \<times> nat) option) \<Rightarrow> bytes \<Rightarrow> peer_connection \<Rightarrow> (peer_connection \<times> pc_event list) option option" where
  "pc_OnRead now heap mems stun_mem ntop dec_rtp dec_rtcp d s =
     (if IsStun d then Some (case StunParse stun_mem d of
          None \<Rightarrow> None
        | Some (Inl e) \<Rightarrow> Some (s, [])
        | Some (Inr pkt) \<Rightarrow> OnStun ntop pkt s)
      else if IsRtcp d then HandleRtcp now mems (dec_rtcp d) s
      else if IsRtp d then Some (HandleRtpData now heap (dec_rtp d) s)
      else if IsDtls d then Some (if length d \<le> 8192 then Some (s, []) else None)
      else Some (Some (s, [])))"

section \<open>The timer\<close>

text \<open>
  \<open>SendStun\<close>: \<open>trid\<close> is the transaction id, an array that nothing initializes.  An exception of the HMAC is
  caught nowhere.
\<close>

definition binding_request :: "bytes \<Rightarrow> peer_connection \<Rightarrow> stun_packet" where
  "binding_request trid s = (new_StunPacket 0 0 trid)\<lparr>username := remote_fragment s @ [0x3a] @ local_fragment s, password := remote_pwd s,
     has_use_candidate := True, add_msg_integrity := True, priority := 100\<rparr>"

definition SendStun :: "(bytes \<Rightarrow> bytes \<Rightarrow> bytes option) \<Rightarrow> bytes \<Rightarrow> int \<Rightarrow> peer_connection \<Rightarrow> (peer_connection \<times> pc_event list) option" where
  "SendStun hmac trid now s =
     (if pc_stage (pc_state s) < pc_stage PC_SDP_DONE_STATE \<or> last_stun_ms s > 0 \<and> now - last_stun_ms s < 800 then Some (s, [])
      else let s = s\<lparr>last_stun_ms := now\<rparr> in
        (case ice_udp s of None \<Rightarrow> Some (s, []) | Some udp \<Rightarrow> do {
           require udp;
           r \<leftarrow> Serialize hmac (binding_request trid s);
           case r of Inl e \<Rightarrow> None | Inr (n, pkt) \<Rightarrow> Some (s, [BindingRequest (take n (stun_data pkt))]) }))"

definition rr_of :: "bytes \<Rightarrow> int \<Rightarrow> rtc_recv_stream option \<Rightarrow> rtcp_rr \<Rightarrow> (rtcp_rr \<times> rtc_recv_stream option) option" where
  "rr_of mem now r rr = (case r of None \<Rightarrow> Some (rr, None)
     | Some v \<Rightarrow> do { (b, v) \<leftarrow> GetRtcpRr mem now v; rr \<leftarrow> AddRrBlock b rr; Some (rr, Some v) })"

definition SendRr :: "bytes \<Rightarrow> bytes \<Rightarrow> int \<Rightarrow> peer_connection \<Rightarrow> (peer_connection \<times> pc_event list) option" where
  "SendRr vmem amem now s =
     (if last_rr_ms s \<le> 0 then Some (s\<lparr>last_rr_ms := now\<rparr>, [])
      else if now - last_rr_ms s < RTCP_RR_INTERVAL then Some (s, [])
      else do {
        (rr, v) \<leftarrow> rr_of vmem now (video_recv_stream s) new_RtcpRrPacket;
        (rr, a) \<leftarrow> rr_of amem now (audio_recv_stream s) rr;
        let s = s\<lparr>last_rr_ms := now, video_recv_stream := v, audio_recv_stream := a\<rparr>;
        if v = None \<and> a = None then Some (s, [])
        else do { (d, rr) \<leftarrow> rr_GetData rr; Some (s, pc_send [SendRtcpPacket d] s) } })"

definition dlrr_of :: "u32 \<Rightarrow> u32 \<Rightarrow> rtc_send_stream option \<Rightarrow> xr_dlrr \<Rightarrow> xr_dlrr option" where
  "dlrr_of lrr dlrr r x = (case r of None \<Rightarrow> Some x | Some v \<Rightarrow> AddrDlrrBlock (ss_ssrc v) lrr dlrr x)"

definition SendXrDlrr :: "int \<Rightarrow> peer_connection \<Rightarrow> (peer_connection \<times> pc_event list) option" where
  "SendXrDlrr now s =
     (if direct_type s \<noteq> SEND_ONLY then Some (s, [])
      else if last_send_xr_dlrr_ms s \<le> 0 then Some (s\<lparr>last_send_xr_dlrr_ms := now\<rparr>, [])
      else if now - last_send_xr_dlrr_ms s < 1000 then Some (s, [])
      else let s = s\<lparr>last_send_xr_dlrr_ms := now\<rparr> in
        if last_xr_ms s \<le> 0 \<or> now - last_xr_ms s > 5000 then Some (s, [])
        else do {
          let diff_ms = now - last_xr_ms s;
          let lrr = compact_ntp (last_xr_ntp s);
          let dlrr = push_bit 16 (of_int (diff_ms sdiv 1000)) OR of_int ((diff_ms smod 1000) * 65536 sdiv 1000);
          x \<leftarrow> dlrr_of lrr dlrr (video_send_stream s) (dlrr_SetSsrc 1 new_XrDlrr);
          x \<leftarrow> dlrr_of lrr dlrr (audio_send_stream s) x;
          Some (s, pc_send [SendRtcpPacket (take (dlrr_data_len x) (dlrr_data x))] s) })"

text \<open>\<open>OnStatics\<close>: the numbers it reports, every two seconds.\<close>

definition send_video_statics :: "int \<Rightarrow> rtc_send_stream \<Rightarrow> rtc_send_stream \<times> pc_event" where
  "send_video_statics now v =
     (let ((resent, resend_pps), v) = ss_GetResendCount now v; (kbps, pps, v) = ss_GetStatics now v in
      (v, VideoStatics kbps (case pps of None \<Rightarrow> 0 | Some n \<Rightarrow> n) (ss_GetRtt v) (ss_jitter v) (lost_rate v) resent resend_pps))"

definition send_audio_statics :: "int \<Rightarrow> rtc_send_stream \<Rightarrow> rtc_send_stream \<times> pc_event" where
  "send_audio_statics now v =
     (let (kbps, pps, v) = ss_GetStatics now v in
      (v, AudioStatics kbps (case pps of None \<Rightarrow> 0 | Some n \<Rightarrow> n) (ss_GetRtt v) (ss_jitter v) (lost_rate v)))"

definition recv_video_statics :: "int \<Rightarrow> rtc_recv_stream \<Rightarrow> rtc_recv_stream \<times> pc_event" where
  "recv_video_statics now v =
     (let (resent, resend_pps, v) = rs_GetResendCount now v; (kbps, pps, v) = rs_GetStatics now v in
      (v, VideoStatics kbps (case pps of None \<Rightarrow> 0 | Some n \<Rightarrow> n) (of_int (rs_avg_rtt v)) (of_int (rs_jitter v)) (float32 (lost_percent v))
            resent (case resend_pps of None \<Rightarrow> 0 | Some n \<Rightarrow> n)))"

definition recv_audio_statics :: "int \<Rightarrow> rtc_recv_stream \<Rightarrow> rtc_recv_stream \<times> pc_event" where
  "recv_audio_statics now v =
     (let (kbps, pps, v) = rs_GetStatics now v in
      (v, AudioStatics kbps (case pps of None \<Rightarrow> 0 | Some n \<Rightarrow> n) (of_int (rs_avg_rtt v)) (of_int (rs_jitter v)) (float32 (lost_percent v))))"

definition statics_of :: "('a \<Rightarrow> 'a \<times> pc_event) \<Rightarrow> 'a option \<Rightarrow> 'a option \<times> pc_event list" where
  "statics_of f r = (case r of None \<Rightarrow> (None, []) | Some v \<Rightarrow> (let (v, e) = f v in (Some v, [e])))"

definition OnStatics :: "int \<Rightarrow> peer_connection \<Rightarrow> peer_connection \<times> pc_event list" where
  "OnStatics now s =
     (if pc_stage (pc_state s) < pc_stage PC_DTLS_DONE_STATE then (s, [])
      else if last_statics_ms s \<le> 0 then (s\<lparr>last_statics_ms := now\<rparr>, [])
      else if last_statics_ms s + 2000 > now then (s, [])
      else
        (let (vs, e1) = statics_of (send_video_statics now) (video_send_stream s);
             (as, e2) = statics_of (send_audio_statics now) (audio_send_stream s);
             (vr, e3) = statics_of (recv_video_statics now) (video_recv_stream s);
             (ar, e4) = statics_of (recv_audio_statics now) (audio_recv_stream s)
         in (s\<lparr>last_statics_ms := now, video_send_stream := vs, audio_send_stream := as, video_recv_stream := vr, audio_recv_stream := ar\<rparr>,
             if state_report s then e1 @ e2 @ e3 @ e4 else [])))"

definition send_timer :: "int \<Rightarrow> rtc_send_stream option \<Rightarrow> rtc_send_stream option \<times> send_event list" where
  "send_timer now r = (case r of None \<Rightarrow> (None, []) | Some v \<Rightarrow> (let (v, evs) = ss_OnTimer now v in (Some v, evs)))"

definition recv_timer :: "int \<Rightarrow> rtc_recv_stream option \<Rightarrow> rtc_recv_stream option \<times> send_event list" where
  "recv_timer now r = (case r of None \<Rightarrow> (None, []) | Some v \<Rightarrow> (let (v, evs) = rs_OnTimer now now v in (Some v, evs)))"

definition pc_OnTimer :: "(bytes \<Rightarrow> bytes \<Rightarrow> bytes option) \<Rightarrow> bytes \<Rightarrow> bytes \<Rightarrow> bytes \<Rightarrow> int \<Rightarrow> peer_connection \<Rightarrow> (peer_connection \<times> pc_event list) option" where
  "pc_OnTimer hmac trid vmem amem now s =
     (if pc_stage (pc_state s) < pc_stage PC_SDP_DONE_STATE then Some (s, [])
      else do {
        (s, e0) \<leftarrow> SendStun hmac trid now s;
        if pc_stage (pc_state s) < pc_stage PC_DTLS_DONE_STATE then Some (s, e0)
        else do {
          let (v, e1) = send_timer now (video_send_stream s);
          let (a, e2) = send_timer now (audio_send_stream s);
          let (r, e3) = recv_timer now (video_recv_stream s);
          let s = s\<lparr>video_send_stream := v, audio_send_stream := a, video_recv_stream := r\<rparr>;
          (s, e4) \<leftarrow> SendRr vmem amem now s;
          (s, e5) \<leftarrow> SendXrDlrr now s;
          let (s, e6) = OnStatics now s;
          Some (s, e0 @ pc_send (e1 @ e2 @ e3) s @ e4 @ e5 @ e6) } })"

section \<open>A datagram that hangs the receiver\<close>

text \<open>
  8998 bytes 200, the type of a sender report, behind the start of a payload-specific feedback packet: each header in
  them is a sender report of a wrong length, which steps back by one byte.
\<close>

definition step_back :: "bytes \<Rightarrow> bool" where
  "step_back m \<longleftrightarrow> 9000 \<le> length m \<and> m ! 1 = RTCP_PSFB \<and> (\<forall>k. 2 \<le> k \<and> k < 9000 \<longrightarrow> m ! k = RTCP_SR)"

lemma step_back_item:
  assumes "step_back m" "p \<le> 8996"
  shows "rtcp_item now mem vbufs abufs m p left_len s = Some ((if p = 0 then 8996 else -1, s), [])"
proof -
  define h where "h = take 4 (drop p m)"
  have l: "p + 4 \<le> length m" using assms by (simp add: step_back_def)
  then have h: "slice p 4 m = Some h" "length h = 4" by (simp_all add: slice_def grab_def h_def)
  have b: "h ! 1 = m ! (p + 1)" "h ! 2 = RTCP_SR" "h ! 3 = RTCP_SR"
    using assms l by (simp_all add: h_def step_back_def)
  have "net16 h 2 = of_nat (200 * 256 + 200)" using net16_nth [of 2 h] h(2) b by (simp add: RTCP_SR_def)
  then have n: "unat (GetRtcpLength h) = 8992" by (simp add: GetRtcpLength_def)
  show ?thesis
  proof (cases "p = 0")
    case True
    then have "h ! 1 = RTCP_PSFB" using b(1) assms(1) by (simp add: step_back_def)
    then show ?thesis using True h(1) n by (simp add: rtcp_item_def RTCP_SR_def RTCP_RR_def RTCP_RTPFB_def RTCP_PSFB_def HandleRtcpPsFb_def)
  next
    case False
    then have "h ! 1 = RTCP_SR" using b(1) assms by (simp add: step_back_def)
    then show ?thesis using False h(1) n by (simp add: rtcp_item_def pc_HandleRtcpSr_def)
  qed
qed

lemma step_back_loop:
  assumes "rtcp_loop now mems k m p left_len s out = Some y"
  shows "step_back m \<Longrightarrow> 0 \<le> p \<Longrightarrow> p \<le> 8996 \<Longrightarrow> 8996 < p + left_len \<Longrightarrow> False"
  using assms
proof (induction rule: rtcp_loop.raw_induct [rotated, consumes 1])
  case (1 f now mems k m p left_len s out y)
  have i: "rtcp_item now (fst (mems k)) (fst (snd (mems k))) (snd (snd (mems k))) m (nat p) left_len s =
      Some ((if nat p = 0 then 8996 else -1, s), [])"
    using step_back_item [OF 1(3), of "nat p"] 1(4,5) by simp
  have "0 < left_len" using 1(5,6) by linarith
  then have "f now mems (k + 1) m (p + (if nat p = 0 then 8996 else -1)) (left_len - (if nat p = 0 then 8996 else -1)) s (out @ []) = Some y"
    using 1(2) i 1(4) by simp
  from 1(1) [OF this 1(3)] show False using 1(4-6) by (cases "p = 0") simp_all
qed

text \<open>
  C36: One datagram hangs the receiver for ever.  A wrong length of a sender report makes \<open>HandleRtcpSr\<close> return -1, and
  \<open>HandleRtcp\<close> goes on one byte before it.  A datagram of more than 8996 bytes that begins as a payload-specific
  feedback packet, of which the length leads to its byte 8996, and that holds the byte 200 otherwise, goes back from there byte by byte to its start
  and from there to byte 8996 again.  It fits in the buffer of the socket, which has 10240 bytes.
\<close>
theorem rtcp_never_returns:
  assumes "read_srtp s" "step_back m" "8996 < len"
  shows "HandleRtcp now mems (Some (m, len)) s = None"
proof (rule ccontr)
  assume "HandleRtcp now mems (Some (m, len)) s \<noteq> None"
  then obtain y where "rtcp_loop now mems 0 m 0 (int len) s [] = Some y" using assms(1) by (auto simp: HandleRtcp_def)
  from step_back_loop [OF this assms(2)] show False using assms(3) by simp
qed

theorem rtcp_never_returns_witness:
  "\<exists>m s. length m = 10240 \<and> IsRtcp m \<and> read_srtp s \<and> (\<forall>now mems. HandleRtcp now mems (Some (m, 9000)) s = None)"
proof (intro exI conjI allI)
  let ?m = "[0x80, RTCP_PSFB] @ replicate 10238 RTCP_SR" and ?s = "undefined\<lparr>read_srtp := True\<rparr>"
  show "length ?m = 10240" by simp
  show "IsRtcp ?m" by (simp add: IsRtcp_def RTCP_PSFB_def)
  show "read_srtp ?s" by simp
  show "HandleRtcp now mems (Some (?m, 9000)) ?s = None" for now mems
  proof (rule rtcp_never_returns)
    have "?m ! k = RTCP_SR" if k: "2 \<le> k" "k < 9000" for k
      using k nth_append [of "[0x80, RTCP_PSFB]" "replicate 10238 RTCP_SR" k] by simp
    moreover have "?m ! 1 = RTCP_PSFB" by simp
    moreover have "9000 \<le> length ?m" by simp
    ultimately show "step_back ?m" unfolding step_back_def by blast
  qed simp_all
qed

end
