(* ===== verification/RtcFrames.thy ===== *)
theory RtcFrames
  imports RtcSend
begin

text \<open>
  What the packets of a frame say to the depacketizer: the contents that the sender makes of
  a sequence of frames, and the NALUs that \<open>PackHandleH264\<close> makes of them again.
\<close>

section \<open>Contents that decode to NALUs\<close>

fun numbered :: "int \<Rightarrow> (bytes \<times> u32) list \<Rightarrow> rtp_packet_info list \<Rightarrow> bool" where
  "numbered e [] is \<longleftrightarrow> is = []"
| "numbered e (c # cs) [] \<longleftrightarrow> False"
| "numbered e (c # cs) (i # is) \<longleftrightarrow> has_payload (fst c) (info_pkt i) \<and> GetTimestamp (info_pkt i) = snd c \<and>
     extend_seq i = e \<and> numbered (e + 1) cs is"

definition h264_out :: "bytes \<times> u32 \<Rightarrow> pack_event" where
  "h264_out u = MediaPacketOutput (h264_frame (START_CODE @ fst u) (int (unat (snd u))) (hd (fst u) AND 0x1f))"

definition decodes :: "(bytes \<times> u32) list \<Rightarrow> (bytes \<times> u32) list \<Rightarrow> bool" where
  "decodes cs us \<longleftrightarrow> (\<forall>e arr s. numbered e cs (map snd arr) \<longrightarrow> ph_ready e s \<longrightarrow>
     (\<forall>(now, i)\<in>set arr. in_time now (map snd arr)) \<longrightarrow>
     (\<exists>s'. ph_run arr s = Some (s', map h264_out us) \<and> ph_ready (e + int (length cs)) s'))"

lemma numbered_append:
  assumes "numbered e (cs @ cs') (map snd arr)"
  obtains arr1 arr2 where "arr = arr1 @ arr2" "numbered e cs (map snd arr1)" "numbered (e + int (length cs)) cs' (map snd arr2)"
proof -
  have "\<exists>arr1 arr2. arr = arr1 @ arr2 \<and> numbered e cs (map snd arr1) \<and> numbered (e + int (length cs)) cs' (map snd arr2)"
    using assms
  proof (induction cs arbitrary: e arr)
    case (Cons c cs)
    then obtain a arr' where arr: "arr = a # arr'" by (cases arr) auto
    then have "numbered (e + 1) (cs @ cs') (map snd arr')" using Cons.prems by simp
    from Cons.IH [OF this] obtain arr1 arr2 where "arr' = arr1 @ arr2" "numbered (e + 1) cs (map snd arr1)"
      "numbered (e + 1 + int (length cs)) cs' (map snd arr2)" by blast
    then show ?case using Cons.prems by (intro exI [of _ "a # arr1"] exI [of _ arr2]) (simp add: arr add_ac)
  qed simp
  then show thesis using that by blast
qed

lemma ph_run_append:
  "ph_run (xs @ ys) s = do { (s, evs) \<leftarrow> ph_run xs s; (s, evs') \<leftarrow> ph_run ys s; Some (s, evs @ evs') }"
proof (induction xs arbitrary: s)
  case Nil
  show ?case by (simp split: prod.splits Option.bind_splits)
next
  case (Cons x xs)
  obtain now i where x: "x = (now, i)" by (cases x)
  show ?case by (simp add: x Cons.IH split: prod.splits Option.bind_splits)
qed

lemma decodes_Nil: "decodes [] []"
  by (simp add: decodes_def)

lemma decodes_append: "decodes cs us \<Longrightarrow> decodes cs' us' \<Longrightarrow> decodes (cs @ cs') (us @ us')"
  unfolding decodes_def
proof (intro allI impI, goal_cases)
  case (1 e arr s)
  obtain arr1 arr2 where arr: "arr = arr1 @ arr2" "numbered e cs (map snd arr1)" "numbered (e + int (length cs)) cs' (map snd arr2)"
    using 1(3) by (rule numbered_append)
  have t: "\<forall>(now, i)\<in>set arr1. in_time now (map snd arr1)" "\<forall>(now, i)\<in>set arr2. in_time now (map snd arr2)"
    using 1(5) unfolding arr(1) by (fastforce simp: in_time_def)+
  obtain s1 where s1: "ph_run arr1 s = Some (s1, map h264_out us)" "ph_ready (e + int (length cs)) s1"
    using 1(1) arr(2) 1(4) t(1) by blast
  obtain s2 where s2: "ph_run arr2 s1 = Some (s2, map h264_out us')" "ph_ready (e + int (length cs) + int (length cs')) s2"
    using 1(2) arr(3) s1(2) t(2) by blast
  show ?case using s1 s2 by (simp add: arr(1) ph_run_append add.assoc)
qed

text \<open>
  A sequence of contents in blocks, one for each frame: a block has to come within the timeout of the
  depacketizer, the sequence takes as long as it takes.  \<open>block_end ls k\<close> is the last number of the block of number \<open>k\<close>,
  if the blocks have the lengths \<open>ls\<close> and the first number is 0.
\<close>

fun block_end :: "nat list \<Rightarrow> int \<Rightarrow> int" where
  "block_end [] k = k"
| "block_end (l # ls) k = (if k < int l then int l - 1 else int l + block_end ls (k - int l))"

lemma block_end_ge: "k \<le> block_end ls k"
proof (induction ls k rule: block_end.induct)
  case (2 l ls k)
  then show ?case by (cases "k < int l") auto
qed simp

definition blocks_in_time :: "int \<Rightarrow> nat list \<Rightarrow> (int \<times> rtp_packet_info) list \<Rightarrow> bool" where
  "blocks_in_time e ls arr \<longleftrightarrow> (\<forall>(now, i)\<in>set arr. \<forall>j\<in>set (map snd arr).
     extend_seq i \<le> e + block_end ls (extend_seq j - e) \<longrightarrow> now - local_ms (info_pkt j) < PACK_BUFFER_TIMEOUT)"

lemma blocks_in_timeD:
  "blocks_in_time e ls arr \<Longrightarrow> (now, i) \<in> set arr \<Longrightarrow> j \<in> set (map snd arr) \<Longrightarrow>
   extend_seq i \<le> e + block_end ls (extend_seq j - e) \<Longrightarrow> now - local_ms (info_pkt j) < PACK_BUFFER_TIMEOUT"
  unfolding blocks_in_time_def by blast

definition decodes_blocks :: "nat list \<Rightarrow> (bytes \<times> u32) list \<Rightarrow> (bytes \<times> u32) list \<Rightarrow> bool" where
  "decodes_blocks ls cs us \<longleftrightarrow> (\<forall>e arr s. numbered e cs (map snd arr) \<longrightarrow> ph_ready e s \<longrightarrow> blocks_in_time e ls arr \<longrightarrow>
     (\<exists>s'. ph_run arr s = Some (s', map h264_out us) \<and> ph_ready (e + int (length cs)) s'))"

lemma numbered_range: "numbered e cs is \<Longrightarrow> i \<in> set is \<Longrightarrow> e \<le> extend_seq i \<and> extend_seq i < e + int (length cs)"
  by (induction e cs "is" rule: numbered.induct) force+

lemma decodes_blocks_Nil: "decodes_blocks [] [] []"
  by (simp add: decodes_blocks_def)

lemma decodes_blocks_Cons:
  assumes "decodes c us" "decodes_blocks ls cs us'"
  shows "decodes_blocks (length c # ls) (c @ cs) (us @ us')"
  unfolding decodes_blocks_def
proof (intro allI impI, goal_cases)
  case (1 e arr s)
  obtain arr1 arr2 where arr: "arr = arr1 @ arr2" "numbered e c (map snd arr1)" "numbered (e + int (length c)) cs (map snd arr2)"
    using 1(1) by (rule numbered_append)
  note bl = 1(3)
  have "\<forall>(now, i)\<in>set arr1. in_time now (map snd arr1)"
  proof (clarsimp simp: in_time_def, goal_cases)
    case (1 now i now' j)
    then have "i \<in> set (map snd arr1)" "j \<in> set (map snd arr1)" by force+
    then have "extend_seq i \<le> e + block_end (length c # ls) (extend_seq j - e)"
      using numbered_range [OF arr(2), of i] numbered_range [OF arr(2), of j] by auto
    moreover have "(now, i) \<in> set arr" "j \<in> set (map snd arr)" using 1 by (force simp: arr(1))+
    ultimately show ?case using blocks_in_timeD [OF bl] by blast
  qed
  then obtain s1 where s1: "ph_run arr1 s = Some (s1, map h264_out us)" "ph_ready (e + int (length c)) s1"
    using assms(1) arr(2) 1(2) unfolding decodes_def by blast
  have "blocks_in_time (e + int (length c)) ls arr2"
    unfolding blocks_in_time_def
  proof (clarify)
    fix now i j assume i: "(now, i) \<in> set arr2" and j: "j \<in> set (map snd arr2)"
      and le: "extend_seq i \<le> e + int (length c) + block_end ls (extend_seq j - (e + int (length c)))"
    have "e + int (length c) \<le> extend_seq j" using numbered_range [OF arr(3) j] by simp
    then have "e + block_end (length c # ls) (extend_seq j - e) = e + int (length c) + block_end ls (extend_seq j - (e + int (length c)))"
      by (simp add: diff_diff_eq)
    moreover have "(now, i) \<in> set arr" "j \<in> set (map snd arr)" using i j by (simp_all add: arr(1))
    ultimately show "now - local_ms (info_pkt j) < PACK_BUFFER_TIMEOUT"
      using blocks_in_timeD [OF bl] le by simp
  qed
  then obtain s2 where s2: "ph_run arr2 s1 = Some (s2, map h264_out us')" "ph_ready (e + int (length c) + int (length cs)) s2"
    using assms(2) arr(3) s1(2) unfolding decodes_blocks_def by blast
  show ?case using s1 s2 by (simp add: arr(1) ph_run_append add.assoc)
qed

text \<open>A NALU that fits in one packet, by its type.\<close>

definition nalu_ok :: "bytes \<Rightarrow> bool" where
  "nalu_ok n \<longleftrightarrow> n \<noteq> [] \<and> length n \<noteq> 1201 \<and> length n < 2 ^ 31 \<and>
     (length n \<le> 1200 \<longrightarrow> 1 \<le> hd n AND 0x1f \<and> hd n AND 0x1f \<le> 23)"

lemma decodes_single:
  assumes "n \<noteq> []" "1 \<le> hd n AND 0x1f" "hd n AND 0x1f \<le> 23"
  shows "decodes [(n, ts)] [(n, ts)]"
  unfolding decodes_def
proof (intro allI impI, goal_cases)
  case (1 e arr s)
  then obtain now i where arr: "arr = [(now, i)]" and i: "has_payload n (info_pkt i)" "GetTimestamp (info_pkt i) = ts" "extend_seq i = e"
    by (cases arr; cases "tl arr") auto
  have "rd (GetPayload (info_pkt i)) 0 = Some (hd n)" using has_payload_rd [OF i(1), of 0] assms(1) by (simp add: hd_conv_nth)
  moreover have "payload_from 0 (info_pkt i) = Some n" using has_payload_from [OF i(1), of 0] by simp
  ultimately have "input_payload now i s' = Some (s', [h264_out (n, ts)])" for s'
    using assms i(2) by (simp add: input_payload_def h264_out_def)
  then show ?case using 1(2) i(3) by (auto simp: arr ph_InputRtpPacket_def ph_ready_def)
qed

lemma decodes_stapa:
  assumes "h AND 0x1f = kStapA" "ns \<noteq> []" "\<forall>n\<in>set ns. n \<noteq> []" "stap_size ns \<le> 1487"
  shows "decodes [(h # concat (map stap_entry ns), ts)] (map (\<lambda>n. (n, ts)) ns)"
  unfolding decodes_def
proof (intro allI impI, goal_cases)
  case (1 e arr s)
  then obtain now i where arr: "arr = [(now, i)]" and i: "has_payload (h # concat (map stap_entry ns)) (info_pkt i)"
    "GetTimestamp (info_pkt i) = ts" "extend_seq i = e"
    by (cases arr; cases "tl arr") auto
  show ?case using stapa_receive [OF assms(2-4,1) i(1), of s now] 1(2) i(2,3)
    by (auto simp: arr comp_def h264_out_def ph_ready_def)
qed

lemma numbered_fu:
  assumes "fu_packets h first fs ps" "numbered e (map (\<lambda>p. (payload_of p, ts)) ps) is"
  shows "fu_infos h first ts e fs is"
  using assms
proof (induction h first fs ps arbitrary: e "is" rule: fu_packets.induct)
  case (3 h first f fs p ps)
  then show ?case by (cases "is") (auto simp: carries_def)
qed simp_all

lemma decodes_fua:
  assumes "fu_packets (hd n) True (cut_sizes (split_loop (length n - 1)) (tl n)) ps" "1201 < length n"
  shows "decodes (map (\<lambda>p. (payload_of p, ts)) ps) [(n, ts)]"
  unfolding decodes_def
proof (intro allI impI, goal_cases)
  case (1 e arr s)
  obtain k ks where sp: "split_loop (length n - 1) = k # ks" "ks \<noteq> []"
  proof -
    have "1200 < length n - 1" using assms(2) by simp
    from split_loop_big [OF this] that show thesis by blast
  qed
  let ?fs = "cut_sizes ks (drop k (tl n))"
  have "sum_list (k # ks) = length (tl n)" using split_loop_sizes(1) [of "length n - 1"] unfolding sp(1) by simp
  from concat_cut [OF this] have c: "take k (tl n) @ concat ?fs = tl n" by simp
  have "n \<noteq> []" using assms(2) by auto
  then have n: "START_CODE @ hd n # take k (tl n) @ concat ?fs = START_CODE @ n" unfolding c by simp
  have fi: "fu_infos (hd n) True ts e (take k (tl n) # ?fs) (map snd arr)"
    using numbered_fu [OF assms(1) 1(1)] unfolding sp(1) by simp
  have "length ps = length (cut_sizes (split_loop (length n - 1)) (tl n))"
  proof -
    have "length ps = length fs" if "fu_packets h first fs ps" for h first fs ps
      using that by (induction h first fs ps rule: fu_packets.induct) simp_all
    then show ?thesis using assms(1) by blast
  qed
  then have "length ps = length ks + 1" unfolding sp by simp
  then show ?case using fua_receive [OF fi _ 1(2,3)] sp(2) unfolding n by (auto simp: h264_out_def add_ac)
qed

section \<open>What the sender makes of a sequence of frames\<close>

definition nalu_of :: "media_packet \<Rightarrow> bytes" where "nalu_of m = drop 4 (pkt_data m)"

definition frame_ok :: "media_packet \<Rightarrow> bool" where
  "frame_ok m \<longleftrightarrow> av_type m = MEDIA_VIDEO_TYPE \<and> codec_type m = MEDIA_CODEC_H264 \<and> take 4 (pkt_data m) = START_CODE \<and>
     nalu_ok (nalu_of m) \<and> (is_seq_hdr m \<longrightarrow> length (nalu_of m) < 512)"

text \<open>The NALUs a receiver should get, with their timestamps: the parameter sets are sent before each key frame.\<close>

definition unit_type :: "media_packet \<Rightarrow> u8" where "unit_type m = hd (nalu_of m) AND 0x1f"

definition update_sets :: "media_packet \<Rightarrow> bytes \<times> bytes \<Rightarrow> bytes \<times> bytes" where
  "update_sets m sets = (if unit_type m \<noteq> kSei \<and> is_seq_hdr m then
     (if unit_type m = kSps then nalu_of m else fst sets, if unit_type m = kPps then nalu_of m else snd sets) else sets)"

definition units_of :: "int \<Rightarrow> bytes \<times> bytes \<Rightarrow> media_packet \<Rightarrow> (bytes \<times> u32) list" where
  "units_of rate sets m = (if unit_type m = kSei \<or> is_seq_hdr m then []
     else map (\<lambda>n. (n, of_int (dts m * rate sdiv 1000)))
       ((if is_key_frame m \<and> fst sets \<noteq> [] \<and> snd sets \<noteq> [] then [fst sets, snd sets] else []) @ [nalu_of m]))"

text \<open>The number of packets: one for the parameter sets, and fragments of 1200 bytes of a large NALU.\<close>

definition packet_count :: "bytes \<times> bytes \<Rightarrow> media_packet \<Rightarrow> nat" where
  "packet_count sets m = (if unit_type m = kSei \<or> is_seq_hdr m then 0
     else (if is_key_frame m \<and> fst sets \<noteq> [] \<and> snd sets \<noteq> [] then 1 else 0) +
       (if length (nalu_of m) \<le> 1200 then 1 else (length (nalu_of m) + 1198) div 1200))"

fun units_all :: "int \<Rightarrow> bytes \<times> bytes \<Rightarrow> media_packet list \<Rightarrow> (bytes \<times> u32) list" where
  "units_all rate sets [] = []"
| "units_all rate sets (m # ms) = units_of rate sets m @ units_all rate (update_sets m sets) ms"

fun count_all :: "bytes \<times> bytes \<Rightarrow> media_packet list \<Rightarrow> nat" where
  "count_all sets [] = 0"
| "count_all sets (m # ms) = packet_count sets m + count_all (update_sets m sets) ms"

lemma length_split_loop: "length (split_loop n) = (n + 1199) div 1200"
proof (induction n rule: split_loop.induct)
  case (1 n)
  show ?case
  proof (cases "n > 1200")
    case True
    then have "length (split_loop n) = 1 + (n - 1200 + 1199) div 1200"
      using 1 by (subst split_loop.simps) (simp add: kPayloadMaxSize_def)
    also have "\<dots> = (n + 1199) div 1200" using True by (simp add: div_if)
    finally show ?thesis .
  qed (subst split_loop.simps, auto simp: kPayloadMaxSize_def div_if)
qed

definition sets_ok :: "rtc_send_stream \<Rightarrow> bool" where
  "sets_ok s \<longleftrightarrow> length (ss_sps s) < 512 \<and> length (ss_pps s) < 512"

lemma nalu_packets:
  assumes "nalu_ok n" "\<forall>k. length (new_bufs k) = 1500"
  obtains ps mk where "\<forall>p\<in>set ps. plain p" "decodes (map (\<lambda>p. (payload_of p, ts)) ps) [(n, ts)]"
    "length ps = (if length n \<le> 1200 then 1 else (length n + 1198) div 1200)"
    "\<forall>copies s. send_nalu now new_bufs copies ts n s = send_video now copies ts mk ps s"
proof (cases "length n \<le> 1200")
  case True
  then have "0 < length n" "length n < 1488" using assms(1) by (auto simp: nalu_ok_def)
  then obtain q where q: "fill_packet (MakeRtpPacket now (new_bufs 0) None (length n)) n = Some (Inr q)" "plain q" "payload_of q = n"
    using fill_made_ok [of "new_bufs 0" n now] assms(2) by blast
  then have "\<forall>copies s. send_nalu now new_bufs copies ts n s = send_video now copies ts (Some 1) [q] s"
    using True by (simp add: send_nalu_def kPayloadMaxSize_def send_built_def GenerateSinglePackets_def)
  moreover have "decodes (map (\<lambda>p. (payload_of p, ts)) [q]) [(n, ts)]"
    using decodes_single [of n ts] assms(1) True q(3) by (simp add: nalu_ok_def)
  ultimately show thesis using that [of "[q]" "Some 1"] q(2) True by simp
next
  case False
  then have l: "1201 < length n" "length n < 2 ^ 31" using assms(1) by (auto simp: nalu_ok_def)
  obtain ps where ps: "GenerateFuAPackets now new_bufs n None = Some (Inr ps)"
    "fu_packets (hd n) True (cut_sizes (split_loop (length n - 1)) (tl n)) ps" "length ps = length (split_loop (length n - 1))"
    using GenerateFuAPackets_ok [of new_bufs n now] assms(2) l by auto
  have "\<forall>copies s. send_nalu now new_bufs copies ts n s = send_video now copies ts None ps s"
    using ps(1) False by (simp add: send_nalu_def kPayloadMaxSize_def send_built_def)
  moreover have "length ps = (length n + 1198) div 1200" using ps(3) l by (simp add: length_split_loop)
  ultimately show thesis
    using that [of ps None] decodes_fua [OF ps(2) l(1), of ts] GenerateFuAPackets_plain [OF ps(1) l(2)] False by simp
qed

lemma stapa_packet:
  assumes "length buf = 1500" "ns \<noteq> []" "\<forall>n\<in>set ns. n \<noteq> []" "stap_size ns < 1487"
  obtains q where "GenerateStapAPackets now buf ns None = Some (Inr q)" "plain q" "decodes [(payload_of q, ts)] (map (\<lambda>n. (n, ts)) ns)"
proof -
  have "hd ns \<noteq> []" using assms(2,3) by simp
  then obtain q h where q: "GenerateStapAPackets now buf ns None = Some (Inr q)" "h AND 0x1f = kStapA"
    "carries (h # concat (map stap_entry ns)) q"
    using GenerateStapAPackets_ok [OF assms(1,2), of now] assms(4) by (metis less_imp_le)
  let ?k = "1 + (\<Sum>nalu\<leftarrow>ns. 2 + length nalu)"
  obtain p h' where p: "MakeRtpPacket now buf None ?k = Some (Inr (Some p))"
    "fill_packet (Some (Inr (Some p))) (h' # concat (map stap_entry ns)) = Some (Inr q)"
    using q(1) by (auto simp: GenerateStapAPackets_def fill_packet_def [of None] fill_packet_def [of "Some (Inl _)"]
        fill_packet_def [of "Some (Inr None)"] split: option.splits sum.splits Option.bind_splits)
  have k: "?k < 1488" using assms(4) unfolding stap_size_sum by simp
  note mk = MakeRtpPacket_plain [OF p(1) _ k]
  have "length (h' # concat (map stap_entry ns)) = ?k" unfolding stap_size_sum by (simp add: stap_size_def)
  then have "plain q" using fill_plain(1) [OF p(2)] mk by simp
  moreover have "payload_of q = h # concat (map stap_entry ns)" using q(3) by (simp add: carries_def)
  ultimately show thesis using that [OF q(1)] decodes_stapa [OF q(2) assms(2,3), of ts] assms(4) by simp
qed

text \<open>One frame, from the state in which \<open>cs\<close> has been sent.\<close>

definition sets_of :: "rtc_send_stream \<Rightarrow> bytes \<times> bytes" where "sets_of s = (ss_sps s, ss_pps s)"

definition stream_of :: "rtc_send_stream \<Rightarrow> (bool \<times> bool \<times> u32 \<times> u8 \<times> int) \<times> (u8 \<times> u32)" where
  "stream_of s = ((ss_nack_enable s, ss_has_rtx s, ss_ssrc s, ss_pt s, ss_clock_rate s), (rtx_payload s, rtx_ssrc s))"

lemma config_same: "config s' = config s \<longleftrightarrow> stream_of s' = stream_of s \<and> sets_of s' = sets_of s"
  by (auto simp: config_def stream_of_def sets_of_def)

lemma send_sets_ok:
  assumes "sets_ok s" "length buf = 1500" "\<forall>k. length (copies k) = 1500" "buffer_holds cs s"
  shows "\<exists>s' evs ds. send_sets now buf copies ts m s = Some (Inr (s', evs)) \<and> config s' = config s \<and>
    ss_seq s' = ss_seq s + of_nat (length ds) \<and> sent_as (ss_ssrc s) (ss_seq s) ds (rtp_out evs) \<and> buffer_holds (cs @ ds) s' \<and>
    decodes ds (map (\<lambda>n. (n, ts)) (if is_key_frame m \<and> ss_sps s \<noteq> [] \<and> ss_pps s \<noteq> [] then [ss_sps s, ss_pps s] else [])) \<and>
    length ds = (if is_key_frame m \<and> ss_sps s \<noteq> [] \<and> ss_pps s \<noteq> [] then 1 else 0)"
proof (cases "is_key_frame m \<and> ss_sps s \<noteq> [] \<and> ss_pps s \<noteq> []")
  case True
  have "\<forall>n\<in>set [ss_sps s, ss_pps s]. n \<noteq> []" "stap_size [ss_sps s, ss_pps s] < 1487"
    using True assms(1) by (simp_all add: sets_ok_def)
  then obtain q where q: "GenerateStapAPackets now buf [ss_sps s, ss_pps s] None = Some (Inr q)" "plain q"
    "decodes [(payload_of q, ts)] (map (\<lambda>n. (n, ts)) [ss_sps s, ss_pps s])"
    using stapa_packet [OF assms(2), of "[ss_sps s, ss_pps s]" now ts] by blast
  then have "send_sets now buf copies ts m s = send_video now copies ts (Some 0) [q] s"
    using True by (simp add: send_sets_def send_built_def)
  moreover have "\<forall>p\<in>set [q]. plain p" using q(2) by simp
  ultimately show ?thesis using send_video_ok [OF _ assms(3,4), of "[q]" now ts "Some 0"] q(3) True
    by (fastforce intro!: exI [of _ "[(payload_of q, ts)]"])
next
  case False
  then show ?thesis using assms(4) by (intro exI [of _ s] exI [of _ "[]"]) (auto simp: send_sets_def decodes_Nil)
qed

lemma frame_parts:
  assumes "frame_ok m"
  shows "GetNaluTypePos (pkt_data m) = Some 4" "drop (nat (4 + 1)) (prev # pkt_data m) = nalu_of m"
    "rd (prev # pkt_data m) (nat (4 + 1)) = Some (hd (nalu_of m))" "nalu_of m \<noteq> []"
proof -
  have t: "take 4 (pkt_data m) = START_CODE" "nalu_of m \<noteq> []" using assms by (simp_all add: frame_ok_def nalu_ok_def)
  then have p: "pkt_data m = START_CODE @ nalu_of m" using append_take_drop_id [of 4 "pkt_data m"] by (simp add: nalu_of_def)
  show "GetNaluTypePos (pkt_data m) = Some 4" unfolding p by (simp add: GetNaluTypePos_def START_CODE_def rd_def)
  show "drop (nat (4 + 1)) (prev # pkt_data m) = nalu_of m" by (simp add: nalu_of_def)
  have "4 < length (pkt_data m)" using t(2) by (simp add: nalu_of_def)
  then show "rd (prev # pkt_data m) (nat (4 + 1)) = Some (hd (nalu_of m))"
    by (simp add: rd_def nalu_of_def hd_drop_conv_nth)
  show "nalu_of m \<noteq> []" by (rule t)
qed

lemma frame_sent:
  assumes m: "frame_ok m" and s: "sets_ok s" "buffer_holds cs s"
    and bufs: "\<forall>k. length (new_bufs k) = 1500" "\<forall>k. length (copies k) = 1500"
  shows "\<exists>s' evs ds. SendPacket now new_bufs copies prev m s = Some (Inr (s', evs)) \<and> stream_of s' = stream_of s \<and>
    sets_of s' = update_sets m (sets_of s) \<and> sets_ok s' \<and> ss_seq s' = ss_seq s + of_nat (length ds) \<and>
    sent_as (ss_ssrc s) (ss_seq s) ds (rtp_out evs) \<and> buffer_holds (cs @ ds) s' \<and>
    decodes ds (units_of (ss_clock_rate s) (sets_of s) m) \<and> length ds = packet_count (sets_of s) m"
proof -
  have av: "av_type m = MEDIA_VIDEO_TYPE" "codec_type m = MEDIA_CODEC_H264" and n: "nalu_ok (nalu_of m)"
    using m by (simp_all add: frame_ok_def)
  note p = frame_parts [OF m]
  let ?n = "nalu_of m" and ?ts = "rtp_clock (dts m) s"
  have sei: "H264_IS_SEI (hd ?n) \<longleftrightarrow> unit_type m = kSei" by (simp add: H264_IS_SEI_def unit_type_def)
  have send: "SendPacket now new_bufs copies prev m s =
    (if unit_type m = kSei then Some (Inr (s, []))
     else if is_seq_hdr m then map_option (\<lambda>s. Inr (s, [])) (keep_sets ?n s)
     else (case send_sets now (new_bufs 0) copies ?ts m s of
         None \<Rightarrow> None
       | Some (Inl e) \<Rightarrow> Some (Inl e)
       | Some (Inr (s, evs)) \<Rightarrow> map_option (map_sum id (map_prod id ((@) evs)))
           (send_nalu now (\<lambda>k. new_bufs (k + 1)) (\<lambda>k. copies (k + 1)) ?ts ?n s)))"
    unfolding SendPacket_def av SendH264Packet_def Let_def p(1) bind.bind_lunit p(2) p(3) sei by simp
  consider "unit_type m = kSei" | "unit_type m \<noteq> kSei" "is_seq_hdr m" | "unit_type m \<noteq> kSei" "\<not> is_seq_hdr m" by blast
  then show ?thesis
  proof cases
    case 1
    then have "SendPacket now new_bufs copies prev m s = Some (Inr (s, []))"
by (simp add: send)
    then show ?thesis using 1 s by (intro exI [of _ s] exI [of _ "[]"]) (simp add: update_sets_def units_of_def packet_count_def decodes_Nil)
  next
    case 2
    let ?s = "(if unit_type m = kPps then (\<lambda>s. s\<lparr>ss_pps := ?n\<rparr>) else id) (if unit_type m = kSps then s\<lparr>ss_sps := ?n\<rparr> else s)"
    have l: "length ?n < 512" using m 2(2) by (simp add: frame_ok_def)
    have "rd ?n 0 = Some (hd ?n)" using p(4) by (simp add: rd_def hd_conv_nth)
    moreover have "H264_IS_SPS (hd ?n AND 0x1f) \<longleftrightarrow> unit_type m = kSps" "H264_IS_PPS (hd ?n AND 0x1f) \<longleftrightarrow> unit_type m = kPps"
      by (simp_all add: unit_type_def H264_IS_SPS_def H264_IS_PPS_def and.assoc)
    ultimately have "keep_sets ?n s = Some ?s" using l by (simp add: keep_sets_def)
    then have r: "SendPacket now new_bufs copies prev m s = Some (Inr (?s, []))"
      using 2 by (simp add: send)
    have "stream_of ?s = stream_of s" "sets_of ?s = update_sets m (sets_of s)" "sets_ok ?s" "ss_seq ?s = ss_seq s" "buffer_holds cs ?s"
      using 2 l s by (auto simp: stream_of_def sets_of_def update_sets_def sets_ok_def buffer_holds_def kSps_def kPps_def)
    then show ?thesis using r 2 by (intro exI [of _ ?s] exI [of _ "[]"]) (simp add: units_of_def packet_count_def decodes_Nil)
  next
    case 3
    obtain s1 e1 d1 where s1: "send_sets now (new_bufs 0) copies ?ts m s = Some (Inr (s1, e1))" "config s1 = config s"
      "ss_seq s1 = ss_seq s + of_nat (length d1)" "sent_as (ss_ssrc s) (ss_seq s) d1 (rtp_out e1)" "buffer_holds (cs @ d1) s1"
      "decodes d1 (map (\<lambda>n. (n, ?ts)) (if is_key_frame m \<and> ss_sps s \<noteq> [] \<and> ss_pps s \<noteq> [] then [ss_sps s, ss_pps s] else []))"
      "length d1 = (if is_key_frame m \<and> ss_sps s \<noteq> [] \<and> ss_pps s \<noteq> [] then 1 else 0)"
      using send_sets_ok [OF s(1) _ bufs(2) s(2), of "new_bufs 0" now ?ts m] bufs(1) by blast
    have b: "\<forall>k. length (new_bufs (k + 1)) = 1500" "\<forall>k. length (copies (k + 1)) = 1500" using bufs by blast+
    obtain ps mk where ps: "\<forall>p\<in>set ps. plain p" "decodes (map (\<lambda>p. (payload_of p, ?ts)) ps) [(?n, ?ts)]"
      "length ps = (if length ?n \<le> 1200 then 1 else (length ?n + 1198) div 1200)"
      "\<forall>copies s. send_nalu now (\<lambda>k. new_bufs (k + 1)) copies ?ts ?n s = send_video now copies ?ts mk ps s"
      by (rule nalu_packets [OF n b(1)])
    let ?d = "map (\<lambda>p. (payload_of p, ?ts)) ps"
    obtain s2 e2 where s2: "send_video now (\<lambda>k. copies (k + 1)) ?ts mk ps s1 = Some (Inr (s2, e2))" "config s2 = config s1"
      "ss_seq s2 = ss_seq s1 + of_nat (length ps)" "sent_as (ss_ssrc s1) (ss_seq s1) ?d (rtp_out e2)" "buffer_holds ((cs @ d1) @ ?d) s2"
      using send_video_ok [OF ps(1) b(2) s1(5), of now ?ts mk] by blast
    have r: "SendPacket now new_bufs copies prev m s = Some (Inr (s2, e1 @ e2))"
      using 3 s1(1) ps(4) s2(1) by (simp add: send)
    have c: "config s2 = config s" "ss_ssrc s1 = ss_ssrc s" using s1(2) s2(2) by (simp_all add: config_def)
    have "sent_as (ss_ssrc s) (ss_seq s) (d1 @ ?d) (rtp_out (e1 @ e2))"
      using sent_as_append [OF s1(4)] s2(4) s1(3) c(2) by simp
    moreover have "decodes (d1 @ ?d) (units_of (ss_clock_rate s) (sets_of s) m)"
    proof -
      have "units_of (ss_clock_rate s) (sets_of s) m = map (\<lambda>n. (n, ?ts))
          (if is_key_frame m \<and> ss_sps s \<noteq> [] \<and> ss_pps s \<noteq> [] then [ss_sps s, ss_pps s] else []) @ [(?n, ?ts)]"
        using 3 by (simp add: units_of_def sets_of_def rtp_clock_def)
      then show ?thesis using decodes_append [OF s1(6) ps(2)] by simp
    qed
    moreover have "length (d1 @ ?d) = packet_count (sets_of s) m"
      using s1(7) ps(3) 3 by (simp add: packet_count_def sets_of_def)
    moreover have "stream_of s2 = stream_of s" "sets_of s2 = update_sets m (sets_of s)" "sets_ok s2"
      using c(1) 3 s(1) by (auto simp: config_same update_sets_def sets_of_def sets_ok_def)
    moreover have "ss_seq s2 = ss_seq s + of_nat (length (d1 @ ?d))" "buffer_holds (cs @ d1 @ ?d) s2" using s1(3) s2(3,5) by simp_all
    ultimately show ?thesis using r by blast
  qed
qed

text \<open>
  A sequence of frames: each with the clock, the new buffers, the buffers for the copies and the
  byte in front of it.
\<close>

type_synonym frame_call = "int \<times> (nat \<Rightarrow> bytes) \<times> (nat \<Rightarrow> bytes) \<times> u8 \<times> media_packet"

fun send_frames :: "frame_call list \<Rightarrow> rtc_send_stream \<Rightarrow> rtc_send_stream sending" where
  "send_frames [] s = Some (Inr (s, []))"
| "send_frames ((now, new_bufs, copies, prev, m) # fs) s = (case SendPacket now new_bufs copies prev m s of
     None \<Rightarrow> None
   | Some (Inl e) \<Rightarrow> Some (Inl e)
   | Some (Inr (s, evs)) \<Rightarrow> map_option (map_sum id (map_prod id ((@) evs))) (send_frames fs s))"

definition frame_of :: "frame_call \<Rightarrow> media_packet" where "frame_of f = (case f of (_, _, _, _, m) \<Rightarrow> m)"

definition call_ok :: "frame_call \<Rightarrow> bool" where
  "call_ok f \<longleftrightarrow> (case f of (now, new_bufs, copies, prev, m) \<Rightarrow>
     frame_ok m \<and> (\<forall>k. length (new_bufs k) = 1500) \<and> (\<forall>k. length (copies k) = 1500))"

text \<open>How many packets each of the frames makes.\<close>

fun frame_counts :: "bytes \<times> bytes \<Rightarrow> media_packet list \<Rightarrow> nat list" where
  "frame_counts sets [] = []"
| "frame_counts sets (m # ms) = packet_count sets m # frame_counts (update_sets m sets) ms"

lemma frames_sent:
  assumes "\<forall>f\<in>set fs. call_ok f" "sets_ok s" "buffer_holds cs s"
  shows "\<exists>s' evs ds. send_frames fs s = Some (Inr (s', evs)) \<and> stream_of s' = stream_of s \<and>
    ss_seq s' = ss_seq s + of_nat (length ds) \<and> sent_as (ss_ssrc s) (ss_seq s) ds (rtp_out evs) \<and> buffer_holds (cs @ ds) s' \<and>
    decodes_blocks (frame_counts (sets_of s) (map frame_of fs)) ds (units_all (ss_clock_rate s) (sets_of s) (map frame_of fs)) \<and> length ds = count_all (sets_of s) (map frame_of fs)"
  using assms
proof (induction fs arbitrary: s cs)
  case Nil
  then show ?case by (intro exI [of _ s] exI [of _ "[]"]) (simp add: decodes_blocks_Nil)
next
  case (Cons f fs)
  obtain now new_bufs copies prev m where f: "f = (now, new_bufs, copies, prev, m)" by (cases f)
  have c: "frame_ok m" "\<forall>k. length (new_bufs k) = 1500" "\<forall>k. length (copies k) = 1500"
    using Cons.prems(1) by (simp_all add: f call_ok_def)
  obtain s1 e1 d1 where s1: "SendPacket now new_bufs copies prev m s = Some (Inr (s1, e1))" "stream_of s1 = stream_of s"
    "sets_of s1 = update_sets m (sets_of s)" "sets_ok s1" "ss_seq s1 = ss_seq s + of_nat (length d1)"
    "sent_as (ss_ssrc s) (ss_seq s) d1 (rtp_out e1)" "buffer_holds (cs @ d1) s1"
    "decodes d1 (units_of (ss_clock_rate s) (sets_of s) m)" "length d1 = packet_count (sets_of s) m"
    using frame_sent [OF c(1) Cons.prems(2,3) c(2,3), of now prev] by blast
  obtain s2 e2 d2 where s2: "send_frames fs s1 = Some (Inr (s2, e2))" "stream_of s2 = stream_of s1"
    "ss_seq s2 = ss_seq s1 + of_nat (length d2)" "sent_as (ss_ssrc s1) (ss_seq s1) d2 (rtp_out e2)" "buffer_holds ((cs @ d1) @ d2) s2"
    "decodes_blocks (frame_counts (sets_of s1) (map frame_of fs)) d2 (units_all (ss_clock_rate s1) (sets_of s1) (map frame_of fs))" "length d2 = count_all (sets_of s1) (map frame_of fs)"
    using Cons.IH [OF _ s1(4,7)] Cons.prems(1) by auto
  have same: "ss_ssrc s1 = ss_ssrc s" "ss_clock_rate s1 = ss_clock_rate s" using s1(2) by (simp_all add: stream_of_def)
  have "send_frames (f # fs) s = Some (Inr (s2, e1 @ e2))" using s1(1) s2(1) by (simp add: f)
  moreover have "sent_as (ss_ssrc s) (ss_seq s) (d1 @ d2) (rtp_out (e1 @ e2))"
    using sent_as_append [OF s1(6)] s2(4) s1(5) same by simp
  moreover have "decodes_blocks (frame_counts (sets_of s) (map frame_of (f # fs))) (d1 @ d2)
      (units_all (ss_clock_rate s) (sets_of s) (map frame_of (f # fs)))"
    using decodes_blocks_Cons [OF s1(8) s2(6)] same s1(3,9) by (simp add: f frame_of_def)
  moreover have "length (d1 @ d2) = count_all (sets_of s) (map frame_of (f # fs))"
    using s1(3,9) s2(7) by (simp add: f frame_of_def)
  moreover have "ss_seq s2 = ss_seq s + of_nat (length (d1 @ d2))" "buffer_holds (cs @ d1 @ d2) s2" "stream_of s2 = stream_of s"
    using s1(2,5) s2(2,3,5) by simp_all
  ultimately show ?case by blast
qed

end
