(* ===== verification/RtcPipeline.thy ===== *)
theory RtcPipeline
  imports PeerConn RtcFrames
begin

text \<open>
  From the send stream of one connection over the network to the callback of the other: the composition of
  net/webrtc/rtc_send_stream.cpp with the receiving side of net/webrtc/peerconnection.cpp, that is the receive stream,
  the jitter buffer and the depacketizer.
\<close>

section \<open>Datagrams\<close>

text \<open>What the parser makes of a datagram in the buffer of the socket.\<close>

lemma datagram_parsed:
  assumes "datagram ssrc seq c b"
  obtains q where "Parse now (b @ rest) (length b) = Some (Inr q)" "parsed q" "rtp_data_len q < 1500" "GetSeq q = seq" "GetSsrc q = ssrc"
    "(payload_of q, GetTimestamp q) = c" "local_ms q = now"
proof -
  obtain p where p: "packet_is ssrc seq c p" "b = GetData p" using assms by (auto simp: datagram_def)
  then have pl: "plain p" "GetSeq p = seq" "GetSsrc p = ssrc" "(payload_of p, GetTimestamp p) = c"
    by (simp_all add: packet_is_def content_of_def)
  note ok = parsed_ok [OF plain_parsed [OF pl(1)]]
  then have l: "rtp_data_len p \<le> length (rtp_mem p)" "0 < rtp_data_len p" by (auto simp: rtp_ok_def)
  then have lb: "length b = rtp_data_len p" by (simp add: p(2) GetData_def)
  let ?m = "b @ rest"
  have pm: "put_at 0 (GetData p) ?m = ?m" by (simp add: put_at_def p(2))
  let ?q = "p\<lparr>need_delete := False, mid_extension_id := 0, abs_time_extension_id := 0, rtp_mem := ?m, local_ms := now\<rparr>"
  have "take (length b) ?m = take (length b) (rtp_mem p)" using lb by (simp add: p(2) GetData_def)
  then have P: "Parse now ?m (length b) = Some (Inr ?q)"
    using Parse_cong [OF plain_parsed [OF pl(1), unfolded parsed_def], of ?m now] l lb by simp
  have "rtp_data_len p \<le> length ?m" using lb by simp
  note m = moved_same [OF ok this, of now False]
  have q: "?q = (moved now ?m False p)\<lparr>mid_extension_id := 0, abs_time_extension_id := 0\<rparr>"
    unfolding moved_def pm by simp
  have "GetSeq ?q = seq" "GetSsrc ?q = ssrc" "(payload_of ?q, GetTimestamp ?q) = c"
    unfolding q using m pl by (simp_all add: rtp_getters payload_of_def GetPayload_def)
  moreover have "rtp_data_len ?q < 1500" "local_ms ?q = now" using pl(1) by (simp_all add: plain_def)
  ultimately show thesis using that [OF P Parse_parsed [OF P]] by blast
qed

text \<open>The receive stream takes a packet of its own source as it is.\<close>

definition stream_for :: "u32 \<Rightarrow> int \<Rightarrow> rtc_recv_stream \<Rightarrow> bool" where
  "stream_for ssrc rate v \<longleftrightarrow> rs_ssrc v = ssrc \<and> rs_rtx_ssrc v \<noteq> ssrc \<and> rs_clock_rate v = rate \<and> 0 < rate"

lemma rs_UpdateSeq_config:
  "rs_ssrc (rs_UpdateSeq x v) = rs_ssrc v" "rs_rtx_ssrc (rs_UpdateSeq x v) = rs_rtx_ssrc v"
  "rs_clock_rate (rs_UpdateSeq x v) = rs_clock_rate v"
  by (simp_all add: rs_UpdateSeq_def rs_InitSeq_def Let_def)

lemma HandleRtpPacket_plain:
  assumes "stream_for ssrc rate v" "GetSsrc q = ssrc"
  obtains v' where "HandleRtpPacket q v = Inr (q, v')" "stream_for ssrc rate v'"
proof -
  have "\<exists>v1. GenerateJitter (GetTimestamp q) (local_ms q) v = Some v1 \<and> rs_ssrc v1 = rs_ssrc v \<and>
      rs_rtx_ssrc v1 = rs_rtx_ssrc v \<and> rs_clock_rate v1 = rs_clock_rate v"
    using assms(1) by (cases "last_diff_ms v = 0") (simp_all add: GenerateJitter_def stream_for_def Let_def)
  then have "\<exists>v'. HandleRtpPacket q v = Inr (q, v') \<and> stream_for ssrc rate v'"
    using assms by (auto simp: HandleRtpPacket_def stream_for_def Let_def rs_UpdateSeq_config rs_InitSeq_def)
  then show thesis using that by blast
qed

section \<open>The kind of the packets in a jitter buffer\<close>

definition all_typed :: "MEDIA_PKT_TYPE \<Rightarrow> packets_map \<Rightarrow> bool" where
  "all_typed ty w \<longleftrightarrow> (\<forall>(k, i)\<in>set w. info_media_type i = ty)"

definition typed :: "MEDIA_PKT_TYPE \<Rightarrow> jitter_buffer \<Rightarrow> bool" where
  "typed ty s \<longleftrightarrow> jb_media_type s = ty \<and> all_typed ty (rtp_packets_map s)"

definition events_typed :: "MEDIA_PKT_TYPE \<Rightarrow> jitter_event list \<Rightarrow> bool" where
  "events_typed ty evs \<longleftrightarrow> (\<forall>i\<in>set (outputs evs). info_media_type i = ty)"

lemma events_typed_simps [simp]:
  "events_typed ty []" "events_typed ty (RtpPacketReset i # evs) = events_typed ty evs"
  "events_typed ty (RtpPacketOutput i # evs) \<longleftrightarrow> info_media_type i = ty \<and> events_typed ty evs"
  "events_typed ty (evs @ evs') \<longleftrightarrow> events_typed ty evs \<and> events_typed ty evs'"
  by (auto simp: events_typed_def)

lemma all_typed_simps [simp]:
  "all_typed ty []" "all_typed ty ((k, i) # w) \<longleftrightarrow> info_media_type i = ty \<and> all_typed ty w"
  "all_typed ty (rev w) = all_typed ty w" "all_typed ty (w @ w') \<longleftrightarrow> all_typed ty w \<and> all_typed ty w'"
  by (auto simp: all_typed_def)

lemma map_put_subset: "set (map_put k i w) \<subseteq> insert (k, i) (set w)"
  by (induction k i w rule: map_put.induct) auto

lemma all_typed_put: "all_typed ty w \<Longrightarrow> info_media_type i = ty \<Longrightarrow> all_typed ty (map_put k i w)"
  using map_put_subset [of k i w] by (fastforce simp: all_typed_def)

lemma ReportLost_typed: "jb_ReportLost now i s = (s', evs) \<Longrightarrow> typed ty s' = typed ty s \<and> events_typed ty evs"
  by (auto simp: jb_ReportLost_def typed_def split: if_splits)

lemma flush_typed:
  "all_typed ty w \<Longrightarrow> jb_media_type s = ty \<Longrightarrow>
   typed ty (fst (flush_loop w s)) \<and> events_typed ty (snd (flush_loop w s))"
proof (induction w arbitrary: s)
  case (Cons e w)
  obtain k i where e: "e = (k, i)" by (cases e)
  show ?case
  proof (cases "output_seq s + 1 = k")
    case True
    then show ?thesis using Cons.IH [of "s\<lparr>output_seq := extend_seq i\<rparr>"] Cons.prems
      by (simp add: e jb_OutputPacket_def split_def Let_def)
  qed (use Cons.prems in \<open>simp add: e typed_def\<close>)
qed (simp add: typed_def)

lemma timeout_typed:
  "all_typed ty w \<Longrightarrow> all_typed ty kept \<Longrightarrow> jb_media_type s = ty \<Longrightarrow>
   typed ty (fst (timeout_loop now kept w s)) \<and> events_typed ty (snd (timeout_loop now kept w s))"
proof (induction w arbitrary: kept s)
  case (Cons e w)
  obtain k i where e: "e = (k, i)" by (cases e)
  obtain s1 l where l: "jb_ReportLost now i (s\<lparr>output_seq := extend_seq i\<rparr>) = (s1, l)" by fastforce
  then have s1: "jb_media_type s1 = ty" "events_typed ty l" using Cons.prems(3) by (auto simp: jb_ReportLost_def split: if_splits)
  consider "now - local_ms (info_pkt i) > buffer_timeout s"
    | "\<not> now - local_ms (info_pkt i) > buffer_timeout s" "output_seq s + 1 = extend_seq i"
    | "\<not> now - local_ms (info_pkt i) > buffer_timeout s" "output_seq s + 1 \<noteq> extend_seq i" by blast
  then show ?case
  proof cases
    case 1
    then show ?thesis using Cons.IH [of kept s1] Cons.prems s1 by (simp add: e jb_OutputPacket_def l split_def Let_def)
  next
    case 2
    then show ?thesis using Cons.IH [of kept "s\<lparr>output_seq := extend_seq i\<rparr>"] Cons.prems by (simp add: e jb_OutputPacket_def split_def Let_def)
  next
    case 3
    then show ?thesis using Cons.IH [of "(k, i) # kept" s] Cons.prems by (simp add: e)
  qed
qed (simp add: typed_def)

lemma CheckTimeout_typed: "typed ty s \<Longrightarrow> typed ty (fst (CheckTimeout now s)) \<and> events_typed ty (snd (CheckTimeout now s))"
  using timeout_typed [of ty "rtp_packets_map s" "[]" s now] by (simp add: CheckTimeout_def typed_def)

lemma deliver_typed:
  assumes "typed ty s" "info_media_type i = ty"
  shows "typed ty (fst (jb_deliver now i reset first s)) \<and> events_typed ty (snd (jb_deliver now i reset first s))"
proof -
  obtain s1 lost where l: "(if reset then jb_ReportLost now i s else (s, [])) = (s1, lost)" by fastforce
  have s1: "typed ty s1" "events_typed ty lost" using ReportLost_typed [of now i s] l assms(1) by (auto split: if_splits)
  then have p: "typed ty (s1\<lparr>rtp_packets_map := map_put (extend_seq i) i (rtp_packets_map s1)\<rparr>)"
    "all_typed ty (rtp_packets_map s1)" "jb_media_type s1 = ty"
    using assms(2) by (simp_all add: typed_def all_typed_put)
  show ?thesis
    using s1 p(3) assms(2) flush_typed [OF p(2), of "s1\<lparr>output_seq := extend_seq i\<rparr>"] CheckTimeout_typed [OF p(1), of now]
    unfolding jb_deliver_def l by (simp add: jb_OutputPacket_def split_def typed_def Let_def)
qed

lemma sequence_typed: "jb_sequence x s = (r, s') \<Longrightarrow> typed ty s' = typed ty s"
  by (auto simp: jb_sequence_def jb_UpdateSeq_def jb_InitSeq_def typed_def Let_def split: if_splits prod.splits)

lemma new_video_buffer:
  "new_JitterBuffer MEDIA_VIDEO_TYPE pool = Some s \<Longrightarrow>
   buffer_timeout s = JITTER_BUFFER_VIDEO_TIMEOUT \<and> typed MEDIA_VIDEO_TYPE s"
  by (auto simp: new_JitterBuffer_def typed_def)

lemma input_typed:
  assumes "jb_InputRtpPacket now heap cr p s = Some (s', Inr evs)" "typed ty s"
  shows "typed ty s' \<and> events_typed ty evs"
proof -
  let ?b = "pkt_buffers s (buffer_index s mod RTP_PACKET_MAX_SIZE)"
  let ?s = "s\<lparr>buffer_index := buffer_index s + 1, pkt_buffers := (pkt_buffers s)(buffer_index s mod RTP_PACKET_MAX_SIZE := put_at 0 (GetData p) ?b)\<rparr>"
  obtain q where q: "Clone now ?b False p = Some (Inr q)"
    using assms(1) by (auto simp: jb_InputRtpPacket_def Let_def split: option.splits sum.splits)
  obtain ok ext reset first u where u: "jb_sequence (GetSeq q) ?s = ((ok, ext, reset, first), u)" by (metis prod_cases4 surj_pair)
  then have tu: "typed ty u" using sequence_typed [OF u] assms(2) by (simp add: typed_def)
  note I = assms(1) [unfolded jb_InputRtpPacket_def Let_def q option.case sum.case u prod.case]
  show ?thesis
  proof (cases ok)
    case True
    then obtain q' where "Clone now heap True q = Some (Inr q')" using I by (auto split: option.splits sum.splits)
    with I True tu show ?thesis
      using deliver_typed [OF tu, of "\<lparr> info_media_type = jb_media_type u, info_pkt = q', extend_seq = ext, info_clock_rate = cr \<rparr>" now reset first]
      by (auto simp: typed_def map_prod_def split_def)
  qed (use I tu in simp)
qed

section \<open>From the jitter buffer to the callback\<close>

text \<open>What the callback gets for a NALU: its frame, with the time in milliseconds; access unit delimiters are left out.\<close>

definition received :: "int \<Rightarrow> bytes \<times> u32 \<Rightarrow> pc_event list" where
  "received rate u = (if H264_IS_AUD (hd (fst u)) then []
     else [OnReceiveMediaPacket (h264_frame (START_CODE @ fst u) (int (unat (snd u)) * 1000 div rate) (hd (fst u) AND 0x1f))])"

definition receives :: "u32 \<Rightarrow> int \<Rightarrow> peer_connection \<Rightarrow> bool" where
  "receives ssrc rate r \<longleftrightarrow> pc_state r = PC_DTLS_DONE_STATE \<and> read_srtp r \<and> \<not> (mspull r \<and> ssrc = 1234) \<and>
     (\<exists>v. video_recv_stream r = Some v \<and> stream_for ssrc rate v) \<and> \<not> find_keyframe r \<and> media_cb r"

definition ph_of :: "peer_connection \<Rightarrow> pack_handle_h264" where
  "ph_of r = (case h264_pack r of None \<Rightarrow> new_PackHandleH264 | Some ph \<Rightarrow> ph)"

lemma receives_same [simp]:
  "receives ssrc rate (r\<lparr>h264_pack := p\<rparr>) = receives ssrc rate r" "receives ssrc rate (r\<lparr>jb_video := j\<rparr>) = receives ssrc rate r"
  by (simp_all add: receives_def)

lemma sdiv_nonneg: "0 \<le> a \<Longrightarrow> 0 < b \<Longrightarrow> a sdiv b = a div b" for a b :: int
  by (cases "a = 0") (simp_all add: signed_divide_int_def)

lemma frame_received:
  assumes "receives ssrc rate r" "fst u \<noteq> []"
  shows "MediaPacketOutput_cb (h264_frame (START_CODE @ fst u) (int (unat (snd u))) (hd (fst u) AND 0x1f)) r = Some (r, received rate u)"
proof -
  obtain v where v: "video_recv_stream r = Some v" "rs_clock_rate v = rate" "0 < rate"
    using assms(1) by (auto simp: receives_def stream_for_def)
  then have t: "to_millisec (int (unat (snd u))) (video_recv_stream r) = Some (int (unat (snd u)) * 1000 div rate)"
    by (simp add: to_millisec_def require_def sdiv_nonneg)
  have p: "GetNaluTypePos (START_CODE @ fst u) = Some 4" using assms(2) by (simp add: GetNaluTypePos_def START_CODE_def rd_def)
  have b: "rd (START_CODE @ fst u) (nat 4) = Some (hd (fst u))" using assms(2) by (cases "fst u") (simp_all add: START_CODE_def rd_def)
  have k: "r\<lparr>find_keyframe := False\<rparr> = r" "\<not> find_keyframe r" "media_cb r" using assms(1) by (simp_all add: receives_def)
  show ?thesis using t p b k
    by (simp add: MediaPacketOutput_cb_def h264_frame_def received_def receive_packet_def require_def)
qed

lemma frames_received:
  assumes "receives ssrc rate r" "\<forall>u\<in>set us. fst u \<noteq> []"
  shows "pack_events clk (map h264_out us) r = Some (r, concat (map (received rate) us))"
  using assms(2)
proof (induction us)
  case (Cons u us)
  then show ?case using frame_received [OF assms(1), of u] by (simp add: h264_out_def)
qed simp

lemma packets_received:
  assumes "receives ssrc rate r" "events_typed MEDIA_VIDEO_TYPE evs" "\<forall>u\<in>set us. fst u \<noteq> []"
    "ph_run (map (\<lambda>i. (now, i)) (outputs evs)) (ph_of r) = Some (ph, map h264_out us)"
  shows "\<exists>p. jitter_events now evs r = Some (r\<lparr>h264_pack := p\<rparr>, concat (map (received rate) us)) \<and> ph_of (r\<lparr>h264_pack := p\<rparr>) = ph"
  using assms
proof (induction evs arbitrary: r us)
  case Nil
  then show ?case by (intro exI [of _ "h264_pack r"]) (simp add: ph_of_def)
next
  case (Cons e evs)
  show ?case
  proof (cases e)
    case (RtpPacketReset i)
    then show ?thesis using Cons by simp
  next
    case (RtpPacketOutput i)
    obtain ph1 e1 e2 where ph: "ph_InputRtpPacket now i (ph_of r) = Some (ph1, e1)" "ph_run (map (\<lambda>i. (now, i)) (outputs evs)) ph1 = Some (ph, e2)"
      "map h264_out us = e1 @ e2"
      using Cons.prems(4) by (auto simp: RtpPacketOutput split: Option.bind_splits prod.splits)
    then obtain us1 us2 where us: "us = us1 @ us2" "e1 = map h264_out us1" "e2 = map h264_out us2" by (auto simp: map_eq_append_conv)
    let ?r = "r\<lparr>h264_pack := Some ph1\<rparr>"
    have r: "receives ssrc rate ?r" "ph_of ?r = ph1" using Cons.prems(1) by (simp_all add: ph_of_def)
    have o: "RtpPacketOutput_cb now i r = Some (?r, concat (map (received rate) us1))"
      using frames_received [OF r(1), of us1 now] Cons.prems(2,3) ph(1) us
      by (simp add: RtpPacketOutput_cb_def RtpPacketOutput ph_of_def)
    obtain p where "jitter_events now evs ?r = Some (?r\<lparr>h264_pack := p\<rparr>, concat (map (received rate) us2))" "ph_of (?r\<lparr>h264_pack := p\<rparr>) = ph"
      using Cons.IH [OF r(1), of us2] Cons.prems(2,3) ph(2) us r(2) by (auto simp: RtpPacketOutput)
    then show ?thesis using o us(1) by (simp add: RtpPacketOutput) blast
  qed
qed

section \<open>The receiving side\<close>

text \<open>A connection that gets datagrams: each with its time, the memory for its copy and the result of its decryption.\<close>

fun rtp_run :: "(int \<times> bytes \<times> (bytes \<times> nat) option) list \<Rightarrow> peer_connection \<Rightarrow> (peer_connection \<times> pc_event list) option" where
  "rtp_run [] r = Some (r, [])"
| "rtp_run ((now, heap, dec) # as) r = do {
     (r, out) \<leftarrow> HandleRtpData now heap dec r;
     (r, out') \<leftarrow> rtp_run as r;
     Some (r, out @ out') }"

text \<open>The jitter buffer's events, call by call.\<close>

fun jb_trace :: "int \<Rightarrow> (int \<times> bytes \<times> rtp_packet) list \<Rightarrow> jitter_buffer \<Rightarrow> (jitter_buffer \<times> (int \<times> jitter_event list) list) option" where
  "jb_trace cr [] s = Some (s, [])"
| "jb_trace cr ((now, heap, p) # arr) s = (case jb_InputRtpPacket now heap cr p s of
     Some (s, Inr evs) \<Rightarrow> map_option (map_prod id ((#) (now, evs))) (jb_trace cr arr s)
   | _ \<Rightarrow> None)"

lemma jb_trace_of_run:
  "jb_run cr arr s = Some (s', evs) \<Longrightarrow> \<exists>bs. jb_trace cr arr s = Some (s', bs) \<and> concat (map snd bs) = evs \<and> map fst bs = map fst arr"
proof (induction arr arbitrary: s evs)
  case (Cons a arr)
  obtain now heap p where a: "a = (now, heap, p)" by (cases a)
  then obtain u e1 e2 where "jb_InputRtpPacket now heap cr p s = Some (u, Inr e1)" "jb_run cr arr u = Some (s', e2)" "evs = e1 @ e2"
    using Cons.prems by (auto split: option.splits sum.splits)
  with Cons.IH [of u e2] show ?case by (auto simp: a)
qed simp

definition timed :: "(int \<times> jitter_event list) list \<Rightarrow> (int \<times> rtp_packet_info) list" where
  "timed bs = concat (map (\<lambda>(now, evs). map (\<lambda>i. (now, i)) (outputs evs)) bs)"

lemma set_timed_Cons: "set (timed ((now, evs) # bs)) = Pair now ` set (outputs evs) \<union> set (timed bs)"
  by (simp add: timed_def)

lemma outputs_concat: "outputs (concat ess) = concat (map outputs ess)"
  by (induction ess) simp_all

lemma timed_outputs: "map snd (timed bs) = outputs (concat (map snd bs))"
  by (induction bs) (auto simp: timed_def comp_def)

text \<open>A datagram that is decrypted and parsed to the packet of the jitter buffer's run.\<close>

definition comes_as :: "u32 \<Rightarrow> int \<times> bytes \<times> (bytes \<times> nat) option \<Rightarrow> int \<times> bytes \<times> rtp_packet \<Rightarrow> bool" where
  "comes_as ssrc a b \<longleftrightarrow> (case (a, b) of ((now, heap, dec), (now', heap', p)) \<Rightarrow>
     now' = now \<and> heap' = heap \<and> GetSsrc p = ssrc \<and> (\<exists>m len. dec = Some (m, len) \<and> Parse now m len = Some (Inr p)))"

lemma HandleRtpData_video:
  assumes "receives ssrc rate r" "Parse now m len = Some (Inr p)" "GetSsrc p = ssrc"
    and "jb_InputRtpPacket now heap rate p (jb_video r) = Some (jb, Inr evs)"
  obtains v where "HandleRtpData now heap (Some (m, len)) r = jitter_events now evs (r\<lparr>video_recv_stream := Some v, jb_video := jb\<rparr>)"
    "stream_for ssrc rate v"
proof -
  obtain v where v: "video_recv_stream r = Some v" "stream_for ssrc rate v" using assms(1) by (auto simp: receives_def)
  obtain v' where v': "HandleRtpPacket p v = Inr (p, v')" "stream_for ssrc rate v'"
    using HandleRtpPacket_plain [OF v(2) assms(3)] by blast
  have c: "rs_ssrc v = ssrc" "rs_clock_rate v' = rate" using v(2) v'(2) by (simp_all add: stream_for_def)
  have s: "pc_state r = PC_DTLS_DONE_STATE" "read_srtp r" "\<not> (mspull r \<and> ssrc = 1234)" using assms(1) by (simp_all add: receives_def)
  have "HandleRtpData now heap (Some (m, len)) r = jitter_events now evs (r\<lparr>video_recv_stream := Some v', jb_video := jb\<rparr>)"
    using s(3) by (auto simp: HandleRtpData_def s(1,2) assms(2-4) v(1) c v'(1))
  then show thesis using that v'(2) by blast
qed

lemma run_received:
  assumes "list_all2 (comes_as ssrc) as arr" "jb_trace rate arr (jb_video r) = Some (jb, bs)" "receives ssrc rate r"
    "typed MEDIA_VIDEO_TYPE (jb_video r)" "ph_run (timed bs) (ph_of r) = Some (ph, map h264_out us)" "\<forall>u\<in>set us. fst u \<noteq> []"
  shows "\<exists>r'. rtp_run as r = Some (r', concat (map (received rate) us))"
  using assms
proof (induction as arbitrary: arr r bs us)
  case Nil
  then show ?case by (auto simp: timed_def)
next
  case (Cons a as)
  obtain now heap dec where a: "a = (now, heap, dec)" by (cases a)
  obtain b arr' where arr: "arr = b # arr'" "comes_as ssrc a b" "list_all2 (comes_as ssrc) as arr'"
    using Cons.prems(1) by (cases arr) auto
  then obtain p m len where b: "b = (now, heap, p)" "GetSsrc p = ssrc" "dec = Some (m, len)" "Parse now m len = Some (Inr p)"
    by (cases b) (auto simp: comes_as_def a)
  obtain jb1 evs bs' where j: "jb_InputRtpPacket now heap rate p (jb_video r) = Some (jb1, Inr evs)" "jb_trace rate arr' jb1 = Some (jb, bs')"
    "bs = (now, evs) # bs'"
    using Cons.prems(2) by (auto simp: arr(1) b(1) split: option.splits sum.splits)
  have ty: "typed MEDIA_VIDEO_TYPE jb1" "events_typed MEDIA_VIDEO_TYPE evs" using input_typed [OF j(1) Cons.prems(4)] by simp_all
  obtain v where v: "HandleRtpData now heap dec r = jitter_events now evs (r\<lparr>video_recv_stream := Some v, jb_video := jb1\<rparr>)"
    "stream_for ssrc rate v"
    using HandleRtpData_video [OF Cons.prems(3) b(4,2) j(1)] unfolding b(3) by blast
  let ?r = "r\<lparr>video_recv_stream := Some v, jb_video := jb1\<rparr>"
  have r: "receives ssrc rate ?r" "ph_of ?r = ph_of r" using Cons.prems(3) v(2) by (simp_all add: receives_def ph_of_def)
  have "ph_run (map (\<lambda>i. (now, i)) (outputs evs) @ timed bs') (ph_of r) = Some (ph, map h264_out us)"
    using Cons.prems(5) by (simp add: j(3) timed_def)
  then obtain ph1 e1 e2 where ph1: "ph_run (map (\<lambda>i. (now, i)) (outputs evs)) (ph_of r) = Some (ph1, e1)"
    "ph_run (timed bs') ph1 = Some (ph, e2)" "map h264_out us = e1 @ e2"
    unfolding ph_run_append by (auto split: Option.bind_splits prod.splits)
  then obtain us1 us2 where us: "us = us1 @ us2" "e1 = map h264_out us1" "e2 = map h264_out us2" by (auto simp: map_eq_append_conv)
  have ne: "\<forall>u\<in>set us1. fst u \<noteq> []" "\<forall>u\<in>set us2. fst u \<noteq> []" using Cons.prems(6) us(1) by auto
  have "ph_run (map (\<lambda>i. (now, i)) (outputs evs)) (ph_of ?r) = Some (ph1, map h264_out us1)" using ph1(1) us(2) r(2) by simp
  from packets_received [OF r(1) ty(2) ne(1) this] obtain p' where
    s1: "jitter_events now evs ?r = Some (?r\<lparr>h264_pack := p'\<rparr>, concat (map (received rate) us1))" "ph_of (?r\<lparr>h264_pack := p'\<rparr>) = ph1"
    by blast
  let ?r1 = "?r\<lparr>h264_pack := p'\<rparr>"
  have "receives ssrc rate ?r1" "jb_video ?r1 = jb1" using r(1) by simp_all
  then obtain r' where "rtp_run as ?r1 = Some (r', concat (map (received rate) us2))"
    using Cons.IH [OF arr(3), of ?r1 bs' us2] j(2) ty(1) ph1(2) us(3) s1(2) ne(2) by auto
  then have "rtp_run (a # as) r = Some (r', concat (map (received rate) us1) @ concat (map (received rate) us2))"
    using v(1) s1(1) by (simp add: a)
  then show ?case using us(1) by auto
qed

section \<open>From one connection to the other\<close>

lemma units_nonempty:
  assumes "\<forall>m\<in>set ms. frame_ok m"
  shows "\<forall>u\<in>set (units_all rate sets ms). fst u \<noteq> []"
  using assms
proof (induction ms arbitrary: sets)
  case (Cons m ms)
  have "nalu_of m \<noteq> []" using Cons.prems by (simp add: frame_ok_def nalu_ok_def)
  then have "\<forall>u\<in>set (units_of rate sets m). fst u \<noteq> []" by (auto simp: units_of_def split: if_splits)
  then show ?case using Cons.IH [of "update_sets m sets"] Cons.prems by auto
qed simp

lemma upto_ints: "[0..int n - 1] = map int [0..<n]"
proof (induction n)
  case (Suc n)
  have "[0..int (Suc n) - 1] = [0..int n - 1] @ [int n]" using upto_rec2 [of 0 "int n"] by simp
  then show ?case using Suc by simp
qed simp

lemma numbered_outputs:
  assumes "map (\<lambda>i. (extend_seq i, info_content i)) is = map (\<lambda>k. (e + int k, cs ! k)) [0..<length cs]"
    "\<forall>i\<in>set is. rtp_ok (info_pkt i)"
  shows "numbered e cs is"
  using assms
proof (induction cs arbitrary: e "is")
  case (Cons c cs)
  have "map (\<lambda>k. (e + int k, (c # cs) ! k)) [0..<length (c # cs)] = (e, c) # map (\<lambda>k. (e + 1 + int k, cs ! k)) [0..<length cs]"
    by (simp add: upt_rec [of 0] map_Suc_upt [symmetric] del: upt_Suc)
  then obtain i is' where i: "is = i # is'" "extend_seq i = e" "info_content i = c"
    "map (\<lambda>i. (extend_seq i, info_content i)) is' = map (\<lambda>k. (e + 1 + int k, cs ! k)) [0..<length cs]"
    using Cons.prems(1) by (cases "is") auto
  have "rtp_ok (info_pkt i)" using Cons.prems(2) i(1) by simp
  then have "has_payload (fst c) (info_pkt i)" "GetTimestamp (info_pkt i) = snd c"
    using i(3) by (auto simp: info_content_def has_payload_def payload_of_def GetPayload_def rtp_ok_def)
  then show ?case using Cons.IH [OF i(4)] Cons.prems(2) i(1,2) by simp
qed simp

text \<open>What the network does with the datagrams: which one comes, when, and what else is in the buffers.\<close>

type_synonym arrival = "nat \<times> int \<times> bytes \<times> bytes"

definition at_receiver :: "bytes list \<Rightarrow> arrival \<Rightarrow> int \<times> bytes \<times> (bytes \<times> nat) option" where
  "at_receiver bs a = (case a of (k, now, heap, rest) \<Rightarrow> (now, heap, Some (bs ! k @ rest, length (bs ! k))))"

definition arrival_ok :: "arrival \<Rightarrow> bool" where
  "arrival_ok a \<longleftrightarrow> (case a of (k, now, heap, rest) \<Rightarrow> length heap = 1500)"

definition stamp_of :: "arrival \<Rightarrow> int \<times> int" where
  "stamp_of a = (case a of (k, now, heap, rest) \<Rightarrow> (int k, now))"

text \<open>
  The times: the clock does not go back, and whenever a datagram comes, every frame of which a datagram came more than 400 ms
  before is complete, and so is all that was sent before it.  The frames make \<open>ls\<close> datagrams each.
\<close>

fun frames_on_time :: "nat list \<Rightarrow> arrivals \<Rightarrow> (int \<times> int) list \<Rightarrow> bool" where
  "frames_on_time ls T [] \<longleftrightarrow> True"
| "frames_on_time ls T ((x, now) # ts) \<longleftrightarrow>
     (\<forall>(y, \<tau>)\<in>T. \<tau> \<le> now \<and> (now - \<tau> \<le> JITTER_BUFFER_VIDEO_TIMEOUT \<or> {0..block_end ls y} \<subseteq> fst ` T)) \<and>
     frames_on_time ls (insert (x, now) T) ts"

lemma frames_waits: "frames_on_time ls T ts \<Longrightarrow> waits_ok 0 JITTER_BUFFER_VIDEO_TIMEOUT T ts"
proof (induction ls T ts rule: frames_on_time.induct)
  case (2 ls T x now ts)
  have "now - \<tau> \<le> JITTER_BUFFER_VIDEO_TIMEOUT \<or> {0..y} \<subseteq> insert x (fst ` T)" if y: "(y, \<tau>) \<in> T" for y \<tau>
  proof -
    have "now - \<tau> \<le> JITTER_BUFFER_VIDEO_TIMEOUT \<or> {0..block_end ls y} \<subseteq> fst ` T" using "2.prems" y by auto
    moreover have "{0..y} \<subseteq> {0..block_end ls y}" using block_end_ge [of y ls] by simp
    ultimately show ?thesis by blast
  qed
  moreover have "waits_ok 0 JITTER_BUFFER_VIDEO_TIMEOUT (insert (x, now) T) ts" using "2.IH" "2.prems" by simp
  ultimately show ?case by auto
qed simp

lemma frames_later: "frames_on_time ls T ts \<Longrightarrow> (z, \<tau>') \<in> T \<Longrightarrow> (y, \<tau>) \<in> set ts \<Longrightarrow> \<tau>' \<le> \<tau>"
  by (induction ls T ts rule: frames_on_time.induct) auto

lemma list_all2_right: "list_all2 P xs ys \<Longrightarrow> y \<in> set ys \<Longrightarrow> \<exists>x. P x y"
  by (induction rule: list_all2_induct) auto

lemma arrivals_parsed:
  assumes "sent_as ssrc 0 ds bs" "\<forall>a\<in>set as. arrival_ok a \<and> fst a < length ds"
  shows "\<exists>arr. list_all2 (comes_as ssrc) (map (at_receiver bs) as) arr \<and>
    list_all2 (arrives (\<lambda>k. ds ! nat k)) (map (\<lambda>a. int (fst a)) as) arr \<and>
    stamps (map (\<lambda>a. int (fst a)) as) arr = map stamp_of as"
  using assms(2)
proof (induction as)
  case (Cons a as)
  obtain k now heap rest where a: "a = (k, now, heap, rest)" by (cases a)
  have k: "k < length ds" "length heap = 1500"
    using Cons.prems by (simp_all add: a arrival_ok_def)
  have "datagram ssrc (of_nat k) (ds ! k) (bs ! k)" using sent_as_nth [OF assms(1) k(1)] by simp
  then obtain q where q: "Parse now (bs ! k @ rest) (length (bs ! k)) = Some (Inr q)" "parsed q" "rtp_data_len q < 1500" "GetSeq q = of_nat k"
    "GetSsrc q = ssrc" "(payload_of q, GetTimestamp q) = ds ! k"
    by (rule datagram_parsed)
  then have "comes_as ssrc (at_receiver bs a) (now, heap, q)" "arrives (\<lambda>k. ds ! nat k) (int k) (now, heap, q)"
    using k by (simp_all add: a at_receiver_def comes_as_def arrives_def sendable_def)
  moreover obtain arr where "list_all2 (comes_as ssrc) (map (at_receiver bs) as) arr"
    "list_all2 (arrives (\<lambda>k. ds ! nat k)) (map (\<lambda>a. int (fst a)) as) arr" "stamps (map (\<lambda>a. int (fst a)) as) arr = map stamp_of as"
    using Cons by auto
  ultimately show ?case by (intro exI [of _ "(now, heap, q) # arr"]) (simp add: a stamp_of_def)
qed simp

text \<open>
  What the jitter buffer has put out in the end, if every packet has come: all of them, numbered from 0, each in
  time for the depacketizer.
\<close>

lemma all_put_out:
  assumes "jb_inv c T 0 h l jb" "fst ` T = int ` {..<n}" "goes_out c T evs [0..output_seq jb]" "0 \<le> output_seq jb"
    "n = length ds" "\<And>k. c (int k) = ds ! k"
  shows "numbered 0 ds (outputs evs) \<and> (\<forall>i\<in>set (outputs evs). good_info T i)"
proof -
  have out: "{0..output_seq jb} \<subseteq> int ` {..<n}" "output_seq jb + 1 \<notin> int ` {..<n}"
    using assms(1,2) by (simp_all add: jb_inv_def in_order_def)
  then have "output_seq jb \<in> int ` {..<n}" using assms(4) by auto
  then have "output_seq jb + 1 \<le> int n" by auto
  moreover have "int n \<le> output_seq jb + 1"
  proof (rule ccontr)
    assume "\<not> int n \<le> output_seq jb + 1"
    then have "nat (output_seq jb + 1) \<in> {..<n}" "output_seq jb + 1 = int (nat (output_seq jb + 1))" using assms(4) by auto
    with out(2) show False by (metis imageI)
  qed
  ultimately have "output_seq jb = int n - 1" by linarith
  then have "[0..output_seq jb] = map int [0..<n]" by (simp only: upto_ints)
  then have "outs evs = map (\<lambda>k. (0 + int k, ds ! k)) [0..<length ds]" and ok: "\<forall>i\<in>set (outputs evs). good_info T i"
    using assms(3,5,6) by (simp_all add: goes_out_def comp_def)
  then have "numbered 0 ds (outputs evs)"
    by (intro numbered_outputs) (simp_all add: outs_def good_info_def)
  with ok show ?thesis by blast
qed

text \<open>
  The times at which the packets go out: none goes out more than 400 ms after a packet of its frame, or of a later one, has come.
\<close>

lemma out_range: "goes_out c T evs ks \<Longrightarrow> i \<in> set (outputs evs) \<Longrightarrow> extend_seq i \<in> set ks"
proof -
  assume a: "goes_out c T evs ks" "i \<in> set (outputs evs)"
  then have "map fst (outs evs) = ks" by (simp add: goes_out_def comp_def)
  moreover have "extend_seq i \<in> set (map fst (outs evs))" using a(2) by (force simp: outs_def)
  ultimately show ?thesis by simp
qed

lemma trace_on_time:
  assumes "list_all2 (arrives c) xs arr" "jb_inv c T 0 h JITTER_BUFFER_VIDEO_TIMEOUT s" "windows h xs" "frames_on_time ls T (stamps xs arr)"
    "h < 2 ^ 32 - 2 * 65536" "\<forall>x\<in>set xs. x < 2 ^ 32 - 2 * 65536" "jb_trace cr arr s = Some (s', bs)"
  shows "\<forall>(now, i)\<in>set (timed bs). \<forall>(y, \<tau>)\<in>T \<union> set (stamps xs arr).
    extend_seq i \<le> block_end ls y \<longrightarrow> now - \<tau> \<le> JITTER_BUFFER_VIDEO_TIMEOUT"
  using assms
proof (induction xs arbitrary: arr s T h bs)
  case (Cons x xs)
  obtain now heap p arr' where arr: "arr = (now, heap, p) # arr'" "list_all2 (arrives c) xs arr'"
    "sendable x (c x) p" "length heap = 1500"
    using Cons.prems(1) by (rule arrives_Cons)
  let ?T = "insert (x, now) T" and ?lim = JITTER_BUFFER_VIDEO_TIMEOUT
  have w: "waits_ok 0 ?lim T (stamps (x # xs) arr)" using Cons.prems(4) by (rule frames_waits)
  obtain u evs where u: "jb_InputRtpPacket now heap cr p s = Some (u, Inr evs)" "jb_inv c ?T 0 (max h x) ?lim u"
    "goes_out c ?T evs [output_seq s + 1..output_seq u]"
    using input_in_order [OF arr(3,4) Cons.prems(2), of now cr] Cons.prems(3,5) w by (auto simp: arr(1))
  obtain bs' where bs: "jb_trace cr arr' u = Some (s', bs')" "bs = (now, evs) # bs'"
    using Cons.prems(7) by (auto simp: arr(1) u(1))
  have on: "frames_on_time ls ?T (stamps xs arr')" using Cons.prems(4) by (simp add: arr(1))
  have ih: "\<forall>(now, i)\<in>set (timed bs'). \<forall>(y, \<tau>)\<in>?T \<union> set (stamps xs arr'). extend_seq i \<le> block_end ls y \<longrightarrow> now - \<tau> \<le> ?lim"
    using Cons.IH [OF arr(2) u(2) _ on _ _ bs(1)] Cons.prems(3,5,6) by auto
  have here: "now - \<tau> \<le> ?lim" if i: "i \<in> set (outputs evs)" and y: "(y, \<tau>) \<in> ?T \<union> set (stamps xs arr')" and le: "extend_seq i \<le> block_end ls y" for i y \<tau>
  proof -
    have o: "0 \<le> output_seq s" "output_seq s + 1 \<notin> fst ` T" "0 \<le> ?lim" using Cons.prems(2) by (simp_all add: jb_inv_def in_order_def)
    have "output_seq s + 1 \<le> extend_seq i" using out_range [OF u(3) i] by simp
    then have "output_seq s + 1 \<in> {0..block_end ls y}" using o(1) le by simp
    then have "\<not> {0..block_end ls y} \<subseteq> fst ` T" using o(2) by blast
    moreover have "\<tau> \<ge> now" if "(y, \<tau>) \<in> set (stamps xs arr')" using frames_later [OF on _ that] by blast
    ultimately show ?thesis using y Cons.prems(4) o(3) by (auto simp: arr(1))
  qed
  have "T \<union> set (stamps (x # xs) arr) = ?T \<union> set (stamps xs arr')" by (simp add: arr(1))
  with ih here show ?case unfolding bs(2) set_timed_Cons by (simp only:) blast
qed (auto simp: timed_def stamps_def)

lemma trace_from_new:
  assumes "new_JitterBuffer ty pool = Some s0" "\<And>k. length (pool k) = 1500" "buffer_timeout s0 = JITTER_BUFFER_VIDEO_TIMEOUT"
    and "list_all2 (arrives c) (0 # xs) arr" "windows 0 xs" "frames_on_time ls {} (stamps (0 # xs) arr)"
    and "\<forall>x\<in>set xs. x < 2 ^ 32 - 2 * 65536" "jb_trace cr arr s0 = Some (s, bs)"
  shows "\<forall>(now, i)\<in>set (timed bs). \<forall>(y, \<tau>)\<in>set (stamps (0 # xs) arr).
    extend_seq i \<le> block_end ls y \<longrightarrow> now - \<tau> \<le> JITTER_BUFFER_VIDEO_TIMEOUT"
proof -
  let ?lim = JITTER_BUFFER_VIDEO_TIMEOUT
  obtain now heap p arr' where arr: "arr = (now, heap, p) # arr'" "list_all2 (arrives c) xs arr'"
    "sendable 0 (c 0) p" "length heap = 1500"
    using assms(4) by (rule arrives_Cons)
  obtain u evs where u: "jb_InputRtpPacket now heap cr p s0 = Some (u, Inr evs)" "jb_inv c {(0, now)} 0 0 ?lim u"
    using first_input [of ty pool s0 0 c p heap now cr] assms(1-3) arr(3,4) by auto
  obtain bs' where bs: "jb_trace cr arr' u = Some (s, bs')" "bs = (now, evs) # bs'"
    using assms(8) by (auto simp: arr(1) u(1))
  have on: "frames_on_time ls {(0, now)} (stamps xs arr')" using assms(6) by (simp add: arr(1))
  have "\<forall>(now', i)\<in>set (timed bs'). \<forall>(y, \<tau>)\<in>{(0, now)} \<union> set (stamps xs arr'). extend_seq i \<le> block_end ls y \<longrightarrow> now' - \<tau> \<le> ?lim"
    by (rule trace_on_time [OF arr(2) u(2) assms(5) on _ assms(7) bs(1)]) simp
  moreover have "now - \<tau> \<le> ?lim" if "(y, \<tau>) \<in> {(0, now)} \<union> set (stamps xs arr')" for y \<tau>
    using that frames_later [OF on, of 0 now y \<tau>] by (auto simp: JITTER_BUFFER_VIDEO_TIMEOUT_def)
  ultimately show ?thesis unfolding bs(2) set_timed_Cons arr(1) stamps_simps by (simp only: list.set) blast
qed

lemma blocks_on_time:
  assumes "\<forall>(now, i)\<in>set arr. \<forall>(y, \<tau>)\<in>T. extend_seq i \<le> block_end ls y \<longrightarrow> now - \<tau> \<le> JITTER_BUFFER_VIDEO_TIMEOUT"
    "\<forall>i\<in>set (map snd arr). good_info T i"
  shows "blocks_in_time 0 ls arr"
  unfolding blocks_in_time_def
proof (clarify)
  fix now i j assume "(now, i) \<in> set arr" "j \<in> set (map snd arr)" "extend_seq i \<le> 0 + block_end ls (extend_seq j - 0)"
  then have "now - local_ms (info_pkt j) \<le> JITTER_BUFFER_VIDEO_TIMEOUT" using assms by (fastforce simp: good_info_def)
  then show "now - local_ms (info_pkt j) < PACK_BUFFER_TIMEOUT" by (simp add: PACK_BUFFER_TIMEOUT_def JITTER_BUFFER_VIDEO_TIMEOUT_def)
qed

text \<open>All together: if every packet has come, all go out, in order and in time for the depacketizer.\<close>

lemma all_in_order:
  assumes "new_JitterBuffer ty pool = Some s0" "\<And>k. length (pool k) = 1500" "buffer_timeout s0 = JITTER_BUFFER_VIDEO_TIMEOUT"
    and arr: "list_all2 (arrives (\<lambda>k. ds ! nat k)) (0 # xs) arr" "windows 0 xs" "frames_on_time ls {} (stamps (0 # xs) arr)"
    and xs: "\<forall>x\<in>set xs. x < 2 ^ 32 - 2 * 65536" "set (0 # xs) = int ` {..<length ds}"
  obtains jb bs where "jb_trace cr arr s0 = Some (jb, bs)" "numbered 0 ds (map snd (timed bs))" "blocks_in_time 0 ls (timed bs)"
proof -
  let ?T = "set (stamps (0 # xs) arr)"
  have w: "waits_ok 0 (buffer_timeout s0) {} (stamps (0 # xs) arr)" using frames_waits [OF arr(3)] by (simp only: assms(3))
  obtain jb jevs h where jb: "jb_run cr arr s0 = Some (jb, jevs)" "jb_inv (\<lambda>k. ds ! nat k) ?T 0 h (buffer_timeout s0) jb"
    "goes_out (\<lambda>k. ds ! nat k) ?T jevs [0..output_seq jb]" "0 \<le> output_seq jb"
    by (rule run_from_new [OF assms(1,2) arr(1) _ _ arr(2) w xs(1), of cr]) simp_all
  have T: "fst ` ?T = int ` {..<length ds}" unfolding stamps_numbers [OF arr(1)] by (rule xs(2))
  have c: "\<And>k. ds ! nat (int k) = ds ! k" by simp
  have put: "numbered 0 ds (outputs jevs)" "\<forall>i\<in>set (outputs jevs). good_info ?T i"
    using all_put_out [OF jb(2) T jb(3,4) refl c] by blast+
  obtain bs where bs: "jb_trace cr arr s0 = Some (jb, bs)" "concat (map snd bs) = jevs"
    using jb_trace_of_run [OF jb(1)] by blast
  have o: "map snd (timed bs) = outputs jevs" unfolding timed_outputs bs(2) ..
  have "blocks_in_time 0 ls (timed bs)"
    by (rule blocks_on_time [OF trace_from_new [OF assms(1-3) arr(1,2,3) xs(1) bs(1)]]) (unfold o, rule put(2))
  with that [OF bs(1)] put(1) show thesis by (simp only: o)
qed

text \<open>
  C1: Video that one connection sends is what the callback of the other gets.  A new send stream
  sends H.264 frames, each with one NALU behind its start code: parameter sets of less than 512 bytes, supplemental information,
  or NALUs of less than \<open>2 ^ 31\<close> bytes, but not 1201 (a NALU of 1201 bytes is lost), that, up to 1200 bytes, have a type from 1 to 23; so in one packet or in
  fragments, with the parameter sets in front of each key frame.  The datagrams come to a connection that expects the source
  at a positive clock rate, has got nothing of it yet and does not wait for a key frame, each at least once, in any order and with repetitions, the first one first, as long as the jitter buffer can put them in order
  (less than 3000 ahead of the highest one so far, or less than 100 behind it and not from before a wrap-around of the 16-bit number
  that the highest one is behind; numbers below \<open>2 ^ 32 - 131072\<close>), over any length of time, as long as the clock does not go back
  and, whenever a datagram comes, every frame of which a datagram came more than 400 ms before is complete with all that was
  sent before it.  Then the receiver's callback gets exactly the NALUs, in order, once each, unchanged, with
  their times by the clock of the stream in milliseconds; supplemental information is not sent, and delimiters are not handed on.
\<close>
theorem video_arrives:
  assumes fs: "\<forall>f\<in>set fs. call_ok f"
    and r: "receives ssrc rate' r" "h264_pack r = None" "new_JitterBuffer MEDIA_VIDEO_TYPE pool = Some (jb_video r)" "\<And>k. length (pool k) = 1500"
    and as: "\<forall>a\<in>set (a # as). arrival_ok a" "fst a = 0" "fst ` set (a # as) = {..<count_all ([], []) (map frame_of fs)}"
      "windows 0 (map (\<lambda>a. int (fst a)) as)" "\<forall>a\<in>set as. int (fst a) < 2 ^ 32 - 2 * 65536"
      "frames_on_time (frame_counts ([], []) (map frame_of fs)) {} (map stamp_of (a # as))"
  shows "\<exists>s evs r'. send_frames fs (new_RtcSendStream MEDIA_VIDEO_TYPE ssrc pt rate nack rtx) = Some (Inr (s, evs)) \<and>
    rtp_run (map (at_receiver (rtp_out evs)) (a # as)) r =
      Some (r', concat (map (received rate') (units_all rate ([], []) (map frame_of fs))))"
proof -
  let ?s = "new_RtcSendStream MEDIA_VIDEO_TYPE ssrc pt rate nack rtx" and ?n = "count_all ([], []) (map frame_of fs)"
  let ?us = "units_all rate ([], []) (map frame_of fs)" and ?ls = "frame_counts ([], []) (map frame_of fs)"
  have s: "sets_ok ?s" "buffer_holds [] ?s" "sets_of ?s = ([], [])" "ss_ssrc ?s = ssrc" "ss_seq ?s = 0" "ss_clock_rate ?s = rate"
    by (simp_all add: sets_ok_def buffer_holds_def sets_of_def new_RtcSendStream_def SEND_BUFFER_SIZE_def)
  obtain s' evs ds where sent: "send_frames fs ?s = Some (Inr (s', evs))" "sent_as ssrc 0 ds (rtp_out evs)" "decodes_blocks ?ls ds ?us" "length ds = ?n"
    using frames_sent [OF fs s(1,2)] unfolding s(3-6) by blast
  have "\<forall>a\<in>set (a # as). arrival_ok a \<and> fst a < length ds"
    using as(1,3) sent(4) by (metis imageI lessThan_iff)
  from arrivals_parsed [OF sent(2) this] obtain arr where arr:
    "list_all2 (comes_as ssrc) (map (at_receiver (rtp_out evs)) (a # as)) arr"
    "list_all2 (arrives (\<lambda>k. ds ! nat k)) (0 # map (\<lambda>a. int (fst a)) as) arr"
    "stamps (0 # map (\<lambda>a. int (fst a)) as) arr = map stamp_of (a # as)"
    using as(2) by auto
  have lim: "buffer_timeout (jb_video r) = JITTER_BUFFER_VIDEO_TIMEOUT" "typed MEDIA_VIDEO_TYPE (jb_video r)"
    using new_video_buffer [OF r(3)] by simp_all
  have "set (0 # map (\<lambda>a. int (fst a)) as) = int ` fst ` set (a # as)" using as(2) by (auto simp: image_image)
  then have R: "set (0 # map (\<lambda>a. int (fst a)) as) = int ` {..<length ds}" unfolding as(3) sent(4) .
  have small: "\<forall>x\<in>set (map (\<lambda>a. int (fst a)) as). x < 2 ^ 32 - 2 * 65536" using as(5) by simp
  obtain bs jb where bs: "jb_trace rate' arr (jb_video r) = Some (jb, bs)" "numbered 0 ds (map snd (timed bs))"
    "blocks_in_time 0 ?ls (timed bs)"
    by (rule all_in_order [OF r(3,4) lim(1) arr(2) as(4) as(6) [folded arr(3)] small R, of rate'])
  have "ph_ready 0 (ph_of r)" using r(2) by (simp add: ph_ready_def ph_of_def new_PackHandleH264_def)
  then obtain ph where "ph_run (timed bs) (ph_of r) = Some (ph, map h264_out ?us)"
    using sent(3) bs(2,3) unfolding decodes_blocks_def by blast
  moreover have "\<forall>u\<in>set ?us. fst u \<noteq> []"
    using fs by (intro units_nonempty) (auto simp: call_ok_def frame_of_def)
  ultimately obtain r' where "rtp_run (map (at_receiver (rtp_out evs)) (a # as)) r = Some (r', concat (map (received rate') ?us))"
    using run_received [OF arr(1) bs(1) r(1) lim(2)] by blast
  with sent(1) show ?thesis by blast
qed

text \<open>
  Parameter sets, a key frame and two other frames: four packets, of which the second and the third change places,
  and the last one comes 900 ms after the first.
\<close>

definition demo_frame :: "u8 \<Rightarrow> int \<Rightarrow> frame_call" where
  "demo_frame h ms = (ms, \<lambda>k. replicate 1500 0, \<lambda>k. replicate 1500 0, 0,
     h264_frame (START_CODE @ [h, 0x42, 0]) ms (h AND 0x1f))"

definition demo_receiver :: peer_connection where
  "demo_receiver = undefined\<lparr>pc_state := PC_DTLS_DONE_STATE, read_srtp := True, mspull := False, media_cb := True, find_keyframe := False,
     h264_pack := None, video_recv_stream := Some (new_RtcRecvStream MEDIA_VIDEO_TYPE 7 96 90000 True None),
     jb_video := the (new_JitterBuffer MEDIA_VIDEO_TYPE (\<lambda>k. replicate 1500 0))\<rparr>"

definition demo_arrival :: "nat \<Rightarrow> int \<Rightarrow> arrival" where
  "demo_arrival k now = (k, now, replicate 1500 0, [])"

theorem video_arrives_witness:
  "\<exists>s evs r'. send_frames [demo_frame 0x67 40, demo_frame 0x68 40, demo_frame 0x65 40, demo_frame 0x41 80, demo_frame 0x41 120]
      (new_RtcSendStream MEDIA_VIDEO_TYPE 7 96 90000 True None) = Some (Inr (s, evs)) \<and>
    rtp_run (map (at_receiver (rtp_out evs)) [demo_arrival 0 1000, demo_arrival 2 1000, demo_arrival 1 1300, demo_arrival 3 1900]) demo_receiver =
      Some (r', map (\<lambda>(h, ms). OnReceiveMediaPacket (h264_frame (START_CODE @ [h, 0x42, 0]) ms (h AND 0x1f)))
        [(0x67, 40), (0x68, 40), (0x65, 40), (0x41, 80), (0x41, 120)])"
proof -
  let ?fs = "[demo_frame 0x67 40, demo_frame 0x68 40, demo_frame 0x65 40, demo_frame 0x41 80, demo_frame 0x41 120]"
  have f: "call_ok (demo_frame h ms)" if "h \<in> {0x67, 0x68, 0x65, 0x41}" for h ms
    using that by (auto simp: call_ok_def demo_frame_def frame_ok_def nalu_ok_def nalu_of_def h264_frame_def START_CODE_def)
  have u: "concat (map (received 90000) (units_all 90000 ([], []) (map frame_of ?fs))) =
      map (\<lambda>(h, ms). OnReceiveMediaPacket (h264_frame (START_CODE @ [h, 0x42, 0]) ms (h AND 0x1f)))
        [(0x67, 40), (0x68, 40), (0x65, 40), (0x41, 80), (0x41, 120)]"
    by (simp add: frame_of_def demo_frame_def units_of_def update_sets_def unit_type_def nalu_of_def h264_frame_def START_CODE_def
        kSps_def kPps_def kSei_def kIdr_def kAud_def received_def H264_IS_AUD_def signed_divide_int_def new_Media_Packet_def)
  have ls: "frame_counts ([], []) (map frame_of ?fs) = [0, 0, 2, 1, 1]"
    by (simp add: frame_of_def demo_frame_def packet_count_def update_sets_def unit_type_def nalu_of_def h264_frame_def START_CODE_def
        kSps_def kPps_def kSei_def kIdr_def new_Media_Packet_def)
  have n: "count_all ([], []) (map frame_of ?fs) = 4"
    by (simp add: frame_of_def demo_frame_def packet_count_def update_sets_def unit_type_def nalu_of_def h264_frame_def START_CODE_def
        kSps_def kPps_def kSei_def kIdr_def new_Media_Packet_def)
  have r: "receives 7 90000 demo_receiver" "h264_pack demo_receiver = None"
    "new_JitterBuffer MEDIA_VIDEO_TYPE (\<lambda>k. replicate 1500 0) = Some (jb_video demo_receiver)"
    by (simp_all add: receives_def demo_receiver_def stream_for_def new_RtcRecvStream_def new_JitterBuffer_def)
  let ?as = "[demo_arrival 0 1000, demo_arrival 2 1000, demo_arrival 1 1300, demo_arrival 3 1900]"
  have "\<exists>s evs r'. send_frames ?fs (new_RtcSendStream MEDIA_VIDEO_TYPE 7 96 90000 True None) = Some (Inr (s, evs)) \<and>
    rtp_run (map (at_receiver (rtp_out evs)) ?as) demo_receiver =
      Some (r', concat (map (received 90000) (units_all 90000 ([], []) (map frame_of ?fs))))"
  proof (rule video_arrives [OF _ r])
    show "\<forall>f\<in>set ?fs. call_ok f" using f by simp
    show "\<forall>a\<in>set ?as. arrival_ok a" by (simp add: demo_arrival_def arrival_ok_def)
    show "fst ` set ?as = {..<count_all ([], []) (map frame_of ?fs)}" unfolding n by (auto simp: demo_arrival_def)
    show "windows 0 (map (\<lambda>a. int (fst a)) [demo_arrival 2 1000, demo_arrival 1 1300, demo_arrival 3 1900])" by (simp add: demo_arrival_def in_window_def)
    have "{0..1} \<subseteq> {1, 2, 0 :: int}" "{0..2} \<subseteq> {1, 2, 0 :: int}" by auto
    then show "frames_on_time (frame_counts ([], []) (map frame_of ?fs)) {} (map stamp_of ?as)"
      unfolding ls by (simp add: demo_arrival_def stamp_of_def JITTER_BUFFER_VIDEO_TIMEOUT_def)
  qed (simp_all add: demo_arrival_def)
  then show ?thesis unfolding u .
qed

section \<open>What the audio path sends\<close>

lemma MakeRtpPacket_empty:
  "length buf = 1500 \<Longrightarrow> MakeRtpPacket now buf None 0 = Some (Inl RTP_NO_PAYLOAD)"
proof -
  assume l: "length buf = 1500"
  define m where "m = put_at 0 (0x80 # replicate 11 0) buf"
  have m: "length m = 1500" "m ! 0 = 0x80" "m \<noteq> []" using l by (auto simp: m_def put_at_def)
  show ?thesis using l m
    by (simp add: MakeRtpPacket_def rtp_ext_bytes_def RTP_PACKET_MAX_SIZE_def RTP_HEADER_SIZE_def m_def [symmetric]
        Parse_def rtp_parse_payload_def Let_def require_def bit_simps)
qed

text \<open>
  C37: The audio path hands the length of the frame to \<^term>\<open>GenerateSinglePackets\<close> in an eight-bit
  parameter, so \<^term>\<open>SendPacket\<close> keeps only the length modulo 256 of an audio frame: what it sends is
  one packet that carries the first \<open>length mod 256\<close> bytes of the frame, at the next sequence number and
  on the clock of the stream, and a frame whose length is a multiple of 256 sends nothing and raises
  the exception of a packet without payload.
\<close>

theorem audio_truncated:
  assumes "av_type m = MEDIA_AUDIO_TYPE" "length (new_bufs 0) = 1500"
  shows "(length (pkt_data m) mod 256 = 0 \<longrightarrow> SendPacket now new_bufs copies prev m s = Some (Inl RTP_NO_PAYLOAD)) \<and>
    (length (pkt_data m) mod 256 \<noteq> 0 \<longrightarrow> (\<exists>s' evs b. SendPacket now new_bufs copies prev m s = Some (Inr (s', evs)) \<and> rtp_out evs = [b] \<and>
       datagram (ss_ssrc s) (ss_seq s) (take (length (pkt_data m) mod 256) (pkt_data m), rtp_clock (dts m) s) b))"
proof (intro conjI impI)
  assume "length (pkt_data m) mod 256 = 0"
  then show "SendPacket now new_bufs copies prev m s = Some (Inl RTP_NO_PAYLOAD)"
    using assms by (simp add: SendPacket_def SendAudioPacket_def GenerateSinglePackets_def MakeRtpPacket_empty fill_packet_def)
next
  let ?d = "take (length (pkt_data m) mod 256) (pkt_data m)"
  assume k: "length (pkt_data m) mod 256 \<noteq> 0"
  have l: "length ?d = length (pkt_data m) mod 256" by simp
  then have "0 < length ?d" "length ?d < 1488" using k mod_less_divisor [of 256 "length (pkt_data m)"] by linarith+
  then obtain q where q: "fill_packet (MakeRtpPacket now (new_bufs 0) None (length ?d)) ?d = Some (Inr q)" "plain q" "payload_of q = ?d"
    using fill_made_ok [of "new_bufs 0" ?d now] assms(2) by blast
  have g: "GenerateSinglePackets now (new_bufs 0) ?d None = Some (Inr q)" using q(1) by (simp add: GenerateSinglePackets_def)
  let ?p = "SetTimestamp (rtp_clock (dts m) s) (SetSeq (ss_seq s) (SetSsrc (ss_ssrc s) (SetPayloadType (ss_pt s) q)))"
  have p: "packet_is (ss_ssrc s) (ss_seq s) (?d, rtp_clock (dts m) s) (SetMarker 1 ?p)"
    using marked_is [OF stamped_is [OF q(2)]] q(3) by simp
  obtain s' evs where c: "count_packet now (SetMarker 1 ?p) (s\<lparr>ss_seq := ss_seq s + 1\<rparr>) = (s', evs)" by fastforce
  have "SendPacket now new_bufs copies prev m s =
      Some (Inr (s'\<lparr>ss_statics := st_Update (rtp_data_len (SetMarker 1 ?p)) now (ss_statics s')\<rparr>, evs @ [SendRtpPacket (GetData (SetMarker 1 ?p))]))"
    using assms(1) g by (simp add: SendPacket_def SendAudioPacket_def stamp_def SendAudioRtpPacket_def c)
  moreover have "rtp_out evs = []" using count_packet_same [OF c] by simp
  ultimately show "\<exists>s' evs b. SendPacket now new_bufs copies prev m s = Some (Inr (s', evs)) \<and> rtp_out evs = [b] \<and>
       datagram (ss_ssrc s) (ss_seq s) (?d, rtp_clock (dts m) s) b"
    using p unfolding datagram_def by (intro exI conjI) (assumption | simp)+
qed

theorem audio_truncated_witness:
  "(\<exists>s' evs b. SendPacket 0 (\<lambda>k. replicate 1500 0) (\<lambda>k. replicate 1500 0) 0
      (new_Media_Packet\<lparr>av_type := MEDIA_AUDIO_TYPE, dts := 20, pkt_data := replicate 300 7\<rparr>)
      (new_RtcSendStream MEDIA_AUDIO_TYPE 9 111 48000 False None) = Some (Inr (s', evs)) \<and> rtp_out evs = [b] \<and>
    datagram 9 0 (replicate 44 7, 960) b) \<and>
  SendPacket 0 (\<lambda>k. replicate 1500 0) (\<lambda>k. replicate 1500 0) 0
      (new_Media_Packet\<lparr>av_type := MEDIA_AUDIO_TYPE, dts := 20, pkt_data := replicate 256 7\<rparr>)
      (new_RtcSendStream MEDIA_AUDIO_TYPE 9 111 48000 False None) = Some (Inl RTP_NO_PAYLOAD)"
proof
  let ?b = "\<lambda>k::nat. replicate 1500 (0::u8)" and ?s = "new_RtcSendStream MEDIA_AUDIO_TYPE 9 111 48000 False None"
  let ?m = "\<lambda>n. new_Media_Packet\<lparr>av_type := MEDIA_AUDIO_TYPE, dts := 20, pkt_data := replicate n 7\<rparr>"
  have "\<exists>s' evs b. SendPacket 0 ?b ?b 0 (?m 300) ?s = Some (Inr (s', evs)) \<and> rtp_out evs = [b] \<and>
      datagram (ss_ssrc ?s) (ss_seq ?s) (take (300 mod 256) (replicate 300 7), rtp_clock (dts (?m 300)) ?s) b"
    using audio_truncated [of "?m 300" ?b 0 ?b 0 ?s] by simp
  then show "\<exists>s' evs b. SendPacket 0 ?b ?b 0 (?m 300) ?s = Some (Inr (s', evs)) \<and> rtp_out evs = [b] \<and>
      datagram 9 0 (replicate 44 7, 960) b"
    by (simp add: new_RtcSendStream_def rtp_clock_def new_Media_Packet_def signed_divide_int_def)
  show "SendPacket 0 ?b ?b 0 (?m 256) ?s = Some (Inl RTP_NO_PAYLOAD)"
    using audio_truncated [of "?m 256" ?b 0 ?b 0 ?s] by simp
qed

end
