(* ===== verification/Websocket.thy ===== *)
theory Websocket
  imports ByteStream Streamer "HOL-Library.Signed_Division"
begin

text \<open>
  net/http/websocket: the frame parser (websocket_frame.cpp), the session that puts frames together (ws_session_base.cpp)
  and the client's side of it (websocket_client.cpp); the server's session (websocket_session.cpp) sends and
  closes in the same way, but writes the parts of a frame one by one.  The buffer of the parser is the list of its bytes.
  The calls that a session makes are the events in \<open>ws_out\<close>; the clock and the random key of a frame are arguments.
  \<open>None\<close> is an access outside the buffer, the copy of a payload of negative length, or the overflow of a signed sum.  The
  session has a callback, and the address of the first element of an empty vector, which the code takes for an
  empty payload, is not looked at.  The HTTP handshake in front of the frames is left out.
\<close>

definition WS_OP_CONTINUE_TYPE :: u8 where "WS_OP_CONTINUE_TYPE = 0x00"
definition WS_OP_TEXT_TYPE :: u8 where "WS_OP_TEXT_TYPE = 0x01"
definition WS_OP_BIN_TYPE :: u8 where "WS_OP_BIN_TYPE = 0x02"
definition WS_OP_CLOSE_TYPE :: u8 where "WS_OP_CLOSE_TYPE = 0x08"
definition WS_OP_PING_TYPE :: u8 where "WS_OP_PING_TYPE = 0x09"
definition WS_OP_PONG_TYPE :: u8 where "WS_OP_PONG_TYPE = 0x0a"
definition kWebSocketPongTimeout :: int where "kWebSocketPongTimeout = 15 * 1000"

lemmas ws_ops = WS_OP_CONTINUE_TYPE_def WS_OP_TEXT_TYPE_def WS_OP_BIN_TYPE_def WS_OP_CLOSE_TYPE_def WS_OP_PING_TYPE_def
  WS_OP_PONG_TYPE_def

section \<open>The frame parser\<close>

record ws_frame =
  ws_buffer :: bytes
  payload_start :: nat
  ws_payload_len :: int
  ws_opcode :: u8
  mask_enable :: bool
  ws_fin :: bool
  header_ready :: bool
  masking_key :: bytes

definition new_WebSocketFrame :: "bytes \<Rightarrow> ws_frame" where
  "new_WebSocketFrame key = \<lparr> ws_buffer = [], payload_start = 0, ws_payload_len = 0, ws_opcode = 0, mask_enable = False, ws_fin = False,
     header_ready = False, masking_key = key \<rparr>"

text \<open>\<open>Inl\<close>: the header is not complete.  The payload length of 64 bits is read into a signed integer.\<close>

definition ws_length :: "ws_frame \<Rightarrow> ws_frame + ws_frame" where
  "ws_length f =
     (let b = ws_buffer f; n = b ! 1 AND 0x7f;
        f = f\<lparr>ws_payload_len := uint n, payload_start := 2, ws_fin := bit (b ! 0) 7, ws_opcode := b ! 0 AND 0x0f\<rparr> in
      if n = 127 then
        (case Read8Bytes (drop 2 b) of None \<Rightarrow> Inl f | Some v \<Rightarrow> Inr (f\<lparr>ws_payload_len := sint v, payload_start := 10\<rparr>))
      else if n = 126 then
        (case Read2Bytes (drop 2 b) of None \<Rightarrow> Inl f | Some v \<Rightarrow> Inr (f\<lparr>ws_payload_len := uint v, payload_start := 4\<rparr>))
      else Inr f)"

definition ws_mask :: "ws_frame \<Rightarrow> ws_frame + ws_frame" where
  "ws_mask f =
     (let f = f\<lparr>mask_enable := bit (ws_buffer f ! 1) 7\<rparr>; p = payload_start f in
      if \<not> mask_enable f then Inr (f\<lparr>header_ready := True\<rparr>)
      else case grab 4 (drop p (ws_buffer f)) of
        None \<Rightarrow> Inl f
      | Some k \<Rightarrow> Inr (f\<lparr>payload_start := p + 4, masking_key := k, header_ready := True\<rparr>))"

definition ws_header :: "ws_frame \<Rightarrow> ws_frame + ws_frame" where
  "ws_header f = (if header_ready f then Inr f else case ws_length f of Inl f \<Rightarrow> Inl f | Inr f \<Rightarrow> ws_mask f)"

text \<open>Both loops over the payload, that for blocks of four bytes and that for the rest, take the byte of the key by the index modulo 4.\<close>

definition xor_key :: "bytes \<Rightarrow> bytes \<Rightarrow> bytes" where
  "xor_key key p = map2 (\<lambda>i b. b XOR key ! (i mod 4)) [0..<length p] p"

definition ws_unmask :: "ws_frame \<Rightarrow> ws_frame option" where
  "ws_unmask f = do {
     require (0 \<le> ws_payload_len f);
     let (b, i, n) = (ws_buffer f, payload_start f, nat (ws_payload_len f));
     Some (f\<lparr>ws_buffer := take i b @ xor_key (masking_key f) (take n (drop i b)) @ drop (i + n) b\<rparr>) }"

text \<open>The sum of the start and the length of the payload, an \<open>int64_t\<close>, must not overflow.\<close>

definition ws_Parse :: "bytes \<Rightarrow> ws_frame \<Rightarrow> (int \<times> ws_frame) option" where
  "ws_Parse d f =
     (let f = f\<lparr>ws_buffer := ws_buffer f @ d\<rparr> in
      if length (ws_buffer f) < 2 then Some (1, f)
      else case ws_header f of Inl f \<Rightarrow> Some (1, f) | Inr f \<Rightarrow>
        if 2 ^ 63 \<le> int (payload_start f) + ws_payload_len f then None
        else if int (length (ws_buffer f)) < int (payload_start f) + ws_payload_len f then Some (1, f)
        else if mask_enable f then map_option (\<lambda>f. (0, f)) (ws_unmask f)
        else Some (0, f))"

text \<open>The length of 64 bits is cut to an \<open>int\<close> of 32.\<close>

definition PayloadIsReady :: "ws_frame \<Rightarrow> bool" where
  "PayloadIsReady f \<longleftrightarrow> sint (of_int (ws_payload_len f) :: u32) \<le> int (length (ws_buffer f)) - int (payload_start f)"

definition GetPayloadData :: "ws_frame \<Rightarrow> bytes" where
  "GetPayloadData f = take (nat (ws_payload_len f)) (drop (payload_start f) (ws_buffer f))"

definition ws_Consume :: "ws_frame \<Rightarrow> ws_frame" where
  "ws_Consume f = f\<lparr>ws_buffer := drop (payload_start f + nat (ws_payload_len f)) (ws_buffer f)\<rparr>"

definition ws_Reset :: "ws_frame \<Rightarrow> ws_frame" where
  "ws_Reset f = f\<lparr>payload_start := 0, ws_payload_len := 0, header_ready := False\<rparr>"

section \<open>The session\<close>

datatype ws_event = OnReadText bytes | OnReadData bytes | SendFrame u8 bytes | WsOnClose int | WsTcpClose

record ws_session =
  ws_frame_of :: ws_frame
  recv_buffer_vec :: "bytes list"
  last_op_code :: u8
  die_count :: int
  last_recv_pong_ms :: int
  last_send_ping_ms :: int
  ws_connected :: bool
  ws_close :: bool
  ws_out :: "ws_event list"

definition new_WebSocketSessionBase :: "bytes \<Rightarrow> ws_session" where
  "new_WebSocketSessionBase key = \<lparr> ws_frame_of = new_WebSocketFrame key, recv_buffer_vec = [], last_op_code = 1, die_count = 0,
     last_recv_pong_ms = -1, last_send_ping_ms = -1, ws_connected = False, ws_close = False, ws_out = [] \<rparr>"

definition ws_call :: "ws_event \<Rightarrow> ws_session \<Rightarrow> ws_session" where
  "ws_call e s = s\<lparr>ws_out := ws_out s @ [e]\<rparr>"

definition HandleWsData :: "u8 \<Rightarrow> bytes \<Rightarrow> ws_session \<Rightarrow> ws_session" where
  "HandleWsData op d s =
     (if op = WS_OP_TEXT_TYPE then ws_call (OnReadText d) s
      else if op = WS_OP_BIN_TYPE then ws_call (OnReadData d) s
      else s)"

definition SendClose :: "u16 \<Rightarrow> string \<Rightarrow> ws_session \<Rightarrow> ws_session" where
  "SendClose code reason s = ws_call (SendFrame WS_OP_CLOSE_TYPE (str reason)) s"

definition close_code_invalid :: "u16 \<Rightarrow> bool" where
  "close_code_invalid c \<longleftrightarrow> c < 1000 \<or> 5000 \<le> c \<or> c = 1004 \<or> c = 1005 \<or> c = 1006 \<or> c = 1015"

definition HandleWsClose :: "bytes \<Rightarrow> ws_session \<Rightarrow> ws_session" where
  "HandleWsClose d s =
     (if ws_close s then s
      else let s = (case Read2Bytes d of
            None \<Rightarrow> SendClose 1002 ''Incomplete close code'' s
          | Some code \<Rightarrow> if close_code_invalid code then SendClose 1002 ''Invalid close code'' s
              else ws_call (SendFrame WS_OP_CLOSE_TYPE d) s) in
        ws_call WsTcpClose ((ws_call (WsOnClose 0) (s\<lparr>ws_close := True\<rparr>))\<lparr>ws_connected := False\<rparr>))"

definition HandleWsPing :: "ws_session \<Rightarrow> ws_session" where
  "HandleWsPing s = fold (\<lambda>d s. ws_call (SendFrame WS_OP_PONG_TYPE d) s) (recv_buffer_vec s) s"

text \<open>The end of a message, that is a frame with the bit \<open>fin\<close>.\<close>

definition ws_message :: "int \<Rightarrow> u8 \<Rightarrow> ws_session \<Rightarrow> ws_session" where
  "ws_message now op s =
     (let s = (if op = WS_OP_PING_TYPE then HandleWsPing s
        else if op = WS_OP_PONG_TYPE then s\<lparr>last_recv_pong_ms := now\<rparr>
        else if op = WS_OP_CLOSE_TYPE then fold HandleWsClose (recv_buffer_vec s) s
        else if op = WS_OP_CONTINUE_TYPE then fold (HandleWsData (last_op_code s)) (recv_buffer_vec s) s
        else if op = WS_OP_TEXT_TYPE \<or> op = WS_OP_BIN_TYPE then fold (HandleWsData op) (recv_buffer_vec s) s
        else s)
      in s\<lparr>recv_buffer_vec := []\<rparr>)"

text \<open>One turn of the loop of \<open>HandleFrame\<close>, after the new bytes have been added: 1 is its return, 0 its next turn.\<close>

definition ws_step :: "int \<Rightarrow> ws_session \<Rightarrow> (int \<times> ws_session) option" where
  "ws_step now s = do {
     (ret, f) \<leftarrow> ws_Parse [] (ws_frame_of s);
     let s = s\<lparr>ws_frame_of := f\<rparr>;
     if ret \<noteq> 0 then Some (ret, s)
     else do {
       let op = ws_opcode f;
       let s = (if op = WS_OP_TEXT_TYPE \<or> op = WS_OP_BIN_TYPE then s\<lparr>last_op_code := op\<rparr> else s);
       if \<not> PayloadIsReady f then Some (1, s)
       else do {
         require (0 \<le> ws_payload_len f);
         let s = s\<lparr>recv_buffer_vec := recv_buffer_vec s @ [GetPayloadData f], ws_frame_of := ws_Reset (ws_Consume f)\<rparr>;
         Some (0, if ws_fin f then ws_message now op (s\<lparr>die_count := 0\<rparr>) else s) } } }"

definition ws_add :: "bytes \<Rightarrow> ws_session \<Rightarrow> ws_session" where
  "ws_add d s = s\<lparr>ws_frame_of := (ws_frame_of s)\<lparr>ws_buffer := ws_buffer (ws_frame_of s) @ d\<rparr>\<rparr>"

lemma ws_length_buffer: "ws_length f = Inr f' \<Longrightarrow> ws_buffer f' = ws_buffer f \<and> 2 \<le> payload_start f'"
  by (auto simp: ws_length_def Let_def split: if_splits option.splits)

lemma ws_mask_buffer: "ws_mask f = Inr f' \<Longrightarrow> ws_buffer f' = ws_buffer f \<and> payload_start f \<le> payload_start f'"
  by (auto simp: ws_mask_def Let_def split: if_splits option.splits)

text \<open>\<open>HandleFrame\<close>, the loop and the call.\<close>

partial_function (option) ws_loop :: "int \<Rightarrow> ws_session \<Rightarrow> (int \<times> ws_session) option" where
  "ws_loop now s = (case ws_step now s of None \<Rightarrow> None
     | Some (ret, s') \<Rightarrow> if ret \<noteq> 0 then Some (ret, s')
         else if 0 < length (ws_buffer (ws_frame_of s')) then ws_loop now s' else Some (0, s'))"

definition HandleFrame :: "int \<Rightarrow> bytes \<Rightarrow> ws_session \<Rightarrow> (int \<times> ws_session) option" where
  "HandleFrame now d s = ws_loop now (ws_add d s)"

section \<open>Sending\<close>

definition SendWsFrame :: "bytes \<Rightarrow> u8 \<Rightarrow> bytes \<Rightarrow> bytes" where
  "SendWsFrame key op d =
     (let n = length d in
      [0x80 OR (op AND 0x0f), 0x80 OR (if n \<ge> 126 then if n > 65535 then 127 else 126 else of_nat n)]
      @ (if n \<ge> 126 then if n > 65535 then Write8Bytes (of_nat n) else Write2Bytes (of_nat n) else [])
      @ key @ xor_key key d)"

definition SendPingFrame :: "int \<Rightarrow> ws_session \<Rightarrow> ws_session" where
  "SendPingFrame now s = ws_call (SendFrame WS_OP_PING_TYPE (Write4Bytes (of_int (now sdiv 1000)))) s"

definition wsc_OnTimer :: "int \<Rightarrow> ws_session \<Rightarrow> ws_session" where
  "wsc_OnTimer now s =
     (if \<not> ws_connected s then s
      else let s = (if now - last_send_ping_ms s > 2000 then SendPingFrame now (s\<lparr>last_send_ping_ms := now\<rparr>) else s) in
        if last_recv_pong_ms s \<le> 0 then s\<lparr>last_recv_pong_ms := now\<rparr>
        else if now - last_recv_pong_ms s > kWebSocketPongTimeout then
          ws_call (WsOnClose (-1)) (ws_call WsTcpClose (s\<lparr>ws_connected := False\<rparr>))
        else s)"

section \<open>Frames in parts\<close>

definition fadd :: "bytes \<Rightarrow> ws_frame \<Rightarrow> ws_frame" where
  "fadd d f = f\<lparr>ws_buffer := ws_buffer f @ d\<rparr>"

lemma fadd_fadd: "fadd e (fadd d f) = fadd (d @ e) f"
  by (simp add: fadd_def)

lemma fadd_fields [simp]: "ws_buffer (fadd d f) = ws_buffer f @ d" "payload_start (fadd d f) = payload_start f"
  "ws_payload_len (fadd d f) = ws_payload_len f" "mask_enable (fadd d f) = mask_enable f" "header_ready (fadd d f) = header_ready f"
  "masking_key (fadd d f) = masking_key f" "ws_opcode (fadd d f) = ws_opcode f" "ws_fin (fadd d f) = ws_fin f"
  by (simp_all add: fadd_def)

lemma two_front:
  assumes "2 \<le> length b"
  shows "(b @ d) ! 0 = b ! 0" "(b @ d) ! Suc 0 = b ! Suc 0" "drop 2 (b @ d) = drop 2 b @ d"
proof -
  obtain x y t where "b = x # y # t" using assms by (cases b; cases "tl b") auto
  then show "(b @ d) ! 0 = b ! 0" "(b @ d) ! Suc 0 = b ! Suc 0" "drop 2 (b @ d) = drop 2 b @ d" by simp_all
qed

lemma ws_length_Inr:
  assumes "ws_length f = Inr f1" "2 \<le> length (ws_buffer f)"
  shows "ws_length (fadd d f) = Inr (fadd d f1)"
proof -
  note b = two_front [OF assms(2), of d]
  consider (long) "ws_buffer f ! 1 AND 0x7f = 127" | (mid) "ws_buffer f ! 1 AND 0x7f = 126"
    | (short) "ws_buffer f ! 1 AND 0x7f \<noteq> 127" "ws_buffer f ! 1 AND 0x7f \<noteq> 126" by blast
  then show ?thesis
  proof cases
    case long
    with assms(1) obtain v where "Read8Bytes (drop 2 (ws_buffer f)) = Some v" by (auto simp: ws_length_def Let_def split: option.splits)
    with long assms(1) Read_append(1) [OF this, of d] show ?thesis by (auto simp: ws_length_def Let_def b fadd_def simp del: drop_append)
  next
    case mid
    with assms(1) obtain v where "Read2Bytes (drop 2 (ws_buffer f)) = Some v" by (auto simp: ws_length_def Let_def split: option.splits)
    with mid assms(1) Read_append(4) [OF this, of d] show ?thesis by (auto simp: ws_length_def Let_def b fadd_def simp del: drop_append)
  next
    case short
    with assms(1) show ?thesis by (auto simp: ws_length_def Let_def b fadd_def simp del: drop_append)
  qed
qed

lemma ws_length_Inl:
  assumes "ws_length f = Inl f1" "2 \<le> length (ws_buffer f)"
  shows "ws_length (fadd d f1) = ws_length (fadd d f)" "header_ready f1 = header_ready f" "ws_buffer f1 = ws_buffer f"
proof -
  have "f1 = f\<lparr>ws_payload_len := ws_payload_len f1, payload_start := payload_start f1, ws_fin := ws_fin f1, ws_opcode := ws_opcode f1\<rparr>"
    using assms(1) by (auto simp: ws_length_def Let_def split: if_splits option.splits)
    then obtain n st fi op where f1: "f1 = f\<lparr>ws_payload_len := n, payload_start := st, ws_fin := fi, ws_opcode := op\<rparr>" by blast
  show "ws_length (fadd d f1) = ws_length (fadd d f)" unfolding f1 by (simp add: ws_length_def fadd_def Let_def)
  show "header_ready f1 = header_ready f" "ws_buffer f1 = ws_buffer f" unfolding f1 by simp_all
qed

lemma ws_mask_Inr:
  assumes "ws_mask f = Inr f1" "2 \<le> length (ws_buffer f)"
  shows "ws_mask (fadd d f) = Inr (fadd d f1)"
proof -
  note b = two_front [OF assms(2), of d]
  have g: "grab 4 (drop k (ws_buffer f)) = Some v \<Longrightarrow> grab 4 (drop k (ws_buffer f @ d)) = Some v" for k v
    by (auto simp: grab_def split: if_splits)
  show ?thesis
  proof (cases "bit (ws_buffer f ! 1) 7")
    case True
    with assms(1) obtain v where v: "grab 4 (drop (payload_start f) (ws_buffer f)) = Some v" by (auto simp: ws_mask_def Let_def split: option.splits)
    with True assms(1) g [OF v] show ?thesis by (auto simp: ws_mask_def Let_def b fadd_def simp del: drop_append)
  next
    case False
    with assms(1) show ?thesis by (auto simp: ws_mask_def Let_def b fadd_def simp del: drop_append)
  qed
qed

lemma ws_length_mask_enable:
  "ws_length (f\<lparr>mask_enable := m\<rparr>) = map_sum (\<lambda>f. f\<lparr>mask_enable := m\<rparr>) (\<lambda>f. f\<lparr>mask_enable := m\<rparr>) (ws_length f)"
  by (cases "Read8Bytes (drop 2 (ws_buffer f))"; cases "Read2Bytes (drop 2 (ws_buffer f))")
    (simp_all add: ws_length_def Let_def del: Read_None_iff)

lemma ws_header_Inr:
  assumes "ws_header f = Inr f1" "2 \<le> length (ws_buffer f)"
  shows "ws_header (fadd d f) = Inr (fadd d f1)"
proof (cases "header_ready f")
  case True
  with assms(1) show ?thesis by (simp add: ws_header_def)
next
  case False
  with assms(1) obtain f2 where f2: "ws_length f = Inr f2" "ws_mask f2 = Inr f1" by (auto simp: ws_header_def split: sum.splits)
  have "ws_buffer f2 = ws_buffer f" using ws_length_buffer [OF f2(1)] by simp
  with False ws_length_Inr [OF f2(1) assms(2)] ws_mask_Inr [OF f2(2)] assms(2) show ?thesis by (simp add: ws_header_def)
qed

lemma ws_header_Inl:
  assumes "ws_header f = Inl f1" "2 \<le> length (ws_buffer f)"
  shows "ws_header (fadd d f1) = ws_header (fadd d f)" "ws_buffer f1 = ws_buffer f"
proof -
  have nr: "\<not> header_ready f" using assms(1) by (auto simp: ws_header_def)
  have "ws_header (fadd d f1) = ws_header (fadd d f) \<and> ws_buffer f1 = ws_buffer f"
  proof (cases "ws_length f")
    case (Inl f2)
    then have "f1 = f2" using assms(1) nr by (simp add: ws_header_def)
    with ws_length_Inl [OF Inl assms(2)] nr show ?thesis by (simp add: ws_header_def)
  next
    case (Inr f2)
    then have "ws_mask f2 = Inl f1" using assms(1) nr by (simp add: ws_header_def)
    then have f1: "f1 = f2\<lparr>mask_enable := True\<rparr>" by (auto simp: ws_mask_def Let_def split: if_splits option.splits)
    have "f2 = f\<lparr>ws_payload_len := ws_payload_len f2, payload_start := payload_start f2, ws_fin := ws_fin f2, ws_opcode := ws_opcode f2\<rparr>"
      using Inr by (auto simp: ws_length_def Let_def split: if_splits option.splits)
    then obtain n st fi op where f2: "f2 = f\<lparr>ws_payload_len := n, payload_start := st, ws_fin := fi, ws_opcode := op\<rparr>" by blast
    have "ws_length (fadd d f2) = ws_length (fadd d f)" unfolding f2 by (simp add: ws_length_def fadd_def Let_def)
    moreover have "fadd d f1 = (fadd d f2)\<lparr>mask_enable := True\<rparr>" by (simp add: f1 fadd_def)
    ultimately have "ws_length (fadd d f1) = Inr ((fadd d f2)\<lparr>mask_enable := True\<rparr>)"
      using ws_length_Inr [OF Inr assms(2), of d] by (simp add: ws_length_mask_enable)
    moreover have "ws_mask ((fadd d f2)\<lparr>mask_enable := True\<rparr>) = ws_mask (fadd d f2)"
      by (simp add: ws_mask_def Let_def)
    ultimately show ?thesis using ws_length_Inr [OF Inr assms(2), of d] nr ws_length_buffer [OF Inr]
      by (simp add: ws_header_def f1 f2)
  qed
  then show "ws_header (fadd d f1) = ws_header (fadd d f)" "ws_buffer f1 = ws_buffer f" by simp_all
qed

lemma ws_header_ready: "ws_header f = Inr f1 \<Longrightarrow> header_ready f1"
  by (auto simp: ws_header_def ws_mask_def Let_def split: if_splits sum.splits option.splits)

lemma length_xor_key [simp]: "length (xor_key key p) = length p"
  by (simp add: xor_key_def)

lemma xor_key_twice: "xor_key key (xor_key key p) = p"
  by (rule nth_equalityI) (simp_all add: xor_key_def xor.assoc)

text \<open>The payload is in the buffer.\<close>

definition ws_complete :: "ws_frame \<Rightarrow> bool" where
  "ws_complete f \<longleftrightarrow> int (payload_start f) + ws_payload_len f \<le> int (length (ws_buffer f))"

lemma complete_parts:
  assumes "ws_complete f" "0 \<le> ws_payload_len f"
  shows "payload_start f + nat (ws_payload_len f) \<le> length (ws_buffer f)"
proof -
  have "int (nat (ws_payload_len f)) = ws_payload_len f" using assms(2) by simp
  then show ?thesis using assms(1) unfolding ws_complete_def by linarith
qed

lemma ws_Parse_eq: "ws_Parse [] f =
   (if length (ws_buffer f) < 2 then Some (1, f)
    else case ws_header f of Inl f \<Rightarrow> Some (1, f) | Inr f \<Rightarrow>
      if 2 ^ 63 \<le> int (payload_start f) + ws_payload_len f then None else if \<not> ws_complete f then Some (1, f) else if mask_enable f then map_option (\<lambda>f. (0, f)) (ws_unmask f) else Some (0, f))"
  by (simp add: ws_Parse_def ws_complete_def Let_def not_le split: sum.split)

lemma ws_unmask_fadd:
  assumes "ws_complete f"
  shows "ws_unmask (fadd d f) = map_option (fadd d) (ws_unmask f)"
proof (cases "0 \<le> ws_payload_len f")
  case True
  then show ?thesis using complete_parts [OF assms True] by (simp add: ws_unmask_def fadd_def)
qed (simp add: ws_unmask_def)

lemma ws_complete_fadd: "ws_complete f \<Longrightarrow> ws_complete (fadd d f)"
  by (simp add: ws_complete_def)

lemma ws_Parse_add:
  "ws_Parse [] f = Some (0, f1) \<Longrightarrow> ws_Parse [] (fadd d f) = Some (0, fadd d f1) \<and> ws_complete f1"
  "ws_Parse [] f = Some (1, f1) \<Longrightarrow> ws_Parse [] (fadd d f) = ws_Parse [] (fadd d f1)"
  "ws_Parse [] f = None \<Longrightarrow> ws_Parse [] (fadd d f) = None"
  "ws_Parse [] f = Some (r, f1) \<Longrightarrow> r = 0 \<or> r = 1"
proof -
  have "(ws_Parse [] f = Some (0, f1) \<longrightarrow> ws_Parse [] (fadd d f) = Some (0, fadd d f1) \<and> ws_complete f1) \<and>
    (ws_Parse [] f = Some (1, f1) \<longrightarrow> ws_Parse [] (fadd d f) = ws_Parse [] (fadd d f1)) \<and>
    (ws_Parse [] f = None \<longrightarrow> ws_Parse [] (fadd d f) = None) \<and> (ws_Parse [] f = Some (r, f1) \<longrightarrow> r = 0 \<or> r = 1)"
  proof (cases "length (ws_buffer f) < 2")
    case True
    then show ?thesis by (auto simp: ws_Parse_eq)
  next
    case long: False
    then have l: "2 \<le> length (ws_buffer f)" by simp
    show ?thesis
    proof (cases "ws_header f")
      case (Inl f2)
      with ws_header_Inl(1) [OF Inl l, of d] ws_header_Inl(2) [OF Inl l] l show ?thesis by (auto simp: ws_Parse_eq)
    next
      case (Inr f2)
      have b: "ws_buffer f2 = ws_buffer f" using Inr ws_length_buffer ws_mask_buffer
        by (auto simp: ws_header_def split: if_splits sum.splits)
      note h = ws_header_Inr [OF Inr l, of d] and r = ws_header_ready [OF Inr]
      let ?over = "2 ^ 63 \<le> int (payload_start f2) + ws_payload_len f2"
      have P: "ws_Parse [] f = (if ?over then None else if \<not> ws_complete f2 then Some (1, f2) else if mask_enable f2 then map_option (\<lambda>f. (0, f)) (ws_unmask f2) else Some (0, f2))"
        using Inr l by (simp add: ws_Parse_eq)
      show ?thesis
      proof (cases "?over \<or> ws_complete f2")
        case False
        have "ws_header (fadd d f2) = Inr (fadd d f2)" using r by (simp add: ws_header_def)
        with h b l have "ws_Parse [] (fadd d f) = ws_Parse [] (fadd d f2)" by (simp add: ws_Parse_eq)
        with False P show ?thesis by auto
      next
        case True
        show ?thesis
        proof (cases ?over)
          case True
          with P h l show ?thesis by (simp add: ws_Parse_eq [of "fadd d f"])
        next
        case False
          with True have True: "ws_complete f2" by blast
          have "ws_Parse [] (fadd d f) = map_option (\<lambda>(r, f). (r, fadd d f)) (ws_Parse [] f)"
            using True False P h l ws_complete_fadd [OF True, of d] ws_unmask_fadd [OF True, of d]
            by (simp add: ws_Parse_eq [of "fadd d f"] option.map_comp comp_def)
          moreover have "ws_complete f1" if "ws_unmask f2 = Some f1"
            using that True complete_parts [OF True] by (cases "0 \<le> ws_payload_len f2") (auto simp: ws_unmask_def ws_complete_def)
          ultimately show ?thesis using True False P by auto
        qed
      qed
    qed
  qed
  then show "ws_Parse [] f = Some (0, f1) \<Longrightarrow> ws_Parse [] (fadd d f) = Some (0, fadd d f1) \<and> ws_complete f1"
    "ws_Parse [] f = Some (1, f1) \<Longrightarrow> ws_Parse [] (fadd d f) = ws_Parse [] (fadd d f1)"
    "ws_Parse [] f = None \<Longrightarrow> ws_Parse [] (fadd d f) = None"
    "ws_Parse [] f = Some (r, f1) \<Longrightarrow> r = 0 \<or> r = 1" by blast+
qed

section \<open>A session that can be fed in parts\<close>

lemma ws_add_def2: "ws_add d s = s\<lparr>ws_frame_of := fadd d (ws_frame_of s)\<rparr>"
  by (simp add: ws_add_def fadd_def)

lemma fold_commutes: "(\<And>x s. f x (g s) = g (f x s)) \<Longrightarrow> fold f xs (g s) = g (fold f xs s)"
  by (induction xs arbitrary: s) simp_all

lemma ws_message_add: "ws_message now op (ws_add d s) = ws_add d (ws_message now op s)"
proof -
  have d: "HandleWsData op x (ws_add d s) = ws_add d (HandleWsData op x s)" for op x s
    by (simp add: HandleWsData_def ws_call_def ws_add_def)
  have c: "HandleWsClose x (ws_add d s) = ws_add d (HandleWsClose x s)" for x s
    by (cases "Read2Bytes x") (simp_all add: HandleWsClose_def SendClose_def Let_def ws_call_def ws_add_def del: Read_None_iff)
  have p: "ws_call e (ws_add d s) = ws_add d (ws_call e s)" for e s by (simp add: ws_call_def ws_add_def)
  have r: "recv_buffer_vec (ws_add d s) = recv_buffer_vec s" "last_op_code (ws_add d s) = last_op_code s" by (simp_all add: ws_add_def)
  have f: "fold (HandleWsData op) xs (ws_add d s) = ws_add d (fold (HandleWsData op) xs s)"
    "fold HandleWsClose xs (ws_add d s) = ws_add d (fold HandleWsClose xs s)"
    "fold (\<lambda>x. ws_call (SendFrame op x)) xs (ws_add d s) = ws_add d (fold (\<lambda>x. ws_call (SendFrame op x)) xs s)" for op xs s
    by (rule fold_commutes, rule d c p)+
  show ?thesis
    by (simp add: ws_message_def HandleWsPing_def r f Let_def) (simp add: ws_add_def)
qed

lemma PayloadIsReady_fadd: "PayloadIsReady f \<Longrightarrow> PayloadIsReady (fadd d f)"
  by (simp add: PayloadIsReady_def)

text \<open>\<open>feed_all\<close> feeds a reader piece by piece, and drives it after each piece as far as it goes.\<close>

primrec feed_all :: "('s \<Rightarrow> (int \<times> 's) option) \<Rightarrow> (bytes \<Rightarrow> 's \<Rightarrow> 's) \<Rightarrow> bytes list \<Rightarrow> 's \<Rightarrow> 's option" where
  "feed_all step add [] s = Some s"
| "feed_all step add (d # ds) s = (case repeat_while_0 step (add d s) of None \<Rightarrow> None | Some (r, s') \<Rightarrow> feed_all step add ds s')"

locale strict_resumable = resumable +
  assumes undefined_stays: "step s = None \<Longrightarrow> step (add d s) = None"
    and step_codes: "step s = Some (r, s') \<Longrightarrow> r = 0 \<or> r = more"
begin

lemma drive_prefix:
  assumes "repeat_while_0 step (add d s) = Some x"
  shows "\<exists>s'. repeat_while_0 step s = Some (more, s')"
proof -
  have "t = add d s \<Longrightarrow> \<exists>s'. repeat_while_0 step s = Some (more, s')" if "repeat_while_0 step t = Some x" for t x
    using that
  proof (induction arbitrary: s rule: repeat_while_0_induct)
    case (stop t r t')
    then obtain r' s' where s: "step s = Some (r', s')" using undefined_stays [of s d] by (cases "step s") auto
    have "r' = more" using step_codes [OF s] step_decided [OF s, of d] stop more_nonzero by auto
    then show ?case using s more_nonzero by (auto simp: repeat_while_0_stop)
  next
    case (again t t' x)
    then obtain r' s' where s: "step s = Some (r', s')" using undefined_stays [of s d] by (cases "step s") auto
    show ?case
    proof (cases "r' = more")
      case True
      then show ?thesis using s more_nonzero by (auto simp: repeat_while_0_stop)
    next
      case False
      then have "step (add d s) = Some (r', add d s')" "r' = 0" using step_decided [OF s] step_codes [OF s] by auto
      then have "t' = add d s'" using again by simp
      with again.IH [of s'] s \<open>r' = 0\<close> show ?thesis by (simp add: repeat_while_0_step)
    qed
  qed
  from this [OF assms refl] show ?thesis .
qed

lemma feed_whole:
  "repeat_while_0 step (add (concat ds) s) = Some (more, s') \<Longrightarrow> ds \<noteq> [] \<Longrightarrow> feed_all step add ds s = Some s'"
proof (induction ds arbitrary: s)
  case (Cons d ds)
  show ?case
  proof (cases "ds = []")
    case True
    then show ?thesis using Cons.prems by simp
  next
    case False
    have "repeat_while_0 step (add (concat ds) (add d s)) = Some (more, s')" using Cons.prems(1) by (simp add: add_add)
    from drive_prefix [OF this] obtain s1 where s1: "repeat_while_0 step (add d s) = Some (more, s1)" by blast
    have "repeat_while_0 step (add (concat ds) s1) = Some (more, s')"
      using drive_split [OF s1, of "concat ds"] Cons.prems(1) by simp
    from Cons.IH [OF this False] s1 show ?thesis by simp
  qed
qed simp

end

definition ws_taken :: "int \<Rightarrow> ws_frame \<Rightarrow> ws_session \<Rightarrow> ws_session" where
  "ws_taken now f s =
     (let op = ws_opcode f;
        s = s\<lparr>last_op_code := (if op = WS_OP_TEXT_TYPE \<or> op = WS_OP_BIN_TYPE then op else last_op_code s),
          recv_buffer_vec := recv_buffer_vec s @ [GetPayloadData f], ws_frame_of := ws_Reset (ws_Consume f)\<rparr> in
      if ws_fin f then ws_message now op (s\<lparr>die_count := 0\<rparr>) else s)"

lemma ws_step_cases:
  assumes "ws_Parse [] (ws_frame_of s) = Some (0, f)"
  shows "ws_step now s = (if \<not> PayloadIsReady f then Some (1, s\<lparr>ws_frame_of := f,
        last_op_code := (if ws_opcode f = WS_OP_TEXT_TYPE \<or> ws_opcode f = WS_OP_BIN_TYPE then ws_opcode f else last_op_code s)\<rparr>)
    else if 0 \<le> ws_payload_len f then Some (0, ws_taken now f s) else None)"
  using assms by (simp add: ws_step_def ws_taken_def Let_def require_def)

lemma complete_payload:
  assumes "ws_complete f" "0 \<le> ws_payload_len f"
  shows "GetPayloadData (fadd d f) = GetPayloadData f" "ws_Reset (ws_Consume (fadd d f)) = fadd d (ws_Reset (ws_Consume f))"
  using complete_parts [OF assms] by (simp_all add: GetPayloadData_def ws_Reset_def ws_Consume_def fadd_def)

lemma not_ready_negative: "ws_complete f \<Longrightarrow> \<not> PayloadIsReady f \<Longrightarrow> ws_payload_len f < 0"
proof (rule ccontr)
  assume c: "ws_complete f" "\<not> PayloadIsReady f" "\<not> ws_payload_len f < 0"
  have "sint (of_int (ws_payload_len f) :: u32) = signed_take_bit 31 (ws_payload_len f)" by (simp add: signed_of_int)
  also have "\<dots> \<le> ws_payload_len f"
    using c(3) signed_take_bit_int_less_eq_self_iff [of 31 "ws_payload_len f"] by simp
  finally show False using c(1,2) by (simp add: PayloadIsReady_def ws_complete_def)
qed

lemma ws_Parse_negative:
  assumes "ws_Parse [] f = Some (0, f1)" "ws_payload_len f1 < 0"
  shows "ws_Parse [] f1 = Some (0, f1)"
proof -
  obtain f2 where l: "\<not> length (ws_buffer f) < 2" and h: "ws_header f = Inr f2" and c: "ws_complete f2"
    and o: "\<not> 2 ^ 63 \<le> int (payload_start f2) + ws_payload_len f2"
    and r: "(if mask_enable f2 then map_option (\<lambda>f. (0, f)) (ws_unmask f2) else Some (0, f2)) = Some (0, f1)"
    using assms(1) by (auto simp: ws_Parse_eq split: if_splits sum.splits)
  have "ws_payload_len f1 = ws_payload_len f2 \<and> 0 \<le> ws_payload_len f2" if "ws_unmask f2 = Some f1"
    using that by (cases "0 \<le> ws_payload_len f2") (auto simp: ws_unmask_def)
  then have f: "f1 = f2" "\<not> mask_enable f2" using r assms(2) by (auto split: if_splits)
  have "ws_buffer f2 = ws_buffer f" using h ws_length_buffer ws_mask_buffer by (auto simp: ws_header_def split: if_splits sum.splits)
  moreover have "ws_header f2 = Inr f2" using ws_header_ready [OF h] by (simp add: ws_header_def)
  ultimately show ?thesis using l c f o by (simp add: ws_Parse_eq)
qed

lemma frame_add [simp]: "ws_frame_of (ws_add d s) = fadd d (ws_frame_of s)"
  by (simp add: ws_add_def2)

lemma ws_taken_add:
  assumes "ws_complete f" "0 \<le> ws_payload_len f"
  shows "ws_taken now (fadd d f) (ws_add d s) = ws_add d (ws_taken now f s)"
proof -
  let ?t = "s\<lparr>last_op_code := (if ws_opcode f = WS_OP_TEXT_TYPE \<or> ws_opcode f = WS_OP_BIN_TYPE then ws_opcode f else last_op_code s),
    recv_buffer_vec := recv_buffer_vec s @ [GetPayloadData f], ws_frame_of := ws_Reset (ws_Consume f)\<rparr>"
  have t: "(ws_add d s)\<lparr>last_op_code := (if ws_opcode f = WS_OP_TEXT_TYPE \<or> ws_opcode f = WS_OP_BIN_TYPE then ws_opcode f else last_op_code (ws_add d s)),
      recv_buffer_vec := recv_buffer_vec (ws_add d s) @ [GetPayloadData (fadd d f)], ws_frame_of := ws_Reset (ws_Consume (fadd d f))\<rparr> = ws_add d ?t"
    by (simp add: complete_payload [OF assms] ws_add_def2)
  have "(ws_add d ?t)\<lparr>die_count := 0\<rparr> = ws_add d (?t\<lparr>die_count := 0\<rparr>)" by (simp add: ws_add_def2)
  then show ?thesis using t ws_message_add [of now "ws_opcode f" d "?t\<lparr>die_count := 0\<rparr>"] by (cases "ws_fin f") (simp_all only: ws_taken_def Let_def fadd_fields if_True if_False)
qed

lemma ws_step_decided:
  assumes "ws_step now s = Some (0, s')"
  shows "ws_step now (ws_add d s) = Some (0, ws_add d s')"
proof -
  obtain r f where p: "ws_Parse [] (ws_frame_of s) = Some (r, f)" using assms by (auto simp: ws_step_def bind_eq_Some_conv)
  then have "r = 0" using assms ws_Parse_add(4) [OF p] by (auto simp: ws_step_def)
  note p = p [unfolded this]
  note q = ws_Parse_add(1) [OF p, of d]
  have ready: "PayloadIsReady f" "0 \<le> ws_payload_len f" using assms unfolding ws_step_cases [OF p] by (auto simp: Let_def split: if_splits)
  have "ws_Parse [] (ws_frame_of (ws_add d s)) = Some (0, fadd d f)" using q by simp
  from ws_step_cases [OF this, of now] show ?thesis
    using assms ready PayloadIsReady_fadd [OF ready(1), of d] ws_taken_add [OF conjunct2 [OF q] ready(2)] unfolding ws_step_cases [OF p] by simp
qed

lemma ws_step_resumes:
  assumes "ws_step now s = Some (1, s')"
  shows "ws_step now (ws_add d s) = ws_step now (ws_add d s')"
proof -
  obtain r f where p: "ws_Parse [] (ws_frame_of s) = Some (r, f)" using assms by (auto simp: ws_step_def bind_eq_Some_conv)
  consider "r = 1" | "r = 0" using ws_Parse_add(4) [OF p] by blast
  then show ?thesis
  proof cases
    case 1
    then have "s' = s\<lparr>ws_frame_of := f\<rparr>" using assms p by (simp add: ws_step_def)
    with ws_Parse_add(2) [OF p [unfolded 1], of d] show ?thesis by (simp add: ws_step_def ws_add_def2)
  next
    case 2
    note p = p [unfolded 2]
    note q = ws_Parse_add(1) [OF p, of d]
    have nr: "\<not> PayloadIsReady f" and s': "s' = (if ws_opcode f = WS_OP_TEXT_TYPE \<or> ws_opcode f = WS_OP_BIN_TYPE
        then s\<lparr>ws_frame_of := f, last_op_code := ws_opcode f\<rparr> else s\<lparr>ws_frame_of := f\<rparr>)"
      using assms unfolding ws_step_cases [OF p] by (auto simp: Let_def split: if_splits)
    have "ws_payload_len f < 0" using not_ready_negative nr q by blast
    from ws_Parse_add(1) [OF ws_Parse_negative [OF p this], of d] have "ws_Parse [] (fadd d f) = Some (0, fadd d f)" by simp
    with q show ?thesis by (auto simp: s' ws_step_def ws_add_def2 Let_def)
  qed
qed

lemma ws_step_codes: "ws_step now s = Some (r, s') \<Longrightarrow> r = 0 \<or> r = 1"
proof -
  assume a: "ws_step now s = Some (r, s')"
  then obtain r' f where p: "ws_Parse [] (ws_frame_of s) = Some (r', f)" by (auto simp: ws_step_def bind_eq_Some_conv)
  consider "r' = 1" | "r' = 0" using ws_Parse_add(4) [OF p] by blast
  then show ?thesis
  proof cases
    case 2
    show ?thesis using a unfolding ws_step_cases [OF p [unfolded 2]] by (auto simp: Let_def split: if_splits)
  qed (use a p in \<open>simp add: ws_step_def\<close>)
qed

lemma ws_step_undefined:
  assumes "ws_step now s = None"
  shows "ws_step now (ws_add d s) = None"
proof (cases "ws_Parse [] (ws_frame_of s)")
  case None
  from ws_Parse_add(3) [OF this, of d] show ?thesis by (simp add: ws_step_def)
next
  case (Some x)
  obtain r f where x: "x = (r, f)" by (cases x)
  note p = Some [unfolded x]
  have r: "r = 0" using assms p ws_Parse_add(4) [OF p] by (auto simp: ws_step_def)
  note p = p [unfolded r]
  have neg: "PayloadIsReady f" "\<not> 0 \<le> ws_payload_len f" using assms unfolding ws_step_cases [OF p] by (auto simp: Let_def split: if_splits)
  have "ws_Parse [] (ws_frame_of (ws_add d s)) = Some (0, fadd d f)" using ws_Parse_add(1) [OF p, of d] by simp
  from ws_step_cases [OF this, of now] neg PayloadIsReady_fadd [OF neg(1), of d] show ?thesis by (simp add: Let_def)
qed

interpretation ws: strict_resumable "ws_step now" ws_add 1 for now
proof
  show "(1 :: int) \<noteq> 0" by simp
  show "ws_add e (ws_add d s) = ws_add (d @ e) s" for e d s by (simp add: ws_add_def)
  fix s r s' d
  show "ws_step now s = Some (r, s') \<Longrightarrow> r \<noteq> 1 \<Longrightarrow> ws_step now (ws_add d s) = Some (r, ws_add d s')"
    using ws_step_codes [of now s r s'] ws_step_decided [of now s s' d] by auto
  show "ws_step now s = Some (1, s') \<Longrightarrow> ws_step now (ws_add d s) = ws_step now (ws_add d s')"
    by (rule ws_step_resumes)
  show "ws_step now s = None \<Longrightarrow> ws_step now (ws_add d s) = None" by (rule ws_step_undefined)
  show "ws_step now s = Some (r, s') \<Longrightarrow> r = 0 \<or> r = 1" by (rule ws_step_codes)
qed

section \<open>One frame\<close>

lemma first_byte: "bit (0x80 OR x :: u8) 7" "(0x80 OR (x AND 0x0f)) AND 0x0f = (x AND 0x0f :: u8)"
proof -
  have m: "(0x0f :: u8) = mask 4" by (simp add: mask_eq_exp_minus_1)
  show "bit (0x80 OR x :: u8) 7" by (simp add: bit_simps)
  have "\<not> bit (0x80 :: u8) k" if "k < 4" for k using that by (auto simp: less_Suc_eq numeral_eq_Suc bit_simps)
  then show "(0x80 OR (x AND 0x0f)) AND 0x0f = (x AND 0x0f :: u8)" unfolding m by (intro bit_word_eqI) (auto simp: bit_simps)
qed

lemma second_byte:
  assumes "unat m < 128"
  shows "(0x80 OR m) AND 0x7f = (m :: u8)"
proof -
  have k: "(0x7f :: u8) = mask 7" by (simp add: mask_eq_exp_minus_1)
  have "m AND mask 7 = m" using assms by (simp only: word_eq_iff_unat unat_mask_mod) simp
  then have b: "bit m n \<Longrightarrow> n < 7" for n by (metis bit_and_iff bit_mask_iff)
  have "\<not> bit (0x80 :: u8) n" if "n < 7" for n using that by (auto simp: less_Suc_eq numeral_eq_Suc bit_simps)
  then show ?thesis unfolding k using b by (intro bit_word_eqI) (auto simp: bit_simps)
qed

lemma sint_of_nat_u64: "n < 2 ^ 63 \<Longrightarrow> sint (of_nat n :: u64) = int n"
proof -
  assume n: "n < 2 ^ 63"
  have "sint (of_int (int n) :: u64) = signed_take_bit 63 (int n)" by (simp only: sint_sbintrunc') simp
  then have "sint (of_nat n :: u64) = signed_take_bit 63 (int n)" by (simp only: of_int_of_nat_eq)
  also have "\<dots> = int n" using n by (intro signed_take_bit_int_eq_self) simp_all
  finally show ?thesis .
qed

lemma uint_small: "n \<le> 65535 \<Longrightarrow> uint (of_nat n :: u16) = int n"
proof -
  assume "n \<le> 65535"
  then have "unat (of_nat n :: u16) = n" by (simp add: unat_of_nat)
  then show ?thesis by (simp only: uint_nat)
qed

lemma uint_small_u8: "n < 256 \<Longrightarrow> uint (of_nat n :: u8) = int n"
proof -
  assume "n < 256"
  then have "unat (of_nat n :: u8) = n" by (simp add: unat_of_nat)
  then show ?thesis by (simp only: uint_nat)
qed

lemma ws_length_sent:
  assumes "length d < 2 ^ 63" "ws_buffer f = SendWsFrame key op d"
  shows "\<exists>p. ws_length f = Inr (f\<lparr>ws_payload_len := int (length d), payload_start := p, ws_fin := True, ws_opcode := op AND 0x0f\<rparr>) \<and>
    2 \<le> p \<and> drop p (ws_buffer f) = key @ xor_key key d \<and> bit (ws_buffer f ! 1) 7 \<and> p \<le> 10"
proof -
  let ?n = "length d"
  define m :: u8 where "m = (if ?n \<ge> 126 then if ?n > 65535 then 127 else 126 else of_nat ?n)"
  define x where "x = (if ?n \<ge> 126 then if ?n > 65535 then Write8Bytes (of_nat ?n) else Write2Bytes (of_nat ?n) else [])"
  have b: "ws_buffer f = [0x80 OR (op AND 0x0f), 0x80 OR m] @ x @ key @ xor_key key d"
    unfolding assms(2) SendWsFrame_def m_def x_def by (simp add: Let_def)
  have m: "unat m < 128" by (auto simp: m_def unat_of_nat)
  note B = first_byte second_byte [OF m]
  consider (long) "65535 < ?n" | (mid) "126 \<le> ?n" "?n \<le> 65535" | (short) "?n < 126" by linarith
  then show ?thesis
  proof cases
    case long
    then have "m = 127" and x: "x = Write8Bytes (of_nat ?n)" by (simp_all add: m_def x_def)
    then have "ws_length f = Inr (f\<lparr>ws_payload_len := int ?n, payload_start := 10, ws_fin := True, ws_opcode := op AND 0x0f\<rparr>)"
      using B b sint_of_nat_u64 [OF assms(1)] by (simp add: ws_length_def Let_def wire)
    then show ?thesis using b x by (intro exI [of _ 10]) (simp add: lens bit_simps)
  next
    case mid
    then have "m = 126" and x: "x = Write2Bytes (of_nat ?n)" by (simp_all add: m_def x_def)
    then have "ws_length f = Inr (f\<lparr>ws_payload_len := int ?n, payload_start := 4, ws_fin := True, ws_opcode := op AND 0x0f\<rparr>)"
      using B b uint_small [of ?n] mid by (simp add: ws_length_def Let_def wire)
    then show ?thesis using b x by (intro exI [of _ 4]) (simp add: lens bit_simps)
  next
    case short
    then have mx: "m = of_nat ?n" "x = []" by (simp_all add: m_def x_def)
    have "(of_nat ?n :: u8) \<noteq> 127" "(of_nat ?n :: u8) \<noteq> 126" "uint (of_nat ?n :: u8) = int ?n"
      using short uint_small_u8 [of ?n] by (auto simp: word_eq_iff_unat unat_of_nat)
    then have "m \<noteq> 127" "m \<noteq> 126" "uint m = int ?n" unfolding mx(1) .
    then have "ws_length f = Inr (f\<lparr>ws_payload_len := int ?n, payload_start := 2, ws_fin := True, ws_opcode := op AND 0x0f\<rparr>)"
      using B b mx(2) by (simp add: ws_length_def Let_def)
    then show ?thesis using b mx(2) by (intro exI [of _ 2]) (simp add: bit_simps)
  qed
qed

lemma ws_Parse_frame:
  assumes "\<not> header_ready f" "ws_buffer f = SendWsFrame key op d" "length key = 4" "length d < 2 ^ 62"
  shows "\<exists>f1. ws_Parse [] f = Some (0, f1) \<and> ws_opcode f1 = op AND 0x0f \<and> ws_fin f1 \<and> ws_payload_len f1 = int (length d) \<and>
    GetPayloadData f1 = d \<and> ws_buffer (ws_Consume f1) = []"
proof -
  obtain p where p: "ws_length f = Inr (f\<lparr>ws_payload_len := int (length d), payload_start := p, ws_fin := True, ws_opcode := op AND 0x0f\<rparr>)"
    "2 \<le> p" "drop p (ws_buffer f) = key @ xor_key key d" "bit (ws_buffer f ! 1) 7" "p \<le> 10"
    using ws_length_sent [OF _ assms(2)] assms(4) by auto
  have "0 < length (drop p (ws_buffer f))" unfolding p(3) using assms(3) by simp
  moreover have "length (drop p (ws_buffer f)) = 4 + length d" unfolding p(3) using assms(3) by simp
  ultimately have l: "length (ws_buffer f) = p + 4 + length d" by simp
  let ?f = "f\<lparr>ws_payload_len := int (length d), payload_start := p + 4, ws_fin := True, ws_opcode := op AND 0x0f, mask_enable := True,
    masking_key := key, header_ready := True\<rparr>"
  have h: "ws_header f = Inr ?f" using assms(1,3) p(3,4) by (simp add: ws_header_def p(1) ws_mask_def Let_def grab_def)
  have q: "drop (p + 4) (ws_buffer f) = xor_key key d"
    using arg_cong [OF p(3), of "drop 4"] assms(3) by (simp add: add.commute)
  define f1 where "f1 = ?f\<lparr>ws_buffer := take (p + 4) (ws_buffer f) @ d\<rparr>"
  have "ws_unmask ?f = Some f1" using l q by (simp add: ws_unmask_def f1_def xor_key_twice)
  then have "ws_Parse [] f = Some (0, f1)" using h l using p(5) assms(4) by (simp add: ws_Parse_eq ws_complete_def)
  moreover have "GetPayloadData f1 = d" "ws_buffer (ws_Consume f1) = []" using l by (simp_all add: f1_def GetPayloadData_def ws_Consume_def)
  ultimately show ?thesis by (intro exI [of _ f1]) (simp add: f1_def)
qed

definition ws_frame_idle :: "ws_session \<Rightarrow> bool" where
  "ws_frame_idle s \<longleftrightarrow> \<not> header_ready (ws_frame_of s) \<and> ws_buffer (ws_frame_of s) = []"

lemma ws_message_frame: "ws_frame_of (ws_message now op s) = ws_frame_of s" "recv_buffer_vec (ws_message now op s) = []"
proof -
  have d: "ws_frame_of (HandleWsData op x s) = ws_frame_of s" for op x s by (simp add: HandleWsData_def ws_call_def)
  have c: "ws_frame_of (HandleWsClose x s) = ws_frame_of s" for x s
    by (cases "Read2Bytes x") (simp_all add: HandleWsClose_def SendClose_def Let_def ws_call_def del: Read_None_iff)
  have p: "ws_frame_of (ws_call e s) = ws_frame_of s" for e s by (simp add: ws_call_def)
  have f: "(\<And>x s. ws_frame_of (g x s) = ws_frame_of s) \<Longrightarrow> ws_frame_of (fold g xs s) = ws_frame_of s" for g :: "bytes \<Rightarrow> ws_session \<Rightarrow> ws_session" and xs s
    by (induction xs arbitrary: s) simp_all
  have ff: "ws_frame_of (fold (HandleWsData op) xs s) = ws_frame_of s" "ws_frame_of (fold HandleWsClose xs s) = ws_frame_of s"
    "ws_frame_of (fold (\<lambda>x. ws_call (SendFrame op x)) xs s) = ws_frame_of s" for op xs s
    by (rule f, rule d c p)+
  show "ws_frame_of (ws_message now op s) = ws_frame_of s" "recv_buffer_vec (ws_message now op s) = []"
    by (simp_all add: ws_message_def HandleWsPing_def ff)
qed

lemma ws_step_frame:
  assumes "ws_frame_idle s" "length key = 4" "length d < 2 ^ 62"
  shows "\<exists>s1 t. ws_step now (ws_add (SendWsFrame key op d) s) = Some (0, s1) \<and> ws_frame_idle s1 \<and> recv_buffer_vec s1 = [] \<and>
    s1 = ws_message now (op AND 0x0f) t \<and> ws_out t = ws_out s \<and> recv_buffer_vec t = recv_buffer_vec s @ [d]"
proof -
  let ?f = "ws_frame_of (ws_add (SendWsFrame key op d) s)"
  have "\<not> header_ready ?f" "ws_buffer ?f = SendWsFrame key op d" using assms(1) by (simp_all add: ws_frame_idle_def)
  from ws_Parse_frame [OF this assms(2,3)] obtain f1 where f1: "ws_Parse [] ?f = Some (0, f1)" "ws_opcode f1 = op AND 0x0f" "ws_fin f1"
    "ws_payload_len f1 = int (length d)" "GetPayloadData f1 = d" "ws_buffer (ws_Consume f1) = []" by blast
  have c: "ws_complete f1" using ws_Parse_add(1) [OF f1(1)] by blast
  have "PayloadIsReady f1" using not_ready_negative [OF c] f1(4) by fastforce
  then have st: "ws_step now (ws_add (SendWsFrame key op d) s) = Some (0, ws_taken now f1 (ws_add (SendWsFrame key op d) s))"
    unfolding ws_step_cases [OF f1(1)] using f1(4) by simp
  let ?s = "ws_add (SendWsFrame key op d) s"
  let ?t = "?s\<lparr>last_op_code := (if op AND 0x0f = WS_OP_TEXT_TYPE \<or> op AND 0x0f = WS_OP_BIN_TYPE then op AND 0x0f else last_op_code ?s),
          recv_buffer_vec := recv_buffer_vec ?s @ [d], ws_frame_of := ws_Reset (ws_Consume f1), die_count := 0\<rparr>"
  have "ws_taken now f1 ?s = ws_message now (op AND 0x0f) ?t" using f1(2,3,5) by (simp add: ws_taken_def Let_def)
  moreover have "ws_frame_idle (ws_message now (op AND 0x0f) ?t)" using f1(6) by (simp add: ws_frame_idle_def ws_message_frame ws_Reset_def)
  ultimately show ?thesis using st
    by (intro exI [of _ "ws_message now (op AND 0x0f) ?t"] exI [of _ ?t]) (simp add: ws_message_frame, simp add: ws_add_def)
qed

section \<open>Messages\<close>

lemma ws_loop_of_repeat:
  assumes "repeat_while_0 (ws_step now) s = Some (r, s')"
  shows "\<exists>q. ws_loop now s = Some (q, s')"
proof -
  have "\<exists>q. ws_loop now s = Some (q, snd x)" if "repeat_while_0 (ws_step now) s = Some x" for x
    using that
  proof (induction rule: repeat_while_0_induct)
    case (stop s r s')
    then show ?case by (subst ws_loop.simps) simp
  next
    case (again s s1 x)
    show ?case
    proof (cases "ws_buffer (ws_frame_of s1) = []")
      case True
      then have "ws_step now s1 = Some (1, s1)" by (simp add: ws_step_def ws_Parse_eq)
      then have "ws_loop now s1 = Some (1, s1)" by (subst ws_loop.simps) simp
      then have "snd x = s1" using again(2) by auto
      then show ?thesis using again(1) True by (subst ws_loop.simps) simp
    next
      case False
      then show ?thesis using again by (subst ws_loop.simps) simp
    qed
  qed
  from this [OF assms] show ?thesis by simp
qed

text \<open>The session reads piece after piece; the return code is not looked at.\<close>

primrec ws_feed :: "int \<Rightarrow> bytes list \<Rightarrow> ws_session \<Rightarrow> ws_session option" where
  "ws_feed now [] s = Some s"
| "ws_feed now (d # ds) s = (case HandleFrame now d s of None \<Rightarrow> None | Some (r, s') \<Rightarrow> ws_feed now ds s')"

lemma ws_feed_of_all: "feed_all (ws_step now) ws_add ds s = Some s' \<Longrightarrow> ws_feed now ds s = Some s'"
proof (induction ds arbitrary: s)
  case (Cons d ds)
  then obtain r s1 where r: "repeat_while_0 (ws_step now) (ws_add d s) = Some (r, s1)" "feed_all (ws_step now) ws_add ds s1 = Some s'"
    by (auto split: option.splits)
  obtain q where "HandleFrame now d s = Some (q, s1)" using ws_loop_of_repeat [OF r(1)] by (auto simp: HandleFrame_def)
  with Cons.IH [OF r(2)] show ?case by simp
qed simp

definition ws_received :: "bytes \<times> u8 \<times> bytes \<Rightarrow> ws_event" where
  "ws_received m = (case m of (key, op, d) \<Rightarrow> if op = WS_OP_TEXT_TYPE then OnReadText d else OnReadData d)"

definition ws_wire :: "bytes \<times> u8 \<times> bytes \<Rightarrow> bytes" where
  "ws_wire m = (case m of (key, op, d) \<Rightarrow> SendWsFrame key op d)"

definition ws_message_ok :: "bytes \<times> u8 \<times> bytes \<Rightarrow> bool" where
  "ws_message_ok m \<longleftrightarrow> (case m of (key, op, d) \<Rightarrow> length key = 4 \<and> (op = WS_OP_TEXT_TYPE \<or> op = WS_OP_BIN_TYPE) \<and> length d < 2 ^ 30)"

lemma ws_stream:
  assumes "\<forall>m\<in>set ms. ws_message_ok m" "ws_frame_idle s" "recv_buffer_vec s = []"
  shows "\<exists>s'. repeat_while_0 (ws_step now) (ws_add (concat (map ws_wire ms)) s) = Some (1, s') \<and> ws_frame_idle s' \<and>
    recv_buffer_vec s' = [] \<and> ws_out s' = ws_out s @ map ws_received ms"
  using assms
proof (induction ms arbitrary: s)
  case Nil
  then have "ws_step now (ws_add [] s) = Some (1, ws_add [] s)" by (simp add: ws_step_def ws_Parse_eq ws_frame_idle_def)
  moreover have "ws_add [] s = s" by (simp add: ws_add_def)
  ultimately show ?case using Nil by (intro exI [of _ s]) (simp add: repeat_while_0_stop)
next
  case (Cons m ms)
  obtain key op d where m: "m = (key, op, d)" by (cases m)
  have ok: "length key = 4" "op = WS_OP_TEXT_TYPE \<or> op = WS_OP_BIN_TYPE" "length d < 2 ^ 62" using Cons.prems(1) by (simp_all add: m ws_message_ok_def)
  from ws_step_frame [OF Cons.prems(2) ok(1,3), of now op] obtain s1 t where s1: "ws_step now (ws_add (SendWsFrame key op d) s) = Some (0, s1)"
    "ws_frame_idle s1" "recv_buffer_vec s1 = []" "s1 = ws_message now (op AND 0x0f) t" "ws_out t = ws_out s" "recv_buffer_vec t = [d]"
    using Cons.prems(3) by auto
  have "ws_out s1 = ws_out s @ [ws_received m]" using ok(2) s1(4-6)
    by (auto simp: m ws_received_def ws_message_def HandleWsData_def ws_call_def ws_ops)
  moreover have "ws_add (concat (map ws_wire (m # ms))) s = ws_add (concat (map ws_wire ms)) (ws_add (SendWsFrame key op d) s)"
    by (simp add: m ws_wire_def ws_add_def)
  moreover have "ws_step now (ws_add (concat (map ws_wire ms)) (ws_add (SendWsFrame key op d) s)) = Some (0, ws_add (concat (map ws_wire ms)) s1)"
    by (rule ws.step_decided [OF s1(1)]) simp
  ultimately show ?case using Cons.IH [OF _ s1(2,3)] Cons.prems(1) by (simp add: repeat_while_0_step)
qed

text \<open>
  What one end of a websocket sends, the other end hands to its callback, however the network cuts it.  Text and binary messages
  of less than \<open>2 ^ 30\<close> bytes, with any masking keys, are sent one after the other; the stream of their frames comes in any pieces, down to single
  bytes.  Then the receiving session's callback gets exactly the messages, in order, each with its kind and its bytes.
\<close>
theorem ws_messages_arrive:
  assumes "\<forall>m\<in>set ms. ws_message_ok m" "ws_frame_idle s" "recv_buffer_vec s = []" "concat ds = concat (map ws_wire ms)"
  shows "\<exists>s'. ws_feed now ds s = Some s' \<and> ws_out s' = ws_out s @ map ws_received ms \<and> ws_frame_idle s' \<and> recv_buffer_vec s' = []"
proof -
  obtain s' where s': "repeat_while_0 (ws_step now) (ws_add (concat ds) s) = Some (1, s')" "ws_frame_idle s'"
    "recv_buffer_vec s' = []" "ws_out s' = ws_out s @ map ws_received ms"
    using ws_stream [OF assms(1-3), of now] unfolding assms(4) by blast
  show ?thesis
  proof (cases "ds = []")
    case True
    then have "ms = []" using assms(4) by (cases ms) (auto simp: ws_wire_def SendWsFrame_def Let_def split: prod.splits)
    with True assms(2,3) show ?thesis by simp
  next
    case False
    from ws_feed_of_all [OF ws.feed_whole [OF s'(1) False]] s'(2-4) show ?thesis by blast
  qed
qed

theorem ws_messages_arrive_witness:
  "\<exists>s'. ws_feed 0 (map (\<lambda>b. [b]) (SendWsFrame [1, 2, 3, 4] WS_OP_TEXT_TYPE (str ''hello'') @ SendWsFrame [9, 8, 7, 6] WS_OP_BIN_TYPE []))
      (new_WebSocketSessionBase [0, 0, 0, 0]) = Some s' \<and> ws_out s' = [OnReadText (str ''hello''), OnReadData []]"
proof -
  let ?ms = "[([1, 2, 3, 4], WS_OP_TEXT_TYPE, str ''hello''), ([9, 8, 7, 6], WS_OP_BIN_TYPE, [])] :: (bytes \<times> u8 \<times> bytes) list"
  have "concat (map (\<lambda>b. [b]) xs) = xs" for xs :: bytes by (induction xs) simp_all
  with ws_messages_arrive [of ?ms "new_WebSocketSessionBase [0, 0, 0, 0]" "map (\<lambda>b. [b]) (concat (map ws_wire ?ms))" 0]
  have "\<exists>s'. ws_feed 0 (map (\<lambda>b. [b]) (concat (map ws_wire ?ms))) (new_WebSocketSessionBase [0, 0, 0, 0]) = Some s' \<and>
      ws_out s' = ws_out (new_WebSocketSessionBase [0, 0, 0, 0]) @ map ws_received ?ms"
    by (auto simp: ws_message_ok_def ws_frame_idle_def new_WebSocketSessionBase_def new_WebSocketFrame_def)
  then show ?thesis by (simp add: ws_wire_def ws_received_def new_WebSocketSessionBase_def ws_ops)
qed

text \<open>
  A ping between the fragments of a message destroys the message.  The standard allows control frames there; but the session keeps
  the payload of a ping in the same list as the fragments, sends a pong for each entry of the list, and empties it: the fragments
  that have come are sent back as pongs, and are lost.
\<close>
theorem ws_ping_loses_fragments:
  assumes "ws_frame_idle s" "length key = 4" "length d < 2 ^ 30"
  shows "\<exists>s'. HandleFrame now (SendWsFrame key WS_OP_PING_TYPE d) s = Some (0, s') \<and> recv_buffer_vec s' = [] \<and>
    ws_out s' = ws_out s @ map (SendFrame WS_OP_PONG_TYPE) (recv_buffer_vec s @ [d])"
proof -
  have d: "length d < 2 ^ 62" using assms(3) by simp
  have p: "fold (\<lambda>d s. ws_call (SendFrame WS_OP_PONG_TYPE d) s) xs t = t\<lparr>ws_out := ws_out t @ map (SendFrame WS_OP_PONG_TYPE) xs\<rparr>" for xs t
    by (induction xs arbitrary: t) (simp_all add: ws_call_def)
  have ping: "HandleWsPing t = t\<lparr>ws_out := ws_out t @ map (SendFrame WS_OP_PONG_TYPE) (recv_buffer_vec t)\<rparr>" for t
    unfolding HandleWsPing_def by (rule p)
  from ws_step_frame [OF assms(1,2) d, of now WS_OP_PING_TYPE] obtain s1 t where
    s1: "ws_step now (ws_add (SendWsFrame key WS_OP_PING_TYPE d) s) = Some (0, s1)" "ws_frame_idle s1" "recv_buffer_vec s1 = []"
    "s1 = ws_message now (WS_OP_PING_TYPE AND 0x0f) t" "ws_out t = ws_out s" "recv_buffer_vec t = recv_buffer_vec s @ [d]" by blast
  have "ws_out s1 = ws_out s @ map (SendFrame WS_OP_PONG_TYPE) (recv_buffer_vec s @ [d])"
    unfolding s1(4) using s1(5,6) by (simp add: ws_message_def ping ws_ops)
  moreover have "HandleFrame now (SendWsFrame key WS_OP_PING_TYPE d) s = Some (0, s1)"
    unfolding HandleFrame_def using s1(1,2) by (subst ws_loop.simps) (simp add: ws_frame_idle_def)
  ultimately show ?thesis using s1(3) by blast
qed

theorem ws_ping_loses_fragments_witness:
  "\<exists>s'. HandleFrame 0 (SendWsFrame [1, 2, 3, 4] WS_OP_PING_TYPE []) ((new_WebSocketSessionBase [0, 0, 0, 0])\<lparr>recv_buffer_vec := [str ''hel'']\<rparr>) =
      Some (0, s') \<and> recv_buffer_vec s' = [] \<and> ws_out s' = [SendFrame WS_OP_PONG_TYPE (str ''hel''), SendFrame WS_OP_PONG_TYPE []]"
  using ws_ping_loses_fragments [of "(new_WebSocketSessionBase [0, 0, 0, 0])\<lparr>recv_buffer_vec := [str ''hel'']\<rparr>" "[1, 2, 3, 4]" "[]" 0]
  by (simp add: ws_frame_idle_def new_WebSocketSessionBase_def new_WebSocketFrame_def)

end
