(* ===== verification/Spec2Isabelle.thy ===== *)
theory Spec2Isabelle
  imports DataBuffer StunRoundtrip RtmpMedia RtmpClient FlvPipeline TsWf RtpH264 RtpCopy JitterBuffer RtcPipeline Websocket
begin

text \<open>
  cpp_streamer is a C++ library of media streaming components: stages that take packets apart and
  put them together (FLV, MPEG-TS), and sessions that move them over the network (RTMP, and
  WebRTC with RTP and RTCP).  This development is a shallow embedding of these parts and of the
  helpers they rest on.  Paths below are relative to src/src.  Each definition has the name of the function it
  models; where two classes have a function of the same name, a prefix tells them apart
  (\<open>ts_\<close>, \<open>flv_\<close>, \<open>jb_\<close> for the jitter buffer, \<open>ss_\<close> and \<open>rs_\<close> for the send and the receive stream,
  \<open>pc_\<close> for the peer connection).

  \<^bold>\<open>How the code is modelled.\<close>  A class is a record of its fields and a method a function from the
  record to the new one.  An integer has its width in the code (\<open>u8\<close> to \<open>u64\<close>), and its arithmetic
  wraps; a signed integer is an \<open>int\<close> where the code's values cannot overflow.  A \<open>std::map\<close> is the list of
  its entries in key order.  A pointer into a buffer is the list of bytes from the pointer on.
  A read or write outside the memory, a null pointer, a division by zero and a shift by too much are undefined in
  C++: the model gives \<open>None\<close>, so a theorem that says \<open>Some\<close> also says that the
  behaviour is defined.  An exception is \<open>Inl\<close> with its kind, and a return code is a number as in the code.
  Callbacks, sends and log reports of a call are the list of its events, in
  order.  The clock is an argument; so is the content of fresh memory, about which nothing is assumed.  A loop that
  may not end is a \<open>partial_function\<close>, for which \<open>None\<close> at the outside is no result; the other loops are total
  functions, by their structure or by a measure.  Only the AMF0 decoder has fuel, since its
  recursion goes through values in objects: \<open>Decode_fuel\<close> shows that the fuel that \<open>amf_decode\<close> gives, which
  the length of the input bounds, is never used up.

  \<^bold>\<open>Helpers.\<close>  \<open>Prelude\<close> has the byte lists and the lemmas about words that all theories use.
  \<open>ByteStream\<close> (utils/byte_stream.hpp) reads and writes numbers, each reader inverse to its writer.
  \<open>DataBuffer\<close> (utils/data_buffer.hpp) is the byte queue with its allocation, its reserve in front and its growth: the
  locale \<open>byte_queue\<close> states what a queue promises, the class is shown to refine the list of its
  bytes, and the exact cases of undefined behaviour are found.  \<open>Media\<close>
  (utils/av/av.hpp, media_packet.hpp) is the packet that all parts pass on, \<open>Streamer\<close>
  (cpp_streamer_interface.hpp) the stage with its sinks, and the locale \<open>resumable\<close> for stages to which the cut of
  their input does not matter.  \<open>CFloat\<close> is the rounding of \<open>float\<close> and \<open>double\<close>.

  \<^bold>\<open>RTMP\<close> (net/rtmp).  \<open>ChunkStream\<close> (chunk_stream.cpp) reads and writes the chunks of one stream;
  \<open>RtmpSession\<close> (rtmp_session_base.cpp) demultiplexes the chunk streams.  Messages that one side
  writes come out at the other (\<open>RTMP_message_roundtrip\<close>), however the bytes are cut
  (\<open>RTMP_read_resumes\<close>, with the one cut at which it goes wrong).  \<open>Amf0\<close> (format/amf/amf0.hpp) is the codec of the
  command values; \<open>RtmpControl\<close> (rtmp_control_handler.cpp) handles and makes the commands, and
  \<open>RtmpClient\<close> (rtmp_client_session.cpp, rtmp_handshake.hpp) is the client with its phases from the
  handshake to the media phase, which is never left.  \<open>FlvPub\<close> and \<open>RtmpMedia\<close> carry a media packet through
  a message.

  \<^bold>\<open>FLV\<close> (format/flv).  \<open>FlvMux\<close> and \<open>FlvDemux\<close> are the two stages, \<open>NaluHeader\<close> and \<open>AudioHeader\<close>
  (format/h264_h265_header.cpp, audio_header.cpp) the codec headers they read.  \<open>FlvPipeline\<close> composes them: what
  is muxed is demuxed again, the cut of the stream does not matter (by an
  \<open>interpretation\<close> of \<open>resumable\<close>), and there are configuration tags at which the demuxer hangs or aborts.

  \<^bold>\<open>MPEG-TS\<close> (format/mpegts).  \<open>TsCrc\<close> shows the checksum table to be that of the
  standard.  \<open>TsMux\<close> and \<open>TsDemux\<close> are the two stages, \<open>OpusHeader\<close> (format/opus_header.cpp) the Opus access units.
  \<open>TsPipeline\<close> follows one access unit through its transport packets and \<open>TsStream\<close> a whole stream
  with its tables; \<open>TsWf\<close> has the invariant of the muxer and the shape of every packet it emits.

  \<^bold>\<open>RTP and RTCP\<close> (net/rtprtcp).  \<open>RtpPacket\<close> and \<open>RtpCopy\<close> (rtprtcp_pub.hpp, rtp_packet.cpp) are the packet, the order of
  the sequence numbers and the RTX encapsulation.  \<open>RtpH264\<close> (rtp_h264_pack.cpp, net/webrtc/pack_handle_h264.cpp) cuts NALUs into
  packets and puts them together again.  \<open>Rtcp\<close> has the sender and receiver reports and the extended reports.

  \<^bold>\<open>WebRTC\<close> (net/webrtc).  \<open>JitterBuffer\<close> (jitterbuffer.cpp) puts packets in order; \<open>RtcNack\<close>
  (nack_generator.cpp, net/rtprtcp/rtcpfb_nack.hpp) asks for lost ones.  \<open>RtcSend\<close> and \<open>RtcRecv\<close> (rtc_send_stream.cpp,
  rtc_recv_stream.cpp) are the two ends of one stream; \<open>RtcTiming\<close> shows that the reports that they exchange give
  the round trip time.  \<open>Crc32\<close> (utils/byte_crypto.cpp) is the checksum of STUN, with the table against its polynomial, \<open>Stun\<close> (net/stun/stun.cpp)
  the parser and the serializer of the binding messages, and \<open>StunRoundtrip\<close> composes the two.
  \<open>PeerConn\<close> (peerconnection.cpp) is the connection that
  holds the streams, tells the datagrams apart and runs the timers.  \<open>RtcFrames\<close> and \<open>RtcPipeline\<close> compose everything: what a
  send stream sends, through a network that reorders and repeats, is what the
  callback at the other end gets.  The inductive relation \<open>nack_reach\<close> keeps the history of the requests, and \<open>waits_ok\<close> and
  \<open>frames_on_time\<close> say of the times at which packets come that none waits for longer than the timeout, over streams of any length.

  \<^bold>\<open>Websocket\<close> (net/http/websocket).  \<open>Websocket\<close> is the frame parser, the session that puts frames together and the client's
  side of it: an \<open>interpretation\<close> of \<open>strict_resumable\<close>, which extends \<open>resumable\<close>, shows that messages arrive however the
  stream is cut (\<open>ws_messages_arrive\<close>), and \<open>ws_ping_loses_fragments\<close> what a ping does to a message in fragments.

  \<^bold>\<open>Errors the development shows.\<close>  Several theorems state what the code does and should not: an RTMP command with an
  unknown value type, an FLV configuration tag and an RTCP datagram that each hang the receiver, lost numbers that are
  asked for at the wrong place, audio frames that are cut, fragments that are lost by a length
  comparison, STUN requests that the code's own parser refuses.  They are exact: each gives the inputs and what comes out.

  \<^bold>\<open>Bounds.\<close>  Lengths in the round trips are bounded where the formats bound them (24-bit lengths in RTMP and FLV, 16-bit lengths in
  AMF0 keys, RTP packets of 1500 bytes); each bound is a hypothesis of its theorem, which a
  witness meets at a concrete input.

  \<^bold>\<open>Not modelled.\<close>  The MP4 demuxer (format/mp4), the session description (format/sdp), the HTTP code with the
  websocket handshake and the server's websocket session, the signalling clients (whip, whep, mediasoup) and the RTMP play and publish stages are left out; the
  peer connection reads the session description through its getters, as a record.  Third-party code is
  only called: OpenSSL (in dtls.cpp, byte_crypto.cpp and the complex RTMP handshake), libsrtp, libuv and
  the JSON parser utils/json.hpp; its results are arguments where a modelled function uses them.  Logging, sockets,
  threads and the programs under tools do input and output.
\<close>

end
